(* ===== verification/Rust_Base.thy ===== *)
theory Rust_Base
  imports Main "HOL-Library.Word" "HOL-Library.List_Lexorder" "HOL-Library.Char_ord"
begin

text \<open>
  Prelude of the development: the part of the Rust language and of its standard library that
  the NTD97 crates use.

  \<^item> machine integers are words (\<open>u8\<close> to \<open>u64\<close>); \<open>usize\<close> is a natural number below
    \<open>2 ^ 64\<close> (the crates target 64-bit ARM and x86), and every checked or saturating operation
    is written out, with its bound stated over \<open>int\<close>, where numerals are binary and a witness
    computes;
  \<^item> \<open>Result\<close> is the sum type with the error on the left, \<open>?\<close> is \<open>rbind\<close>;
  \<^item> a method on \<open>&mut self\<close> that returns a \<open>Result\<close> is a function from the state to the
    result \<^emph>\<open>and\<close> the state it leaves behind, also when it fails (\<open>sbind\<close>): what a method wrote
    before an early return is still there after it;
  \<^item> \<open>String\<close> is the list of its UTF-8 bytes as HOL characters; \<open>str_ok\<close> is the language's
    guarantee that these bytes are well-formed UTF-8.
\<close>

section \<open>Collections of facts\<close>

named_theorems result_simps \<open>unfolding of the result and state combinators\<close>
named_theorems codec_intros \<open>how a decoder reads back what an encoder wrote\<close>
named_theorems wp_simps \<open>weakest preconditions of the state combinators\<close>
named_theorems str_oks \<open>closure of well-formed UTF-8 under the string operations\<close>

section \<open>Machine integers\<close>

type_synonym u8 = "8 word"
type_synonym u16 = "16 word"
type_synonym u32 = "32 word"
type_synonym u64 = "64 word"
type_synonym i32 = "32 word"

text \<open>\<open>checked_add\<close>, \<open>saturating_add\<close>, \<open>saturating_mul\<close> on an unsigned integer type.\<close>

definition checked_add :: "'n::len word \<Rightarrow> 'n word \<Rightarrow> 'n word option" where
  "checked_add a b = (if uint a + uint b < 2 ^ LENGTH('n) then Some (a + b) else None)"

definition saturating_add :: "'n::len word \<Rightarrow> 'n word \<Rightarrow> 'n word" where
  "saturating_add a b = (if uint a + uint b < 2 ^ LENGTH('n) then a + b else - 1)"

definition saturating_mul :: "'n::len word \<Rightarrow> 'n word \<Rightarrow> 'n word" where
  "saturating_mul a b = (if uint a * uint b < 2 ^ LENGTH('n) then a * b else - 1)"

text \<open>The number of values of \<open>usize\<close>.\<close>

definition usize_bound :: int where
  "usize_bound = 2 ^ 64"

lemma uint_add_less: "uint a + uint b < 2 ^ LENGTH('n) \<longleftrightarrow> unat a + unat b < 2 ^ LENGTH('n)"
  for a b :: "'n::len word"
proof -
  have "uint a + uint b = int (unat a + unat b)" by simp
  moreover have "(2 :: int) ^ LENGTH('n) = int (2 ^ LENGTH('n))" by simp
  ultimately show ?thesis by (simp only: of_nat_less_iff)
qed

lemma uint_mult_less: "uint a * uint b < 2 ^ LENGTH('n) \<longleftrightarrow> unat a * unat b < 2 ^ LENGTH('n)"
  for a b :: "'n::len word"
proof -
  have "uint a * uint b = int (unat a * unat b)" by simp
  moreover have "(2 :: int) ^ LENGTH('n) = int (2 ^ LENGTH('n))" by simp
  ultimately show ?thesis by (simp only: of_nat_less_iff)
qed

lemma checked_add_unat:
  "checked_add a b = Some c \<Longrightarrow> unat c = unat a + unat b"
  by (auto simp: checked_add_def uint_add_less unat_word_ariths split: if_splits)

lemma checked_add_less:
  "checked_add a 1 = Some c \<Longrightarrow> a < (c :: 'n::len word)"
proof -
  assume *: "checked_add a 1 = Some c"
  then have "unat c = unat a + unat (1 :: 'n word)"
    by (rule checked_add_unat)
  then show "a < c" by (simp add: word_less_nat_alt)
qed

lemma checked_add_nonzero:
  "checked_add a 1 = Some c \<Longrightarrow> c \<noteq> (0 :: 'n::len word)"
  using checked_add_less [of a c] by auto

lemma unat_max_word: "unat (- 1 :: 'n::len word) = 2 ^ LENGTH('n) - 1"
  by (simp add: unsigned_minus_1_eq_mask mask_eq_exp_minus_1)

lemma checked_add_None:
  assumes "checked_add a 1 = None"
  shows "a = (- 1 :: 'n::len word)"
proof -
  have "\<not> unat a + unat (1 :: 'n word) < 2 ^ LENGTH('n)"
    using assms unfolding checked_add_def uint_add_less by (simp split: if_splits)
  moreover have "unat a < 2 ^ LENGTH('n)" by (rule unsigned_less)
  moreover have "unat (1 :: 'n word) = 1" by simp
  ultimately have "unat a = 2 ^ LENGTH('n) - 1" by linarith
  then have "unat a = unat (- 1 :: 'n word)" by (simp add: unat_max_word)
  then show ?thesis by (simp only: word_unat_eq_iff)
qed

lemma saturating_add_unat:
  "unat (saturating_add a b) = min (unat a + unat b) (2 ^ LENGTH('n) - 1)"
  for a b :: "'n::len word"
proof (cases "unat a + unat b < 2 ^ LENGTH('n)")
  case True
  then show ?thesis by (simp add: saturating_add_def uint_add_less unat_word_ariths)
next
  case False
  then show ?thesis by (simp add: saturating_add_def uint_add_less unat_max_word)
qed

lemma saturating_mul_unat:
  "unat (saturating_mul a b) = min (unat a * unat b) (2 ^ LENGTH('n) - 1)"
  for a b :: "'n::len word"
proof (cases "unat a * unat b < 2 ^ LENGTH('n)")
  case True
  then show ?thesis by (simp add: saturating_mul_def uint_mult_less unat_word_ariths)
next
  case False
  then show ?thesis by (simp add: saturating_mul_def uint_mult_less unat_max_word)
qed

lemma saturating_add_ge: "a \<le> saturating_add a b"
proof -
  have "unat a < 2 ^ LENGTH('a)" by (rule unsigned_less)
  then have "unat a \<le> 2 ^ LENGTH('a) - 1" by linarith
  then show ?thesis by (simp add: word_le_nat_alt saturating_add_unat)
qed

section \<open>Results\<close>

definition rbind :: "'e + 'a \<Rightarrow> ('a \<Rightarrow> 'e + 'b) \<Rightarrow> 'e + 'b" where
  "rbind r f = (case r of Inl e \<Rightarrow> Inl e | Inr a \<Rightarrow> f a)"

definition map_err :: "('e \<Rightarrow> 'f) \<Rightarrow> 'e + 'a \<Rightarrow> 'f + 'a" where
  "map_err h r = (case r of Inl e \<Rightarrow> Inl (h e) | Inr a \<Rightarrow> Inr a)"

definition ok_or :: "'e \<Rightarrow> 'a option \<Rightarrow> 'e + 'a" where
  "ok_or e v = (case v of None \<Rightarrow> Inl e | Some a \<Rightarrow> Inr a)"

lemma rbind_simps [simp, code]:
  "rbind (Inl e) f = Inl e"
  "rbind (Inr a) f = f a"
  by (simp_all add: rbind_def)

lemma map_err_simps [simp, code]:
  "map_err h (Inl e) = Inl (h e)"
  "map_err h (Inr a) = Inr a"
  by (simp_all add: map_err_def)

lemma ok_or_simps [simp, code]:
  "ok_or e None = Inl e"
  "ok_or e (Some a) = Inr a"
  by (simp_all add: ok_or_def)

lemma rbind_eq_Inr [simp]: "rbind r f = Inr b \<longleftrightarrow> (\<exists>a. r = Inr a \<and> f a = Inr b)"
  by (cases r) auto

lemma map_err_eq_Inr [simp]: "map_err h r = Inr a \<longleftrightarrow> r = Inr a"
  by (cases r) auto

lemma ok_or_eq_Inr [simp]: "ok_or e v = Inr a \<longleftrightarrow> v = Some a"
  by (cases v) auto

lemma ok_or_eq_Inl [simp]: "ok_or e v = Inl e' \<longleftrightarrow> v = None \<and> e' = e"
  by (cases v) auto

lemma rbind_eq_Inl: "rbind r f = Inl e \<longleftrightarrow> r = Inl e \<or> (\<exists>a. r = Inr a \<and> f a = Inl e)"
  by (cases r) auto

text \<open>A validation pass: the first element that fails decides.\<close>

fun check_all :: "('a \<Rightarrow> 'e + unit) \<Rightarrow> 'a list \<Rightarrow> 'e + unit" where
  "check_all f [] = Inr ()"
| "check_all f (x # xs) = rbind (f x) (\<lambda>_. check_all f xs)"

lemma check_all_Inr [simp]: "check_all f xs = Inr () \<longleftrightarrow> (\<forall>x \<in> set xs. f x = Inr ())"
  by (induction xs) auto

section \<open>Methods that update the state they are called on\<close>

type_synonym ('s, 'e, 'a) op = "'s \<Rightarrow> ('e + 'a) \<times> 's"

definition sret :: "'a \<Rightarrow> ('s, 'e, 'a) op" where
  "sret a = (\<lambda>s. (Inr a, s))"

definition sfail :: "'e \<Rightarrow> ('s, 'e, 'a) op" where
  "sfail e = (\<lambda>s. (Inl e, s))"

definition sbind :: "('s, 'e, 'a) op \<Rightarrow> ('a \<Rightarrow> ('s, 'e, 'b) op) \<Rightarrow> ('s, 'e, 'b) op" where
  "sbind m f = (\<lambda>s. case m s of (Inl e, s') \<Rightarrow> (Inl e, s') | (Inr a, s') \<Rightarrow> f a s')"

definition sget :: "('s \<Rightarrow> 'a) \<Rightarrow> ('s, 'e, 'a) op" where
  "sget f = (\<lambda>s. (Inr (f s), s))"

definition smodify :: "('s \<Rightarrow> 's) \<Rightarrow> ('s, 'e, unit) op" where
  "smodify f = (\<lambda>s. (Inr (), f s))"

text \<open>\<open>expr?\<close> for a pure expression that may fail.\<close>

definition slift :: "'e + 'a \<Rightarrow> ('s, 'e, 'a) op" where
  "slift r = (\<lambda>s. (r, s))"

text \<open>A method of a field of the state, with its error converted by \<open>From\<close>.\<close>

definition sfield ::
    "('s \<Rightarrow> 't) \<Rightarrow> ('t \<Rightarrow> 's \<Rightarrow> 's) \<Rightarrow> ('f \<Rightarrow> 'e) \<Rightarrow> ('t, 'f, 'a) op \<Rightarrow> ('s, 'e, 'a) op" where
  "sfield sel upd conv m = (\<lambda>s. case m (sel s) of (r, t') \<Rightarrow> (map_err conv r, upd t' s))"

lemma op_apply [result_simps]:
  "sret a s = (Inr a, s)"
  "sfail e s = (Inl e, s)"
  "sget f s = (Inr (f s), s)"
  "smodify g s = (Inr (), g s)"
  "slift r s = (r, s)"
  by (simp_all add: sret_def sfail_def sget_def smodify_def slift_def)

lemma sbind_apply [result_simps]:
  "sbind m f s = (case m s of (Inl e, s') \<Rightarrow> (Inl e, s') | (Inr a, s') \<Rightarrow> f a s')"
  by (simp add: sbind_def)

lemma sfield_apply [result_simps]:
  "sfield sel upd conv m s = (map_err conv (fst (m (sel s))), upd (snd (m (sel s))) s)"
  by (simp add: sfield_def split: prod.splits)

text \<open>
  \<open>keeps I m\<close>: the method leaves the invariant intact, whatever it returns. The rules below
  make invariant proofs follow the structure of the code.
\<close>

definition keeps :: "('s \<Rightarrow> bool) \<Rightarrow> ('s, 'e, 'a) op \<Rightarrow> bool" where
  "keeps I m \<longleftrightarrow> (\<forall>s. I s \<longrightarrow> I (snd (m s)))"

lemma keepsI: "(\<And>s. I s \<Longrightarrow> I (snd (m s))) \<Longrightarrow> keeps I m"
  by (simp add: keeps_def)

lemma keepsD: "keeps I m \<Longrightarrow> I s \<Longrightarrow> I (snd (m s))"
  by (simp add: keeps_def)

lemma keeps_basic [intro!, simp]:
  "keeps I (sret a)" "keeps I (sfail e)" "keeps I (sget f)" "keeps I (slift r)"
  by (simp_all add: keeps_def op_apply)

lemma keeps_sbind [intro]:
  assumes "keeps I m" and "\<And>a. keeps I (f a)"
  shows "keeps I (sbind m f)"
proof (rule keepsI)
  fix s assume s: "I s"
  obtain r s' where m: "m s = (r, s')" by (cases "m s")
  with assms(1) s have "I s'" by (auto dest: keepsD)
  with assms(2) m show "I (snd (sbind m f s))"
    by (cases r) (auto simp: sbind_def dest: keepsD)
qed

lemma keeps_if [intro]:
  "(c \<Longrightarrow> keeps I m) \<Longrightarrow> (\<not> c \<Longrightarrow> keeps I n) \<Longrightarrow> keeps I (if c then m else n)"
  by simp

text \<open>
  \<open>wp m Q E s\<close>: run from \<open>s\<close>, the method returns a value and a state that satisfy \<open>Q\<close>, or
  fails with an error and a state that satisfy \<open>E\<close>. The equations compute it along the code; a
  method that is called rather than unfolded enters through its own contract and \<open>wp_conseq\<close>.
\<close>

definition wp :: "('s, 'e, 'a) op \<Rightarrow> ('a \<Rightarrow> 's \<Rightarrow> bool) \<Rightarrow> ('e \<Rightarrow> 's \<Rightarrow> bool) \<Rightarrow> 's \<Rightarrow> bool" where
  "wp m Q E s \<longleftrightarrow> (case m s of (Inl e, s') \<Rightarrow> E e s' | (Inr a, s') \<Rightarrow> Q a s')"

lemma wp_basic [wp_simps]:
  "wp (sret a) Q E = Q a"
  "wp (sfail e) Q E = E e"
  "wp (sget f) Q E = (\<lambda>s. Q (f s) s)"
  "wp (smodify g) Q' E = (\<lambda>s. Q' () (g s))"
  "wp (slift r) Q E = (\<lambda>s. case r of Inl e \<Rightarrow> E e s | Inr a \<Rightarrow> Q a s)"
  by (simp_all add: fun_eq_iff wp_def op_apply split: sum.splits)

lemma wp_sbind [wp_simps]: "wp (sbind m f) Q E = wp m (\<lambda>a. wp (f a) Q E) E"
  by (auto simp: fun_eq_iff wp_def sbind_def split: prod.splits sum.splits)

lemma wp_sfield [wp_simps]:
  "wp (sfield sel upd conv m) Q E =
    (\<lambda>s. wp m (\<lambda>a t. Q a (upd t s)) (\<lambda>e t. E (conv e) (upd t s)) (sel s))"
  by (auto simp: fun_eq_iff wp_def sfield_def split: prod.splits sum.splits)

lemma wp_if [wp_simps]:
  "wp (if c then m else n) Q E = (if c then wp m Q E else wp n Q E)"
  by simp

lemma wp_conseq:
  assumes "wp m Q E s" and "\<And>a s'. Q a s' \<Longrightarrow> Q' a s'" and "\<And>e s'. E e s' \<Longrightarrow> E' e s'"
  shows "wp m Q' E' s"
  using assms by (auto simp: wp_def split: prod.splits sum.splits)

lemma wp_conj: "wp m Q E s \<Longrightarrow> wp m Q' E' s \<Longrightarrow> wp m (\<lambda>a s. Q a s \<and> Q' a s) (\<lambda>e s. E e s \<and> E' e s) s"
  by (auto simp: wp_def split: prod.splits sum.splits)

lemma wp_result: "wp m Q E s \<Longrightarrow> m s = (Inr a, s') \<Longrightarrow> Q a s'"
  by (simp add: wp_def)

lemma wp_error: "wp m Q E s \<Longrightarrow> m s = (Inl e, s') \<Longrightarrow> E e s'"
  by (simp add: wp_def)

text \<open>
  Trait objects that the caller supplies run in a world of their own, which is threaded beside the
  state: \<open>on_self\<close> is a method that does not call out, \<open>call_out\<close> is a call of such an object.
\<close>

definition on_self :: "('s, 'e, 'a) op \<Rightarrow> ('s \<times> 'w, 'e, 'a) op" where
  "on_self m = sfield fst (\<lambda>s r. (s, snd r)) (\<lambda>e. e) m"

definition call_out :: "('w \<Rightarrow> 'r \<times> 'w) \<Rightarrow> ('s \<times> 'w, 'e, 'r) op" where
  "call_out f = (\<lambda>(s, w). case f w of (r, w') \<Rightarrow> (Inr r, (s, w')))"

lemma wp_on_self [wp_simps]:
  "wp (on_self m) Q E = (\<lambda>r. wp m (\<lambda>a s. Q a (s, snd r)) (\<lambda>e s. E e (s, snd r)) (fst r))"
  by (simp add: on_self_def wp_simps)

lemma wp_call_out [wp_simps]:
  "wp (call_out f) Q E = (\<lambda>r. case f (snd r) of (a, w') \<Rightarrow> Q a (fst r, w'))"
  by (auto simp: wp_def call_out_def fun_eq_iff split: prod.splits)

lemma wp_run:
  assumes "wp m Q E s" and "m s = (res, s')"
  shows "(case res of Inl e \<Rightarrow> E e s' | Inr a \<Rightarrow> Q a s')"
  using assms by (simp add: wp_def)

lemma wp_snd: "wp m (\<lambda>_. I) (\<lambda>_. I) s \<longleftrightarrow> I (snd (m s))"
  by (auto simp: wp_def split: prod.splits sum.splits)

lemma keeps_wp: "keeps I m \<longleftrightarrow> (\<forall>s. I s \<longrightarrow> wp m (\<lambda>_. I) (\<lambda>_. I) s)"
  by (simp add: keeps_def wp_snd)

lemmas keeps_wpD = keeps_wp [THEN iffD1, rule_format]

text \<open>
  A component held in a field of a larger state: the larger invariant \<open>I\<close> implies the component's
  invariant \<open>J\<close> and does not mind which state satisfying \<open>J\<close> the field holds. Every method of the
  component that keeps \<open>J\<close> then keeps \<open>I\<close> when it is called through the field.
\<close>

locale component_field =
  fixes sel :: "'s \<Rightarrow> 't" and upd :: "'t \<Rightarrow> 's \<Rightarrow> 's" and I :: "'s \<Rightarrow> bool" and J :: "'t \<Rightarrow> bool"
  assumes field_ok: "I s \<Longrightarrow> J (sel s)"
    and field_upd: "I s \<Longrightarrow> J t \<Longrightarrow> I (upd t s)"
begin

lemma keeps_field: "keeps J m \<Longrightarrow> keeps I (sfield sel upd conv m)"
  by (rule keepsI) (simp add: sfield_apply field_ok field_upd keepsD)

end

section \<open>Strings\<close>

text \<open>The bytes of a string and the string of some bytes.\<close>

definition str_bytes :: "string \<Rightarrow> u8 list" where
  "str_bytes s = map (\<lambda>c. of_nat (of_char c)) s"

definition bytes_str :: "u8 list \<Rightarrow> string" where
  "bytes_str bs = map (\<lambda>b. char_of (unat b)) bs"

lemma char_of_byte: "char_of (unat (of_nat (of_char c) :: u8)) = c"
proof -
  have "(of_char c :: nat) < 256" by simp
  then show ?thesis by (simp add: unat_of_nat)
qed

lemma byte_of_char: "of_nat (of_char (char_of (unat b))) = (b :: u8)"
proof -
  have "unat b < 256" using unsigned_less [of b, where ?'a = nat] by simp
  then show ?thesis by simp
qed

lemma bytes_str_str_bytes [simp]: "bytes_str (str_bytes s) = s"
  by (simp add: bytes_str_def str_bytes_def comp_def char_of_byte)

lemma str_bytes_bytes_str [simp]: "str_bytes (bytes_str bs) = bs"
  by (simp add: bytes_str_def str_bytes_def comp_def byte_of_char del: of_char_of)

lemma length_str_bytes [simp]: "length (str_bytes s) = length s"
  by (simp add: str_bytes_def)

lemma str_bytes_append: "str_bytes (s @ t) = str_bytes s @ str_bytes t"
  by (simp add: str_bytes_def)

definition starts_with :: "u8 list \<Rightarrow> u8 list \<Rightarrow> bool" where
  "starts_with bytes prefix \<longleftrightarrow> take (length prefix) bytes = prefix"

section \<open>Vectors: sort, then dedup\<close>

lemma strict_remdups_adj: "sorted xs \<Longrightarrow> sorted_wrt (<) (remdups_adj (xs :: 'a::linorder list))"
proof (induction xs rule: remdups_adj.induct)
  case (3 x y xs)
  then show ?case
    using remdups_adj_set [of "y # xs"] by (auto simp: less_le)
qed simp_all

lemma sorted_remdups_adj_strict: "sorted_wrt (<) (remdups_adj (sort (xs :: 'a::linorder list)))"
  by (rule strict_remdups_adj) simp

lemma remdups_adj_sort_strict: "sorted_wrt (<) xs \<Longrightarrow> remdups_adj (sort xs) = (xs :: 'a::linorder list)"
  by (simp add: strict_sorted_iff sorted_sort_id remdups_adj_distinct)

text \<open>\<open>v.windows(2).all(|pair| pair[0] < pair[1])\<close>\<close>

fun strictly_increasing :: "'a::ord list \<Rightarrow> bool" where
  "strictly_increasing (x # y # ys) \<longleftrightarrow> x < y \<and> strictly_increasing (y # ys)"
| "strictly_increasing _ \<longleftrightarrow> True"

lemma strictly_increasing_iff: "strictly_increasing xs \<longleftrightarrow> sorted_wrt (<) (xs :: 'a::linorder list)"
  by (induction xs rule: strictly_increasing.induct) (auto dest: less_trans)

end
