(* ===== verification/Rust_Strings.thy ===== *)
theory Rust_Strings
  imports Rust_Base
begin

text \<open>
  \<open>String\<close> and \<open>str\<close> as the crates use them: UTF-8 validation (\<open>String::from_utf8\<close>), the
  characters of a string, \<open>trim\<close>, \<open>split_whitespace\<close>, \<open>to_ascii_lowercase\<close> and the decimal
  \<open>Display\<close> of an unsigned integer. A character is the list of its UTF-8 bytes. White space is
  the Unicode property \<open>White_Space\<close>, given in full; the property \<open>Alphanumeric\<close> is a table of
  the Unicode database and stays a parameter of the functions that use it.
\<close>

section \<open>UTF-8\<close>

definition is_cont :: "u8 \<Rightarrow> bool" where
  "is_cont b \<longleftrightarrow> 128 \<le> b \<and> b \<le> 191"

text \<open>The length of the well-formed character at the front of some bytes, 0 if there is none.\<close>

definition lead2 :: "u8 \<Rightarrow> bool" where
  "lead2 a \<longleftrightarrow> 194 \<le> a \<and> a \<le> 223"

definition lead3 :: "u8 \<Rightarrow> bool" where
  "lead3 a \<longleftrightarrow> 224 \<le> a \<and> a \<le> 239"

definition lead4 :: "u8 \<Rightarrow> bool" where
  "lead4 a \<longleftrightarrow> 240 \<le> a \<and> a \<le> 244"

text \<open>No overlong form, no surrogate, nothing above U+10FFFF.\<close>

definition second3 :: "u8 \<Rightarrow> u8 \<Rightarrow> bool" where
  "second3 a b \<longleftrightarrow> is_cont b \<and> (a = 224 \<longrightarrow> 160 \<le> b) \<and> (a = 237 \<longrightarrow> b \<le> 159)"

definition second4 :: "u8 \<Rightarrow> u8 \<Rightarrow> bool" where
  "second4 a b \<longleftrightarrow> is_cont b \<and> (a = 240 \<longrightarrow> 144 \<le> b) \<and> (a = 244 \<longrightarrow> b \<le> 143)"

fun utf8_head :: "u8 list \<Rightarrow> nat" where
  "utf8_head [] = 0"
| "utf8_head (a # bs) =
    (if a < 128 then 1
     else if lead2 a then (case bs of b # _ \<Rightarrow> (if is_cont b then 2 else 0) | [] \<Rightarrow> 0)
     else if lead3 a then
       (case bs of b # c # _ \<Rightarrow> (if second3 a b \<and> is_cont c then 3 else 0) | _ \<Rightarrow> 0)
     else if lead4 a then
       (case bs of b # c # d # _ \<Rightarrow> (if second4 a b \<and> is_cont c \<and> is_cont d then 4 else 0) | _ \<Rightarrow> 0)
     else 0)"

function utf8_valid :: "u8 list \<Rightarrow> bool" where
  "utf8_valid bs =
    (if bs = [] then True
     else if utf8_head bs = 0 then False
     else utf8_valid (drop (utf8_head bs) bs))"
  by pat_completeness auto
termination
  by (relation "measure length") auto

declare utf8_valid.simps [simp del]

function utf8_chars :: "u8 list \<Rightarrow> u8 list list" where
  "utf8_chars bs =
    (if bs = [] \<or> utf8_head bs = 0 then []
     else take (utf8_head bs) bs # utf8_chars (drop (utf8_head bs) bs))"
  by pat_completeness auto
termination
  by (relation "measure length") auto

declare utf8_chars.simps [simp del]

definition str_ok :: "string \<Rightarrow> bool" where
  "str_ok s \<longleftrightarrow> utf8_valid (str_bytes s)"

text \<open>\<open>String::from_utf8\<close>, the error without its payload.\<close>

definition from_utf8 :: "u8 list \<Rightarrow> string option" where
  "from_utf8 bs = (if utf8_valid bs then Some (bytes_str bs) else None)"

section \<open>Operations on strings\<close>

text \<open>\<open>char::is_whitespace\<close> on the bytes of a character.\<close>

definition is_whitespace :: "u8 list \<Rightarrow> bool" where
  "is_whitespace c \<longleftrightarrow>
    (case c of
      [a] \<Rightarrow> (9 \<le> a \<and> a \<le> 13) \<or> a = 32
    | [a, b] \<Rightarrow> a = 194 \<and> (b = 133 \<or> b = 160)
    | [a, b, d] \<Rightarrow>
        (a = 225 \<and> b = 154 \<and> d = 128)
        \<or> (a = 226 \<and> b = 128 \<and> ((128 \<le> d \<and> d \<le> 138) \<or> d = 168 \<or> d = 169 \<or> d = 175))
        \<or> (a = 226 \<and> b = 129 \<and> d = 159)
        \<or> (a = 227 \<and> b = 128 \<and> d = 128)
    | _ \<Rightarrow> False)"

definition trim_chars :: "('c \<Rightarrow> bool) \<Rightarrow> 'c list \<Rightarrow> 'c list" where
  "trim_chars p cs = rev (dropWhile p (rev (dropWhile p cs)))"

definition trim_matches :: "(u8 list \<Rightarrow> bool) \<Rightarrow> string \<Rightarrow> string" where
  "trim_matches p s = bytes_str (concat (trim_chars p (utf8_chars (str_bytes s))))"

definition trim :: "string \<Rightarrow> string" where
  "trim s = trim_matches is_whitespace s"

definition blank :: "string \<Rightarrow> bool" where
  "blank s \<longleftrightarrow> trim s = []"

fun split_ws :: "u8 list list \<Rightarrow> u8 list list \<Rightarrow> u8 list list list" where
  "split_ws cur [] = (if cur = [] then [] else [cur])"
| "split_ws cur (c # cs) =
    (if is_whitespace c then (if cur = [] then split_ws [] cs else cur # split_ws [] cs)
     else split_ws (cur @ [c]) cs)"

definition split_whitespace :: "string \<Rightarrow> string list" where
  "split_whitespace s = map (\<lambda>w. bytes_str (concat w)) (split_ws [] (utf8_chars (str_bytes s)))"

definition lower_byte :: "u8 \<Rightarrow> u8" where
  "lower_byte b = (if 65 \<le> b \<and> b \<le> 90 then b + 32 else b)"

definition to_ascii_lowercase :: "string \<Rightarrow> string" where
  "to_ascii_lowercase s = bytes_str (map lower_byte (str_bytes s))"

text \<open>\<open>split_once(' ')\<close>\<close>

definition split_once_space :: "string \<Rightarrow> (string \<times> string) option" where
  "split_once_space s =
    (if CHR '' '' \<in> set s
     then Some (takeWhile (\<lambda>c. c \<noteq> CHR '' '') s, tl (dropWhile (\<lambda>c. c \<noteq> CHR '' '') s))
     else None)"

text \<open>Decimal \<open>Display\<close>.\<close>

fun show_nat :: "nat \<Rightarrow> string" where
  "show_nat n = (if n < 10 then [char_of (48 + n)] else show_nat (n div 10) @ [char_of (48 + n mod 10)])"

declare show_nat.simps [simp del]

definition show_word :: "'n::len word \<Rightarrow> string" where
  "show_word w = show_nat (unat w)"

section \<open>Facts\<close>

lemma utf8_head_le: "utf8_head bs \<le> length bs"
  by (cases bs) (simp_all split: list.split)

lemma utf8_head_append: "utf8_head xs \<noteq> 0 \<Longrightarrow> utf8_head (xs @ ys) = utf8_head xs"
  by (cases xs) (simp_all split: list.splits if_splits)

lemma utf8_head_take: "utf8_head (take (utf8_head bs) bs) = utf8_head bs"
  by (cases bs) (simp_all split: list.split)

lemma utf8_valid_Nil [simp]: "utf8_valid []"
  by (simp add: utf8_valid.simps)

lemma utf8_valid_append: "utf8_valid xs \<Longrightarrow> utf8_valid ys \<Longrightarrow> utf8_valid (xs @ ys)"
proof (induction xs rule: utf8_valid.induct)
  case (1 xs)
  show ?case
  proof (cases "xs = []")
    case True
    with "1.prems" show ?thesis by simp
  next
    case False
    with "1.prems"(1) have h: "utf8_head xs \<noteq> 0" and v: "utf8_valid (drop (utf8_head xs) xs)"
      by (simp_all add: utf8_valid.simps [of xs] split: if_splits)
    have "utf8_valid (drop (utf8_head xs) xs @ ys)"
      using "1.IH" [OF False h] v "1.prems"(2) .
    with h False show ?thesis
      using utf8_head_le [of xs]
      by (subst utf8_valid.simps) (simp add: utf8_head_append)
  qed
qed

definition is_char :: "u8 list \<Rightarrow> bool" where
  "is_char c \<longleftrightarrow> c \<noteq> [] \<and> utf8_head c = length c"

lemma is_char_valid: "is_char c \<Longrightarrow> utf8_valid c"
  by (subst utf8_valid.simps) (auto simp: is_char_def)

lemma utf8_chars_is_char: "c \<in> set (utf8_chars bs) \<Longrightarrow> is_char c"
proof (induction bs rule: utf8_chars.induct)
  case (1 bs)
  show ?case
  proof (cases "bs = [] \<or> utf8_head bs = 0")
    case True
    with "1.prems" show ?thesis by (simp add: utf8_chars.simps [of bs])
  next
    case False
    with "1.prems" consider "c = take (utf8_head bs) bs" | "c \<in> set (utf8_chars (drop (utf8_head bs) bs))"
      by (auto simp: utf8_chars.simps [of bs])
    then show ?thesis
    proof cases
      case 1
      with False show ?thesis
        using utf8_head_le [of bs] utf8_head_take [of bs] by (auto simp: is_char_def)
    next
      case 2
      with "1.IH" [OF False] show ?thesis by simp
    qed
  qed
qed

lemma utf8_valid_concat: "(\<And>c. c \<in> set cs \<Longrightarrow> is_char c) \<Longrightarrow> utf8_valid (concat cs)"
  by (induction cs) (auto intro: utf8_valid_append is_char_valid)

lemma concat_utf8_chars: "utf8_valid bs \<Longrightarrow> concat (utf8_chars bs) = bs"
proof (induction bs rule: utf8_valid.induct)
  case (1 bs)
  show ?case
  proof (cases "bs = []")
    case True
    then show ?thesis by (simp add: utf8_chars.simps)
  next
    case False
    with "1.prems" have h: "utf8_head bs \<noteq> 0" and v: "utf8_valid (drop (utf8_head bs) bs)"
      by (simp_all add: utf8_valid.simps [of bs] split: if_splits)
    have "concat (utf8_chars (drop (utf8_head bs) bs)) = drop (utf8_head bs) bs"
      using "1.IH" [OF False h] v .
    with h False show ?thesis by (simp add: utf8_chars.simps [of bs])
  qed
qed

lemma set_trim_chars: "set (trim_chars p cs) \<subseteq> set cs"
proof -
  have *: "set (dropWhile p xs) \<subseteq> set xs" for xs :: "'a list"
    by (auto dest: set_dropWhileD)
  show ?thesis
    using * [of "rev (dropWhile p cs)"] * [of cs] by (simp add: trim_chars_def)
qed

lemma str_ok_append [str_oks, simp, intro]: "str_ok s \<Longrightarrow> str_ok t \<Longrightarrow> str_ok (s @ t)"
  by (simp add: str_ok_def str_bytes_append utf8_valid_append)

lemma str_ok_Nil [str_oks, simp]: "str_ok []"
  by (simp add: str_ok_def str_bytes_def)

lemma str_ok_trim [str_oks, simp, intro]: "str_ok (trim s)"
proof -
  have "utf8_valid (concat (trim_chars is_whitespace (utf8_chars (str_bytes s))))"
    by (rule utf8_valid_concat) (rule utf8_chars_is_char [OF subsetD [OF set_trim_chars]])
  then show ?thesis by (simp add: str_ok_def trim_def trim_matches_def)
qed

lemma from_utf8_str_bytes [simp]: "str_ok s \<Longrightarrow> from_utf8 (str_bytes s) = Some s"
  by (simp add: from_utf8_def str_ok_def)

lemma from_utf8_Some: "from_utf8 bs = Some s \<longleftrightarrow> str_ok s \<and> bs = str_bytes s"
  by (auto simp: from_utf8_def str_ok_def)

lemma ascii_str_ok: "(\<And>c. c \<in> set s \<Longrightarrow> of_char c < (128 :: nat)) \<Longrightarrow> str_ok s"
proof (induction s)
  case Nil
  then show ?case by simp
next
  case (Cons c s)
  have "(of_nat (of_char c) :: u8) < 128"
    using Cons.prems [of c] by (simp add: word_less_nat_alt unat_of_nat)
  moreover have "str_ok s" using Cons by simp
  ultimately show ?case
    by (simp add: str_ok_def str_bytes_def utf8_valid.simps [of "_ # _"])
qed

lemma show_nat_str_ok [str_oks, simp, intro]: "str_ok (show_nat n)"
proof (induction n rule: show_nat.induct)
  case (1 n)
  have digit: "str_ok [char_of (48 + d)]" if "d < 10" for d :: nat
    using that by (intro ascii_str_ok) auto
  show ?case
  proof (cases "n < 10")
    case True
    with digit show ?thesis by (subst show_nat.simps) simp
  next
    case False
    then have "show_nat n = show_nat (n div 10) @ [char_of (48 + n mod 10)]"
      by (subst show_nat.simps) simp
    moreover have "str_ok (show_nat (n div 10))" using False by (rule "1.IH")
    moreover have "str_ok [char_of (48 + n mod 10)]" by (rule digit) simp
    ultimately show ?thesis by (simp only: str_ok_append)
  qed
qed

lemma show_word_str_ok [str_oks, simp, intro]: "str_ok (show_word w)"
  by (simp add: show_word_def)

lemma split_once_Some:
  "split_once_space m = Some (l, r) \<longleftrightarrow> m = l @ CHR '' '' # r \<and> CHR '' '' \<notin> set l"
proof
  assume "split_once_space m = Some (l, r)"
  then have sp: "CHR '' '' \<in> set m" and l: "l = takeWhile (\<lambda>c. c \<noteq> CHR '' '') m"
    and r: "r = tl (dropWhile (\<lambda>c. c \<noteq> CHR '' '') m)"
    by (auto simp: split_once_space_def split: if_splits)
  have ne: "dropWhile (\<lambda>c. c \<noteq> CHR '' '') m \<noteq> []" using sp by (auto simp: dropWhile_eq_Nil_conv)
  then have "hd (dropWhile (\<lambda>c. c \<noteq> CHR '' '') m) = CHR '' ''" using hd_dropWhile [OF ne] by simp
  with ne have "dropWhile (\<lambda>c. c \<noteq> CHR '' '') m = CHR '' '' # r" unfolding r by (metis list.collapse)
  then show "m = l @ CHR '' '' # r \<and> CHR '' '' \<notin> set l"
    using takeWhile_dropWhile_id [of "\<lambda>c. c \<noteq> CHR '' ''" m] by (auto simp: l dest: set_takeWhileD)
next
  assume "m = l @ CHR '' '' # r \<and> CHR '' '' \<notin> set l"
  then show "split_once_space m = Some (l, r)"
    by (auto simp: split_once_space_def takeWhile_append dropWhile_append)
qed

text \<open>\<open>trim\<close> is idempotent on every string, and never invents content.\<close>

lemma dropWhile_idem: "dropWhile p (dropWhile p xs) = dropWhile p xs"
  by (induction xs) auto

lemma dropWhile_not_hd: "(xs \<noteq> [] \<Longrightarrow> \<not> p (hd xs)) \<Longrightarrow> dropWhile p xs = xs"
  by (cases xs) auto

lemma dropWhile_rev_dropWhile:
  "dropWhile p (rev (dropWhile p (rev (dropWhile p xs)))) = rev (dropWhile p (rev (dropWhile p xs)))"
proof -
  let ?ys = "dropWhile p xs"
  let ?zs = "rev (dropWhile p (rev ?ys))"
  have "\<not> p (hd ?zs)" if ne: "?zs \<noteq> []"
  proof -
    obtain us where us: "rev ?ys = us @ dropWhile p (rev ?ys)"
      by (metis takeWhile_dropWhile_id)
    then have ys: "?ys = ?zs @ rev us"
      by (metis rev_append rev_rev_ident)
    then have "hd ?ys = hd ?zs" using ne by (metis hd_append2)
    moreover have "?ys \<noteq> []" using ys ne by (metis append_is_Nil_conv)
    ultimately show ?thesis using hd_dropWhile [of p xs] by simp
  qed
  then show ?thesis by (rule dropWhile_not_hd)
qed

lemma trim_chars_idem: "trim_chars p (trim_chars p cs) = trim_chars p cs"
  by (simp add: trim_chars_def dropWhile_rev_dropWhile dropWhile_idem)

lemma utf8_chars_concat: "(\<And>c. c \<in> set cs \<Longrightarrow> is_char c) \<Longrightarrow> utf8_chars (concat cs) = cs"
proof (induction cs)
  case Nil
  then show ?case by (simp add: utf8_chars.simps)
next
  case (Cons c cs)
  then have c: "is_char c" and IH: "utf8_chars (concat cs) = cs" by auto
  then have "utf8_head (c @ concat cs) = length c"
    using utf8_head_append [of c "concat cs"] by (simp add: is_char_def)
  with c IH show ?case
    by (subst utf8_chars.simps) (simp add: is_char_def)
qed

lemma trim_trim [simp]: "trim (trim s) = trim s"
proof -
  let ?cs = "utf8_chars (str_bytes s)"
  let ?ts = "trim_chars is_whitespace ?cs"
  have "\<And>c. c \<in> set ?ts \<Longrightarrow> is_char c"
    by (rule utf8_chars_is_char [OF subsetD [OF set_trim_chars]])
  then have "utf8_chars (concat ?ts) = ?ts" by (rule utf8_chars_concat)
  then show ?thesis by (simp add: trim_def trim_matches_def trim_chars_idem)
qed

end
