(* ===== verification/NTD_IR.thy ===== *)
theory NTD_IR
  imports Rust_Strings
begin

text \<open>
  The intermediate representation of \<open>crates/ntd-ir\<close>: typed dataflow graphs and
  \<open>Graph::validate\<close>. The declarative counterpart of the validator is \<open>graph_wf\<close>: the graph is in
  single-assignment form, its nodes are in an order in which every value is defined before it is
  used, and every output is defined.
\<close>

section \<open>Data\<close>

record ir_version =
  major :: u16
  minor :: u16

definition ir_current :: ir_version where
  "ir_current = \<lparr>major = 0, minor = 4\<rparr>"

definition can_read :: "ir_version \<Rightarrow> ir_version \<Rightarrow> bool" where
  "can_read self other \<longleftrightarrow> major self = major other \<and> minor other \<le> minor self"

type_synonym node_id = u32
type_synonym value_id = u32

datatype dtype = F32 | F16 | Bf16 | I8 | U8 | I32 | I64 | Bool

datatype value_type = Scalar dtype | Tensor dtype u8 | Bytes | Handle

record value_decl =
  vd_id :: value_id
  vd_ty :: value_type

datatype tensor_op =
  Add | Mul | MatMul | QuantizedMatMul | RmsNorm | Softmax | Gather | RotaryPosition
| CausalAttention | Silu | Reshape | Transpose | PositionIds

datatype state_op = Read | Write | Checkpoint

datatype memory_op = Retrieve | Store | Forget

datatype control_op = Select | Merge | Barrier

datatype tool_op = Invoke string | Observe | Verify

datatype op_kind =
  TensorOp tensor_op | StateOp state_op | MemoryOp memory_op | ControlOp control_op | ToolOp tool_op

record node =
  nd_id :: node_id
  nd_op :: op_kind
  nd_inputs :: "value_id list"
  nd_outputs :: "value_decl list"

record graph =
  gr_version :: ir_version
  gr_inputs :: "value_decl list"
  gr_outputs :: "value_id list"
  gr_nodes :: "node list"

datatype validation_error =
  UnsupportedVersion ir_version
| DuplicateNodeId node_id
| DuplicateValue value_id
| MissingInput node_id value_id
| MissingGraphOutput value_id

section \<open>Validation\<close>

text \<open>\<open>for d in decls { if !values.insert(d.id) { return Err(DuplicateValue) } }\<close>\<close>

fun define_values :: "value_decl list \<Rightarrow> value_id set \<Rightarrow> validation_error + value_id set" where
  "define_values [] vals = Inr vals"
| "define_values (d # ds) vals =
    (if vd_id d \<in> vals then Inl (DuplicateValue (vd_id d))
     else define_values ds (insert (vd_id d) vals))"

fun check_inputs :: "node_id \<Rightarrow> value_id list \<Rightarrow> value_id set \<Rightarrow> validation_error + unit" where
  "check_inputs n [] vals = Inr ()"
| "check_inputs n (v # vs) vals =
    (if v \<in> vals then check_inputs n vs vals else Inl (MissingInput n v))"

fun check_nodes ::
    "node list \<Rightarrow> node_id set \<Rightarrow> value_id set \<Rightarrow> validation_error + value_id set" where
  "check_nodes [] ids vals = Inr vals"
| "check_nodes (n # ns) ids vals =
    (if nd_id n \<in> ids then Inl (DuplicateNodeId (nd_id n))
     else rbind (check_inputs (nd_id n) (nd_inputs n) vals)
       (\<lambda>_. rbind (define_values (nd_outputs n) vals)
         (\<lambda>vals'. check_nodes ns (insert (nd_id n) ids) vals')))"

fun check_outputs :: "value_id list \<Rightarrow> value_id set \<Rightarrow> validation_error + unit" where
  "check_outputs [] vals = Inr ()"
| "check_outputs (v # vs) vals =
    (if v \<in> vals then check_outputs vs vals else Inl (MissingGraphOutput v))"

definition graph_validate :: "graph \<Rightarrow> validation_error + unit" where
  "graph_validate g =
    (if \<not> can_read ir_current (gr_version g) then Inl (UnsupportedVersion (gr_version g))
     else rbind (define_values (gr_inputs g) {})
       (\<lambda>vals. rbind (check_nodes (gr_nodes g) {} vals)
         (\<lambda>vals'. check_outputs (gr_outputs g) vals')))"

section \<open>The declarative specification\<close>

definition decl_ids :: "value_decl list \<Rightarrow> value_id list" where
  "decl_ids ds = map vd_id ds"

definition node_outs :: "node list \<Rightarrow> value_id list" where
  "node_outs ns = concat (map (\<lambda>n. decl_ids (nd_outputs n)) ns)"

text \<open>Every node uses graph inputs and outputs of earlier nodes only.\<close>

definition defined_before_use :: "graph \<Rightarrow> bool" where
  "defined_before_use g \<longleftrightarrow>
    (\<forall>i < length (gr_nodes g). \<forall>v \<in> set (nd_inputs (gr_nodes g ! i)).
      v \<in> set (decl_ids (gr_inputs g)) \<or> (\<exists>j < i. v \<in> set (decl_ids (nd_outputs (gr_nodes g ! j)))))"

definition graph_wf :: "graph \<Rightarrow> bool" where
  "graph_wf g \<longleftrightarrow>
    can_read ir_current (gr_version g)
    \<and> distinct (map nd_id (gr_nodes g))
    \<and> distinct (decl_ids (gr_inputs g) @ node_outs (gr_nodes g))
    \<and> defined_before_use g
    \<and> set (gr_outputs g) \<subseteq> set (decl_ids (gr_inputs g)) \<union> set (node_outs (gr_nodes g))"

section \<open>The validator decides the specification\<close>

lemma decl_ids_simps [simp]: "decl_ids [] = []" "decl_ids (d # ds) = vd_id d # decl_ids ds"
  by (simp_all add: decl_ids_def)

lemma node_outs_simps [simp]:
  "node_outs [] = []" "node_outs (n # ns) = decl_ids (nd_outputs n) @ node_outs ns"
  by (simp_all add: node_outs_def)

lemma define_values_Inr:
  "define_values ds vals = Inr vals' \<longleftrightarrow>
    distinct (decl_ids ds) \<and> set (decl_ids ds) \<inter> vals = {} \<and> vals' = vals \<union> set (decl_ids ds)"
  by (induction ds arbitrary: vals) auto

lemma check_inputs_Inr: "check_inputs n vs vals = Inr () \<longleftrightarrow> set vs \<subseteq> vals"
  by (induction vs) auto

lemma check_outputs_Inr: "check_outputs vs vals = Inr () \<longleftrightarrow> set vs \<subseteq> vals"
  by (induction vs) auto

text \<open>Uses before definitions, on a list of nodes and the values known before it.\<close>

fun uses_ok :: "value_id set \<Rightarrow> node list \<Rightarrow> bool" where
  "uses_ok vals [] \<longleftrightarrow> True"
| "uses_ok vals (n # ns) \<longleftrightarrow>
    set (nd_inputs n) \<subseteq> vals \<and> uses_ok (vals \<union> set (decl_ids (nd_outputs n))) ns"

lemma check_nodes_Inr:
  "check_nodes ns ids vals = Inr vals' \<longleftrightarrow>
    distinct (map nd_id ns) \<and> set (map nd_id ns) \<inter> ids = {}
    \<and> distinct (node_outs ns) \<and> set (node_outs ns) \<inter> vals = {}
    \<and> uses_ok vals ns \<and> vals' = vals \<union> set (node_outs ns)"
proof (induction ns arbitrary: ids vals)
  case Nil
  then show ?case by auto
next
  case (Cons n ns)
  show ?case
    by (auto simp: define_values_Inr check_inputs_Inr Cons.IH Un_assoc)
qed

lemma uses_ok_iff:
  "uses_ok vals ns \<longleftrightarrow>
    (\<forall>i < length ns. \<forall>v \<in> set (nd_inputs (ns ! i)).
      v \<in> vals \<or> (\<exists>j < i. v \<in> set (decl_ids (nd_outputs (ns ! j)))))"
proof (induction ns arbitrary: vals)
  case Nil
  then show ?case by simp
next
  case (Cons n ns)
  have ex: "(\<exists>j < Suc i. v \<in> set (decl_ids (nd_outputs ((n # ns) ! j))))
      \<longleftrightarrow> v \<in> set (decl_ids (nd_outputs n)) \<or> (\<exists>j < i. v \<in> set (decl_ids (nd_outputs (ns ! j))))" for i v
    by (simp add: Ex_less_Suc2)
  show ?case
    by (simp add: All_less_Suc2 ex Cons.IH Un_iff disj_assoc subset_eq)
qed

lemma graph_validate_wf: "graph_validate g = Inr () \<longleftrightarrow> graph_wf g"
  by (auto simp: graph_validate_def graph_wf_def define_values_Inr check_nodes_Inr
      check_outputs_Inr defined_before_use_def uses_ok_iff [symmetric])

text \<open>
  C40: \<open>Graph::validate\<close> accepts exactly the well-formed graphs: a readable version, distinct node
  identifiers, every value defined once, every input of a node defined by the graph's inputs or by
  an earlier node, and every graph output defined.
\<close>

theorem graph_validate_iff_wf: "graph_validate g = Inr () \<longleftrightarrow> graph_wf g"
  by (rule graph_validate_wf)

section \<open>Every error names a real defect\<close>

fun error_justified :: "graph \<Rightarrow> validation_error \<Rightarrow> bool" where
  "error_justified g (UnsupportedVersion v) \<longleftrightarrow> v = gr_version g \<and> \<not> can_read ir_current v"
| "error_justified g (DuplicateNodeId n) \<longleftrightarrow> 2 \<le> count_list (map nd_id (gr_nodes g)) n"
| "error_justified g (DuplicateValue v) \<longleftrightarrow>
    2 \<le> count_list (decl_ids (gr_inputs g) @ node_outs (gr_nodes g)) v"
| "error_justified g (MissingInput n v) \<longleftrightarrow>
    (\<exists>i < length (gr_nodes g). nd_id (gr_nodes g ! i) = n \<and> v \<in> set (nd_inputs (gr_nodes g ! i))
      \<and> v \<notin> set (decl_ids (gr_inputs g))
      \<and> (\<forall>j < i. v \<notin> set (decl_ids (nd_outputs (gr_nodes g ! j)))))"
| "error_justified g (MissingGraphOutput v) \<longleftrightarrow>
    v \<in> set (gr_outputs g) \<and> v \<notin> set (decl_ids (gr_inputs g) @ node_outs (gr_nodes g))"

lemma count_list_pos: "x \<in> set xs \<Longrightarrow> 1 \<le> count_list xs x"
  using count_list_0_iff [of xs x] by (simp add: Suc_le_eq)

lemma define_values_Inl:
  "define_values ds vals = Inl e \<Longrightarrow>
    \<exists>v. e = DuplicateValue v \<and> v \<in> set (decl_ids ds) \<and> (v \<in> vals \<or> 2 \<le> count_list (decl_ids ds) v)"
proof (induction ds arbitrary: vals)
  case Nil
  then show ?case by simp
next
  case (Cons d ds)
  show ?case
  proof (cases "vd_id d \<in> vals")
    case True
    with Cons.prems show ?thesis by (auto intro: exI [of _ "vd_id d"])
  next
    case False
    with Cons obtain v where "e = DuplicateValue v" "v \<in> set (decl_ids ds)"
      "v \<in> insert (vd_id d) vals \<or> 2 \<le> count_list (decl_ids ds) v" by fastforce
    then show ?thesis using count_list_pos [of v "decl_ids ds"] by auto
  qed
qed

lemma check_inputs_Inl:
  "check_inputs n vs vals = Inl e \<Longrightarrow> \<exists>v. e = MissingInput n v \<and> v \<in> set vs \<and> v \<notin> vals"
  by (induction vs) (auto split: if_splits)

lemma check_outputs_Inl:
  "check_outputs vs vals = Inl e \<Longrightarrow> \<exists>v. e = MissingGraphOutput v \<and> v \<in> set vs \<and> v \<notin> vals"
  by (induction vs) (auto split: if_splits)

text \<open>The defects of a list of nodes, relative to what was seen before it.\<close>

fun node_defect :: "node_id set \<Rightarrow> value_id set \<Rightarrow> node list \<Rightarrow> validation_error \<Rightarrow> bool" where
  "node_defect ids vals ns (DuplicateNodeId n) \<longleftrightarrow>
    n \<in> set (map nd_id ns) \<and> (n \<in> ids \<or> 2 \<le> count_list (map nd_id ns) n)"
| "node_defect ids vals ns (DuplicateValue v) \<longleftrightarrow>
    v \<in> set (node_outs ns) \<and> (v \<in> vals \<or> 2 \<le> count_list (node_outs ns) v)"
| "node_defect ids vals ns (MissingInput n v) \<longleftrightarrow>
    (\<exists>i < length ns. nd_id (ns ! i) = n \<and> v \<in> set (nd_inputs (ns ! i)) \<and> v \<notin> vals
      \<and> (\<forall>j < i. v \<notin> set (decl_ids (nd_outputs (ns ! j)))))"
| "node_defect ids vals ns _ \<longleftrightarrow> False"

lemma node_defect_later:
  assumes "node_defect (insert (nd_id n) ids) (vals \<union> set (decl_ids (nd_outputs n))) ns e"
  shows "node_defect ids vals (n # ns) e"
proof (cases e)
  case (DuplicateNodeId x)
  with assms show ?thesis using count_list_pos [of x "map nd_id ns"] by auto
next
  case (DuplicateValue v)
  with assms show ?thesis
    using count_list_pos [of v "node_outs ns"] count_list_pos [of v "decl_ids (nd_outputs n)"]
    by (auto simp: count_list_append)
next
  case (MissingInput x v)
  with assms obtain i where i: "i < length ns" "nd_id (ns ! i) = x" "v \<in> set (nd_inputs (ns ! i))"
      "v \<notin> vals" "v \<notin> set (decl_ids (nd_outputs n))"
      "\<forall>j < i. v \<notin> set (decl_ids (nd_outputs (ns ! j)))" by auto
  then have "\<forall>j < Suc i. v \<notin> set (decl_ids (nd_outputs ((n # ns) ! j)))"
    by (simp add: All_less_Suc2)
  with i MissingInput show ?thesis by (auto intro!: exI [of _ "Suc i"])
qed (use assms in auto)

lemma check_nodes_Inl: "check_nodes ns ids vals = Inl e \<Longrightarrow> node_defect ids vals ns e"
proof (induction ns arbitrary: ids vals)
  case Nil
  then show ?case by simp
next
  case (Cons n ns)
  from Cons.prems consider "nd_id n \<in> ids" "e = DuplicateNodeId (nd_id n)"
    | "check_inputs (nd_id n) (nd_inputs n) vals = Inl e"
    | "define_values (nd_outputs n) vals = Inl e"
    | vals' where "define_values (nd_outputs n) vals = Inr vals'"
        "check_nodes ns (insert (nd_id n) ids) vals' = Inl e"
    by (cases "nd_id n \<in> ids") (auto simp: rbind_eq_Inl)
  then show ?case
  proof cases
    case 1
    then show ?thesis by simp
  next
    case 2
    then obtain v where "e = MissingInput (nd_id n) v" "v \<in> set (nd_inputs n)" "v \<notin> vals"
      using check_inputs_Inl by blast
    then show ?thesis by (simp add: exI [of _ "0 :: nat"])
  next
    case 3
    from define_values_Inl [OF this] show ?thesis by (auto simp: count_list_append)
  next
    case 4
    then show ?thesis
      using Cons.IH by (intro node_defect_later) (auto simp: define_values_Inr)
  qed
qed

lemma node_defect_justified:
  assumes "node_defect {} (set (decl_ids (gr_inputs g))) (gr_nodes g) e"
  shows "error_justified g e"
  using assms
proof (cases e)
  case (DuplicateValue v)
  with assms show ?thesis
    using count_list_pos [of v "node_outs (gr_nodes g)"] count_list_pos [of v "decl_ids (gr_inputs g)"]
    by (auto simp: count_list_append)
qed auto

text \<open>
  An error of \<open>Graph::validate\<close> is never spurious: the version it reports is unreadable, the
  identifier it reports occurs twice, the missing input is used by that node and defined by no
  graph input and no earlier node, the missing output is defined nowhere.
\<close>

theorem graph_validate_error_justified:
  assumes "graph_validate g = Inl e"
  shows "error_justified g e"
proof -
  from assms consider "\<not> can_read ir_current (gr_version g)" "e = UnsupportedVersion (gr_version g)"
    | "define_values (gr_inputs g) {} = Inl e"
    | vals where "define_values (gr_inputs g) {} = Inr vals" "check_nodes (gr_nodes g) {} vals = Inl e"
    | vals vals' where "define_values (gr_inputs g) {} = Inr vals"
        "check_nodes (gr_nodes g) {} vals = Inr vals'" "check_outputs (gr_outputs g) vals' = Inl e"
    by (auto simp: graph_validate_def rbind_eq_Inl split: if_splits)
  then show ?thesis
  proof cases
    case 2
    from define_values_Inl [OF this] show ?thesis by (auto simp: count_list_append)
  next
    case 3
    then show ?thesis
      by (intro node_defect_justified) (auto simp: define_values_Inr dest: check_nodes_Inl)
  next
    case 4
    from check_outputs_Inl [OF this(3)] 4(1,2) show ?thesis
      by (auto simp: define_values_Inr check_nodes_Inr)
  qed simp
qed

theorem graph_validate_error_justified_witness:
  "error_justified \<lparr>gr_version = ir_current, gr_inputs = [\<lparr>vd_id = 0, vd_ty = Scalar F32\<rparr>],
     gr_outputs = [2], gr_nodes = [\<lparr>nd_id = 0, nd_op = TensorOp Add, nd_inputs = [0, 99],
       nd_outputs = [\<lparr>vd_id = 2, vd_ty = Scalar F32\<rparr>]\<rparr>]\<rparr> (MissingInput 0 99)"
  by (rule graph_validate_error_justified)
    (simp add: graph_validate_def can_read_def ir_current_def)

end
