(* ===== verification/Rust_Codec.thy ===== *)
theory Rust_Codec
  imports Rust_Strings
begin

text \<open>
  Byte-level encoding as the three NTD97 codecs use it (NIR97 graphs, SIK97 and TAF97
  checkpoints): little-endian integers appended to a \<open>Vec<u8>\<close>, and a \<open>Cursor\<close> that reads them
  back. Each source file declares the same cursor over its own error type, so the operations here
  take the two errors a cursor raises, \<open>Truncated\<close> and \<open>Overflow\<close>, as arguments.

  \<open>reads d bs a\<close> says that the decoder \<open>d\<close>, standing in front of the bytes \<open>bs\<close>, returns \<open>a\<close> and
  moves past exactly \<open>bs\<close>. The locale \<open>codec\<close> states that an encoder and a decoder belong
  together and lifts the law to counted sequences; \<open>canonical_codec\<close> adds the converse, that
  nothing but an encoding is accepted.
\<close>

unbundle bit_operations_syntax

section \<open>Little-endian integers\<close>

text \<open>\<open>to_le_bytes\<close> and \<open>from_le_bytes\<close>.\<close>

fun le_bytes :: "nat \<Rightarrow> 'n::len word \<Rightarrow> u8 list" where
  "le_bytes 0 w = []"
| "le_bytes (Suc k) w = ucast w # le_bytes k (drop_bit 8 w)"

fun le_word :: "u8 list \<Rightarrow> 'n::len word" where
  "le_word [] = 0"
| "le_word (b # bs) = ucast b OR push_bit 8 (le_word bs)"

abbreviation u16_le :: "u16 \<Rightarrow> u8 list" where "u16_le \<equiv> le_bytes 2"
abbreviation u32_le :: "u32 \<Rightarrow> u8 list" where "u32_le \<equiv> le_bytes 4"
abbreviation u64_le :: "u64 \<Rightarrow> u8 list" where "u64_le \<equiv> le_bytes 8"

section \<open>Encoders\<close>

text \<open>
  A function that appends to \<open>out: &mut Vec<u8>\<close> is modelled by the bytes it appends, or the error
  it returns; running one after the other concatenates.
\<close>

type_synonym 'e enc = "'e + u8 list"

definition push_raw :: "u8 list \<Rightarrow> 'e enc" where
  "push_raw bs = Inr bs"

definition eseq :: "'e enc \<Rightarrow> 'e enc \<Rightarrow> 'e enc" where
  "eseq m n = rbind m (\<lambda>a. rbind n (\<lambda>b. Inr (a @ b)))"

definition push_u8 :: "u8 \<Rightarrow> 'e enc" where
  "push_u8 v = push_raw [v]"

definition push_u16 :: "u16 \<Rightarrow> 'e enc" where
  "push_u16 v = push_raw (u16_le v)"

definition push_u32 :: "u32 \<Rightarrow> 'e enc" where
  "push_u32 v = push_raw (u32_le v)"

definition push_u64 :: "u64 \<Rightarrow> 'e enc" where
  "push_u64 v = push_raw (u64_le v)"

definition push_bool :: "bool \<Rightarrow> 'e enc" where
  "push_bool v = push_u8 (if v then 1 else 0)"

text \<open>\<open>u32::try_from(len)\<close>, then \<open>push_u32\<close>.\<close>

definition len_u32 :: "'e \<Rightarrow> nat \<Rightarrow> 'e + u32" where
  "len_u32 ovf n = (if int n < 2 ^ 32 then Inr (of_nat n) else Inl ovf)"

definition push_len :: "'e \<Rightarrow> nat \<Rightarrow> 'e enc" where
  "push_len ovf n = rbind (len_u32 ovf n) push_u32"

definition push_bytes :: "'e \<Rightarrow> u8 list \<Rightarrow> 'e enc" where
  "push_bytes ovf bs = eseq (push_len ovf (length bs)) (push_raw bs)"

definition push_string :: "'e \<Rightarrow> string \<Rightarrow> 'e enc" where
  "push_string ovf s = push_bytes ovf (str_bytes s)"

fun push_each :: "('a \<Rightarrow> 'e enc) \<Rightarrow> 'a list \<Rightarrow> 'e enc" where
  "push_each enc [] = push_raw []"
| "push_each enc (x # xs) = eseq (enc x) (push_each enc xs)"

definition push_strings :: "'e \<Rightarrow> string list \<Rightarrow> 'e enc" where
  "push_strings ovf ss = eseq (push_len ovf (length ss)) (push_each (push_string ovf) ss)"

definition push_option :: "('a \<Rightarrow> 'e enc) \<Rightarrow> 'a option \<Rightarrow> 'e enc" where
  "push_option enc v = (case v of None \<Rightarrow> push_u8 0 | Some a \<Rightarrow> eseq (push_u8 1) (enc a))"

section \<open>Decoders\<close>

record cursor =
  cbytes :: "u8 list"
  offset :: nat

type_synonym ('e, 'a) dec = "cursor \<Rightarrow> 'e + 'a \<times> cursor"

definition cursor_new :: "u8 list \<Rightarrow> cursor" where
  "cursor_new bs = \<lparr>cbytes = bs, offset = 0\<rparr>"

definition is_finished :: "cursor \<Rightarrow> bool" where
  "is_finished c \<longleftrightarrow> offset c = length (cbytes c)"

definition dret :: "'a \<Rightarrow> ('e, 'a) dec" where
  "dret a = (\<lambda>c. Inr (a, c))"

definition dfail :: "'e \<Rightarrow> ('e, 'a) dec" where
  "dfail e = (\<lambda>c. Inl e)"

definition dbind :: "('e, 'a) dec \<Rightarrow> ('a \<Rightarrow> ('e, 'b) dec) \<Rightarrow> ('e, 'b) dec" where
  "dbind d f = (\<lambda>c. rbind (d c) (\<lambda>(a, c'). f a c'))"

definition dlift :: "'e + 'a \<Rightarrow> ('e, 'a) dec" where
  "dlift r = (\<lambda>c. rbind r (\<lambda>a. Inr (a, c)))"

text \<open>
  The cursor raises one of two errors; \<open>cerr\<close> is the pair of them in the error type of the file
  at hand.
\<close>

record 'e cerr =
  trunc :: 'e
  ovfl :: 'e

definition take_bytes :: "'e cerr \<Rightarrow> nat \<Rightarrow> ('e, u8 list) dec" where
  "take_bytes er n = (\<lambda>c.
    let stop = offset c + n in
    if usize_bound \<le> int stop then Inl (ovfl er)
    else if length (cbytes c) < stop then Inl (trunc er)
    else Inr (take n (drop (offset c) (cbytes c)), c\<lparr>offset := stop\<rparr>))"

definition take_u8 :: "'e cerr \<Rightarrow> ('e, u8) dec" where
  "take_u8 er = dbind (take_bytes er 1) (\<lambda>bs. dret (bs ! 0))"

definition take_u16 :: "'e cerr \<Rightarrow> ('e, u16) dec" where
  "take_u16 er = dbind (take_bytes er 2) (\<lambda>bs. dret (le_word bs))"

definition take_u32 :: "'e cerr \<Rightarrow> ('e, u32) dec" where
  "take_u32 er = dbind (take_bytes er 4) (\<lambda>bs. dret (le_word bs))"

definition take_u64 :: "'e cerr \<Rightarrow> ('e, u64) dec" where
  "take_u64 er = dbind (take_bytes er 8) (\<lambda>bs. dret (le_word bs))"

definition take_blob :: "'e cerr \<Rightarrow> ('e, u8 list) dec" where
  "take_blob er = dbind (take_u32 er) (\<lambda>n. take_bytes er (unat n))"

definition take_string :: "'e cerr \<Rightarrow> 'e \<Rightarrow> ('e, string) dec" where
  "take_string er bad = dbind (take_blob er) (\<lambda>bs. dlift (ok_or bad (from_utf8 bs)))"

text \<open>\<open>for _ in 0..n { v.push(d(cursor)?) }\<close>\<close>

fun take_n :: "nat \<Rightarrow> ('e, 'a) dec \<Rightarrow> ('e, 'a list) dec" where
  "take_n 0 d = dret []"
| "take_n (Suc n) d = dbind d (\<lambda>x. dbind (take_n n d) (\<lambda>xs. dret (x # xs)))"

definition take_strings :: "'e cerr \<Rightarrow> 'e \<Rightarrow> ('e, string list) dec" where
  "take_strings er bad = dbind (take_u32 er) (\<lambda>n. take_n (unat n) (take_string er bad))"

definition take_bool :: "'e cerr \<Rightarrow> (u8 \<Rightarrow> 'e) \<Rightarrow> ('e, bool) dec" where
  "take_bool er bad = dbind (take_u8 er)
    (\<lambda>b. if b = 0 then dret False else if b = 1 then dret True else dfail (bad b))"

definition take_option :: "'e cerr \<Rightarrow> (u8 \<Rightarrow> 'e) \<Rightarrow> ('e, 'a) dec \<Rightarrow> ('e, 'a option) dec" where
  "take_option er bad d = dbind (take_u8 er)
    (\<lambda>b. if b = 0 then dret None else if b = 1 then dbind d (\<lambda>a. dret (Some a)) else dfail (bad b))"

section \<open>Facts on little-endian integers\<close>

lemma length_le_bytes [simp]: "length (le_bytes k w) = k"
  by (induction k arbitrary: w) auto

lemma le_word_le_bytes: "le_word (le_bytes k w) = take_bit (8 * k) (w :: 'n::len word)"
proof (induction k arbitrary: w)
  case 0
  then show ?case by simp
next
  case (Suc k)
  show ?case
    by (rule bit_eqI) (auto simp: Suc.IH bit_simps)
qed

lemma le_word_u16 [simp]: "le_word (u16_le w) = w"
  by (simp add: le_word_le_bytes take_bit_word_eq_self)

lemma le_word_u32 [simp]: "le_word (u32_le w) = w"
  by (simp add: le_word_le_bytes take_bit_word_eq_self)

lemma le_word_u64 [simp]: "le_word (u64_le w) = w"
  by (simp add: le_word_le_bytes take_bit_word_eq_self)

lemma bit_u8: "bit (b :: u8) n \<Longrightarrow> n < 8"
  using bit_imp_le_length [of b n] by simp

lemma bit_le_word: "bit (le_word bs :: 'n::len word) n \<Longrightarrow> n < 8 * length bs"
proof (induction bs arbitrary: n)
  case Nil
  then show ?case by simp
next
  case (Cons b bs)
  from Cons.prems consider "bit b n" | "8 \<le> n" "bit (le_word bs :: 'n word) (n - 8)"
    by (auto simp: bit_simps)
  then show ?case
  proof cases
    case 1
    then show ?thesis using bit_u8 [of b n] by simp
  next
    case 2
    with Cons.IH [of "n - 8"] show ?thesis by simp
  qed
qed

lemma le_bytes_le_word:
  "8 * length bs \<le> LENGTH('n) \<Longrightarrow> le_bytes (length bs) (le_word bs :: 'n::len word) = bs"
proof (induction bs)
  case Nil
  then show ?case by simp
next
  case (Cons b bs)
  let ?w = "le_word bs :: 'n word"
  have "(ucast (ucast b OR push_bit 8 ?w) :: u8) = b"
    using Cons.prems by (intro bit_eqI) (auto simp: bit_simps)
  moreover have "drop_bit 8 (ucast b OR push_bit 8 ?w) = ?w"
    using Cons.prems by (intro bit_eqI) (auto simp: bit_simps dest: bit_le_word bit_u8)
  ultimately show ?case using Cons by simp
qed

lemma le_bytes_u16 [simp]: "length bs = 2 \<Longrightarrow> u16_le (le_word bs) = bs"
  using le_bytes_le_word [of bs, where ?'n = 16] by simp

lemma le_bytes_u32 [simp]: "length bs = 4 \<Longrightarrow> u32_le (le_word bs) = bs"
  using le_bytes_le_word [of bs, where ?'n = 32] by simp

lemma le_bytes_u64 [simp]: "length bs = 8 \<Longrightarrow> u64_le (le_word bs) = bs"
  using le_bytes_le_word [of bs, where ?'n = 64] by simp

section \<open>Facts on encoders\<close>

lemma eseq_eq_Inr [simp]: "eseq m n = Inr bs \<longleftrightarrow> (\<exists>a b. m = Inr a \<and> n = Inr b \<and> bs = a @ b)"
  by (auto simp: eseq_def)

lemma push_eq_Inr [simp]:
  "push_raw xs = Inr bs \<longleftrightarrow> bs = xs"
  "push_u8 v = Inr bs \<longleftrightarrow> bs = [v]"
  "push_u16 v2 = Inr bs \<longleftrightarrow> bs = u16_le v2"
  "push_u32 v4 = Inr bs \<longleftrightarrow> bs = u32_le v4"
  "push_u64 v8 = Inr bs \<longleftrightarrow> bs = u64_le v8"
  by (auto simp: push_raw_def push_u8_def push_u16_def push_u32_def push_u64_def)

lemma push_len_eq_Inr [simp]: "push_len ovf n = Inr bs \<longleftrightarrow> int n < 2 ^ 32 \<and> bs = u32_le (of_nat n)"
  by (auto simp: push_len_def len_u32_def)

lemma unat_len: "int n < 2 ^ 32 \<Longrightarrow> unat (of_nat n :: u32) = n"
  by (simp add: unat_of_nat)

lemma uint_u32_less [simp]: "uint (w :: u32) < 4294967296"
  using unsigned_less [of w, where ?'a = int] by simp

section \<open>Reading back\<close>

definition cursor_at :: "cursor \<Rightarrow> u8 list \<Rightarrow> bool" where
  "cursor_at c xs \<longleftrightarrow>
    offset c \<le> length (cbytes c) \<and> int (length (cbytes c)) < usize_bound \<and> drop (offset c) (cbytes c) = xs"

definition moved :: "nat \<Rightarrow> cursor \<Rightarrow> cursor" where
  "moved n c = c\<lparr>offset := offset c + n\<rparr>"

definition reads :: "('e, 'a) dec \<Rightarrow> u8 list \<Rightarrow> 'a \<Rightarrow> bool" where
  "reads d bs a \<longleftrightarrow> (\<forall>c rest. cursor_at c (bs @ rest) \<longrightarrow> d c = Inr (a, moved (length bs) c))"

lemma cursor_at_new: "int (length bs) < usize_bound \<Longrightarrow> cursor_at (cursor_new bs) bs"
  by (simp add: cursor_at_def cursor_new_def)

lemma cursor_at_length: "cursor_at c xs \<Longrightarrow> length (cbytes c) = offset c + length xs"
  by (auto simp: cursor_at_def)

lemma cursor_at_moved: "cursor_at c (bs @ rest) \<Longrightarrow> cursor_at (moved (length bs) c) rest"
proof -
  assume c: "cursor_at c (bs @ rest)"
  then have "drop (offset c + length bs) (cbytes c) = rest"
    by (metis add.commute append_eq_conv_conj cursor_at_def drop_drop)
  with c cursor_at_length [OF c] show ?thesis
    by (simp add: cursor_at_def moved_def)
qed

lemma moved_moved [simp]: "moved m (moved n c) = moved (n + m) c"
  by (simp add: moved_def add.assoc)

lemma moved_0 [simp]: "moved 0 c = c"
  by (simp add: moved_def)

lemma is_finished_at: "cursor_at c xs \<Longrightarrow> is_finished c \<longleftrightarrow> xs = []"
  by (auto simp: is_finished_def cursor_at_def)

lemma readsI: "(\<And>c rest. cursor_at c (bs @ rest) \<Longrightarrow> d c = Inr (a, moved (length bs) c)) \<Longrightarrow> reads d bs a"
  by (simp add: reads_def)

lemma readsD: "reads d bs a \<Longrightarrow> cursor_at c (bs @ rest) \<Longrightarrow> d c = Inr (a, moved (length bs) c)"
  unfolding reads_def by blast

lemma reads_dret [codec_intros]: "reads (dret a) [] a"
  by (simp add: reads_def dret_def)

lemma reads_dlift [codec_intros]: "r = Inr a \<Longrightarrow> reads (dlift r) [] a"
  by (simp add: reads_def dlift_def)

lemma reads_dbind [codec_intros]:
  assumes "reads d bs a" and "reads (f a) cs b"
  shows "reads (dbind d f) (bs @ cs) b"
proof (rule readsI)
  fix c rest assume "cursor_at c ((bs @ cs) @ rest)"
  then have c: "cursor_at c (bs @ cs @ rest)" by simp
  with assms(1) have "d c = Inr (a, moved (length bs) c)" by (rule readsD)
  moreover have "f a (moved (length bs) c) = Inr (b, moved (length cs) (moved (length bs) c))"
    using assms(2) cursor_at_moved [OF c] by (rule readsD)
  ultimately show "dbind d f c = Inr (b, moved (length (bs @ cs)) c)"
    by (simp add: dbind_def)
qed

text \<open>The same with the bytes of the first decoder in any position of the goal.\<close>

lemma reads_dbind_last: "reads d bs a \<Longrightarrow> reads (f a) [] b \<Longrightarrow> reads (dbind d f) bs b"
  using reads_dbind [of d bs a f "[]" b] by simp

lemma reads_take_bytes [codec_intros]: "length bs = n \<Longrightarrow> reads (take_bytes er n) bs bs"
proof (rule readsI)
  fix c rest assume n: "length bs = n" and c: "cursor_at c (bs @ rest)"
  have "offset c + n \<le> length (cbytes c)" using cursor_at_length [OF c] n by simp
  moreover have "int (length (cbytes c)) < usize_bound" using c by (simp add: cursor_at_def)
  moreover have "take n (drop (offset c) (cbytes c)) = bs" using c n by (simp add: cursor_at_def)
  ultimately show "take_bytes er n c = Inr (bs, moved (length bs) c)"
    using n by (simp add: take_bytes_def moved_def Let_def)
qed

lemma reads_u8 [codec_intros]: "reads (take_u8 er) [v] v"
  unfolding take_u8_def
  by (rule reads_dbind_last [OF reads_take_bytes]) (auto intro: reads_dret)

lemma dbind_dlift [simp]: "dbind (dlift (Inr a)) f = f a" "dbind (dlift (Inl e)) f = dfail e"
  by (simp_all add: dbind_def dlift_def dfail_def)

lemma reads_u8_Cons: "reads (f v) bs b \<Longrightarrow> reads (dbind (take_u8 er) f) (v # bs) b"
  using reads_dbind [OF reads_u8, of f v bs b er] by simp

lemma reads_u16 [codec_intros]: "reads (take_u16 er) (u16_le v) v"
  unfolding take_u16_def
  by (rule reads_dbind_last [OF reads_take_bytes]) (auto intro: reads_dret)

lemma reads_u32 [codec_intros]: "reads (take_u32 er) (u32_le v) v"
  unfolding take_u32_def
  by (rule reads_dbind_last [OF reads_take_bytes]) (auto intro: reads_dret)

lemma reads_u64 [codec_intros]: "reads (take_u64 er) (u64_le v) v"
  unfolding take_u64_def
  by (rule reads_dbind_last [OF reads_take_bytes]) (auto intro: reads_dret)

lemma reads_bool [codec_intros]: "push_bool v = Inr bs \<Longrightarrow> reads (take_bool er bad) bs v"
  unfolding take_bool_def push_bool_def
  by (auto intro!: reads_dbind_last [OF reads_u8] reads_dret split: if_splits)

lemma reads_blob [codec_intros]: "push_bytes ovf v = Inr bs \<Longrightarrow> reads (take_blob er) bs v"
  unfolding take_blob_def push_bytes_def
  by (auto intro!: reads_dbind reads_u32 reads_take_bytes simp: unat_len)

lemma reads_string [codec_intros]:
  "push_string ovf s = Inr bs \<Longrightarrow> str_ok s \<Longrightarrow> reads (take_string er bad) bs s"
  unfolding take_string_def push_string_def
  by (rule reads_dbind_last [OF reads_blob]) (auto intro: reads_dlift)

section \<open>Encoders and decoders that belong together\<close>

locale codec =
  fixes ok :: "'a \<Rightarrow> bool"
    and encode :: "'a \<Rightarrow> 'e + u8 list"
    and decode :: "('f, 'a) dec"
  assumes decode_encode: "ok a \<Longrightarrow> encode a = Inr bs \<Longrightarrow> reads decode bs a"
begin

lemma each:
  "(\<And>x. x \<in> set xs \<Longrightarrow> ok x) \<Longrightarrow> push_each encode xs = Inr bs
    \<Longrightarrow> reads (take_n (length xs) decode) bs xs"
proof (induction xs arbitrary: bs)
  case Nil
  then show ?case by (simp add: reads_dret)
next
  case (Cons x xs)
  from Cons.prems(2) obtain b1 b2
    where "encode x = Inr b1" "push_each encode xs = Inr b2" "bs = b1 @ b2" by auto
  moreover from this have "reads decode b1 x" using Cons.prems(1) by (intro decode_encode) auto
  moreover have "reads (take_n (length xs) decode) b2 xs"
    using Cons.IH Cons.prems(1) calculation(2) by simp
  ultimately show ?case
    by (auto intro!: reads_dbind reads_dbind_last [OF _ reads_dret])
qed

text \<open>A sequence after its length.\<close>

lemma counted:
  assumes "\<And>x. x \<in> set xs \<Longrightarrow> ok x"
    and "eseq (push_len ovf (length xs)) (push_each encode xs) = Inr bs"
  shows "reads (dbind (take_u32 er) (\<lambda>n. take_n (unat n) decode)) bs xs"
proof -
  from assms(2) obtain b where n: "int (length xs) < 2 ^ 32" and b: "push_each encode xs = Inr b"
    and bs: "bs = u32_le (of_nat (length xs)) @ b" by auto
  have "reads (take_n (unat (of_nat (length xs) :: u32)) decode) b xs"
    using each [OF assms(1) b] n by (simp add: unat_len)
  then show ?thesis unfolding bs by (rule reads_dbind [OF reads_u32])
qed

lemma optional:
  assumes "\<And>a. v = Some a \<Longrightarrow> ok a" and "push_option encode v = Inr bs"
  shows "reads (take_option er bad decode) bs v"
proof (cases v)
  case None
  with assms(2) show ?thesis
    by (auto simp: push_option_def take_option_def intro!: reads_dbind_last [OF reads_u8] reads_dret)
next
  case (Some a)
  with assms(2) obtain b where b: "encode a = Inr b" and bs: "bs = [1] @ b"
    by (auto simp: push_option_def)
  have "reads decode b a" using assms(1) [OF Some] b by (rule decode_encode)
  then have "reads (dbind decode (\<lambda>a. dret (Some a))) b (Some a)"
    by (rule reads_dbind_last) (rule reads_dret)
  then show ?thesis
    unfolding take_option_def bs Some by (intro reads_dbind [OF reads_u8]) simp
qed

end

interpretation string_codec: codec str_ok "push_string ovf" "take_string er bad"
  for ovf and er and bad
  by unfold_locales (rule reads_string)

interpretation bytes_codec: codec "\<lambda>_. True" "push_bytes ovf" "take_blob er"
  for ovf and er
  by unfold_locales (rule reads_blob)

lemma reads_strings [codec_intros]:
  "push_strings ovf ss = Inr bs \<Longrightarrow> (\<And>s. s \<in> set ss \<Longrightarrow> str_ok s) \<Longrightarrow> reads (take_strings er bad) bs ss"
  unfolding push_strings_def take_strings_def by (rule string_codec.counted)

section \<open>Nothing but encodings is accepted\<close>

text \<open>
  \<open>accepts d P\<close>: whatever \<open>d\<close> returns, it has read some bytes and moved past exactly those, and
  \<open>P\<close> relates the value to them.
\<close>

definition accepts :: "('e, 'a) dec \<Rightarrow> ('a \<Rightarrow> u8 list \<Rightarrow> bool) \<Rightarrow> bool" where
  "accepts d P \<longleftrightarrow> (\<forall>c xs a c'. cursor_at c xs \<longrightarrow> d c = Inr (a, c') \<longrightarrow>
    (\<exists>bs rest. xs = bs @ rest \<and> c' = moved (length bs) c \<and> P a bs))"

lemma acceptsD:
  assumes "accepts d P" and "cursor_at c xs" and "d c = Inr (a, c')"
  obtains bs rest where "xs = bs @ rest" "c' = moved (length bs) c" "P a bs"
  using assms unfolding accepts_def by blast

lemma acceptsI:
  "(\<And>c xs a c'. cursor_at c xs \<Longrightarrow> d c = Inr (a, c') \<Longrightarrow>
    \<exists>bs rest. xs = bs @ rest \<and> c' = moved (length bs) c \<and> P a bs) \<Longrightarrow> accepts d P"
  by (simp add: accepts_def)

lemma accepts_mono:
  assumes "accepts d P" and "\<And>a bs. P a bs \<Longrightarrow> Q a bs"
  shows "accepts d Q"
proof (rule acceptsI)
  fix c xs a c' assume "cursor_at c xs" and "d c = Inr (a, c')"
  with assms(1) obtain bs rest where "xs = bs @ rest" "c' = moved (length bs) c" "P a bs"
    by (rule acceptsD)
  with assms(2) show "\<exists>bs rest. xs = bs @ rest \<and> c' = moved (length bs) c \<and> Q a bs" by blast
qed

lemma accepts_here:
  "P a [] \<Longrightarrow> c' = c \<Longrightarrow> \<exists>bs rest. xs = bs @ rest \<and> c' = moved (length bs) c \<and> P a bs"
  by (rule exI [of _ "[]"]) simp

lemma accepts_dret: "P a [] \<Longrightarrow> accepts (dret a) P"
  by (rule acceptsI) (rule accepts_here, auto simp: dret_def)

lemma accepts_dfail: "accepts (dfail e) P"
  by (rule acceptsI) (simp add: dfail_def)

lemma accepts_dlift: "(\<And>a. r = Inr a \<Longrightarrow> P a []) \<Longrightarrow> accepts (dlift r) P"
  by (rule acceptsI) (rule accepts_here, auto simp: dlift_def)

lemma accepts_dbind_dlift: "(\<And>a. r = Inr a \<Longrightarrow> accepts (f a) Q) \<Longrightarrow> accepts (dbind (dlift r) f) Q"
  by (cases r) (simp_all add: accepts_dfail)

lemma accepts_dbind:
  assumes "accepts d P" and "\<And>a bs. P a bs \<Longrightarrow> accepts (f a) (\<lambda>b cs. Q b (bs @ cs))"
  shows "accepts (dbind d f) Q"
  unfolding accepts_def
proof (intro allI impI)
  fix c xs b c'
  assume c: "cursor_at c xs" and "dbind d f c = Inr (b, c')"
  then obtain a c1 where d: "d c = Inr (a, c1)" and f: "f a c1 = Inr (b, c')"
    by (auto simp: dbind_def)
  from acceptsD [OF assms(1) c d] obtain bs rest
    where xs: "xs = bs @ rest" and c1: "c1 = moved (length bs) c" and P: "P a bs" .
  have "cursor_at c1 rest" using c unfolding xs c1 by (rule cursor_at_moved)
  from acceptsD [OF assms(2) [OF P] this f] obtain cs rest'
    where "rest = cs @ rest'" "c' = moved (length cs) c1" "Q b (bs @ cs)" .
  with xs c1 show "\<exists>bs rest. xs = bs @ rest \<and> c' = moved (length bs) c \<and> Q b bs"
    by (intro exI [of _ "bs @ cs"] exI [of _ rest']) simp
qed

lemma accepts_take_bytes: "accepts (take_bytes er n) (\<lambda>a bs. a = bs \<and> length bs = n)"
  unfolding accepts_def
proof (intro allI impI)
  fix c xs a c'
  assume c: "cursor_at c xs" and t: "take_bytes er n c = Inr (a, c')"
  from t have len: "offset c + n \<le> length (cbytes c)" and a: "a = take n (drop (offset c) (cbytes c))"
    and c': "c' = moved n c"
    by (auto simp: take_bytes_def Let_def moved_def split: if_splits)
  from c have "a = take n xs" using a by (simp add: cursor_at_def)
  with c' len cursor_at_length [OF c]
  show "\<exists>bs rest. xs = bs @ rest \<and> c' = moved (length bs) c \<and> a = bs \<and> length bs = n"
    by (intro exI [of _ "take n xs"] exI [of _ "drop n xs"]) simp
qed

lemma accepts_u8: "accepts (take_u8 er) (\<lambda>a bs. bs = [a])"
  unfolding take_u8_def
  by (rule accepts_dbind [OF accepts_take_bytes]) (auto intro!: accepts_dret simp: length_Suc_conv)

lemma accepts_u16: "accepts (take_u16 er) (\<lambda>a bs. bs = u16_le a)"
  unfolding take_u16_def
  by (rule accepts_dbind [OF accepts_take_bytes]) (auto intro!: accepts_dret)

lemma accepts_u32: "accepts (take_u32 er) (\<lambda>a bs. bs = u32_le a)"
  unfolding take_u32_def
  by (rule accepts_dbind [OF accepts_take_bytes]) (auto intro!: accepts_dret)

lemma accepts_u64: "accepts (take_u64 er) (\<lambda>a bs. bs = u64_le a)"
  unfolding take_u64_def
  by (rule accepts_dbind [OF accepts_take_bytes]) (auto intro!: accepts_dret)

locale canonical_codec = codec +
  assumes encode_decode: "accepts decode (\<lambda>a bs. ok a \<and> encode a = Inr bs)"
begin

lemma each_accepts:
  "accepts (take_n n decode)
    (\<lambda>xs bs. length xs = n \<and> (\<forall>x \<in> set xs. ok x) \<and> push_each encode xs = Inr bs)"
proof (induction n)
  case 0
  then show ?case by (simp add: accepts_dret)
next
  case (Suc n)
  show ?case
    unfolding take_n.simps
    by (rule accepts_dbind [OF encode_decode], rule accepts_dbind [OF Suc.IH])
      (auto intro!: accepts_dret)
qed

lemma counted_accepts:
  "accepts (dbind (take_u32 er) (\<lambda>n. take_n (unat n) decode))
    (\<lambda>xs bs. (\<forall>x \<in> set xs. ok x) \<and> eseq (push_len ovf (length xs)) (push_each encode xs) = Inr bs)"
  by (rule accepts_dbind [OF accepts_u32], rule accepts_mono [OF each_accepts]) auto

lemma optional_accepts:
  "accepts (take_option er bad decode)
    (\<lambda>v bs. (\<forall>a. v = Some a \<longrightarrow> ok a) \<and> push_option encode v = Inr bs)"
  unfolding take_option_def
  by (rule accepts_dbind [OF accepts_u8])
    (auto intro!: accepts_dret accepts_dfail accepts_dbind [OF encode_decode] simp: push_option_def)

end

interpretation u32_codec: canonical_codec "\<lambda>_. True" push_u32 "take_u32 er"
  for er
  by unfold_locales (auto intro: reads_u32 accepts_mono [OF accepts_u32])

lemma accepts_bool: "accepts (take_bool er bad) (\<lambda>v bs. push_bool v = Inr bs)"
  unfolding take_bool_def
  by (rule accepts_dbind [OF accepts_u8]) (auto intro!: accepts_dret accepts_dfail simp: push_bool_def)

lemma accepts_blob: "accepts (take_blob er) (\<lambda>v bs. push_bytes ovf v = Inr bs)"
  unfolding take_blob_def
  by (rule accepts_dbind [OF accepts_u32], rule accepts_mono [OF accepts_take_bytes])
    (auto simp: push_bytes_def)

lemma accepts_string: "accepts (take_string er bad) (\<lambda>s bs. str_ok s \<and> push_string ovf s = Inr bs)"
  unfolding take_string_def
  by (rule accepts_dbind [OF accepts_blob])
    (auto intro!: accepts_dlift simp: push_string_def from_utf8_Some)

text \<open>Strings and byte vectors are canonical.\<close>

interpretation string_canonical: canonical_codec str_ok "push_string ovf" "take_string er bad"
  for ovf and er and bad
  by unfold_locales (rule accepts_string)

interpretation bytes_canonical: canonical_codec "\<lambda>_. True" "push_bytes ovf" "take_blob er"
  for ovf and er
  by unfold_locales (auto intro: accepts_mono [OF accepts_blob])

lemma accepts_strings:
  "accepts (take_strings er bad) (\<lambda>ss bs. (\<forall>s \<in> set ss. str_ok s) \<and> push_strings ovf ss = Inr bs)"
  unfolding take_strings_def push_strings_def by (rule string_canonical.counted_accepts)

section \<open>Failing only for one reason\<close>

text \<open>\<open>only e m\<close>: if the encoder fails, then with \<open>e\<close>.\<close>

definition only :: "'e \<Rightarrow> 'e enc \<Rightarrow> bool" where
  "only e m \<longleftrightarrow> (\<forall>e'. m = Inl e' \<longrightarrow> e' = e)"

lemma only_push [simp, intro]:
  "only e (push_raw bs)" "only e (push_u8 v)" "only e (push_u16 v2)" "only e (push_u32 v4)"
  "only e (push_u64 v8)" "only e (push_bool b)" "only e (push_len e n)" "only e (push_bytes e bs)"
  "only e (push_string e s)"
  by (auto simp: only_def push_raw_def push_u8_def push_u16_def push_u32_def push_u64_def push_bool_def
      push_len_def len_u32_def push_bytes_def push_string_def eseq_def split: if_splits)

lemma only_eseq [simp, intro]: "only e m \<Longrightarrow> only e n \<Longrightarrow> only e (eseq m n)"
  by (auto simp: only_def eseq_def rbind_eq_Inl)

lemma only_each [simp, intro]: "(\<And>x. only e (enc x)) \<Longrightarrow> only e (push_each enc xs)"
  by (induction xs) auto

lemma only_option [simp, intro]: "(\<And>x. only e (enc x)) \<Longrightarrow> only e (push_option enc v)"
  by (cases v) (auto simp: push_option_def)

lemma only_strings [simp, intro]: "only e (push_strings e ss)"
  by (auto simp: push_strings_def)

end
