(* ===== verification/NTD_IR_Codec.thy ===== *)
theory NTD_IR_Codec
  imports NTD_IR Rust_Codec
begin

text \<open>
  The NIR97 encoding of graphs, \<open>crates/ntd-capsule/src/ir_codec.rs\<close>: \<open>encode_graph\<close>,
  \<open>decode_graph\<close> and everything they call. The two directions are inverse to each other: decoding
  an encoding gives the graph back, and every byte sequence that decodes is the one encoding of its
  graph.
\<close>

section \<open>Errors and constants\<close>

datatype ir_codec_error =
  Ir_Truncated
| Ir_InvalidMagic
| Ir_InvalidHeader
| Ir_InvalidValueType u8
| Ir_InvalidDType u8
| Ir_InvalidOpFamily u8
| Ir_InvalidOpCode u8 u8
| Ir_InvalidUtf8
| Ir_NonCanonicalEncoding
| Ir_UnsupportedVersion ir_version
| Ir_StructuralValidation validation_error
| Ir_Overflow

definition ir_graph_magic :: "u8 list" where
  "ir_graph_magic = [78, 73, 82, 57, 55, 0]"

definition ir_graph_header_len :: u16 where
  "ir_graph_header_len = 24"

text \<open>The errors of this file's \<open>Cursor\<close>.\<close>

definition ir_cerr :: "ir_codec_error cerr" where
  "ir_cerr = \<lparr>trunc = Ir_Truncated, ovfl = Ir_Overflow\<rparr>"

section \<open>Tags\<close>

fun dtype_tag :: "dtype \<Rightarrow> u8" where
  "dtype_tag F32 = 1"
| "dtype_tag F16 = 2"
| "dtype_tag Bf16 = 3"
| "dtype_tag I8 = 4"
| "dtype_tag U8 = 5"
| "dtype_tag I32 = 6"
| "dtype_tag I64 = 7"
| "dtype_tag Bool = 8"

definition decode_dtype :: "u8 \<Rightarrow> ir_codec_error + dtype" where
  "decode_dtype tag =
    (if tag = 1 then Inr F32 else if tag = 2 then Inr F16 else if tag = 3 then Inr Bf16
     else if tag = 4 then Inr I8 else if tag = 5 then Inr U8 else if tag = 6 then Inr I32
     else if tag = 7 then Inr I64 else if tag = 8 then Inr Bool else Inl (Ir_InvalidDType tag))"

fun tensor_op_tag :: "tensor_op \<Rightarrow> u8" where
  "tensor_op_tag Add = 1"
| "tensor_op_tag Mul = 2"
| "tensor_op_tag MatMul = 3"
| "tensor_op_tag QuantizedMatMul = 4"
| "tensor_op_tag RmsNorm = 5"
| "tensor_op_tag Softmax = 6"
| "tensor_op_tag Gather = 7"
| "tensor_op_tag RotaryPosition = 8"
| "tensor_op_tag CausalAttention = 9"
| "tensor_op_tag Silu = 10"
| "tensor_op_tag Reshape = 11"
| "tensor_op_tag Transpose = 12"
| "tensor_op_tag PositionIds = 13"

fun state_op_tag :: "state_op \<Rightarrow> u8" where
  "state_op_tag Read = 1"
| "state_op_tag Write = 2"
| "state_op_tag Checkpoint = 3"

fun memory_op_tag :: "memory_op \<Rightarrow> u8" where
  "memory_op_tag Retrieve = 1"
| "memory_op_tag Store = 2"
| "memory_op_tag Forget = 3"

fun control_op_tag :: "control_op \<Rightarrow> u8" where
  "control_op_tag Select = 1"
| "control_op_tag Merge = 2"
| "control_op_tag Barrier = 3"

section \<open>Encoding\<close>

definition encode_value_decl :: "value_decl \<Rightarrow> ir_codec_error enc" where
  "encode_value_decl v = eseq (push_u32 (vd_id v))
    (case vd_ty v of
      Scalar dt \<Rightarrow> push_raw [1, dtype_tag dt, 0, 0]
    | Tensor dt rank \<Rightarrow> push_raw [2, dtype_tag dt, rank, 0]
    | Bytes \<Rightarrow> push_raw [3, 0, 0, 0]
    | Handle \<Rightarrow> push_raw [4, 0, 0, 0])"

fun encode_op :: "op_kind \<Rightarrow> u8 \<times> u8 \<times> u8 list" where
  "encode_op (TensorOp t) = (1, tensor_op_tag t, [])"
| "encode_op (StateOp s) = (2, state_op_tag s, [])"
| "encode_op (MemoryOp m) = (3, memory_op_tag m, [])"
| "encode_op (ControlOp c) = (4, control_op_tag c, [])"
| "encode_op (ToolOp (Invoke capability)) = (5, 1, str_bytes capability)"
| "encode_op (ToolOp Observe) = (5, 2, [])"
| "encode_op (ToolOp Verify) = (5, 3, [])"

definition encode_node :: "node \<Rightarrow> ir_codec_error enc" where
  "encode_node n = (case encode_op (nd_op n) of (family, opcode, attrs) \<Rightarrow>
    rbind (len_u32 Ir_Overflow (length (nd_inputs n))) (\<lambda>input_count.
    rbind (len_u32 Ir_Overflow (length (nd_outputs n))) (\<lambda>output_count.
    rbind (len_u32 Ir_Overflow (length attrs)) (\<lambda>attr_len.
    eseq (push_u32 (nd_id n))
    (eseq (push_u8 family)
    (eseq (push_u8 opcode)
    (eseq (push_u16 0)
    (eseq (push_u32 input_count)
    (eseq (push_u32 output_count)
    (eseq (push_u32 attr_len)
    (eseq (push_each push_u32 (nd_inputs n))
    (eseq (push_each encode_value_decl (nd_outputs n))
    (push_raw attrs)))))))))))))"

definition encode_graph :: "graph \<Rightarrow> ir_codec_error enc" where
  "encode_graph g =
    (if \<not> can_read ir_current (gr_version g) then Inl (Ir_UnsupportedVersion (gr_version g))
     else
    rbind (map_err Ir_StructuralValidation (graph_validate g)) (\<lambda>_.
    rbind (len_u32 Ir_Overflow (length (gr_inputs g))) (\<lambda>input_count.
    rbind (len_u32 Ir_Overflow (length (gr_outputs g))) (\<lambda>output_count.
    rbind (len_u32 Ir_Overflow (length (gr_nodes g))) (\<lambda>node_count.
    eseq (push_raw ir_graph_magic)
    (eseq (push_u16 ir_graph_header_len)
    (eseq (push_u16 (major (gr_version g)))
    (eseq (push_u16 (minor (gr_version g)))
    (eseq (push_u32 input_count)
    (eseq (push_u32 output_count)
    (eseq (push_u32 node_count)
    (eseq (push_each encode_value_decl (gr_inputs g))
    (eseq (push_each push_u32 (gr_outputs g))
    (push_each encode_node (gr_nodes g)))))))))))))))"

section \<open>Decoding\<close>

definition reject_attrs :: "u8 list \<Rightarrow> ir_codec_error + unit" where
  "reject_attrs attrs = (if attrs = [] then Inr () else Inl Ir_NonCanonicalEncoding)"

definition decode_tensor_op :: "u8 \<Rightarrow> ir_codec_error + op_kind" where
  "decode_tensor_op opcode =
    (if opcode = 1 then Inr (TensorOp Add) else if opcode = 2 then Inr (TensorOp Mul)
     else if opcode = 3 then Inr (TensorOp MatMul) else if opcode = 4 then Inr (TensorOp QuantizedMatMul)
     else if opcode = 5 then Inr (TensorOp RmsNorm) else if opcode = 6 then Inr (TensorOp Softmax)
     else if opcode = 7 then Inr (TensorOp Gather) else if opcode = 8 then Inr (TensorOp RotaryPosition)
     else if opcode = 9 then Inr (TensorOp CausalAttention) else if opcode = 10 then Inr (TensorOp Silu)
     else if opcode = 11 then Inr (TensorOp Reshape) else if opcode = 12 then Inr (TensorOp Transpose)
     else if opcode = 13 then Inr (TensorOp PositionIds)
     else Inl (Ir_InvalidOpCode 1 opcode))"

definition decode_state_op :: "u8 \<Rightarrow> ir_codec_error + op_kind" where
  "decode_state_op opcode =
    (if opcode = 1 then Inr (StateOp Read) else if opcode = 2 then Inr (StateOp Write)
     else if opcode = 3 then Inr (StateOp Checkpoint) else Inl (Ir_InvalidOpCode 2 opcode))"

definition decode_memory_op :: "u8 \<Rightarrow> ir_codec_error + op_kind" where
  "decode_memory_op opcode =
    (if opcode = 1 then Inr (MemoryOp Retrieve) else if opcode = 2 then Inr (MemoryOp Store)
     else if opcode = 3 then Inr (MemoryOp Forget) else Inl (Ir_InvalidOpCode 3 opcode))"

definition decode_control_op :: "u8 \<Rightarrow> ir_codec_error + op_kind" where
  "decode_control_op opcode =
    (if opcode = 1 then Inr (ControlOp Select) else if opcode = 2 then Inr (ControlOp Merge)
     else if opcode = 3 then Inr (ControlOp Barrier) else Inl (Ir_InvalidOpCode 4 opcode))"

definition decode_tool_op :: "u8 \<Rightarrow> u8 list \<Rightarrow> ir_codec_error + op_kind" where
  "decode_tool_op opcode attrs =
    (if opcode = 1 then
       rbind (ok_or Ir_InvalidUtf8 (from_utf8 attrs)) (\<lambda>s. Inr (ToolOp (Invoke s)))
     else if opcode = 2 then rbind (reject_attrs attrs) (\<lambda>_. Inr (ToolOp Observe))
     else if opcode = 3 then rbind (reject_attrs attrs) (\<lambda>_. Inr (ToolOp Verify))
     else Inl (Ir_InvalidOpCode 5 opcode))"

definition decode_op :: "u8 \<Rightarrow> u8 \<Rightarrow> u8 list \<Rightarrow> ir_codec_error + op_kind" where
  "decode_op family opcode attrs =
    (if family = 1 then rbind (reject_attrs attrs) (\<lambda>_. decode_tensor_op opcode)
     else if family = 2 then rbind (reject_attrs attrs) (\<lambda>_. decode_state_op opcode)
     else if family = 3 then rbind (reject_attrs attrs) (\<lambda>_. decode_memory_op opcode)
     else if family = 4 then rbind (reject_attrs attrs) (\<lambda>_. decode_control_op opcode)
     else if family = 5 then decode_tool_op opcode attrs
     else Inl (Ir_InvalidOpFamily family))"

definition decode_value_type :: "u8 \<Rightarrow> u8 \<Rightarrow> u8 \<Rightarrow> ir_codec_error + value_type" where
  "decode_value_type ty_tag dt rank =
    (if ty_tag = 1 then
       (if rank \<noteq> 0 then Inl Ir_NonCanonicalEncoding
        else rbind (decode_dtype dt) (\<lambda>d. Inr (Scalar d)))
     else if ty_tag = 2 then rbind (decode_dtype dt) (\<lambda>d. Inr (Tensor d rank))
     else if ty_tag = 3 then
       (if dt \<noteq> 0 \<or> rank \<noteq> 0 then Inl Ir_NonCanonicalEncoding else Inr Bytes)
     else if ty_tag = 4 then
       (if dt \<noteq> 0 \<or> rank \<noteq> 0 then Inl Ir_NonCanonicalEncoding else Inr Handle)
     else Inl (Ir_InvalidValueType ty_tag))"

definition decode_value_decl :: "(ir_codec_error, value_decl) dec" where
  "decode_value_decl =
    dbind (take_u32 ir_cerr) (\<lambda>vid.
    dbind (take_u8 ir_cerr) (\<lambda>ty_tag.
    dbind (take_u8 ir_cerr) (\<lambda>dt.
    dbind (take_u8 ir_cerr) (\<lambda>rank.
    dbind (take_u8 ir_cerr) (\<lambda>reserved.
    if reserved \<noteq> 0 then dfail Ir_NonCanonicalEncoding
    else dbind (dlift (decode_value_type ty_tag dt rank)) (\<lambda>ty.
    dret \<lparr>vd_id = vid, vd_ty = ty\<rparr>))))))"

definition decode_node :: "(ir_codec_error, node) dec" where
  "decode_node =
    dbind (take_u32 ir_cerr) (\<lambda>nid.
    dbind (take_u8 ir_cerr) (\<lambda>family.
    dbind (take_u8 ir_cerr) (\<lambda>opcode.
    dbind (take_u16 ir_cerr) (\<lambda>reserved.
    if reserved \<noteq> 0 then dfail Ir_NonCanonicalEncoding
    else
    dbind (take_u32 ir_cerr) (\<lambda>input_count.
    dbind (take_u32 ir_cerr) (\<lambda>output_count.
    dbind (take_u32 ir_cerr) (\<lambda>attr_len.
    dbind (take_n (unat input_count) (take_u32 ir_cerr)) (\<lambda>inputs.
    dbind (take_n (unat output_count) decode_value_decl) (\<lambda>outputs.
    dbind (take_bytes ir_cerr (unat attr_len)) (\<lambda>attrs.
    dbind (dlift (decode_op family opcode attrs)) (\<lambda>op.
    dret \<lparr>nd_id = nid, nd_op = op, nd_inputs = inputs, nd_outputs = outputs\<rparr>)))))))))))"

text \<open>The part of \<open>decode_graph\<close> that moves the cursor.\<close>

definition decode_graph_body :: "(ir_codec_error, graph) dec" where
  "decode_graph_body =
    dbind (take_bytes ir_cerr 6) (\<lambda>magic.
    if magic \<noteq> ir_graph_magic then dfail Ir_InvalidMagic
    else
    dbind (take_u16 ir_cerr) (\<lambda>header_len.
    if header_len \<noteq> ir_graph_header_len then dfail Ir_InvalidHeader
    else
    dbind (take_u16 ir_cerr) (\<lambda>mj.
    dbind (take_u16 ir_cerr) (\<lambda>mn.
    if \<not> can_read ir_current \<lparr>major = mj, minor = mn\<rparr>
    then dfail (Ir_UnsupportedVersion \<lparr>major = mj, minor = mn\<rparr>)
    else
    dbind (take_u32 ir_cerr) (\<lambda>input_count.
    dbind (take_u32 ir_cerr) (\<lambda>output_count.
    dbind (take_u32 ir_cerr) (\<lambda>node_count.
    dbind (take_n (unat input_count) decode_value_decl) (\<lambda>inputs.
    dbind (take_n (unat output_count) (take_u32 ir_cerr)) (\<lambda>outputs.
    dbind (take_n (unat node_count) decode_node) (\<lambda>nodes.
    dret \<lparr>gr_version = \<lparr>major = mj, minor = mn\<rparr>, gr_inputs = inputs, gr_outputs = outputs,
      gr_nodes = nodes\<rparr>))))))))))"

definition decode_graph :: "u8 list \<Rightarrow> ir_codec_error + graph" where
  "decode_graph bytes =
    rbind (decode_graph_body (cursor_new bytes)) (\<lambda>(g, c).
    if \<not> is_finished c then Inl Ir_NonCanonicalEncoding
    else rbind (map_err Ir_StructuralValidation (graph_validate g)) (\<lambda>_. Inr g))"

section \<open>Tags round-trip\<close>

lemma decode_dtype_tag [simp]: "decode_dtype (dtype_tag dt) = Inr dt"
  by (cases dt) (simp_all add: decode_dtype_def)

lemma decode_dtype_Inr: "decode_dtype t = Inr dt \<longleftrightarrow> t = dtype_tag dt"
  by (cases dt) (auto simp: decode_dtype_def)

lemma decode_tensor_op_Inr: "decode_tensor_op t = Inr op \<longleftrightarrow> (\<exists>k. op = TensorOp k \<and> t = tensor_op_tag k)"
proof
  assume "decode_tensor_op t = Inr op"
  then show "\<exists>k. op = TensorOp k \<and> t = tensor_op_tag k"
    unfolding decode_tensor_op_def by (auto split: if_splits)
next
  assume "\<exists>k. op = TensorOp k \<and> t = tensor_op_tag k"
  then obtain k where "op = TensorOp k" "t = tensor_op_tag k" by blast
  then show "decode_tensor_op t = Inr op" by (cases k) (simp_all add: decode_tensor_op_def)
qed

lemma decode_state_op_Inr: "decode_state_op t = Inr op \<longleftrightarrow> (\<exists>k. op = StateOp k \<and> t = state_op_tag k)"
proof
  assume "\<exists>k. op = StateOp k \<and> t = state_op_tag k"
  then obtain k where "op = StateOp k" "t = state_op_tag k" by blast
  then show "decode_state_op t = Inr op" by (cases k) (simp_all add: decode_state_op_def)
qed (auto simp: decode_state_op_def split: if_splits)

lemma decode_memory_op_Inr: "decode_memory_op t = Inr op \<longleftrightarrow> (\<exists>k. op = MemoryOp k \<and> t = memory_op_tag k)"
proof
  assume "\<exists>k. op = MemoryOp k \<and> t = memory_op_tag k"
  then obtain k where "op = MemoryOp k" "t = memory_op_tag k" by blast
  then show "decode_memory_op t = Inr op" by (cases k) (simp_all add: decode_memory_op_def)
qed (auto simp: decode_memory_op_def split: if_splits)

lemma decode_control_op_Inr:
  "decode_control_op t = Inr op \<longleftrightarrow> (\<exists>k. op = ControlOp k \<and> t = control_op_tag k)"
proof
  assume "\<exists>k. op = ControlOp k \<and> t = control_op_tag k"
  then obtain k where "op = ControlOp k" "t = control_op_tag k" by blast
  then show "decode_control_op t = Inr op" by (cases k) (simp_all add: decode_control_op_def)
qed (auto simp: decode_control_op_def split: if_splits)

fun op_strs :: "op_kind \<Rightarrow> bool" where
  "op_strs (ToolOp (Invoke s)) \<longleftrightarrow> str_ok s"
| "op_strs _ \<longleftrightarrow> True"

lemma decode_op_encode_op:
  assumes "encode_op op = (family, opcode, attrs)" and "op_strs op"
  shows "decode_op family opcode attrs = Inr op"
proof (cases op)
  case (ToolOp t)
  then show ?thesis
    using assms by (cases t) (auto simp: decode_op_def decode_tool_op_def reject_attrs_def)
qed (use assms in \<open>auto simp: decode_op_def reject_attrs_def decode_tensor_op_Inr decode_state_op_Inr
      decode_memory_op_Inr decode_control_op_Inr\<close>)

lemma encode_op_decode_op:
  assumes "decode_op family opcode attrs = Inr op"
  shows "encode_op op = (family, opcode, attrs) \<and> op_strs op"
  using assms
  by (auto simp: decode_op_def decode_tool_op_def reject_attrs_def decode_tensor_op_Inr
      decode_state_op_Inr decode_memory_op_Inr decode_control_op_Inr from_utf8_Some split: if_splits)

lemma decode_value_type_Inr:
  "decode_value_type t dt rank = Inr ty \<longleftrightarrow>
    (case ty of
      Scalar d \<Rightarrow> t = 1 \<and> dt = dtype_tag d \<and> rank = 0
    | Tensor d r \<Rightarrow> t = 2 \<and> dt = dtype_tag d \<and> rank = r
    | Bytes \<Rightarrow> t = 3 \<and> dt = 0 \<and> rank = 0
    | Handle \<Rightarrow> t = 4 \<and> dt = 0 \<and> rank = 0)"
  by (cases ty) (auto simp: decode_value_type_def decode_dtype_Inr)

section \<open>The parts of a graph round-trip\<close>

lemma reads_value_decl: "encode_value_decl v = Inr bs \<Longrightarrow> reads decode_value_decl bs v"
  unfolding decode_value_decl_def encode_value_decl_def
  by (cases v; cases "vd_ty v")
    (auto intro!: reads_dbind [OF reads_u32] reads_u8_Cons reads_dret simp: decode_value_type_def)

lemma accepts_value_decl: "accepts decode_value_decl (\<lambda>v bs. True \<and> encode_value_decl v = Inr bs)"
  unfolding decode_value_decl_def
  apply (rule accepts_dbind [OF accepts_u32])
  apply (rule accepts_dbind [OF accepts_u8])+
  apply (auto intro!: accepts_dfail accepts_dbind_dlift accepts_dret
      simp: decode_value_type_Inr encode_value_decl_def split: value_type.splits)
  done

interpretation value_decl_codec: canonical_codec "\<lambda>_. True" encode_value_decl decode_value_decl
  by unfold_locales (auto intro: reads_value_decl accepts_value_decl [simplified])

definition node_strs :: "node \<Rightarrow> bool" where
  "node_strs n \<longleftrightarrow> op_strs (nd_op n)"

lemma len_u32_eq_Inr: "len_u32 ovf n = Inr v \<longleftrightarrow> int n < 2 ^ 32 \<and> v = of_nat n"
  by (auto simp: len_u32_def)

lemma node_eta:
  "\<lparr>nd_id = nd_id n, nd_op = nd_op n, nd_inputs = nd_inputs n, nd_outputs = nd_outputs n\<rparr> = n"
  by (cases n) simp

lemma version_eta: "\<lparr>major = major v, minor = minor v\<rparr> = v"
  by (cases v) simp

lemma graph_eta:
  "\<lparr>gr_version = gr_version g, gr_inputs = gr_inputs g, gr_outputs = gr_outputs g, gr_nodes = gr_nodes g\<rparr> = g"
  by (cases g) simp

lemma reads_node:
  assumes "node_strs n" and "encode_node n = Inr bs"
  shows "reads decode_node bs n"
proof -
  obtain family opcode attrs where op: "encode_op (nd_op n) = (family, opcode, attrs)"
    by (cases "encode_op (nd_op n)")
  with assms(2) obtain b1 b2 where
      lens: "int (length (nd_inputs n)) < 2 ^ 32" "int (length (nd_outputs n)) < 2 ^ 32" "int (length attrs) < 2 ^ 32"
    and b1: "push_each (push_u32 :: u32 \<Rightarrow> ir_codec_error enc) (nd_inputs n) = Inr b1"
    and b2: "push_each encode_value_decl (nd_outputs n) = Inr b2"
    and bs: "bs = u32_le (nd_id n) @ family # opcode # u16_le 0 @ u32_le (of_nat (length (nd_inputs n)))
      @ u32_le (of_nat (length (nd_outputs n))) @ u32_le (of_nat (length attrs)) @ b1 @ b2 @ attrs"
    by (auto simp: encode_node_def len_u32_eq_Inr)
  have 1: "reads (take_n (length (nd_inputs n)) (take_u32 ir_cerr)) b1 (nd_inputs n)"
    using b1 by (intro u32_codec.each) auto
  have 2: "reads (take_n (length (nd_outputs n)) decode_value_decl) b2 (nd_outputs n)"
    using b2 by (intro value_decl_codec.each) auto
  have "decode_op family opcode attrs = Inr (nd_op n)"
    using op assms(1) by (intro decode_op_encode_op) (simp_all add: node_strs_def)
  then show ?thesis
    unfolding decode_node_def bs
    by (auto simp: lens [THEN unat_len] node_eta intro!: reads_dbind [OF reads_u32] reads_u8_Cons reads_dbind [OF reads_u16]
        reads_dbind [OF 1] reads_dbind [OF 2] reads_dbind_last [OF reads_take_bytes] reads_dret)
qed

lemma accepts_u32s:
  "accepts (take_n k (take_u32 er))
    (\<lambda>xs bs. length xs = k \<and> push_each (push_u32 :: u32 \<Rightarrow> ir_codec_error enc) xs = Inr bs)"
  by (rule accepts_mono [OF u32_codec.each_accepts]) simp

lemma accepts_node: "accepts decode_node (\<lambda>n bs. node_strs n \<and> encode_node n = Inr bs)"
  unfolding decode_node_def
  apply (rule accepts_dbind [OF accepts_u32])
  apply (rule accepts_dbind [OF accepts_u8])+
  apply (rule accepts_dbind [OF accepts_u16])
  apply (split if_split, intro conjI impI)
   apply (rule accepts_dfail)
  apply (rule accepts_dbind [OF accepts_u32])+
  apply (rule accepts_dbind [OF accepts_u32s])
  apply (rule accepts_dbind [OF value_decl_codec.each_accepts])
  apply (rule accepts_dbind [OF accepts_take_bytes])
  apply (rule accepts_dbind_dlift)
  apply (rule accepts_dret)
  apply (auto dest!: encode_op_decode_op simp: encode_node_def node_strs_def len_u32_eq_Inr)
  done

interpretation node_codec: canonical_codec node_strs encode_node decode_node
  by unfold_locales (auto intro: reads_node accepts_node)

section \<open>Graphs round-trip\<close>

definition graph_strs_ok :: "graph \<Rightarrow> bool" where
  "graph_strs_ok g \<longleftrightarrow> (\<forall>n \<in> set (gr_nodes g). node_strs n)"

lemma reads_graph:
  assumes "graph_strs_ok g" and "encode_graph g = Inr bs"
  shows "reads decode_graph_body bs g"
proof -
  from assms(2) have ver: "can_read ir_current (gr_version g)"
    by (auto simp: encode_graph_def split: if_splits)
  with assms(2) obtain b1 b2 b3 where
      lens: "int (length (gr_inputs g)) < 2 ^ 32" "int (length (gr_outputs g)) < 2 ^ 32" "int (length (gr_nodes g)) < 2 ^ 32"
    and b1: "push_each encode_value_decl (gr_inputs g) = Inr b1"
    and b2: "push_each (push_u32 :: u32 \<Rightarrow> ir_codec_error enc) (gr_outputs g) = Inr b2"
    and b3: "push_each encode_node (gr_nodes g) = Inr b3"
    and bs: "bs = ir_graph_magic @ u16_le ir_graph_header_len @ u16_le (major (gr_version g))
      @ u16_le (minor (gr_version g)) @ u32_le (of_nat (length (gr_inputs g)))
      @ u32_le (of_nat (length (gr_outputs g))) @ u32_le (of_nat (length (gr_nodes g))) @ b1 @ b2 @ b3"
    by (auto simp: encode_graph_def len_u32_eq_Inr)
  have 1: "reads (take_n (length (gr_inputs g)) decode_value_decl) b1 (gr_inputs g)"
    using b1 by (intro value_decl_codec.each) auto
  have 2: "reads (take_n (length (gr_outputs g)) (take_u32 ir_cerr)) b2 (gr_outputs g)"
    using b2 by (intro u32_codec.each) auto
  have 3: "reads (take_n (length (gr_nodes g)) decode_node) b3 (gr_nodes g)"
    using b3 assms(1) by (intro node_codec.each) (auto simp: graph_strs_ok_def)
  have magic: "reads (take_bytes ir_cerr 6) ir_graph_magic ir_graph_magic"
    by (rule reads_take_bytes) (simp add: ir_graph_magic_def)
  show ?thesis
    unfolding decode_graph_body_def bs using ver
    by (auto simp: lens [THEN unat_len] version_eta graph_eta intro!: reads_dbind [OF magic] reads_dbind [OF reads_u32]
        reads_dbind [OF reads_u16] reads_dbind [OF 1] reads_dbind [OF 2] reads_dbind_last [OF 3] reads_dret)
qed

lemma accepts_graph:
  "accepts decode_graph_body (\<lambda>g bs. graph_validate g = Inr () \<longrightarrow> graph_strs_ok g \<and> encode_graph g = Inr bs)"
  unfolding decode_graph_body_def
  apply (rule accepts_dbind [OF accepts_take_bytes])
  apply (split if_split, intro conjI impI, rule accepts_dfail)
  apply (rule accepts_dbind [OF accepts_u16])
  apply (split if_split, intro conjI impI, rule accepts_dfail)
  apply (rule accepts_dbind [OF accepts_u16])+
  apply (split if_split, intro conjI impI, rule accepts_dfail)
  apply (rule accepts_dbind [OF accepts_u32])+
  apply (rule accepts_dbind [OF value_decl_codec.each_accepts])
  apply (rule accepts_dbind [OF accepts_u32s])
  apply (rule accepts_dbind [OF node_codec.each_accepts])
  apply (rule accepts_dret)
  apply (auto simp: encode_graph_def graph_strs_ok_def len_u32_eq_Inr)
  done

lemma decode_graph_after_reads:
  assumes "reads decode_graph_body bs g" and "int (length bs) < usize_bound" and "graph_validate g = Inr ()"
  shows "decode_graph bs = Inr g"
proof -
  have c: "cursor_at (cursor_new bs) (bs @ [])" using assms(2) by (simp add: cursor_at_new)
  have "decode_graph_body (cursor_new bs) = Inr (g, moved (length bs) (cursor_new bs))"
    using assms(1) c by (rule readsD)
  moreover have "is_finished (moved (length bs) (cursor_new bs))"
    using is_finished_at [OF cursor_at_moved [OF c]] by simp
  ultimately show ?thesis using assms(3) by (simp add: decode_graph_def)
qed

text \<open>A graph with a tensor input and one tool node, and its encoding.\<close>

definition sample_graph :: graph where
  "sample_graph = \<lparr>gr_version = ir_current,
     gr_inputs = [\<lparr>vd_id = 0, vd_ty = Tensor F16 2\<rparr>], gr_outputs = [6],
     gr_nodes = [\<lparr>nd_id = 14, nd_op = ToolOp (Invoke ''web''), nd_inputs = [0],
       nd_outputs = [\<lparr>vd_id = 6, vd_ty = Bytes\<rparr>]\<rparr>]\<rparr>"

definition sample_bytes :: "u8 list" where
  "sample_bytes = [78, 73, 82, 57, 55, 0, 24, 0, 0, 0, 4, 0, 1, 0, 0, 0, 1, 0, 0, 0, 1, 0, 0, 0,
     0, 0, 0, 0, 2, 2, 2, 0, 6, 0, 0, 0, 14, 0, 0, 0, 5, 1, 0, 0, 1, 0, 0, 0, 1, 0, 0, 0,
     3, 0, 0, 0, 0, 0, 0, 0, 6, 0, 0, 0, 3, 0, 0, 0, 119, 101, 98]"

text \<open>
  C32: a graph that \<open>encode_graph\<close> accepts is given back by \<open>decode_graph\<close>, for every graph whose
  strings are UTF-8 (as Rust's are) and every encoding that fits the address space.
\<close>

theorem decode_encode_graph:
  assumes "encode_graph g = Inr bs" and "graph_strs_ok g" and "int (length bs) < usize_bound"
  shows "decode_graph bs = Inr g"
proof (rule decode_graph_after_reads)
  show "reads decode_graph_body bs g" using assms(2,1) by (rule reads_graph)
  show "graph_validate g = Inr ()" using assms(1) by (auto simp: encode_graph_def split: if_splits)
qed (rule assms(3))

theorem decode_encode_graph_witness: "decode_graph sample_bytes = Inr sample_graph"
  by (rule decode_encode_graph) code_simp+

text \<open>
  The encoding is canonical: a byte sequence that \<open>decode_graph\<close> accepts is exactly what
  \<open>encode_graph\<close> writes for the graph it returns. No two byte sequences decode to the same graph,
  and the decoder never returns a graph that fails validation.
\<close>

theorem decode_graph_canonical:
  assumes "decode_graph bs = Inr g" and "int (length bs) < usize_bound"
  shows "encode_graph g = Inr bs \<and> graph_wf g"
proof -
  from assms(1) obtain c where d: "decode_graph_body (cursor_new bs) = Inr (g, c)"
    and fin: "is_finished c" and val: "graph_validate g = Inr ()"
    by (auto simp: decode_graph_def split: if_splits)
  have at: "cursor_at (cursor_new bs) bs" using assms(2) by (rule cursor_at_new)
  from acceptsD [OF accepts_graph at d] obtain cs rest where
      bs: "bs = cs @ rest" and c: "c = moved (length cs) (cursor_new bs)"
    and enc: "graph_validate g = Inr () \<longrightarrow> graph_strs_ok g \<and> encode_graph g = Inr cs" .
  have "cursor_at c rest" unfolding c by (rule cursor_at_moved) (use at bs in simp)
  with fin have "rest = []" by (simp add: is_finished_at)
  with enc val bs show ?thesis by (simp add: graph_validate_wf)
qed

theorem decode_graph_canonical_witness: "encode_graph sample_graph = Inr sample_bytes \<and> graph_wf sample_graph"
  by (rule decode_graph_canonical) code_simp+

end
