(* ===== verification/NTD_Core.thy ===== *)
theory NTD_Core
  imports Rust_Strings
begin

text \<open>
  The data types of \<open>crates/ntd-core\<close>: reasoning budgets, side-effect classes, intents and task
  graphs. Rust's enum variants keep their names; record fields carry a prefix because HOL record
  selectors share one name space.
\<close>

datatype reasoning_budget = Reflex | Standard | Deep | Recovery

datatype side_effect_class = ReadOnly | Reversible | ExternalWrite | Irreversible

record intent =
  in_objective :: string
  in_completion_criteria :: "string list"
  in_max_steps :: u32

definition intent_new :: "string \<Rightarrow> intent" where
  "intent_new obj = \<lparr>in_objective = obj, in_completion_criteria = [], in_max_steps = 32\<rparr>"

type_synonym capability_id = string

record action_node =
  an_id :: u32
  an_capability :: capability_id
  an_side_effect :: side_effect_class
  an_verification_required :: bool

record task_graph =
  tg_actions :: "action_node list"

definition task_graph_is_empty :: "task_graph \<Rightarrow> bool" where
  "task_graph_is_empty g \<longleftrightarrow> tg_actions g = []"

text \<open>The strings of these types are Rust strings.\<close>

definition intent_strs :: "intent \<Rightarrow> bool" where
  "intent_strs i \<longleftrightarrow> str_ok (in_objective i) \<and> list_all str_ok (in_completion_criteria i)"

definition graph_strs :: "task_graph \<Rightarrow> bool" where
  "graph_strs g \<longleftrightarrow> list_all (\<lambda>a. str_ok (an_capability a)) (tg_actions g)"

end
