(* ===== verification/Rust_BTreeMap.thy ===== *)
theory Rust_BTreeMap
  imports Rust_Base
begin

text \<open>
  \<open>std::collections::BTreeMap\<close>: a finite map iterated in the order of its keys. The model is the
  list of its entries in strictly increasing key order (\<open>bt_wf\<close>), so that iteration is the list
  itself and two maps with the same content are equal. The locale \<open>ordered_map\<close> states what the
  crates rely on; the interpretation \<open>btm\<close> discharges it for the entry lists.

  \<open>table_ok\<close> is the pattern the components share: records stored under their own identifier,
  identifiers handed out from a counter that is ahead of every stored one.
\<close>

section \<open>The operations\<close>

type_synonym ('k, 'v) btmap = "('k \<times> 'v) list"

definition bt_wf :: "('k::linorder, 'v) btmap \<Rightarrow> bool" where
  "bt_wf m \<longleftrightarrow> sorted_wrt (<) (map fst m)"

abbreviation bt_get :: "('k, 'v) btmap \<Rightarrow> 'k \<Rightarrow> 'v option" where
  "bt_get \<equiv> map_of"

fun bt_insert :: "'k::linorder \<Rightarrow> 'v \<Rightarrow> ('k, 'v) btmap \<Rightarrow> ('k, 'v) btmap" where
  "bt_insert k v [] = [(k, v)]"
| "bt_insert k v (e # m) =
    (if k < fst e then (k, v) # e # m else if k = fst e then (k, v) # m else e # bt_insert k v m)"

definition bt_remove :: "'k \<Rightarrow> ('k, 'v) btmap \<Rightarrow> ('k, 'v) btmap" where
  "bt_remove k m = filter (\<lambda>e. fst e \<noteq> k) m"

definition bt_contains :: "('k, 'v) btmap \<Rightarrow> 'k \<Rightarrow> bool" where
  "bt_contains m k \<longleftrightarrow> map_of m k \<noteq> None"

text \<open>\<open>keys().next_back()\<close>.\<close>

definition bt_last_key :: "('k, 'v) btmap \<Rightarrow> 'k option" where
  "bt_last_key m = (if m = [] then None else Some (fst (last m)))"

text \<open>\<open>keys().next_back().is_some_and(|id| next <= *id)\<close>\<close>

definition last_key_reaches :: "('k::linorder, 'v) btmap \<Rightarrow> 'k \<Rightarrow> bool" where
  "last_key_reaches m n \<longleftrightarrow> (case bt_last_key m of None \<Rightarrow> False | Some b \<Rightarrow> n \<le> b)"

definition bt_values :: "('k, 'v) btmap \<Rightarrow> 'v list" where
  "bt_values m = map snd m"

section \<open>What the crates rely on\<close>

locale ordered_map =
  fixes wf :: "'m \<Rightarrow> bool"
    and entries :: "'m \<Rightarrow> ('k::linorder \<times> 'v) list"
    and emp :: 'm
    and get :: "'m \<Rightarrow> 'k \<Rightarrow> 'v option"
    and ins :: "'k \<Rightarrow> 'v \<Rightarrow> 'm \<Rightarrow> 'm"
    and del :: "'k \<Rightarrow> 'm \<Rightarrow> 'm"
    and last_key :: "'m \<Rightarrow> 'k option"
  assumes wf_emp: "wf emp"
    and wf_ins: "wf m \<Longrightarrow> wf (ins k v m)"
    and wf_del: "wf m \<Longrightarrow> wf (del k m)"
    and get_emp: "get emp k = None"
    and get_ins: "wf m \<Longrightarrow> get (ins k v m) k' = (if k' = k then Some v else get m k')"
    and get_del: "wf m \<Longrightarrow> get (del k m) k' = (if k' = k then None else get m k')"
    and get_entries: "wf m \<Longrightarrow> get m k = Some v \<longleftrightarrow> (k, v) \<in> set (entries m)"
    and sorted_entries: "wf m \<Longrightarrow> sorted_wrt (<) (map fst (entries m))"
    and last_key_bound: "wf m \<Longrightarrow> last_key m = Some b \<Longrightarrow> get m k = Some v \<Longrightarrow> k \<le> b"
    and last_key_None: "wf m \<Longrightarrow> last_key m = None \<longleftrightarrow> entries m = []"
    and entries_inj: "wf m \<Longrightarrow> wf m' \<Longrightarrow> entries m = entries m' \<Longrightarrow> m = m'"
begin

lemma get_ins_same: "wf m \<Longrightarrow> get (ins k v m) k = Some v"
  by (simp add: get_ins)

lemma get_ins_other: "wf m \<Longrightarrow> k' \<noteq> k \<Longrightarrow> get (ins k v m) k' = get m k'"
  by (simp add: get_ins)

lemma entries_ins:
  "wf m \<Longrightarrow> e \<in> set (entries (ins k v m)) \<longleftrightarrow> e = (k, v) \<or> (e \<in> set (entries m) \<and> fst e \<noteq> k)"
  using get_entries [of "ins k v m" "fst e" "snd e"] get_entries [of m "fst e" "snd e"]
  by (cases e) (auto simp: wf_ins get_ins split: if_splits)

lemma entries_del:
  "wf m \<Longrightarrow> e \<in> set (entries (del k m)) \<longleftrightarrow> e \<in> set (entries m) \<and> fst e \<noteq> k"
  using get_entries [of "del k m" "fst e" "snd e"] get_entries [of m "fst e" "snd e"]
  by (cases e) (auto simp: wf_del get_del split: if_splits)

text \<open>Two maps that agree on every lookup are the same map.\<close>

lemma entries_by_get: "wf m \<Longrightarrow> entries m = map (\<lambda>k. (k, the (get m k))) (map fst (entries m))"
proof -
  assume wf: "wf m"
  have "(fst e, the (get m (fst e))) = e" if "e \<in> set (entries m)" for e
    using get_entries [OF wf, of "fst e" "snd e"] that by simp
  then show ?thesis by (simp add: map_idI comp_def)
qed

lemma entries_sorted_list: "wf m \<Longrightarrow> map fst (entries m) = sorted_list_of_set (fst ` set (entries m))"
  using sorted_entries [of m]
  by (metis list.set_map sorted_list_of_set.idem_if_sorted_distinct strict_sorted_iff)

lemma get_ext:
  assumes wf: "wf m" "wf m'" and eq: "\<And>k. get m k = get m' k"
  shows "m = m'"
proof -
  have sets: "set (entries m) = set (entries m')"
  proof (rule set_eqI)
    fix e :: "'k \<times> 'v"
    show "e \<in> set (entries m) \<longleftrightarrow> e \<in> set (entries m')"
      using get_entries [OF wf(1), of "fst e" "snd e"] get_entries [OF wf(2), of "fst e" "snd e"] eq
      by simp
  qed
  have "map fst (entries m) = map fst (entries m')"
    using entries_sorted_list [OF wf(1)] entries_sorted_list [OF wf(2)] sets by simp
  then have "entries m = entries m'"
    using entries_by_get [OF wf(1)] entries_by_get [OF wf(2)] eq by simp
  then show ?thesis using wf by (intro entries_inj)
qed

end

section \<open>Entry lists are ordered maps\<close>

lemma bt_wf_Nil [simp]: "bt_wf []"
  by (simp add: bt_wf_def)

lemma bt_wf_Cons: "bt_wf (e # m) \<longleftrightarrow> (\<forall>e' \<in> set m. fst e < fst e') \<and> bt_wf m"
  by (simp add: bt_wf_def)

lemma set_bt_insert: "set (bt_insert k v m) \<subseteq> insert (k, v) (set m)"
  by (induction m) auto

lemma bt_wf_insert [simp, intro]: "bt_wf m \<Longrightarrow> bt_wf (bt_insert k v m)"
proof (induction m)
  case Nil
  then show ?case by (simp add: bt_wf_def)
next
  case (Cons e m)
  then show ?case
    using set_bt_insert [of k v m] by (auto simp: bt_wf_Cons)
qed

lemma bt_get_insert: "bt_wf m \<Longrightarrow> bt_get (bt_insert k v m) k' = (if k' = k then Some v else bt_get m k')"
  by (induction m) (auto simp: bt_wf_Cons)

lemma bt_wf_distinct: "bt_wf m \<Longrightarrow> distinct (map fst m)"
  by (simp add: bt_wf_def strict_sorted_iff)

lemma bt_get_remove: "bt_get (bt_remove k m) k' = (if k' = k then None else bt_get m k')"
  by (induction m) (auto simp: bt_remove_def)

lemma bt_wf_remove [simp, intro]: "bt_wf m \<Longrightarrow> bt_wf (bt_remove k m)"
  by (induction m) (auto simp: bt_remove_def bt_wf_Cons)

lemma bt_last_key_bound: "bt_wf m \<Longrightarrow> bt_last_key m = Some b \<Longrightarrow> (k, v) \<in> set m \<Longrightarrow> k \<le> b"
proof (induction m)
  case Nil
  then show ?case by simp
next
  case (Cons e m)
  show ?case
  proof (cases "m = []")
    case True
    with Cons.prems show ?thesis by (auto simp: bt_last_key_def)
  next
    case False
    with Cons.prems(2) have b: "bt_last_key m = Some b" by (simp add: bt_last_key_def)
    from Cons.prems(3) consider "e = (k, v)" | "(k, v) \<in> set m" by auto
    then show ?thesis
    proof cases
      case 1
      have "last m \<in> set m" using False by simp
      with Cons.prems(1) 1 have "k < fst (last m)" by (auto simp: bt_wf_Cons)
      with b False show ?thesis by (simp add: bt_last_key_def)
    next
      case 2
      with Cons.IH Cons.prems(1) b show ?thesis by (simp add: bt_wf_Cons)
    qed
  qed
qed

lemma last_key_reaches_iff: "bt_wf m \<Longrightarrow> \<not> last_key_reaches m n \<longleftrightarrow> (\<forall>e \<in> set m. fst e < n)"
proof (cases "m = []")
  case False
  assume wf: "bt_wf m"
  let ?b = "fst (last m)"
  have b: "bt_last_key m = Some ?b" using False by (simp add: bt_last_key_def)
  have "fst e \<le> ?b" if "e \<in> set m" for e
    using bt_last_key_bound [OF wf b, of "fst e" "snd e"] that by simp
  moreover have "last m \<in> set m" using False by simp
  ultimately show ?thesis
    by (auto simp: last_key_reaches_def b not_le intro: le_less_trans)
qed (simp add: last_key_reaches_def bt_last_key_def)

interpretation btm: ordered_map bt_wf "\<lambda>m. m" "[]" bt_get bt_insert bt_remove bt_last_key
proof unfold_locales
  fix m :: "('a \<times> 'b) list" and k k' b v
  assume wf: "bt_wf m"
  show "bt_get (bt_insert k v m) k' = (if k' = k then Some v else bt_get m k')"
    using wf by (rule bt_get_insert)
  show "bt_get m k = Some v \<longleftrightarrow> (k, v) \<in> set m"
    using bt_wf_distinct [OF wf] by (rule map_of_eq_Some_iff)
  show "k \<le> b" if "bt_last_key m = Some b" "bt_get m k = Some v"
    using bt_last_key_bound [OF wf that(1)] map_of_SomeD [OF that(2)] by blast
qed (simp_all add: bt_get_remove bt_wf_def [symmetric] bt_last_key_def)

lemma bt_values_set: "v \<in> set (bt_values m) \<longleftrightarrow> (\<exists>k. (k, v) \<in> set m)"
  by (force simp: bt_values_def)

text \<open>A key above every stored one goes to the end.\<close>

lemma bt_insert_last: "(\<And>e. e \<in> set m \<Longrightarrow> fst e < k) \<Longrightarrow> bt_insert k v m = m @ [(k, v)]"
  by (induction m) (auto dest: order.asym)

lemma bt_wf_append_last:
  "bt_wf (m @ [(k, v)]) \<longleftrightarrow> bt_wf m \<and> (\<forall>e \<in> set m. fst e < k)"
  by (auto simp: bt_wf_def sorted_wrt_append)

lemma bt_insert_existing_keys:
  "bt_wf m \<Longrightarrow> bt_get m k = Some w \<Longrightarrow> map fst (bt_insert k v m) = map fst m"
proof (induction m)
  case Nil
  then show ?case by simp
next
  case (Cons e m)
  show ?case
  proof (cases "k = fst e")
    case True
    then show ?thesis by simp
  next
    case False
    with Cons.prems have g: "bt_get m k = Some w" by (cases e) simp
    then have "(k, w) \<in> set m" by (rule map_of_SomeD)
    with Cons.prems(1) have "fst e < k" by (auto simp: bt_wf_Cons)
    with Cons g show ?thesis by (auto simp: bt_wf_Cons)
  qed
qed

lemma bt_insert_insert [simp]: "bt_insert k v (bt_insert k u m) = bt_insert k v m"
  by (induction m) auto

text \<open>Replacing a stored value by one that looks the same through \<open>g\<close>.\<close>

lemma map_snd_bt_insert:
  assumes "bt_wf m" and "bt_get m k = Some u" and "g v = g u"
  shows "map (\<lambda>e. g (snd e)) (bt_insert k v m) = map (\<lambda>e. g (snd e)) m"
  using assms(1,2)
proof (induction m)
  case (Cons e m)
  show ?case
  proof (cases "k = fst e")
    case True
    with Cons.prems(2) assms(3) show ?thesis by (cases e) simp
  next
    case False
    with Cons.prems have g: "bt_get m k = Some u" by (cases e) simp
    then have "(k, u) \<in> set m" by (rule map_of_SomeD)
    with Cons.prems(1) have "fst e < k" by (auto simp: bt_wf_Cons)
    with Cons g show ?thesis by (auto simp: bt_wf_Cons)
  qed
qed simp

section \<open>Tables of records under their own identifier\<close>

text \<open>
  \<open>table_ok rid P next m\<close>: every record of \<open>m\<close> satisfies \<open>P\<close> and is stored under its own
  identifier, which is not 0 and is below the counter \<open>next\<close>.
\<close>

definition table_ok :: "('r \<Rightarrow> u64) \<Rightarrow> ('r \<Rightarrow> bool) \<Rightarrow> u64 \<Rightarrow> (u64, 'r) btmap \<Rightarrow> bool" where
  "table_ok rid P nxt m \<longleftrightarrow>
    bt_wf m \<and> nxt \<noteq> 0 \<and> (\<forall>(k, r) \<in> set m. k = rid r \<and> k \<noteq> 0 \<and> k < nxt \<and> P r)"

lemma table_okD:
  assumes "table_ok rid P nxt m"
  shows "bt_wf m" "nxt \<noteq> 0" "(k, r) \<in> set m \<Longrightarrow> k = rid r" "(k, r) \<in> set m \<Longrightarrow> k \<noteq> 0"
    "(k, r) \<in> set m \<Longrightarrow> k < nxt" "(k, r) \<in> set m \<Longrightarrow> P r"
  using assms by (auto simp: table_ok_def)

lemma table_ok_get:
  assumes "table_ok rid P nxt m" and "bt_get m k = Some r"
  shows "k = rid r" "k \<noteq> 0" "k < nxt" "P r"
  using table_okD [OF assms(1)] map_of_SomeD [OF assms(2)] by auto

lemma table_ok_empty [simp, intro]: "nxt \<noteq> 0 \<Longrightarrow> table_ok rid P nxt []"
  by (simp add: table_ok_def)

text \<open>A new record under the next identifier.\<close>

lemma table_ok_fresh:
  assumes ok: "table_ok rid P nxt m" and nxt': "checked_add nxt 1 = Some nxt'"
    and r: "rid r = nxt" "P r"
  shows "table_ok rid P nxt' (bt_insert nxt r m)"
proof -
  from nxt' have lt: "nxt < nxt'" and nz: "nxt' \<noteq> 0"
    by (rule checked_add_less, rule checked_add_nonzero)
  show ?thesis
    unfolding table_ok_def
  proof (intro conjI)
    show "bt_wf (bt_insert nxt r m)" using table_okD(1) [OF ok] by simp
    show "nxt' \<noteq> 0" by (rule nz)
    show "\<forall>(k, r') \<in> set (bt_insert nxt r m). k = rid r' \<and> k \<noteq> 0 \<and> k < nxt' \<and> P r'"
    proof clarify
      fix k r' assume "(k, r') \<in> set (bt_insert nxt r m)"
      then consider "k = nxt" "r' = r" | "(k, r') \<in> set m" using set_bt_insert by fastforce
      then show "k = rid r' \<and> k \<noteq> 0 \<and> k < nxt' \<and> P r'"
      proof cases
        case 1
        with table_okD(2) [OF ok] lt r show ?thesis by simp
      next
        case 2
        from table_okD(5) [OF ok this] lt have "k < nxt'" by (rule less_trans)
        with table_okD(3,4,6) [OF ok 2] show ?thesis by simp
      qed
    qed
  qed
qed

lemma table_fresh_get:
  assumes "table_ok rid P nxt m"
  shows "bt_get m nxt = None"
  using table_ok_get(3) [OF assms, of nxt] by (cases "bt_get m nxt") auto

lemma table_fresh_last:
  assumes "table_ok rid P nxt m"
  shows "bt_insert nxt r m = m @ [(nxt, r)]"
  by (rule bt_insert_last) (use table_okD(5) [OF assms] in auto)

text \<open>A stored record replaced by one with the same identifier.\<close>

lemma table_ok_update:
  assumes ok: "table_ok rid P nxt m" and k: "bt_get m k = Some r0"
    and r: "rid r = rid r0" "P r"
  shows "table_ok rid P nxt (bt_insert k r m)"
proof -
  have "bt_wf (bt_insert k r m)" using table_okD(1) [OF ok] by simp
  moreover have "\<forall>(k', r') \<in> set (bt_insert k r m). k' = rid r' \<and> k' \<noteq> 0 \<and> k' < nxt \<and> P r'"
    using set_bt_insert [of k r m] table_okD [OF ok] table_ok_get [OF ok k] r by fastforce
  ultimately show ?thesis using table_okD(2) [OF ok] by (simp add: table_ok_def)
qed

lemma table_ok_remove: "table_ok rid P nxt m \<Longrightarrow> table_ok rid P nxt (bt_remove k m)"
  by (auto simp: table_ok_def bt_remove_def intro: bt_wf_remove [unfolded bt_remove_def])

lemma table_ok_mono:
  assumes "table_ok rid P nxt m" and "\<And>r. P r \<Longrightarrow> Q r"
  shows "table_ok rid Q nxt m"
  using assms by (auto simp: table_ok_def)

lemma table_ok_values: "table_ok rid P nxt m \<Longrightarrow> r \<in> set (bt_values m) \<Longrightarrow> P r"
  by (auto simp: table_ok_def bt_values_set)

end
