(* ===== verification/Memory.thy ===== *)
theory Memory
  imports Rust_Strings Rust_BTreeMap "HOL-Library.Product_Lexorder" "HOL-Library.Multiset"
begin

text \<open>
  \<open>SovereignMemory\<close> of \<open>crates/ntd-runtime/src/memory.rs\<close>: records under increasing identifiers,
  stored, forgotten and retrieved by a scored query. The Unicode property \<open>char::is_alphanumeric\<close>
  is the parameter \<open>alnum\<close> of the functions that split text into terms.
\<close>

section \<open>Data\<close>

datatype memory_kind = Episodic | Semantic | Procedural

record memory_record =
  mr_id :: u64
  mr_kind :: memory_kind
  mr_content :: string
  mr_tags :: "string list"
  mr_importance :: u16
  mr_created_tick :: u64
  mr_last_recalled_tick :: u64
  mr_recall_count :: u32

record memory_query =
  mq_text :: string
  mq_kinds :: "memory_kind list"
  mq_tags :: "string list"
  mq_limit :: nat

record memory_hit =
  mh_id :: u64
  mh_score :: u64
  mh_record :: memory_record

datatype memory_error = EmptyContent | InvalidImportance u16 | InvalidKind u8 | MemOverflow

record sovereign_memory =
  sm_next_id :: u64
  sm_records :: "(u64, memory_record) btmap"

type_synonym 'a memory_op = "(sovereign_memory, memory_error, 'a) op"

section \<open>Operations\<close>

definition memory_kind_try_from :: "u8 \<Rightarrow> memory_error + memory_kind" where
  "memory_kind_try_from v =
    (if v = 1 then Inr Episodic else if v = 2 then Inr Semantic else if v = 3 then Inr Procedural
     else Inl (InvalidKind v))"

definition memory_query_new :: "string \<Rightarrow> memory_query" where
  "memory_query_new t = \<lparr>mq_text = t, mq_kinds = [], mq_tags = [], mq_limit = 8\<rparr>"

definition memory_new :: sovereign_memory where
  "memory_new = \<lparr>sm_next_id = 1, sm_records = []\<rparr>"

definition memory_from_parts ::
    "u64 \<Rightarrow> (u64, memory_record) btmap \<Rightarrow> memory_error + sovereign_memory" where
  "memory_from_parts nxt recs =
    (if nxt = 0 then Inl MemOverflow else
    rbind (check_all (\<lambda>(i, r).
      if i = 0 \<or> i \<noteq> mr_id r \<or> blank (mr_content r) \<or> 1000 < mr_importance r
        \<or> \<not> strictly_increasing (mr_tags r)
      then Inl MemOverflow else Inr ()) recs) (\<lambda>_.
    if last_key_reaches recs nxt then Inl MemOverflow
    else Inr \<lparr>sm_next_id = nxt, sm_records = recs\<rparr>))"

definition memory_len :: "sovereign_memory \<Rightarrow> nat" where
  "memory_len m = length (sm_records m)"

definition memory_is_empty :: "sovereign_memory \<Rightarrow> bool" where
  "memory_is_empty m \<longleftrightarrow> sm_records m = []"

definition memory_store ::
    "memory_kind \<Rightarrow> string \<Rightarrow> string list \<Rightarrow> u16 \<Rightarrow> u64 \<Rightarrow> u64 memory_op" where
  "memory_store kind content tags importance tick =
    (if blank content then sfail EmptyContent
     else if 1000 < importance then sfail (InvalidImportance importance)
     else
    sbind (sget sm_next_id) (\<lambda>i.
    sbind (slift (ok_or MemOverflow (checked_add i 1))) (\<lambda>nxt.
    sbind (smodify (\<lambda>m. m\<lparr>sm_next_id := nxt\<rparr>)) (\<lambda>_.
    sbind (smodify (\<lambda>m. m\<lparr>sm_records := bt_insert i
      \<lparr>mr_id = i, mr_kind = kind, mr_content = content, mr_tags = remdups_adj (sort tags),
       mr_importance = importance, mr_created_tick = tick, mr_last_recalled_tick = tick,
       mr_recall_count = 0\<rparr> (sm_records m)\<rparr>)) (\<lambda>_.
    sret i)))))"

definition memory_get :: "sovereign_memory \<Rightarrow> u64 \<Rightarrow> memory_record option" where
  "memory_get m i = bt_get (sm_records m) i"

text \<open>\<open>forget\<close> returns a plain \<open>bool\<close>.\<close>

definition memory_forget :: "u64 \<Rightarrow> sovereign_memory \<Rightarrow> bool \<times> sovereign_memory" where
  "memory_forget i m = (bt_contains (sm_records m) i, m\<lparr>sm_records := bt_remove i (sm_records m)\<rparr>)"

text \<open>A \<open>BTreeSet<String>\<close> is the strictly sorted list of its elements.\<close>

definition normalized_terms :: "(u8 list \<Rightarrow> bool) \<Rightarrow> string \<Rightarrow> string list" where
  "normalized_terms alnum text =
    remdups_adj (sort (filter (\<lambda>t. t \<noteq> [])
      (map (\<lambda>t. to_ascii_lowercase (trim_matches (\<lambda>c. \<not> alnum c) t)) (split_whitespace text))))"

definition lowercase_set :: "string list \<Rightarrow> string list" where
  "lowercase_set ts = remdups_adj (sort (map to_ascii_lowercase ts))"

definition matches :: "string list \<Rightarrow> string list \<Rightarrow> u64" where
  "matches xs ys = of_nat (length (filter (\<lambda>x. x \<in> set ys) xs))"

definition score_record ::
    "(u8 list \<Rightarrow> bool) \<Rightarrow> memory_record \<Rightarrow> string list \<Rightarrow> string list \<Rightarrow> u64 option" where
  "score_record alnum r query_terms query_tags =
    (let term_matches = matches query_terms (normalized_terms alnum (mr_content r));
         tag_matches = matches query_tags (lowercase_set (mr_tags r));
         has_query = (query_terms \<noteq> [] \<or> query_tags \<noteq> [])
     in if has_query \<and> term_matches = 0 \<and> tag_matches = 0 then None
        else Some (saturating_add (saturating_add (saturating_add
          (saturating_mul term_matches 1000) (saturating_mul tag_matches 500))
          (ucast (mr_importance r))) (ucast (min (mr_recall_count r) 100))))"

text \<open>The order of \<open>ranked.sort_by\<close>: higher score first, then lower identifier.\<close>

definition rank_key :: "u64 \<times> u64 \<Rightarrow> int \<times> int" where
  "rank_key e = (- uint (snd e), uint (fst e))"

definition ranked_ids ::
    "(u8 list \<Rightarrow> bool) \<Rightarrow> memory_query \<Rightarrow> sovereign_memory \<Rightarrow> (u64 \<times> u64) list" where
  "ranked_ids alnum q m =
    (let query_terms = normalized_terms alnum (mq_text q);
         query_tags = lowercase_set (mq_tags q)
     in take (mq_limit q) (sort_key rank_key
       (List.map_filter
         (\<lambda>r. map_option (\<lambda>score. (mr_id r, score)) (score_record alnum r query_terms query_tags))
         (filter (\<lambda>r. mq_kinds q = [] \<or> mr_kind r \<in> set (mq_kinds q)) (bt_values (sm_records m))))))"

definition recall :: "u64 \<Rightarrow> memory_record \<Rightarrow> memory_record" where
  "recall tick r = r\<lparr>mr_last_recalled_tick := tick, mr_recall_count := saturating_add (mr_recall_count r) 1\<rparr>"

fun collect_hits :: "u64 \<Rightarrow> (u64 \<times> u64) list \<Rightarrow> memory_hit list memory_op" where
  "collect_hits tick [] = sret []"
| "collect_hits tick ((i, score) # rest) =
    sbind (sget (\<lambda>m. bt_get (sm_records m) i)) (\<lambda>found.
    sbind (slift (ok_or MemOverflow found)) (\<lambda>r.
    sbind (smodify (\<lambda>m. m\<lparr>sm_records := bt_insert i (recall tick r) (sm_records m)\<rparr>)) (\<lambda>_.
    sbind (collect_hits tick rest) (\<lambda>hits.
    sret (\<lparr>mh_id = i, mh_score = score, mh_record = recall tick r\<rparr> # hits)))))"

definition memory_retrieve ::
    "(u8 list \<Rightarrow> bool) \<Rightarrow> memory_query \<Rightarrow> u64 \<Rightarrow> memory_hit list memory_op" where
  "memory_retrieve alnum q tick =
    (if mq_limit q = 0 then sret []
     else sbind (sget (ranked_ids alnum q)) (collect_hits tick))"

section \<open>The invariant\<close>

definition record_valid :: "memory_record \<Rightarrow> bool" where
  "record_valid r \<longleftrightarrow>
    \<not> blank (mr_content r) \<and> mr_importance r \<le> 1000 \<and> sorted_wrt (<) (mr_tags r)"

definition memory_wf :: "sovereign_memory \<Rightarrow> bool" where
  "memory_wf m \<longleftrightarrow> table_ok mr_id record_valid (sm_next_id m) (sm_records m)"

lemma memory_wf_new [simp]: "memory_wf memory_new"
  by (simp add: memory_wf_def memory_new_def)

text \<open>
  \<open>SovereignMemory::from_parts\<close> accepts exactly the parts that satisfy the invariant of the
  memory: identifiers that are not 0, match their records and lie below the counter, contents that
  are not blank, importance at most 1000, strictly sorted tags.
\<close>

lemma memory_from_parts_wf:
  assumes "bt_wf recs"
  shows "memory_from_parts nxt recs = Inr m \<longleftrightarrow>
    m = \<lparr>sm_next_id = nxt, sm_records = recs\<rparr> \<and> memory_wf m"
proof -
  let ?check = "\<lambda>(i, r). if i = 0 \<or> i \<noteq> mr_id r \<or> blank (mr_content r) \<or> 1000 < mr_importance r
      \<or> \<not> strictly_increasing (mr_tags r) then Inl MemOverflow else Inr ()"
  have check: "?check e = Inr () \<longleftrightarrow> fst e = mr_id (snd e) \<and> fst e \<noteq> 0 \<and> record_valid (snd e)" for e
    by (cases e) (auto simp: record_valid_def strictly_increasing_iff not_less)
  have "table_ok mr_id record_valid nxt recs \<longleftrightarrow>
      nxt \<noteq> 0 \<and> (\<forall>e \<in> set recs. ?check e = Inr ()) \<and> \<not> last_key_reaches recs nxt"
    unfolding check last_key_reaches_iff [OF assms] table_ok_def using assms by fastforce
  then show ?thesis
    by (auto simp: memory_from_parts_def memory_wf_def)
qed

section \<open>Storing and forgetting\<close>

definition new_record ::
    "u64 \<Rightarrow> memory_kind \<Rightarrow> string \<Rightarrow> string list \<Rightarrow> u16 \<Rightarrow> u64 \<Rightarrow> memory_record" where
  "new_record i kind content tags importance tick =
    \<lparr>mr_id = i, mr_kind = kind, mr_content = content, mr_tags = remdups_adj (sort tags),
     mr_importance = importance, mr_created_tick = tick, mr_last_recalled_tick = tick,
     mr_recall_count = 0\<rparr>"

lemma memory_store_result:
  "memory_store kind content tags importance tick m =
    (if blank content then (Inl EmptyContent, m)
     else if 1000 < importance then (Inl (InvalidImportance importance), m)
     else (case checked_add (sm_next_id m) 1 of
        None \<Rightarrow> (Inl MemOverflow, m)
      | Some nxt \<Rightarrow> (Inr (sm_next_id m), m\<lparr>sm_next_id := nxt,
          sm_records := bt_insert (sm_next_id m)
            (new_record (sm_next_id m) kind content tags importance tick) (sm_records m)\<rparr>)))"
  by (auto simp: memory_store_def result_simps new_record_def split: option.splits)

lemma new_record_valid:
  "\<not> blank content \<Longrightarrow> importance \<le> 1000 \<Longrightarrow> record_valid (new_record i kind content tags importance tick)"
  by (simp add: record_valid_def new_record_def sorted_remdups_adj_strict)

lemma mr_id_new_record [simp]: "mr_id (new_record i kind content tags importance tick) = i"
  by (simp add: new_record_def)

lemma memory_store_keeps: "keeps memory_wf (memory_store kind content tags importance tick)"
proof (rule keepsI)
  fix m assume wf: "memory_wf m"
  show "memory_wf (snd (memory_store kind content tags importance tick m))"
    using wf table_ok_fresh [where rid = mr_id and P = record_valid and nxt = "sm_next_id m"]
    by (auto simp: memory_store_result memory_wf_def new_record_valid not_less split: option.splits)
qed

text \<open>
  \<open>SovereignMemory::store\<close> either fails and leaves the memory untouched, or returns an
  identifier that was not in use, under which exactly the new record is found, its tags sorted and
  without duplicates; every other record is unchanged, and the invariant is kept.
\<close>

theorem memory_store_fresh:
  assumes "memory_wf m"
  shows "case memory_store kind content tags importance tick m of (res, m') \<Rightarrow>
    memory_wf m' \<and>
    (case res of
      Inl _ \<Rightarrow> m' = m
    | Inr i \<Rightarrow> memory_get m i = None
        \<and> memory_get m' i = Some (new_record i kind content tags importance tick)
        \<and> (\<forall>j. j \<noteq> i \<longrightarrow> memory_get m' j = memory_get m j))"
proof -
  obtain res m' where st: "memory_store kind content tags importance tick m = (res, m')"
    by (cases "memory_store kind content tags importance tick m")
  have wf': "memory_wf m'"
    using keepsD [OF memory_store_keeps assms, of kind content tags importance tick] st by simp
  have tab: "table_ok mr_id record_valid (sm_next_id m) (sm_records m)"
    using assms by (simp add: memory_wf_def)
  show ?thesis
    using st wf' table_fresh_get [OF tab] table_okD(1) [OF tab]
    by (auto simp: memory_store_result memory_get_def btm.get_ins split: if_splits option.splits)
qed

text \<open>A memory with two records.\<close>

definition sample_memory :: sovereign_memory where
  "sample_memory = \<lparr>sm_next_id = 3, sm_records =
     [(1, new_record 1 Semantic ''Paris is big'' [''geo''] 600 1),
      (2, new_record 2 Episodic ''Saw Paris'' [''travel''] 200 2)]\<rparr>"

lemma sample_memory_wf: "memory_wf sample_memory"
  unfolding memory_wf_def table_ok_def record_valid_def bt_wf_def by code_simp

theorem memory_store_fresh_witness:
  "memory_wf sample_memory \<and>
   (case memory_store Procedural ''verify'' [''b'', ''a'', ''b''] 500 7 sample_memory of (res, m') \<Rightarrow>
    memory_wf m' \<and>
    (case res of
      Inl _ \<Rightarrow> m' = sample_memory
    | Inr i \<Rightarrow> memory_get sample_memory i = None
        \<and> memory_get m' i = Some (new_record i Procedural ''verify'' [''b'', ''a'', ''b''] 500 7)
        \<and> (\<forall>j. j \<noteq> i \<longrightarrow> memory_get m' j = memory_get sample_memory j)))"
  by (rule conjI [OF sample_memory_wf memory_store_fresh [OF sample_memory_wf]])

text \<open>
  \<open>SovereignMemory::forget\<close> removes exactly the named record, reports whether it was there and
  keeps the invariant; since the counter is not moved back, a forgotten identifier is never handed
  out again.
\<close>

theorem memory_forget_removes:
  assumes "memory_wf m" and "memory_forget i m = (found, m')"
  shows "memory_wf m' \<and> (found \<longleftrightarrow> memory_get m i \<noteq> None) \<and> sm_next_id m' = sm_next_id m
    \<and> (\<forall>j. memory_get m' j = (if j = i then None else memory_get m j))"
  using assms table_ok_remove [of mr_id record_valid "sm_next_id m" "sm_records m" i]
  by (auto simp: memory_forget_def memory_wf_def memory_get_def bt_contains_def bt_get_remove)

theorem memory_forget_removes_witness:
  "memory_get (snd (memory_forget 1 sample_memory)) 1 = None \<and> fst (memory_forget 1 sample_memory)"
proof -
  obtain found m' where f: "memory_forget 1 sample_memory = (found, m')"
    by (cases "memory_forget 1 sample_memory")
  have "memory_get sample_memory 1 \<noteq> None" by code_simp
  with memory_forget_removes [OF sample_memory_wf f] f show ?thesis by simp
qed

section \<open>Retrieving\<close>

lemma recall_simps [simp]:
  "mr_id (recall tick r) = mr_id r"
  "record_valid (recall tick r) = record_valid r"
  by (simp_all add: recall_def record_valid_def)

definition hits_of :: "u64 \<Rightarrow> sovereign_memory \<Rightarrow> (u64 \<times> u64) list \<Rightarrow> memory_hit list" where
  "hits_of tick m es =
    map (\<lambda>e. \<lparr>mh_id = fst e, mh_score = snd e, mh_record = recall tick (the (memory_get m (fst e)))\<rparr>) es"

lemma hits_of_Cons:
  "hits_of tick m (e # es) =
    \<lparr>mh_id = fst e, mh_score = snd e, mh_record = recall tick (the (memory_get m (fst e)))\<rparr> # hits_of tick m es"
  by (simp add: hits_of_def)

lemma collect_hits_result:
  assumes "memory_wf m" and "distinct (map fst es)"
    and "\<And>e. e \<in> set es \<Longrightarrow> memory_get m (fst e) \<noteq> None"
  shows "\<exists>m'. collect_hits tick es m = (Inr (hits_of tick m es), m') \<and> memory_wf m'
    \<and> sm_next_id m' = sm_next_id m
    \<and> (\<forall>j. memory_get m' j =
        (if j \<in> fst ` set es then map_option (recall tick) (memory_get m j) else memory_get m j))"
  using assms
proof (induction es arbitrary: m)
  case Nil
  then show ?case by (simp add: result_simps hits_of_def)
next
  case (Cons e es)
  obtain i score where e: "e = (i, score)" by (cases e)
  from Cons.prems(3) [of e] obtain r where r: "bt_get (sm_records m) i = Some r"
    by (auto simp: memory_get_def e)
  let ?m = "m\<lparr>sm_records := bt_insert i (recall tick r) (sm_records m)\<rparr>"
  have tab: "table_ok mr_id record_valid (sm_next_id m) (sm_records m)"
    using Cons.prems(1) by (simp add: memory_wf_def)
  have get: "memory_get ?m j = (if j = i then Some (recall tick r) else memory_get m j)" for j
    using table_okD(1) [OF tab] by (simp add: memory_get_def btm.get_ins)
  have wf: "memory_wf ?m"
    using table_ok_update [OF tab r, of "recall tick r"] table_ok_get(4) [OF tab r]
    by (simp add: memory_wf_def)
  have new: "i \<notin> fst ` set es" "distinct (map fst es)" using Cons.prems(2) by (auto simp: e)
  have there: "\<And>x. x \<in> set es \<Longrightarrow> memory_get ?m (fst x) \<noteq> None" using Cons.prems(3) by (simp add: get)
  from Cons.IH [OF wf new(2) there] obtain m' where
    IH: "collect_hits tick es ?m = (Inr (hits_of tick ?m es), m')" "memory_wf m'"
      "sm_next_id m' = sm_next_id m"
      "\<And>j. memory_get m' j =
        (if j \<in> fst ` set es then map_option (recall tick) (memory_get ?m j) else memory_get ?m j)"
    by auto
  have same: "hits_of tick ?m es = hits_of tick m es"
    using new(1) by (auto simp: hits_of_def get)
  have m_i: "memory_get m i = Some r" using r by (simp add: memory_get_def)
  have "collect_hits tick (e # es) m = (Inr (hits_of tick m (e # es)), m')"
    using IH(1) r m_i by (simp add: e result_simps same hits_of_Cons)
  moreover have "memory_get m' j =
      (if j \<in> fst ` set (e # es) then map_option (recall tick) (memory_get m j) else memory_get m j)" for j
    using new(1) m_i by (auto simp: e IH(4) get)
  ultimately show ?case using IH(2,3) by blast
qed

text \<open>The records a query is about, with their scores.\<close>

definition eligible :: "(u8 list \<Rightarrow> bool) \<Rightarrow> memory_query \<Rightarrow> sovereign_memory \<Rightarrow> (u64 \<times> u64) set" where
  "eligible alnum q m = {(i, score). \<exists>r. memory_get m i = Some r
    \<and> (mq_kinds q = [] \<or> mr_kind r \<in> set (mq_kinds q))
    \<and> score_record alnum r (normalized_terms alnum (mq_text q)) (lowercase_set (mq_tags q)) = Some score}"

lemma rank_key_inj: "rank_key x = rank_key y \<Longrightarrow> x = y"
  by (simp add: rank_key_def word_uint_eq_iff prod_eq_iff)

lemma set_map_filter: "y \<in> set (List.map_filter f xs) \<longleftrightarrow> (\<exists>x \<in> set xs. f x = Some y)"
  by (force simp: List.map_filter_def)

lemma distinct_map_map_filter:
  "distinct (map k xs) \<Longrightarrow> (\<And>x y. f x = Some y \<Longrightarrow> g y = k x) \<Longrightarrow> distinct (map g (List.map_filter f xs))"
proof (induction xs)
  case Nil
  then show ?case by (simp add: List.map_filter_def)
next
  case (Cons x xs)
  show ?case
  proof (cases "f x")
    case None
    with Cons show ?thesis by (simp add: List.map_filter_def)
  next
    case (Some y)
    have new: "g z \<noteq> g y" if "z \<in> set (List.map_filter f xs)" for z
    proof -
      from that obtain x' where "x' \<in> set xs" "f x' = Some z" by (auto simp: set_map_filter)
      then have "g z = k x'" "k x' \<in> k ` set xs" using Cons.prems(2) by auto
      moreover have "g y = k x" "k x \<notin> k ` set xs" using Cons.prems Some by auto
      ultimately show ?thesis by auto
    qed
    then have "g y \<notin> g ` set (List.map_filter f xs)" by force
    moreover have "List.map_filter f (x # xs) = y # List.map_filter f xs"
      using Some by (simp add: List.map_filter_def)
    ultimately show ?thesis using Cons by simp
  qed
qed

lemma set_filter_values:
  assumes "memory_wf m"
  shows "r \<in> set (bt_values (sm_records m)) \<longleftrightarrow> memory_get m (mr_id r) = Some r"
proof -
  have tab: "table_ok mr_id record_valid (sm_next_id m) (sm_records m)"
    using assms by (simp add: memory_wf_def)
  show ?thesis
    using table_okD(3) [OF tab] btm.get_entries [OF table_okD(1) [OF tab]]
    by (auto simp: memory_get_def bt_values_set)
qed

lemma map_mr_id_values:
  assumes "memory_wf m"
  shows "map mr_id (bt_values (sm_records m)) = map fst (sm_records m)"
  using table_okD(3) [of mr_id record_valid "sm_next_id m" "sm_records m"] assms
  by (auto simp: memory_wf_def bt_values_def)

text \<open>The candidates before sorting, and what sorting and cutting makes of them.\<close>

definition candidates :: "(u8 list \<Rightarrow> bool) \<Rightarrow> memory_query \<Rightarrow> sovereign_memory \<Rightarrow> (u64 \<times> u64) list" where
  "candidates alnum q m = List.map_filter
     (\<lambda>r. map_option (\<lambda>score. (mr_id r, score))
        (score_record alnum r (normalized_terms alnum (mq_text q)) (lowercase_set (mq_tags q))))
     (filter (\<lambda>r. mq_kinds q = [] \<or> mr_kind r \<in> set (mq_kinds q)) (bt_values (sm_records m)))"

lemma ranked_ids_candidates:
  "ranked_ids alnum q m = take (mq_limit q) (sort_key rank_key (candidates alnum q m))"
  by (simp add: ranked_ids_def candidates_def Let_def)

lemma candidates_eligible: "memory_wf m \<Longrightarrow> set (candidates alnum q m) = eligible alnum q m"
proof (intro set_eqI iffI)
  fix e assume wf: "memory_wf m" and "e \<in> set (candidates alnum q m)"
  then show "e \<in> eligible alnum q m"
    by (auto simp: candidates_def eligible_def set_map_filter set_filter_values)
next
  fix e assume wf: "memory_wf m" and "e \<in> eligible alnum q m"
  then obtain i score r where e: "e = (i, score)" and r: "memory_get m i = Some r"
      "mq_kinds q = [] \<or> mr_kind r \<in> set (mq_kinds q)"
      "score_record alnum r (normalized_terms alnum (mq_text q)) (lowercase_set (mq_tags q)) = Some score"
    by (auto simp: eligible_def)
  moreover have "i = mr_id r"
    using wf r(1) by (auto simp: memory_wf_def memory_get_def dest: table_ok_get(1))
  ultimately show "e \<in> set (candidates alnum q m)"
    using wf by (auto simp: candidates_def set_map_filter set_filter_values)
qed

lemma candidates_distinct:
  assumes "memory_wf m"
  shows "distinct (map fst (candidates alnum q m))"
  unfolding candidates_def
proof (rule distinct_map_map_filter)
  have "distinct (map fst (sm_records m))"
    using assms bt_wf_distinct by (auto simp: memory_wf_def table_ok_def)
  then have "distinct (map mr_id (bt_values (sm_records m)))"
    by (simp add: map_mr_id_values [OF assms])
  then show "distinct (map mr_id (filter (\<lambda>r. mq_kinds q = [] \<or> mr_kind r \<in> set (mq_kinds q))
      (bt_values (sm_records m))))"
    by (rule distinct_map_filter)
qed auto

lemma sort_key_strict:
  assumes "distinct xs" and "\<And>x y. k x = k y \<Longrightarrow> x = y"
  shows "sorted_wrt (\<lambda>x y. k x < k y) (sort_key k xs)"
proof -
  have "sorted (map k (sort_key k xs))" by simp
  moreover have "distinct (map k (sort_key k xs))"
    using assms by (auto simp: distinct_map inj_on_def)
  ultimately have "sorted_wrt (<) (map k (sort_key k xs))" by (simp add: strict_sorted_iff)
  then show ?thesis by (simp add: sorted_wrt_map)
qed

text \<open>
  The ranking behind \<open>SovereignMemory::retrieve\<close> is the best of what the query is about: at
  most \<open>limit\<close> of the eligible records, ordered by falling score and, at equal score, by rising
  identifier, and every eligible record that was cut off ranks below every one that was kept.
\<close>

theorem ranked_ids_top:
  assumes "memory_wf m"
  shows "set (ranked_ids alnum q m) \<subseteq> eligible alnum q m
    \<and> length (ranked_ids alnum q m) = min (mq_limit q) (card (eligible alnum q m))
    \<and> sorted_wrt (\<lambda>x y. rank_key x < rank_key y) (ranked_ids alnum q m)
    \<and> (\<forall>x \<in> set (ranked_ids alnum q m). \<forall>y \<in> eligible alnum q m - set (ranked_ids alnum q m).
        rank_key x < rank_key y)"
proof -
  let ?cs = "sort_key rank_key (candidates alnum q m)"
  have dist: "distinct (candidates alnum q m)"
    using candidates_distinct [OF assms] by (simp add: distinct_map)
  have set: "set ?cs = eligible alnum q m" using assms by (simp add: candidates_eligible)
  have len: "length ?cs = card (eligible alnum q m)"
    using distinct_card [of ?cs] dist set by simp
  have sorted: "sorted_wrt (\<lambda>x y. rank_key x < rank_key y) ?cs"
    using dist rank_key_inj by (rule sort_key_strict)
  let ?n = "mq_limit q"
  have split: "sorted_wrt (\<lambda>x y. rank_key x < rank_key y) (take ?n ?cs @ drop ?n ?cs)"
    using sorted by simp
  then have "sorted_wrt (\<lambda>x y. rank_key x < rank_key y) (take ?n ?cs)"
    and below: "\<forall>x \<in> set (take ?n ?cs). \<forall>y \<in> set (drop ?n ?cs). rank_key x < rank_key y"
    unfolding sorted_wrt_append by blast+
  moreover have "eligible alnum q m - set (take ?n ?cs) \<subseteq> set (drop ?n ?cs)"
    using set by (metis Diff_subset_conv append_take_drop_id set_append subset_refl)
  ultimately show ?thesis
    using set_take_subset [of ?n ?cs] set len
    by (auto simp: ranked_ids_candidates)
qed

text \<open>ASCII letters and digits, for the witnesses.\<close>

definition ascii_alnum :: "u8 list \<Rightarrow> bool" where
  "ascii_alnum c \<longleftrightarrow> (case c of [b] \<Rightarrow> (48 \<le> b \<and> b \<le> 57) \<or> (65 \<le> b \<and> b \<le> 90) \<or> (97 \<le> b \<and> b \<le> 122) | _ \<Rightarrow> False)"

definition sample_query :: memory_query where
  "sample_query = (memory_query_new ''paris'')\<lparr>mq_limit := 1\<rparr>"

lemma sample_ranked: "ranked_ids ascii_alnum sample_query sample_memory = [(1, 1600)]"
proof -
  have terms: "normalized_terms ascii_alnum ''paris'' = [''paris'']" "lowercase_set [] = []"
    by code_simp+
  have scores:
    "score_record ascii_alnum (new_record 1 Semantic ''Paris is big'' [''geo''] 600 1) [''paris''] [] = Some 1600"
    "score_record ascii_alnum (new_record 2 Episodic ''Saw Paris'' [''travel''] 200 2) [''paris''] [] = Some 1200"
    by code_simp+
  have "candidates ascii_alnum sample_query sample_memory = [(1, 1600), (2, 1200)]"
    by (simp add: candidates_def sample_query_def memory_query_new_def sample_memory_def bt_values_def
        terms scores List.map_filter_def)
  moreover have "sort_key rank_key [(1, 1600), (2, 1200)] = [(1, 1600), (2, 1200)]" by code_simp
  ultimately show ?thesis
    by (simp add: ranked_ids_candidates sample_query_def memory_query_new_def)
qed

theorem ranked_ids_top_witness:
  "ranked_ids ascii_alnum sample_query sample_memory = [(1, 1600)]
    \<and> (1, 1600) \<in> eligible ascii_alnum sample_query sample_memory"
proof -
  have r: "ranked_ids ascii_alnum sample_query sample_memory = [(1, 1600)]" by (rule sample_ranked)
  from ranked_ids_top [OF sample_memory_wf, of ascii_alnum sample_query] r show ?thesis by simp
qed

lemma ranked_ids_known:
  assumes "memory_wf m"
  shows "distinct (map fst (ranked_ids alnum q m))"
    and "e \<in> set (ranked_ids alnum q m) \<Longrightarrow> memory_get m (fst e) \<noteq> None"
proof -
  have "mset (sort_key rank_key (candidates alnum q m)) = mset (candidates alnum q m)" by simp
  then have "mset (map fst (sort_key rank_key (candidates alnum q m))) = mset (map fst (candidates alnum q m))"
    by (metis mset_map)
  then have "distinct (map fst (sort_key rank_key (candidates alnum q m)))"
    using candidates_distinct [OF assms] mset_eq_imp_distinct_iff by blast
  then show "distinct (map fst (ranked_ids alnum q m))"
    by (simp add: ranked_ids_candidates take_map distinct_take flip: take_map)
  show "e \<in> set (ranked_ids alnum q m) \<Longrightarrow> memory_get m (fst e) \<noteq> None"
    using candidates_eligible [OF assms, of alnum q]
    by (auto simp: ranked_ids_candidates eligible_def dest!: in_set_takeD)
qed

lemma collect_ranked:
  assumes "memory_wf m"
  shows "\<exists>m'. collect_hits tick (ranked_ids alnum q m) m = (Inr (hits_of tick m (ranked_ids alnum q m)), m')
    \<and> memory_wf m' \<and> sm_next_id m' = sm_next_id m
    \<and> (\<forall>j. memory_get m' j = (if j \<in> fst ` set (ranked_ids alnum q m)
        then map_option (recall tick) (memory_get m j) else memory_get m j))"
  using assms ranked_ids_known [OF assms] by (intro collect_hits_result) auto

text \<open>
  \<open>SovereignMemory::retrieve\<close> never fails on a well-formed memory: it returns the ranking as
  hits, each with the record as it stands after the recall, and changes nothing but the recall time
  and the recall count of exactly the records it returns.
\<close>

theorem memory_retrieve_result:
  assumes "memory_wf m"
  shows "\<exists>m'. memory_retrieve alnum q tick m =
      (Inr (hits_of tick m (if mq_limit q = 0 then [] else ranked_ids alnum q m)), m')
    \<and> memory_wf m' \<and> sm_next_id m' = sm_next_id m
    \<and> (\<forall>j. memory_get m' j =
        (if mq_limit q \<noteq> 0 \<and> j \<in> fst ` set (ranked_ids alnum q m)
         then map_option (recall tick) (memory_get m j) else memory_get m j))"
proof (cases "mq_limit q = 0")
  case True
  with assms show ?thesis by (simp add: memory_retrieve_def result_simps hits_of_def)
next
  case False
  with collect_ranked [OF assms] show ?thesis by (simp add: memory_retrieve_def result_simps)
qed

theorem memory_retrieve_result_witness:
  "\<exists>m'. memory_retrieve ascii_alnum sample_query 9 sample_memory =
      (Inr (hits_of 9 sample_memory [(1, 1600)]), m')
    \<and> memory_get m' 1 = map_option (recall 9) (memory_get sample_memory 1)"
proof -
  have r: "ranked_ids ascii_alnum sample_query sample_memory = [(1, 1600)]" "mq_limit sample_query \<noteq> 0"
    by (rule sample_ranked, code_simp)
  from memory_retrieve_result [OF sample_memory_wf, of ascii_alnum sample_query 9] r show ?thesis by auto
qed

lemma memory_retrieve_keeps: "keeps memory_wf (memory_retrieve alnum q tick)"
proof (rule keepsI)
  fix m assume "memory_wf m"
  show "memory_wf (snd (memory_retrieve alnum q tick m))"
  proof (cases "mq_limit q = 0")
    case True
    with \<open>memory_wf m\<close> show ?thesis by (simp add: memory_retrieve_def result_simps)
  next
    case False
    with collect_ranked [OF \<open>memory_wf m\<close>, of tick alnum q] show ?thesis
      by (auto simp: memory_retrieve_def result_simps)
  qed
qed

end
