(* ===== verification/Cognition.thy ===== *)
theory Cognition
  imports Complex_Main NTD_Core NTD_IR Memory
begin

text \<open>
  The cognitive kernel of \<open>crates/ntd-runtime/src/cognition.rs\<close> with the reasoning budget of
  \<open>lib.rs\<close>.

  Planner, executor, verifier and activation hook are trait objects supplied by the caller. They
  are parameters (\<open>agents\<close>): arbitrary functions of the shared state they may read and of a private
  world \<open>'w\<close> they may change. The runtime state and that world are threaded together, so what the
  kernel wrote before an agent failed is visible in every statement.
\<close>

section \<open>Signals and budgets\<close>

text \<open>
  \<open>f32\<close> as far as the kernel uses it: comparison with constants and \<open>clamp\<close>. A finite float is its
  exact value; the two zeros are not told apart, which neither operation does.
\<close>

datatype f32 = NaN | PosInf | NegInf | Fin rat

fun f32_ge :: "f32 \<Rightarrow> rat \<Rightarrow> bool" where
  "f32_ge NaN c \<longleftrightarrow> False"
| "f32_ge PosInf c \<longleftrightarrow> True"
| "f32_ge NegInf c \<longleftrightarrow> False"
| "f32_ge (Fin x) c \<longleftrightarrow> c \<le> x"

fun f32_clamp :: "rat \<Rightarrow> rat \<Rightarrow> f32 \<Rightarrow> f32" where
  "f32_clamp lo hi NaN = NaN"
| "f32_clamp lo hi PosInf = Fin hi"
| "f32_clamp lo hi NegInf = Fin lo"
| "f32_clamp lo hi (Fin x) = (if x < lo then Fin lo else if hi < x then Fin hi else Fin x)"

record cognitive_signals =
  sg_complexity :: f32
  sg_uncertainty :: f32
  sg_prior_failure :: bool

definition signals_normalized :: "cognitive_signals \<Rightarrow> cognitive_signals" where
  "signals_normalized s =
    \<lparr>sg_complexity = f32_clamp 0 1 (sg_complexity s),
     sg_uncertainty = f32_clamp 0 1 (sg_uncertainty s),
     sg_prior_failure = sg_prior_failure s\<rparr>"

definition accepts_ir :: "ir_version \<Rightarrow> bool" where
  "accepts_ir v \<longleftrightarrow> can_read ir_current v"

text \<open>The literals \<open>0.70\<close>, \<open>0.65\<close>, \<open>0.30\<close> and \<open>0.25\<close> are the nearest single-precision values.\<close>

definition choose_reasoning_budget :: "cognitive_signals \<Rightarrow> reasoning_budget" where
  "choose_reasoning_budget signals =
    (let s = signals_normalized signals in
     if sg_prior_failure s then Recovery
     else if f32_ge (sg_complexity s) (11744051 / 16777216)
        \<or> f32_ge (sg_uncertainty s) (10905190 / 16777216) then Deep
     else if f32_ge (sg_complexity s) (10066330 / 33554432)
        \<or> f32_ge (sg_uncertainty s) (1 / 4) then Standard
     else Reflex)"

fun iterations_for_budget :: "reasoning_budget \<Rightarrow> u32" where
  "iterations_for_budget Reflex = 1"
| "iterations_for_budget Standard = 2"
| "iterations_for_budget Deep = 4"
| "iterations_for_budget Recovery = 3"

section \<open>The state\<close>

type_synonym cognitive_identity = "u8 list"

datatype goal_status = GActive | GCompleted | GPaused | GFailed

datatype task_status = TPlanned | TRunning | TCompleted | TFailed | TPaused

datatype cognitive_error =
    EmptyObjective
  | EmptyWorldKey
  | EmptyDeltaNamespace
  | InvalidStepBudget
  | MissingGoal u64
  | MissingTask u64
  | MissingDelta u64
  | InvalidGoalStatus u8
  | InvalidTaskStatus u8
  | PlannerError string
  | ExecutorError string
  | MemoryErr memory_error
  | CogOverflow

definition goal_status_try_from :: "u8 \<Rightarrow> cognitive_error + goal_status" where
  "goal_status_try_from v =
    (if v = 1 then Inr GActive else if v = 2 then Inr GCompleted else if v = 3 then Inr GPaused
     else if v = 4 then Inr GFailed else Inl (InvalidGoalStatus v))"

definition task_status_try_from :: "u8 \<Rightarrow> cognitive_error + task_status" where
  "task_status_try_from v =
    (if v = 1 then Inr TPlanned else if v = 2 then Inr TRunning else if v = 3 then Inr TCompleted
     else if v = 4 then Inr TFailed else if v = 5 then Inr TPaused else Inl (InvalidTaskStatus v))"

record goal =
  gl_id :: u64
  gl_objective :: string
  gl_completion_criteria :: "string list"
  gl_status :: goal_status
  gl_created_tick :: u64
  gl_updated_tick :: u64

record cognitive_task =
  ct_id :: u64
  ct_goal_id :: "u64 option"
  ct_intent :: intent
  ct_graph :: task_graph
  ct_status :: task_status
  ct_steps_taken :: u32
  ct_verification_failures :: u32
  ct_last_observation :: "string option"
  ct_created_tick :: u64
  ct_updated_tick :: u64

record world_fact =
  wf_key :: string
  wf_value :: string
  wf_revision :: u64
  wf_updated_tick :: u64

record learned_delta =
  ld_id :: u64
  ld_namespace :: string
  ld_generation :: u64
  ld_payload :: "u8 list"
  ld_active :: bool

record cognitive_state =
  cs_identity :: cognitive_identity
  cs_tick :: u64
  cs_next_goal_id :: u64
  cs_next_task_id :: u64
  cs_next_delta_id :: u64
  cs_goals :: "(u64, goal) btmap"
  cs_tasks :: "(u64, cognitive_task) btmap"
  cs_world :: "(string, world_fact) btmap"
  cs_memory :: sovereign_memory
  cs_deltas :: "(u64, learned_delta) btmap"

type_synonym 'a cog_op = "(cognitive_state, cognitive_error, 'a) op"

definition cognitive_state_new :: "cognitive_identity \<Rightarrow> cognitive_state" where
  "cognitive_state_new ident =
    \<lparr>cs_identity = ident, cs_tick = 0, cs_next_goal_id = 1, cs_next_task_id = 1,
     cs_next_delta_id = 1, cs_goals = [], cs_tasks = [], cs_world = [], cs_memory = memory_new,
     cs_deltas = []\<rparr>"

definition add_goal :: "string \<Rightarrow> string list \<Rightarrow> u64 cog_op" where
  "add_goal objective completion_criteria =
    (if blank objective then sfail EmptyObjective else
    sbind (sget cs_next_goal_id) (\<lambda>i.
    sbind (slift (ok_or CogOverflow (checked_add i 1))) (\<lambda>nxt.
    sbind (smodify (\<lambda>s. s\<lparr>cs_next_goal_id := nxt\<rparr>)) (\<lambda>_.
    sbind (smodify (\<lambda>s. s\<lparr>cs_goals := bt_insert i
      \<lparr>gl_id = i, gl_objective = objective, gl_completion_criteria = completion_criteria,
       gl_status = GActive, gl_created_tick = cs_tick s, gl_updated_tick = cs_tick s\<rparr>
      (cs_goals s)\<rparr>)) (\<lambda>_.
    sret i)))))"

definition submit_task :: "intent \<Rightarrow> task_graph \<Rightarrow> u64 option \<Rightarrow> u64 cog_op" where
  "submit_task intnt graph goal_id =
    (if blank (in_objective intnt) then sfail EmptyObjective
     else if in_max_steps intnt = 0 then sfail InvalidStepBudget
     else
    sbind (sget cs_goals) (\<lambda>goals.
    sbind (case goal_id of
        Some g \<Rightarrow> if \<not> bt_contains goals g then sfail (MissingGoal g) else sret ()
      | None \<Rightarrow> sret ()) (\<lambda>_.
    sbind (sget cs_next_task_id) (\<lambda>i.
    sbind (slift (ok_or CogOverflow (checked_add i 1))) (\<lambda>nxt.
    sbind (smodify (\<lambda>s. s\<lparr>cs_next_task_id := nxt\<rparr>)) (\<lambda>_.
    sbind (smodify (\<lambda>s. s\<lparr>cs_tasks := bt_insert i
      \<lparr>ct_id = i, ct_goal_id = goal_id, ct_intent = intnt, ct_graph = graph, ct_status = TPlanned,
       ct_steps_taken = 0, ct_verification_failures = 0, ct_last_observation = None,
       ct_created_tick = cs_tick s, ct_updated_tick = cs_tick s\<rparr> (cs_tasks s)\<rparr>)) (\<lambda>_.
    sret i)))))))"

definition set_world_fact :: "string \<Rightarrow> string \<Rightarrow> unit cog_op" where
  "set_world_fact key value =
    (if blank key then sfail EmptyWorldKey else
    sbind (sget (\<lambda>s. case bt_get (cs_world s) key of
        Some f \<Rightarrow> saturating_add (wf_revision f) 1 | None \<Rightarrow> 1)) (\<lambda>revision.
    smodify (\<lambda>s. s\<lparr>cs_world := bt_insert key
      \<lparr>wf_key = key, wf_value = value, wf_revision = revision, wf_updated_tick = cs_tick s\<rparr>
      (cs_world s)\<rparr>)))"

definition install_delta :: "string \<Rightarrow> u64 \<Rightarrow> u8 list \<Rightarrow> u64 cog_op" where
  "install_delta namespace generation payload =
    (if blank namespace then sfail EmptyDeltaNamespace else
    sbind (sget cs_next_delta_id) (\<lambda>i.
    sbind (slift (ok_or CogOverflow (checked_add i 1))) (\<lambda>nxt.
    sbind (smodify (\<lambda>s. s\<lparr>cs_next_delta_id := nxt\<rparr>)) (\<lambda>_.
    sbind (smodify (\<lambda>s. s\<lparr>cs_deltas := bt_insert i
      \<lparr>ld_id = i, ld_namespace = namespace, ld_generation = generation, ld_payload = payload,
       ld_active = False\<rparr> (cs_deltas s)\<rparr>)) (\<lambda>_.
    sret i)))))"

section \<open>Directives, observations, agents\<close>

datatype cognitive_directive =
    Recall memory_query
  | RecordMemory memory_kind string "string list" u16
  | UpdateWorld string string
  | Work string
  | Complete string

record cognitive_observation =
  ob_summary :: string
  ob_evidence :: "string list"

definition observation_new :: "string \<Rightarrow> cognitive_observation" where
  "observation_new s = \<lparr>ob_summary = s, ob_evidence = []\<rparr>"

datatype verification_decision = Accept | Retry string | Reject string

record cognitive_context =
  cx_state :: cognitive_state
  cx_task :: cognitive_task
  cx_budget :: reasoning_budget
  cx_iteration :: u32

record 'w agents =
  ag_plan :: "cognitive_context \<Rightarrow> 'w \<Rightarrow> (string + cognitive_directive) \<times> 'w"
  ag_execute :: "cognitive_directive \<Rightarrow> cognitive_context \<Rightarrow> 'w \<Rightarrow> (string + cognitive_observation) \<times> 'w"
  ag_verify :: "cognitive_directive \<Rightarrow> cognitive_observation \<Rightarrow> cognitive_context \<Rightarrow> 'w
    \<Rightarrow> verification_decision \<times> 'w"

record cognitive_cycle_report =
  cr_task_id :: u64
  cr_budget :: reasoning_budget
  cr_iterations :: u32
  cr_status :: task_status
  cr_verification_failures :: u32
  cr_last_observation :: "string option"

definition report :: "cognitive_task \<Rightarrow> reasoning_budget \<Rightarrow> u32 \<Rightarrow> cognitive_cycle_report" where
  "report t budget iterations =
    \<lparr>cr_task_id = ct_id t, cr_budget = budget, cr_iterations = iterations, cr_status = ct_status t,
     cr_verification_failures = ct_verification_failures t,
     cr_last_observation = ct_last_observation t\<rparr>"

section \<open>The runtime\<close>

text \<open>\<open>tasks.get(&id).ok_or(...)?\<close>, writing a task back through \<open>get_mut\<close>, the goal of a task,
  the next tick, and a store into the memory at the current tick.\<close>

definition get_task :: "u64 \<Rightarrow> cognitive_task cog_op" where
  "get_task i = sbind (sget (\<lambda>s. bt_get (cs_tasks s) i)) (\<lambda>found. slift (ok_or (MissingTask i) found))"

definition put_task :: "u64 \<Rightarrow> cognitive_task \<Rightarrow> unit cog_op" where
  "put_task i t = smodify (\<lambda>s. s\<lparr>cs_tasks := bt_insert i t (cs_tasks s)\<rparr>)"

definition close_goal :: "u64 option \<Rightarrow> goal_status \<Rightarrow> unit cog_op" where
  "close_goal goal_id st = smodify (\<lambda>s.
    case Option.bind goal_id (bt_get (cs_goals s)) of
      None \<Rightarrow> s
    | Some g \<Rightarrow> s\<lparr>cs_goals := bt_insert (the goal_id)
        (g\<lparr>gl_status := st, gl_updated_tick := cs_tick s\<rparr>) (cs_goals s)\<rparr>)"

definition next_tick :: "unit cog_op" where
  "next_tick =
    sbind (sget cs_tick) (\<lambda>t.
    sbind (slift (ok_or CogOverflow (checked_add t 1))) (\<lambda>t'.
    smodify (\<lambda>s. s\<lparr>cs_tick := t'\<rparr>)))"

definition store_now :: "memory_kind \<Rightarrow> string \<Rightarrow> string list \<Rightarrow> u16 \<Rightarrow> u64 cog_op" where
  "store_now kind content tags importance =
    sbind (sget cs_tick) (\<lambda>t.
    sfield cs_memory (\<lambda>m s. s\<lparr>cs_memory := m\<rparr>) MemoryErr (memory_store kind content tags importance t))"

definition terminal :: "task_status \<Rightarrow> bool" where
  "terminal st \<longleftrightarrow> st = TCompleted \<or> st = TFailed"

definition start_external_task :: "u64 \<Rightarrow> unit cog_op" where
  "start_external_task task_id =
    sbind next_tick (\<lambda>_.
    sbind (get_task task_id) (\<lambda>t.
    if terminal (ct_status t) then sret () else
    sbind (sget cs_tick) (\<lambda>now.
    put_task task_id (t\<lparr>ct_status := TRunning, ct_updated_tick := now\<rparr>))))"

definition commit_directive :: "u64 \<Rightarrow> cognitive_directive \<Rightarrow> cognitive_observation \<Rightarrow> unit cog_op" where
  "commit_directive task_id directive observation =
    sbind (case directive of
        Recall q \<Rightarrow> sret ()
      | Work w \<Rightarrow> sret ()
      | RecordMemory kind content tags importance \<Rightarrow>
          sbind (store_now kind content tags importance) (\<lambda>_. sret ())
      | UpdateWorld key value \<Rightarrow> set_world_fact key value
      | Complete summary \<Rightarrow>
          sbind (get_task task_id) (\<lambda>t.
          sbind (close_goal (ct_goal_id t) GCompleted) (\<lambda>_.
          sbind (store_now Episodic (''task '' @ show_word task_id @ '' completed: '' @ summary)
            [''task'', ''completion''] 700) (\<lambda>_. sret ())))) (\<lambda>_.
    sbind (get_task task_id) (\<lambda>t.
    sbind (sget cs_tick) (\<lambda>now.
    put_task task_id (t\<lparr>ct_steps_taken := saturating_add (ct_steps_taken t) 1,
      ct_updated_tick := now, ct_last_observation := Some (ob_summary observation),
      ct_status := (case directive of Complete _ \<Rightarrow> TCompleted | _ \<Rightarrow> ct_status t)\<rparr>))))"

definition complete_external_task :: "u64 \<Rightarrow> string \<Rightarrow> unit cog_op" where
  "complete_external_task task_id summary =
    (if blank summary then sfail (ExecutorError ''external task completion summary is empty'') else
    sbind next_tick (\<lambda>_.
    commit_directive task_id (Complete summary) (observation_new summary)))"

definition pause_external_task :: "u64 \<Rightarrow> string \<Rightarrow> unit cog_op" where
  "pause_external_task task_id reason =
    (if blank reason then sfail (ExecutorError ''external task pause reason is empty'') else
    sbind next_tick (\<lambda>_.
    sbind (get_task task_id) (\<lambda>t.
    if terminal (ct_status t) then sret () else
    sbind (sget cs_tick) (\<lambda>now.
    sbind (put_task task_id (t\<lparr>ct_status := TPaused, ct_updated_tick := now,
      ct_last_observation := Some reason\<rparr>)) (\<lambda>_.
    sbind (store_now Episodic (''task '' @ show_word task_id @ '' paused: '' @ reason)
      [''task'', ''pause''] 400) (\<lambda>_. sret ()))))))"

definition fail_task :: "u64 \<Rightarrow> string \<Rightarrow> unit cog_op" where
  "fail_task task_id reason =
    sbind (get_task task_id) (\<lambda>t.
    sbind (sget cs_tick) (\<lambda>now.
    sbind (put_task task_id (t\<lparr>ct_status := TFailed, ct_updated_tick := now,
      ct_last_observation := Some reason\<rparr>)) (\<lambda>_.
    sbind (close_goal (ct_goal_id t) GFailed) (\<lambda>_.
    sbind (store_now Episodic (''task '' @ show_word task_id @ '' failed: '' @ reason)
      [''task'', ''failure''] 800) (\<lambda>_. sret ())))))"

text \<open>Operations that also call the agents run on the state paired with the agents' world.\<close>

type_synonym ('w, 'a) run_op = "(cognitive_state \<times> 'w, cognitive_error, 'a) op"

definition activate_delta ::
    "u64 \<Rightarrow> (learned_delta \<Rightarrow> 'w \<Rightarrow> (string + unit) \<times> 'w) \<Rightarrow> ('w, unit) run_op" where
  "activate_delta delta_id hook =
    sbind (sget (\<lambda>r. bt_get (cs_deltas (fst r)) delta_id)) (\<lambda>found.
    sbind (slift (ok_or (MissingDelta delta_id) found)) (\<lambda>delta.
    sbind (call_out (hook delta)) (\<lambda>r.
    sbind (slift (map_err ExecutorError r)) (\<lambda>_.
    sbind (sget (\<lambda>r. bt_get (cs_deltas (fst r)) delta_id)) (\<lambda>found.
    sbind (slift (ok_or (MissingDelta delta_id) found)) (\<lambda>stored.
    on_self (smodify (\<lambda>s. s\<lparr>cs_deltas := bt_insert delta_id (stored\<lparr>ld_active := True\<rparr>) (cs_deltas s)\<rparr>))))))))"

definition execute_directive ::
    "(u8 list \<Rightarrow> bool) \<Rightarrow> 'w agents \<Rightarrow> u64 \<Rightarrow> cognitive_directive \<Rightarrow> reasoning_budget \<Rightarrow> u32
      \<Rightarrow> ('w, cognitive_observation) run_op" where
  "execute_directive alnum ag task_id directive budget iteration = (case directive of
      Recall query \<Rightarrow>
        sbind (sget (\<lambda>r. cs_tick (fst r))) (\<lambda>now.
        sbind (on_self (sfield cs_memory (\<lambda>m s. s\<lparr>cs_memory := m\<rparr>) MemoryErr
          (memory_retrieve alnum query now))) (\<lambda>hits.
        sret \<lparr>ob_summary = ''recalled '' @ show_nat (length hits) @ '' memories'',
          ob_evidence = map (\<lambda>h. ''memory:'' @ show_word (mh_id h) @ '':'' @ mr_content (mh_record h)) hits\<rparr>))
    | RecordMemory kind content tags importance \<Rightarrow>
        sret (observation_new (''memory prepared: '' @ content))
    | UpdateWorld key value \<Rightarrow>
        sret (observation_new (''world update prepared: '' @ key @ ''='' @ value))
    | Complete summary \<Rightarrow> sret (observation_new (''completion prepared: '' @ summary))
    | Work instruction \<Rightarrow>
        sbind (on_self (get_task task_id)) (\<lambda>t.
        sbind (sget fst) (\<lambda>s.
        sbind (call_out (ag_execute ag directive
          \<lparr>cx_state = s, cx_task = t, cx_budget = budget, cx_iteration = iteration\<rparr>)) (\<lambda>r.
        slift (map_err ExecutorError r)))))"

text \<open>The three verdicts of the verifier, as the loop acts on them.\<close>

definition on_verdict ::
    "u64 \<Rightarrow> cognitive_directive \<Rightarrow> cognitive_observation \<Rightarrow> u32 \<Rightarrow> ('w, u32) run_op \<Rightarrow> verification_decision
      \<Rightarrow> ('w, u32) run_op" where
  "on_verdict task_id directive observation iterations continue decision = (case decision of
      Accept \<Rightarrow>
        sbind (on_self (commit_directive task_id directive observation)) (\<lambda>_.
        (case directive of Complete summary \<Rightarrow> sret (saturating_add iterations 1) | _ \<Rightarrow> continue))
    | Retry reason \<Rightarrow>
        sbind (on_self (get_task task_id)) (\<lambda>t.
        sbind (sget (\<lambda>r. cs_tick (fst r))) (\<lambda>now.
        sbind (on_self (put_task task_id (t\<lparr>
          ct_verification_failures := saturating_add (ct_verification_failures t) 1,
          ct_last_observation := Some reason, ct_updated_tick := now\<rparr>))) (\<lambda>_.
        sbind (on_self (store_now Episodic (''verification retry: '' @ reason)
          [''verification'', ''retry''] 600)) (\<lambda>_. continue))))
    | Reject reason \<Rightarrow>
        sbind (on_self (fail_task task_id reason)) (\<lambda>_. sret (saturating_add iterations 1)))"

text \<open>
  The loop of \<open>advance\<close> over the iteration numbers of the range \<open>0..max_iterations\<close>; it returns
  the number of iterations it counted.
\<close>

fun advance_loop ::
    "(u8 list \<Rightarrow> bool) \<Rightarrow> 'w agents \<Rightarrow> u64 \<Rightarrow> reasoning_budget \<Rightarrow> u32 list \<Rightarrow> u32 \<Rightarrow> ('w, u32) run_op" where
  "advance_loop alnum ag task_id budget [] iterations = sret iterations"
| "advance_loop alnum ag task_id budget (iteration # rest) iterations =
    sbind (on_self (get_task task_id)) (\<lambda>t.
    if in_max_steps (ct_intent t) \<le> ct_steps_taken t then
      sbind (on_self (fail_task task_id ''task step budget exhausted'')) (\<lambda>_. sret iterations)
    else
    sbind (on_self next_tick) (\<lambda>_.
    sbind (on_self (get_task task_id)) (\<lambda>t.
    sbind (sget fst) (\<lambda>s.
    sbind (call_out (ag_plan ag
      \<lparr>cx_state = s, cx_task = t, cx_budget = budget, cx_iteration = iteration\<rparr>)) (\<lambda>planned.
    sbind (slift (map_err PlannerError planned)) (\<lambda>directive.
    sbind (execute_directive alnum ag task_id directive budget iteration) (\<lambda>observation.
    sbind (on_self (get_task task_id)) (\<lambda>t.
    sbind (sget fst) (\<lambda>s.
    sbind (call_out (ag_verify ag directive observation
      \<lparr>cx_state = s, cx_task = t, cx_budget = budget, cx_iteration = iteration\<rparr>)) (\<lambda>decision.
    on_verdict task_id directive observation iterations
      (advance_loop alnum ag task_id budget rest (saturating_add iterations 1)) decision))))))))))"

definition iteration_range :: "u32 \<Rightarrow> u32 list" where
  "iteration_range n = map of_nat [0 ..< unat n]"

definition advance ::
    "(u8 list \<Rightarrow> bool) \<Rightarrow> 'w agents \<Rightarrow> u64 \<Rightarrow> cognitive_signals \<Rightarrow> ('w, cognitive_cycle_report) run_op" where
  "advance alnum ag task_id signals =
    (let budget = choose_reasoning_budget signals in
    sbind (on_self (get_task task_id)) (\<lambda>t.
    if terminal (ct_status t) then sret (report t budget 0) else
    sbind (on_self (put_task task_id (t\<lparr>ct_status := TRunning\<rparr>))) (\<lambda>_.
    sbind (advance_loop alnum ag task_id budget (iteration_range (iterations_for_budget budget)) 0) (\<lambda>iterations.
    sbind (on_self (get_task task_id)) (\<lambda>t.
    sret (report t budget iterations))))))"

section \<open>Validation\<close>

text \<open>The bodies of the four loops of \<open>validate_state\<close>.\<close>

definition check_goal :: "u64 \<times> goal \<Rightarrow> cognitive_error + unit" where
  "check_goal = (\<lambda>(i, g). if i \<noteq> gl_id g \<or> blank (gl_objective g) then Inl CogOverflow else Inr ())"

definition check_task :: "(u64, goal) btmap \<Rightarrow> u64 \<times> cognitive_task \<Rightarrow> cognitive_error + unit" where
  "check_task goals = (\<lambda>(i, t).
    if i \<noteq> ct_id t \<or> blank (in_objective (ct_intent t)) \<or> in_max_steps (ct_intent t) = 0
      \<or> in_max_steps (ct_intent t) < ct_steps_taken t
    then Inl CogOverflow
    else (case ct_goal_id t of
        Some g \<Rightarrow> if \<not> bt_contains goals g then Inl (MissingGoal g) else Inr ()
      | None \<Rightarrow> Inr ()))"

definition check_fact :: "string \<times> world_fact \<Rightarrow> cognitive_error + unit" where
  "check_fact = (\<lambda>(key, f).
    if key \<noteq> wf_key f \<or> blank key \<or> wf_revision f = 0 then Inl CogOverflow else Inr ())"

definition check_delta :: "u64 \<times> learned_delta \<Rightarrow> cognitive_error + unit" where
  "check_delta = (\<lambda>(i, d). if i \<noteq> ld_id d \<or> blank (ld_namespace d) then Inl CogOverflow else Inr ())"

definition validate_state :: "cognitive_state \<Rightarrow> cognitive_error + unit" where
  "validate_state s =
    (if cs_next_goal_id s = 0 \<or> cs_next_task_id s = 0 \<or> cs_next_delta_id s = 0 then Inl CogOverflow
     else if last_key_reaches (cs_goals s) (cs_next_goal_id s)
        \<or> last_key_reaches (cs_tasks s) (cs_next_task_id s)
        \<or> last_key_reaches (cs_deltas s) (cs_next_delta_id s) then Inl CogOverflow
     else
    rbind (check_all check_goal (cs_goals s)) (\<lambda>_.
    rbind (check_all (check_task (cs_goals s)) (cs_tasks s)) (\<lambda>_.
    rbind (check_all check_fact (cs_world s)) (\<lambda>_.
    check_all check_delta (cs_deltas s)))))"

definition runtime_from_state :: "cognitive_state \<Rightarrow> cognitive_error + cognitive_state" where
  "runtime_from_state s = rbind (validate_state s) (\<lambda>_. Inr s)"

section \<open>The invariant\<close>

definition goal_valid :: "goal \<Rightarrow> bool" where
  "goal_valid g \<longleftrightarrow> \<not> blank (gl_objective g)"

definition task_valid :: "(u64, goal) btmap \<Rightarrow> cognitive_task \<Rightarrow> bool" where
  "task_valid goals t \<longleftrightarrow> \<not> blank (in_objective (ct_intent t)) \<and> in_max_steps (ct_intent t) \<noteq> 0
    \<and> ct_steps_taken t \<le> in_max_steps (ct_intent t)
    \<and> (\<forall>g. ct_goal_id t = Some g \<longrightarrow> bt_get goals g \<noteq> None)"

definition fact_valid :: "string \<times> world_fact \<Rightarrow> bool" where
  "fact_valid e \<longleftrightarrow> fst e = wf_key (snd e) \<and> \<not> blank (fst e) \<and> wf_revision (snd e) \<noteq> 0"

definition delta_valid :: "learned_delta \<Rightarrow> bool" where
  "delta_valid d \<longleftrightarrow> \<not> blank (ld_namespace d)"

definition cog_wf :: "cognitive_state \<Rightarrow> bool" where
  "cog_wf s \<longleftrightarrow>
    table_ok gl_id goal_valid (cs_next_goal_id s) (cs_goals s)
    \<and> table_ok ct_id (task_valid (cs_goals s)) (cs_next_task_id s) (cs_tasks s)
    \<and> bt_wf (cs_world s) \<and> list_all fact_valid (cs_world s)
    \<and> memory_wf (cs_memory s)
    \<and> table_ok ld_id delta_valid (cs_next_delta_id s) (cs_deltas s)"

lemma cog_wfD:
  assumes "cog_wf s"
  shows "table_ok gl_id goal_valid (cs_next_goal_id s) (cs_goals s)"
    "table_ok ct_id (task_valid (cs_goals s)) (cs_next_task_id s) (cs_tasks s)"
    "bt_wf (cs_world s)" "list_all fact_valid (cs_world s)" "memory_wf (cs_memory s)"
    "table_ok ld_id delta_valid (cs_next_delta_id s) (cs_deltas s)"
    "bt_wf (cs_goals s)" "bt_wf (cs_tasks s)" "bt_wf (cs_deltas s)"
  using assms by (auto simp: cog_wf_def dest: table_okD(1))

lemma cog_wf_new [simp]: "cog_wf (cognitive_state_new ident)"
  by (simp add: cog_wf_def cognitive_state_new_def)

interpretation memory_part: component_field cs_memory "\<lambda>m s. s\<lparr>cs_memory := m\<rparr>" cog_wf memory_wf
  by unfold_locales (simp_all add: cog_wf_def)

interpretation state_part: component_field fst "\<lambda>s r. (s, snd r)" "\<lambda>r. cog_wf (fst r)" cog_wf
  by unfold_locales simp_all

lemma runtime_from_state_wf:
  assumes "bt_wf (cs_goals s)" "bt_wf (cs_tasks s)" "bt_wf (cs_world s)" "bt_wf (cs_deltas s)"
    and "bt_get (cs_goals s) 0 = None" "bt_get (cs_tasks s) 0 = None" "bt_get (cs_deltas s) 0 = None"
    and "memory_wf (cs_memory s)"
  shows "runtime_from_state s = Inr s' \<longleftrightarrow> s' = s \<and> cog_wf s"
proof -
  have tab: "table_ok rid P n m \<longleftrightarrow> n \<noteq> 0 \<and> \<not> last_key_reaches m n
      \<and> (\<forall>e \<in> set m. fst e = rid (snd e) \<and> P (snd e))"
    if "bt_wf m" "bt_get m 0 = None" for rid P n and m :: "(u64, 'x) btmap"
  proof -
    have "\<forall>e \<in> set m. fst e \<noteq> 0" using that(2) by (auto simp: map_of_eq_None_iff)
    then show ?thesis
      unfolding last_key_reaches_iff [OF that(1)] table_ok_def using that(1) by fastforce
  qed
  have checks: "check_goal e = Inr () \<longleftrightarrow> fst e = gl_id (snd e) \<and> goal_valid (snd e)"
    "check_task goals e' = Inr () \<longleftrightarrow> fst e' = ct_id (snd e') \<and> task_valid goals (snd e')"
    "check_fact f = Inr () \<longleftrightarrow> fact_valid f"
    "check_delta d = Inr () \<longleftrightarrow> fst d = ld_id (snd d) \<and> delta_valid (snd d)" for e goals e' f d
    by (auto simp: check_goal_def check_task_def check_fact_def check_delta_def goal_valid_def
        task_valid_def fact_valid_def delta_valid_def bt_contains_def not_less
        split: prod.splits option.splits)
  show ?thesis
    unfolding cog_wf_def tab [OF assms(1,5)] tab [OF assms(2,6)] tab [OF assms(4,7)]
      runtime_from_state_def validate_state_def
    using assms(3,8) by (auto simp: checks list_all_iff)
qed

text \<open>
  On maps whose identifiers are not 0, \<open>validate_state\<close>, and with it
  \<open>CognitiveRuntime::from_state\<close>, accepts exactly the states that satisfy the invariant of the
  kernel, once the memory satisfies its own.
\<close>

theorem runtime_from_state_iff:
  assumes "bt_wf (cs_goals s)" "bt_wf (cs_tasks s)" "bt_wf (cs_world s)" "bt_wf (cs_deltas s)"
    and "bt_get (cs_goals s) 0 = None" "bt_get (cs_tasks s) 0 = None" "bt_get (cs_deltas s) 0 = None"
    and "memory_wf (cs_memory s)"
  shows "runtime_from_state s = Inr s' \<longleftrightarrow> s' = s \<and> cog_wf s"
  by (rule runtime_from_state_wf [OF assms])


section \<open>Operations on the state\<close>

lemma task_valid_goals_mono:
  "task_valid goals t \<Longrightarrow> (\<And>g. bt_get goals g \<noteq> None \<Longrightarrow> bt_get goals' g \<noteq> None) \<Longrightarrow> task_valid goals' t"
  by (simp add: task_valid_def)

lemma wp_get_task [wp_simps]:
  "wp (get_task i) Q E =
    (\<lambda>s. case bt_get (cs_tasks s) i of None \<Rightarrow> E (MissingTask i) s | Some t \<Rightarrow> Q t s)"
  by (auto simp: get_task_def wp_simps fun_eq_iff split: option.splits)

lemma wp_put_task [wp_simps]:
  "wp (put_task i t) Q E = (\<lambda>s. Q () (s\<lparr>cs_tasks := bt_insert i t (cs_tasks s)\<rparr>))"
  by (simp add: put_task_def wp_simps)

lemma wp_next_tick [wp_simps]:
  "wp next_tick Q E =
    (\<lambda>s. case checked_add (cs_tick s) 1 of None \<Rightarrow> E CogOverflow s | Some t \<Rightarrow> Q () (s\<lparr>cs_tick := t\<rparr>))"
  by (auto simp: next_tick_def wp_simps fun_eq_iff split: option.splits)

lemma wp_store_now:
  assumes "memory_wf (cs_memory s)"
    and "\<And>a m. memory_wf m \<Longrightarrow> Q a (s\<lparr>cs_memory := m\<rparr>)"
    and "\<And>e m. memory_wf m \<Longrightarrow> E e (s\<lparr>cs_memory := m\<rparr>)"
  shows "wp (store_now kind content tags importance) Q E s"
  unfolding store_now_def wp_simps
  by (rule wp_conseq [OF keeps_wpD [OF memory_store_keeps assms(1)]]) (use assms(2,3) in auto)

lemma cog_wf_tick [simp]: "cog_wf (s\<lparr>cs_tick := t\<rparr>) = cog_wf s"
  by (simp add: cog_wf_def)

lemma cog_wf_memory [simp]: "cog_wf s \<Longrightarrow> memory_wf m \<Longrightarrow> cog_wf (s\<lparr>cs_memory := m\<rparr>)"
  by (rule memory_part.field_upd)

lemma cog_wf_put_task:
  assumes "cog_wf s" and "bt_get (cs_tasks s) i = Some t0" and "ct_id t = ct_id t0"
    and "task_valid (cs_goals s) t"
  shows "cog_wf (s\<lparr>cs_tasks := bt_insert i t (cs_tasks s)\<rparr>)"
  using assms table_ok_update [OF cog_wfD(2) [OF assms(1)] assms(2)]
  by (simp add: cog_wf_def)

lemma stored_task:
  assumes "cog_wf s" and "bt_get (cs_tasks s) i = Some t"
  shows "ct_id t = i" "i \<noteq> 0" "task_valid (cs_goals s) t"
  using table_ok_get [OF cog_wfD(2) [OF assms(1)] assms(2)] by simp_all

lemma add_goal_keeps: "keeps cog_wf (add_goal objective criteria)"
proof (rule keepsI)
  fix s assume wf: "cog_wf s"
  note tabs = cog_wfD [OF wf]
  let ?i = "cs_next_goal_id s"
  have fresh: "bt_get (cs_goals s) ?i = None" by (rule table_fresh_get [OF tabs(1)])
  have tasks: "table_ok ct_id (task_valid (bt_insert ?i g (cs_goals s))) (cs_next_task_id s) (cs_tasks s)" for g
    by (rule table_ok_mono [OF tabs(2)]) (auto simp: task_valid_def btm.get_ins [OF tabs(7)])
  show "cog_wf (snd (add_goal objective criteria s))"
    using wf tabs tasks table_ok_fresh [OF tabs(1)]
    by (auto simp: add_goal_def cog_wf_def goal_valid_def result_simps split: option.splits sum.splits)
qed

lemma submit_task_keeps: "keeps cog_wf (submit_task intnt graph goal_id)"
proof (rule keepsI)
  fix s assume wf: "cog_wf s"
  show "cog_wf (snd (submit_task intnt graph goal_id s))"
    using wf table_ok_fresh [OF cog_wfD(2) [OF wf]]
    by (auto simp: submit_task_def cog_wf_def task_valid_def bt_contains_def result_simps
        split: option.splits sum.splits)
qed

lemma install_delta_keeps: "keeps cog_wf (install_delta namespace generation payload)"
proof (rule keepsI)
  fix s assume wf: "cog_wf s"
  show "cog_wf (snd (install_delta namespace generation payload s))"
    using wf table_ok_fresh [OF cog_wfD(6) [OF wf]]
    by (auto simp: install_delta_def cog_wf_def delta_valid_def result_simps
        split: option.splits sum.splits)
qed

lemma saturating_add_nonzero: "saturating_add a 1 \<noteq> (0 :: 'n::len word)"
proof -
  have "unat (saturating_add a 1) = min (unat a + 1) (2 ^ LENGTH('n) - 1)"
    by (simp add: saturating_add_unat)
  moreover have "1 < (2 :: nat) ^ LENGTH('n)" by (rule one_less_power) simp_all
  ultimately have "unat (saturating_add a 1) \<noteq> 0" by linarith
  then show ?thesis by auto
qed

lemma set_world_fact_keeps: "keeps cog_wf (set_world_fact key value)"
proof (rule keepsI)
  fix s assume wf: "cog_wf s"
  have facts: "list_all fact_valid (bt_insert key f (cs_world s))" if "fact_valid (key, f)" for f
    using that cog_wfD(4) [OF wf] set_bt_insert [of key f "cs_world s"] by (auto simp: list_all_iff)
  show "cog_wf (snd (set_world_fact key value s))"
    using wf
    by (auto simp: set_world_fact_def cog_wf_def saturating_add_nonzero result_simps
        split: option.splits intro!: facts, simp_all add: fact_valid_def saturating_add_nonzero)
qed

lemma wp_set_world_fact:
  assumes "cog_wf s" and "\<And>w. cog_wf (s\<lparr>cs_world := w\<rparr>) \<Longrightarrow> Q () (s\<lparr>cs_world := w\<rparr>)" and "\<And>e. E e s"
  shows "wp (set_world_fact key v) Q E s"
  using keepsD [OF set_world_fact_keeps assms(1), of key v] assms(2,3)
  by (auto simp: set_world_fact_def wp_simps result_simps)

lemma start_external_task_keeps: "keeps cog_wf (start_external_task i)"
  unfolding keeps_wp
proof (intro allI impI)
  fix s assume "cog_wf s"
  then show "wp (start_external_task i) (\<lambda>_. cog_wf) (\<lambda>_. cog_wf) s"
    by (auto simp: start_external_task_def wp_simps task_valid_def dest: stored_task(3)
        intro!: cog_wf_put_task [where s = "s\<lparr>cs_tick := t\<rparr>" for t, simplified]
        split: option.splits)
qed

section \<open>What one task may change\<close>

text \<open>
  \<open>evolves i s s'\<close>: work on task \<open>i\<close> leaves identity, counters, deltas and every other task alone,
  keeps what the task was asked to do, moves tick and step counter forward only, and touches no
  goal but the task's own.
\<close>

definition same_request :: "cognitive_task \<Rightarrow> cognitive_task \<Rightarrow> bool" where
  "same_request t t' \<longleftrightarrow> ct_id t' = ct_id t \<and> ct_goal_id t' = ct_goal_id t \<and> ct_intent t' = ct_intent t
    \<and> ct_graph t' = ct_graph t \<and> ct_created_tick t' = ct_created_tick t
    \<and> ct_steps_taken t \<le> ct_steps_taken t'"

definition evolves :: "u64 \<Rightarrow> cognitive_state \<Rightarrow> cognitive_state \<Rightarrow> bool" where
  "evolves i s s' \<longleftrightarrow>
    cs_identity s' = cs_identity s \<and> cs_next_goal_id s' = cs_next_goal_id s
    \<and> cs_next_task_id s' = cs_next_task_id s \<and> cs_next_delta_id s' = cs_next_delta_id s
    \<and> cs_deltas s' = cs_deltas s \<and> cs_tick s \<le> cs_tick s'
    \<and> (\<forall>j. j \<noteq> i \<longrightarrow> bt_get (cs_tasks s') j = bt_get (cs_tasks s) j)
    \<and> rel_option same_request (bt_get (cs_tasks s) i) (bt_get (cs_tasks s') i)
    \<and> (\<forall>g. bt_get (cs_goals s') g = None \<longleftrightarrow> bt_get (cs_goals s) g = None)
    \<and> (\<forall>g. Option.bind (bt_get (cs_tasks s) i) ct_goal_id \<noteq> Some g
        \<longrightarrow> bt_get (cs_goals s') g = bt_get (cs_goals s) g)"

lemma same_request_refl [simp]: "same_request t t"
  by (simp add: same_request_def)

lemma rel_same_request_refl [simp]: "rel_option same_request x x"
  by (cases x) simp_all

lemma same_request_trans: "same_request t t' \<Longrightarrow> same_request t' t'' \<Longrightarrow> same_request t t''"
  by (auto simp: same_request_def)

lemma evolves_refl [simp]: "evolves i s s"
  by (cases "bt_get (cs_tasks s) i") (simp_all add: evolves_def)

lemma evolves_goal_id:
  "evolves i s s' \<Longrightarrow> Option.bind (bt_get (cs_tasks s') i) ct_goal_id = Option.bind (bt_get (cs_tasks s) i) ct_goal_id"
  by (auto simp: evolves_def same_request_def elim: option.rel_cases)

lemma evolves_trans:
  assumes "evolves i s s'" and "evolves i s' s''"
  shows "evolves i s s''"
proof -
  have "rel_option same_request (bt_get (cs_tasks s) i) (bt_get (cs_tasks s'') i)"
    using assms by (auto simp: evolves_def elim!: option.rel_cases intro: same_request_trans)
  then show ?thesis
    using assms evolves_goal_id [OF assms(1)] by (auto simp: evolves_def)
qed

lemma evolves_tick: "cs_tick s \<le> t \<Longrightarrow> evolves i s (s\<lparr>cs_tick := t\<rparr>)"
  using evolves_refl [of i s] by (simp add: evolves_def)

lemma evolves_memory: "evolves i s (s\<lparr>cs_memory := m\<rparr>)"
  using evolves_refl [of i s] by (simp add: evolves_def)

lemma evolves_world: "evolves i s (s\<lparr>cs_world := w\<rparr>)"
  using evolves_refl [of i s] by (simp add: evolves_def)

lemma evolves_put_task:
  assumes "bt_wf (cs_tasks s)" "bt_get (cs_tasks s) i = Some t" "same_request t t'"
  shows "evolves i s (s\<lparr>cs_tasks := bt_insert i t' (cs_tasks s)\<rparr>)"
  using assms by (auto simp: evolves_def btm.get_ins [OF assms(1)])

text \<open>Closing the goal of a task.\<close>

definition goal_closed :: "u64 option \<Rightarrow> goal_status \<Rightarrow> cognitive_state \<Rightarrow> bool" where
  "goal_closed goal_id st s \<longleftrightarrow>
    (\<forall>g. goal_id = Some g \<longrightarrow> (\<exists>gl. bt_get (cs_goals s) g = Some gl \<and> gl_status gl = st))"

lemma wp_close_goal:
  assumes wf: "cog_wf s" and t: "bt_get (cs_tasks s) i = Some t"
    and post: "\<And>s'. cog_wf s' \<Longrightarrow> evolves i s s' \<Longrightarrow> goal_closed (ct_goal_id t) st s'
      \<Longrightarrow> cs_tasks s' = cs_tasks s \<Longrightarrow> cs_tick s' = cs_tick s \<Longrightarrow> Q () s'"
  shows "wp (close_goal (ct_goal_id t) st) Q E s"
proof (cases "ct_goal_id t")
  case None
  then show ?thesis
    using post [of s] wf by (simp add: close_goal_def wp_simps goal_closed_def)
next
  case (Some g)
  have "bt_get (cs_goals s) g \<noteq> None"
    using stored_task(3) [OF wf t] Some by (simp add: task_valid_def)
  then obtain gl where gl: "bt_get (cs_goals s) g = Some gl" by blast
  let ?gl = "gl\<lparr>gl_status := st, gl_updated_tick := cs_tick s\<rparr>"
  let ?s = "s\<lparr>cs_goals := bt_insert g ?gl (cs_goals s)\<rparr>"
  note get = btm.get_ins [OF cog_wfD(7) [OF wf]]
  have goals: "table_ok gl_id goal_valid (cs_next_goal_id s) (bt_insert g ?gl (cs_goals s))"
    using table_ok_update [OF cog_wfD(1) [OF wf] gl, of ?gl] table_ok_get(4) [OF cog_wfD(1) [OF wf] gl]
    by (simp add: goal_valid_def)
  have tasks: "table_ok ct_id (task_valid (bt_insert g ?gl (cs_goals s))) (cs_next_task_id s) (cs_tasks s)"
    by (rule table_ok_mono [OF cog_wfD(2) [OF wf]]) (simp add: task_valid_def get)
  have "cog_wf ?s" using wf goals tasks by (simp add: cog_wf_def)
  moreover have "evolves i s ?s"
    using evolves_refl [of i s] t Some gl by (simp add: evolves_def get)
  moreover have "goal_closed (ct_goal_id t) st ?s" using Some by (simp add: goal_closed_def get)
  ultimately show ?thesis
    using post [of ?s] Some gl by (simp add: close_goal_def wp_simps)
qed

lemma goal_closed_simps [simp]:
  "goal_closed g st (s\<lparr>cs_tasks := ts\<rparr>) = goal_closed g st s"
  "goal_closed g st (s\<lparr>cs_memory := m\<rparr>) = goal_closed g st s"
  by (simp_all add: goal_closed_def)

text \<open>How a failed task looks, and what \<open>fail_task\<close> guarantees on either outcome.\<close>

lemma wp_fail_task:
  assumes wf: "cog_wf s" and t: "bt_get (cs_tasks s) i = Some t"
    and ok: "\<And>s'. cog_wf s' \<Longrightarrow> evolves i s s' \<Longrightarrow> cs_tick s' = cs_tick s
      \<Longrightarrow> bt_get (cs_tasks s') i = Some (t\<lparr>ct_status := TFailed, ct_updated_tick := cs_tick s,
          ct_last_observation := Some reason\<rparr>)
      \<Longrightarrow> goal_closed (ct_goal_id t) GFailed s' \<Longrightarrow> Q () s'"
    and err: "\<And>e s'. cog_wf s' \<Longrightarrow> evolves i s s' \<Longrightarrow> cs_tick s' = cs_tick s \<Longrightarrow> E e s'"
  shows "wp (fail_task i reason) Q E s"
proof -
  let ?t = "t\<lparr>ct_status := TFailed, ct_updated_tick := cs_tick s, ct_last_observation := Some reason\<rparr>"
  let ?s = "s\<lparr>cs_tasks := bt_insert i ?t (cs_tasks s)\<rparr>"
  note get = btm.get_ins [OF cog_wfD(8) [OF wf]]
  have s: "cog_wf ?s" "evolves i s ?s"
    using cog_wf_put_task [OF wf t, of ?t] evolves_put_task [OF cog_wfD(8) [OF wf] t, of ?t]
      stored_task(3) [OF wf t] by (simp_all add: task_valid_def same_request_def)
  have "wp (close_goal (ct_goal_id t) GFailed)
      (\<lambda>_. wp (store_now Episodic (''task '' @ show_word i @ '' failed: '' @ reason)
        [''task'', ''failure''] 800) (\<lambda>_. Q ()) E) E ?s"
  proof (rule wp_close_goal [OF s(1), where i = i and t = ?t, simplified])
    fix s' assume s': "cog_wf s'" "evolves i ?s s'" "goal_closed (ct_goal_id t) GFailed s'"
      "cs_tasks s' = bt_insert i ?t (cs_tasks s)" "cs_tick s' = cs_tick s"
    have ev: "evolves i s (s'\<lparr>cs_memory := m\<rparr>)" for m
      by (rule evolves_trans [OF evolves_trans [OF s(2) s'(2)] evolves_memory])
    show "wp (store_now Episodic (''task '' @ show_word i @ '' failed: '' @ reason)
        [''task'', ''failure''] 800) (\<lambda>_. Q ()) E s'"
      using s' by (intro wp_store_now cog_wfD(5) ok err ev) (simp_all add: get)
  qed (simp add: get)
  then show ?thesis by (simp only: fail_task_def wp_simps t option.case)
qed

text \<open>
  The task after an accepted directive, and what \<open>commit_directive\<close> guarantees on either outcome
  while the step budget is not used up.
\<close>

definition is_complete :: "cognitive_directive \<Rightarrow> bool" where
  "is_complete d \<longleftrightarrow> (case d of Complete _ \<Rightarrow> True | _ \<Rightarrow> False)"

definition committed :: "cognitive_directive \<Rightarrow> string \<Rightarrow> u64 \<Rightarrow> cognitive_task \<Rightarrow> cognitive_task" where
  "committed d summary now t = t\<lparr>ct_steps_taken := saturating_add (ct_steps_taken t) 1,
     ct_updated_tick := now, ct_last_observation := Some summary,
     ct_status := (if is_complete d then TCompleted else ct_status t)\<rparr>"

lemma committed_case:
  "t\<lparr>ct_steps_taken := saturating_add (ct_steps_taken t) 1, ct_updated_tick := now,
    ct_last_observation := Some summary,
    ct_status := (case d of Complete _ \<Rightarrow> TCompleted | _ \<Rightarrow> ct_status t)\<rparr> = committed d summary now t"
  by (simp add: committed_def is_complete_def split: cognitive_directive.splits)

lemma saturating_step_le:
  assumes "n < (m :: 'n::len word)"
  shows "saturating_add n 1 \<le> m"
proof -
  have "unat n < unat m" using assms by (simp add: word_less_nat_alt)
  then show ?thesis by (simp add: word_le_nat_alt saturating_add_unat)
qed

lemma task_valid_committed:
  "task_valid goals t \<Longrightarrow> ct_steps_taken t < in_max_steps (ct_intent t) \<Longrightarrow> task_valid goals (committed d x now t)"
  by (simp add: task_valid_def committed_def saturating_step_le)

lemma same_request_committed: "same_request t (committed d x now t)"
  by (simp add: same_request_def committed_def saturating_add_ge)

lemma wp_commit_directive:
  assumes wf: "cog_wf s" and t: "bt_get (cs_tasks s) i = Some t"
    and steps: "ct_steps_taken t < in_max_steps (ct_intent t)"
    and ok: "\<And>s'. cog_wf s' \<Longrightarrow> evolves i s s' \<Longrightarrow> cs_tick s' = cs_tick s
      \<Longrightarrow> bt_get (cs_tasks s') i = Some (committed d (ob_summary obs) (cs_tick s) t)
      \<Longrightarrow> (is_complete d \<Longrightarrow> goal_closed (ct_goal_id t) GCompleted s') \<Longrightarrow> Q () s'"
    and err: "\<And>e s'. cog_wf s' \<Longrightarrow> evolves i s s' \<Longrightarrow> E e s'"
  shows "wp (commit_directive i d obs) Q E s"
proof -
  define fin where "fin = sbind (get_task i) (\<lambda>t. sbind (sget cs_tick) (\<lambda>now.
    put_task i (committed d (ob_summary obs) now t)))"
  note commit = commit_directive_def [of i d obs, unfolded committed_case, folded fin_def]
  have finish: "wp fin Q E s'"
    if s': "cog_wf s'" "evolves i s s'" "cs_tasks s' = cs_tasks s" "cs_tick s' = cs_tick s"
      "is_complete d \<Longrightarrow> goal_closed (ct_goal_id t) GCompleted s'" for s'
  proof -
    let ?t = "committed d (ob_summary obs) (cs_tick s) t"
    let ?s = "s'\<lparr>cs_tasks := bt_insert i ?t (cs_tasks s')\<rparr>"
    have t': "bt_get (cs_tasks s') i = Some t" using t s'(3) by simp
    have "cog_wf ?s"
      using cog_wf_put_task [OF s'(1) t', of ?t] stored_task(3) [OF s'(1) t'] steps
      by (simp add: task_valid_committed) (simp add: committed_def)
    moreover have "evolves i s ?s"
      using evolves_put_task [OF cog_wfD(8) [OF s'(1)] t' same_request_committed] evolves_trans [OF s'(2)]
      by blast
    ultimately have "Q () ?s"
      using s' by (intro ok) (simp_all add: btm.get_ins [OF cog_wfD(8) [OF wf]])
    then show ?thesis by (simp only: fin_def wp_simps t' option.case s'(4))
  qed
  have stored: "wp (store_now kind content tags importance) (\<lambda>_. wp fin Q E) E s'"
    if s': "cog_wf s'" "evolves i s s'" "cs_tasks s' = cs_tasks s" "cs_tick s' = cs_tick s"
      "is_complete d \<Longrightarrow> goal_closed (ct_goal_id t) GCompleted s'" for s' kind content tags importance
    using s' by (intro wp_store_now cog_wfD(5) finish err evolves_trans [OF s'(2) evolves_memory]) simp_all
  show ?thesis
  proof (cases d)
    case (RecordMemory kind content tags importance)
    then show ?thesis
      unfolding commit using wf
      by (simp only: cognitive_directive.case wp_sbind wp_basic) (rule stored, simp_all add: is_complete_def)
  next
    case (UpdateWorld key v)
    then show ?thesis
      unfolding commit using wf
      by (simp only: cognitive_directive.case wp_sbind)
        (intro wp_set_world_fact finish err evolves_world, simp_all add: is_complete_def)
  next
    case (Complete summary)
    then show ?thesis
      unfolding commit
      by (simp only: cognitive_directive.case wp_sbind wp_basic wp_get_task t option.case)
        (rule wp_close_goal [OF wf t], rule stored)
  qed (unfold commit, use finish [of s] wf in \<open>simp_all add: wp_sbind is_complete_def wp_basic\<close>)
qed


section \<open>The cognitive cycle\<close>

lemma wp_execute_directive:
  assumes wf: "cog_wf (fst r)" and t: "bt_get (cs_tasks (fst r)) i = Some t"
    and ok: "\<And>obs m w'. memory_wf m \<Longrightarrow> Q obs ((fst r)\<lparr>cs_memory := m\<rparr>, w')"
    and err: "\<And>e m w'. memory_wf m \<Longrightarrow> E e ((fst r)\<lparr>cs_memory := m\<rparr>, w')"
  shows "wp (execute_directive alnum ag i d budget iteration) Q E r"
proof -
  have here: "memory_wf (cs_memory (fst r))" by (rule cog_wfD(5) [OF wf])
  have same: "Q obs r" "Q obs (fst r, w')" "E e (fst r, w')" for obs e w'
    using ok [OF here, of obs] err [OF here, of e] by (cases r, simp)+
  show ?thesis
  proof (cases d)
    case (Recall q)
    then show ?thesis
      using wp_conseq [OF keeps_wpD [OF memory_retrieve_keeps here]] ok err
      by (simp add: execute_directive_def wp_simps)
  qed (auto simp: execute_directive_def wp_simps t same split: prod.splits sum.splits)
qed

text \<open>A task at the end of a cycle: still running, or closed together with its goal.\<close>

definition settled :: "cognitive_task \<Rightarrow> cognitive_state \<Rightarrow> bool" where
  "settled t s \<longleftrightarrow> ct_status t = TRunning
    \<or> ct_status t = TCompleted \<and> goal_closed (ct_goal_id t) GCompleted s
    \<or> ct_status t = TFailed \<and> goal_closed (ct_goal_id t) GFailed s"

lemma saturating_step_unat: "unat (saturating_add n 1) \<le> unat n + 1" for n :: "'n::len word"
  by (simp add: saturating_add_unat)

lemma saturating_step_exact: "unat n + 1 < 2 ^ LENGTH('n) \<Longrightarrow> unat (saturating_add n 1) = unat n + 1"
  for n :: "'n::len word"
  by (simp add: saturating_add_unat)

text \<open>
  The bookkeeping of a task that stays open: every iteration is a committed step or a recorded
  verification failure (as long as the failure counter does not saturate).
\<close>

definition effort :: "cognitive_task \<Rightarrow> nat \<Rightarrow> cognitive_task \<Rightarrow> bool" where
  "effort t n t' \<longleftrightarrow> unat (ct_verification_failures t') \<le> unat (ct_verification_failures t) + n
    \<and> (unat (ct_verification_failures t) + n < 2 ^ 32 \<longrightarrow>
        unat (ct_steps_taken t') + unat (ct_verification_failures t')
          = unat (ct_steps_taken t) + unat (ct_verification_failures t) + n)"

lemma effort_none [simp]: "effort t 0 t"
  by (simp add: effort_def)

lemma effort_status [simp]: "effort (t\<lparr>ct_status := st\<rparr>) n t' = effort t n t'"
  by (simp add: effort_def)

lemma effort_trans: "effort t m t1 \<Longrightarrow> effort t1 n t2 \<Longrightarrow> effort t (m + n) t2"
  by (auto simp: effort_def)

lemma effort_committed:
  assumes "ct_steps_taken t < in_max_steps (ct_intent t)"
  shows "effort t 1 (committed d x now t)"
proof -
  have "unat (ct_steps_taken t) < unat (in_max_steps (ct_intent t))" using assms by (simp add: word_less_nat_alt)
  then have "unat (ct_steps_taken t) + 1 < 2 ^ LENGTH(32)"
    using unsigned_less [of "in_max_steps (ct_intent t)", where ?'a = nat] by linarith
  from saturating_step_exact [OF this] show ?thesis by (simp add: effort_def committed_def)
qed

lemma effort_retried:
  "effort t 1 (t\<lparr>ct_verification_failures := saturating_add (ct_verification_failures t) 1,
    ct_last_observation := ob, ct_updated_tick := now\<rparr>)"
  by (simp add: effort_def saturating_add_unat)

text \<open>
  \<open>cycle_post i s t k n s'\<close>: a cycle of at most \<open>k\<close> iterations that started in \<open>s\<close> with task \<open>t\<close>
  counted \<open>n\<close> iterations and ended in \<open>s'\<close>. Only a task that is closed may stop early.
\<close>

definition cycle_post ::
    "u64 \<Rightarrow> cognitive_state \<Rightarrow> cognitive_task \<Rightarrow> nat \<Rightarrow> nat \<Rightarrow> cognitive_state \<Rightarrow> bool" where
  "cycle_post i s t k n s' \<longleftrightarrow> cog_wf s' \<and> evolves i s s' \<and> n \<le> k
    \<and> unat (cs_tick s') = unat (cs_tick s) + n
    \<and> (\<exists>t'. bt_get (cs_tasks s') i = Some t' \<and> settled t' s'
        \<and> unat (ct_steps_taken t') \<le> unat (ct_steps_taken t) + n
        \<and> (ct_status t' = TRunning \<longrightarrow> n = k \<and> effort t n t'))"

lemma cycle_post_step:
  assumes "evolves i s s1" and "unat (cs_tick s1) = unat (cs_tick s) + 1"
    and "unat (ct_steps_taken t1) \<le> unat (ct_steps_taken t) + 1" and "effort t 1 t1"
    and "cycle_post i s1 t1 k n s'"
  shows "cycle_post i s t (Suc k) (Suc n) s'"
proof -
  from assms(5) obtain t' where t': "bt_get (cs_tasks s') i = Some t'" "settled t' s'"
      "unat (ct_steps_taken t') \<le> unat (ct_steps_taken t1) + n"
      "ct_status t' = TRunning \<longrightarrow> n = k \<and> effort t1 n t'"
    by (auto simp: cycle_post_def)
  moreover have "unat (ct_steps_taken t') \<le> unat (ct_steps_taken t) + Suc n"
    using t'(3) assms(3) by linarith
  moreover have "evolves i s s'" using assms(1,5) evolves_trans by (auto simp: cycle_post_def)
  moreover have "effort t (Suc n) t'" if "effort t1 n t'" using effort_trans [OF assms(4) that] by simp
  ultimately show ?thesis using assms(2,5) by (auto simp: cycle_post_def)
qed

lemma checked_step: "checked_add a 1 = Some c \<Longrightarrow> unat c = unat a + 1" for a :: "'n::len word"
  using checked_add_unat [of a 1 c] by simp

lemma cycle_post_stop:
  assumes "cog_wf s'" and "evolves i s s'" and "unat (cs_tick s') = unat (cs_tick s) + n" and "n \<le> k"
    and "bt_get (cs_tasks s') i = Some t'" and "settled t' s'" and "ct_status t' \<noteq> TRunning"
    and "unat (ct_steps_taken t') \<le> unat (ct_steps_taken t) + n"
  shows "cycle_post i s t k n s'"
  using assms by (simp add: cycle_post_def)

text \<open>What the rest of one iteration does with the verdict, given that the rest of the loop meets
  its contract.\<close>

definition loop_ok ::
    "u64 \<Rightarrow> nat \<Rightarrow> u32 \<Rightarrow> ('w, u32) run_op \<Rightarrow> bool" where
  "loop_ok i k iterations m \<longleftrightarrow>
    (\<forall>r t. cog_wf (fst r) \<longrightarrow> bt_get (cs_tasks (fst r)) i = Some t \<longrightarrow> ct_status t = TRunning \<longrightarrow>
      wp m (\<lambda>n r'. unat iterations \<le> unat n
          \<and> cycle_post i (fst r) t k (unat n - unat iterations) (fst r'))
        (\<lambda>e r'. cog_wf (fst r') \<and> evolves i (fst r) (fst r')) r)"

lemma loop_ok_continue:
  assumes loop: "loop_ok i k (saturating_add iterations 1) m"
    and bound: "unat iterations + 1 < 2 ^ 32"
    and r: "cog_wf (fst r)" "bt_get (cs_tasks (fst r)) i = Some t1" "ct_status t1 = TRunning"
    and since: "evolves i s (fst r)" "unat (cs_tick (fst r)) = unat (cs_tick s) + 1"
      "unat (ct_steps_taken t1) \<le> unat (ct_steps_taken t) + 1" "effort t 1 t1"
  shows "wp m (\<lambda>n r'. unat iterations \<le> unat n
          \<and> cycle_post i s t (Suc k) (unat n - unat iterations) (fst r'))
      (\<lambda>e r'. cog_wf (fst r') \<and> evolves i s (fst r')) r"
proof (rule wp_conseq)
  show "wp m (\<lambda>n r'. unat (saturating_add iterations 1) \<le> unat n
          \<and> cycle_post i (fst r) t1 k (unat n - unat (saturating_add iterations 1)) (fst r'))
        (\<lambda>e r'. cog_wf (fst r') \<and> evolves i (fst r) (fst r')) r"
    using loop r unfolding loop_ok_def by blast
next
  fix n r'
  assume *: "unat (saturating_add iterations 1) \<le> unat n
      \<and> cycle_post i (fst r) t1 k (unat n - unat (saturating_add iterations 1)) (fst r')"
  have eq: "unat (saturating_add iterations 1) = unat iterations + 1"
    using bound by (simp add: saturating_step_exact)
  have "Suc (unat n - unat (saturating_add iterations 1)) = unat n - unat iterations"
    using * unfolding eq by linarith
  with * eq cycle_post_step [OF since] show "unat iterations \<le> unat n
      \<and> cycle_post i s t (Suc k) (unat n - unat iterations) (fst r')"
    by fastforce
next
  fix e r' assume "cog_wf (fst r') \<and> evolves i (fst r) (fst r')"
  then show "cog_wf (fst r') \<and> evolves i s (fst r')" using since(1) evolves_trans by blast
qed

lemma wp_on_verdict:
  assumes loop: "loop_ok i k (saturating_add iterations 1) continue"
    and bound: "unat iterations + 1 < 2 ^ 32"
    and wf: "cog_wf (fst r)" and t: "bt_get (cs_tasks (fst r)) i = Some t" and run: "ct_status t = TRunning"
    and steps: "ct_steps_taken t < in_max_steps (ct_intent t)"
    and ev: "evolves i s (fst r)" and tick: "unat (cs_tick (fst r)) = unat (cs_tick s) + 1"
  shows "wp (on_verdict i d obs iterations continue decision)
      (\<lambda>n r'. unat iterations \<le> unat n \<and> cycle_post i s t (Suc k) (unat n - unat iterations) (fst r'))
      (\<lambda>e r'. cog_wf (fst r') \<and> evolves i s (fst r')) r"
proof (cases decision)
  case Accept
  have one: "unat (saturating_add iterations 1) - unat iterations = 1" "unat iterations \<le> unat (saturating_add iterations 1)"
    using bound by (simp_all add: saturating_step_exact)
  have up: "unat (ct_steps_taken (committed d x now t)) \<le> unat (ct_steps_taken t) + 1" for x now
    by (simp add: committed_def saturating_add_unat)
  show ?thesis
    unfolding on_verdict_def Accept verification_decision.case wp_sbind wp_on_self
  proof (rule wp_commit_directive [OF wf t steps], goal_cases)
    case (1 s')
    note evs = evolves_trans [OF ev 1(2)]
    show ?case
    proof (cases "is_complete d")
      case True
      then have "cycle_post i s t (Suc k) 1 s'"
        using 1 evs up tick by (intro cycle_post_stop [OF 1(1) evs _ _ 1(4)])
          (auto simp: settled_def committed_def saturating_add_unat)
      then show ?thesis
        using True one by (simp add: is_complete_def wp_simps split: cognitive_directive.splits)
    next
      case False
      then have "wp continue
          (\<lambda>n r'. unat iterations \<le> unat n \<and> cycle_post i s t (Suc k) (unat n - unat iterations) (fst r'))
          (\<lambda>e r'. cog_wf (fst r') \<and> evolves i s (fst r')) (s', snd r)"
        using 1 evs up tick run effort_committed [OF steps]
        by (intro loop_ok_continue [OF loop bound, where ?t1.0 = "committed d (ob_summary obs) (cs_tick (fst r)) t"])
          (simp_all, simp add: committed_def)
      then show ?thesis
        using False by (simp add: is_complete_def split: cognitive_directive.splits)
    qed
  next
    case (2 e s')
    then show ?case using evolves_trans [OF ev] by simp
  qed
next
  case (Retry reason)
  let ?t = "t\<lparr>ct_verification_failures := saturating_add (ct_verification_failures t) 1,
          ct_last_observation := Some reason, ct_updated_tick := cs_tick (fst r)\<rparr>"
  let ?s = "(fst r)\<lparr>cs_tasks := bt_insert i ?t (cs_tasks (fst r))\<rparr>"
  have s: "cog_wf ?s" "evolves i s ?s"
    using cog_wf_put_task [OF wf t, of ?t] evolves_put_task [OF cog_wfD(8) [OF wf] t, of ?t]
      stored_task(3) [OF wf t] evolves_trans [OF ev] by (simp_all add: task_valid_def same_request_def)
  have ev': "evolves i s (?s\<lparr>cs_memory := m\<rparr>)" for m by (rule evolves_trans [OF s(2) evolves_memory])
  have "wp (store_now kind content tags importance)
      (\<lambda>_ s'. wp continue
          (\<lambda>n r'. unat iterations \<le> unat n \<and> cycle_post i s t (Suc k) (unat n - unat iterations) (fst r'))
          (\<lambda>e r'. cog_wf (fst r') \<and> evolves i s (fst r')) (s', snd r))
      (\<lambda>e s'. cog_wf s' \<and> evolves i s s') ?s" for kind content tags importance
    using s ev' run tick cog_wf_memory [OF s(1)]
    by (intro wp_store_now cog_wfD(5) loop_ok_continue [OF loop bound, where ?t1.0 = ?t])
      (simp_all add: btm.get_ins [OF cog_wfD(8) [OF wf]] effort_retried [unfolded One_nat_def])
  then show ?thesis
    by (simp only: on_verdict_def Retry verification_decision.case wp_simps t option.case fst_conv snd_conv)
next
  case (Reject reason)
  have one: "unat (saturating_add iterations 1) - unat iterations = 1" "unat iterations \<le> unat (saturating_add iterations 1)"
    using bound by (simp_all add: saturating_step_exact)
  show ?thesis
    unfolding on_verdict_def Reject verification_decision.case wp_sbind wp_on_self wp_basic
  proof (rule wp_fail_task [OF wf t], goal_cases)
    case (1 s')
    note evs = evolves_trans [OF ev 1(2)]
    have "cycle_post i s t (Suc k) 1 s'"
      using 1 evs tick by (intro cycle_post_stop [OF 1(1) evs _ _ 1(4)]) (auto simp: settled_def)
    then show ?case using one by simp
  next
    case (2 e s')
    then show ?case using evolves_trans [OF ev] by simp
  qed
qed

lemma advance_loop_ok:
  assumes "unat iterations + length its < 2 ^ 32"
  shows "loop_ok i (length its) iterations (advance_loop alnum ag i budget its iterations)"
  using assms
proof (induction its arbitrary: iterations)
  case Nil
  show ?case
    by (auto simp: loop_ok_def wp_simps cycle_post_def settled_def)
next
  case (Cons it its)
  let ?rest = "advance_loop alnum ag i budget its (saturating_add iterations 1)"
  have bound: "unat iterations + 1 < 2 ^ 32" using Cons.prems by simp
  have loop: "loop_ok i (length its) (saturating_add iterations 1) ?rest"
    using Cons.prems bound by (intro Cons.IH) (simp add: saturating_step_exact)
  show ?case
    unfolding loop_ok_def
  proof (intro allI impI)
    fix r :: "cognitive_state \<times> 'a" and t
    let ?s = "fst r"
    let ?Q = "\<lambda>n r'. unat iterations \<le> unat n
          \<and> cycle_post i ?s t (length (it # its)) (unat n - unat iterations) (fst r')"
    let ?E = "\<lambda>(e :: cognitive_error) r'. cog_wf (fst r') \<and> evolves i ?s (fst r')"
    assume wf: "cog_wf ?s" and t: "bt_get (cs_tasks ?s) i = Some t" and run: "ct_status t = TRunning"
    show "wp (advance_loop alnum ag i budget (it # its) iterations) ?Q ?E r"
    proof (cases "in_max_steps (ct_intent t) \<le> ct_steps_taken t")
      case True
      have "wp (fail_task i ''task step budget exhausted'')
          (\<lambda>a s. ?Q iterations (s, snd r)) (\<lambda>e s. ?E e (s, snd r)) ?s"
        by (rule wp_fail_task [OF wf t])
          (auto intro!: cycle_post_stop simp: settled_def)
      then show ?thesis using True by (simp only: advance_loop.simps wp_simps t option.case if_True fst_conv snd_conv)
    next
      case False
      then have steps: "ct_steps_taken t < in_max_steps (ct_intent t)" by simp
      show ?thesis
      proof (cases "checked_add (cs_tick ?s) 1")
        case None
        then show ?thesis using False wf by (simp add: wp_simps t)
      next
        case (Some now)
        let ?s1 = "?s\<lparr>cs_tick := now\<rparr>"
        have tick: "unat now = unat (cs_tick ?s) + 1" by (rule checked_step [OF Some])
        have ev1: "evolves i ?s ?s1"
          by (rule evolves_tick) (use tick in \<open>simp add: word_le_nat_alt\<close>)
        have ev2: "evolves i ?s (?s1\<lparr>cs_memory := m\<rparr>)" for m
          by (rule evolves_trans [OF ev1 evolves_memory])
        have verdict: "wp (on_verdict i d obs iterations ?rest decision) ?Q ?E (?s1\<lparr>cs_memory := m\<rparr>, w)"
          if "memory_wf m" for d obs decision m w
          using wp_on_verdict [OF loop bound, where r = "(?s1\<lparr>cs_memory := m\<rparr>, w)" and t = t and s = ?s]
            that wf t run steps ev2 tick by simp
        have exec: "wp (execute_directive alnum ag i d budget it)
            (\<lambda>obs. wp (sbind (on_self (get_task i)) (\<lambda>t. sbind (sget fst) (\<lambda>s.
              sbind (call_out (ag_verify ag d obs
                \<lparr>cx_state = s, cx_task = t, cx_budget = budget, cx_iteration = it\<rparr>)) (\<lambda>decision.
              on_verdict i d obs iterations ?rest decision)))) ?Q ?E) ?E (?s1, w)" for d w
        proof (rule wp_execute_directive [where t = t], goal_cases)
          case (3 obs m w')
          then show ?case using t verdict [OF 3] by (simp add: wp_simps split: prod.splits)
        next
          case (4 e m w')
          then show ?case using wf ev2 by simp
        qed (use wf t in simp_all)
        have "\<not> in_max_steps (ct_intent t) \<le> ct_steps_taken t" by (rule False)
        then show ?thesis
          using exec wf ev1
          by (simp only: advance_loop.simps wp_sbind wp_on_self wp_get_task wp_next_tick t Some
              option.case if_False fst_conv snd_conv)
            (auto simp: wp_simps t split: prod.splits sum.splits)
      qed
    qed
  qed
qed

lemma report_fields:
  "cr_status (report t b n) = ct_status t" "cr_iterations (report t b n) = n"
  "cr_last_observation (report t b n) = ct_last_observation t"
  "cr_verification_failures (report t b n) = ct_verification_failures t"
  by (simp_all add: report_def)

lemma length_iteration_range [simp]: "length (iteration_range n) = unat n"
  by (simp add: iteration_range_def)

lemma iterations_small: "unat (iterations_for_budget b) < 2 ^ 32"
  by (cases b) simp_all

text \<open>Entering the loop: the task is marked as running.\<close>

lemma advance_enter:
  assumes wf: "cog_wf s" and t: "bt_get (cs_tasks s) i = Some t"
  defines "s1 \<equiv> s\<lparr>cs_tasks := bt_insert i (t\<lparr>ct_status := TRunning\<rparr>) (cs_tasks s)\<rparr>"
  shows "cog_wf s1" and "evolves i s s1" and "bt_get (cs_tasks s1) i = Some (t\<lparr>ct_status := TRunning\<rparr>)"
    and "cs_tick s1 = cs_tick s"
  using cog_wf_put_task [OF wf t, of "t\<lparr>ct_status := TRunning\<rparr>"]
    evolves_put_task [OF cog_wfD(8) [OF wf] t, of "t\<lparr>ct_status := TRunning\<rparr>"] stored_task(3) [OF wf t]
  by (simp_all add: s1_def task_valid_def same_request_def btm.get_ins [OF cog_wfD(8) [OF wf]])

definition advance_post ::
    "u64 \<Rightarrow> cognitive_state \<Rightarrow> reasoning_budget \<Rightarrow> cognitive_cycle_report \<Rightarrow> cognitive_state \<Rightarrow> bool" where
  "advance_post i s b rep s' \<longleftrightarrow> (\<exists>t t' n. bt_get (cs_tasks s) i = Some t \<and> bt_get (cs_tasks s') i = Some t'
      \<and> rep = report t' b n \<and> n \<le> iterations_for_budget b
      \<and> (if terminal (ct_status t) then n = 0 \<and> s' = s
         else unat (cs_tick s') = unat (cs_tick s) + unat n \<and> settled t' s'
          \<and> unat (ct_steps_taken t') \<le> unat (ct_steps_taken t) + unat n
          \<and> (ct_status t' = TRunning \<longrightarrow> n = iterations_for_budget b \<and> effort t (unat n) t')))"

lemma wp_advance:
  assumes wf: "cog_wf s"
  shows "wp (advance alnum ag i signals)
      (\<lambda>rep r. cog_wf (fst r) \<and> evolves i s (fst r)
        \<and> advance_post i s (choose_reasoning_budget signals) rep (fst r))
      (\<lambda>e r. cog_wf (fst r) \<and> evolves i s (fst r)) (s, w)"
proof (cases "bt_get (cs_tasks s) i")
  case None
  then show ?thesis using wf by (simp add: advance_def Let_def wp_simps)
next
  case (Some t)
  let ?b = "choose_reasoning_budget signals"
  let ?k = "unat (iterations_for_budget ?b)"
  show ?thesis
  proof (cases "terminal (ct_status t)")
    case True
    with Some wf show ?thesis by (auto simp: advance_def Let_def wp_simps advance_post_def)
  next
    case False
    let ?t = "t\<lparr>ct_status := TRunning\<rparr>"
    let ?s = "s\<lparr>cs_tasks := bt_insert i ?t (cs_tasks s)\<rparr>"
    note enter = advance_enter [OF wf Some]
    have "wp (advance_loop alnum ag i ?b (iteration_range (iterations_for_budget ?b)) 0)
        (\<lambda>n r'. unat (0 :: u32) \<le> unat n \<and> cycle_post i ?s ?t ?k (unat n - unat (0 :: u32)) (fst r'))
        (\<lambda>e r'. cog_wf (fst r') \<and> evolves i ?s (fst r')) (?s, w)"
      using advance_loop_ok [of 0 "iteration_range (iterations_for_budget ?b)" i alnum ag ?b]
        iterations_small [of ?b] enter unfolding loop_ok_def by simp
    then have "wp (advance_loop alnum ag i ?b (iteration_range (iterations_for_budget ?b)) 0)
        (\<lambda>n. wp (sbind (on_self (get_task i)) (\<lambda>t. sret (report t ?b n)))
          (\<lambda>rep r. cog_wf (fst r) \<and> evolves i s (fst r) \<and> advance_post i s ?b rep (fst r))
          (\<lambda>e r. cog_wf (fst r) \<and> evolves i s (fst r)))
        (\<lambda>e r. cog_wf (fst r) \<and> evolves i s (fst r)) (?s, w)"
    proof (rule wp_conseq, goal_cases)
      case (1 n r')
      then obtain t' where "cycle_post i ?s ?t ?k (unat n) (fst r')" and t': "bt_get (cs_tasks (fst r')) i = Some t'"
        by (auto simp: cycle_post_def)
      then show ?case
        using Some False evolves_trans [OF enter(2)]
        by (auto simp: wp_simps cycle_post_def advance_post_def word_le_nat_alt word_unat_eq_iff
            intro!: exI [of _ n])
    next
      case (2 e r')
      then show ?case using evolves_trans [OF enter(2)] by auto
    qed
    then show ?thesis
      using Some False by (simp add: advance_def wp_simps Let_def)
  qed
qed


section \<open>Properties of the kernel\<close>

text \<open>A state with one goal and one task of one step, and agents that complete at once.\<close>

definition sample_task :: cognitive_task where
  "sample_task = \<lparr>ct_id = 1, ct_goal_id = Some 1,
    ct_intent = \<lparr>in_objective = ''o'', in_completion_criteria = [], in_max_steps = 1\<rparr>,
    ct_graph = \<lparr>tg_actions = []\<rparr>, ct_status = TPlanned, ct_steps_taken = 0,
    ct_verification_failures = 0, ct_last_observation = None, ct_created_tick = 0,
    ct_updated_tick = 0\<rparr>"

definition sample_state :: cognitive_state where
  "sample_state = (cognitive_state_new [])\<lparr>cs_next_goal_id := 2, cs_next_task_id := 2,
    cs_goals := [(1, \<lparr>gl_id = 1, gl_objective = ''g'', gl_completion_criteria = [], gl_status = GActive,
      gl_created_tick = 0, gl_updated_tick = 0\<rparr>)],
    cs_tasks := [(1, sample_task)]\<rparr>"

definition spent_state :: cognitive_state where
  "spent_state = sample_state\<lparr>cs_tasks := [(1, sample_task\<lparr>ct_steps_taken := 1\<rparr>)]\<rparr>"

definition calm :: cognitive_signals where
  "calm = \<lparr>sg_complexity = Fin (1 / 10), sg_uncertainty = Fin (1 / 10), sg_prior_failure = False\<rparr>"

definition completing :: "unit agents" where
  "completing = \<lparr>ag_plan = \<lambda>cx w. (Inr (Complete ''ok''), w),
     ag_execute = \<lambda>d cx w. (Inr (observation_new ''x''), w),
     ag_verify = \<lambda>d ob cx w. (Accept, w)\<rparr>"

lemma sample_blanks: "\<not> blank ''g''" "\<not> blank ''o''" by code_simp+

lemma sample_state_wf: "cog_wf sample_state" "cog_wf spent_state"
  by (simp_all add: cog_wf_def table_ok_def sample_state_def spent_state_def sample_task_def
      cognitive_state_new_def bt_wf_def goal_valid_def task_valid_def sample_blanks)

theorem runtime_from_state_iff_witness: "runtime_from_state sample_state = Inr sample_state"
  using runtime_from_state_iff [of sample_state sample_state] sample_state_wf(1)
  by (simp add: sample_state_def sample_task_def cognitive_state_new_def bt_wf_def cog_wfD(5))

text \<open>
  C1: \<open>CognitiveRuntime::advance\<close> keeps the kernel invariant and stays within its task, whatever
  planner, executor and verifier do and also when one of them fails: identity, counters, deltas and
  all other tasks are as before, no goal but the task's own is touched, and the task's request is
  unchanged.
\<close>

theorem advance_stays_in_task:
  assumes "cog_wf s" and "advance alnum ag i signals (s, w) = (res, (s', w'))"
  shows "cog_wf s' \<and> evolves i s s'"
  using wp_run [OF wp_advance [OF assms(1)] assms(2)] by (auto split: sum.splits)

theorem advance_stays_in_task_witness:
  "case advance ascii_alnum completing 1 calm (sample_state, ()) of
    (res, (s', w')) \<Rightarrow> cog_wf s' \<and> evolves 1 sample_state s'"
  using advance_stays_in_task [OF sample_state_wf(1), of ascii_alnum completing 1 calm "()"]
  by (auto split: prod.splits)

text \<open>
  C25: the report of a cycle tells the truth and the cycle is bounded: the counted iterations are at
  most those of the chosen budget, the tick moved by exactly that many, at most that many steps were
  committed; a task that was closed already is not touched; any other task ends closed together
  with its goal, or is still running after the budget was used in full, and then every iteration
  committed a step or was recorded as a verification failure.
\<close>

theorem advance_report_truthful:
  assumes "cog_wf s" and "advance alnum ag i signals (s, w) = (Inr rep, (s', w'))"
  shows "\<exists>t t' n. bt_get (cs_tasks s) i = Some t \<and> bt_get (cs_tasks s') i = Some t'
      \<and> rep = report t' (choose_reasoning_budget signals) n
      \<and> n \<le> iterations_for_budget (choose_reasoning_budget signals)
      \<and> (if terminal (ct_status t) then n = 0 \<and> s' = s
         else unat (cs_tick s') = unat (cs_tick s) + unat n \<and> settled t' s'
          \<and> unat (ct_steps_taken t') \<le> unat (ct_steps_taken t) + unat n
          \<and> (ct_status t' = TRunning \<longrightarrow>
              n = iterations_for_budget (choose_reasoning_budget signals) \<and> effort t (unat n) t'))"
  using wp_run [OF wp_advance [OF assms(1)] assms(2)] by (simp add: advance_post_def)

theorem advance_report_truthful_witness:
  "\<exists>t' n. fst (advance ascii_alnum completing 1 calm (sample_state, ()))
      = Inr (report t' (choose_reasoning_budget calm) n)
    \<and> ct_status t' = TCompleted \<and> n \<le> iterations_for_budget (choose_reasoning_budget calm)"
proof -
  have run: "case advance ascii_alnum completing 1 calm (sample_state, ()) of
      (Inr rep, r) \<Rightarrow> cr_status rep = TCompleted | _ \<Rightarrow> False"
    by code_simp
  then obtain rep s' w' where adv: "advance ascii_alnum completing 1 calm (sample_state, ()) = (Inr rep, (s', w'))"
      and st: "cr_status rep = TCompleted"
    by (auto split: prod.splits sum.splits)
  from advance_report_truthful [OF sample_state_wf(1) adv] obtain t' n where
      "rep = report t' (choose_reasoning_budget calm) n"
      "n \<le> iterations_for_budget (choose_reasoning_budget calm)"
    by blast
  with adv st show ?thesis by (intro exI [of _ t'] exI [of _ n]) (simp add: report_fields)
qed

text \<open>
  Once the step budget of a task is used up, \<open>advance\<close> consults neither planner nor executor
  nor verifier (their world is unchanged, for every choice of agents); it fails the task and its
  goal without spending an iteration.
\<close>

theorem advance_exhausted:
  assumes "cog_wf s" and "bt_get (cs_tasks s) i = Some t" and "\<not> terminal (ct_status t)"
    and "ct_steps_taken t = in_max_steps (ct_intent t)"
    and "advance alnum ag i signals (s, w) = (res, (s', w'))"
  shows "w' = w \<and> cs_tick s' = cs_tick s
    \<and> (\<forall>rep. res = Inr rep \<longrightarrow> cr_status rep = TFailed \<and> cr_iterations rep = 0
        \<and> goal_closed (ct_goal_id t) GFailed s')"
proof -
  let ?b = "choose_reasoning_budget signals"
  obtain its where its: "iteration_range (iterations_for_budget ?b) = 0 # its"
    by (cases ?b) (simp_all add: iteration_range_def upt_rec)
  note enter = advance_enter [OF assms(1,2)]
  let ?s = "s\<lparr>cs_tasks := bt_insert i (t\<lparr>ct_status := TRunning\<rparr>) (cs_tasks s)\<rparr>"
  have "wp (fail_task i ''task step budget exhausted'')
      (\<lambda>_ x. cs_tick x = cs_tick s \<and> goal_closed (ct_goal_id t) GFailed x
        \<and> (\<exists>t'. bt_get (cs_tasks x) i = Some t' \<and> ct_status t' = TFailed)) (\<lambda>_ x. cs_tick x = cs_tick s) ?s"
    by (rule wp_fail_task [OF enter(1,3)]) simp_all
  then have "wp (advance alnum ag i signals)
      (\<lambda>rep r. snd r = w \<and> cs_tick (fst r) = cs_tick s \<and> goal_closed (ct_goal_id t) GFailed (fst r)
        \<and> cr_status rep = TFailed \<and> cr_iterations rep = 0)
      (\<lambda>_ r. snd r = w \<and> cs_tick (fst r) = cs_tick s) (s, w)"
    using assms(2,3,4) enter(3)
    by (simp add: advance_def Let_def its wp_simps)
      (erule wp_conseq; auto simp: report_def)
  from wp_run [OF this assms(5)] show ?thesis by (auto split: sum.splits)
qed

theorem advance_exhausted_witness:
  "case advance ascii_alnum completing 1 calm (spent_state, ()) of
    (res, (s', w')) \<Rightarrow> (\<forall>rep. res = Inr rep \<longrightarrow> cr_status rep = TFailed)"
proof -
  obtain res s' w' where adv: "advance ascii_alnum completing 1 calm (spent_state, ()) = (res, (s', w'))"
    by (cases "advance ascii_alnum completing 1 calm (spent_state, ())") auto
  have t: "bt_get (cs_tasks spent_state) 1 = Some (sample_task\<lparr>ct_steps_taken := 1\<rparr>)"
    by (simp add: spent_state_def)
  from advance_exhausted [OF sample_state_wf(2) t _ _ adv] adv show ?thesis
    by (simp add: sample_task_def terminal_def)
qed

lemma pause_external_task_keeps: "keeps cog_wf (pause_external_task i reason)"
  unfolding keeps_wp
proof (intro allI impI)
  fix s assume wf: "cog_wf s"
  have "wp (store_now kind content tags importance) (\<lambda>_. cog_wf) (\<lambda>_. cog_wf)
      (s\<lparr>cs_tick := now, cs_tasks := bt_insert i (t\<lparr>ct_status := TPaused, ct_updated_tick := now,
        ct_last_observation := Some reason\<rparr>) (cs_tasks s)\<rparr>)" (is "wp _ _ _ ?s")
    if t: "bt_get (cs_tasks s) i = Some t" for t now kind content tags importance
  proof -
    have "cog_wf ?s"
      using cog_wf_put_task [of "s\<lparr>cs_tick := now\<rparr>" i t] wf t stored_task(3) [OF wf t]
      by (simp add: task_valid_def)
    then show ?thesis by (intro wp_store_now cog_wfD(5)) simp_all
  qed
  with wf show "wp (pause_external_task i reason) (\<lambda>_. cog_wf) (\<lambda>_. cog_wf) s"
    by (auto simp: pause_external_task_def wp_simps split: option.splits)
qed

lemma activate_delta_keeps: "keeps (\<lambda>r. cog_wf (fst r)) (activate_delta i hook)"
  unfolding keeps_wp
proof (intro allI impI)
  fix r :: "cognitive_state \<times> 'a" assume wf: "cog_wf (fst r)"
  let ?s = "fst r"
  have "cog_wf (?s\<lparr>cs_deltas := bt_insert i (d\<lparr>ld_active := True\<rparr>) (cs_deltas ?s)\<rparr>)"
    if d: "bt_get (cs_deltas ?s) i = Some d" for d
    using wf table_ok_update [OF cog_wfD(6) [OF wf] d, of "d\<lparr>ld_active := True\<rparr>"]
      table_ok_get(4) [OF cog_wfD(6) [OF wf] d]
    by (simp add: cog_wf_def delta_valid_def)
  with wf show "wp (activate_delta i hook) (\<lambda>_ r. cog_wf (fst r)) (\<lambda>_ r. cog_wf (fst r)) r"
    by (auto simp: activate_delta_def wp_simps split: option.splits sum.splits prod.splits)
qed

lemma advance_keeps: "keeps (\<lambda>r. cog_wf (fst r)) (advance alnum ag i signals)"
  unfolding keeps_wp
proof (intro allI impI)
  fix r :: "cognitive_state \<times> 'a" assume "cog_wf (fst r)"
  then show "wp (advance alnum ag i signals) (\<lambda>_ r. cog_wf (fst r)) (\<lambda>_ r. cog_wf (fst r)) r"
    using wp_conseq [OF wp_advance [of "fst r" alnum ag i signals "snd r"]] by fastforce
qed

text \<open>
  Every public operation of the kernel except \<open>complete_external_task\<close> keeps the invariant,
  on success and on failure.
\<close>

theorem kernel_operations_keep:
  "keeps cog_wf (add_goal objective criteria)
    \<and> keeps cog_wf (submit_task intnt graph goal_id)
    \<and> keeps cog_wf (set_world_fact key v)
    \<and> keeps cog_wf (install_delta namespace generation payload)
    \<and> keeps cog_wf (start_external_task i)
    \<and> keeps cog_wf (pause_external_task i reason)
    \<and> keeps (\<lambda>r. cog_wf (fst r)) (activate_delta i hook)
    \<and> keeps (\<lambda>r. cog_wf (fst r)) (advance alnum ag i signals)"
  by (intro conjI add_goal_keeps submit_task_keeps set_world_fact_keeps install_delta_keeps
      start_external_task_keeps pause_external_task_keeps activate_delta_keeps advance_keeps)

text \<open>
  \<open>CognitiveState::submit_task\<close> succeeds exactly for a task with an objective, a step budget and
  a known goal while an identifier is left; it then adds one planned task under an identifier that
  was not in use and changes nothing else but the counter. A refusal changes nothing.
\<close>

theorem submit_task_result:
  assumes "cog_wf s"
  shows "case submit_task intnt graph goal_id s of
      (Inl e, s') \<Rightarrow> s' = s \<and> (blank (in_objective intnt) \<or> in_max_steps intnt = 0
        \<or> (\<exists>g. goal_id = Some g \<and> bt_get (cs_goals s) g = None) \<or> cs_next_task_id s = - 1)
    | (Inr i, s') \<Rightarrow> bt_get (cs_tasks s) i = None \<and> i \<noteq> 0
        \<and> (\<exists>t. bt_get (cs_tasks s') i = Some t \<and> ct_id t = i \<and> ct_goal_id t = goal_id
            \<and> ct_intent t = intnt \<and> ct_graph t = graph \<and> ct_status t = TPlanned \<and> ct_steps_taken t = 0)
        \<and> (\<forall>j. j \<noteq> i \<longrightarrow> bt_get (cs_tasks s') j = bt_get (cs_tasks s) j)
        \<and> s' = s\<lparr>cs_tasks := cs_tasks s', cs_next_task_id := i + 1\<rparr>"
proof -
  note tab = cog_wfD(2) [OF assms]
  have "checked_add (cs_next_task_id s) 1 = Some n \<Longrightarrow> n = cs_next_task_id s + 1" for n
    by (auto simp: checked_add_def split: if_splits)
  then show ?thesis
    using checked_add_None [of "cs_next_task_id s"] table_okD(2) [OF tab] table_fresh_get [OF tab]
    by (auto simp: submit_task_def result_simps bt_contains_def btm.get_ins [OF table_okD(1) [OF tab]]
        split: option.splits sum.splits)
qed

theorem submit_task_result_witness:
  "\<exists>s'. submit_task (intent_new ''x'') \<lparr>tg_actions = []\<rparr> (Some 1) sample_state = (Inr 2, s')
    \<and> (\<forall>j. j \<noteq> 2 \<longrightarrow> bt_get (cs_tasks s') j = bt_get (cs_tasks sample_state) j)"
proof -
  have "fst (submit_task (intent_new ''x'') \<lparr>tg_actions = []\<rparr> (Some 1) sample_state) = Inr 2"
    by code_simp
  with submit_task_result [OF sample_state_wf(1), where intnt = "intent_new ''x''"
      and graph = "\<lparr>tg_actions = []\<rparr>" and goal_id = "Some 1"]
  show ?thesis by (auto split: prod.splits sum.splits)
qed

text \<open>
  \<open>complete_external_task\<close> on a task with steps left keeps the invariant and, when it succeeds,
  completes the task and its goal and counts one step.
\<close>

theorem complete_external_task_within_budget:
  assumes "cog_wf s" and "bt_get (cs_tasks s) i = Some t" and "ct_steps_taken t < in_max_steps (ct_intent t)"
    and "complete_external_task i summary s = (res, s')"
  shows "cog_wf s' \<and> (res = Inr () \<longrightarrow>
    goal_closed (ct_goal_id t) GCompleted s'
    \<and> (\<exists>t'. bt_get (cs_tasks s') i = Some t' \<and> ct_status t' = TCompleted
        \<and> ct_steps_taken t' = saturating_add (ct_steps_taken t) 1 \<and> ct_last_observation t' = Some summary))"
proof -
  have "wp (commit_directive i (Complete summary) (observation_new summary))
      (\<lambda>_ s'. cog_wf s' \<and> goal_closed (ct_goal_id t) GCompleted s'
        \<and> (\<exists>t'. bt_get (cs_tasks s') i = Some t' \<and> ct_status t' = TCompleted
          \<and> ct_steps_taken t' = saturating_add (ct_steps_taken t) 1 \<and> ct_last_observation t' = Some summary))
      (\<lambda>_. cog_wf) (s\<lparr>cs_tick := now\<rparr>)" for now
    using assms(1-3)
    by (intro wp_commit_directive [where t = t]) (simp_all add: committed_def is_complete_def observation_new_def)
  then have "wp (complete_external_task i summary)
      (\<lambda>_ s'. cog_wf s' \<and> goal_closed (ct_goal_id t) GCompleted s'
        \<and> (\<exists>t'. bt_get (cs_tasks s') i = Some t' \<and> ct_status t' = TCompleted
          \<and> ct_steps_taken t' = saturating_add (ct_steps_taken t) 1 \<and> ct_last_observation t' = Some summary))
      (\<lambda>_. cog_wf) s"
    using assms(1) by (simp add: complete_external_task_def wp_simps split: option.splits)
  from wp_run [OF this assms(4)] show ?thesis by (auto split: sum.splits)
qed

theorem complete_external_task_within_budget_witness:
  "cog_wf (snd (complete_external_task 1 ''done'' sample_state))"
  using complete_external_task_within_budget [OF sample_state_wf(1), of 1 sample_task "''done''"]
  by (cases "complete_external_task 1 ''done'' sample_state") (simp add: sample_state_def sample_task_def)

text \<open>
  Without steps left it does not: \<open>complete_external_task\<close> checks neither the step budget nor
  whether the task is closed already, and a task that used its budget is completed with one step too
  many, so that \<open>from_state\<close> rejects the state the kernel itself produced.
\<close>

theorem complete_external_task_overruns_budget:
  "cog_wf spent_state
    \<and> fst (complete_external_task 1 ''done'' spent_state) = Inr ()
    \<and> runtime_from_state (snd (complete_external_task 1 ''done'' spent_state)) = Inl CogOverflow"
proof (intro conjI)
  show "cog_wf spent_state" by (rule sample_state_wf(2))
  show "fst (complete_external_task 1 ''done'' spent_state) = Inr ()" by code_simp
  show "runtime_from_state (snd (complete_external_task 1 ''done'' spent_state)) = Inl CogOverflow"
    by code_simp
qed

text \<open>Monotonicity of the budget: more complexity or uncertainty never buys fewer iterations.\<close>

fun f32_le :: "f32 \<Rightarrow> f32 \<Rightarrow> bool" where
  "f32_le NaN y \<longleftrightarrow> False"
| "f32_le x NaN \<longleftrightarrow> False"
| "f32_le NegInf y \<longleftrightarrow> True"
| "f32_le x PosInf \<longleftrightarrow> True"
| "f32_le (Fin x) (Fin y) \<longleftrightarrow> x \<le> y"
| "f32_le x y \<longleftrightarrow> False"

lemma f32_ge_mono: "f32_le x y \<Longrightarrow> f32_ge (f32_clamp 0 1 x) c \<Longrightarrow> f32_ge (f32_clamp 0 1 y) c"
  by (cases x; cases y) (auto split: if_splits)

text \<open>
  The reasoning budget is monotone: for signals that agree on a prior failure, more complexity
  and more uncertainty never lead to fewer iterations of the cognitive cycle.
\<close>

theorem choose_reasoning_budget_mono:
  assumes "f32_le (sg_complexity a) (sg_complexity b)" and "f32_le (sg_uncertainty a) (sg_uncertainty b)"
    and "sg_prior_failure a = sg_prior_failure b"
  shows "iterations_for_budget (choose_reasoning_budget a) \<le> iterations_for_budget (choose_reasoning_budget b)"
  using f32_ge_mono [OF assms(1)] f32_ge_mono [OF assms(2)] assms(3)
  by (auto simp: choose_reasoning_budget_def signals_normalized_def Let_def)

theorem choose_reasoning_budget_mono_witness:
  "iterations_for_budget (choose_reasoning_budget calm)
    \<le> iterations_for_budget (choose_reasoning_budget (calm\<lparr>sg_complexity := PosInf\<rparr>))
    \<and> iterations_for_budget (choose_reasoning_budget (calm\<lparr>sg_complexity := PosInf\<rparr>)) = 4"
proof (rule conjI)
  show "iterations_for_budget (choose_reasoning_budget calm)
    \<le> iterations_for_budget (choose_reasoning_budget (calm\<lparr>sg_complexity := PosInf\<rparr>))"
    using choose_reasoning_budget_mono [of calm "calm\<lparr>sg_complexity := PosInf\<rparr>"] by (simp add: calm_def)
  show "iterations_for_budget (choose_reasoning_budget (calm\<lparr>sg_complexity := PosInf\<rparr>)) = 4" by code_simp
qed

end
