(* ===== verification/Reasoning.thy ===== *)
theory Reasoning
  imports Cognition
begin

text \<open>
  The budgeted reasoning loop of \<open>crates/ntd-runtime/src/reasoning.rs\<close>: the kernel's \<open>advance\<close> with
  a planner that always asks for work, an executor that hands the work to a native probe, and a
  verifier that insists on evidence. The probe is a parameter.
\<close>

section \<open>Agents and loop\<close>

definition budget_debug :: "reasoning_budget \<Rightarrow> string" where
  "budget_debug b = (case b of Reflex \<Rightarrow> ''Reflex'' | Standard \<Rightarrow> ''Standard'' | Deep \<Rightarrow> ''Deep''
    | Recovery \<Rightarrow> ''Recovery'')"

definition budgeted_plan :: "cognitive_context \<Rightarrow> 'w \<Rightarrow> (string + cognitive_directive) \<times> 'w" where
  "budgeted_plan cx w = (Inr (Work (''native reasoning probe iteration '' @ show_word (cx_iteration cx)
    @ '' budget '' @ budget_debug (cx_budget cx))), w)"

definition native_execute ::
    "(cognitive_context \<Rightarrow> 'w \<Rightarrow> (string + cognitive_observation) \<times> 'w)
      \<Rightarrow> cognitive_directive \<Rightarrow> cognitive_context \<Rightarrow> 'w \<Rightarrow> (string + cognitive_observation) \<times> 'w" where
  "native_execute probe directive cx w = (case directive of
      Work _ \<Rightarrow> probe cx w
    | _ \<Rightarrow> (Inl ''budgeted native reasoning executor only accepts Work directives'', w))"

definition native_verify ::
    "cognitive_directive \<Rightarrow> cognitive_observation \<Rightarrow> cognitive_context \<Rightarrow> 'w \<Rightarrow> verification_decision \<times> 'w" where
  "native_verify directive observation cx w =
    ((case directive of
        Work _ \<Rightarrow>
          if blank (ob_summary observation) \<or> ob_evidence observation = []
          then Reject ''native reasoning probe returned unverified evidence'' else Accept
      | _ \<Rightarrow> Reject ''unexpected directive in native reasoning loop''), w)"

definition native_agents ::
    "(cognitive_context \<Rightarrow> 'w \<Rightarrow> (string + cognitive_observation) \<times> 'w) \<Rightarrow> 'w agents" where
  "native_agents probe =
    \<lparr>ag_plan = budgeted_plan, ag_execute = native_execute probe, ag_verify = native_verify\<rparr>"

definition run_budgeted_reasoning_cycle ::
    "(u8 list \<Rightarrow> bool) \<Rightarrow> (cognitive_context \<Rightarrow> 'w \<Rightarrow> (string + cognitive_observation) \<times> 'w)
      \<Rightarrow> u64 \<Rightarrow> cognitive_signals \<Rightarrow> ('w, cognitive_cycle_report) run_op" where
  "run_budgeted_reasoning_cycle alnum probe task_id signals =
    advance alnum (native_agents probe) task_id signals"

section \<open>What the loop accepts\<close>

text \<open>A task that a native cycle of \<open>k\<close> iterations may end with.\<close>

definition native_end :: "cognitive_task \<Rightarrow> nat \<Rightarrow> cognitive_task \<Rightarrow> bool" where
  "native_end t k t' \<longleftrightarrow> ct_verification_failures t' = ct_verification_failures t
    \<and> (ct_status t' = TFailed
      \<or> ct_status t' = TRunning \<and> unat (ct_steps_taken t') = unat (ct_steps_taken t) + k
        \<and> (k \<noteq> 0 \<longrightarrow> (\<exists>x. ct_last_observation t' = Some x \<and> \<not> blank x)))"

definition native_loop_ok :: "u64 \<Rightarrow> nat \<Rightarrow> ('w, u32) run_op \<Rightarrow> bool" where
  "native_loop_ok i k m \<longleftrightarrow>
    (\<forall>r t. cog_wf (fst r) \<longrightarrow> bt_get (cs_tasks (fst r)) i = Some t \<longrightarrow> ct_status t = TRunning \<longrightarrow>
      wp m (\<lambda>n r'. \<exists>t'. bt_get (cs_tasks (fst r')) i = Some t' \<and> native_end t k t') (\<lambda>_ _. True) r)"

lemma native_end_step:
  assumes "native_end t1 k t'" and "ct_verification_failures t1 = ct_verification_failures t"
    and "unat (ct_steps_taken t1) = unat (ct_steps_taken t) + 1"
    and "\<exists>x. ct_last_observation t1 = Some x \<and> \<not> blank x"
    and "k = 0 \<Longrightarrow> t' = t1"
  shows "native_end t (Suc k) t'"
  using assms by (cases k) (auto simp: native_end_def)

lemma native_accept:
  assumes loop: "native_loop_ok i k continue" and stop: "k = 0 \<Longrightarrow> \<exists>n. continue = sret n"
    and wf: "cog_wf (fst r)" and t: "bt_get (cs_tasks (fst r)) i = Some t" and run: "ct_status t = TRunning"
    and steps: "ct_steps_taken t < in_max_steps (ct_intent t)"
    and obs: "\<not> blank (ob_summary obs)"
  shows "wp (on_verdict i (Work x) obs iterations continue Accept)
      (\<lambda>n r'. \<exists>t'. bt_get (cs_tasks (fst r')) i = Some t' \<and> native_end t (Suc k) t') (\<lambda>_ _. True) r"
  unfolding on_verdict_def verification_decision.case wp_sbind wp_on_self cognitive_directive.case
proof (rule wp_commit_directive [OF wf t steps], goal_cases)
  case (1 s')
  let ?t = "committed (Work x) (ob_summary obs) (cs_tick (fst r)) t"
  have less: "unat (ct_steps_taken t) < unat (in_max_steps (ct_intent t))"
    using steps by (simp add: word_less_nat_alt)
  moreover have "unat (in_max_steps (ct_intent t)) < 2 ^ 32"
    using unsigned_less [of "in_max_steps (ct_intent t)", where ?'a = nat] by simp
  ultimately have one: "unat (saturating_add (ct_steps_taken t) 1) = unat (ct_steps_taken t) + 1"
    by (intro saturating_step_exact) simp
  have t1: "ct_verification_failures ?t = ct_verification_failures t"
    "unat (ct_steps_taken ?t) = unat (ct_steps_taken t) + 1" "ct_status ?t = TRunning"
    "\<exists>y. ct_last_observation ?t = Some y \<and> \<not> blank y"
    using one obs run by (simp_all add: committed_def is_complete_def)
  have "wp continue (\<lambda>n r'. \<exists>t'. bt_get (cs_tasks (fst r')) i = Some t' \<and> native_end ?t k t') (\<lambda>_ _. True) (s', snd r)"
    using loop 1(1,4) t1(3) unfolding native_loop_ok_def by fastforce
  then show ?case
  proof (cases "k = 0")
    case True
    with stop obtain n where "continue = sret n" by blast
    moreover have "native_end t (Suc k) ?t"
      using t1 True by (auto simp: native_end_def)
    ultimately show ?thesis using 1(4) by (auto simp: wp_simps)
  next
    case False
    with \<open>wp continue _ _ _\<close> show ?thesis
      by (elim wp_conseq) (use t1 native_end_step in \<open>blast+\<close>)
  qed
qed simp

lemma native_agents_simps:
  "ag_plan (native_agents probe) = budgeted_plan"
  "ag_execute (native_agents probe) = native_execute probe"
  "ag_verify (native_agents probe) = native_verify"
  by (simp_all add: native_agents_def)

lemma native_loop:
  "native_loop_ok i (length its) (advance_loop alnum (native_agents probe) i budget its iterations)"
proof (induction its arbitrary: iterations)
  case Nil
  show ?case by (auto simp: native_loop_ok_def wp_simps native_end_def)
next
  case (Cons it its)
  let ?rest = "advance_loop alnum (native_agents probe) i budget its (saturating_add iterations 1)"
  show ?case
    unfolding native_loop_ok_def
  proof (intro allI impI)
    fix r :: "cognitive_state \<times> 'a" and t
    let ?Q = "\<lambda>n r'. \<exists>t'. bt_get (cs_tasks (fst r')) i = Some t' \<and> native_end t (length (it # its)) t'"
    assume wf: "cog_wf (fst r)" and t: "bt_get (cs_tasks (fst r)) i = Some t" and run: "ct_status t = TRunning"
    have fail: "wp (fail_task i reason) (\<lambda>a s. \<exists>t'. bt_get (cs_tasks s) i = Some t' \<and> native_end t k t')
        (\<lambda>_ _. True) s" if "cog_wf s" "bt_get (cs_tasks s) i = Some t" for s k reason
      by (rule wp_fail_task [OF that]) (auto simp: native_end_def)
    show "wp (advance_loop alnum (native_agents probe) i budget (it # its) iterations) ?Q (\<lambda>_ _. True) r"
    proof (cases "in_max_steps (ct_intent t) \<le> ct_steps_taken t")
      case True
      then show ?thesis
        using fail [OF wf t] by (simp only: advance_loop.simps wp_simps t option.case if_True fst_conv snd_conv)
    next
      case False
      have verdict: "wp (on_verdict i (Work x) obs iterations ?rest decision) ?Q (\<lambda>_ _. True) r'"
        if "native_verify (Work x) obs cx w = (decision, w')" "cog_wf (fst r')"
          "bt_get (cs_tasks (fst r')) i = Some t" for x obs cx and w w' :: 'a and decision r'
      proof (cases "blank (ob_summary obs) \<or> ob_evidence obs = []")
        case True
        then have "decision = Reject ''native reasoning probe returned unverified evidence''"
          using that(1) by (simp add: native_verify_def)
        then show ?thesis
          using fail [OF that(2,3)] by (simp only: on_verdict_def verification_decision.case wp_simps fst_conv)
      next
        case no: False
        then have "decision = Accept" using that(1) by (simp add: native_verify_def)
        moreover have "length its = 0 \<Longrightarrow> \<exists>n. ?rest = sret n" by auto
        moreover have "ct_steps_taken t < in_max_steps (ct_intent t)" using False by simp
        ultimately show ?thesis
          using native_accept [OF Cons.IH [of "saturating_add iterations 1"] _ that(2,3) run] no by simp
      qed
      show ?thesis
        using False wf
        by (simp add: wp_simps t native_agents_simps budgeted_plan_def execute_directive_def native_execute_def
            split: option.splits)
          (auto split: prod.splits sum.splits intro!: verdict [simplified] simp: t)
    qed
  qed
qed

text \<open>
  A native reasoning cycle never completes a task and never accepts without evidence: on a task
  that was open it ends with the task failed, or with the task still running after every iteration
  of the budget was accepted, each one counted as a step, the last observation not blank. Retries
  do not occur.
\<close>

theorem run_budgeted_reasoning_cycle_evidence:
  assumes "cog_wf s" and "bt_get (cs_tasks s) i = Some t" and "\<not> terminal (ct_status t)"
    and "run_budgeted_reasoning_cycle alnum probe i signals (s, w) = (Inr rep, (s', w'))"
  shows "cr_verification_failures rep = ct_verification_failures t
    \<and> (cr_status rep = TFailed
      \<or> cr_status rep = TRunning
        \<and> (\<exists>x. cr_last_observation rep = Some x \<and> \<not> blank x)
        \<and> (\<exists>t'. bt_get (cs_tasks s') i = Some t' \<and> unat (ct_steps_taken t') =
            unat (ct_steps_taken t) + unat (iterations_for_budget (choose_reasoning_budget signals))))"
proof -
  let ?b = "choose_reasoning_budget signals"
  let ?t = "t\<lparr>ct_status := TRunning\<rparr>"
  let ?s = "s\<lparr>cs_tasks := bt_insert i ?t (cs_tasks s)\<rparr>"
  let ?k = "unat (iterations_for_budget ?b)"
  let ?P = "\<lambda>rep r. \<exists>t' n. bt_get (cs_tasks (fst r)) i = Some t' \<and> rep = report t' ?b n \<and> native_end ?t ?k t'"
  have k: "?k \<noteq> 0" by (cases ?b) simp_all
  have "wp (advance_loop alnum (native_agents probe) i ?b (iteration_range (iterations_for_budget ?b)) 0)
      (\<lambda>n r'. \<exists>t'. bt_get (cs_tasks (fst r')) i = Some t' \<and> native_end ?t ?k t') (\<lambda>_ _. True) (?s, w)"
    using native_loop [of i "iteration_range (iterations_for_budget ?b)" alnum probe ?b 0]
      advance_enter [OF assms(1,2)] unfolding native_loop_ok_def by simp
  then have "wp (advance_loop alnum (native_agents probe) i ?b (iteration_range (iterations_for_budget ?b)) 0)
      (\<lambda>n. wp (sbind (on_self (get_task i)) (\<lambda>t. sret (report t ?b n))) ?P (\<lambda>_ _. True)) (\<lambda>_ _. True) (?s, w)"
    by (rule wp_conseq) (auto simp: wp_simps)
  then have "wp (run_budgeted_reasoning_cycle alnum probe i signals) ?P (\<lambda>_ _. True) (s, w)"
    using assms(2,3) by (simp add: run_budgeted_reasoning_cycle_def advance_def wp_simps Let_def)
  from wp_run [OF this assms(4)] k show ?thesis
    by (auto simp: native_end_def report_fields)
qed

definition evident :: "cognitive_context \<Rightarrow> unit \<Rightarrow> (string + cognitive_observation) \<times> unit" where
  "evident cx w = (Inr \<lparr>ob_summary = ''o'', ob_evidence = [''e'']\<rparr>, w)"

theorem run_budgeted_reasoning_cycle_evidence_witness:
  "\<exists>rep r. run_budgeted_reasoning_cycle ascii_alnum evident 1 calm (sample_state, ()) = (Inr rep, r)
    \<and> cr_status rep = TRunning \<and> (\<exists>x. cr_last_observation rep = Some x \<and> \<not> blank x)"
proof -
  have "case run_budgeted_reasoning_cycle ascii_alnum evident 1 calm (sample_state, ()) of
      (Inr rep, r) \<Rightarrow> cr_status rep = TRunning | _ \<Rightarrow> False"
    by code_simp
  then obtain rep s' w' where
      run: "run_budgeted_reasoning_cycle ascii_alnum evident 1 calm (sample_state, ()) = (Inr rep, (s', w'))"
      and st: "cr_status rep = TRunning"
    by (auto split: prod.splits sum.splits)
  have t: "bt_get (cs_tasks sample_state) 1 = Some sample_task" by (simp add: sample_state_def)
  have "\<not> terminal (ct_status sample_task)" by (simp add: sample_task_def terminal_def)
  from run_budgeted_reasoning_cycle_evidence [OF sample_state_wf(1) t this run] run st show ?thesis by simp
qed

end
