(* ===== verification/Capability.thy ===== *)
theory Capability
  imports NTD_Core Rust_BTreeMap
begin

text \<open>
  The capability model of \<open>crates/ntd-runtime/src/capability.rs\<close>: domains, authority scopes and
  grants, capability descriptors and their normal form, typed actions and their validation, and the
  registry that ties them together.
\<close>

section \<open>Data\<close>

datatype capability_domain =
  DomWeb | DomBrowser | DomFile | DomDevice | DomApp | DomCustom | DomPc

type_synonym authority_scope = string

record authority_grant =
  ag_scopes :: "authority_scope set"
  ag_allow_external_write :: bool
  ag_allow_irreversible :: bool

record capability_descriptor =
  cd_id :: capability_id
  cd_version :: u32
  cd_domain :: capability_domain
  cd_side_effect :: side_effect_class
  cd_verification_required :: bool
  cd_rollback_supported :: bool
  cd_resumable :: bool
  cd_required_scopes :: "authority_scope list"

datatype typed_action =
  WebSearch string u16
| WebFetch string
| ArtifactDownload string string
| ArtifactUpload string string
| BrowserObserve string
| BrowserInteract string string "string option"
| FileRead string
| FileWrite string "u8 list"
| DeviceObserve string
| DeviceInteract string string "string option"
| AppAction string string "u8 list"
| PcObserve string string
| PcExecute string string "string list" "string option"
| PcArtifactRead string string
| PcArtifactWrite string string "u8 list"
| CustomAction string "u8 list"

datatype action_value =
  NoValue
| TextValue string
| BytesValue "u8 list"
| TextList "string list"
| Fields "(string, string) btmap"

record action_output =
  ao_summary :: string
  ao_value :: action_value
  ao_evidence :: "string list"

datatype capability_error =
  EmptyCapabilityId
| InvalidVersion
| EmptyScope
| InvalidDomain u8
| InvalidAction
| DomainMismatch capability_id capability_domain capability_domain
| DuplicateCapability capability_id
| MissingCapability capability_id
| MissingAuthority authority_scope
| ExternalWriteNotAuthorized
| IrreversibleNotAuthorized
| IrreversibleRollback

text \<open>The registry stores descriptors under their identifier.\<close>

type_synonym capability_registry = "(string, capability_descriptor) btmap"

section \<open>Operations\<close>

definition domain_try_from :: "u8 \<Rightarrow> capability_error + capability_domain" where
  "domain_try_from v =
    (if v = 1 then Inr DomWeb else if v = 2 then Inr DomBrowser else if v = 3 then Inr DomFile
     else if v = 4 then Inr DomDevice else if v = 5 then Inr DomApp else if v = 6 then Inr DomCustom
     else if v = 7 then Inr DomPc else Inl (InvalidDomain v))"

definition authority_scope_new :: "string \<Rightarrow> capability_error + authority_scope" where
  "authority_scope_new value =
    (let v = trim value in if v = [] then Inl EmptyScope else Inr v)"

definition authority_grant_new :: authority_grant where
  "authority_grant_new =
    \<lparr>ag_scopes = {}, ag_allow_external_write = False, ag_allow_irreversible = False\<rparr>"

definition with_scope :: "authority_scope \<Rightarrow> authority_grant \<Rightarrow> authority_grant" where
  "with_scope s g = g\<lparr>ag_scopes := insert s (ag_scopes g)\<rparr>"

fun require_scopes :: "authority_scope set \<Rightarrow> authority_scope list \<Rightarrow> capability_error + unit" where
  "require_scopes granted [] = Inr ()"
| "require_scopes granted (r # rs) =
    (if r \<in> granted then require_scopes granted rs else Inl (MissingAuthority r))"

definition permits :: "authority_grant \<Rightarrow> capability_descriptor \<Rightarrow> capability_error + unit" where
  "permits g d = rbind (require_scopes (ag_scopes g) (cd_required_scopes d)) (\<lambda>_.
    case cd_side_effect d of
      ReadOnly \<Rightarrow> Inr ()
    | Reversible \<Rightarrow> Inr ()
    | ExternalWrite \<Rightarrow>
        (if ag_allow_external_write g then Inr () else Inl ExternalWriteNotAuthorized)
    | Irreversible \<Rightarrow>
        (if ag_allow_irreversible g then Inr () else Inl IrreversibleNotAuthorized))"

definition capability_descriptor_new ::
    "capability_id \<Rightarrow> u32 \<Rightarrow> capability_domain \<Rightarrow> side_effect_class
      \<Rightarrow> capability_error + capability_descriptor" where
  "capability_descriptor_new i version dmn se =
    (if blank i then Inl EmptyCapabilityId
     else if version = 0 then Inl InvalidVersion
     else Inr \<lparr>cd_id = i, cd_version = version, cd_domain = dmn, cd_side_effect = se,
       cd_verification_required = True, cd_rollback_supported = False, cd_resumable = False,
       cd_required_scopes = []\<rparr>)"

text \<open>
  The loop of \<open>normalize\<close> over \<open>&mut self.required_scopes\<close>: scopes are trimmed in place up to the
  first empty one.
\<close>

fun normalize_scopes :: "(authority_scope list, capability_error, unit) op" where
  "normalize_scopes [] = (Inr (), [])"
| "normalize_scopes (s # ss) =
    (let t = trim s in
     if t = [] then (Inl EmptyScope, t # ss)
     else (case normalize_scopes ss of (r, ss') \<Rightarrow> (r, t # ss')))"

definition normalize :: "(capability_descriptor, capability_error, unit) op" where
  "normalize =
    sbind (smodify (\<lambda>d. d\<lparr>cd_id := trim (cd_id d)\<rparr>)) (\<lambda>_.
    sbind (sget cd_id) (\<lambda>i. if i = [] then sfail EmptyCapabilityId else
    sbind (sget cd_version) (\<lambda>v. if v = 0 then sfail InvalidVersion else
    sbind (sfield cd_required_scopes (\<lambda>ss d. d\<lparr>cd_required_scopes := ss\<rparr>) id normalize_scopes) (\<lambda>_.
    sbind (smodify (\<lambda>d. d\<lparr>cd_required_scopes := sort (cd_required_scopes d)\<rparr>)) (\<lambda>_.
    sbind (smodify (\<lambda>d. d\<lparr>cd_required_scopes := remdups_adj (cd_required_scopes d)\<rparr>)) (\<lambda>_.
    sbind (sget id) (\<lambda>d.
    if cd_side_effect d = Irreversible \<and> cd_rollback_supported d then sfail IrreversibleRollback
    else sret ())))))))"

definition nonempty :: "string \<Rightarrow> capability_error + unit" where
  "nonempty value = (if blank value then Inl InvalidAction else Inr ())"

fun action_domain :: "typed_action \<Rightarrow> capability_domain" where
  "action_domain (WebSearch _ _) = DomWeb"
| "action_domain (WebFetch _) = DomWeb"
| "action_domain (ArtifactDownload _ _) = DomWeb"
| "action_domain (ArtifactUpload _ _) = DomWeb"
| "action_domain (BrowserObserve _) = DomBrowser"
| "action_domain (BrowserInteract _ _ _) = DomBrowser"
| "action_domain (FileRead _) = DomFile"
| "action_domain (FileWrite _ _) = DomFile"
| "action_domain (DeviceObserve _) = DomDevice"
| "action_domain (DeviceInteract _ _ _) = DomDevice"
| "action_domain (AppAction _ _ _) = DomApp"
| "action_domain (PcObserve _ _) = DomPc"
| "action_domain (PcExecute _ _ _ _) = DomPc"
| "action_domain (PcArtifactRead _ _) = DomPc"
| "action_domain (PcArtifactWrite _ _ _) = DomPc"
| "action_domain (CustomAction _ _) = DomCustom"

fun action_validate :: "typed_action \<Rightarrow> capability_error + unit" where
  "action_validate (WebSearch query max_results) =
    rbind (nonempty query) (\<lambda>_. if max_results = 0 then Inl InvalidAction else Inr ())"
| "action_validate (WebFetch url) = nonempty url"
| "action_validate (ArtifactDownload url path) = rbind (nonempty url) (\<lambda>_. nonempty path)"
| "action_validate (ArtifactUpload url path) = rbind (nonempty url) (\<lambda>_. nonempty path)"
| "action_validate (BrowserObserve target) = nonempty target"
| "action_validate (BrowserInteract target operation _) =
    rbind (nonempty target) (\<lambda>_. nonempty operation)"
| "action_validate (FileRead path) = nonempty path"
| "action_validate (FileWrite path _) = nonempty path"
| "action_validate (DeviceObserve surface) = nonempty surface"
| "action_validate (DeviceInteract surface operation _) =
    rbind (nonempty surface) (\<lambda>_. nonempty operation)"
| "action_validate (AppAction app action _) = rbind (nonempty app) (\<lambda>_. nonempty action)"
| "action_validate (PcObserve peer surface) = rbind (nonempty peer) (\<lambda>_. nonempty surface)"
| "action_validate (PcExecute peer program _ working_dir) =
    rbind (nonempty peer) (\<lambda>_. rbind (nonempty program) (\<lambda>_.
      case working_dir of None \<Rightarrow> Inr () | Some d \<Rightarrow> nonempty d))"
| "action_validate (PcArtifactRead peer path) = rbind (nonempty peer) (\<lambda>_. nonempty path)"
| "action_validate (PcArtifactWrite peer path _) = rbind (nonempty peer) (\<lambda>_. nonempty path)"
| "action_validate (CustomAction type_name _) = nonempty type_name"

definition action_output_text :: "string \<Rightarrow> string \<Rightarrow> action_output" where
  "action_output_text summary value =
    \<lparr>ao_summary = summary, ao_value = TextValue value, ao_evidence = []\<rparr>"

definition registry_new :: capability_registry where
  "registry_new = []"

text \<open>\<open>register\<close> owns its descriptor: what \<open>normalize\<close> leaves in it after an error is dropped.\<close>

definition register ::
    "capability_descriptor \<Rightarrow> (capability_registry, capability_error, unit) op" where
  "register d0 = (case normalize d0 of
      (Inl e, _) \<Rightarrow> sfail e
    | (Inr _, d) \<Rightarrow>
        sbind (sget (\<lambda>r. bt_contains r (cd_id d))) (\<lambda>dup.
        if dup then sfail (DuplicateCapability (cd_id d))
        else smodify (bt_insert (cd_id d) d)))"

definition registry_descriptor ::
    "capability_registry \<Rightarrow> capability_id \<Rightarrow> capability_error + capability_descriptor" where
  "registry_descriptor r i = ok_or (MissingCapability i) (bt_get r i)"

definition validate_action ::
    "capability_registry \<Rightarrow> capability_id \<Rightarrow> typed_action \<Rightarrow> capability_error + capability_descriptor"
  where
  "validate_action r i a =
    rbind (action_validate a) (\<lambda>_.
    rbind (registry_descriptor r i) (\<lambda>d.
    if cd_domain d \<noteq> action_domain a
    then Inl (DomainMismatch i (cd_domain d) (action_domain a))
    else Inr d))"

section \<open>Authority\<close>

lemma require_scopes_Inr: "require_scopes granted rs = Inr () \<longleftrightarrow> set rs \<subseteq> granted"
  by (induction rs) auto

fun effect_allowed :: "authority_grant \<Rightarrow> side_effect_class \<Rightarrow> bool" where
  "effect_allowed g ReadOnly \<longleftrightarrow> True"
| "effect_allowed g Reversible \<longleftrightarrow> True"
| "effect_allowed g ExternalWrite \<longleftrightarrow> ag_allow_external_write g"
| "effect_allowed g Irreversible \<longleftrightarrow> ag_allow_irreversible g"

text \<open>
  \<open>AuthorityGrant::permits\<close> succeeds exactly when every scope the descriptor requires has been
  granted and its class of side effect is allowed; reading and reversible effects need no flag,
  external writes and irreversible effects each need their own.
\<close>

theorem permits_iff:
  "permits g d = Inr () \<longleftrightarrow>
    set (cd_required_scopes d) \<subseteq> ag_scopes g \<and> effect_allowed g (cd_side_effect d)"
  by (cases "cd_side_effect d") (auto simp: permits_def require_scopes_Inr)

section \<open>The normal form of a descriptor\<close>

definition descriptor_normal :: "capability_descriptor \<Rightarrow> bool" where
  "descriptor_normal d \<longleftrightarrow>
    cd_id d \<noteq> [] \<and> trim (cd_id d) = cd_id d \<and> cd_version d \<noteq> 0
    \<and> sorted_wrt (<) (cd_required_scopes d)
    \<and> (\<forall>s \<in> set (cd_required_scopes d). s \<noteq> [] \<and> trim s = s)
    \<and> \<not> (cd_side_effect d = Irreversible \<and> cd_rollback_supported d)"

lemma normalize_scopes_ok:
  "(\<forall>s \<in> set ss. trim s \<noteq> []) \<Longrightarrow> normalize_scopes ss = (Inr (), map trim ss)"
  by (induction ss) (auto simp: Let_def)

lemma normalize_scopes_bad:
  "\<not> (\<forall>s \<in> set ss. trim s \<noteq> []) \<Longrightarrow> fst (normalize_scopes ss) = Inl EmptyScope"
proof (induction ss)
  case Nil
  then show ?case by simp
next
  case (Cons s ss)
  show ?case
  proof (cases "trim s = []")
    case False
    with Cons show ?thesis by (cases "normalize_scopes ss") (auto simp: Let_def)
  qed (simp add: Let_def)
qed

lemma normalize_Inr:
  "normalize d = (Inr (), d') \<longleftrightarrow>
    trim (cd_id d) \<noteq> [] \<and> cd_version d \<noteq> 0 \<and> (\<forall>s \<in> set (cd_required_scopes d). trim s \<noteq> [])
    \<and> \<not> (cd_side_effect d = Irreversible \<and> cd_rollback_supported d)
    \<and> d' = d\<lparr>cd_id := trim (cd_id d),
        cd_required_scopes := remdups_adj (sort (map trim (cd_required_scopes d)))\<rparr>"
proof (cases "\<forall>s \<in> set (cd_required_scopes d). trim s \<noteq> []")
  case True
  from normalize_scopes_ok [OF this] True show ?thesis
    by (auto simp: normalize_def result_simps)
next
  case False
  from normalize_scopes_bad [OF this] False show ?thesis
    by (auto simp: normalize_def result_simps)
qed

lemma normalize_normal: "normalize d = (Inr (), d') \<Longrightarrow> descriptor_normal d'"
  by (auto simp: normalize_Inr descriptor_normal_def sorted_remdups_adj_strict)

lemma normalize_of_normal: "descriptor_normal d \<Longrightarrow> normalize d = (Inr (), d)"
proof -
  assume d: "descriptor_normal d"
  then have "map trim (cd_required_scopes d) = cd_required_scopes d"
    by (auto simp: descriptor_normal_def intro: map_idI)
  with d show ?thesis
    by (auto simp: normalize_Inr descriptor_normal_def remdups_adj_sort_strict)
qed

text \<open>
  \<open>CapabilityDescriptor::normalize\<close> puts a descriptor into normal form (trimmed identifier and
  scopes, scopes strictly sorted, no irreversible capability that claims rollback), keeps the set of
  trimmed scopes, and is idempotent.
\<close>

theorem normalize_canonical:
  assumes "normalize d = (Inr (), d')"
  shows "descriptor_normal d' \<and> set (cd_required_scopes d') = trim ` set (cd_required_scopes d)
    \<and> normalize d' = (Inr (), d')"
proof -
  from assms have n: "descriptor_normal d'" by (rule normalize_normal)
  moreover have "set (cd_required_scopes d') = trim ` set (cd_required_scopes d)"
    using assms by (auto simp: normalize_Inr)
  ultimately show ?thesis using normalize_of_normal [OF n] by simp
qed

text \<open>A descriptor as the tests of the crate build it, with a scope listed twice.\<close>

definition sample_descriptor :: capability_descriptor where
  "sample_descriptor = \<lparr>cd_id = '' web '', cd_version = 1, cd_domain = DomWeb, cd_side_effect = ReadOnly,
     cd_verification_required = True, cd_rollback_supported = False, cd_resumable = True,
     cd_required_scopes = [''net'', ''disk'', ''net '']\<rparr>"

definition sample_normal :: capability_descriptor where
  "sample_normal = sample_descriptor\<lparr>cd_id := ''web'', cd_required_scopes := [''disk'', ''net'']\<rparr>"

theorem normalize_canonical_witness:
  "descriptor_normal sample_normal
    \<and> set (cd_required_scopes sample_normal) = trim ` set (cd_required_scopes sample_descriptor)
    \<and> normalize sample_normal = (Inr (), sample_normal)"
  by (rule normalize_canonical) code_simp

section \<open>The registry\<close>

definition registry_wf :: "capability_registry \<Rightarrow> bool" where
  "registry_wf r \<longleftrightarrow> bt_wf r \<and> (\<forall>(k, d) \<in> set r. k = cd_id d \<and> descriptor_normal d)"

lemma registry_wf_new: "registry_wf registry_new"
  by (simp add: registry_wf_def registry_new_def)

lemma registry_wf_get:
  assumes "registry_wf r" and "bt_get r i = Some d"
  shows "cd_id d = i" "descriptor_normal d"
  using assms map_of_SomeD [OF assms(2)] by (auto simp: registry_wf_def)

lemma registry_wf_insert:
  "registry_wf r \<Longrightarrow> descriptor_normal d \<Longrightarrow> registry_wf (bt_insert (cd_id d) d r)"
  using set_bt_insert [of "cd_id d" d r] by (fastforce simp: registry_wf_def)

lemma register_result:
  "register d r =
    (case normalize d of
      (Inl e, _) \<Rightarrow> (Inl e, r)
    | (Inr _, d') \<Rightarrow>
        if bt_contains r (cd_id d') then (Inl (DuplicateCapability (cd_id d')), r)
        else (Inr (), bt_insert (cd_id d') d' r))"
  by (auto simp: register_def result_simps split: prod.splits sum.splits)

text \<open>
  \<open>CapabilityRegistry::register\<close> keeps the registry well formed (every descriptor in normal
  form under its own identifier), never replaces a registered capability, and leaves the registry
  as it was when it fails; on success exactly the new capability is added.
\<close>

theorem register_keeps_registry:
  assumes wf: "registry_wf r" and reg: "register d r = (res, r')"
  shows "registry_wf r' \<and>
    (case res of
      Inl _ \<Rightarrow> r' = r
    | Inr _ \<Rightarrow> (\<exists>d'. normalize d = (Inr (), d') \<and> bt_get r (cd_id d') = None
        \<and> (\<forall>i. bt_get r' i = (if i = cd_id d' then Some d' else bt_get r i))))"
proof -
  obtain n d' where n: "normalize d = (n, d')" by (cases "normalize d")
  show ?thesis
  proof (cases "\<exists>u. n = Inr u \<and> \<not> bt_contains r (cd_id d')")
    case True
    then have u: "n = Inr ()" and fresh: "bt_get r (cd_id d') = None"
      by (auto simp: bt_contains_def)
    with reg n have res: "res = Inr ()" and r': "r' = bt_insert (cd_id d') d' r"
      by (auto simp: register_result bt_contains_def)
    have "descriptor_normal d'" using n u by (simp add: normalize_normal)
    then have "registry_wf r'" unfolding r' by (rule registry_wf_insert [OF wf])
    moreover have "bt_get r' i = (if i = cd_id d' then Some d' else bt_get r i)" for i
      unfolding r' using wf by (intro btm.get_ins) (simp add: registry_wf_def)
    ultimately show ?thesis using res n u fresh by auto
  next
    case False
    with reg n have "r' = r \<and> (\<exists>e. res = Inl e)"
      by (cases n) (auto simp: register_result split: if_splits)
    with wf show ?thesis by auto
  qed
qed

theorem register_keeps_registry_witness:
  "registry_wf [(''web'', sample_normal)] \<and>
    (\<exists>d'. normalize sample_descriptor = (Inr (), d') \<and> bt_get registry_new (cd_id d') = None
      \<and> (\<forall>i. bt_get [(''web'', sample_normal)] i = (if i = cd_id d' then Some d' else bt_get registry_new i)))"
proof -
  have "register sample_descriptor registry_new = (Inr (), [(''web'', sample_normal)])" by code_simp
  from register_keeps_registry [OF registry_wf_new this] show ?thesis by simp
qed

text \<open>
  \<open>CapabilityRegistry::validate_action\<close> hands out a descriptor exactly when the action itself is
  valid, the capability is registered and the action belongs to its domain.
\<close>

theorem validate_action_iff:
  "validate_action r i a = Inr d \<longleftrightarrow>
    action_validate a = Inr () \<and> bt_get r i = Some d \<and> cd_domain d = action_domain a"
  by (auto simp: validate_action_def registry_descriptor_def)

end
