(* ===== verification/Action_Fabric.thy ===== *)
theory Action_Fabric
  imports Capability Cognition
begin

text \<open>
  The action fabric of \<open>crates/ntd-runtime/src/action_fabric.rs\<close>: plans of typed actions, prepared
  from a task graph, executed one action at a time under an authority grant, verified, suspended,
  retried, committed and rolled back.

  Capability adapters and the action verifier are trait objects supplied by the caller: arbitrary
  functions over a world \<open>'w\<close> of their own. The fabric and that world are threaded together, so a
  statement about the world says which calls were made.
\<close>

section \<open>Data\<close>

datatype action_status = APrepared | ARunning | ASuspended | ARetryable | ACommitted | ARolledBack | AFailed

datatype action_plan_status = PReady | PSuspended | PCompleted | PFailed | PRolledBack

type_synonym action_id = u64
type_synonym action_plan_id = u64

record planned_action =
  pa_id :: action_id
  pa_node_id :: u32
  pa_capability :: capability_id
  pa_capability_version :: u32
  pa_side_effect :: side_effect_class
  pa_verification_required :: bool
  pa_action :: typed_action
  pa_status :: action_status
  pa_attempts :: u32
  pa_output :: "action_output option"
  pa_resume_token :: "u8 list option"
  pa_rollback_token :: "u8 list option"
  pa_last_error :: "string option"

record action_plan_state =
  ps_id :: action_plan_id
  ps_task_id :: u64
  ps_cursor :: nat
  ps_status :: action_plan_status
  ps_actions :: "planned_action list"

record action_fabric_state =
  fs_next_plan_id :: u64
  fs_next_action_id :: u64
  fs_plans :: "(u64, action_plan_state) btmap"

definition fabric_state_default :: action_fabric_state where
  "fabric_state_default = \<lparr>fs_next_plan_id = 1, fs_next_action_id = 1, fs_plans = []\<rparr>"

datatype adapter_result =
    RCompleted action_output "u8 list option"
  | RSuspended "u8 list" string
  | RRetryable string "u8 list option"

record 'w capability_adapter =
  ad_execute :: "action_id \<Rightarrow> typed_action \<Rightarrow> 'w \<Rightarrow> (string + adapter_result) \<times> 'w"
  ad_resume :: "action_id \<Rightarrow> typed_action \<Rightarrow> u8 list \<Rightarrow> 'w \<Rightarrow> (string + adapter_result) \<times> 'w"
  ad_rollback :: "action_id \<Rightarrow> typed_action \<Rightarrow> u8 list \<Rightarrow> 'w \<Rightarrow> (string + unit) \<times> 'w"

text \<open>The provided methods of the trait, for adapters that do not override them.\<close>

definition default_resume :: "action_id \<Rightarrow> typed_action \<Rightarrow> u8 list \<Rightarrow> 'w \<Rightarrow> (string + adapter_result) \<times> 'w" where
  "default_resume i a token w = (Inl ''resume is not supported by this adapter'', w)"

definition default_rollback :: "action_id \<Rightarrow> typed_action \<Rightarrow> u8 list \<Rightarrow> 'w \<Rightarrow> (string + unit) \<times> 'w" where
  "default_rollback i a token w = (Inl ''rollback is not supported by this adapter'', w)"

datatype action_verification = VAccept | VRetry string | VReject string

type_synonym 'w action_verifier =
  "capability_descriptor \<Rightarrow> typed_action \<Rightarrow> action_output \<Rightarrow> 'w \<Rightarrow> action_verification \<times> 'w"

record action_step_report =
  sr_plan_id :: action_plan_id
  sr_action_id :: "action_id option"
  sr_action_status :: "action_status option"
  sr_plan_status :: action_plan_status
  sr_cursor :: nat
  sr_summary :: string

datatype action_fabric_error =
    CapabilityErr capability_error
  | DuplicateAdapter capability_id
  | MissingAdapter capability_id
  | MissingPlan action_plan_id
  | MissingActionPayload u32
  | UnexpectedActionPayload u32
  | SideEffectMismatch u32 side_effect_class side_effect_class
  | VerificationContractMismatch u32
  | NonResumableSuspension capability_id
  | AdapterFailure capability_id string
  | RollbackFailure capability_id string
  | RollbackUnavailable action_id
  | TerminalPlan action_plan_status
  | InvalidActionStatus u8
  | InvalidPlanStatus u8
  | InvalidState
  | FabOverflow

definition action_status_try_from :: "u8 \<Rightarrow> action_fabric_error + action_status" where
  "action_status_try_from v =
    (if v = 1 then Inr APrepared else if v = 2 then Inr ARunning else if v = 3 then Inr ASuspended
     else if v = 4 then Inr ARetryable else if v = 5 then Inr ACommitted
     else if v = 6 then Inr ARolledBack else if v = 7 then Inr AFailed
     else Inl (InvalidActionStatus v))"

definition plan_status_try_from :: "u8 \<Rightarrow> action_fabric_error + action_plan_status" where
  "plan_status_try_from v =
    (if v = 1 then Inr PReady else if v = 2 then Inr PSuspended else if v = 3 then Inr PCompleted
     else if v = 4 then Inr PFailed else if v = 5 then Inr PRolledBack
     else Inl (InvalidPlanStatus v))"

record 'w action_fabric =
  af_registry :: capability_registry
  af_adapters :: "(string, 'w capability_adapter) btmap"
  af_state :: action_fabric_state

type_synonym ('w, 'a) fab_op = "('w action_fabric, action_fabric_error, 'a) op"
type_synonym ('w, 'a) fab_run = "('w action_fabric \<times> 'w, action_fabric_error, 'a) op"

section \<open>Construction and planning\<close>

definition fabric_new :: "capability_registry \<Rightarrow> 'w action_fabric" where
  "fabric_new registry = \<lparr>af_registry = registry, af_adapters = [], af_state = fabric_state_default\<rparr>"

definition register_adapter :: "capability_id \<Rightarrow> 'w capability_adapter \<Rightarrow> ('w, unit) fab_op" where
  "register_adapter capability adapter =
    sbind (sget (\<lambda>f. registry_descriptor (af_registry f) capability)) (\<lambda>r.
    sbind (slift (map_err CapabilityErr r)) (\<lambda>_.
    sbind (sget (\<lambda>f. bt_contains (af_adapters f) capability)) (\<lambda>dup.
    if dup then sfail (DuplicateAdapter capability)
    else smodify (\<lambda>f. f\<lparr>af_adapters := bt_insert capability adapter (af_adapters f)\<rparr>))))"

text \<open>
  The first loop of \<open>prepare_plan\<close>: each node takes its payload, and what is left of the payloads is
  returned with the validated nodes.
\<close>

type_synonym validated_node = "action_node \<times> typed_action \<times> u32 \<times> bool"

fun validate_nodes ::
    "capability_registry \<Rightarrow> action_node list \<Rightarrow> u32 set \<Rightarrow> (u32, typed_action) btmap
      \<Rightarrow> action_fabric_error + validated_node list \<times> (u32, typed_action) btmap" where
  "validate_nodes registry [] seen payloads = Inr ([], payloads)"
| "validate_nodes registry (n # ns) seen payloads =
    (if an_id n \<in> seen then Inl InvalidState else
    rbind (ok_or (MissingActionPayload (an_id n)) (bt_get payloads (an_id n))) (\<lambda>action.
    rbind (map_err CapabilityErr (validate_action registry (an_capability n) action)) (\<lambda>d.
    if an_side_effect n \<noteq> cd_side_effect d
    then Inl (SideEffectMismatch (an_id n) (an_side_effect n) (cd_side_effect d))
    else if cd_verification_required d \<and> \<not> an_verification_required n
    then Inl (VerificationContractMismatch (an_id n))
    else
    rbind (validate_nodes registry ns (insert (an_id n) seen) (bt_remove (an_id n) payloads)) (\<lambda>(vs, rest).
    Inr ((n, action, cd_version d, an_verification_required n \<or> cd_verification_required d) # vs, rest)))))"

text \<open>\<open>u64::try_from\<close> of a \<open>usize\<close>.\<close>

definition u64_try_from_usize :: "nat \<Rightarrow> u64 option" where
  "u64_try_from_usize n = (if int n < usize_bound then Some (of_nat n) else None)"

fun build_actions :: "u64 \<Rightarrow> nat \<Rightarrow> validated_node list \<Rightarrow> action_fabric_error + planned_action list" where
  "build_actions first_action_id offset [] = Inr []"
| "build_actions first_action_id offset ((n, action, version, verification) # vs) =
    rbind (ok_or FabOverflow (u64_try_from_usize offset)) (\<lambda>o64.
    rbind (ok_or FabOverflow (checked_add first_action_id o64)) (\<lambda>i.
    rbind (build_actions first_action_id (offset + 1) vs) (\<lambda>rest.
    Inr (\<lparr>pa_id = i, pa_node_id = an_id n, pa_capability = an_capability n,
      pa_capability_version = version, pa_side_effect = an_side_effect n,
      pa_verification_required = verification, pa_action = action, pa_status = APrepared,
      pa_attempts = 0, pa_output = None, pa_resume_token = None, pa_rollback_token = None,
      pa_last_error = None\<rparr> # rest))))"

definition prepare_plan ::
    "u64 \<Rightarrow> task_graph \<Rightarrow> (u32, typed_action) btmap \<Rightarrow> ('w, action_plan_id) fab_op" where
  "prepare_plan task_id graph payloads =
    (if task_id = 0 \<or> task_graph_is_empty graph then sfail InvalidState else
    sbind (sget (\<lambda>f. validate_nodes (af_registry f) (tg_actions graph) {} payloads)) (\<lambda>r.
    sbind (slift r) (\<lambda>(validated, rest).
    (case rest of (unexpected, _) # _ \<Rightarrow> sfail (UnexpectedActionPayload unexpected) | [] \<Rightarrow>
    sbind (sget af_state) (\<lambda>st.
    sbind (slift (ok_or FabOverflow (checked_add (fs_next_plan_id st) 1))) (\<lambda>next_plan_id.
    sbind (slift (ok_or FabOverflow (u64_try_from_usize (length validated)))) (\<lambda>action_count.
    sbind (slift (ok_or FabOverflow (checked_add (fs_next_action_id st) action_count))) (\<lambda>next_action_id.
    sbind (slift (build_actions (fs_next_action_id st) 0 validated)) (\<lambda>actions.
    sbind (smodify (\<lambda>f. f\<lparr>af_state :=
      \<lparr>fs_next_plan_id = next_plan_id, fs_next_action_id = next_action_id,
       fs_plans = bt_insert (fs_next_plan_id st)
         \<lparr>ps_id = fs_next_plan_id st, ps_task_id = task_id, ps_cursor = 0, ps_status = PReady,
          ps_actions = actions\<rparr> (fs_plans st)\<rparr>\<rparr>)) (\<lambda>_.
    sret (fs_next_plan_id st)))))))))))"

definition prepare_cognitive_task ::
    "cognitive_task \<Rightarrow> (u32, typed_action) btmap \<Rightarrow> ('w, action_plan_id) fab_op" where
  "prepare_cognitive_task task payloads = prepare_plan (ct_id task) (ct_graph task) payloads"

section \<open>Execution\<close>

definition get_plan :: "action_plan_id \<Rightarrow> ('w, action_plan_state) fab_op" where
  "get_plan plan_id =
    sbind (sget (\<lambda>f. bt_get (fs_plans (af_state f)) plan_id)) (\<lambda>found.
    slift (ok_or (MissingPlan plan_id) found))"

text \<open>The fabric with one plan replaced, and writing through \<open>plans.get_mut\<close>.\<close>

definition with_plan :: "action_plan_id \<Rightarrow> action_plan_state \<Rightarrow> 'w action_fabric \<Rightarrow> 'w action_fabric" where
  "with_plan plan_id p f =
    f\<lparr>af_state := (af_state f)\<lparr>fs_plans := bt_insert plan_id p (fs_plans (af_state f))\<rparr>\<rparr>"

definition put_plan :: "action_plan_id \<Rightarrow> action_plan_state \<Rightarrow> ('w, unit) fab_op" where
  "put_plan plan_id p = smodify (with_plan plan_id p)"

text \<open>\<open>action_mut\<close> followed by assignments through the reference; the updated action is returned.\<close>

definition action_mut ::
    "action_plan_id \<Rightarrow> nat \<Rightarrow> (planned_action \<Rightarrow> planned_action) \<Rightarrow> ('w, planned_action) fab_op" where
  "action_mut plan_id index upd =
    sbind (get_plan plan_id) (\<lambda>p.
    if index < length (ps_actions p) then
      sbind (put_plan plan_id (p\<lparr>ps_actions := (ps_actions p)[index := upd (ps_actions p ! index)]\<rparr>)) (\<lambda>_.
      sret (upd (ps_actions p ! index)))
    else sfail InvalidState)"

definition set_plan_status :: "action_plan_id \<Rightarrow> action_plan_status \<Rightarrow> ('w, unit) fab_op" where
  "set_plan_status plan_id status =
    sbind (get_plan plan_id) (\<lambda>p. put_plan plan_id (p\<lparr>ps_status := status\<rparr>))"

definition finish_plan :: "action_plan_id \<Rightarrow> action_plan_status \<Rightarrow> ('w, unit) fab_op" where
  "finish_plan plan_id status = set_plan_status plan_id status"

text \<open>\<open>usize::saturating_add(1)\<close>.\<close>

definition usize_succ :: "nat \<Rightarrow> nat" where
  "usize_succ n = (if int n + 1 < usize_bound then n + 1 else n)"

definition advance_cursor :: "action_plan_id \<Rightarrow> ('w, nat \<times> action_plan_status) fab_op" where
  "advance_cursor plan_id =
    sbind (get_plan plan_id) (\<lambda>p.
    let cursor = usize_succ (ps_cursor p);
        status = (if length (ps_actions p) \<le> cursor then PCompleted else PReady)
    in sbind (put_plan plan_id (p\<lparr>ps_cursor := cursor, ps_status := status\<rparr>)) (\<lambda>_.
       sret (cursor, status)))"

definition get_adapter :: "capability_id \<Rightarrow> ('w, 'w capability_adapter) fab_op" where
  "get_adapter capability =
    sbind (sget (\<lambda>f. bt_get (af_adapters f) capability)) (\<lambda>found.
    slift (ok_or (MissingAdapter capability) found))"

definition rollback_current_if_possible ::
    "action_plan_id \<Rightarrow> nat \<Rightarrow> planned_action \<Rightarrow> capability_descriptor \<Rightarrow> u8 list option \<Rightarrow> ('w, bool) fab_run" where
  "rollback_current_if_possible plan_id cursor snapshot descriptor rollback_token =
    (if \<not> cd_rollback_supported descriptor then sret False else
    (case rollback_token of None \<Rightarrow> sret False | Some token \<Rightarrow>
    sbind (on_self (get_adapter (pa_capability snapshot))) (\<lambda>adapter.
    sbind (call_out (ad_rollback adapter (pa_id snapshot) (pa_action snapshot) token)) (\<lambda>r.
    sbind (slift (map_err (RollbackFailure (pa_capability snapshot)) r)) (\<lambda>_.
    sbind (on_self (action_mut plan_id cursor (\<lambda>a. a\<lparr>pa_rollback_token := Some token\<rparr>))) (\<lambda>_.
    sret True))))))"

definition step_report ::
    "action_plan_id \<Rightarrow> action_id option \<Rightarrow> action_status option \<Rightarrow> action_plan_status \<Rightarrow> nat \<Rightarrow> string
      \<Rightarrow> action_step_report" where
  "step_report plan_id action_id status plan_status cursor summary =
    \<lparr>sr_plan_id = plan_id, sr_action_id = action_id, sr_action_status = status,
     sr_plan_status = plan_status, sr_cursor = cursor, sr_summary = summary\<rparr>"

text \<open>\<open>rollback_supported.then_some(rollback_token).flatten()\<close>\<close>

definition kept_token :: "capability_descriptor \<Rightarrow> u8 list option \<Rightarrow> u8 list option" where
  "kept_token descriptor token = (if cd_rollback_supported descriptor then token else None)"

text \<open>The three arms of the verdict on a completed action.\<close>

definition apply_verification ::
    "action_plan_id \<Rightarrow> nat \<Rightarrow> planned_action \<Rightarrow> capability_descriptor \<Rightarrow> action_output \<Rightarrow> u8 list option
      \<Rightarrow> action_verification \<Rightarrow> ('w, action_step_report) fab_run" where
  "apply_verification plan_id cursor snapshot descriptor output rollback_token verification =
    (case verification of
      VAccept \<Rightarrow>
        sbind (on_self (action_mut plan_id cursor (\<lambda>a. a\<lparr>pa_status := ACommitted,
          pa_output := Some output, pa_resume_token := None,
          pa_rollback_token := kept_token descriptor rollback_token, pa_last_error := None\<rparr>))) (\<lambda>a.
        sbind (on_self (advance_cursor plan_id)) (\<lambda>(next_cursor, plan_status).
        sret (step_report plan_id (Some (pa_id a)) (Some ACommitted) plan_status next_cursor
          (ao_summary output))))
    | VRetry reason \<Rightarrow>
        sbind (on_self (action_mut plan_id cursor (\<lambda>a. a\<lparr>pa_status := ARetryable,
          pa_output := Some output, pa_resume_token := None,
          pa_rollback_token := kept_token descriptor rollback_token,
          pa_last_error := Some reason\<rparr>))) (\<lambda>a.
        sbind (on_self (set_plan_status plan_id PReady)) (\<lambda>_.
        sret (step_report plan_id (Some (pa_id a)) (Some ARetryable) PReady cursor reason)))
    | VReject reason \<Rightarrow>
        sbind (rollback_current_if_possible plan_id cursor snapshot descriptor rollback_token) (\<lambda>rolled_back.
        let status = (if rolled_back then ARolledBack else AFailed) in
        sbind (on_self (action_mut plan_id cursor (\<lambda>a. a\<lparr>pa_output := Some output,
          pa_last_error := Some reason, pa_status := status\<rparr>))) (\<lambda>a.
        sbind (on_self (finish_plan plan_id PFailed)) (\<lambda>_.
        sret (step_report plan_id (Some (pa_id a)) (Some status) PFailed cursor reason)))))"

definition apply_adapter_result ::
    "'w action_verifier \<Rightarrow> action_plan_id \<Rightarrow> nat \<Rightarrow> planned_action \<Rightarrow> capability_descriptor \<Rightarrow> adapter_result
      \<Rightarrow> ('w, action_step_report) fab_run" where
  "apply_adapter_result verifier plan_id cursor snapshot descriptor result = (case result of
      RSuspended resume_token note \<Rightarrow>
        if \<not> cd_resumable descriptor then
          sbind (on_self (action_mut plan_id cursor (\<lambda>a. a\<lparr>pa_status := AFailed,
            pa_last_error := Some ''adapter attempted unsupported suspension''\<rparr>))) (\<lambda>_.
          sbind (on_self (finish_plan plan_id PFailed)) (\<lambda>_.
          sfail (NonResumableSuspension (pa_capability snapshot))))
        else
          sbind (on_self (action_mut plan_id cursor (\<lambda>a. a\<lparr>pa_status := ASuspended,
            pa_resume_token := Some resume_token, pa_last_error := Some note\<rparr>))) (\<lambda>a.
          sbind (on_self (set_plan_status plan_id PSuspended)) (\<lambda>_.
          sret (step_report plan_id (Some (pa_id a)) (Some ASuspended) PSuspended cursor note)))
    | RRetryable reason resume_token \<Rightarrow>
        if resume_token \<noteq> None \<and> \<not> cd_resumable descriptor then
          sbind (on_self (action_mut plan_id cursor (\<lambda>a. a\<lparr>pa_status := AFailed,
            pa_last_error := Some ''adapter returned resume state for non-resumable capability''\<rparr>))) (\<lambda>_.
          sbind (on_self (finish_plan plan_id PFailed)) (\<lambda>_.
          sfail (NonResumableSuspension (pa_capability snapshot))))
        else
          sbind (on_self (action_mut plan_id cursor (\<lambda>a. a\<lparr>pa_status := ARetryable,
            pa_resume_token := resume_token, pa_last_error := Some reason\<rparr>))) (\<lambda>a.
          sbind (on_self (set_plan_status plan_id PReady)) (\<lambda>_.
          sret (step_report plan_id (Some (pa_id a)) (Some ARetryable) PReady cursor reason)))
    | RCompleted output rollback_token \<Rightarrow>
        sbind (if pa_verification_required snapshot
          then call_out (verifier descriptor (pa_action snapshot) output) else sret VAccept) (\<lambda>verification.
        apply_verification plan_id cursor snapshot descriptor output rollback_token verification))"

definition plan_terminal :: "action_plan_status \<Rightarrow> bool" where
  "plan_terminal st \<longleftrightarrow> st = PCompleted \<or> st = PFailed \<or> st = PRolledBack"

definition use_resume :: "planned_action \<Rightarrow> bool" where
  "use_resume a \<longleftrightarrow> (pa_status a = ASuspended \<or> pa_status a = ARetryable) \<and> pa_resume_token a \<noteq> None"

text \<open>The call of the adapter: \<open>resume\<close> with the stored token, or \<open>execute\<close>.\<close>

definition invoke_adapter ::
    "'w capability_adapter \<Rightarrow> planned_action \<Rightarrow> 'w \<Rightarrow> (string + adapter_result) \<times> 'w" where
  "invoke_adapter adapter a =
    (case (if use_resume a then pa_resume_token a else None) of
      Some token \<Rightarrow> ad_resume adapter (pa_id a) (pa_action a) token
    | None \<Rightarrow> ad_execute adapter (pa_id a) (pa_action a))"

text \<open>The tail of \<open>execute_next\<close>, once the adapter has answered.\<close>

definition after_call ::
    "'w action_verifier \<Rightarrow> action_plan_id \<Rightarrow> nat \<Rightarrow> planned_action \<Rightarrow> capability_descriptor
      \<Rightarrow> string + adapter_result \<Rightarrow> ('w, action_step_report) fab_run" where
  "after_call verifier plan_id cursor snapshot descriptor res = (case res of
      Inl reason \<Rightarrow>
        sbind (on_self (action_mut plan_id cursor (\<lambda>a. a\<lparr>pa_status := ARetryable,
          pa_last_error := Some reason, pa_resume_token := None\<rparr>))) (\<lambda>a.
        sbind (on_self (set_plan_status plan_id PReady)) (\<lambda>_.
        sret (step_report plan_id (Some (pa_id a)) (Some ARetryable) PReady cursor reason)))
    | Inr result \<Rightarrow> apply_adapter_result verifier plan_id cursor snapshot descriptor result)"

definition execute_next ::
    "'w action_verifier \<Rightarrow> action_plan_id \<Rightarrow> authority_grant \<Rightarrow> ('w, action_step_report) fab_run" where
  "execute_next verifier plan_id authority =
    sbind (on_self (get_plan plan_id)) (\<lambda>p.
    if plan_terminal (ps_status p) then sfail (TerminalPlan (ps_status p)) else
    let cursor = ps_cursor p in
    if \<not> cursor < length (ps_actions p) then
      sbind (on_self (finish_plan plan_id PCompleted)) (\<lambda>_.
      sret (step_report plan_id None None PCompleted cursor ''plan already exhausted''))
    else
    let snapshot = ps_actions p ! cursor in
    sbind (sget (\<lambda>r. validate_action (af_registry (fst r)) (pa_capability snapshot) (pa_action snapshot))) (\<lambda>v.
    sbind (slift (map_err CapabilityErr v)) (\<lambda>descriptor.
    sbind (slift (map_err CapabilityErr (permits authority descriptor))) (\<lambda>_.
    if use_resume snapshot \<and> \<not> cd_resumable descriptor
    then sfail (NonResumableSuspension (pa_capability snapshot))
    else if pa_status snapshot \<in> {ACommitted, ARolledBack, AFailed} then sfail InvalidState
    else
    sbind (on_self (action_mut plan_id cursor
      (\<lambda>a. a\<lparr>pa_status := ARunning, pa_attempts := saturating_add (pa_attempts a) 1\<rparr>))) (\<lambda>_.
    sbind (on_self (set_plan_status plan_id PReady)) (\<lambda>_.
    sbind (on_self (get_adapter (pa_capability snapshot))) (\<lambda>adapter.
    sbind (call_out (invoke_adapter adapter snapshot)) (\<lambda>res.
    after_call verifier plan_id cursor snapshot descriptor res))))))))"

section \<open>Rollback\<close>

text \<open>The loop of \<open>rollback_plan\<close> over the snapshots with their positions, last one first.\<close>

fun rollback_loop :: "action_plan_id \<Rightarrow> (nat \<times> planned_action) list \<Rightarrow> ('w, unit) fab_run" where
  "rollback_loop plan_id [] = sret ()"
| "rollback_loop plan_id ((index, a) # rest) =
    (if pa_side_effect a = ReadOnly \<or> pa_status a = APrepared \<or> pa_status a = ARolledBack
     then rollback_loop plan_id rest
     else
    sbind (sget (\<lambda>r. registry_descriptor (af_registry (fst r)) (pa_capability a))) (\<lambda>d.
    sbind (slift (map_err CapabilityErr d)) (\<lambda>descriptor.
    if \<not> cd_rollback_supported descriptor then sfail (RollbackUnavailable (pa_id a)) else
    sbind (slift (ok_or (RollbackUnavailable (pa_id a)) (pa_rollback_token a))) (\<lambda>token.
    sbind (on_self (get_adapter (pa_capability a))) (\<lambda>adapter.
    sbind (call_out (ad_rollback adapter (pa_id a) (pa_action a) token)) (\<lambda>r.
    sbind (slift (map_err (RollbackFailure (pa_capability a)) r)) (\<lambda>_.
    sbind (on_self (action_mut plan_id index (\<lambda>s. s\<lparr>pa_status := ARolledBack\<rparr>))) (\<lambda>_.
    rollback_loop plan_id rest))))))))"

definition rollback_plan :: "action_plan_id \<Rightarrow> ('w, action_step_report) fab_run" where
  "rollback_plan plan_id =
    sbind (on_self (get_plan plan_id)) (\<lambda>p.
    sbind (rollback_loop plan_id (rev (List.enumerate 0 (ps_actions p)))) (\<lambda>_.
    sbind (on_self (finish_plan plan_id PRolledBack)) (\<lambda>_.
    sbind (on_self (get_plan plan_id)) (\<lambda>p.
    sret (step_report plan_id None None (ps_status p) (ps_cursor p)
      ''all known side effects rolled back'')))))"

section \<open>Validation\<close>

text \<open>The checks on one action at its position in a plan.\<close>

definition check_action ::
    "capability_registry \<Rightarrow> action_plan_state \<Rightarrow> nat \<Rightarrow> planned_action \<Rightarrow> action_fabric_error + unit" where
  "check_action registry p index a =
    rbind (map_err CapabilityErr (validate_action registry (pa_capability a) (pa_action a))) (\<lambda>d.
    if cd_version d \<noteq> pa_capability_version a \<or> cd_side_effect d \<noteq> pa_side_effect a then Inl InvalidState
    else if cd_verification_required d \<and> \<not> pa_verification_required a then Inl InvalidState
    else if pa_resume_token a \<noteq> None \<and> \<not> cd_resumable d then Inl InvalidState
    else if pa_rollback_token a \<noteq> None \<and> \<not> cd_rollback_supported d then Inl InvalidState
    else if index < ps_cursor p \<and> ps_status p \<noteq> PRolledBack \<and> pa_status a \<noteq> ACommitted then Inl InvalidState
    else if ps_cursor p < index \<and> pa_status a \<noteq> APrepared then Inl InvalidState
    else Inr ())"

text \<open>The inner loop, with the identifiers seen so far and the largest of them.\<close>

fun check_actions ::
    "capability_registry \<Rightarrow> action_plan_state \<Rightarrow> nat \<Rightarrow> planned_action list \<Rightarrow> u64 set \<times> u64
      \<Rightarrow> action_fabric_error + u64 set \<times> u64" where
  "check_actions registry p index [] acc = Inr acc"
| "check_actions registry p index (a # as) (ids, mx) =
    (if pa_id a = 0 \<or> pa_id a \<in> ids then Inl InvalidState else
    rbind (check_action registry p index a) (\<lambda>_.
    check_actions registry p (index + 1) as (insert (pa_id a) ids, max mx (pa_id a))))"

text \<open>The checks on a plan after its actions.\<close>

definition check_plan_status :: "action_plan_state \<Rightarrow> action_fabric_error + unit" where
  "check_plan_status p =
    (if ps_status p = PCompleted
        \<and> (ps_cursor p \<noteq> length (ps_actions p) \<or> \<not> list_all (\<lambda>a. pa_status a = ACommitted) (ps_actions p))
     then Inl InvalidState
     else if ps_cursor p < length (ps_actions p) then
       (let current = ps_actions p ! ps_cursor p in
        case ps_status p of
          PSuspended \<Rightarrow> if pa_status current \<noteq> ASuspended \<or> pa_resume_token current = None
            then Inl InvalidState else Inr ()
        | PReady \<Rightarrow> if pa_status current \<notin> {APrepared, ARetryable, ARunning}
            then Inl InvalidState else Inr ()
        | PFailed \<Rightarrow> if pa_status current \<notin> {AFailed, ARolledBack}
            then Inl InvalidState else Inr ()
        | _ \<Rightarrow> Inr ())
     else Inr ())"

fun check_plans ::
    "capability_registry \<Rightarrow> (u64, action_plan_state) btmap \<Rightarrow> u64 set \<times> u64 \<Rightarrow> action_fabric_error + u64 set \<times> u64" where
  "check_plans registry [] acc = Inr acc"
| "check_plans registry ((key, p) # rest) acc =
    (if key \<noteq> ps_id p \<or> ps_id p = 0 \<or> ps_task_id p = 0 \<or> length (ps_actions p) < ps_cursor p
     then Inl InvalidState else
    rbind (check_actions registry p 0 (ps_actions p) acc) (\<lambda>acc'.
    rbind (check_plan_status p) (\<lambda>_.
    check_plans registry rest acc')))"

definition validate_fabric_state :: "capability_registry \<Rightarrow> action_fabric_state \<Rightarrow> action_fabric_error + unit" where
  "validate_fabric_state registry st =
    (if fs_next_plan_id st = 0 \<or> fs_next_action_id st = 0 then Inl InvalidState
     else if last_key_reaches (fs_plans st) (fs_next_plan_id st) then Inl InvalidState
     else
    rbind (check_plans registry (fs_plans st) ({}, 0)) (\<lambda>(ids, max_action_id).
    if fs_next_action_id st \<le> max_action_id then Inl InvalidState else Inr ()))"

definition fabric_from_state ::
    "capability_registry \<Rightarrow> action_fabric_state \<Rightarrow> action_fabric_error + 'w action_fabric" where
  "fabric_from_state registry st =
    rbind (validate_fabric_state registry st) (\<lambda>_.
    Inr \<lparr>af_registry = registry, af_adapters = [], af_state = st\<rparr>)"

section \<open>The invariant\<close>

text \<open>An action agrees with the descriptor its capability is registered under.\<close>

definition action_fits :: "capability_registry \<Rightarrow> planned_action \<Rightarrow> bool" where
  "action_fits registry a \<longleftrightarrow> (\<exists>d. validate_action registry (pa_capability a) (pa_action a) = Inr d
    \<and> cd_version d = pa_capability_version a \<and> cd_side_effect d = pa_side_effect a
    \<and> (cd_verification_required d \<longrightarrow> pa_verification_required a)
    \<and> (pa_resume_token a \<noteq> None \<longrightarrow> cd_resumable d)
    \<and> (pa_rollback_token a \<noteq> None \<longrightarrow> cd_rollback_supported d))"

fun current_ok :: "action_plan_status \<Rightarrow> planned_action \<Rightarrow> bool" where
  "current_ok PReady a \<longleftrightarrow> pa_status a \<in> {APrepared, ARetryable, ARunning}"
| "current_ok PSuspended a \<longleftrightarrow> pa_status a = ASuspended \<and> pa_resume_token a \<noteq> None"
| "current_ok PFailed a \<longleftrightarrow> pa_status a \<in> {AFailed, ARolledBack}"
| "current_ok _ a \<longleftrightarrow> True"

text \<open>
  A plan is executed from left to right: everything before the cursor is committed (unless the plan
  was rolled back), everything after it is untouched, and the current action is in a state that
  fits the plan's.
\<close>

definition plan_valid :: "capability_registry \<Rightarrow> action_plan_state \<Rightarrow> bool" where
  "plan_valid registry p \<longleftrightarrow> ps_task_id p \<noteq> 0 \<and> ps_cursor p \<le> length (ps_actions p)
    \<and> (\<forall>a \<in> set (ps_actions p). action_fits registry a)
    \<and> (\<forall>i < ps_cursor p. ps_status p \<noteq> PRolledBack \<longrightarrow> pa_status (ps_actions p ! i) = ACommitted)
    \<and> (\<forall>i < length (ps_actions p). ps_cursor p < i \<longrightarrow> pa_status (ps_actions p ! i) = APrepared)
    \<and> (ps_status p = PCompleted \<longrightarrow> ps_cursor p = length (ps_actions p))
    \<and> (ps_cursor p < length (ps_actions p) \<longrightarrow> current_ok (ps_status p) (ps_actions p ! ps_cursor p))"

definition plan_ids :: "action_plan_state \<Rightarrow> u64 list" where
  "plan_ids p = map pa_id (ps_actions p)"

definition all_ids :: "(u64, action_plan_state) btmap \<Rightarrow> u64 list" where
  "all_ids plans = concat (map (\<lambda>e. plan_ids (snd e)) plans)"

definition fabric_valid :: "capability_registry \<Rightarrow> action_fabric_state \<Rightarrow> bool" where
  "fabric_valid registry st \<longleftrightarrow>
    table_ok ps_id (plan_valid registry) (fs_next_plan_id st) (fs_plans st)
    \<and> fs_next_action_id st \<noteq> 0 \<and> distinct (all_ids (fs_plans st))
    \<and> (\<forall>i \<in> set (all_ids (fs_plans st)). i \<noteq> 0 \<and> i < fs_next_action_id st)"

lemma guard_Inr: "(if c then Inl e else r) = Inr x \<longleftrightarrow> \<not> c \<and> r = Inr x"
  by simp

lemma check_action_Inr:
  "check_action registry p index a = Inr () \<longleftrightarrow> action_fits registry a
    \<and> (index < ps_cursor p \<longrightarrow> ps_status p \<noteq> PRolledBack \<longrightarrow> pa_status a = ACommitted)
    \<and> (ps_cursor p < index \<longrightarrow> pa_status a = APrepared)"
  by (cases "validate_action registry (pa_capability a) (pa_action a)")
    (simp_all add: check_action_def action_fits_def guard_Inr del: not_None_eq, auto)

lemma check_actions_Inr:
  "check_actions registry p k as (ids, mx) = Inr (ids', mx') \<longleftrightarrow>
    0 \<notin> pa_id ` set as \<and> distinct (map pa_id as) \<and> pa_id ` set as \<inter> ids = {}
    \<and> (\<forall>j < length as. check_action registry p (k + j) (as ! j) = Inr ())
    \<and> ids' = ids \<union> pa_id ` set as \<and> mx' = foldl max mx (map pa_id as)"
proof (induction as arbitrary: k ids mx)
  case Nil
  then show ?case by auto
next
  case (Cons a as)
  have split: "(\<forall>j < length (a # as). check_action registry p (k + j) ((a # as) ! j) = Inr ()) \<longleftrightarrow>
      check_action registry p k a = Inr () \<and> (\<forall>j < length as. check_action registry p (Suc k + j) (as ! j) = Inr ())"
    by (simp add: All_less_Suc2)
  show ?case unfolding split by (auto simp: Cons.IH)
qed

lemma check_plan_status_Inr:
  "check_plan_status p = Inr () \<longleftrightarrow>
    (ps_status p = PCompleted \<longrightarrow> ps_cursor p = length (ps_actions p)
      \<and> (\<forall>a \<in> set (ps_actions p). pa_status a = ACommitted))
    \<and> (ps_cursor p < length (ps_actions p) \<longrightarrow> current_ok (ps_status p) (ps_actions p ! ps_cursor p))"
  by (cases "ps_status p") (auto simp: check_plan_status_def Let_def list_all_iff)

lemma plan_valid_checks:
  "plan_valid registry p \<longleftrightarrow> ps_task_id p \<noteq> 0 \<and> ps_cursor p \<le> length (ps_actions p)
    \<and> (\<forall>j < length (ps_actions p). check_action registry p j (ps_actions p ! j) = Inr ())
    \<and> check_plan_status p = Inr ()"
proof -
  have "(\<forall>a \<in> set (ps_actions p). pa_status a = ACommitted)"
    if "\<forall>i < ps_cursor p. pa_status (ps_actions p ! i) = ACommitted" "ps_cursor p = length (ps_actions p)"
    using that by (auto simp: in_set_conv_nth)
  then show ?thesis
    unfolding plan_valid_def check_action_Inr check_plan_status_Inr all_set_conv_all_nth
    by (auto dest: order.strict_trans2)
qed

lemma check_plans_Inr:
  "(\<exists>ids'. check_plans registry plans (ids, mx) = Inr (ids', mx')) \<longleftrightarrow>
    (\<forall>(k, p) \<in> set plans. k = ps_id p \<and> k \<noteq> 0 \<and> plan_valid registry p)
    \<and> 0 \<notin> set (all_ids plans) \<and> distinct (all_ids plans) \<and> set (all_ids plans) \<inter> ids = {}
    \<and> mx' = foldl max mx (all_ids plans)"
proof (induction plans arbitrary: ids mx)
  case Nil
  then show ?case by (auto simp: all_ids_def)
next
  case (Cons e plans)
  obtain k p where e: "e = (k, p)" by (cases e)
  have ids: "all_ids (e # plans) = map pa_id (ps_actions p) @ all_ids plans"
    by (simp add: all_ids_def plan_ids_def e)
  show ?case
  proof (cases "k = ps_id p \<and> k \<noteq> 0 \<and> plan_valid registry p \<and> 0 \<notin> pa_id ` set (ps_actions p)
      \<and> distinct (map pa_id (ps_actions p)) \<and> pa_id ` set (ps_actions p) \<inter> ids = {}")
    case True
    then have "check_actions registry p 0 (ps_actions p) (ids, mx) =
        Inr (ids \<union> pa_id ` set (ps_actions p), foldl max mx (map pa_id (ps_actions p)))"
      unfolding check_actions_Inr by (simp add: plan_valid_checks)
    with True have "check_plans registry (e # plans) (ids, mx) =
        check_plans registry plans (ids \<union> pa_id ` set (ps_actions p), foldl max mx (map pa_id (ps_actions p)))"
      by (auto simp: e plan_valid_checks not_less)
    with True Cons.IH show ?thesis unfolding ids by (auto simp: e)
  next
    case False
    have "check_plans registry (e # plans) (ids, mx) \<noteq> Inr (ids', mx')" for ids'
      using False by (auto simp: e plan_valid_checks check_actions_Inr not_less)
    with False show ?thesis unfolding ids by (auto simp: e)
  qed
qed

lemma foldl_max_less: "foldl max m xs < n \<longleftrightarrow> m < n \<and> (\<forall>x \<in> set xs. x < n)" for m :: "'a::linorder"
  by (induction xs arbitrary: m) auto

lemma validate_fabric_state_valid:
  assumes "bt_wf (fs_plans st)"
  shows "validate_fabric_state registry st = Inr () \<longleftrightarrow> fabric_valid registry st"
proof -
  have iff: "validate_fabric_state registry st = Inr () \<longleftrightarrow>
      fs_next_plan_id st \<noteq> 0 \<and> fs_next_action_id st \<noteq> 0 \<and> \<not> last_key_reaches (fs_plans st) (fs_next_plan_id st)
      \<and> (\<exists>mx. (\<exists>ids. check_plans registry (fs_plans st) ({}, 0) = Inr (ids, mx)) \<and> mx < fs_next_action_id st)"
    by (auto simp: validate_fabric_state_def not_le split: if_splits)
  have pos: "0 < fs_next_action_id st \<longleftrightarrow> fs_next_action_id st \<noteq> 0" by (simp add: word_neq_0_conv)
  show ?thesis
    unfolding iff check_plans_Inr last_key_reaches_iff [OF assms] fabric_valid_def table_ok_def
    using assms by (fastforce simp: foldl_max_less pos)
qed

text \<open>A registry with one reversible capability, and fabrics with one plan of two file writes.\<close>

definition file_cap :: capability_descriptor where
  "file_cap = \<lparr>cd_id = ''c'', cd_version = 1, cd_domain = DomFile, cd_side_effect = Reversible,
    cd_verification_required = False, cd_rollback_supported = True, cd_resumable = True,
    cd_required_scopes = []\<rparr>"

definition sample_registry :: capability_registry where
  "sample_registry = [(''c'', file_cap)]"

definition sample_action :: "u64 \<Rightarrow> action_status \<Rightarrow> planned_action" where
  "sample_action i st = \<lparr>pa_id = i, pa_node_id = 1, pa_capability = ''c'', pa_capability_version = 1,
    pa_side_effect = Reversible, pa_verification_required = True, pa_action = FileWrite ''p'' [],
    pa_status = st, pa_attempts = 0, pa_output = None, pa_resume_token = None,
    pa_rollback_token = (if st = ACommitted then Some [1] else None), pa_last_error = None\<rparr>"

definition sample_plan :: "nat \<Rightarrow> action_plan_status \<Rightarrow> planned_action \<Rightarrow> planned_action \<Rightarrow> action_plan_state" where
  "sample_plan c st a b = \<lparr>ps_id = 1, ps_task_id = 1, ps_cursor = c, ps_status = st, ps_actions = [a, b]\<rparr>"

text \<open>The adapter logs the actions it is called for; undoing action \<open>stuck\<close> fails.\<close>

definition log_adapter :: "u64 \<Rightarrow> u64 list capability_adapter" where
  "log_adapter stuck =
    \<lparr>ad_execute = \<lambda>i a w. (Inr (RCompleted (action_output_text ''ok'' []) (Some [1])), i # w),
     ad_resume = default_resume,
     ad_rollback = \<lambda>i a token w. if i = stuck then (Inl ''no'', w) else (Inr (), i # w)\<rparr>"

definition sample_fabric :: "u64 \<Rightarrow> action_plan_state \<Rightarrow> u64 list action_fabric" where
  "sample_fabric stuck p = \<lparr>af_registry = sample_registry, af_adapters = [(''c'', log_adapter stuck)],
    af_state = \<lparr>fs_next_plan_id = 2, fs_next_action_id = 3, fs_plans = [(1, p)]\<rparr>\<rparr>"

definition ready_plan :: action_plan_state where
  "ready_plan = sample_plan 0 PReady (sample_action 1 APrepared) (sample_action 2 APrepared)"

definition done_plan :: action_plan_state where
  "done_plan = sample_plan 2 PCompleted (sample_action 1 ACommitted) (sample_action 2 ACommitted)"

definition agreeing :: "u64 list action_verifier" where
  "agreeing d a out w = (VAccept, w)"

lemma sample_fabric_simps [simp]:
  "af_registry (sample_fabric k p) = sample_registry"
  "af_state (sample_fabric k p) = \<lparr>fs_next_plan_id = 2, fs_next_action_id = 3, fs_plans = [(1, p)]\<rparr>"
  "af_adapters (sample_fabric k p) = [(''c'', log_adapter k)]"
  by (simp_all add: sample_fabric_def)

lemma sample_plans_valid:
  "fabric_valid sample_registry \<lparr>fs_next_plan_id = 2, fs_next_action_id = 3, fs_plans = [(1, ready_plan)]\<rparr>"
  "fabric_valid sample_registry \<lparr>fs_next_plan_id = 2, fs_next_action_id = 3, fs_plans = [(1, done_plan)]\<rparr>"
proof -
  have "validate_fabric_state sample_registry
      \<lparr>fs_next_plan_id = 2, fs_next_action_id = 3, fs_plans = [(1, ready_plan)]\<rparr> = Inr ()"
    "validate_fabric_state sample_registry
      \<lparr>fs_next_plan_id = 2, fs_next_action_id = 3, fs_plans = [(1, done_plan)]\<rparr> = Inr ()"
    by code_simp+
  then show
    "fabric_valid sample_registry \<lparr>fs_next_plan_id = 2, fs_next_action_id = 3, fs_plans = [(1, ready_plan)]\<rparr>"
    "fabric_valid sample_registry \<lparr>fs_next_plan_id = 2, fs_next_action_id = 3, fs_plans = [(1, done_plan)]\<rparr>"
    by (simp_all add: validate_fabric_state_valid bt_wf_def)
qed

text \<open>
  \<open>validate_fabric_state\<close>, and with it \<open>ActionFabric::from_state\<close>, accepts exactly the states
  that satisfy the fabric invariant: plans under their own identifiers below the counter, action
  identifiers unique across all plans and below their counter, every action in agreement with the
  registry, and every plan executed strictly from left to right.
\<close>

theorem validate_fabric_state_iff:
  assumes "bt_wf (fs_plans st)"
  shows "validate_fabric_state registry st = Inr () \<longleftrightarrow> fabric_valid registry st"
  by (rule validate_fabric_state_valid [OF assms])

theorem validate_fabric_state_iff_witness:
  "validate_fabric_state sample_registry (af_state (sample_fabric 0 done_plan)) = Inr ()"
  using validate_fabric_state_iff [of "af_state (sample_fabric 0 done_plan)" sample_registry] sample_plans_valid(2)
  by (simp add: bt_wf_def)

section \<open>Working on one plan\<close>

lemma with_plan_simps [simp]:
  "af_registry (with_plan i p f) = af_registry f"
  "af_adapters (with_plan i p f) = af_adapters f"
  "fs_next_plan_id (af_state (with_plan i p f)) = fs_next_plan_id (af_state f)"
  "fs_next_action_id (af_state (with_plan i p f)) = fs_next_action_id (af_state f)"
  "fs_plans (af_state (with_plan i p f)) = bt_insert i p (fs_plans (af_state f))"
  "with_plan i q (with_plan i p f) = with_plan i q f"
  by (simp_all add: with_plan_def)

lemma bt_insert_same: "bt_wf m \<Longrightarrow> bt_get m k = Some v \<Longrightarrow> bt_insert k v m = m"
  by (rule btm.get_ext) (auto simp: btm.get_ins)

lemma with_plan_same: "bt_wf (fs_plans (af_state f)) \<Longrightarrow> bt_get (fs_plans (af_state f)) i = Some p \<Longrightarrow> with_plan i p f = f"
  by (simp add: with_plan_def bt_insert_same)

abbreviation plan_at :: "'w action_fabric \<Rightarrow> action_plan_id \<Rightarrow> action_plan_state option" where
  "plan_at f i \<equiv> bt_get (fs_plans (af_state f)) i"

lemma wp_get_plan [wp_simps]:
  "wp (get_plan i) Q E = (\<lambda>f. case plan_at f i of None \<Rightarrow> E (MissingPlan i) f | Some p \<Rightarrow> Q p f)"
  by (auto simp: get_plan_def wp_simps fun_eq_iff split: option.splits)

lemma wp_action_mut [wp_simps]:
  "wp (action_mut i c u) Q E = (\<lambda>f. case plan_at f i of
      None \<Rightarrow> E (MissingPlan i) f
    | Some p \<Rightarrow> if c < length (ps_actions p)
        then Q (u (ps_actions p ! c)) (with_plan i (p\<lparr>ps_actions := (ps_actions p)[c := u (ps_actions p ! c)]\<rparr>) f)
        else E InvalidState f)"
  by (auto simp: action_mut_def put_plan_def wp_simps fun_eq_iff split: option.splits)

lemma wp_set_plan_status [wp_simps]:
  "wp (set_plan_status i st) Q E = (\<lambda>f. case plan_at f i of
      None \<Rightarrow> E (MissingPlan i) f | Some p \<Rightarrow> Q () (with_plan i (p\<lparr>ps_status := st\<rparr>) f))"
  by (auto simp: set_plan_status_def put_plan_def wp_simps fun_eq_iff split: option.splits)

lemma wp_advance_cursor [wp_simps]:
  "wp (advance_cursor i) Q E = (\<lambda>f. case plan_at f i of
      None \<Rightarrow> E (MissingPlan i) f
    | Some p \<Rightarrow> (let c = usize_succ (ps_cursor p);
          st = (if length (ps_actions p) \<le> c then PCompleted else PReady)
        in Q (c, st) (with_plan i (p\<lparr>ps_cursor := c, ps_status := st\<rparr>) f)))"
  by (auto simp: advance_cursor_def put_plan_def wp_simps fun_eq_iff Let_def split: option.splits)

lemma wp_get_adapter [wp_simps]:
  "wp (get_adapter cap) Q E = (\<lambda>f. case bt_get (af_adapters f) cap of
      None \<Rightarrow> E (MissingAdapter cap) f | Some ad \<Rightarrow> Q ad f)"
  by (auto simp: get_adapter_def wp_simps fun_eq_iff split: option.splits)

lemmas finish_plan_status [simp] = finish_plan_def

text \<open>What a step may change in a plan: its status, the cursor by one, and the current action, of which
  everything that was planned stays.\<close>

definition same_plan :: "planned_action \<Rightarrow> planned_action \<Rightarrow> bool" where
  "same_plan a a' \<longleftrightarrow> pa_id a' = pa_id a \<and> pa_node_id a' = pa_node_id a \<and> pa_capability a' = pa_capability a
    \<and> pa_capability_version a' = pa_capability_version a \<and> pa_side_effect a' = pa_side_effect a
    \<and> pa_verification_required a' = pa_verification_required a \<and> pa_action a' = pa_action a"

definition plan_frame :: "action_plan_state \<Rightarrow> action_plan_state \<Rightarrow> bool" where
  "plan_frame p p' \<longleftrightarrow> ps_id p' = ps_id p \<and> ps_task_id p' = ps_task_id p
    \<and> length (ps_actions p') = length (ps_actions p)
    \<and> (ps_cursor p' = ps_cursor p \<or> ps_cursor p' = Suc (ps_cursor p))
    \<and> (\<forall>i < length (ps_actions p). same_plan (ps_actions p ! i) (ps_actions p' ! i)
        \<and> (i \<noteq> ps_cursor p \<longrightarrow> ps_actions p' ! i = ps_actions p ! i))"

lemma same_plan_refl [simp]: "same_plan a a"
  by (simp add: same_plan_def)

lemma same_plan_trans: "same_plan a b \<Longrightarrow> same_plan b c \<Longrightarrow> same_plan a c"
  by (simp add: same_plan_def)

lemma plan_frame_refl [simp]: "plan_frame p p"
  by (simp add: plan_frame_def)

lemma plan_frame_trans:
  "plan_frame p q \<Longrightarrow> plan_frame q r \<Longrightarrow> ps_cursor q = ps_cursor p \<Longrightarrow> plan_frame p r"
  by (auto simp: plan_frame_def intro: same_plan_trans)

lemma plan_frame_ids: "plan_frame p p' \<Longrightarrow> plan_ids p' = plan_ids p"
  by (auto simp: plan_frame_def plan_ids_def same_plan_def intro: nth_equalityI)

lemma all_ids_with_plan:
  assumes "bt_wf plans" and "bt_get plans i = Some p" and "plan_ids p' = plan_ids p"
  shows "all_ids (bt_insert i p' plans) = all_ids plans"
  using map_snd_bt_insert [OF assms(1,2), of plan_ids p'] assms(3) by (simp add: all_ids_def)

lemma fabric_valid_with_plan:
  assumes valid: "fabric_valid registry (af_state f)" and p: "plan_at f i = Some p"
    and p': "plan_valid registry p'" "plan_frame p p'"
  shows "fabric_valid registry (af_state (with_plan i p' f))"
proof -
  have tab: "table_ok ps_id (plan_valid registry) (fs_next_plan_id (af_state f)) (fs_plans (af_state f))"
    using valid by (simp add: fabric_valid_def)
  have "table_ok ps_id (plan_valid registry) (fs_next_plan_id (af_state f)) (bt_insert i p' (fs_plans (af_state f)))"
    using table_ok_update [OF tab p] p' by (simp add: plan_frame_def)
  then show ?thesis
    using valid all_ids_with_plan [OF table_okD(1) [OF tab] p plan_frame_ids [OF p'(2)]]
    by (simp add: fabric_valid_def)
qed

lemma plan_at_valid:
  assumes "fabric_valid registry (af_state f)" and "plan_at f i = Some p"
  shows "ps_id p = i" "plan_valid registry p" "bt_wf (fs_plans (af_state f))"
  using assms table_ok_get [of ps_id "plan_valid registry" "fs_next_plan_id (af_state f)" "fs_plans (af_state f)" i p]
  by (auto simp: fabric_valid_def table_okD(1))

section \<open>One step keeps a plan valid\<close>

text \<open>The current action is replaced and the plan stays where it is.\<close>

lemma plan_valid_stay:
  assumes "plan_valid registry p" and "ps_cursor p < length (ps_actions p)" and "\<not> plan_terminal (ps_status p)"
    and "action_fits registry a" and "current_ok st a" and "st \<noteq> PCompleted"
  shows "plan_valid registry (p\<lparr>ps_actions := (ps_actions p)[ps_cursor p := a], ps_status := st\<rparr>)"
  using assms
  by (auto simp: plan_valid_def plan_terminal_def nth_list_update dest!: set_update_subset_insert [THEN subsetD])

lemma plan_frame_stay:
  assumes "ps_cursor p < length (ps_actions p)" and "same_plan (ps_actions p ! ps_cursor p) a"
  shows "plan_frame p (p\<lparr>ps_actions := (ps_actions p)[ps_cursor p := a], ps_status := st\<rparr>)"
  using assms by (auto simp: plan_frame_def nth_list_update)

text \<open>The current action is committed and the cursor moves on.\<close>

lemma plan_valid_commit:
  assumes "plan_valid registry p" and "ps_cursor p < length (ps_actions p)" and "\<not> plan_terminal (ps_status p)"
    and "action_fits registry a" and "pa_status a = ACommitted"
    and "c = Suc (ps_cursor p)"
  shows "plan_valid registry (p\<lparr>ps_actions := (ps_actions p)[ps_cursor p := a], ps_cursor := c,
    ps_status := (if length (ps_actions p) \<le> c then PCompleted else PReady)\<rparr>)"
  using assms
  by (auto simp: plan_valid_def plan_terminal_def nth_list_update less_Suc_eq
      dest!: set_update_subset_insert [THEN subsetD])

lemma plan_frame_commit:
  assumes "ps_cursor p < length (ps_actions p)" and "same_plan (ps_actions p ! ps_cursor p) a"
  shows "plan_frame p (p\<lparr>ps_actions := (ps_actions p)[ps_cursor p := a], ps_cursor := Suc (ps_cursor p), ps_status := st\<rparr>)"
  using assms by (auto simp: plan_frame_def nth_list_update)

lemma usize_succ_less: "c < n \<Longrightarrow> int n < usize_bound \<Longrightarrow> usize_succ c = Suc c"
  by (simp add: usize_succ_def)

definition fits_with :: "capability_registry \<Rightarrow> capability_descriptor \<Rightarrow> planned_action \<Rightarrow> bool" where
  "fits_with registry d a \<longleftrightarrow> validate_action registry (pa_capability a) (pa_action a) = Inr d
    \<and> cd_version d = pa_capability_version a \<and> cd_side_effect d = pa_side_effect a
    \<and> (cd_verification_required d \<longrightarrow> pa_verification_required a)
    \<and> (pa_resume_token a \<noteq> None \<longrightarrow> cd_resumable d)
    \<and> (pa_rollback_token a \<noteq> None \<longrightarrow> cd_rollback_supported d)"

lemma action_fits_with: "action_fits registry a \<longleftrightarrow> (\<exists>d. fits_with registry d a)"
  by (simp add: action_fits_def fits_with_def)

lemma fits_with_fits: "fits_with registry d a \<Longrightarrow> action_fits registry a"
  by (auto simp: action_fits_with)

text \<open>
  \<open>in_progress PV f i p d\<close>: plan \<open>i\<close> of the fabric is \<open>p\<close>, has the property \<open>PV\<close>, is ready, and its
  current action runs under descriptor \<open>d\<close>. From there every arm of the code ends with one plan
  with that property in place of \<open>p\<close> (\<open>replaced\<close>).
\<close>

definition in_progress ::
    "(capability_registry \<Rightarrow> action_plan_state \<Rightarrow> bool) \<Rightarrow> 'w action_fabric \<Rightarrow> action_plan_id \<Rightarrow> action_plan_state \<Rightarrow> capability_descriptor \<Rightarrow> bool" where
  "in_progress PV f i p d \<longleftrightarrow> bt_wf (fs_plans (af_state f)) \<and> plan_at f i = Some p
    \<and> PV (af_registry f) p \<and> ps_status p = PReady \<and> ps_cursor p < length (ps_actions p)
    \<and> int (length (ps_actions p)) < usize_bound
    \<and> fits_with (af_registry f) d (ps_actions p ! ps_cursor p)"

definition replaced ::
    "(capability_registry \<Rightarrow> action_plan_state \<Rightarrow> bool) \<Rightarrow> 'w action_fabric \<Rightarrow> action_plan_id \<Rightarrow> action_plan_state \<Rightarrow> 'w action_fabric \<Rightarrow> bool" where
  "replaced PV f i p f' \<longleftrightarrow> (\<exists>p'. f' = with_plan i p' f \<and> PV (af_registry f) p' \<and> plan_frame p p')"

text \<open>The plan once its current action is marked as running.\<close>

definition started :: "action_plan_state \<Rightarrow> action_plan_state" where
  "started p = p\<lparr>ps_actions := (ps_actions p)[ps_cursor p := (ps_actions p ! ps_cursor p)\<lparr>pa_status := ARunning,
      pa_attempts := saturating_add (pa_attempts (ps_actions p ! ps_cursor p)) 1\<rparr>], ps_status := PReady\<rparr>"

lemma plan_valid_exhausted:
  "plan_valid registry p \<Longrightarrow> \<not> plan_terminal (ps_status p) \<Longrightarrow> \<not> ps_cursor p < length (ps_actions p)
    \<Longrightarrow> plan_valid registry (p\<lparr>ps_status := PCompleted\<rparr>)"
  by (auto simp: plan_valid_def plan_terminal_def)

text \<open>
  What one step relies on: a property of plans that survives replacing the current action while the
  plan stays where it is, committing the current action, and closing an exhausted plan.
\<close>

locale plan_property =
  fixes PV :: "capability_registry \<Rightarrow> action_plan_state \<Rightarrow> bool"
  assumes pv_fits: "PV registry p \<Longrightarrow> a \<in> set (ps_actions p) \<Longrightarrow> action_fits registry a"
    and pv_stay: "\<lbrakk>PV registry p; ps_cursor p < length (ps_actions p); \<not> plan_terminal (ps_status p);
      action_fits registry a; current_ok st a; st \<noteq> PCompleted; st \<noteq> PRolledBack\<rbrakk>
      \<Longrightarrow> PV registry (p\<lparr>ps_actions := (ps_actions p)[ps_cursor p := a], ps_status := st\<rparr>)"
    and pv_commit: "\<lbrakk>PV registry p; ps_cursor p < length (ps_actions p); \<not> plan_terminal (ps_status p);
      action_fits registry a; pa_status a = ACommitted; c = Suc (ps_cursor p)\<rbrakk>
      \<Longrightarrow> PV registry (p\<lparr>ps_actions := (ps_actions p)[ps_cursor p := a], ps_cursor := c,
        ps_status := (if length (ps_actions p) \<le> c then PCompleted else PReady)\<rparr>)"
    and pv_exhausted: "\<lbrakk>PV registry p; \<not> plan_terminal (ps_status p); \<not> ps_cursor p < length (ps_actions p)\<rbrakk>
      \<Longrightarrow> PV registry (p\<lparr>ps_status := PCompleted\<rparr>)"
begin

lemma replaced_stay:
  assumes "in_progress PV f i p d" and "fits_with (af_registry f) d a" and "same_plan (ps_actions p ! ps_cursor p) a"
    and "current_ok st a" and "st \<noteq> PCompleted" and "st \<noteq> PRolledBack"
  shows "replaced PV f i p (with_plan i (p\<lparr>ps_actions := (ps_actions p)[ps_cursor p := a], ps_status := st\<rparr>) f)"
  unfolding replaced_def
  using assms pv_stay [of "af_registry f" p a st] plan_frame_stay [of p a st] fits_with_fits [OF assms(2)]
  by (auto simp: in_progress_def plan_terminal_def)

lemma replaced_commit:
  assumes "in_progress PV f i p d" and "fits_with (af_registry f) d a" and "same_plan (ps_actions p ! ps_cursor p) a"
    and "pa_status a = ACommitted"
  shows "replaced PV f i p (with_plan i (p\<lparr>ps_actions := (ps_actions p)[ps_cursor p := a],
    ps_cursor := usize_succ (ps_cursor p),
    ps_status := (if length (ps_actions p) \<le> usize_succ (ps_cursor p) then PCompleted else PReady)\<rparr>) f)"
proof -
  have c: "usize_succ (ps_cursor p) = Suc (ps_cursor p)"
    using assms(1) by (auto simp: in_progress_def intro: usize_succ_less)
  show ?thesis
    unfolding replaced_def c
    using assms pv_commit [of "af_registry f" p a "Suc (ps_cursor p)"] fits_with_fits [OF assms(2)]
      plan_frame_commit [of p a "if length (ps_actions p) \<le> Suc (ps_cursor p) then PCompleted else PReady"]
    by (intro exI conjI) (auto simp: in_progress_def plan_terminal_def)
qed

lemma wp_apply_verification:
  assumes prog: "in_progress PV f i p d"
  shows "wp (apply_verification i (ps_cursor p) snapshot d out token v)
    (\<lambda>_ r. replaced PV f i p (fst r)) (\<lambda>_ r. replaced PV f i p (fst r)) (f, w)"
proof -
  let ?c = "ps_cursor p" and ?a = "ps_actions p ! ps_cursor p"
  from prog have wf: "bt_wf (fs_plans (af_state f))" and p: "plan_at f i = Some p"
    and valid: "PV (af_registry f) p" and ready: "ps_status p = PReady"
    and c: "?c < length (ps_actions p)" and fit: "fits_with (af_registry f) d ?a"
    by (simp_all add: in_progress_def)
  note get = btm.get_ins [OF wf]
  have same: "replaced PV f i p f"
    unfolding replaced_def using valid p wf by (intro exI [of _ p]) (simp add: with_plan_same)
  show ?thesis
  proof (cases v)
    case VAccept
    then show ?thesis
      using p c replaced_commit [OF prog] fit
      by (auto simp: apply_verification_def wp_simps get Let_def fits_with_def same_plan_def kept_token_def)
  next
    case (VRetry reason)
    then show ?thesis
      using p c replaced_stay [OF prog] fit
      by (auto simp: apply_verification_def wp_simps get fits_with_def same_plan_def kept_token_def)
  next
    case (VReject reason)
    then show ?thesis
      using p c replaced_stay [OF prog] fit same
      by (auto simp: apply_verification_def rollback_current_if_possible_def wp_simps get fits_with_def
          same_plan_def Let_def split: option.splits sum.splits prod.splits)
  qed
qed

lemma wp_apply_adapter_result:
  assumes prog: "in_progress PV f i p d"
  shows "wp (apply_adapter_result verifier i (ps_cursor p) snapshot d result)
    (\<lambda>_ r. replaced PV f i p (fst r)) (\<lambda>_ r. replaced PV f i p (fst r)) (f, w)"
proof -
  from prog have wf: "bt_wf (fs_plans (af_state f))" and p: "plan_at f i = Some p"
    and c: "ps_cursor p < length (ps_actions p)" and fit: "fits_with (af_registry f) d (ps_actions p ! ps_cursor p)"
    by (simp_all add: in_progress_def)
  note get = btm.get_ins [OF wf]
  show ?thesis
  proof (cases result)
    case (RCompleted out token)
    then show ?thesis
      using wp_apply_verification [OF prog]
      by (auto simp: apply_adapter_result_def wp_simps split: prod.splits)
  next
    case (RSuspended token reason)
    then show ?thesis
      using p c replaced_stay [OF prog] fit
      by (auto simp: apply_adapter_result_def wp_simps get fits_with_def same_plan_def)
  next
    case (RRetryable reason token)
    then show ?thesis
      using p c replaced_stay [OF prog] fit
      by (auto simp: apply_adapter_result_def wp_simps get fits_with_def same_plan_def)
  qed
qed

lemma replaced_trans:
  assumes "replaced PV (with_plan i p1 f) i p1 f'" and "plan_frame p p1" and "ps_cursor p1 = ps_cursor p"
  shows "replaced PV f i p f'"
  using assms by (auto simp: replaced_def intro: plan_frame_trans)

lemma started_in_progress:
  assumes "bt_wf (fs_plans (af_state f))" and "plan_at f i = Some p" and "PV (af_registry f) p"
    and "ps_cursor p < length (ps_actions p)" and "\<not> plan_terminal (ps_status p)"
    and "int (length (ps_actions p)) < usize_bound"
    and "validate_action (af_registry f) (pa_capability (ps_actions p ! ps_cursor p))
      (pa_action (ps_actions p ! ps_cursor p)) = Inr d"
  shows "in_progress PV (with_plan i (started p) f) i (started p) d" and "plan_frame p (started p)"
    and "ps_cursor (started p) = ps_cursor p"
proof -
  let ?a = "ps_actions p ! ps_cursor p"
  let ?r = "?a\<lparr>pa_status := ARunning, pa_attempts := saturating_add (pa_attempts ?a) 1\<rparr>"
  have "action_fits (af_registry f) ?a" using assms(3,4) pv_fits nth_mem by blast
  then have fit: "fits_with (af_registry f) d ?r"
    using assms(7) by (auto simp: action_fits_with fits_with_def)
  then show "in_progress PV (with_plan i (started p) f) i (started p) d"
    using assms pv_stay [of "af_registry f" p ?r PReady] fits_with_fits [OF fit]
    by (simp add: in_progress_def started_def btm.get_ins)
  show "plan_frame p (started p)"
    unfolding started_def by (rule plan_frame_stay [OF assms(4)]) (simp add: same_plan_def)
  show "ps_cursor (started p) = ps_cursor p" by (simp add: started_def)
qed

lemma wp_after_call:
  assumes prog: "in_progress PV f i p d"
  shows "wp (after_call verifier i (ps_cursor p) snapshot d res)
    (\<lambda>_ r. replaced PV f i p (fst r)) (\<lambda>_ r. replaced PV f i p (fst r)) (f, w)"
proof (cases res)
  case (Inl reason)
  from prog have "bt_wf (fs_plans (af_state f))" and "plan_at f i = Some p"
    and "ps_cursor p < length (ps_actions p)" and "fits_with (af_registry f) d (ps_actions p ! ps_cursor p)"
    by (simp_all add: in_progress_def)
  with Inl replaced_stay [OF prog] show ?thesis
    by (auto simp: after_call_def wp_simps btm.get_ins fits_with_def same_plan_def)
next
  case (Inr result)
  with wp_apply_adapter_result [OF prog] show ?thesis by (simp add: after_call_def)
qed

lemma wp_execute_next:
  assumes wf: "bt_wf (fs_plans (af_state f))" and valid: "PV (af_registry f) p" and p: "plan_at f i = Some p"
    and size: "int (length (ps_actions p)) < usize_bound"
  shows "wp (execute_next verifier i authority)
    (\<lambda>_ r. replaced PV f i p (fst r)) (\<lambda>_ r. replaced PV f i p (fst r)) (f, w)"
proof -
  have same: "replaced PV f i p f"
    unfolding replaced_def using valid wf p by (intro exI [of _ p]) (simp add: with_plan_same)
  show ?thesis
  proof (cases "plan_terminal (ps_status p) \<or> \<not> ps_cursor p < length (ps_actions p)")
    case True
    have "replaced PV f i p (with_plan i (p\<lparr>ps_status := PCompleted\<rparr>) f)" if "\<not> plan_terminal (ps_status p)"
      unfolding replaced_def using that True pv_exhausted [OF valid]
      by (auto simp: plan_frame_def)
    with True same show ?thesis by (auto simp: execute_next_def wp_simps p Let_def)
  next
    case False
    let ?a = "ps_actions p ! ps_cursor p"
    show ?thesis
    proof (cases "validate_action (af_registry f) (pa_capability ?a) (pa_action ?a)")
      case (Inl e)
      with False same show ?thesis by (simp add: execute_next_def wp_simps p Let_def)
    next
      case (Inr d)
      note st = started_in_progress [OF wf p valid _ _ size Inr]
      have prog: "in_progress PV (with_plan i (started p) f) i (started p) d" and frame: "plan_frame p (started p)"
        and cursor: "ps_cursor (started p) = ps_cursor p" using st False by simp_all
      have "wp (after_call verifier i (ps_cursor (started p)) ?a d res)
          (\<lambda>_ r. replaced PV f i p (fst r)) (\<lambda>_ r. replaced PV f i p (fst r)) (with_plan i (started p) f, w')" for res w'
        by (rule wp_conseq [OF wp_after_call [OF prog]]) (auto intro: replaced_trans [OF _ frame cursor])
      then have call: "wp (after_call verifier i (ps_cursor p) ?a d res)
          (\<lambda>_ r. replaced PV f i p (fst r)) (\<lambda>_ r. replaced PV f i p (fst r)) (with_plan i (started p) f, w')" for res w'
        by (simp only: cursor)
      have start: "replaced PV f i p (with_plan i (started p) f)"
        unfolding replaced_def using st False by (auto simp: in_progress_def)
      show ?thesis
        using False Inr same call start
        by (auto simp: execute_next_def wp_simps p Let_def btm.get_ins [OF wf] started_def
            split: option.splits sum.splits prod.splits)
    qed
  qed
qed

end

interpretation valid_plans: plan_property plan_valid
proof (unfold_locales, goal_cases)
  case 1
  then show ?case by (simp add: plan_valid_def)
qed (blast intro: plan_valid_stay, blast intro: plan_valid_commit, blast intro: plan_valid_exhausted)

section \<open>Properties of execution\<close>

text \<open>
  C26: \<open>ActionFabric::execute_next\<close> keeps the fabric invariant on every outcome, whatever adapters and
  verifier do and also when one of them fails. It works on its plan only: registry, adapters and
  all other plans are as before, no action but the current one changes, of that one nothing that
  was planned changes, and the cursor moves by at most one.
\<close>

theorem execute_next_keeps_fabric:
  assumes "fabric_valid (af_registry f) (af_state f)" and "plan_at f i = Some p"
    and "int (length (ps_actions p)) < usize_bound"
    and "execute_next verifier i authority (f, w) = (res, (f', w'))"
  shows "fabric_valid (af_registry f') (af_state f')
    \<and> af_registry f' = af_registry f \<and> af_adapters f' = af_adapters f
    \<and> (\<forall>j. j \<noteq> i \<longrightarrow> plan_at f' j = plan_at f j)
    \<and> (\<exists>p'. plan_at f' i = Some p' \<and> plan_frame p p')"
proof -
  note pv = plan_at_valid [OF assms(1,2)]
  have "replaced plan_valid f i p f'"
    using wp_run [OF valid_plans.wp_execute_next [OF pv(3,2) assms(2,3)] assms(4)] by (simp split: sum.splits)
  then obtain p' where p': "f' = with_plan i p' f" "plan_valid (af_registry f) p'" "plan_frame p p'"
    by (auto simp: replaced_def)
  with fabric_valid_with_plan [OF assms(1,2) p'(2,3)] show ?thesis
    by (simp add: btm.get_ins [OF plan_at_valid(3) [OF assms(1,2)]])
qed

theorem execute_next_keeps_fabric_witness:
  "case execute_next agreeing 1 authority_grant_new (sample_fabric 0 ready_plan, []) of
    (res, (f', w')) \<Rightarrow> fabric_valid (af_registry f') (af_state f')"
proof -
  obtain res f' w' where
      run: "execute_next agreeing 1 authority_grant_new (sample_fabric 0 ready_plan, []) = (res, (f', w'))"
    by (cases "execute_next agreeing 1 authority_grant_new (sample_fabric 0 ready_plan, [])") auto
  have "int (length (ps_actions ready_plan)) < usize_bound" by code_simp
  with execute_next_keeps_fabric [OF _ _ _ run, of ready_plan] sample_plans_valid(1) run show ?thesis by auto
qed

text \<open>
  C8: nothing happens without authority: if a call of \<open>execute_next\<close> had any effect outside the
  fabric (the world of adapters and verifier changed), then the plan was open, its current action was
  valid for its registered capability, the grant permits that capability, and an adapter was
  registered for it.
\<close>

theorem execute_next_needs_authority:
  assumes "execute_next verifier i authority (f, w) = (res, (f', w'))" and "w' \<noteq> w"
  shows "\<exists>p a d. plan_at f i = Some p \<and> \<not> plan_terminal (ps_status p)
    \<and> ps_cursor p < length (ps_actions p) \<and> a = ps_actions p ! ps_cursor p
    \<and> validate_action (af_registry f) (pa_capability a) (pa_action a) = Inr d
    \<and> permits authority d = Inr () \<and> bt_get (af_adapters f) (pa_capability a) \<noteq> None"
proof (rule ccontr)
  assume none: "\<not> ?thesis"
  have "wp (execute_next verifier i authority) (\<lambda>_ r. snd r = w) (\<lambda>_ r. snd r = w) (f, w)"
    using none by (auto simp: execute_next_def wp_simps Let_def split: option.splits sum.splits)
  from wp_run [OF this assms(1)] assms(2) show False by (simp split: sum.splits)
qed

theorem execute_next_needs_authority_witness:
  "\<exists>p a d. plan_at (sample_fabric 0 ready_plan) 1 = Some p \<and> a = ps_actions p ! ps_cursor p
    \<and> validate_action sample_registry (pa_capability a) (pa_action a) = Inr d \<and> permits authority_grant_new d = Inr ()"
proof -
  have "snd (snd (execute_next agreeing 1 authority_grant_new (sample_fabric 0 ready_plan, []))) = [1]"
    by code_simp
  then obtain res f' where
      run: "execute_next agreeing 1 authority_grant_new (sample_fabric 0 ready_plan, []) = (res, (f', [1]))"
    by (cases "execute_next agreeing 1 authority_grant_new (sample_fabric 0 ready_plan, [])") auto
  from execute_next_needs_authority [OF run] show ?thesis by auto
qed

text \<open>How a committing step came about, for a plan whose current action is running.\<close>

definition commit_of ::
    "'w action_verifier \<Rightarrow> action_plan_id \<Rightarrow> planned_action \<Rightarrow> capability_descriptor \<Rightarrow> string + adapter_result
      \<Rightarrow> nat \<Rightarrow> 'w \<Rightarrow> action_step_report \<Rightarrow> 'w action_fabric \<times> 'w \<Rightarrow> bool" where
  "commit_of verifier i a d answer c w rep r \<longleftrightarrow> sr_action_status rep = Some ACommitted \<longrightarrow>
    (\<exists>out token p'. answer = Inr (RCompleted out token)
      \<and> (if pa_verification_required a then verifier d (pa_action a) out w = (VAccept, snd r) else snd r = w)
      \<and> plan_at (fst r) i = Some p' \<and> ps_cursor p' = usize_succ c \<and> c < length (ps_actions p')
      \<and> pa_status (ps_actions p' ! c) = ACommitted \<and> pa_output (ps_actions p' ! c) = Some out)"

lemma wp_after_call_commit:
  assumes "bt_wf (fs_plans (af_state f))" and "plan_at f i = Some p" and "ps_cursor p < length (ps_actions p)"
  shows "wp (after_call verifier i (ps_cursor p) a d answer)
    (commit_of verifier i a d answer (ps_cursor p) w) (\<lambda>_ _. True) (f, w)"
proof -
  note get = btm.get_ins [OF assms(1)]
  have verdict: "wp (apply_verification i (ps_cursor p) a d out token v)
      (commit_of verifier i a d (Inr (RCompleted out token)) (ps_cursor p) w) (\<lambda>_ _. True) (f, w')"
    if "if pa_verification_required a then verifier d (pa_action a) out w = (v, w') else v = VAccept \<and> w' = w"
    for out token v w'
    using that assms
    by (cases v) (auto simp: apply_verification_def rollback_current_if_possible_def commit_of_def step_report_def
        wp_simps get Let_def split: option.splits sum.splits prod.splits if_splits)
  show ?thesis
  proof (cases answer)
    case (Inl reason)
    then show ?thesis using assms by (simp add: after_call_def wp_simps get commit_of_def step_report_def)
  next
    case (Inr result)
    then show ?thesis
    proof (cases result)
      case (RCompleted out token)
      with Inr verdict [of out _ _ token] show ?thesis
        by (auto simp: after_call_def apply_adapter_result_def wp_simps split: prod.splits)
    qed (use assms in \<open>auto simp: after_call_def apply_adapter_result_def wp_simps get commit_of_def step_report_def\<close>)
  qed
qed

text \<open>
  C2: an action is committed only on the word of the adapter and, where verification is required, of
  the verifier: if \<open>execute_next\<close> reports a commit, the adapter completed the current action with an
  output, the verifier accepted exactly that output for exactly that action, that output is
  stored with the action, and the cursor moved to the next action.
\<close>

theorem execute_next_commit_verified:
  assumes valid: "fabric_valid (af_registry f) (af_state f)"
    and run: "execute_next verifier i authority (f, w) = (Inr rep, (f', w'))"
    and commit: "sr_action_status rep = Some ACommitted"
  shows "\<exists>p a d ad out token w1 p'. plan_at f i = Some p \<and> a = ps_actions p ! ps_cursor p
    \<and> validate_action (af_registry f) (pa_capability a) (pa_action a) = Inr d
    \<and> bt_get (af_adapters f) (pa_capability a) = Some ad
    \<and> invoke_adapter ad a w = (Inr (RCompleted out token), w1)
    \<and> (if pa_verification_required a then verifier d (pa_action a) out w1 = (VAccept, w') else w' = w1)
    \<and> plan_at f' i = Some p' \<and> ps_cursor p' = usize_succ (ps_cursor p)
    \<and> pa_status (ps_actions p' ! ps_cursor p) = ACommitted \<and> pa_output (ps_actions p' ! ps_cursor p) = Some out"
    (is ?concl)
proof -
  define Q :: "action_step_report \<Rightarrow> 'a action_fabric \<times> 'a \<Rightarrow> bool"
    where "Q = (\<lambda>rep (f', w'). sr_action_status rep = Some ACommitted \<longrightarrow> (\<exists>p a d ad out token w1 p'.
      plan_at f i = Some p \<and> a = ps_actions p ! ps_cursor p
      \<and> validate_action (af_registry f) (pa_capability a) (pa_action a) = Inr d
      \<and> bt_get (af_adapters f) (pa_capability a) = Some ad
      \<and> invoke_adapter ad a w = (Inr (RCompleted out token), w1)
      \<and> (if pa_verification_required a then verifier d (pa_action a) out w1 = (VAccept, w') else w' = w1)
      \<and> plan_at f' i = Some p' \<and> ps_cursor p' = usize_succ (ps_cursor p)
      \<and> pa_status (ps_actions p' ! ps_cursor p) = ACommitted \<and> pa_output (ps_actions p' ! ps_cursor p) = Some out))"
  have other: "Q rep r" if "sr_action_status rep \<noteq> Some ACommitted" for rep r
    using that by (cases r) (simp add: Q_def)
  have "wp (execute_next verifier i authority) Q (\<lambda>_ _. True) (f, w)"
  proof (cases "plan_at f i")
    case None
    then show ?thesis by (simp add: execute_next_def wp_simps)
  next
    case (Some p)
    note wf = plan_at_valid(3) [OF valid Some]
    let ?a = "ps_actions p ! ps_cursor p"
    have call: "wp (after_call verifier i (ps_cursor p) ?a d answer) Q (\<lambda>_ _. True) (with_plan i (started p) f, w1)"
      if "validate_action (af_registry f) (pa_capability ?a) (pa_action ?a) = Inr d"
        "bt_get (af_adapters f) (pa_capability ?a) = Some ad" "invoke_adapter ad ?a w = (answer, w1)"
        "ps_cursor p < length (ps_actions p)" for d ad answer w1
    proof (rule wp_conseq)
      show "wp (after_call verifier i (ps_cursor p) ?a d answer)
          (commit_of verifier i ?a d answer (ps_cursor p) w1) (\<lambda>_ _. True) (with_plan i (started p) f, w1)"
        using wp_after_call_commit [of "with_plan i (started p) f" i "started p" verifier ?a d answer w1] wf that(4)
        by (simp add: btm.get_ins [OF wf] started_def)
      show "Q rep r" if "commit_of verifier i ?a d answer (ps_cursor p) w1 rep r" for rep r
        using that \<open>invoke_adapter ad ?a w = (answer, w1)\<close> \<open>bt_get (af_adapters f) _ = Some ad\<close>
          \<open>validate_action _ _ _ = Inr d\<close> Some
        by (cases r) (auto simp: commit_of_def Q_def)
    qed simp
    show ?thesis
      using Some call other
      by (auto simp: execute_next_def wp_simps Let_def btm.get_ins [OF wf] started_def step_report_def
          split: option.splits sum.splits prod.splits)
  qed
  from wp_run [OF this run] commit show ?concl by (simp add: Q_def)
qed

theorem execute_next_commit_verified_witness:
  "\<exists>p a d ad out token w1. plan_at (sample_fabric 0 ready_plan) 1 = Some p \<and> a = ps_actions p ! ps_cursor p
    \<and> invoke_adapter ad a [] = (Inr (RCompleted out token), w1)
    \<and> (if pa_verification_required a then agreeing d (pa_action a) out w1 = (VAccept, [1]) else [1] = w1)"
proof -
  have "case execute_next agreeing 1 authority_grant_new (sample_fabric 0 ready_plan, []) of
      (Inr rep, (f', w')) \<Rightarrow> sr_action_status rep = Some ACommitted \<and> w' = [1] | _ \<Rightarrow> False"
    by code_simp
  then obtain rep f' where st: "sr_action_status rep = Some ACommitted" and
      run: "execute_next agreeing 1 authority_grant_new (sample_fabric 0 ready_plan, []) = (Inr rep, (f', [1]))"
    by (cases "execute_next agreeing 1 authority_grant_new (sample_fabric 0 ready_plan, [])") (auto split: sum.splits)
  have "fabric_valid (af_registry (sample_fabric 0 ready_plan)) (af_state (sample_fabric 0 ready_plan))"
    using sample_plans_valid(1) by simp
  from execute_next_commit_verified [OF this run st] show ?thesis by blast
qed

section \<open>Properties of planning\<close>

definition planned :: "u64 \<Rightarrow> validated_node \<Rightarrow> planned_action" where
  "planned i v = (case v of (n, action, version, verification) \<Rightarrow>
    \<lparr>pa_id = i, pa_node_id = an_id n, pa_capability = an_capability n,
     pa_capability_version = version, pa_side_effect = an_side_effect n,
     pa_verification_required = verification, pa_action = action, pa_status = APrepared,
     pa_attempts = 0, pa_output = None, pa_resume_token = None, pa_rollback_token = None,
     pa_last_error = None\<rparr>)"

lemma planned_simps [simp]:
  "pa_id (planned i v) = i" "pa_status (planned i v) = APrepared"
  "pa_node_id (planned i v) = an_id (fst v)" "pa_capability (planned i v) = an_capability (fst v)"
  "pa_action (planned i v) = fst (snd v)"
  by (simp_all add: planned_def split: prod.splits)

text \<open>What the first loop guarantees of each node it lets through.\<close>

definition node_checked ::
    "capability_registry \<Rightarrow> (u32, typed_action) btmap \<Rightarrow> validated_node \<Rightarrow> bool" where
  "node_checked registry payloads v = (case v of (n, action, version, verification) \<Rightarrow>
    bt_get payloads (an_id n) = Some action
    \<and> (\<exists>d. validate_action registry (an_capability n) action = Inr d \<and> version = cd_version d
      \<and> an_side_effect n = cd_side_effect d
      \<and> (cd_verification_required d \<longrightarrow> an_verification_required n)
      \<and> verification = (an_verification_required n \<or> cd_verification_required d)))"

lemma validate_nodes_Inr:
  assumes "validate_nodes registry ns seen payloads = Inr (vs, rest)"
  shows "map fst vs = ns \<and> (\<forall>v \<in> set vs. node_checked registry payloads v)
    \<and> distinct (map an_id ns) \<and> an_id ` set ns \<inter> seen = {}
    \<and> (\<forall>k. bt_get rest k = (if k \<in> an_id ` set ns then None else bt_get payloads k))"
  using assms
proof (induction ns arbitrary: seen payloads vs)
  case Nil
  then show ?case by simp
next
  case (Cons n ns)
  from Cons.prems obtain action d vs' where
      n: "an_id n \<notin> seen" "bt_get payloads (an_id n) = Some action"
        "validate_action registry (an_capability n) action = Inr d"
        "an_side_effect n = cd_side_effect d" "cd_verification_required d \<longrightarrow> an_verification_required n"
      and rec: "validate_nodes registry ns (insert (an_id n) seen) (bt_remove (an_id n) payloads) = Inr (vs', rest)"
      and vs: "vs = (n, action, cd_version d, an_verification_required n \<or> cd_verification_required d) # vs'"
    by (auto simp: guard_Inr)
  have "node_checked registry payloads v" if "node_checked registry (bt_remove (an_id n) payloads) v" for v
    using that by (auto simp: node_checked_def bt_get_remove split: prod.splits if_splits)
  moreover have "node_checked registry payloads (hd vs)"
    using n by (simp add: vs node_checked_def)
  ultimately show ?case
    using Cons.IH [OF rec] n(1) by (auto simp: vs bt_get_remove)
qed

lemma build_actions_Inr:
  assumes "build_actions first off vs = Inr as"
  shows "length as = length vs
    \<and> (\<forall>j < length vs. as ! j = planned (first + of_nat (off + j)) (vs ! j)
        \<and> unat (first + of_nat (off + j) :: u64) = unat first + off + j)"
  using assms
proof (induction vs arbitrary: off as)
  case Nil
  then show ?case by simp
next
  case (Cons v vs)
  obtain n action version verification where v: "v = (n, action, version, verification)" by (cases v)
  from Cons.prems obtain i rest where off: "int off < usize_bound" and i: "checked_add first (of_nat off) = Some i"
      and rest: "build_actions first (Suc off) vs = Inr rest" and as: "as = planned i v # rest"
    by (auto simp: v u64_try_from_usize_def planned_def split: if_splits)
  have "off < 2 ^ 64" using off by (simp add: usize_bound_def)
  then have small: "unat (of_nat off :: u64) = off" by (simp add: unat_of_nat)
  have "i = first + of_nat off" using i by (auto simp: checked_add_def split: if_splits)
  moreover have "unat i = unat first + off" using checked_add_unat [OF i] small by simp
  ultimately show ?case
    using Cons.IH [OF rest] by (auto simp: as less_Suc_eq_0_disj ac_simps)
qed

lemma u64_try_from_usize_unat: "u64_try_from_usize n = Some k \<Longrightarrow> unat k = n"
  by (auto simp: u64_try_from_usize_def usize_bound_def unat_of_nat split: if_splits)

lemma planned_fits: "node_checked registry payloads v \<Longrightarrow> action_fits registry (planned i v)"
  by (auto simp: node_checked_def planned_def action_fits_def split: prod.splits)

lemma built_actions:
  assumes build: "build_actions first 0 vs = Inr as" and checked: "\<forall>v \<in> set vs. node_checked registry payloads v"
    and count: "u64_try_from_usize (length vs) = Some k" and nxt: "checked_add first k = Some nxt"
  shows "\<forall>a \<in> set as. action_fits registry a \<and> pa_status a = APrepared \<and> pa_id a < nxt \<and> first \<le> pa_id a"
    and "distinct (map pa_id as)" and "map pa_node_id as = map (\<lambda>v. an_id (fst v)) vs"
    and "map pa_capability as = map (\<lambda>v. an_capability (fst v)) vs" and "map pa_action as = map (\<lambda>v. fst (snd v)) vs"
proof -
  note b = build_actions_Inr [OF build]
  have nxt_unat: "unat nxt = unat first + length vs"
    using checked_add_unat [OF nxt] u64_try_from_usize_unat [OF count] by simp
  have id: "unat (pa_id (as ! j)) = unat first + j" if "j < length vs" for j
    using b that by simp
  have "node_checked registry payloads (vs ! j)" if "j < length vs" for j
    using checked that by simp
  then show "\<forall>a \<in> set as. action_fits registry a \<and> pa_status a = APrepared \<and> pa_id a < nxt \<and> first \<le> pa_id a"
    using b id nxt_unat
    by (auto simp: in_set_conv_nth word_less_nat_alt word_le_nat_alt intro!: planned_fits [where payloads = payloads])
  show "distinct (map pa_id as)"
    using b id by (auto simp: distinct_conv_nth) (metis add_left_cancel)
  show "map pa_node_id as = map (\<lambda>v. an_id (fst v)) vs" "map pa_capability as = map (\<lambda>v. an_capability (fst v)) vs"
    "map pa_action as = map (\<lambda>v. fst (snd v)) vs"
    using b by (auto intro!: nth_equalityI)
qed

lemma prepare_plan_shape:
  assumes "prepare_plan task_id graph payloads f = (Inr i, f')"
  obtains vs nxtp k nxta actions where "task_id \<noteq> 0"
    "validate_nodes (af_registry f) (tg_actions graph) {} payloads = Inr (vs, [])"
    "checked_add (fs_next_plan_id (af_state f)) 1 = Some nxtp" "u64_try_from_usize (length vs) = Some k"
    "checked_add (fs_next_action_id (af_state f)) k = Some nxta"
    "build_actions (fs_next_action_id (af_state f)) 0 vs = Inr actions" "i = fs_next_plan_id (af_state f)"
    "f' = f\<lparr>af_state := \<lparr>fs_next_plan_id = nxtp, fs_next_action_id = nxta,
      fs_plans = bt_insert i \<lparr>ps_id = i, ps_task_id = task_id, ps_cursor = 0, ps_status = PReady,
        ps_actions = actions\<rparr> (fs_plans (af_state f))\<rparr>\<rparr>"
  using assms
  by (auto simp: prepare_plan_def result_simps split: if_splits sum.splits list.splits prod.splits)

lemma prepare_plan_fails: "prepare_plan task_id graph payloads f = (Inl e, f') \<Longrightarrow> f' = f"
  by (auto simp: prepare_plan_def result_simps split: if_splits sum.splits list.splits prod.splits)

text \<open>A new plan keeps the tables in order, whatever else is asked of its fellows.\<close>

lemma prepared_tables:
  assumes tab: "table_ok ps_id P (fs_next_plan_id st) (fs_plans st)"
    and ids: "distinct (all_ids (fs_plans st))" "\<forall>i \<in> set (all_ids (fs_plans st)). i \<noteq> 0 \<and> i < fs_next_action_id st"
      "fs_next_action_id st \<noteq> 0"
    and nxtp: "checked_add (fs_next_plan_id st) 1 = Some nxtp" and nxta: "checked_add (fs_next_action_id st) k = Some nxta"
    and p: "P p" "ps_id p = fs_next_plan_id st"
    and acts: "\<forall>a \<in> set (ps_actions p). pa_id a < nxta \<and> fs_next_action_id st \<le> pa_id a" "distinct (plan_ids p)"
  shows "table_ok ps_id P nxtp (bt_insert (fs_next_plan_id st) p (fs_plans st))"
    and "distinct (all_ids (bt_insert (fs_next_plan_id st) p (fs_plans st)))"
    and "\<forall>i \<in> set (all_ids (bt_insert (fs_next_plan_id st) p (fs_plans st))). i \<noteq> 0 \<and> i < nxta"
    and "nxta \<noteq> 0"
proof -
  show "table_ok ps_id P nxtp (bt_insert (fs_next_plan_id st) p (fs_plans st))"
    using table_ok_fresh [OF tab nxtp] p by simp
  have all: "all_ids (bt_insert (fs_next_plan_id st) p (fs_plans st)) = all_ids (fs_plans st) @ plan_ids p"
    using table_fresh_last [OF tab] by (simp add: all_ids_def)
  have le: "fs_next_action_id st \<le> nxta"
    using checked_add_unat [OF nxta] by (simp add: word_le_nat_alt)
  have new: "fs_next_action_id st \<le> i \<and> i < nxta" if "i \<in> set (plan_ids p)" for i
    using that acts(1) by (auto simp: plan_ids_def)
  show "distinct (all_ids (bt_insert (fs_next_plan_id st) p (fs_plans st)))"
    unfolding all using ids(1,2) acts(2) new by fastforce
  show "nxta \<noteq> 0" using ids(3) le by (auto simp: word_neq_0_conv)
  show "\<forall>i \<in> set (all_ids (bt_insert (fs_next_plan_id st) p (fs_plans st))). i \<noteq> 0 \<and> i < nxta"
  proof
    fix i assume "i \<in> set (all_ids (bt_insert (fs_next_plan_id st) p (fs_plans st)))"
    then consider "i \<in> set (all_ids (fs_plans st))" | "i \<in> set (plan_ids p)" by (auto simp: all)
    then show "i \<noteq> 0 \<and> i < nxta"
    proof cases
      case 1
      with ids(2) le show ?thesis by (auto intro: less_le_trans)
    next
      case 2
      from new [OF this] ids(3) show ?thesis by (auto simp: word_neq_0_conv)
    qed
  qed
qed

text \<open>
  \<open>ActionFabric::prepare_plan\<close> either changes nothing, or adds exactly one plan under an unused
  identifier: one prepared action per node of the graph, in order, each with its own payload that
  the registry accepts for the node's capability, all payloads used. The fabric invariant is kept, so
  no two actions of any plans share an identifier.
\<close>

theorem prepare_plan_result:
  assumes valid: "fabric_valid (af_registry f) (af_state f)"
    and run: "prepare_plan task_id graph payloads f = (res, f')"
  shows "fabric_valid (af_registry f') (af_state f') \<and>
    (case res of
      Inl _ \<Rightarrow> f' = f
    | Inr i \<Rightarrow> plan_at f i = None \<and> (\<forall>j. j \<noteq> i \<longrightarrow> plan_at f' j = plan_at f j)
        \<and> (\<exists>p. plan_at f' i = Some p \<and> ps_task_id p = task_id \<and> ps_cursor p = 0 \<and> ps_status p = PReady
            \<and> map pa_node_id (ps_actions p) = map an_id (tg_actions graph)
            \<and> map pa_capability (ps_actions p) = map an_capability (tg_actions graph)
            \<and> map (\<lambda>a. Some (pa_action a)) (ps_actions p) = map (bt_get payloads \<circ> an_id) (tg_actions graph)
            \<and> (\<forall>a \<in> set (ps_actions p). pa_status a = APrepared)
            \<and> dom (bt_get payloads) = an_id ` set (tg_actions graph)))"
proof (cases res)
  case (Inl e)
  with run have "f' = f" by (simp add: prepare_plan_fails)
  with Inl valid show ?thesis by simp
next
  case (Inr i)
  let ?st = "af_state f"
  from prepare_plan_shape [OF run [unfolded Inr]] obtain vs nxtp k nxta actions where
      task: "task_id \<noteq> 0" and vs: "validate_nodes (af_registry f) (tg_actions graph) {} payloads = Inr (vs, [])"
      and nxtp: "checked_add (fs_next_plan_id ?st) 1 = Some nxtp" and k: "u64_try_from_usize (length vs) = Some k"
      and nxta: "checked_add (fs_next_action_id ?st) k = Some nxta"
      and build: "build_actions (fs_next_action_id ?st) 0 vs = Inr actions" and i: "i = fs_next_plan_id ?st"
      and f': "f' = f\<lparr>af_state := \<lparr>fs_next_plan_id = nxtp, fs_next_action_id = nxta,
        fs_plans = bt_insert i \<lparr>ps_id = i, ps_task_id = task_id, ps_cursor = 0, ps_status = PReady,
          ps_actions = actions\<rparr> (fs_plans ?st)\<rparr>\<rparr>" .
  let ?p = "\<lparr>ps_id = i, ps_task_id = task_id, ps_cursor = 0, ps_status = PReady, ps_actions = actions\<rparr>"
  have tab: "table_ok ps_id (plan_valid (af_registry f)) (fs_next_plan_id ?st) (fs_plans ?st)"
    using valid by (simp add: fabric_valid_def)
  note vn = validate_nodes_Inr [OF vs]
  have "\<forall>v \<in> set vs. node_checked (af_registry f) payloads v" using vn by blast
  note acts = built_actions [OF build this k nxta]
  have p: "plan_valid (af_registry f) ?p"
    using acts(1) task by (auto simp: plan_valid_def)
  have ids: "distinct (all_ids (fs_plans ?st))" "\<forall>i \<in> set (all_ids (fs_plans ?st)). i \<noteq> 0 \<and> i < fs_next_action_id ?st"
      "fs_next_action_id ?st \<noteq> 0"
    using valid by (simp_all add: fabric_valid_def)
  have new: "ps_id ?p = fs_next_plan_id ?st"
      "\<forall>a \<in> set (ps_actions ?p). pa_id a < nxta \<and> fs_next_action_id ?st \<le> pa_id a" "distinct (plan_ids ?p)"
    using acts(1,2) by (simp_all add: i plan_ids_def)
  note tabs = prepared_tables [OF tab ids nxtp nxta p new]
  have "fabric_valid (af_registry f') (af_state f')"
    unfolding fabric_valid_def using tabs by (simp add: f' i)
  moreover have "map (\<lambda>a. Some (pa_action a)) actions = map (bt_get payloads \<circ> an_id) (tg_actions graph)"
  proof -
    have "map (\<lambda>a. Some (pa_action a)) actions = map (\<lambda>v. Some (fst (snd v))) vs"
      using arg_cong [OF acts(5), of "map Some"] by (simp add: comp_def)
    also have "\<dots> = map (\<lambda>v. bt_get payloads (an_id (fst v))) vs"
      using vn by (auto simp: node_checked_def)
    also have "\<dots> = map (bt_get payloads \<circ> an_id) (map fst vs)" by simp
    finally show ?thesis using vn by simp
  qed
  moreover have nodes: "map (\<lambda>v. an_id (fst v)) vs = map an_id (tg_actions graph)"
      "map (\<lambda>v. an_capability (fst v)) vs = map an_capability (tg_actions graph)"
      "set (tg_actions graph) = fst ` set vs"
    using conjunct1 [OF vn, symmetric] by simp_all
  moreover have "dom (bt_get payloads) = an_id ` set (tg_actions graph)"
    using vn by (fastforce simp: nodes(3) node_checked_def dom_def split: if_splits)
  ultimately show ?thesis
    using Inr acts table_fresh_get [OF tab]
    by (auto simp: f' i btm.get_ins [OF table_okD(1) [OF tab]])
qed

theorem prepare_plan_result_witness:
  "\<exists>f'. prepare_plan 7 \<lparr>tg_actions = [\<lparr>an_id = 4, an_capability = ''c'', an_side_effect = Reversible,
      an_verification_required = True\<rparr>]\<rparr> [(4, FileRead ''p'')] (sample_fabric 0 done_plan) = (Inr 2, f')
    \<and> fabric_valid (af_registry f') (af_state f') \<and> plan_at f' 1 = Some done_plan"
proof -
  have "fst (prepare_plan 7 \<lparr>tg_actions = [\<lparr>an_id = 4, an_capability = ''c'', an_side_effect = Reversible,
      an_verification_required = True\<rparr>]\<rparr> [(4, FileRead ''p'')] (sample_fabric 0 done_plan)) = Inr 2"
    by code_simp
  then obtain f' where run: "prepare_plan 7 \<lparr>tg_actions = [\<lparr>an_id = 4, an_capability = ''c'',
      an_side_effect = Reversible, an_verification_required = True\<rparr>]\<rparr> [(4, FileRead ''p'')]
      (sample_fabric 0 done_plan) = (Inr 2, f')"
    by (metis prod.collapse)
  from prepare_plan_result [OF _ run] sample_plans_valid(2) run show ?thesis by auto
qed

section \<open>Properties of rollback\<close>

definition needs_rollback :: "planned_action \<Rightarrow> bool" where
  "needs_rollback a \<longleftrightarrow> \<not> (pa_side_effect a = ReadOnly \<or> pa_status a = APrepared \<or> pa_status a = ARolledBack)"

definition undone :: "planned_action \<Rightarrow> planned_action" where
  "undone a = (if needs_rollback a then a\<lparr>pa_status := ARolledBack\<rparr> else a)"

text \<open>The calls of the adapters' \<open>rollback\<close>, in order, each of which succeeds.\<close>

fun undo_calls :: "(string, 'w capability_adapter) btmap \<Rightarrow> planned_action list \<Rightarrow> 'w \<Rightarrow> 'w option" where
  "undo_calls adapters [] w = Some w"
| "undo_calls adapters (a # as) w = (case (bt_get adapters (pa_capability a), pa_rollback_token a) of
      (Some ad, Some token) \<Rightarrow> (case ad_rollback ad (pa_id a) (pa_action a) token w of
          (Inr _, w') \<Rightarrow> undo_calls adapters as w' | _ \<Rightarrow> None)
    | _ \<Rightarrow> None)"

text \<open>The plan after the actions from position \<open>n\<close> on were undone.\<close>

definition partly_undone :: "action_plan_state \<Rightarrow> nat \<Rightarrow> action_plan_state" where
  "partly_undone p n = p\<lparr>ps_actions := take n (ps_actions p) @ map undone (drop n (ps_actions p))\<rparr>"

lemma partly_undone_step:
  assumes "n < length (ps_actions p)"
  shows "(ps_actions (partly_undone p (Suc n)))[n := undone (ps_actions p ! n)] = ps_actions (partly_undone p n)"
    and "\<not> needs_rollback (ps_actions p ! n) \<Longrightarrow> partly_undone p (Suc n) = partly_undone p n"
    and "ps_actions (partly_undone p (Suc n)) ! n = ps_actions p ! n"
    and "length (ps_actions (partly_undone p n)) = length (ps_actions p)"
  using assms
  by (simp_all add: partly_undone_def take_Suc_conv_app_nth nth_append list_update_append
      Cons_nth_drop_Suc [symmetric] undone_def)

lemma rollback_loop_skip:
  "\<not> needs_rollback a \<Longrightarrow> rollback_loop i ((n, a) # rest) = rollback_loop i rest"
  by (auto simp: needs_rollback_def)

lemma rollback_loop_undo:
  assumes "needs_rollback a"
  shows "rollback_loop i ((n, a) # rest) =
    sbind (sget (\<lambda>r. registry_descriptor (af_registry (fst r)) (pa_capability a))) (\<lambda>d.
    sbind (slift (map_err CapabilityErr d)) (\<lambda>descriptor.
    if \<not> cd_rollback_supported descriptor then sfail (RollbackUnavailable (pa_id a)) else
    sbind (slift (ok_or (RollbackUnavailable (pa_id a)) (pa_rollback_token a))) (\<lambda>token.
    sbind (on_self (get_adapter (pa_capability a))) (\<lambda>adapter.
    sbind (call_out (ad_rollback adapter (pa_id a) (pa_action a) token)) (\<lambda>r.
    sbind (slift (map_err (RollbackFailure (pa_capability a)) r)) (\<lambda>_.
    sbind (on_self (action_mut i n (\<lambda>s. s\<lparr>pa_status := ARolledBack\<rparr>))) (\<lambda>_.
    rollback_loop i rest)))))))"
  using assms by (simp add: needs_rollback_def)

lemma wp_rollback_loop:
  assumes wf: "bt_wf (fs_plans (af_state f))" and n: "n \<le> length (ps_actions p)"
  shows "wp (rollback_loop i (rev (List.enumerate 0 (take n (ps_actions p)))))
    (\<lambda>_ r. fst r = with_plan i (partly_undone p 0) f
      \<and> undo_calls (af_adapters f) (filter needs_rollback (rev (take n (ps_actions p)))) w = Some (snd r))
    (\<lambda>_ r. \<exists>m. m \<le> n \<and> fst r = with_plan i (partly_undone p m) f)
    (with_plan i (partly_undone p n) f, w)"
  using n
proof (induction n arbitrary: w)
  case 0
  then show ?case by (simp add: wp_simps)
next
  case (Suc n)
  let ?a = "ps_actions p ! n"
  have n: "n < length (ps_actions p)" using Suc.prems by simp
  note step = partly_undone_step [OF n]
  have list: "rev (List.enumerate 0 (take (Suc n) (ps_actions p))) =
      (n, ?a) # rev (List.enumerate 0 (take n (ps_actions p)))"
    using n by (simp add: take_Suc_conv_app_nth enumerate_append_eq)
  have plain: "rev (take (Suc n) (ps_actions p)) = ?a # rev (take n (ps_actions p))"
    using n by (simp add: take_Suc_conv_app_nth)
  have rest: "wp (rollback_loop i (rev (List.enumerate 0 (take n (ps_actions p)))))
      (\<lambda>_ r. fst r = with_plan i (partly_undone p 0) f
        \<and> undo_calls (af_adapters f) (filter needs_rollback (rev (take n (ps_actions p)))) w' = Some (snd r))
      (\<lambda>_ r. \<exists>m. m \<le> Suc n \<and> fst r = with_plan i (partly_undone p m) f)
      (with_plan i (partly_undone p n) f, w')" for w'
    by (rule wp_conseq [OF Suc.IH]) (use n in \<open>auto intro: le_SucI\<close>)
  show ?case
  proof (cases "needs_rollback ?a")
    case False
    show ?thesis
      unfolding list plain rollback_loop_skip [OF False] step(2) [OF False] filter.simps if_not_P [OF False]
      by (rule rest)
  next
    case True
    have put: "(partly_undone p (Suc n))\<lparr>ps_actions := (ps_actions (partly_undone p (Suc n)))[n := ?a\<lparr>pa_status := ARolledBack\<rparr>]\<rparr>
        = partly_undone p n"
      using step(1) True by (simp add: undone_def partly_undone_def)
    have len: "n < length (ps_actions (partly_undone p (Suc n)))" using n by (simp add: partly_undone_def)
    have here: "\<exists>m. m \<le> Suc n \<and> with_plan i (partly_undone p (Suc n)) f = with_plan i (partly_undone p m) f" by blast
    show ?thesis
      unfolding list plain rollback_loop_undo [OF True] filter.simps if_P [OF True] undo_calls.simps
      using rest here
      by (auto simp: wp_simps btm.get_ins [OF wf] put step(3) len split: sum.splits option.splits prod.splits)
  qed
qed

lemma undone_simps [simp]:
  "pa_id (undone a) = pa_id a" "action_fits registry (undone a) = action_fits registry a"
  "pa_status a = APrepared \<Longrightarrow> undone a = a"
  by (simp_all add: undone_def action_fits_def needs_rollback_def)

lemma partly_undone_all: "partly_undone p (length (ps_actions p)) = p"
  by (simp add: partly_undone_def)

lemma rolled_back_valid:
  "plan_valid registry p \<Longrightarrow> plan_valid registry ((partly_undone p 0)\<lparr>ps_status := PRolledBack\<rparr>)"
  by (auto simp: plan_valid_def partly_undone_def)

lemma wp_rollback_plan:
  assumes wf: "bt_wf (fs_plans (af_state f))" and p: "plan_at f i = Some p"
  shows "wp (rollback_plan i)
    (\<lambda>rep r. undo_calls (af_adapters f) (filter needs_rollback (rev (ps_actions p))) w = Some (snd r)
      \<and> fst r = with_plan i ((partly_undone p 0)\<lparr>ps_status := PRolledBack\<rparr>) f \<and> sr_plan_status rep = PRolledBack)
    (\<lambda>_ r. \<exists>m \<le> length (ps_actions p). fst r = with_plan i (partly_undone p m) f) (f, w)"
proof -
  have f: "with_plan i p f = f" using wf p by (rule with_plan_same)
  have loop: "wp (rollback_loop i (rev (List.enumerate 0 (ps_actions p))))
      (\<lambda>_ r. fst r = with_plan i (partly_undone p 0) f
        \<and> undo_calls (af_adapters f) (filter needs_rollback (rev (ps_actions p))) w = Some (snd r))
      (\<lambda>_ r. \<exists>m. m \<le> length (ps_actions p) \<and> fst r = with_plan i (partly_undone p m) f) (f, w)"
    using wp_rollback_loop [OF wf, of "length (ps_actions p)" p i w] by (simp add: partly_undone_all f)
  show ?thesis
    unfolding rollback_plan_def wp_sbind wp_on_self wp_get_plan
    using p by (simp, intro wp_conseq [OF loop])
      (auto simp: wp_simps btm.get_ins [OF wf] step_report_def)
qed

text \<open>
  C33: a successful \<open>ActionFabric::rollback_plan\<close> undoes everything and in the right order: the
  adapters' \<open>rollback\<close> was called, with success, exactly for the actions that had taken effect, last
  one first; each of these is marked as rolled back, so that no action of the plan with a side effect
  is left committed; the plan is rolled back and the fabric invariant holds. If it fails, what was
  undone and marked before the failure is an end piece of the plan, and nothing else has changed.
\<close>

theorem rollback_plan_undoes:
  assumes valid: "fabric_valid (af_registry f) (af_state f)" and p: "plan_at f i = Some p"
    and run: "rollback_plan i (f, w) = (res, (f', w'))"
  shows "case res of
      Inl _ \<Rightarrow> (\<exists>m \<le> length (ps_actions p). f' = with_plan i (partly_undone p m) f)
    | Inr rep \<Rightarrow> undo_calls (af_adapters f) (filter needs_rollback (rev (ps_actions p))) w = Some w'
        \<and> f' = with_plan i (p\<lparr>ps_actions := map undone (ps_actions p), ps_status := PRolledBack\<rparr>) f
        \<and> fabric_valid (af_registry f') (af_state f')
        \<and> (\<forall>a \<in> undone ` set (ps_actions p). \<not> needs_rollback a)
        \<and> sr_plan_status rep = PRolledBack"
proof -
  note pv = plan_at_valid [OF valid p]
  let ?p' = "(partly_undone p 0)\<lparr>ps_status := PRolledBack\<rparr>"
  have tab: "table_ok ps_id (plan_valid (af_registry f)) (fs_next_plan_id (af_state f)) (fs_plans (af_state f))"
    using valid by (simp add: fabric_valid_def)
  have "plan_ids ?p' = plan_ids p" by (simp add: plan_ids_def partly_undone_def comp_def)
  then have valid': "fabric_valid (af_registry f) (af_state (with_plan i ?p' f))"
    using valid rolled_back_valid [OF pv(2)] table_ok_update [OF tab p, of ?p'] all_ids_with_plan [OF pv(3) p]
    by (simp add: fabric_valid_def partly_undone_def)
  from wp_run [OF wp_rollback_plan [OF pv(3) p] run] show ?thesis
    using valid' by (auto simp: partly_undone_def needs_rollback_def undone_def split: sum.splits)
qed

theorem rollback_plan_undoes_witness:
  "\<exists>rep f'. rollback_plan 1 (sample_fabric 0 done_plan, []) = (Inr rep, (f', [1, 2]))
    \<and> fabric_valid (af_registry f') (af_state f')
    \<and> undo_calls [(''c'', log_adapter 0)] (filter needs_rollback (rev (ps_actions done_plan))) [] = Some [1, 2]"
proof -
  have "case rollback_plan 1 (sample_fabric 0 done_plan, []) of (Inr rep, (f', w')) \<Rightarrow> w' = [1, 2] | _ \<Rightarrow> False"
    by code_simp
  then obtain rep f' where run: "rollback_plan 1 (sample_fabric 0 done_plan, []) = (Inr rep, (f', [1, 2]))"
    by (auto split: prod.splits sum.splits)
  have "fabric_valid (af_registry (sample_fabric 0 done_plan)) (af_state (sample_fabric 0 done_plan))"
    "plan_at (sample_fabric 0 done_plan) 1 = Some done_plan"
    using sample_plans_valid(2) by simp_all
  from rollback_plan_undoes [OF this run] run show ?thesis
    unfolding sum.case sample_fabric_simps(3) by blast
qed

text \<open>
  A rollback that fails half-way leaves a state the fabric itself rejects: the action that was
  undone first is marked as rolled back while the plan still counts as completed, so that
  \<open>from_state\<close>, and with it the checkpoint encoder, refuses the state.
\<close>

theorem rollback_failure_invalidates:
  "validate_fabric_state sample_registry (af_state (sample_fabric 1 done_plan)) = Inr ()
    \<and> (case rollback_plan 1 (sample_fabric 1 done_plan, []) of
        (res, (f', w')) \<Rightarrow> res = Inl (RollbackFailure ''c'' ''no'') \<and> w' = [2]
          \<and> validate_fabric_state sample_registry (af_state f') = Inl InvalidState)"
proof (rule conjI)
  show "validate_fabric_state sample_registry (af_state (sample_fabric 1 done_plan)) = Inr ()" by code_simp
  show "case rollback_plan 1 (sample_fabric 1 done_plan, []) of
        (res, (f', w')) \<Rightarrow> res = Inl (RollbackFailure ''c'' ''no'') \<and> w' = [2]
          \<and> validate_fabric_state sample_registry (af_state f') = Inl InvalidState"
    by code_simp
qed

definition suspended_plan :: action_plan_state where
  "suspended_plan = sample_plan 0 PSuspended
    ((sample_action 1 ASuspended)\<lparr>pa_resume_token := Some [9]\<rparr>) (sample_action 2 APrepared)"

text \<open>
  A suspended action loses its resumption when no adapter is there: the failed call marks it as
  running and keeps its token, and the next call, with the adapter back, executes it from the start
  instead of resuming it.
\<close>

theorem missing_adapter_forgets_suspension:
  "validate_fabric_state sample_registry (af_state (sample_fabric 0 suspended_plan)) = Inr ()
    \<and> use_resume (ps_actions suspended_plan ! 0)
    \<and> (case execute_next agreeing 1 authority_grant_new
          ((sample_fabric 0 suspended_plan)\<lparr>af_adapters := []\<rparr>, []) of
        (res, (f', w')) \<Rightarrow> res = Inl (MissingAdapter ''c'') \<and> w' = []
          \<and> (case plan_at f' 1 of None \<Rightarrow> False | Some p \<Rightarrow>
              pa_resume_token (ps_actions p ! 0) = Some [9] \<and> \<not> use_resume (ps_actions p ! 0)))"
proof (intro conjI)
  show "validate_fabric_state sample_registry (af_state (sample_fabric 0 suspended_plan)) = Inr ()" by code_simp
  show "use_resume (ps_actions suspended_plan ! 0)" by code_simp
  show "case execute_next agreeing 1 authority_grant_new
          ((sample_fabric 0 suspended_plan)\<lparr>af_adapters := []\<rparr>, []) of
        (res, (f', w')) \<Rightarrow> res = Inl (MissingAdapter ''c'') \<and> w' = []
          \<and> (case plan_at f' 1 of None \<Rightarrow> False | Some p \<Rightarrow>
              pa_resume_token (ps_actions p ! 0) = Some [9] \<and> \<not> use_resume (ps_actions p ! 0))"
    by code_simp
qed

end
