(* ===== verification/Transition_Systems.thy ===== *)
theory Transition_Systems
  imports Main
begin

text \<open>
  Refinement between a concrete and an abstract transition system, as the theories
  \<open>Fabric_Protocol\<close> and \<open>Kernel_Protocol\<close> use it: the concrete system keeps an invariant, and under
  it every concrete step is some number of steps of the abstract one.
\<close>

section \<open>Simulation\<close>

text \<open>
  A concrete transition system with an invariant, and an abstraction under which every step is some
  abstract steps.
\<close>

locale simulation =
  fixes cstep :: "'c \<Rightarrow> 'c \<Rightarrow> bool" and inv :: "'c \<Rightarrow> bool" and astep :: "'a \<Rightarrow> 'a \<Rightarrow> bool"
    and abs :: "'c \<Rightarrow> 'a"
  assumes inv_step: "cstep s s' \<Longrightarrow> inv s \<Longrightarrow> inv s'"
    and abs_step: "cstep s s' \<Longrightarrow> inv s \<Longrightarrow> astep\<^sup>*\<^sup>* (abs s) (abs s')"
begin

lemma inv_steps: "cstep\<^sup>*\<^sup>* s s' \<Longrightarrow> inv s \<Longrightarrow> inv s'"
  by (induction rule: rtranclp_induct) (auto intro: inv_step)

lemma abs_steps: "cstep\<^sup>*\<^sup>* s s' \<Longrightarrow> inv s \<Longrightarrow> astep\<^sup>*\<^sup>* (abs s) (abs s')"
proof (induction rule: rtranclp_induct)
  case (step s' s'')
  from abs_step [OF step.hyps(2) inv_steps [OF step.hyps(1) step.prems]] step.IH [OF step.prems]
  show ?case by (rule rtranclp_trans [rotated])
qed simp

end

end
