(* ===== verification/Fabric_Protocol.thy ===== *)
theory Fabric_Protocol
  imports Action_Fabric Transition_Systems
begin

text \<open>
  The action fabric as a transition system. \<open>fabric_step\<close> has one rule per operation of
  \<open>ActionFabric\<close> that changes state, for all verifiers and authorities and on every outcome, failed
  rollbacks included. Over it: the types of planned actions are sound in every reachable state, the
  fabric refines an abstract life cycle of plans (\<open>lifecycle\<close>), and a plan whose adapters complete
  and whose outputs are accepted runs to its end.
\<close>

section \<open>The concrete transition system\<close>

inductive fabric_step :: "'w action_fabric \<times> 'w \<Rightarrow> 'w action_fabric \<times> 'w \<Rightarrow> bool" where
  execute: "execute_next verifier i authority r = (res, r') \<Longrightarrow> fabric_step r r'"
| undo: "rollback_plan i r = (res, r') \<Longrightarrow> fabric_step r r'"
| prepare: "prepare_plan task_id graph payloads f = (res, f') \<Longrightarrow> fabric_step (f, w) (f', w)"
| adapter: "register_adapter cap ad f = (res, f') \<Longrightarrow> fabric_step (f, w) (f', w)"
| outside: "fabric_step (f, w) (f, w')"

section \<open>Sound types\<close>

definition plan_typed :: "capability_registry \<Rightarrow> action_plan_state \<Rightarrow> bool" where
  "plan_typed registry p \<longleftrightarrow> (\<forall>a \<in> set (ps_actions p). action_fits registry a)
    \<and> int (length (ps_actions p)) < usize_bound"

definition fabric_typed :: "capability_registry \<Rightarrow> action_fabric_state \<Rightarrow> bool" where
  "fabric_typed registry st \<longleftrightarrow>
    table_ok ps_id (plan_typed registry) (fs_next_plan_id st) (fs_plans st)
    \<and> distinct (all_ids (fs_plans st))
    \<and> (\<forall>i \<in> set (all_ids (fs_plans st)). i \<noteq> 0 \<and> i < fs_next_action_id st) \<and> fs_next_action_id st \<noteq> 0"

lemma fabric_valid_typed:
  assumes "fabric_valid registry st"
    and "\<forall>e \<in> set (fs_plans st). int (length (ps_actions (snd e))) < usize_bound"
  shows "fabric_typed registry st"
  using assms by (fastforce simp: fabric_valid_def fabric_typed_def table_ok_def plan_typed_def plan_valid_def)

lemma fabric_typed_new: "fabric_typed registry (af_state (fabric_new registry))"
  by (simp add: fabric_typed_def fabric_new_def fabric_state_default_def all_ids_def)

lemma fabric_typed_plan:
  assumes "fabric_typed registry (af_state f)" and "plan_at f i = Some p"
  shows "bt_wf (fs_plans (af_state f))" "plan_typed registry p" "ps_id p = i"
  using assms table_okD(1) [of ps_id] table_ok_get [of ps_id "plan_typed registry"]
  by (auto simp: fabric_typed_def)

interpretation typed_plans: plan_property plan_typed
  by unfold_locales (auto simp: plan_typed_def dest!: set_update_subset_insert [THEN subsetD])

text \<open>Replacing a plan by one with the same actions, as far as they were planned.\<close>

lemma fabric_typed_with_plan:
  assumes typed: "fabric_typed registry (af_state f)" and p: "plan_at f i = Some p"
    and p': "plan_typed registry p'" "ps_id p' = ps_id p" "plan_ids p' = plan_ids p"
  shows "fabric_typed registry (af_state (with_plan i p' f))"
proof -
  have tab: "table_ok ps_id (plan_typed registry) (fs_next_plan_id (af_state f)) (fs_plans (af_state f))"
    using typed by (simp add: fabric_typed_def)
  show ?thesis
    using typed table_ok_update [OF tab p p'(2,1)] all_ids_with_plan [OF table_okD(1) [OF tab] p p'(3)]
    by (simp add: fabric_typed_def)
qed

lemma undone_plan_typed:
  "plan_typed registry p \<Longrightarrow> plan_typed registry (partly_undone p m)"
  "plan_typed registry p \<Longrightarrow> plan_typed registry ((partly_undone p m)\<lparr>ps_status := st\<rparr>)"
  by (auto simp: plan_typed_def partly_undone_def dest: in_set_takeD in_set_dropD)

lemma undone_plan_ids:
  "plan_ids (partly_undone p m) = plan_ids p" "plan_ids ((partly_undone p m)\<lparr>ps_status := st\<rparr>) = plan_ids p"
  "ps_id (partly_undone p m) = ps_id p"
  by (simp_all add: plan_ids_def partly_undone_def comp_def flip: take_map drop_map)

lemma register_adapter_state:
  "register_adapter cap ad f = (res, f') \<Longrightarrow> af_state f' = af_state f \<and> af_registry f' = af_registry f"
  by (auto simp: register_adapter_def result_simps split: if_splits sum.splits)

text \<open>What each operation does to the plans, once more without asking for more than types.\<close>

lemma execute_next_typed:
  assumes typed: "fabric_typed (af_registry f) (af_state f)" and p: "plan_at f i = Some p"
    and run: "execute_next verifier i authority (f, w) = (res, r')"
  shows "\<exists>p'. fst r' = with_plan i p' f \<and> plan_typed (af_registry f) p' \<and> plan_frame p p'"
proof -
  note pl = fabric_typed_plan [OF typed p]
  have "int (length (ps_actions p)) < usize_bound" using pl(2) by (simp add: plan_typed_def)
  from wp_run [OF typed_plans.wp_execute_next [OF pl(1,2) p this] run] show ?thesis
    by (simp add: replaced_def split: sum.splits)
qed

lemma rollback_plan_typed:
  assumes typed: "fabric_typed (af_registry f) (af_state f)" and p: "plan_at f i = Some p"
    and run: "rollback_plan i (f, w) = (res, r')"
  shows "\<exists>p'. fst r' = with_plan i p' f \<and> plan_typed (af_registry f) p' \<and> ps_id p' = ps_id p
    \<and> plan_ids p' = plan_ids p \<and> ps_cursor p' = ps_cursor p \<and> (ps_status p' = ps_status p \<or> ps_status p' = PRolledBack)"
proof -
  note pl = fabric_typed_plan [OF typed p]
  note run = wp_run [OF wp_rollback_plan [OF pl(1) p] run]
  show ?thesis
  proof (cases res)
    case (Inl e)
    with run obtain m where "fst r' = with_plan i (partly_undone p m) f" by auto
    with pl(2) show ?thesis
      by (intro exI [of _ "partly_undone p m"]) (simp add: undone_plan_typed undone_plan_ids, simp add: partly_undone_def)
  next
    case (Inr rep)
    with run have "fst r' = with_plan i ((partly_undone p 0)\<lparr>ps_status := PRolledBack\<rparr>) f" by simp
    with pl(2) show ?thesis
      by (intro exI [of _ "(partly_undone p 0)\<lparr>ps_status := PRolledBack\<rparr>"])
        (simp add: undone_plan_typed undone_plan_ids, simp add: partly_undone_def)
  qed
qed

lemma prepare_plan_typed:
  assumes typed: "fabric_typed (af_registry f) (af_state f)"
    and run: "prepare_plan task_id graph payloads f = (Inr i, f')"
  shows "fabric_typed (af_registry f') (af_state f') \<and> af_registry f' = af_registry f \<and> plan_at f i = None
    \<and> (\<forall>j. j \<noteq> i \<longrightarrow> plan_at f' j = plan_at f j)"
proof -
  let ?st = "af_state f"
  from prepare_plan_shape [OF run] obtain vs nxtp k nxta actions where
      vs: "validate_nodes (af_registry f) (tg_actions graph) {} payloads = Inr (vs, [])"
      and nxtp: "checked_add (fs_next_plan_id ?st) 1 = Some nxtp" and k: "u64_try_from_usize (length vs) = Some k"
      and nxta: "checked_add (fs_next_action_id ?st) k = Some nxta"
      and build: "build_actions (fs_next_action_id ?st) 0 vs = Inr actions" and i: "i = fs_next_plan_id ?st"
      and f': "f' = f\<lparr>af_state := \<lparr>fs_next_plan_id = nxtp, fs_next_action_id = nxta,
        fs_plans = bt_insert i \<lparr>ps_id = i, ps_task_id = task_id, ps_cursor = 0, ps_status = PReady,
          ps_actions = actions\<rparr> (fs_plans ?st)\<rparr>\<rparr>" .
  let ?p = "\<lparr>ps_id = i, ps_task_id = task_id, ps_cursor = 0, ps_status = PReady, ps_actions = actions\<rparr>"
  have "\<forall>v \<in> set vs. node_checked (af_registry f) payloads v" using validate_nodes_Inr [OF vs] by blast
  note acts = built_actions [OF build this k nxta]
  have "length actions = length vs" using build_actions_Inr [OF build] by blast
  then have p: "plan_typed (af_registry f) ?p"
    using acts(1) k by (auto simp: plan_typed_def u64_try_from_usize_def split: if_splits)
  have tab: "table_ok ps_id (plan_typed (af_registry f)) (fs_next_plan_id ?st) (fs_plans ?st)"
    and ids: "distinct (all_ids (fs_plans ?st))" "\<forall>i \<in> set (all_ids (fs_plans ?st)). i \<noteq> 0 \<and> i < fs_next_action_id ?st"
      "fs_next_action_id ?st \<noteq> 0"
    using typed by (simp_all add: fabric_typed_def)
  have new: "ps_id ?p = fs_next_plan_id ?st"
      "\<forall>a \<in> set (ps_actions ?p). pa_id a < nxta \<and> fs_next_action_id ?st \<le> pa_id a" "distinct (plan_ids ?p)"
    using acts(1,2) by (simp_all add: i plan_ids_def)
  show ?thesis
    unfolding fabric_typed_def
    using prepared_tables [OF tab ids nxtp nxta p new] table_fresh_get [OF tab]
    by (simp add: f' i btm.get_ins [OF table_okD(1) [OF tab]])
qed

text \<open>The invariant of the transition system.\<close>

definition typed_under :: "capability_registry \<Rightarrow> 'w action_fabric \<times> 'w \<Rightarrow> bool" where
  "typed_under registry r \<longleftrightarrow> af_registry (fst r) = registry \<and> fabric_typed registry (af_state (fst r))"

lemma missing_plan_run:
  assumes "plan_at f i = None"
  shows "execute_next verifier i authority (f, w) = (res, r') \<Longrightarrow> r' = (f, w)"
    and "rollback_plan i (f, w) = (res, r') \<Longrightarrow> r' = (f, w)"
  using assms by (simp_all add: execute_next_def rollback_plan_def get_plan_def on_self_def result_simps)

lemma fabric_step_typed:
  assumes "fabric_step r r'" and "typed_under registry r"
  shows "typed_under registry r'"
  using assms(1)
proof (cases rule: fabric_step.cases)
  case (execute verifier i authority res)
  obtain f w where r: "r = (f, w)" by (cases r)
  have typed: "fabric_typed (af_registry f) (af_state f)" "af_registry f = registry"
    using assms(2) by (simp_all add: r typed_under_def)
  show ?thesis
  proof (cases "plan_at f i")
    case None
    with missing_plan_run(1) [OF None execute [unfolded r]] assms(2) show ?thesis by (simp add: r)
  next
    case (Some p)
    from execute_next_typed [OF typed(1) Some execute [unfolded r]] show ?thesis
      using fabric_typed_with_plan [OF typed(1) Some] plan_frame_ids typed(2)
      by (auto simp: typed_under_def plan_frame_def)
  qed
next
  case (undo i res)
  obtain f w where r: "r = (f, w)" by (cases r)
  have typed: "fabric_typed (af_registry f) (af_state f)" "af_registry f = registry"
    using assms(2) by (simp_all add: r typed_under_def)
  show ?thesis
  proof (cases "plan_at f i")
    case None
    with missing_plan_run(2) [OF None undo [unfolded r]] assms(2) show ?thesis by (simp add: r)
  next
    case (Some p)
    from rollback_plan_typed [OF typed(1) Some undo [unfolded r]] show ?thesis
      using fabric_typed_with_plan [OF typed(1) Some] typed(2) by (auto simp: typed_under_def)
  qed
next
  case (prepare task_id graph payloads f res f' w)
  have typed: "fabric_typed (af_registry f) (af_state f)" "af_registry f = registry"
    using assms(2) prepare by (simp_all add: typed_under_def)
  show ?thesis
  proof (cases res)
    case (Inl e)
    from prepare_plan_fails [OF prepare(3) [unfolded Inl]] assms(2) prepare show ?thesis by (simp add: typed_under_def)
  next
    case (Inr i)
    from prepare_plan_typed [OF typed(1) prepare(3) [unfolded Inr]] typed(2) prepare show ?thesis
      by (auto simp: typed_under_def)
  qed
next
  case (adapter cap ad f res f' w)
  with assms(2) register_adapter_state [OF adapter(3)] show ?thesis by (simp add: typed_under_def)
next
  case (outside f w w')
  with assms(2) show ?thesis by (simp add: typed_under_def)
qed

section \<open>The life cycle of a plan\<close>

text \<open>
  What the rest of the system needs to know of a plan of \<open>n\<close> actions is its cursor and its status. A
  live plan may wait (a retry, a suspension), commit its current action, or fail; only the commit of
  the last action (or an empty rest) completes it; a rollback is possible at any time and final.
\<close>

type_synonym plan_view = "nat \<times> action_plan_status"

definition view :: "action_plan_state \<Rightarrow> plan_view" where
  "view p = (ps_cursor p, ps_status p)"

inductive lifecycle :: "nat \<Rightarrow> plan_view \<Rightarrow> plan_view \<Rightarrow> bool" for n where
  wait: "c < n \<Longrightarrow> \<not> plan_terminal st \<Longrightarrow> \<not> plan_terminal st' \<Longrightarrow> lifecycle n (c, st) (c, st')"
| commit: "c < n \<Longrightarrow> \<not> plan_terminal st \<Longrightarrow> lifecycle n (c, st) (Suc c, if n \<le> Suc c then PCompleted else PReady)"
| fail: "c < n \<Longrightarrow> \<not> plan_terminal st \<Longrightarrow> lifecycle n (c, st) (c, PFailed)"
| exhaust: "n \<le> c \<Longrightarrow> \<not> plan_terminal st \<Longrightarrow> lifecycle n (c, st) (c, PCompleted)"
| revoke: "lifecycle n (c, st) (c, PRolledBack)"

inductive_simps lifecycle_from: "lifecycle n (c, st) v"

text \<open>
  A plan that has come from view \<open>v\<close> by the life cycle; execution keeps that, like any
  \<open>plan_property\<close>.
\<close>

definition plan_tracks :: "nat \<Rightarrow> plan_view \<Rightarrow> capability_registry \<Rightarrow> action_plan_state \<Rightarrow> bool" where
  "plan_tracks n v registry p \<longleftrightarrow> plan_typed registry p \<and> length (ps_actions p) = n \<and> (lifecycle n)\<^sup>*\<^sup>* v (view p)"

interpretation tracked_plans: plan_property "plan_tracks n v" for n v
proof (unfold_locales, goal_cases)
  case (1 registry p a)
  then show ?case by (simp add: plan_tracks_def plan_typed_def)
next
  case (2 registry p a st)
  then have "lifecycle n (view p) (ps_cursor p, st)"
    by (cases st) (auto simp: view_def lifecycle_from plan_tracks_def plan_terminal_def)
  with 2 typed_plans.pv_stay [of registry p a st] show ?case
    by (auto simp: plan_tracks_def view_def intro: rtranclp.rtrancl_into_rtrancl)
next
  case (3 registry p a c)
  then have "lifecycle n (view p) (c, if length (ps_actions p) \<le> c then PCompleted else PReady)"
    by (auto simp: view_def lifecycle_from plan_tracks_def plan_terminal_def)
  with 3 typed_plans.pv_commit [of registry p a c] show ?case
    by (auto simp: plan_tracks_def view_def intro: rtranclp.rtrancl_into_rtrancl)
next
  case (4 registry p)
  then have "lifecycle n (view p) (ps_cursor p, PCompleted)"
    by (auto simp: view_def lifecycle_from plan_tracks_def plan_terminal_def)
  with 4 typed_plans.pv_exhausted [of registry p] show ?case
    by (auto simp: plan_tracks_def view_def intro: rtranclp.rtrancl_into_rtrancl)
qed

lemma execute_next_tracks:
  assumes typed: "fabric_typed (af_registry f) (af_state f)" and p: "plan_at f i = Some p"
    and run: "execute_next verifier i authority (f, w) = (res, r')"
  shows "\<exists>p'. plan_at (fst r') i = Some p' \<and> length (ps_actions p') = length (ps_actions p)
    \<and> (lifecycle (length (ps_actions p)))\<^sup>*\<^sup>* (view p) (view p') \<and> (\<forall>j. j \<noteq> i \<longrightarrow> plan_at (fst r') j = plan_at f j)"
proof -
  note pl = fabric_typed_plan [OF typed p]
  have size: "int (length (ps_actions p)) < usize_bound" using pl(2) by (simp add: plan_typed_def)
  have "plan_tracks (length (ps_actions p)) (view p) (af_registry f) p" using pl(2) by (simp add: plan_tracks_def)
  from wp_run [OF tracked_plans.wp_execute_next [OF pl(1) this p size] run]
  obtain p' where "fst r' = with_plan i p' f" "plan_tracks (length (ps_actions p)) (view p) (af_registry f) p'"
    by (auto simp: replaced_def split: sum.splits)
  then show ?thesis by (auto simp: plan_tracks_def btm.get_ins [OF pl(1)])
qed

lemma rollback_plan_tracks:
  assumes typed: "fabric_typed (af_registry f) (af_state f)" and p: "plan_at f i = Some p"
    and run: "rollback_plan i (f, w) = (res, r')"
  shows "\<exists>p'. plan_at (fst r') i = Some p' \<and> length (ps_actions p') = length (ps_actions p)
    \<and> (lifecycle (length (ps_actions p)))\<^sup>*\<^sup>* (view p) (view p') \<and> (\<forall>j. j \<noteq> i \<longrightarrow> plan_at (fst r') j = plan_at f j)"
proof -
  note pl = fabric_typed_plan [OF typed p]
  from rollback_plan_typed [OF typed p run] obtain p' where p': "fst r' = with_plan i p' f"
      "plan_ids p' = plan_ids p" "ps_cursor p' = ps_cursor p" "ps_status p' = ps_status p \<or> ps_status p' = PRolledBack"
    by blast
  have "length (ps_actions p') = length (ps_actions p)" using arg_cong [OF p'(2), of length] by (simp add: plan_ids_def)
  moreover have "(lifecycle (length (ps_actions p)))\<^sup>*\<^sup>* (view p) (view p')"
    using p'(3,4) lifecycle.revoke by (auto simp: view_def intro: r_into_rtranclp)
  ultimately show ?thesis using p'(1) by (auto simp: btm.get_ins [OF pl(1)])
qed

text \<open>The view of plan \<open>i\<close> of \<open>n\<close> actions, as far as there is such a plan.\<close>

definition plan_view_of :: "action_plan_id \<Rightarrow> 'w action_fabric \<times> 'w \<Rightarrow> plan_view" where
  "plan_view_of i r = (case plan_at (fst r) i of Some p \<Rightarrow> view p | None \<Rightarrow> (0, PReady))"

definition has_plan :: "capability_registry \<Rightarrow> action_plan_id \<Rightarrow> nat \<Rightarrow> 'w action_fabric \<times> 'w \<Rightarrow> bool" where
  "has_plan registry i n r \<longleftrightarrow> typed_under registry r
    \<and> (\<exists>p. plan_at (fst r) i = Some p \<and> length (ps_actions p) = n)"

lemma fabric_step_tracks:
  assumes "fabric_step r r'" and "typed_under registry r" and "plan_at (fst r) i = Some p"
  shows "\<exists>p'. plan_at (fst r') i = Some p' \<and> length (ps_actions p') = length (ps_actions p)
    \<and> (lifecycle (length (ps_actions p)))\<^sup>*\<^sup>* (view p) (view p')"
  using assms(1)
proof (cases rule: fabric_step.cases)
  case (execute verifier j authority res)
  obtain f w where r: "r = (f, w)" by (cases r)
  have typed: "fabric_typed (af_registry f) (af_state f)" using assms(2) by (simp add: r typed_under_def)
  show ?thesis
  proof (cases "plan_at f j")
    case None
    from missing_plan_run(1) [OF None execute [unfolded r]] assms(3) show ?thesis by (simp add: r)
  next
    case (Some q)
    from execute_next_tracks [OF typed Some execute [unfolded r]] assms(3) Some show ?thesis
      by (cases "j = i") (auto simp: r)
  qed
next
  case (undo j res)
  obtain f w where r: "r = (f, w)" by (cases r)
  have typed: "fabric_typed (af_registry f) (af_state f)" using assms(2) by (simp add: r typed_under_def)
  show ?thesis
  proof (cases "plan_at f j")
    case None
    from missing_plan_run(2) [OF None undo [unfolded r]] assms(3) show ?thesis by (simp add: r)
  next
    case (Some q)
    from rollback_plan_tracks [OF typed Some undo [unfolded r]] assms(3) Some show ?thesis
      by (cases "j = i") (auto simp: r)
  qed
next
  case (prepare task_id graph payloads f res f' w)
  show ?thesis
  proof (cases res)
    case (Inl e)
    from prepare_plan_fails [OF prepare(3) [unfolded Inl]] prepare assms(3) show ?thesis by simp
  next
    case (Inr j)
    have "fabric_typed (af_registry f) (af_state f)" using assms(2) prepare by (simp add: typed_under_def)
    from prepare_plan_typed [OF this prepare(3) [unfolded Inr]] assms(3) prepare show ?thesis
      by (cases "j = i") auto
  qed
next
  case (adapter cap ad f res f' w)
  with assms(3) register_adapter_state [OF adapter(3)] show ?thesis by simp
qed (use assms(3) in simp)

interpretation plan_simulation: simulation fabric_step "has_plan registry i n" "lifecycle n" "plan_view_of i"
  for registry i n
proof unfold_locales
  fix r r' :: "'w action_fabric \<times> 'w"
  assume step: "fabric_step r r'" and inv: "has_plan registry i n r"
  then obtain p where p: "typed_under registry r" "plan_at (fst r) i = Some p" "length (ps_actions p) = n"
    by (auto simp: has_plan_def)
  from fabric_step_tracks [OF step p(1,2)] fabric_step_typed [OF step p(1)]
  show "has_plan registry i n r'" "(lifecycle n)\<^sup>*\<^sup>* (plan_view_of i r) (plan_view_of i r')"
    using p by (auto simp: has_plan_def plan_view_of_def)
qed

text \<open>What the life cycle promises by itself.\<close>

lemma lifecycle_forward:
  assumes "(lifecycle n)\<^sup>*\<^sup>* v v'"
  shows "fst v \<le> fst v' \<and> (plan_terminal (snd v) \<longrightarrow> fst v' = fst v \<and> (snd v' = snd v \<or> snd v' = PRolledBack))"
  using assms
proof (induction rule: rtranclp_induct)
  case (step v' v'')
  from step.hyps(2) step.IH show ?case by (cases rule: lifecycle.cases) (auto simp: plan_terminal_def)
qed simp

section \<open>Running to the end\<close>

text \<open>Calling \<open>execute_next\<close> \<open>k\<close> times, whatever it reports.\<close>

fun execute_times ::
    "'w action_verifier \<Rightarrow> action_plan_id \<Rightarrow> authority_grant \<Rightarrow> nat \<Rightarrow> 'w action_fabric \<times> 'w \<Rightarrow> 'w action_fabric \<times> 'w" where
  "execute_times verifier i authority 0 r = r"
| "execute_times verifier i authority (Suc k) r =
    execute_times verifier i authority k (snd (execute_next verifier i authority r))"

text \<open>An action that is permitted, whose adapter completes it and whose outputs are accepted.\<close>

definition cooperative ::
    "'w action_verifier \<Rightarrow> authority_grant \<Rightarrow> 'w action_fabric \<Rightarrow> planned_action \<Rightarrow> bool" where
  "cooperative verifier authority f a \<longleftrightarrow> (\<exists>d ad.
    validate_action (af_registry f) (pa_capability a) (pa_action a) = Inr d \<and> permits authority d = Inr ()
    \<and> bt_get (af_adapters f) (pa_capability a) = Some ad
    \<and> (\<forall>w. \<exists>out token w'. ad_execute ad (pa_id a) (pa_action a) w = (Inr (RCompleted out token), w'))
    \<and> (\<forall>out w. \<exists>w'. verifier d (pa_action a) out w = (VAccept, w')))"

lemma wp_execute_next_commits:
  assumes wf: "bt_wf (fs_plans (af_state f))" and p: "plan_at f i = Some p" and live: "\<not> plan_terminal (ps_status p)"
    and c: "ps_cursor p < length (ps_actions p)"
    and cur: "\<not> use_resume (ps_actions p ! ps_cursor p)"
      "pa_status (ps_actions p ! ps_cursor p) \<notin> {ACommitted, ARolledBack, AFailed}"
    and co: "cooperative verifier authority f (ps_actions p ! ps_cursor p)"
  shows "wp (execute_next verifier i authority) (\<lambda>_ r. \<exists>a'. pa_status a' = ACommitted
      \<and> fst r = with_plan i (p\<lparr>ps_actions := (ps_actions p)[ps_cursor p := a'], ps_cursor := usize_succ (ps_cursor p),
        ps_status := (if length (ps_actions p) \<le> usize_succ (ps_cursor p) then PCompleted else PReady)\<rparr>) f)
    (\<lambda>_ _. False) (f, w)"
proof -
  let ?a = "ps_actions p ! ps_cursor p"
  from co obtain d ad where d: "validate_action (af_registry f) (pa_capability ?a) (pa_action ?a) = Inr d"
      "permits authority d = Inr ()" and ad: "bt_get (af_adapters f) (pa_capability ?a) = Some ad"
    and ok: "\<And>w. \<exists>out token w'. ad_execute ad (pa_id ?a) (pa_action ?a) w = (Inr (RCompleted out token), w')"
      "\<And>out w. \<exists>w'. verifier d (pa_action ?a) out w = (VAccept, w')"
    by (auto simp: cooperative_def)
  from ok(1) [of w] obtain out token w1 where call: "invoke_adapter ad ?a w = (Inr (RCompleted out token), w1)"
    using cur(1) by (auto simp: invoke_adapter_def)
  from ok(2) [of out w1] obtain w2 where accept: "verifier d (pa_action ?a) out w1 = (VAccept, w2)" by blast
  show ?thesis
    using cur(2) live c d ad
    by (auto simp: execute_next_def wp_simps p Let_def btm.get_ins [OF wf] cur(1) call after_call_def
        apply_adapter_result_def accept apply_verification_def)
      (rule exI, rule conjI [rotated], rule refl, simp)+
qed

text \<open>A plan that is ready to go on, all its remaining actions cooperative.\<close>

definition on_course ::
    "'w action_verifier \<Rightarrow> authority_grant \<Rightarrow> action_plan_id \<Rightarrow> action_plan_state \<Rightarrow> 'w action_fabric \<Rightarrow> bool" where
  "on_course verifier authority i p f \<longleftrightarrow> fabric_valid (af_registry f) (af_state f) \<and> plan_at f i = Some p
    \<and> int (length (ps_actions p)) < usize_bound \<and> ps_status p = PReady
    \<and> ps_cursor p < length (ps_actions p) \<and> \<not> use_resume (ps_actions p ! ps_cursor p)
    \<and> (\<forall>a \<in> set (drop (ps_cursor p) (ps_actions p)). cooperative verifier authority f a)"

lemma on_course_step:
  assumes "on_course verifier authority i p f"
  obtains p' where "plan_at (fst (snd (execute_next verifier i authority (f, w)))) i = Some p'"
    "ps_cursor p' = Suc (ps_cursor p)" "length (ps_actions p') = length (ps_actions p)"
    "if length (ps_actions p) = Suc (ps_cursor p)
     then ps_status p' = PCompleted \<and> (\<forall>a \<in> set (ps_actions p'). pa_status a = ACommitted)
     else on_course verifier authority i p' (fst (snd (execute_next verifier i authority (f, w))))"
proof -
  obtain res f' w' where run: "execute_next verifier i authority (f, w) = (res, (f', w'))"
    by (metis prod.exhaust)
  from assms have valid: "fabric_valid (af_registry f) (af_state f)" and p: "plan_at f i = Some p"
    and size: "int (length (ps_actions p)) < usize_bound" and ready: "ps_status p = PReady"
    and c: "ps_cursor p < length (ps_actions p)" and cur: "\<not> use_resume (ps_actions p ! ps_cursor p)"
    and co: "\<And>a. a \<in> set (drop (ps_cursor p) (ps_actions p)) \<Longrightarrow> cooperative verifier authority f a"
    by (simp_all add: on_course_def)
  note pv = plan_at_valid [OF valid p]
  have "pa_status (ps_actions p ! ps_cursor p) \<in> {APrepared, ARetryable, ARunning}"
    using pv(2) ready c by (auto simp: plan_valid_def)
  then have st: "pa_status (ps_actions p ! ps_cursor p) \<notin> {ACommitted, ARolledBack, AFailed}" by auto
  have here: "cooperative verifier authority f (ps_actions p ! ps_cursor p)"
    by (rule co) (simp add: c flip: Cons_nth_drop_Suc)
  have live: "\<not> plan_terminal (ps_status p)" using ready by (simp add: plan_terminal_def)
  have suc: "usize_succ (ps_cursor p) = Suc (ps_cursor p)" using c size by (rule usize_succ_less)
  from wp_run [OF wp_execute_next_commits [OF pv(3) p live c cur st here] run]
  obtain a' where f': "f' = with_plan i (p\<lparr>ps_actions := (ps_actions p)[ps_cursor p := a'], ps_cursor := Suc (ps_cursor p),
      ps_status := (if length (ps_actions p) \<le> Suc (ps_cursor p) then PCompleted else PReady)\<rparr>) f"
    by (auto simp: suc split: sum.splits)
  define p' where "p' = p\<lparr>ps_actions := (ps_actions p)[ps_cursor p := a'], ps_cursor := Suc (ps_cursor p),
      ps_status := (if length (ps_actions p) \<le> Suc (ps_cursor p) then PCompleted else PReady)\<rparr>"
  have at: "plan_at f' i = Some p'" by (simp add: f' p'_def btm.get_ins [OF pv(3)])
  from wp_run [OF valid_plans.wp_execute_next [OF pv(3,2) p size] run]
  have "plan_valid (af_registry f) p' \<and> plan_frame p p'"
    using at by (auto simp: replaced_def btm.get_ins [OF pv(3)] split: sum.splits)
  then have pv': "plan_valid (af_registry f) p'" and fv: "fabric_valid (af_registry f') (af_state f')"
    using fabric_valid_with_plan [OF valid p] by (simp_all add: f' p'_def)
  have rest: "drop (Suc (ps_cursor p)) (ps_actions p') = drop (Suc (ps_cursor p)) (ps_actions p)" by (simp add: p'_def)
  show thesis
  proof (rule that [of p'])
    show "if length (ps_actions p) = Suc (ps_cursor p)
      then ps_status p' = PCompleted \<and> (\<forall>a \<in> set (ps_actions p'). pa_status a = ACommitted)
      else on_course verifier authority i p' (fst (snd (execute_next verifier i authority (f, w))))"
    proof (cases "length (ps_actions p) = Suc (ps_cursor p)")
      case True
      then show ?thesis using pv' by (auto simp: plan_valid_def p'_def in_set_conv_nth)
    next
      case False
      with c have more: "Suc (ps_cursor p) < length (ps_actions p)" by simp
      have "pa_status (ps_actions p' ! Suc (ps_cursor p)) = APrepared"
        using pv(2) more by (auto simp: plan_valid_def p'_def)
      then have "\<not> use_resume (ps_actions p' ! ps_cursor p')" by (simp add: use_resume_def p'_def)
      moreover have "\<forall>a \<in> set (drop (ps_cursor p') (ps_actions p')). cooperative verifier authority f' a"
        using co rest set_drop_subset_set_drop [of "ps_cursor p" "Suc (ps_cursor p)" "ps_actions p"]
        by (auto simp: p'_def cooperative_def f')
      ultimately show ?thesis
        using False more fv at size by (simp add: on_course_def run, simp add: p'_def)
    qed
  qed (use at in \<open>simp_all add: run p'_def\<close>)
qed

text \<open>By induction on the number of actions that are left.\<close>

lemma on_course_completes:
  assumes "on_course verifier authority i p f" and "length (ps_actions p) = Suc k + ps_cursor p"
  shows "\<exists>p'. plan_at (fst (execute_times verifier i authority (Suc k) (f, w))) i = Some p'
    \<and> ps_status p' = PCompleted \<and> (\<forall>a \<in> set (ps_actions p'). pa_status a = ACommitted)"
  using assms
proof (induction k arbitrary: f p w)
  case (0 f p w)
  from on_course_step [OF 0(1), of w] 0(2) show ?case by (auto split: if_splits)
next
  case (Suc k f p w)
  obtain res f' w' where run: "execute_next verifier i authority (f, w) = (res, (f', w'))"
    by (metis prod.exhaust)
  from on_course_step [OF Suc.prems(1), of w] obtain p' where
      "ps_cursor p' = Suc (ps_cursor p)" "length (ps_actions p') = length (ps_actions p)"
      "on_course verifier authority i p' f'"
    using Suc.prems(2) by (auto simp: run split: if_splits)
  from Suc.IH [OF this(3), of w'] this(1,2) Suc.prems(2) show ?case by (simp add: run)
qed

section \<open>Properties\<close>

text \<open>A run: a plan is prepared and its first action executed, with the adapter registered in between.\<close>

definition sample_run :: "(u64 list action_fabric \<times> u64 list) list" where
  "sample_run = (
    let f0 = fabric_new sample_registry;
        f1 = snd (prepare_plan 7 \<lparr>tg_actions = [\<lparr>an_id = 4, an_capability = ''c'', an_side_effect = Reversible,
          an_verification_required = True\<rparr>]\<rparr> [(4, FileRead ''p'')] f0);
        f2 = snd (register_adapter ''c'' (log_adapter 0) f1);
        r3 = snd (execute_next agreeing 1 authority_grant_new (f2, []));
        r4 = snd (rollback_plan 1 r3)
    in [(f0, []), (f1, []), (f2, []), r3, r4])"

lemma sample_run_steps:
  "fabric_step\<^sup>*\<^sup>* (sample_run ! 0) (sample_run ! 4)" "fabric_step\<^sup>*\<^sup>* (sample_run ! 1) (sample_run ! 4)"
proof -
  have "fabric_step (sample_run ! 0) (sample_run ! 1)"
    unfolding sample_run_def Let_def by (simp, rule fabric_step.prepare, rule prod.collapse [symmetric])
  moreover have "fabric_step (sample_run ! 1) (sample_run ! 2)"
    unfolding sample_run_def Let_def by (simp, rule fabric_step.adapter, rule prod.collapse [symmetric])
  moreover have "fabric_step (sample_run ! 2) (sample_run ! 3)"
    unfolding sample_run_def Let_def by (simp, rule fabric_step.execute, rule prod.collapse [symmetric])
  moreover have "fabric_step (sample_run ! 3) (sample_run ! 4)"
    unfolding sample_run_def Let_def by (simp, rule fabric_step.undo, rule prod.collapse [symmetric])
  ultimately show "fabric_step\<^sup>*\<^sup>* (sample_run ! 0) (sample_run ! 4)" "fabric_step\<^sup>*\<^sup>* (sample_run ! 1) (sample_run ! 4)"
    by (meson converse_rtranclp_into_rtranclp rtranclp.rtrancl_refl)+
qed

text \<open>
  C27: the types of actions are sound: in every state that operations of the fabric can reach from a
  new fabric, for all adapters, verifiers and authorities and also after failed executions and
  rollbacks, every stored action is valid, belongs to the domain of its registered capability and
  agrees with it in version and side effect, is never verified less than the capability demands, and
  holds a resume or rollback token only where the capability has them; no two actions of any plans
  share an identifier.
\<close>

theorem fabric_types_sound:
  assumes "fabric_step\<^sup>*\<^sup>* (fabric_new registry, w) (f, w')"
  shows "distinct (all_ids (fs_plans (af_state f))) \<and>
    (\<forall>i p a. plan_at f i = Some p \<longrightarrow> a \<in> set (ps_actions p) \<longrightarrow>
      (\<exists>d. registry_descriptor registry (pa_capability a) = Inr d \<and> action_validate (pa_action a) = Inr ()
        \<and> action_domain (pa_action a) = cd_domain d \<and> pa_capability_version a = cd_version d
        \<and> pa_side_effect a = cd_side_effect d \<and> (cd_verification_required d \<longrightarrow> pa_verification_required a)
        \<and> (pa_resume_token a \<noteq> None \<longrightarrow> cd_resumable d)
        \<and> (pa_rollback_token a \<noteq> None \<longrightarrow> cd_rollback_supported d)))"
proof -
  have "typed_under registry (fabric_new registry, w)"
    using fabric_typed_new by (simp add: typed_under_def fabric_new_def)
  with assms have typed: "typed_under registry (f, w')"
    by (induction rule: rtranclp_induct) (auto intro: fabric_step_typed)
  have "action_fits registry a" if "plan_at f i = Some p" "a \<in> set (ps_actions p)" for i p a
    using fabric_typed_plan(2) [OF _ that(1), of registry] typed that(2) by (auto simp: typed_under_def plan_typed_def)
  then show ?thesis
    using typed unfolding typed_under_def fabric_typed_def
    by (fastforce simp: action_fits_def validate_action_def split: if_splits)
qed

theorem fabric_types_sound_witness:
  "distinct (all_ids (fs_plans (af_state (fst (sample_run ! 4)))))
    \<and> pa_status (ps_actions (the (plan_at (fst (sample_run ! 4)) 1)) ! 0) = ARolledBack"
proof
  have "sample_run ! 0 = (fabric_new sample_registry, [])" by (simp add: sample_run_def Let_def)
  with sample_run_steps(1) have "fabric_step\<^sup>*\<^sup>* (fabric_new sample_registry, []) (fst (sample_run ! 4), snd (sample_run ! 4))"
    by simp
  from fabric_types_sound [OF this] show "distinct (all_ids (fs_plans (af_state (fst (sample_run ! 4)))))" by blast
  show "pa_status (ps_actions (the (plan_at (fst (sample_run ! 4)) 1)) ! 0) = ARolledBack" by code_simp
qed

text \<open>
  C24: the fabric refines the life cycle of plans: over any sequence of operations, the cursor and
  status of a plan change only by steps of \<open>lifecycle\<close>, the plan is never lost and keeps its length.
  So the cursor never moves back, a plan that is completed or failed stays as it is unless it is
  rolled back, and a rolled-back plan stays rolled back.
\<close>

theorem fabric_refines_lifecycle:
  assumes "fabric_step\<^sup>*\<^sup>* (f, w) (f', w')" and "fabric_typed (af_registry f) (af_state f)" and "plan_at f i = Some p"
  shows "\<exists>p'. plan_at f' i = Some p' \<and> length (ps_actions p') = length (ps_actions p)
    \<and> (lifecycle (length (ps_actions p)))\<^sup>*\<^sup>* (view p) (view p') \<and> ps_cursor p \<le> ps_cursor p'
    \<and> (plan_terminal (ps_status p) \<longrightarrow> ps_cursor p' = ps_cursor p \<and> (ps_status p' = ps_status p \<or> ps_status p' = PRolledBack))"
proof -
  have inv: "has_plan (af_registry f) i (length (ps_actions p)) (f, w)"
    using assms(2,3) by (simp add: has_plan_def typed_under_def)
  from plan_simulation.inv_steps [OF assms(1) inv] obtain p' where
      p': "plan_at f' i = Some p'" "length (ps_actions p') = length (ps_actions p)"
    by (auto simp: has_plan_def)
  have "(lifecycle (length (ps_actions p)))\<^sup>*\<^sup>* (view p) (view p')"
    using plan_simulation.abs_steps [OF assms(1) inv] p' assms(3) by (simp add: plan_view_of_def)
  with p' lifecycle_forward [OF this] show ?thesis by (auto simp: view_def)
qed

theorem fabric_refines_lifecycle_witness:
  "\<exists>p'. plan_at (fst (sample_run ! 4)) 1 = Some p' \<and> (lifecycle 1)\<^sup>*\<^sup>* (0, PReady) (view p') \<and> view p' = (1, PRolledBack)"
proof -
  have "typed_under sample_registry (sample_run ! 0)"
    using fabric_typed_new by (simp add: typed_under_def sample_run_def fabric_new_def Let_def)
  moreover have "fabric_step (sample_run ! 0) (sample_run ! 1)"
    unfolding sample_run_def Let_def by (simp, rule fabric_step.prepare, rule prod.collapse [symmetric])
  ultimately have "typed_under sample_registry (sample_run ! 1)" by (rule fabric_step_typed [rotated])
  then have typed: "fabric_typed (af_registry (fst (sample_run ! 1))) (af_state (fst (sample_run ! 1)))"
    by (simp add: typed_under_def)
  have "case plan_at (fst (sample_run ! 1)) 1 of Some p \<Rightarrow> view p = (0, PReady) \<and> length (ps_actions p) = 1 | None \<Rightarrow> False"
    by code_simp
  then obtain p where p: "plan_at (fst (sample_run ! 1)) 1 = Some p" "view p = (0, PReady)" "length (ps_actions p) = 1"
    by (auto split: option.splits)
  have "case plan_at (fst (sample_run ! 4)) 1 of Some p \<Rightarrow> view p = (1, PRolledBack) | None \<Rightarrow> False"
    by code_simp
  moreover have "fabric_step\<^sup>*\<^sup>* (fst (sample_run ! 1), snd (sample_run ! 1)) (fst (sample_run ! 4), snd (sample_run ! 4))"
    using sample_run_steps(2) by simp
  note fabric_refines_lifecycle [OF this typed p(1)]
  ultimately show ?thesis using p(2,3) by (auto split: option.splits)
qed

text \<open>
  C37: a plan gets done: if every remaining action of a ready plan is permitted, its adapter completes
  it and the verifier accepts the output, then as many calls of \<open>execute_next\<close> as there are actions
  left complete the plan, with every action committed.
\<close>

theorem plan_completes:
  assumes "fabric_valid (af_registry f) (af_state f)" and "plan_at f i = Some p"
    and "int (length (ps_actions p)) < usize_bound" and "ps_status p = PReady"
    and "ps_cursor p < length (ps_actions p)" and "\<not> use_resume (ps_actions p ! ps_cursor p)"
    and "\<forall>a \<in> set (drop (ps_cursor p) (ps_actions p)). cooperative verifier authority f a"
  shows "\<exists>p'. plan_at (fst (execute_times verifier i authority (length (ps_actions p) - ps_cursor p) (f, w))) i = Some p'
    \<and> ps_status p' = PCompleted \<and> (\<forall>a \<in> set (ps_actions p'). pa_status a = ACommitted)"
proof -
  from assms(5) obtain k where k: "length (ps_actions p) = Suc k + ps_cursor p"
    by (metis less_imp_Suc_add add.commute add_Suc)
  moreover have "on_course verifier authority i p f" using assms by (simp add: on_course_def)
  ultimately show ?thesis using on_course_completes [of verifier authority i p f k w] by simp
qed

theorem plan_completes_witness:
  "\<exists>p'. plan_at (fst (execute_times agreeing 1 authority_grant_new 2 (sample_fabric 0 ready_plan, []))) 1 = Some p'
    \<and> ps_status p' = PCompleted"
proof -
  have p: "plan_at (sample_fabric 0 ready_plan) 1 = Some ready_plan" by simp
  have "validate_action sample_registry ''c'' (FileWrite ''p'' []) = Inr file_cap"
      "permits authority_grant_new file_cap = Inr ()" by code_simp+
  then have "cooperative agreeing authority_grant_new (sample_fabric 0 ready_plan) a"
    if "a \<in> set (ps_actions ready_plan)" for a
    using that by (auto simp: cooperative_def ready_plan_def sample_plan_def sample_action_def log_adapter_def agreeing_def)
  then have co: "\<forall>a \<in> set (drop (ps_cursor ready_plan) (ps_actions ready_plan)).
      cooperative agreeing authority_grant_new (sample_fabric 0 ready_plan) a"
    by (simp add: ready_plan_def sample_plan_def)
  have "fabric_valid (af_registry (sample_fabric 0 ready_plan)) (af_state (sample_fabric 0 ready_plan))"
    using sample_plans_valid(1) by simp
  from plan_completes [OF this p _ _ _ _ co, of "[]"] show ?thesis
    by (auto simp: ready_plan_def sample_plan_def sample_action_def use_resume_def usize_bound_def numeral_2_eq_2)
qed

end
