(* ===== verification/Kernel_Protocol.thy ===== *)
theory Kernel_Protocol
  imports Cognition Transition_Systems
begin

text \<open>
  The cognitive kernel as a transition system. \<open>kernel_step\<close> has one rule per public operation of
  \<open>CognitiveState\<close> and \<open>CognitiveRuntime\<close> that changes state, on every outcome and for all agents and
  hooks. \<open>complete_external_task\<close> checks neither the status nor the budget of its task, and its
  careless use breaks the invariant (\<open>complete_external_task_overruns_budget\<close> in \<open>Cognition\<close>); in a
  \<open>careful_step\<close> it is called only for an open task with steps left. Over careful steps: the kernel refines an abstract life cycle of tasks
  (\<open>task_cycle\<close>), and repeated calls of \<open>advance\<close> close a task unless its verifier keeps asking for
  retries.
\<close>

section \<open>The concrete transition system\<close>

text \<open>The call that a step makes, as far as it matters.\<close>

datatype kernel_call = CompleteExternal u64 | OtherCall

inductive kernel_step :: "kernel_call \<Rightarrow> cognitive_state \<times> 'w \<Rightarrow> cognitive_state \<times> 'w \<Rightarrow> bool" where
  goal: "add_goal objective criteria s = (res, s') \<Longrightarrow> kernel_step OtherCall (s, w) (s', w)"
| submit: "submit_task intnt graph goal_id s = (res, s') \<Longrightarrow> kernel_step OtherCall (s, w) (s', w)"
| fact: "set_world_fact key v s = (res, s') \<Longrightarrow> kernel_step OtherCall (s, w) (s', w)"
| delta: "install_delta namespace generation payload s = (res, s') \<Longrightarrow> kernel_step OtherCall (s, w) (s', w)"
| start: "start_external_task i s = (res, s') \<Longrightarrow> kernel_step OtherCall (s, w) (s', w)"
| pause: "pause_external_task i reason s = (res, s') \<Longrightarrow> kernel_step OtherCall (s, w) (s', w)"
| complete: "complete_external_task i summary s = (res, s') \<Longrightarrow> kernel_step (CompleteExternal i) (s, w) (s', w)"
| activate: "activate_delta i hook r = (res, r') \<Longrightarrow> kernel_step OtherCall r r'"
| cycle: "advance alnum ag i signals r = (res, r') \<Longrightarrow> kernel_step OtherCall r r'"
| outside: "kernel_step OtherCall (s, w) (s, w')"

text \<open>What the callers of \<open>complete_external_task\<close> have to ensure, since the code does not check it.\<close>

definition may_complete :: "u64 \<Rightarrow> cognitive_state \<Rightarrow> bool" where
  "may_complete i s \<longleftrightarrow> (case bt_get (cs_tasks s) i of
      Some t \<Rightarrow> \<not> terminal (ct_status t) \<and> ct_steps_taken t < in_max_steps (ct_intent t)
    | None \<Rightarrow> False)"

definition careful_step :: "cognitive_state \<times> 'w \<Rightarrow> cognitive_state \<times> 'w \<Rightarrow> bool" where
  "careful_step r r' \<longleftrightarrow> (\<exists>call. kernel_step call r r' \<and> (\<forall>i. call = CompleteExternal i \<longrightarrow> may_complete i (fst r)))"

section \<open>What an operation does to the tasks\<close>

text \<open>
  \<open>tasks_grow s s'\<close>: no task is lost, what it was asked to do stays, steps are only added, and a
  task that is completed or failed stays exactly as it is.
\<close>

definition task_grows :: "cognitive_task \<Rightarrow> cognitive_task \<Rightarrow> bool" where
  "task_grows t t' \<longleftrightarrow> same_request t t' \<and> (terminal (ct_status t) \<longrightarrow> t' = t)"

definition tasks_grow :: "cognitive_state \<Rightarrow> cognitive_state \<Rightarrow> bool" where
  "tasks_grow s s' \<longleftrightarrow> (\<forall>i t. bt_get (cs_tasks s) i = Some t \<longrightarrow>
    (\<exists>t'. bt_get (cs_tasks s') i = Some t' \<and> task_grows t t'))"

lemma task_grows_refl [simp]: "task_grows t t"
  by (simp add: task_grows_def)

lemma tasks_grow_same: "cs_tasks s' = cs_tasks s \<Longrightarrow> tasks_grow s s'"
  by (simp add: tasks_grow_def)

lemma tasks_grow_fresh:
  "bt_wf (cs_tasks s) \<Longrightarrow> bt_get (cs_tasks s) i = None \<Longrightarrow> cs_tasks s' = bt_insert i t (cs_tasks s) \<Longrightarrow> tasks_grow s s'"
  by (auto simp: tasks_grow_def btm.get_ins)

text \<open>Work on one open task, and no work on a closed one.\<close>

lemma tasks_grow_evolves:
  assumes ev: "evolves i s s'" and closed: "\<And>t. bt_get (cs_tasks s) i = Some t \<Longrightarrow> terminal (ct_status t) \<Longrightarrow> s' = s"
  shows "tasks_grow s s'"
  unfolding tasks_grow_def
proof (intro allI impI)
  fix j t assume t: "bt_get (cs_tasks s) j = Some t"
  show "\<exists>t'. bt_get (cs_tasks s') j = Some t' \<and> task_grows t t'"
  proof (cases "j = i")
    case True
    with ev t obtain t' where "bt_get (cs_tasks s') i = Some t'" "same_request t t'"
      by (auto simp: evolves_def elim: option.rel_cases)
    with True closed t show ?thesis by (auto simp: task_grows_def)
  qed (use ev t in \<open>simp add: evolves_def\<close>)
qed

lemma tasks_grow_put:
  assumes "bt_wf (cs_tasks s)" and "bt_get (cs_tasks s) i = Some t" and "\<not> terminal (ct_status t)"
    and "cs_tasks s' = bt_insert i t' (cs_tasks s)" and "same_request t t'"
  shows "tasks_grow s s'"
  using assms by (auto simp: tasks_grow_def task_grows_def btm.get_ins)

text \<open>Each operation.\<close>

lemma add_goal_tasks: "add_goal objective criteria s = (res, s') \<Longrightarrow> cs_tasks s' = cs_tasks s"
  by (auto simp: add_goal_def result_simps split: if_splits option.splits sum.splits)

lemma set_world_fact_tasks: "set_world_fact key v s = (res, s') \<Longrightarrow> cs_tasks s' = cs_tasks s"
  by (auto simp: set_world_fact_def result_simps split: if_splits)

lemma install_delta_tasks: "install_delta namespace generation payload s = (res, s') \<Longrightarrow> cs_tasks s' = cs_tasks s"
  by (auto simp: install_delta_def result_simps split: if_splits option.splits sum.splits)

lemma activate_delta_tasks:
  assumes "activate_delta i hook r = (res, r')"
  shows "cs_tasks (fst r') = cs_tasks (fst r)"
proof -
  have "wp (activate_delta i hook) (\<lambda>_ x. cs_tasks (fst x) = cs_tasks (fst r)) (\<lambda>_ x. cs_tasks (fst x) = cs_tasks (fst r)) r"
    by (auto simp: activate_delta_def wp_simps split: option.splits sum.splits prod.splits)
  from wp_run [OF this assms] show ?thesis by (auto split: sum.splits)
qed

lemma submit_task_grows:
  assumes "cog_wf s" and "submit_task intnt graph goal_id s = (res, s')"
  shows "tasks_grow s s'"
proof -
  have "cs_tasks s' = cs_tasks s \<or> (\<exists>t. cs_tasks s' = bt_insert (cs_next_task_id s) t (cs_tasks s))"
    using assms(2) by (auto simp: submit_task_def result_simps split: if_splits option.splits sum.splits)
  then show ?thesis
    using tasks_grow_same tasks_grow_fresh [OF cog_wfD(8) [OF assms(1)] table_fresh_get [OF cog_wfD(2) [OF assms(1)]]]
    by blast
qed

lemma start_external_task_grows:
  assumes "cog_wf s" and "start_external_task i s = (res, s')"
  shows "tasks_grow s s'"
proof -
  have "wp (start_external_task i) (\<lambda>_. tasks_grow s) (\<lambda>_. tasks_grow s) s"
    by (simp add: start_external_task_def wp_simps tasks_grow_same split: option.splits)
      (intro allI impI tasks_grow_put [OF cog_wfD(8) [OF assms(1)]], auto simp: same_request_def)
  from wp_run [OF this assms(2)] show ?thesis by (auto split: sum.splits)
qed

lemma pause_external_task_grows:
  assumes wf: "cog_wf s" and run: "pause_external_task i reason s = (res, s')"
  shows "tasks_grow s s'"
proof -
  have "wp (store_now kind content tags importance) (\<lambda>_. tasks_grow s) (\<lambda>_. tasks_grow s)
      (s\<lparr>cs_tick := now, cs_tasks := bt_insert i (t\<lparr>ct_status := TPaused, ct_updated_tick := now,
        ct_last_observation := Some reason\<rparr>) (cs_tasks s)\<rparr>)"
    if "bt_get (cs_tasks s) i = Some t" "\<not> terminal (ct_status t)" for t now kind content tags importance
    using that cog_wfD(5) [OF wf]
    by (intro wp_store_now tasks_grow_put [OF cog_wfD(8) [OF wf] that]) (auto simp: same_request_def)
  then have "wp (pause_external_task i reason) (\<lambda>_. tasks_grow s) (\<lambda>_. tasks_grow s) s"
    by (simp add: pause_external_task_def wp_simps tasks_grow_same split: option.splits)
  from wp_run [OF this run] show ?thesis by (auto split: sum.splits)
qed

lemma complete_external_task_grows:
  assumes wf: "cog_wf s" and may: "may_complete i s" and run: "complete_external_task i summary s = (res, s')"
  shows "cog_wf s'" "tasks_grow s s'"
proof -
  from may obtain t where t: "bt_get (cs_tasks s) i = Some t" "\<not> terminal (ct_status t)"
      "ct_steps_taken t < in_max_steps (ct_intent t)"
    by (auto simp: may_complete_def split: option.splits)
  let ?ok = "\<lambda>x. cog_wf x \<and> evolves i s x"
  have "wp (commit_directive i (Complete summary) (observation_new summary)) (\<lambda>_. ?ok) (\<lambda>_. ?ok) (s\<lparr>cs_tick := now\<rparr>)"
    if "cs_tick s \<le> now" for now
    using wf t evolves_trans [OF evolves_tick [OF that, of i]] by (intro wp_commit_directive [where t = t]) simp_all
  then have "wp (complete_external_task i summary) (\<lambda>_. ?ok) (\<lambda>_. ?ok) s"
    using wf by (auto simp: complete_external_task_def wp_simps word_le_nat_alt dest: checked_step split: option.splits)
  from wp_run [OF this run] have "?ok s'" by (auto split: sum.splits)
  then show "cog_wf s'" "tasks_grow s s'" using t(1,2) tasks_grow_evolves [of i s s'] by auto
qed

lemma advance_closed:
  "bt_get (cs_tasks s) i = Some t \<Longrightarrow> terminal (ct_status t) \<Longrightarrow>
    advance alnum ag i signals (s, w) = (Inr (report t (choose_reasoning_budget signals) 0), (s, w))"
  by (simp add: advance_def Let_def get_task_def on_self_def result_simps)

lemma advance_grows:
  assumes "cog_wf (fst r)" and "advance alnum ag i signals r = (res, r')"
  shows "tasks_grow (fst r) (fst r')"
proof (rule tasks_grow_evolves)
  show "evolves i (fst r) (fst r')"
    using wp_run [OF wp_advance [OF assms(1)], of alnum ag i signals "snd r" res r'] assms(2)
    by (auto split: sum.splits)
  fix t assume "bt_get (cs_tasks (fst r)) i = Some t" "terminal (ct_status t)"
  from advance_closed [OF this, of alnum ag signals "snd r"] assms(2) show "fst r' = fst r" by auto
qed

text \<open>Every step, and the invariant.\<close>

lemma kernel_step_keeps:
  assumes "kernel_step call r r'" and "\<And>i. call = CompleteExternal i \<Longrightarrow> may_complete i (fst r)" and "cog_wf (fst r)"
  shows "cog_wf (fst r')" and "tasks_grow (fst r) (fst r')"
proof -
  have kept: "cog_wf s'" if "m s = (res, s')" "keeps cog_wf m" "cog_wf s"
    for m :: "('x) cog_op" and s s' res using keepsD [OF that(2,3)] that(1) by simp
  have kept2: "cog_wf (fst q')" if "m q = (res, q')" "keeps (\<lambda>r. cog_wf (fst r)) m" "cog_wf (fst q)"
    for m :: "('a, 'x) run_op" and q q' res using keepsD [OF that(2,3)] that(1) by simp
  show "cog_wf (fst r')"
    using assms
    by cases (auto dest: kept [OF _ add_goal_keeps] kept [OF _ submit_task_keeps] kept [OF _ set_world_fact_keeps]
        kept [OF _ install_delta_keeps] kept [OF _ start_external_task_keeps] kept [OF _ pause_external_task_keeps]
        complete_external_task_grows(1) kept2 [OF _ activate_delta_keeps] kept2 [OF _ advance_keeps])
  show "tasks_grow (fst r) (fst r')"
    using assms
    by cases (auto intro: tasks_grow_same submit_task_grows start_external_task_grows pause_external_task_grows
        complete_external_task_grows(2) advance_grows
        dest!: add_goal_tasks set_world_fact_tasks install_delta_tasks activate_delta_tasks)
qed

lemma careful_step_keeps: "careful_step r r' \<Longrightarrow> cog_wf (fst r) \<Longrightarrow> cog_wf (fst r') \<and> tasks_grow (fst r) (fst r')"
  unfolding careful_step_def using kernel_step_keeps by blast

section \<open>The life cycle of a task\<close>

text \<open>
  Abstractly a task is its status and the number of steps it took. While it is open it may take
  steps within its budget and change its status; once it is completed or failed nothing happens.
\<close>

inductive task_cycle :: "nat \<Rightarrow> task_status \<times> nat \<Rightarrow> task_status \<times> nat \<Rightarrow> bool" for budget where
  work: "\<not> terminal st \<Longrightarrow> n \<le> n' \<Longrightarrow> n' \<le> budget \<Longrightarrow> task_cycle budget (st, n) (st', n')"

inductive_simps task_cycle_step: "task_cycle budget (st, n) (st', n')"

definition task_view :: "cognitive_task \<Rightarrow> task_status \<times> nat" where
  "task_view t = (ct_status t, unat (ct_steps_taken t))"

definition task_view_of :: "u64 \<Rightarrow> cognitive_state \<times> 'w \<Rightarrow> task_status \<times> nat" where
  "task_view_of i r = (case bt_get (cs_tasks (fst r)) i of Some t \<Rightarrow> task_view t | None \<Rightarrow> (TPlanned, 0))"

definition has_task :: "u64 \<Rightarrow> nat \<Rightarrow> cognitive_state \<times> 'w \<Rightarrow> bool" where
  "has_task i budget r \<longleftrightarrow> cog_wf (fst r)
    \<and> (\<exists>t. bt_get (cs_tasks (fst r)) i = Some t \<and> unat (in_max_steps (ct_intent t)) = budget)"

lemma task_grows_cycle:
  assumes "task_grows t t'" and "task_valid goals t'"
  shows "(task_cycle (unat (in_max_steps (ct_intent t))))\<^sup>*\<^sup>* (task_view t) (task_view t')"
proof (cases "terminal (ct_status t)")
  case False
  with assms have "task_cycle (unat (in_max_steps (ct_intent t))) (task_view t) (task_view t')"
    by (simp add: task_grows_def same_request_def task_view_def task_valid_def task_cycle_step word_le_nat_alt)
  then show ?thesis by blast
qed (use assms in \<open>simp add: task_grows_def\<close>)

interpretation task_simulation: simulation careful_step "has_task i budget" "task_cycle budget" "task_view_of i"
  for i budget
proof unfold_locales
  fix r r' :: "cognitive_state \<times> 'w"
  assume step: "careful_step r r'" and "has_task i budget r"
  then obtain t where t: "cog_wf (fst r)" "bt_get (cs_tasks (fst r)) i = Some t"
      "unat (in_max_steps (ct_intent t)) = budget"
    by (auto simp: has_task_def)
  note next_state = careful_step_keeps [OF step t(1), THEN conjunct1] careful_step_keeps [OF step t(1), THEN conjunct2]
  from next_state(2) t(2) obtain t' where t': "bt_get (cs_tasks (fst r')) i = Some t'" "task_grows t t'"
    by (auto simp: tasks_grow_def)
  from task_grows_cycle [OF t'(2) stored_task(3) [OF next_state(1) t'(1)]] next_state(1) t t'
  show "has_task i budget r'" "(task_cycle budget)\<^sup>*\<^sup>* (task_view_of i r) (task_view_of i r')"
    by (auto simp: has_task_def task_view_of_def task_grows_def same_request_def)
qed

lemma tasks_grow_trans:
  assumes "tasks_grow s s'" and "tasks_grow s' s''"
  shows "tasks_grow s s''"
  unfolding tasks_grow_def
proof (intro allI impI)
  fix i t assume "bt_get (cs_tasks s) i = Some t"
  with assms obtain t' t'' where "bt_get (cs_tasks s'') i = Some t''" "task_grows t t'" "task_grows t' t''"
    by (meson tasks_grow_def)
  then show "\<exists>t'. bt_get (cs_tasks s'') i = Some t' \<and> task_grows t t'"
    by (auto simp: task_grows_def intro: same_request_trans)
qed

lemma careful_steps_grow: "careful_step\<^sup>*\<^sup>* r r' \<Longrightarrow> cog_wf (fst r) \<Longrightarrow> cog_wf (fst r') \<and> tasks_grow (fst r) (fst r')"
proof (induction rule: rtranclp_induct)
  case (step r' r'')
  then show ?case using careful_step_keeps [OF step.hyps(2)] tasks_grow_trans by blast
qed (simp add: tasks_grow_same)

section \<open>Calling advance again and again\<close>

fun advance_each ::
    "(u8 list \<Rightarrow> bool) \<Rightarrow> 'w agents \<Rightarrow> u64 \<Rightarrow> cognitive_signals list \<Rightarrow> ('w, cognitive_cycle_report list) run_op" where
  "advance_each alnum ag i [] = sret []"
| "advance_each alnum ag i (sig # sigs) =
    sbind (advance alnum ag i sig) (\<lambda>rep. sbind (advance_each alnum ag i sigs) (\<lambda>reps. sret (rep # reps)))"

text \<open>
  \<open>toiled t n t'\<close>: \<open>n\<close> calls closed the task, or each cost it a step or a failed verification, as
  long as the counter of failed verifications cannot have saturated.
\<close>

definition toiled :: "cognitive_task \<Rightarrow> nat \<Rightarrow> cognitive_task \<Rightarrow> bool" where
  "toiled t n t' \<longleftrightarrow> terminal (ct_status t')
    \<or> unat (ct_verification_failures t') \<le> unat (ct_verification_failures t) + 4 * n
      \<and> (unat (ct_verification_failures t) + 4 * n < 2 ^ 32 \<longrightarrow>
          unat (ct_steps_taken t) + unat (ct_verification_failures t) + n
            \<le> unat (ct_steps_taken t') + unat (ct_verification_failures t'))"

lemma iterations_bounds: "1 \<le> unat (iterations_for_budget b)" "unat (iterations_for_budget b) \<le> 4"
  by (cases b; simp)+

lemma effort_toiled:
  assumes "effort t (unat (iterations_for_budget b)) t'"
  shows "toiled t 1 t'"
  using assms iterations_bounds [of b] by (auto simp: effort_def toiled_def)

lemma toiled_trans: "toiled t m t1 \<Longrightarrow> \<not> terminal (ct_status t1) \<Longrightarrow> toiled t1 n t2 \<Longrightarrow> toiled t (m + n) t2"
  by (auto simp: toiled_def)

lemma advance_toils:
  assumes wf: "cog_wf s" and t: "bt_get (cs_tasks s) i = Some t"
  shows "wp (advance alnum ag i signals)
    (\<lambda>_ r. cog_wf (fst r) \<and> (\<exists>t'. bt_get (cs_tasks (fst r)) i = Some t' \<and> task_grows t t' \<and> toiled t 1 t'))
    (\<lambda>_ _. True) (s, w)"
proof (rule wp_conseq [OF wp_advance [OF wf]])
  fix rep r
  assume post: "cog_wf (fst r) \<and> evolves i s (fst r) \<and> advance_post i s (choose_reasoning_budget signals) rep (fst r)"
  then obtain t0 t' n where "bt_get (cs_tasks s) i = Some t0" and t': "bt_get (cs_tasks (fst r)) i = Some t'"
      and "if terminal (ct_status t0) then n = 0 \<and> fst r = s
         else unat (cs_tick (fst r)) = unat (cs_tick s) + unat n \<and> settled t' (fst r)
          \<and> unat (ct_steps_taken t') \<le> unat (ct_steps_taken t0) + unat n
          \<and> (ct_status t' = TRunning \<longrightarrow>
              n = iterations_for_budget (choose_reasoning_budget signals) \<and> effort t0 (unat n) t')"
    unfolding advance_post_def by blast
  then have n: "terminal (ct_status t) \<and> t' = t \<or> \<not> terminal (ct_status t) \<and> settled t' (fst r) \<and> (ct_status t' = TRunning \<longrightarrow>
      effort t (unat (iterations_for_budget (choose_reasoning_budget signals))) t')"
    using t by (auto split: if_splits)
  have "same_request t t'" using post t t' by (auto simp: evolves_def)
  moreover have "toiled t 1 t' \<and> (terminal (ct_status t) \<longrightarrow> t' = t)"
    using n effort_toiled [of t _ t'] by (auto simp: settled_def) (auto simp: toiled_def terminal_def)
  ultimately show "cog_wf (fst r) \<and> (\<exists>t'. bt_get (cs_tasks (fst r)) i = Some t' \<and> task_grows t t' \<and> toiled t 1 t')"
    using post t' by (simp add: task_grows_def)
qed simp

lemma advance_each_toils:
  "cog_wf (fst r) \<Longrightarrow> bt_get (cs_tasks (fst r)) i = Some t \<Longrightarrow>
    wp (advance_each alnum ag i sigs)
      (\<lambda>_ r'. cog_wf (fst r') \<and> (\<exists>t'. bt_get (cs_tasks (fst r')) i = Some t' \<and> task_grows t t' \<and> toiled t (length sigs) t'))
      (\<lambda>_ _. True) r"
proof (induction sigs arbitrary: r t)
  case Nil
  then show ?case by (simp add: wp_simps toiled_def)
next
  case (Cons sig sigs)
  have "wp (advance alnum ag i sig)
      (\<lambda>_. wp (advance_each alnum ag i sigs)
        (\<lambda>_ r'. cog_wf (fst r') \<and> (\<exists>t'. bt_get (cs_tasks (fst r')) i = Some t' \<and> task_grows t t' \<and> toiled t (Suc (length sigs)) t'))
        (\<lambda>_ _. True)) (\<lambda>_ _. True) r"
  proof (rule wp_conseq)
    show "wp (advance alnum ag i sig)
        (\<lambda>_ r. cog_wf (fst r) \<and> (\<exists>t'. bt_get (cs_tasks (fst r)) i = Some t' \<and> task_grows t t' \<and> toiled t 1 t'))
        (\<lambda>_ _. True) r"
      using advance_toils [OF Cons.prems, of alnum ag sig "snd r"] by simp
    fix rep and r1 :: "cognitive_state \<times> 'a"
    assume "cog_wf (fst r1) \<and> (\<exists>t'. bt_get (cs_tasks (fst r1)) i = Some t' \<and> task_grows t t' \<and> toiled t 1 t')"
    then obtain t1 where t1: "cog_wf (fst r1)" "bt_get (cs_tasks (fst r1)) i = Some t1" "task_grows t t1" "toiled t 1 t1"
      by blast
    show "wp (advance_each alnum ag i sigs)
        (\<lambda>_ r'. cog_wf (fst r') \<and> (\<exists>t'. bt_get (cs_tasks (fst r')) i = Some t' \<and> task_grows t t' \<and> toiled t (Suc (length sigs)) t'))
        (\<lambda>_ _. True) r1"
    proof (rule wp_conseq [OF Cons.IH [OF t1(1,2)]])
      fix reps r'
      assume "cog_wf (fst r') \<and> (\<exists>t'. bt_get (cs_tasks (fst r')) i = Some t' \<and> task_grows t1 t' \<and> toiled t1 (length sigs) t')"
      then obtain t' where t': "bt_get (cs_tasks (fst r')) i = Some t'" "task_grows t1 t'" "toiled t1 (length sigs) t'"
        "cog_wf (fst r')"
        by blast
      have "task_grows t t'" using t1(3) t'(2) by (auto simp: task_grows_def intro: same_request_trans)
      moreover have "toiled t (Suc (length sigs)) t'"
        using toiled_trans [OF t1(4) _ t'(3)] t'(2) by (cases "terminal (ct_status t1)") (auto simp: task_grows_def toiled_def)
      ultimately show "cog_wf (fst r') \<and> (\<exists>t'. bt_get (cs_tasks (fst r')) i = Some t' \<and> task_grows t t' \<and> toiled t (Suc (length sigs)) t')"
        using t'(1,4) by blast
    qed simp
  qed simp
  then show ?case by (simp add: wp_simps)
qed

section \<open>Verifiers that do not ask for retries\<close>

definition never_retries :: "'w agents \<Rightarrow> bool" where
  "never_retries ag \<longleftrightarrow> (\<forall>d ob cx w reason. fst (ag_verify ag d ob cx w) \<noteq> Retry reason)"

text \<open>The failure counter of a task as an invariant: nothing but a retry changes it.\<close>

definition fails_at :: "u64 \<Rightarrow> u32 \<Rightarrow> cognitive_state \<Rightarrow> bool" where
  "fails_at i c s \<longleftrightarrow> bt_wf (cs_tasks s) \<and> map_option ct_verification_failures (bt_get (cs_tasks s) i) = Some c"

lemma keeps_same_tasks:
  assumes "\<And>s. cs_tasks (snd (m s)) = cs_tasks s"
  shows "keeps (fails_at i c) m"
  by (rule keepsI) (simp add: fails_at_def assms)

lemma keeps_with_task:
  assumes "\<And>t. ct_verification_failures t = c \<Longrightarrow> keeps (fails_at i c) (f t)"
  shows "keeps (fails_at i c) (sbind (get_task i) f)"
  unfolding keeps_wp using assms [THEN keeps_wpD] by (auto simp: wp_simps fails_at_def split: option.splits)

lemma keeps_put_task: "ct_verification_failures t = c \<Longrightarrow> keeps (fails_at i c) (put_task i t)"
  by (rule keepsI) (auto simp: put_task_def fails_at_def result_simps btm.get_ins)

lemma store_now_fails: "keeps (fails_at i c) (store_now kind content tags importance)"
  by (rule keeps_same_tasks) (simp add: store_now_def result_simps split: prod.splits sum.splits)

lemma close_goal_fails: "keeps (fails_at i c) (close_goal goal_id st)"
  by (rule keeps_same_tasks) (simp add: close_goal_def result_simps split: option.splits)

lemma next_tick_fails: "keeps (fails_at i c) next_tick"
  by (rule keeps_same_tasks) (simp add: next_tick_def result_simps split: option.splits sum.splits)

lemma set_world_fact_fails: "keeps (fails_at i c) (set_world_fact key v)"
  by (rule keeps_same_tasks, cases "blank key") (simp_all add: set_world_fact_def result_simps)

lemmas parts_fail = store_now_fails close_goal_fails next_tick_fails set_world_fact_fails

lemma commit_directive_fails: "keeps (fails_at i c) (commit_directive i d ob)"
  unfolding commit_directive_def
proof (rule keeps_sbind, goal_cases)
  case 1
  show ?case by (cases d) (auto intro!: keeps_with_task parts_fail)
next
  case 2
  show ?case by (intro keeps_with_task keeps_sbind [OF keeps_basic(3)] keeps_put_task) simp
qed

lemma fail_task_fails: "keeps (fails_at i c) (fail_task i reason)"
  unfolding fail_task_def
  by (intro keeps_with_task keeps_sbind keeps_basic keeps_put_task parts_fail) simp

text \<open>The same for the operations that run beside the world of the agents.\<close>

abbreviation fails_with :: "u64 \<Rightarrow> u32 \<Rightarrow> cognitive_state \<times> 'w \<Rightarrow> bool" where
  "fails_with i c r \<equiv> fails_at i c (fst r)"

lemma fails_on_self: "keeps (fails_at i c) m \<Longrightarrow> keeps (fails_with i c) (on_self m)"
  by (auto simp: keeps_wp wp_simps)

lemma fails_call_out: "(\<And>w. keeps (fails_with i c) (g (fst (f w)))) \<Longrightarrow> keeps (fails_with i c) (sbind (call_out f) g)"
  by (auto simp: keeps_wp wp_simps split: prod.splits) (metis fst_conv)

lemma fails_get_task:
  assumes "\<And>t. ct_verification_failures t = c \<Longrightarrow> keeps (fails_with i c) (f t)"
  shows "keeps (fails_with i c) (sbind (on_self (get_task i)) f)"
  unfolding keeps_wp using assms [THEN keeps_wpD] by (auto simp: wp_simps fails_at_def split: option.splits)

lemma execute_directive_fails: "keeps (fails_with i c) (execute_directive alnum ag i d budget it)"
proof (cases d)
  case (Recall q)
  have "keeps (fails_at i c) (sfield cs_memory (\<lambda>m s. s\<lparr>cs_memory := m\<rparr>) MemoryErr m)" for m :: "'x memory_op"
    by (rule keeps_same_tasks) (simp add: result_simps)
  with Recall show ?thesis
    by (auto simp: execute_directive_def intro!: keeps_sbind fails_on_self)
qed (auto simp: execute_directive_def intro!: keeps_sbind [OF keeps_basic(3)] fails_get_task fails_call_out)

lemma advance_loop_fails:
  assumes "never_retries ag"
  shows "keeps (fails_with i c) (advance_loop alnum ag i budget its iterations)"
proof (induction its arbitrary: iterations)
  case (Cons it its)
  have "keeps (fails_with i c) (on_verdict i d ob iterations (advance_loop alnum ag i budget its k) decision)"
    if "\<And>reason. decision \<noteq> Retry reason" for d ob k decision
    using that Cons.IH [of k] unfolding on_verdict_def
    by (cases decision; cases d)
      (auto intro!: keeps_sbind fails_on_self commit_directive_fails fail_task_fails)
  with assms show ?case
    by (auto simp: never_retries_def intro!: fails_get_task fails_call_out execute_directive_fails
        keeps_sbind [OF fails_on_self [OF fail_task_fails]] keeps_sbind [OF fails_on_self [OF next_tick_fails]]
        keeps_sbind [OF keeps_basic(3)] keeps_sbind [OF keeps_basic(4)] keeps_sbind [OF execute_directive_fails])
qed simp

lemma advance_fails: "never_retries ag \<Longrightarrow> keeps (fails_with i c) (advance alnum ag i signals)"
  unfolding advance_def Let_def
  by (auto intro!: fails_get_task keeps_sbind [OF advance_loop_fails] keeps_sbind [OF fails_on_self [OF keeps_put_task]])

lemma advance_each_fails: "never_retries ag \<Longrightarrow> keeps (fails_with i c) (advance_each alnum ag i sigs)"
  by (induction sigs) (auto intro!: keeps_sbind [OF advance_fails])

section \<open>Properties\<close>

text \<open>
  C21: the kernel refines the life cycle of tasks: over any sequence of operations in which
  \<open>complete_external_task\<close> is called only for open tasks with steps left, and for all agents, the invariant holds, no task is lost, what it was asked to do does not change, its status
  and steps change only by steps of \<open>task_cycle\<close>, and a task that is completed or failed stays
  exactly as it is.
\<close>

theorem kernel_refines_task_cycle:
  assumes "careful_step\<^sup>*\<^sup>* (s, w) (s', w')" and "cog_wf s" and "bt_get (cs_tasks s) i = Some t"
  shows "cog_wf s' \<and> (\<exists>t'. bt_get (cs_tasks s') i = Some t' \<and> same_request t t'
    \<and> (task_cycle (unat (in_max_steps (ct_intent t))))\<^sup>*\<^sup>* (task_view t) (task_view t')
    \<and> (terminal (ct_status t) \<longrightarrow> t' = t))"
proof -
  from careful_steps_grow [OF assms(1)] assms(2,3) obtain t' where
      t': "cog_wf s'" "bt_get (cs_tasks s') i = Some t'" "task_grows t t'"
    by (auto simp: tasks_grow_def)
  have "has_task i (unat (in_max_steps (ct_intent t))) (s, w)" using assms(2,3) by (simp add: has_task_def)
  from task_simulation.abs_steps [OF assms(1) this] t' assms(3) show ?thesis
    by (simp add: task_view_of_def task_grows_def)
qed

theorem kernel_refines_task_cycle_witness:
  "cog_wf (snd (start_external_task 1 sample_state))
    \<and> (task_cycle 1)\<^sup>*\<^sup>* (TPlanned, 0) (task_view_of 1 (snd (start_external_task 1 sample_state), ()))"
proof -
  have "kernel_step OtherCall (sample_state, ()) (snd (start_external_task 1 sample_state), ())"
    by (rule kernel_step.start) (rule prod.collapse [symmetric])
  then have step: "careful_step\<^sup>*\<^sup>* (sample_state, ()) (snd (start_external_task 1 sample_state), ())"
    unfolding careful_step_def by (intro r_into_rtranclp) blast
  have t: "bt_get (cs_tasks sample_state) 1 = Some sample_task" by (simp add: sample_state_def)
  from kernel_refines_task_cycle [OF step sample_state_wf(1) t] show ?thesis
    by (auto simp: task_view_def task_view_of_def sample_task_def)
qed

text \<open>
  C34: the kernel does not work on a task forever: with a verifier that never asks for a retry,
  more calls of \<open>advance\<close> than the task has steps left close it, whatever the planner plans, the
  executor does and the signals are, provided that none of the calls reports an error and the counter
  of failed verifications is far enough from \<open>2 ^ 32\<close> that it cannot saturate meanwhile. A call that reports an
  error, one of the planner for example, may leave the task open.
\<close>

theorem advancing_terminates:
  assumes "never_retries ag" and "cog_wf s" and "bt_get (cs_tasks s) i = Some t"
    and "unat (ct_verification_failures t) + 4 * length sigs < 2 ^ 32"
    and "unat (in_max_steps (ct_intent t)) - unat (ct_steps_taken t) < length sigs"
    and "advance_each alnum ag i sigs (s, w) = (Inr reps, (s', w'))"
  shows "\<exists>t'. bt_get (cs_tasks s') i = Some t' \<and> terminal (ct_status t')"
proof -
  from wp_run [OF advance_each_toils [of "(s, w)"] assms(6)] assms(2,3) obtain t' where
      t': "bt_get (cs_tasks s') i = Some t'" "task_grows t t'" "toiled t (length sigs) t'" "cog_wf s'"
    by auto
  have "fails_at i (ct_verification_failures t) s" using cog_wfD(8) [OF assms(2)] assms(3) by (simp add: fails_at_def)
  with keepsD [OF advance_each_fails [OF assms(1)], of i "ct_verification_failures t" "(s, w)" alnum sigs] assms(6)
  have fails: "ct_verification_failures t' = ct_verification_failures t"
    using t'(1) by (simp add: fails_at_def)
  have "unat (ct_steps_taken t') \<le> unat (in_max_steps (ct_intent t))"
    using stored_task(3) [OF t'(4,1)] t'(2) by (simp add: task_valid_def task_grows_def same_request_def word_le_nat_alt)
  with t' fails assms(4,5) show ?thesis by (auto simp: toiled_def)
qed

theorem advancing_terminates_witness:
  "\<exists>t'. bt_get (cs_tasks (fst (snd (advance_each ascii_alnum completing 1 [calm, calm] (sample_state, ()))))) 1 = Some t'
    \<and> terminal (ct_status t')"
proof -
  have "case advance_each ascii_alnum completing 1 [calm, calm] (sample_state, ()) of (Inr reps, _) \<Rightarrow> True | _ \<Rightarrow> False"
    by code_simp
  then obtain reps s' where run:
      "advance_each ascii_alnum completing 1 [calm, calm] (sample_state, ()) = (Inr reps, (s', ()))"
    by (auto split: prod.splits sum.splits)
  have t: "bt_get (cs_tasks sample_state) 1 = Some sample_task" by (simp add: sample_state_def)
  have "never_retries completing" by (simp add: never_retries_def completing_def)
  from advancing_terminates [OF this sample_state_wf(1) t _ _ run] run show ?thesis
    by (simp add: sample_task_def)
qed

end
