(* ===== verification/Checkpoint_Frame.thy ===== *)
theory Checkpoint_Frame
  imports Rust_Codec Rust_BTreeMap
begin

text \<open>
  What the two checkpoint formats of \<open>crates/ntd-runtime\<close> share, \<open>SIK97\<close> of \<open>checkpoint.rs\<close> and
  \<open>TAF97\<close> of \<open>action_checkpoint.rs\<close>: the frame of magic number, header length, version, reserved
  word and payload length, and the loops that rebuild a \<open>BTreeMap\<close> from entries that must arrive in
  strictly increasing key order. The error values of the file at hand are arguments.

  The locale \<open>increasing_check\<close> states what the order check between two entries promises, for
  numeric and for string keys; \<open>table_codec\<close> combines it with the codec of one entry and lifts the
  round trip to whole maps, \<open>canonical_table\<close> lifts canonicity.
\<close>

section \<open>The frame\<close>

record 'e frame_err =
  fe_cursor :: "'e cerr"
  fe_magic :: 'e
  fe_header :: 'e
  fe_version :: "u16 \<Rightarrow> u16 \<Rightarrow> 'e"
  fe_canonical :: 'e

definition frame_header_len :: int where
  "frame_header_len = 24"

text \<open>The bytes in front of a payload of length \<open>n\<close>.\<close>

definition frame_header :: "u8 list \<Rightarrow> u16 \<Rightarrow> u16 \<Rightarrow> nat \<Rightarrow> 'e enc" where
  "frame_header magic mj mn n =
    eseq (push_raw magic)
    (eseq (push_u16 24)
    (eseq (push_u16 mj)
    (eseq (push_u16 mn)
    (eseq (push_u32 0)
    (push_u64 (of_nat n))))))"

text \<open>The payload length as \<open>u64\<close> and the total length as \<open>usize\<close> must not overflow.\<close>

definition frame_encode :: "'e frame_err \<Rightarrow> u8 list \<Rightarrow> u16 \<Rightarrow> u16 \<Rightarrow> u8 list \<Rightarrow> 'e enc" where
  "frame_encode fe magic mj mn payload =
    (if usize_bound \<le> frame_header_len + int (length payload) then Inl (ovfl (fe_cursor fe))
     else eseq (frame_header magic mj mn (length payload)) (push_raw payload))"

definition frame_header_dec :: "'e frame_err \<Rightarrow> u8 list \<Rightarrow> u16 \<Rightarrow> u16 \<Rightarrow> ('e, u64) dec" where
  "frame_header_dec fe magic mj mn =
    dbind (take_bytes (fe_cursor fe) 6) (\<lambda>m.
    if m \<noteq> magic then dfail (fe_magic fe) else
    dbind (take_u16 (fe_cursor fe)) (\<lambda>header_len.
    if header_len \<noteq> 24 then dfail (fe_header fe) else
    dbind (take_u16 (fe_cursor fe)) (\<lambda>major.
    dbind (take_u16 (fe_cursor fe)) (\<lambda>minor.
    if major \<noteq> mj \<or> mn < minor then dfail (fe_version fe major minor) else
    dbind (take_u32 (fe_cursor fe)) (\<lambda>reserved.
    if reserved \<noteq> 0 then dfail (fe_header fe) else
    take_u64 (fe_cursor fe))))))"

definition frame_decode :: "'e frame_err \<Rightarrow> u8 list \<Rightarrow> u16 \<Rightarrow> u16 \<Rightarrow> u8 list \<Rightarrow> 'e + u8 list" where
  "frame_decode fe magic mj mn bytes =
    (if int (length bytes) < frame_header_len then Inl (trunc (fe_cursor fe)) else
    rbind (frame_header_dec fe magic mj mn (cursor_new bytes)) (\<lambda>(payload_len, _).
    if usize_bound \<le> frame_header_len + uint payload_len then Inl (ovfl (fe_cursor fe))
    else if int (length bytes) \<noteq> frame_header_len + uint payload_len then Inl (fe_canonical fe)
    else Inr (drop 24 bytes)))"

text \<open>A decoder run on a payload, of which it must leave nothing.\<close>

definition decode_all :: "'e \<Rightarrow> ('e, 'a) dec \<Rightarrow> u8 list \<Rightarrow> 'e + 'a" where
  "decode_all bad d payload =
    rbind (d (cursor_new payload)) (\<lambda>(a, c). if \<not> is_finished c then Inl bad else Inr a)"

lemma frame_header_eq: "frame_header magic mj mn n = Inr
    (magic @ u16_le 24 @ u16_le mj @ u16_le mn @ u32_le 0 @ u64_le (of_nat n))"
  by (simp add: frame_header_def)

lemma frame_decode_encode:
  assumes "frame_encode fe magic mj mn payload = Inr bs" and "length magic = 6" and "mn \<le> mx"
  shows "frame_decode fe' magic mj mx bs = Inr payload"
proof -
  let ?h = "magic @ u16_le 24 @ u16_le mj @ u16_le mn @ u32_le 0 @ u64_le (of_nat (length payload))"
  from assms(1) have bound: "frame_header_len + int (length payload) < usize_bound" and bs: "bs = ?h @ payload"
    by (auto simp: frame_encode_def frame_header_eq split: if_splits)
  have hl: "length ?h = 24" using assms(2) by simp
  have n: "uint (of_nat (length payload) :: u64) = int (length payload)"
    using bound by (simp add: usize_bound_def frame_header_len_def uint_nat unat_of_nat)
  have at: "cursor_at (cursor_new bs) (?h @ payload)"
    using cursor_at_new [of bs] bound hl by (simp add: bs frame_header_len_def)
  have "reads (frame_header_dec fe' magic mj mx) ?h (of_nat (length payload))"
    unfolding frame_header_dec_def using assms(2) leD [OF assms(3)]
    by (auto intro!: reads_dbind [OF reads_take_bytes] reads_dbind [OF reads_u16] reads_dbind [OF reads_u32] reads_u64)
  then have "frame_header_dec fe' magic mj mx (cursor_new bs) =
      Inr (of_nat (length payload), moved (length ?h) (cursor_new bs))"
    using at by (rule readsD)
  moreover have "length bs = 24 + length payload" "drop 24 bs = payload" using hl by (simp_all add: bs)
  ultimately show ?thesis
    using bound n by (simp add: frame_decode_def frame_header_len_def)
qed

lemma frame_encode_decode:
  assumes "frame_decode fe magic mj mx bs = Inr payload" and "int (length bs) < usize_bound"
  shows "\<exists>mn \<le> mx. frame_encode fe' magic mj mn payload = Inr bs"
proof -
  from assms(1) obtain n c where hd: "frame_header_dec fe magic mj mx (cursor_new bs) = Inr (n, c)"
    and len: "int (length bs) = frame_header_len + uint n" "frame_header_len + uint n < usize_bound"
    and payload: "payload = drop 24 bs"
    by (auto simp: frame_decode_def split: if_splits)
  have "accepts (frame_header_dec fe magic mj mx) (\<lambda>n cs. \<exists>mn \<le> mx. length magic = 6
      \<and> cs = magic @ u16_le 24 @ u16_le mj @ u16_le mn @ u32_le 0 @ u64_le n)"
    unfolding frame_header_dec_def
    apply (rule accepts_dbind [OF accepts_take_bytes])
    apply (split if_split, intro conjI impI, rule accepts_dfail)
    apply (rule accepts_dbind [OF accepts_u16])
    apply (split if_split, intro conjI impI, rule accepts_dfail)
    apply (rule accepts_dbind [OF accepts_u16])+
    apply (split if_split, intro conjI impI, rule accepts_dfail)
    apply (rule accepts_dbind [OF accepts_u32])
    apply (split if_split, intro conjI impI, rule accepts_dfail)
    apply (rule accepts_mono [OF accepts_u64])
    apply (auto simp: not_less)
    done
  from acceptsD [OF this cursor_at_new [OF assms(2)] hd] obtain cs rest where
      bs: "bs = cs @ rest" and "\<exists>mn \<le> mx. length magic = 6
        \<and> cs = magic @ u16_le 24 @ u16_le mj @ u16_le mn @ u32_le 0 @ u64_le n" .
  then obtain mn where mn: "mn \<le> mx" "length magic = 6"
      and cs: "cs = magic @ u16_le 24 @ u16_le mj @ u16_le mn @ u32_le 0 @ u64_le n"
    by blast
  have cl: "length cs = 24" using mn(2) by (simp add: cs)
  then have rest: "rest = payload" by (simp add: payload bs)
  have "int (length rest) = uint n" using len(1) cl by (simp add: bs frame_header_len_def)
  then have "of_nat (length rest) = n" by (metis of_int_of_nat_eq word_of_int_uint)
  then have "frame_encode fe' magic mj mn payload = Inr bs"
    using len(2) \<open>int (length rest) = uint n\<close> unfolding rest
    by (simp add: frame_encode_def frame_header_eq bs cs rest)
  with mn(1) show ?thesis by blast
qed

text \<open>The minor version, as long as it is a single byte, is the byte at position 10.\<close>

lemma u16_le_small:
  assumes "mn < 256"
  shows "u16_le mn = [ucast mn, 0]"
proof -
  have "drop_bit 8 mn = 0"
    using assms by (simp add: drop_bit_eq_div word_less_nat_alt word_unat_eq_iff unat_div)
  then show ?thesis by (simp add: eval_nat_numeral)
qed

lemma frame_minor:
  assumes "frame_encode fe magic mj mn payload = Inr bs" and "length magic = 6" and "mn < 256" and "mn' < 256"
  shows "frame_encode fe magic mj mn' payload = Inr (bs[10 := ucast mn'])"
proof -
  let ?pre = "magic @ u16_le 24 @ u16_le mj"
  let ?post = "u32_le 0 @ u64_le (of_nat (length payload)) @ payload"
  from assms(1) have bound: "frame_header_len + int (length payload) < usize_bound"
    and bs: "bs = ?pre @ u16_le mn @ ?post"
    by (auto simp: frame_encode_def frame_header_eq split: if_splits)
  have "length ?pre = 10" using assms(2) by simp
  then have "bs[10 := ucast mn'] = ?pre @ u16_le mn' @ ?post"
    unfolding bs u16_le_small [OF assms(3)] u16_le_small [OF assms(4)]
    by (simp only: list_update_append) simp
  with bound show ?thesis by (simp add: frame_encode_def frame_header_eq)
qed

lemma decode_all_reads:
  assumes "reads d bs a" and "int (length bs) < usize_bound"
  shows "decode_all bad d bs = Inr a"
proof -
  have at: "cursor_at (cursor_new bs) (bs @ [])" using assms(2) by (simp add: cursor_at_new)
  have "d (cursor_new bs) = Inr (a, moved (length bs) (cursor_new bs))" using assms(1) at by (rule readsD)
  moreover have "is_finished (moved (length bs) (cursor_new bs))"
    using is_finished_at [OF cursor_at_moved [OF at]] by simp
  ultimately show ?thesis by (simp add: decode_all_def)
qed

lemma decode_all_accepts:
  assumes "accepts d P" and "decode_all bad d bs = Inr a" and "int (length bs) < usize_bound"
  shows "P a bs"
proof -
  from assms(2) obtain c where d: "d (cursor_new bs) = Inr (a, c)" and fin: "is_finished c"
    by (auto simp: decode_all_def split: if_splits)
  have at: "cursor_at (cursor_new bs) bs" using assms(3) by (rule cursor_at_new)
  from acceptsD [OF assms(1) at d] obtain cs rest where
      bs: "bs = cs @ rest" and c: "c = moved (length cs) (cursor_new bs)" and P: "P a cs" .
  have "cursor_at c rest" unfolding c by (rule cursor_at_moved) (use at bs in simp)
  with fin have "rest = []" by (simp add: is_finished_at)
  with P bs show ?thesis by simp
qed

section \<open>Maps rebuilt from increasing entries\<close>

text \<open>
  \<open>for _ in 0..n { let r = d(cursor)?; check(key(r), &mut previous)?; if map.insert(..).is_some() { return
  Err(..) } }\<close>
\<close>

fun take_table ::
    "('k::linorder \<Rightarrow> 'p \<Rightarrow> 'e + 'p) \<Rightarrow> 'e \<Rightarrow> ('e, 'r) dec \<Rightarrow> ('r \<Rightarrow> 'k) \<Rightarrow> nat \<Rightarrow> 'p \<Rightarrow> ('k, 'r) btmap
      \<Rightarrow> ('e, ('k, 'r) btmap) dec" where
  "take_table chk dup d key 0 prev m = dret m"
| "take_table chk dup d key (Suc n) prev m =
    dbind d (\<lambda>r.
    dbind (dlift (chk (key r) prev)) (\<lambda>prev'.
    if bt_contains m (key r) then dfail dup
    else take_table chk dup d key n prev' (bt_insert (key r) r m)))"

text \<open>\<open>ensure_increasing\<close>, and the comparison with the previous key where keys are strings.\<close>

definition ensure_increasing :: "'e \<Rightarrow> u64 \<Rightarrow> u64 \<Rightarrow> 'e + u64" where
  "ensure_increasing bad v previous = (if v = 0 \<or> v \<le> previous then Inl bad else Inr v)"

definition ensure_after :: "'e \<Rightarrow> string \<Rightarrow> string option \<Rightarrow> 'e + string option" where
  "ensure_after bad key previous = (case previous of
      Some p \<Rightarrow> if key \<le> p then Inl bad else Inr (Some key)
    | None \<Rightarrow> Inr (Some key))"

fun after_key :: "string option \<Rightarrow> string \<Rightarrow> bool" where
  "after_key None k \<longleftrightarrow> True"
| "after_key (Some p) k \<longleftrightarrow> p < k"

locale increasing_check =
  fixes chk :: "'k::linorder \<Rightarrow> 'p \<Rightarrow> 'e + 'p" and above :: "'p \<Rightarrow> 'k \<Rightarrow> bool"
  assumes chk_Inr: "chk k p = Inr p' \<Longrightarrow> above p k \<and> (\<forall>k'. above p' k' \<longleftrightarrow> k < k')"
    and chk_above: "above p k \<Longrightarrow> \<exists>p'. chk k p = Inr p'"
    and above_mono: "above p k \<Longrightarrow> k < k' \<Longrightarrow> above p k'"
begin

text \<open>A map on top of one whose keys the check has seen already.\<close>

lemma seen_below:
  assumes "bt_wf m" and "\<And>e k. e \<in> set m \<Longrightarrow> above p k \<Longrightarrow> fst e < k" and "above p k"
  shows "bt_get m k = None" and "bt_insert k v m = m @ [(k, v)]" and "bt_wf (m @ [(k, v)])"
proof -
  have below: "\<And>e. e \<in> set m \<Longrightarrow> fst e < k" using assms(2,3) by blast
  then show "bt_insert k v m = m @ [(k, v)]" by (rule bt_insert_last)
  show "bt_wf (m @ [(k, v)])" using assms(1) below by (simp add: bt_wf_append_last)
  show "bt_get m k = None" using below by (force simp: map_of_eq_None_iff)
qed

end

interpretation ids_increasing: increasing_check "ensure_increasing bad" "\<lambda>p k. p < k"
  for bad
proof unfold_locales
  fix k p :: u64
  show "\<exists>p'. ensure_increasing bad k p = Inr p'" if "p < k"
  proof -
    have "k \<noteq> 0" using that by auto
    with that show ?thesis by (simp add: ensure_increasing_def not_le)
  qed
qed (auto simp: ensure_increasing_def split: if_splits)

interpretation keys_increasing: increasing_check "ensure_after bad" after_key
  for bad
proof unfold_locales
  fix k p p'
  show "after_key p k \<and> (\<forall>k'. after_key p' k' = (k < k'))" if "ensure_after bad k p = Inr p'"
    using that by (cases p) (auto simp: ensure_after_def split: if_splits)
  show "\<exists>p'. ensure_after bad k p = Inr p'" if "after_key p k"
    using that by (cases p) (auto simp: ensure_after_def)
  show "after_key p k'" if "after_key p k" "k < k'" for k'
    using that by (cases p) auto
qed

locale table_codec = codec ok encode decode + increasing_check chk above
  for ok :: "'r \<Rightarrow> bool" and encode :: "'r \<Rightarrow> 'e + u8 list" and decode :: "('f, 'r) dec"
    and chk :: "'k::linorder \<Rightarrow> 'p \<Rightarrow> 'f + 'p" and above :: "'p \<Rightarrow> 'k \<Rightarrow> bool" +
  fixes key :: "'r \<Rightarrow> 'k"
begin

definition entries_ok :: "'p \<Rightarrow> ('k, 'r) btmap \<Rightarrow> bool" where
  "entries_ok p m \<longleftrightarrow> (\<forall>e \<in> set m. fst e = key (snd e) \<and> ok (snd e) \<and> above p (fst e))"

lemma table_reads:
  assumes "bt_wf (m1 @ m2)" and "entries_ok prev m2" and "push_each encode (bt_values m2) = Inr bs"
  shows "reads (take_table chk dup decode key (length m2) prev m1) bs (m1 @ m2)"
  using assms
proof (induction m2 arbitrary: m1 prev bs)
  case Nil
  then show ?case by (simp add: bt_values_def reads_dret)
next
  case (Cons e m2)
  obtain k r where e: "e = (k, r)" by (cases e)
  from Cons.prems(2) have r: "key r = k" "ok r" "above prev k" by (auto simp: entries_ok_def e)
  from Cons.prems(3) obtain b1 b2 where b: "encode r = Inr b1" "push_each encode (bt_values m2) = Inr b2" "bs = b1 @ b2"
    by (auto simp: bt_values_def e)
  from chk_above [OF r(3)] obtain prev' where prev': "chk k prev = Inr prev'" by blast
  have sorted: "sorted_wrt (<) (map fst m1 @ k # map fst m2)"
    using Cons.prems(1) by (simp add: bt_wf_def e)
  then have below: "\<And>x. x \<in> set m1 \<Longrightarrow> fst x < k" and above_k: "\<And>x. x \<in> set m2 \<Longrightarrow> k < fst x"
    by (auto simp: sorted_wrt_append)
  have fresh: "bt_get m1 k = None" using below by (force simp: map_of_eq_None_iff)
  have ins: "bt_insert k r m1 = m1 @ [(k, r)]" using below by (rule bt_insert_last)
  have "entries_ok prev' m2"
    using Cons.prems(2) chk_Inr [OF prev'] above_k by (auto simp: entries_ok_def)
  then have rest: "reads (take_table chk dup decode key (length m2) prev' (m1 @ [(k, r)])) b2 ((m1 @ [(k, r)]) @ m2)"
    using Cons.prems(1) b(2) by (intro Cons.IH) (simp_all add: e)
  have "reads decode b1 r" using r(2) b(1) by (rule decode_encode)
  then show ?case
    unfolding b(3) e using rest fresh
    by (auto intro!: reads_dbind simp: r(1) prev' ins bt_contains_def)
qed

lemma table_round_trip:
  assumes "bt_wf m" and "entries_ok prev m" and "push_each encode (bt_values m) = Inr bs"
  shows "reads (take_table chk dup decode key (length m) prev []) bs m"
  using table_reads [of "[]" m prev bs] assms by simp

end

locale canonical_table = table_codec ok encode decode chk above key + canonical_codec ok encode decode
  for ok :: "'r \<Rightarrow> bool" and encode :: "'r \<Rightarrow> 'e + u8 list" and decode :: "('f, 'r) dec"
    and chk :: "'k::linorder \<Rightarrow> 'p \<Rightarrow> 'f + 'p" and above :: "'p \<Rightarrow> 'k \<Rightarrow> bool" and key :: "'r \<Rightarrow> 'k"
begin

lemma table_accepts_from:
  assumes "bt_wf m1" and "\<And>e k. e \<in> set m1 \<Longrightarrow> above prev k \<Longrightarrow> fst e < k"
  shows "accepts (take_table chk dup decode key n prev m1)
    (\<lambda>m bs. \<exists>m2. m = m1 @ m2 \<and> length m2 = n \<and> bt_wf m \<and> entries_ok prev m2
      \<and> push_each encode (bt_values m2) = Inr bs)"
  using assms
proof (induction n arbitrary: prev m1)
  case 0
  then show ?case by (auto intro!: accepts_dret simp: entries_ok_def bt_values_def)
next
  case (Suc n)
  show ?case
    unfolding take_table.simps
  proof (rule accepts_dbind [OF encode_decode], rule accepts_dbind_dlift)
    fix r bs prev'
    assume r: "ok r \<and> encode r = Inr bs" and p: "chk (key r) prev = Inr prev'"
    from chk_Inr [OF p] have ab: "above prev (key r)" and nxt: "\<And>k'. above prev' k' \<longleftrightarrow> key r < k'" by auto
    note seen = seen_below [OF Suc.prems ab]
    have "accepts (take_table chk dup decode key n prev' (m1 @ [(key r, r)]))
        (\<lambda>m cs. \<exists>m2. m = (m1 @ [(key r, r)]) @ m2 \<and> length m2 = n \<and> bt_wf m \<and> entries_ok prev' m2
          \<and> push_each encode (bt_values m2) = Inr cs)"
      using seen(3) Suc.prems(2) above_mono [OF ab] nxt by (intro Suc.IH) auto
    then have "accepts (take_table chk dup decode key n prev' (m1 @ [(key r, r)]))
        (\<lambda>m cs. \<exists>m2. m = m1 @ m2 \<and> length m2 = Suc n \<and> bt_wf m \<and> entries_ok prev m2
          \<and> push_each encode (bt_values m2) = Inr (bs @ cs))"
    proof (rule accepts_mono)
      fix m cs
      assume "\<exists>m2. m = (m1 @ [(key r, r)]) @ m2 \<and> length m2 = n \<and> bt_wf m \<and> entries_ok prev' m2
          \<and> push_each encode (bt_values m2) = Inr cs"
      then obtain m2 where m2: "m = m1 @ (key r, r) # m2" "length m2 = n" "bt_wf m" "entries_ok prev' m2"
          "push_each encode (bt_values m2) = Inr cs" by auto
      have "above prev k'" if "above prev' k'" for k'
        using that ab nxt above_mono by blast
      then show "\<exists>m2. m = m1 @ m2 \<and> length m2 = Suc n \<and> bt_wf m \<and> entries_ok prev m2
          \<and> push_each encode (bt_values m2) = Inr (bs @ cs)"
        using m2 r ab by (intro exI [of _ "(key r, r) # m2"]) (auto simp: entries_ok_def bt_values_def)
    qed
    then show "accepts (if bt_contains m1 (key r) then dfail dup
          else take_table chk dup decode key n prev' (bt_insert (key r) r m1))
        (\<lambda>m cs. \<exists>m2. m = m1 @ m2 \<and> length m2 = Suc n \<and> bt_wf m \<and> entries_ok prev m2
          \<and> push_each encode (bt_values m2) = Inr (bs @ cs))"
      using seen(1,2) by (simp add: bt_contains_def)
  qed
qed

lemma table_accepts:
  "accepts (take_table chk dup decode key n prev [])
    (\<lambda>m bs. length m = n \<and> bt_wf m \<and> entries_ok prev m \<and> push_each encode (bt_values m) = Inr bs)"
  by (rule accepts_mono [OF table_accepts_from]) auto

end

section \<open>Whole checkpoints\<close>

text \<open>
  What a user of a checkpoint format relies on: a good state comes back as it was, and nothing but
  good states come out of any bytes.
\<close>

locale checkpoint =
  fixes ok :: "'s \<Rightarrow> bool" and encode :: "'s \<Rightarrow> 'e + u8 list" and decode :: "u8 list \<Rightarrow> 'f + 's"
  assumes restores: "ok s \<Longrightarrow> encode s = Inr bs \<Longrightarrow> decode bs = Inr s"
    and sound: "decode bs = Inr s \<Longrightarrow> int (length bs) < usize_bound \<Longrightarrow> ok s"
begin

text \<open>Different states have different checkpoints, and writing a state that was read changes nothing.\<close>

lemma faithful: "ok s \<Longrightarrow> ok s' \<Longrightarrow> encode s = Inr bs \<Longrightarrow> encode s' = Inr bs \<Longrightarrow> s = s'"
  using restores [of s bs] restores [of s' bs] by simp

lemma stable:
  "decode bs = Inr s \<Longrightarrow> int (length bs) < usize_bound \<Longrightarrow> encode s = Inr bs' \<Longrightarrow> decode bs' = Inr s"
  using sound restores by blast

end

end
