(* ===== verification/SIK97_Checkpoint.thy ===== *)
theory SIK97_Checkpoint
  imports Checkpoint_Frame Cognition
begin

text \<open>
  The SIK97 checkpoint of the cognitive kernel, \<open>crates/ntd-runtime/src/checkpoint.rs\<close>:
  \<open>encode_cognitive_checkpoint\<close>, \<open>decode_cognitive_checkpoint\<close> and the encoders and decoders of the
  records they call. The lemmas pair every encoder with its decoder (interpretations of
  \<open>canonical_codec\<close>), lift the pairs to the five tables of the state (interpretations of
  \<open>canonical_table\<close>) and conclude with the round trip, its converse and the error behaviour.
\<close>

section \<open>Errors and constants\<close>

datatype checkpoint_error =
    Sik_Truncated
  | Sik_InvalidMagic
  | Sik_InvalidHeader
  | Sik_UnsupportedVersion u16 u16
  | Sik_InvalidUtf8
  | Sik_InvalidBoolean u8
  | Sik_InvalidSideEffect u8
  | Sik_InvalidGoalStatus u8
  | Sik_InvalidTaskStatus u8
  | Sik_InvalidMemoryKind u8
  | Sik_NonCanonicalEncoding
  | Sik_Overflow
  | Sik_Cognitive cognitive_error
  | Sik_Memory memory_error

definition sik97_magic :: "u8 list" where
  "sik97_magic = [83, 73, 75, 57, 55, 0]"

definition sik97_major :: u16 where
  "sik97_major = 0"

definition sik97_minor :: u16 where
  "sik97_minor = 1"

definition sik_cerr :: "checkpoint_error cerr" where
  "sik_cerr = \<lparr>trunc = Sik_Truncated, ovfl = Sik_Overflow\<rparr>"

definition sik_ferr :: "checkpoint_error frame_err" where
  "sik_ferr = \<lparr>fe_cursor = sik_cerr, fe_magic = Sik_InvalidMagic, fe_header = Sik_InvalidHeader,
     fe_version = Sik_UnsupportedVersion, fe_canonical = Sik_NonCanonicalEncoding\<rparr>"

text \<open>The discriminants that \<open>as u8\<close> yields.\<close>

fun goal_status_tag :: "goal_status \<Rightarrow> u8" where
  "goal_status_tag GActive = 1"
| "goal_status_tag GCompleted = 2"
| "goal_status_tag GPaused = 3"
| "goal_status_tag GFailed = 4"

fun task_status_tag :: "task_status \<Rightarrow> u8" where
  "task_status_tag TPlanned = 1"
| "task_status_tag TRunning = 2"
| "task_status_tag TCompleted = 3"
| "task_status_tag TFailed = 4"
| "task_status_tag TPaused = 5"

fun memory_kind_tag :: "memory_kind \<Rightarrow> u8" where
  "memory_kind_tag Episodic = 1"
| "memory_kind_tag Semantic = 2"
| "memory_kind_tag Procedural = 3"

fun encode_side_effect :: "side_effect_class \<Rightarrow> u8" where
  "encode_side_effect ReadOnly = 1"
| "encode_side_effect Reversible = 2"
| "encode_side_effect ExternalWrite = 3"
| "encode_side_effect Irreversible = 4"

definition decode_side_effect :: "u8 \<Rightarrow> checkpoint_error + side_effect_class" where
  "decode_side_effect v =
    (if v = 1 then Inr ReadOnly else if v = 2 then Inr Reversible else if v = 3 then Inr ExternalWrite
     else if v = 4 then Inr Irreversible else Inl (Sik_InvalidSideEffect v))"

section \<open>Encoding\<close>

definition encode_goal :: "goal \<Rightarrow> checkpoint_error enc" where
  "encode_goal g =
    eseq (push_u64 (gl_id g))
    (eseq (push_u8 (goal_status_tag (gl_status g)))
    (eseq (push_u64 (gl_created_tick g))
    (eseq (push_u64 (gl_updated_tick g))
    (eseq (push_string Sik_Overflow (gl_objective g))
    (push_strings Sik_Overflow (gl_completion_criteria g))))))"

definition encode_action :: "action_node \<Rightarrow> checkpoint_error enc" where
  "encode_action a =
    eseq (push_u32 (an_id a))
    (eseq (push_string Sik_Overflow (an_capability a))
    (eseq (push_u8 (encode_side_effect (an_side_effect a)))
    (push_bool (an_verification_required a))))"

definition encode_task :: "cognitive_task \<Rightarrow> checkpoint_error enc" where
  "encode_task t =
    eseq (push_u64 (ct_id t))
    (eseq (push_u64 (case ct_goal_id t of Some g \<Rightarrow> g | None \<Rightarrow> 0))
    (eseq (push_u8 (task_status_tag (ct_status t)))
    (eseq (push_u32 (ct_steps_taken t))
    (eseq (push_u32 (ct_verification_failures t))
    (eseq (push_u64 (ct_created_tick t))
    (eseq (push_u64 (ct_updated_tick t))
    (eseq (push_string Sik_Overflow (in_objective (ct_intent t)))
    (eseq (push_strings Sik_Overflow (in_completion_criteria (ct_intent t)))
    (eseq (push_u32 (in_max_steps (ct_intent t)))
    (eseq (push_len Sik_Overflow (length (tg_actions (ct_graph t))))
    (eseq (push_each encode_action (tg_actions (ct_graph t)))
    (push_option (push_string Sik_Overflow) (ct_last_observation t)))))))))))))"

definition encode_world_fact :: "world_fact \<Rightarrow> checkpoint_error enc" where
  "encode_world_fact f =
    eseq (push_string Sik_Overflow (wf_key f))
    (eseq (push_string Sik_Overflow (wf_value f))
    (eseq (push_u64 (wf_revision f))
    (push_u64 (wf_updated_tick f))))"

definition encode_memory_record :: "memory_record \<Rightarrow> checkpoint_error enc" where
  "encode_memory_record r =
    eseq (push_u64 (mr_id r))
    (eseq (push_u8 (memory_kind_tag (mr_kind r)))
    (eseq (push_u16 (mr_importance r))
    (eseq (push_u64 (mr_created_tick r))
    (eseq (push_u64 (mr_last_recalled_tick r))
    (eseq (push_u32 (mr_recall_count r))
    (eseq (push_string Sik_Overflow (mr_content r))
    (push_strings Sik_Overflow (mr_tags r))))))))"

definition encode_delta :: "learned_delta \<Rightarrow> checkpoint_error enc" where
  "encode_delta d =
    eseq (push_u64 (ld_id d))
    (eseq (push_u64 (ld_generation d))
    (eseq (push_bool (ld_active d))
    (eseq (push_string Sik_Overflow (ld_namespace d))
    (push_bytes Sik_Overflow (ld_payload d)))))"

text \<open>The payload, and the checkpoint around it.\<close>

definition sik_payload :: "cognitive_state \<Rightarrow> checkpoint_error enc" where
  "sik_payload s =
    eseq (push_raw (cs_identity s))
    (eseq (push_u64 (cs_tick s))
    (eseq (push_u64 (cs_next_goal_id s))
    (eseq (push_u64 (cs_next_task_id s))
    (eseq (push_u64 (cs_next_delta_id s))
    (eseq (push_u64 (sm_next_id (cs_memory s)))
    (eseq (push_len Sik_Overflow (length (cs_goals s)))
    (eseq (push_len Sik_Overflow (length (cs_tasks s)))
    (eseq (push_len Sik_Overflow (length (cs_world s)))
    (eseq (push_len Sik_Overflow (length (sm_records (cs_memory s))))
    (eseq (push_len Sik_Overflow (length (cs_deltas s)))
    (eseq (push_each encode_goal (bt_values (cs_goals s)))
    (eseq (push_each encode_task (bt_values (cs_tasks s)))
    (eseq (push_each encode_world_fact (bt_values (cs_world s)))
    (eseq (push_each encode_memory_record (bt_values (sm_records (cs_memory s))))
    (push_each encode_delta (bt_values (cs_deltas s)))))))))))))))))"

definition encode_cognitive_checkpoint :: "cognitive_state \<Rightarrow> checkpoint_error enc" where
  "encode_cognitive_checkpoint s =
    rbind (map_err Sik_Cognitive (runtime_from_state s)) (\<lambda>_.
    rbind (sik_payload s) (\<lambda>payload.
    frame_encode sik_ferr sik97_magic sik97_major sik97_minor payload))"

section \<open>Decoding\<close>

abbreviation sik_string :: "(checkpoint_error, string) dec" where
  "sik_string \<equiv> take_string sik_cerr Sik_InvalidUtf8"

abbreviation sik_strings :: "(checkpoint_error, string list) dec" where
  "sik_strings \<equiv> take_strings sik_cerr Sik_InvalidUtf8"

definition decode_goal :: "(checkpoint_error, goal) dec" where
  "decode_goal =
    dbind (take_u64 sik_cerr) (\<lambda>gid.
    dbind (take_u8 sik_cerr) (\<lambda>status_raw.
    dbind (dlift (map_err (\<lambda>_. Sik_InvalidGoalStatus status_raw) (goal_status_try_from status_raw))) (\<lambda>status.
    dbind (take_u64 sik_cerr) (\<lambda>created_tick.
    dbind (take_u64 sik_cerr) (\<lambda>updated_tick.
    dbind sik_string (\<lambda>objective.
    dbind sik_strings (\<lambda>completion_criteria.
    dret \<lparr>gl_id = gid, gl_objective = objective, gl_completion_criteria = completion_criteria,
      gl_status = status, gl_created_tick = created_tick, gl_updated_tick = updated_tick\<rparr>)))))))"

definition decode_action :: "(checkpoint_error, action_node) dec" where
  "decode_action =
    dbind (take_u32 sik_cerr) (\<lambda>aid.
    dbind sik_string (\<lambda>capability.
    dbind (take_u8 sik_cerr) (\<lambda>raw_side_effect.
    dbind (dlift (decode_side_effect raw_side_effect)) (\<lambda>side_effect.
    dbind (take_bool sik_cerr Sik_InvalidBoolean) (\<lambda>verification_required.
    dret \<lparr>an_id = aid, an_capability = capability, an_side_effect = side_effect,
      an_verification_required = verification_required\<rparr>)))))"

definition decode_task :: "(checkpoint_error, cognitive_task) dec" where
  "decode_task =
    dbind (take_u64 sik_cerr) (\<lambda>tid.
    dbind (take_u64 sik_cerr) (\<lambda>raw_goal.
    dbind (take_u8 sik_cerr) (\<lambda>status_raw.
    dbind (dlift (map_err (\<lambda>_. Sik_InvalidTaskStatus status_raw) (task_status_try_from status_raw))) (\<lambda>status.
    dbind (take_u32 sik_cerr) (\<lambda>steps_taken.
    dbind (take_u32 sik_cerr) (\<lambda>verification_failures.
    dbind (take_u64 sik_cerr) (\<lambda>created_tick.
    dbind (take_u64 sik_cerr) (\<lambda>updated_tick.
    dbind sik_string (\<lambda>objective.
    dbind sik_strings (\<lambda>completion_criteria.
    dbind (take_u32 sik_cerr) (\<lambda>max_steps.
    dbind (dbind (take_u32 sik_cerr) (\<lambda>action_count. take_n (unat action_count) decode_action)) (\<lambda>actions.
    dbind (take_option sik_cerr Sik_InvalidBoolean sik_string) (\<lambda>last_observation.
    dret \<lparr>ct_id = tid, ct_goal_id = (if raw_goal \<noteq> 0 then Some raw_goal else None),
      ct_intent = \<lparr>in_objective = objective, in_completion_criteria = completion_criteria,
        in_max_steps = max_steps\<rparr>,
      ct_graph = \<lparr>tg_actions = actions\<rparr>, ct_status = status, ct_steps_taken = steps_taken,
      ct_verification_failures = verification_failures, ct_last_observation = last_observation,
      ct_created_tick = created_tick, ct_updated_tick = updated_tick\<rparr>)))))))))))))"

definition decode_world_fact :: "(checkpoint_error, world_fact) dec" where
  "decode_world_fact =
    dbind sik_string (\<lambda>key.
    dbind sik_string (\<lambda>val.
    dbind (take_u64 sik_cerr) (\<lambda>revision.
    dbind (take_u64 sik_cerr) (\<lambda>updated_tick.
    dret \<lparr>wf_key = key, wf_value = val, wf_revision = revision, wf_updated_tick = updated_tick\<rparr>))))"

definition decode_memory_record :: "(checkpoint_error, memory_record) dec" where
  "decode_memory_record =
    dbind (take_u64 sik_cerr) (\<lambda>rid.
    dbind (take_u8 sik_cerr) (\<lambda>kind_raw.
    dbind (dlift (map_err (\<lambda>_. Sik_InvalidMemoryKind kind_raw) (memory_kind_try_from kind_raw))) (\<lambda>kind.
    dbind (take_u16 sik_cerr) (\<lambda>importance.
    dbind (take_u64 sik_cerr) (\<lambda>created_tick.
    dbind (take_u64 sik_cerr) (\<lambda>last_recalled_tick.
    dbind (take_u32 sik_cerr) (\<lambda>recall_count.
    dbind sik_string (\<lambda>content.
    dbind sik_strings (\<lambda>tags.
    if \<not> strictly_increasing tags then dfail Sik_NonCanonicalEncoding else
    dret \<lparr>mr_id = rid, mr_kind = kind, mr_content = content, mr_tags = tags,
      mr_importance = importance, mr_created_tick = created_tick,
      mr_last_recalled_tick = last_recalled_tick, mr_recall_count = recall_count\<rparr>)))))))))"

definition decode_delta :: "(checkpoint_error, learned_delta) dec" where
  "decode_delta =
    dbind (take_u64 sik_cerr) (\<lambda>did.
    dbind (take_u64 sik_cerr) (\<lambda>generation.
    dbind (take_bool sik_cerr Sik_InvalidBoolean) (\<lambda>active.
    dbind sik_string (\<lambda>namespace.
    dbind (take_blob sik_cerr) (\<lambda>payload.
    dret \<lparr>ld_id = did, ld_namespace = namespace, ld_generation = generation, ld_payload = payload,
      ld_active = active\<rparr>)))))"

text \<open>The loops over \<open>goal_count\<close>, \<open>task_count\<close> and so on.\<close>

abbreviation sik_ids :: "u64 \<Rightarrow> u64 \<Rightarrow> checkpoint_error + u64" where
  "sik_ids \<equiv> ensure_increasing Sik_NonCanonicalEncoding"

abbreviation sik_table :: "(checkpoint_error, 'r) dec \<Rightarrow> ('r \<Rightarrow> u64) \<Rightarrow> u32
    \<Rightarrow> (checkpoint_error, (u64, 'r) btmap) dec" where
  "sik_table d key n \<equiv> take_table sik_ids Sik_NonCanonicalEncoding d key (unat n) 0 []"

text \<open>
  What the cursor over the payload yields: the state, its memory still in parts.
\<close>

definition sik_body :: "(checkpoint_error, cognitive_state) dec" where
  "sik_body =
    dbind (take_bytes sik_cerr 16) (\<lambda>identity.
    dbind (take_u64 sik_cerr) (\<lambda>tick.
    dbind (take_u64 sik_cerr) (\<lambda>next_goal_id.
    dbind (take_u64 sik_cerr) (\<lambda>next_task_id.
    dbind (take_u64 sik_cerr) (\<lambda>next_delta_id.
    dbind (take_u64 sik_cerr) (\<lambda>next_memory_id.
    dbind (take_u32 sik_cerr) (\<lambda>goal_count.
    dbind (take_u32 sik_cerr) (\<lambda>task_count.
    dbind (take_u32 sik_cerr) (\<lambda>world_count.
    dbind (take_u32 sik_cerr) (\<lambda>memory_count.
    dbind (take_u32 sik_cerr) (\<lambda>delta_count.
    dbind (sik_table decode_goal gl_id goal_count) (\<lambda>goals.
    dbind (sik_table decode_task ct_id task_count) (\<lambda>tasks.
    dbind (take_table (ensure_after Sik_NonCanonicalEncoding) Sik_NonCanonicalEncoding
      decode_world_fact wf_key (unat world_count) None []) (\<lambda>world.
    dbind (sik_table decode_memory_record mr_id memory_count) (\<lambda>records.
    dbind (sik_table decode_delta ld_id delta_count) (\<lambda>deltas.
    dret \<lparr>cs_identity = identity, cs_tick = tick, cs_next_goal_id = next_goal_id,
      cs_next_task_id = next_task_id, cs_next_delta_id = next_delta_id, cs_goals = goals,
      cs_tasks = tasks, cs_world = world,
      cs_memory = \<lparr>sm_next_id = next_memory_id, sm_records = records\<rparr>,
      cs_deltas = deltas\<rparr>))))))))))))))))"

definition decode_cognitive_checkpoint :: "u8 list \<Rightarrow> checkpoint_error + cognitive_state" where
  "decode_cognitive_checkpoint bytes =
    rbind (frame_decode sik_ferr sik97_magic sik97_major sik97_minor bytes) (\<lambda>payload.
    rbind (decode_all Sik_NonCanonicalEncoding sik_body payload) (\<lambda>parts.
    rbind (map_err Sik_Memory (memory_from_parts (sm_next_id (cs_memory parts)) (sm_records (cs_memory parts)))) (\<lambda>memory.
    let state = parts\<lparr>cs_memory := memory\<rparr> in
    rbind (map_err Sik_Cognitive (runtime_from_state state)) (\<lambda>_.
    Inr state))))"

section \<open>Tags round-trip\<close>

lemma goal_status_Inr: "goal_status_try_from v = Inr st \<longleftrightarrow> v = goal_status_tag st"
  by (cases st) (auto simp: goal_status_try_from_def)

lemma task_status_Inr: "task_status_try_from v = Inr st \<longleftrightarrow> v = task_status_tag st"
  by (cases st) (auto simp: task_status_try_from_def)

lemma memory_kind_Inr: "memory_kind_try_from v = Inr k \<longleftrightarrow> v = memory_kind_tag k"
  by (cases k) (auto simp: memory_kind_try_from_def)

lemma side_effect_Inr: "decode_side_effect v = Inr e \<longleftrightarrow> v = encode_side_effect e"
  by (cases e) (auto simp: decode_side_effect_def)

lemmas sik_tags = goal_status_Inr task_status_Inr memory_kind_Inr side_effect_Inr

lemma sik_tags_back [simp]:
  "goal_status_try_from (goal_status_tag gs) = Inr gs"
  "task_status_try_from (task_status_tag ts) = Inr ts"
  "memory_kind_try_from (memory_kind_tag k) = Inr k"
  "decode_side_effect (encode_side_effect e) = Inr e"
  by (simp_all add: sik_tags)

section \<open>Records round-trip\<close>

text \<open>The strings a record holds are Rust strings; a task never refers to goal 0.\<close>

definition goal_strs :: "goal \<Rightarrow> bool" where
  "goal_strs g \<longleftrightarrow> str_ok (gl_objective g) \<and> list_all str_ok (gl_completion_criteria g)"

definition node_cap_ok :: "action_node \<Rightarrow> bool" where
  "node_cap_ok a \<longleftrightarrow> str_ok (an_capability a)"

definition task_strs :: "cognitive_task \<Rightarrow> bool" where
  "task_strs t \<longleftrightarrow> intent_strs (ct_intent t) \<and> list_all node_cap_ok (tg_actions (ct_graph t))
    \<and> (\<forall>s. ct_last_observation t = Some s \<longrightarrow> str_ok s)"

definition task_codable :: "cognitive_task \<Rightarrow> bool" where
  "task_codable t \<longleftrightarrow> task_strs t \<and> ct_goal_id t \<noteq> Some 0"

definition fact_strs :: "world_fact \<Rightarrow> bool" where
  "fact_strs f \<longleftrightarrow> str_ok (wf_key f) \<and> str_ok (wf_value f)"

definition record_strs :: "memory_record \<Rightarrow> bool" where
  "record_strs r \<longleftrightarrow> str_ok (mr_content r) \<and> list_all str_ok (mr_tags r)"

definition record_codable :: "memory_record \<Rightarrow> bool" where
  "record_codable r \<longleftrightarrow> record_strs r \<and> strictly_increasing (mr_tags r)"

definition delta_strs :: "learned_delta \<Rightarrow> bool" where
  "delta_strs d \<longleftrightarrow> str_ok (ld_namespace d)"

lemmas sik_strs = goal_strs_def node_cap_ok_def intent_strs_def task_strs_def task_codable_def
  fact_strs_def record_strs_def record_codable_def delta_strs_def list_all_iff

lemmas reads_words = reads_dbind [OF reads_u64] reads_dbind [OF reads_u32] reads_dbind [OF reads_u16]
  reads_u8_Cons

lemmas accepts_words = accepts_dbind [OF accepts_u64] accepts_dbind [OF accepts_u32]
  accepts_dbind [OF accepts_u16] accepts_dbind [OF accepts_u8]

lemma reads_goal: "goal_strs g \<Longrightarrow> encode_goal g = Inr bs \<Longrightarrow> reads decode_goal bs g"
  unfolding decode_goal_def encode_goal_def
  by (cases g) (auto simp: sik_strs intro!: reads_words reads_dbind [OF reads_string]
      reads_dbind_last [OF reads_strings] reads_dret)

lemma accepts_goal: "accepts decode_goal (\<lambda>g bs. goal_strs g \<and> encode_goal g = Inr bs)"
  unfolding decode_goal_def
  apply (rule accepts_words)+
  apply (rule accepts_dbind_dlift)
  apply (rule accepts_words)+
  apply (rule accepts_dbind [OF accepts_string [where ovf = Sik_Overflow]])
  apply (rule accepts_dbind [OF accepts_strings [where ovf = Sik_Overflow]])
  apply (rule accepts_dret)
  apply (auto simp: encode_goal_def sik_strs sik_tags)
  done

interpretation goal_codec: canonical_codec goal_strs encode_goal decode_goal
  by unfold_locales (auto intro: reads_goal accepts_goal)

lemmas accepts_sik_string = accepts_dbind [OF accepts_string [where ovf = Sik_Overflow]]
lemmas accepts_sik_strings = accepts_dbind [OF accepts_strings [where ovf = Sik_Overflow]]

lemma reads_action: "node_cap_ok a \<Longrightarrow> encode_action a = Inr bs \<Longrightarrow> reads decode_action bs a"
  unfolding decode_action_def encode_action_def
  by (cases a) (auto simp: sik_strs intro!: reads_words reads_dbind [OF reads_string]
      reads_dbind_last [OF reads_bool] reads_dret)

lemma accepts_action: "accepts decode_action (\<lambda>a bs. node_cap_ok a \<and> encode_action a = Inr bs)"
  unfolding decode_action_def
  apply (rule accepts_words)
  apply (rule accepts_sik_string)
  apply (rule accepts_words)
  apply (rule accepts_dbind_dlift)
  apply (rule accepts_dbind [OF accepts_bool])
  apply (rule accepts_dret)
  apply (auto simp: encode_action_def sik_strs sik_tags)
  done

interpretation action_codec: canonical_codec node_cap_ok encode_action decode_action
  by unfold_locales (auto intro: reads_action accepts_action)

lemma task_eta:
  "\<lparr>ct_id = ct_id t, ct_goal_id = ct_goal_id t,
     ct_intent = \<lparr>in_objective = in_objective (ct_intent t),
       in_completion_criteria = in_completion_criteria (ct_intent t), in_max_steps = in_max_steps (ct_intent t)\<rparr>,
     ct_graph = \<lparr>tg_actions = tg_actions (ct_graph t)\<rparr>, ct_status = ct_status t,
     ct_steps_taken = ct_steps_taken t, ct_verification_failures = ct_verification_failures t,
     ct_last_observation = ct_last_observation t, ct_created_tick = ct_created_tick t,
     ct_updated_tick = ct_updated_tick t\<rparr> = t"
  by (cases t; cases "ct_intent t"; cases "ct_graph t") simp

lemma reads_task:
  assumes "task_codable t" and "encode_task t = Inr bs"
  shows "reads decode_task bs t"
proof -
  have strs: "str_ok (in_objective (ct_intent t))" "\<And>s. s \<in> set (in_completion_criteria (ct_intent t)) \<Longrightarrow> str_ok s"
      "\<And>a. a \<in> set (tg_actions (ct_graph t)) \<Longrightarrow> node_cap_ok a" "\<And>s. ct_last_observation t = Some s \<Longrightarrow> str_ok s"
    and goal: "ct_goal_id t \<noteq> Some 0"
    using assms(1) by (auto simp: sik_strs)
  from assms(2) obtain b1 b2 b3 b4 where
      b1: "push_string Sik_Overflow (in_objective (ct_intent t)) = Inr b1"
    and b2: "push_strings Sik_Overflow (in_completion_criteria (ct_intent t)) = Inr b2"
    and b3: "eseq (push_len Sik_Overflow (length (tg_actions (ct_graph t))))
        (push_each encode_action (tg_actions (ct_graph t))) = Inr b3"
    and b4: "push_option (push_string Sik_Overflow) (ct_last_observation t) = Inr b4"
    and bs: "bs = u64_le (ct_id t) @ u64_le (case ct_goal_id t of Some g \<Rightarrow> g | None \<Rightarrow> 0)
        @ task_status_tag (ct_status t) # u32_le (ct_steps_taken t) @ u32_le (ct_verification_failures t)
        @ u64_le (ct_created_tick t) @ u64_le (ct_updated_tick t) @ b1 @ b2
        @ u32_le (in_max_steps (ct_intent t)) @ b3 @ b4"
    by (auto simp: encode_task_def)
  have raw: "(if (case ct_goal_id t of Some g \<Rightarrow> g | None \<Rightarrow> 0) \<noteq> 0
      then Some (case ct_goal_id t of Some g \<Rightarrow> g | None \<Rightarrow> 0) else None) = ct_goal_id t"
    using goal by (cases "ct_goal_id t") auto
  note parts = reads_dbind [OF reads_string [OF b1 strs(1)]] reads_dbind [OF reads_strings [OF b2 strs(2)]]
    reads_dbind [OF action_codec.counted [OF strs(3) b3]] reads_dbind_last [OF string_codec.optional [OF strs(4) b4]]
  show ?thesis
    unfolding decode_task_def bs raw
    apply (intro reads_words)
    apply (simp only: sik_tags_back map_err_simps dbind_dlift)
    apply (intro reads_words parts, assumption+)
    unfolding raw task_eta
    apply (rule reads_dret)
    done
qed

lemma accepts_task: "accepts decode_task (\<lambda>t bs. task_codable t \<and> encode_task t = Inr bs)"
  unfolding decode_task_def
  apply (rule accepts_words)+
  apply (rule accepts_dbind_dlift)
  apply (rule accepts_words)+
  apply (rule accepts_sik_string)
  apply (rule accepts_sik_strings)
  apply (rule accepts_words)
  apply (rule accepts_dbind [OF action_codec.counted_accepts [where ovf = Sik_Overflow]])
  apply (rule accepts_dbind [OF string_canonical.optional_accepts [where ovf = Sik_Overflow]])
  apply (rule accepts_dret)
  apply (auto simp: encode_task_def sik_strs sik_tags)
  done

interpretation task_codec: canonical_codec task_codable encode_task decode_task
  by unfold_locales (auto intro: reads_task accepts_task)

lemma reads_world_fact: "fact_strs f \<Longrightarrow> encode_world_fact f = Inr bs \<Longrightarrow> reads decode_world_fact bs f"
  unfolding decode_world_fact_def encode_world_fact_def
  by (cases f) (auto simp: sik_strs intro!: reads_dbind [OF reads_string] reads_words
      reads_dbind_last [OF reads_u64] reads_dret)

lemma accepts_world_fact: "accepts decode_world_fact (\<lambda>f bs. fact_strs f \<and> encode_world_fact f = Inr bs)"
  unfolding decode_world_fact_def
  apply (rule accepts_sik_string)+
  apply (rule accepts_words)+
  apply (rule accepts_dret)
  apply (auto simp: encode_world_fact_def sik_strs)
  done

interpretation world_fact_codec: canonical_codec fact_strs encode_world_fact decode_world_fact
  by unfold_locales (auto intro: reads_world_fact accepts_world_fact)

lemma reads_memory_record:
  "record_codable r \<Longrightarrow> encode_memory_record r = Inr bs \<Longrightarrow> reads decode_memory_record bs r"
  unfolding decode_memory_record_def encode_memory_record_def
  by (cases r) (auto simp: sik_strs intro!: reads_words reads_dbind [OF reads_string]
      reads_dbind_last [OF reads_strings] reads_dret)

lemma accepts_memory_record:
  "accepts decode_memory_record (\<lambda>r bs. record_codable r \<and> encode_memory_record r = Inr bs)"
  unfolding decode_memory_record_def
  apply (rule accepts_words)+
  apply (rule accepts_dbind_dlift)
  apply (rule accepts_words)+
  apply (rule accepts_sik_string)
  apply (rule accepts_sik_strings)
  apply (auto intro!: accepts_dfail accepts_dret simp: encode_memory_record_def sik_strs sik_tags)
  done

interpretation memory_record_codec: canonical_codec record_codable encode_memory_record decode_memory_record
  by unfold_locales (auto intro: reads_memory_record accepts_memory_record)

lemma reads_delta: "delta_strs d \<Longrightarrow> encode_delta d = Inr bs \<Longrightarrow> reads decode_delta bs d"
  unfolding decode_delta_def encode_delta_def
  by (cases d) (auto simp: sik_strs intro!: reads_words reads_dbind [OF reads_bool]
      reads_dbind [OF reads_string] reads_dbind_last [OF reads_blob] reads_dret)

lemma accepts_delta: "accepts decode_delta (\<lambda>d bs. delta_strs d \<and> encode_delta d = Inr bs)"
  unfolding decode_delta_def
  apply (rule accepts_words)+
  apply (rule accepts_dbind [OF accepts_bool])
  apply (rule accepts_sik_string)
  apply (rule accepts_dbind [OF accepts_blob [where ovf = Sik_Overflow]])
  apply (rule accepts_dret)
  apply (auto simp: encode_delta_def sik_strs)
  done

interpretation delta_codec: canonical_codec delta_strs encode_delta decode_delta
  by unfold_locales (auto intro: reads_delta accepts_delta)

section \<open>Tables round-trip\<close>

interpretation goal_table: canonical_table goal_strs encode_goal decode_goal sik_ids "\<lambda>p k. p < k" gl_id
  by unfold_locales

interpretation task_table: canonical_table task_codable encode_task decode_task sik_ids "\<lambda>p k. p < k" ct_id
  by unfold_locales

interpretation world_table: canonical_table fact_strs encode_world_fact decode_world_fact
    "ensure_after Sik_NonCanonicalEncoding" after_key wf_key
  by unfold_locales

interpretation memory_table: canonical_table record_codable encode_memory_record decode_memory_record
    sik_ids "\<lambda>p k. p < k" mr_id
  by unfold_locales

interpretation delta_table: canonical_table delta_strs encode_delta decode_delta sik_ids "\<lambda>p k. p < k" ld_id
  by unfold_locales

section \<open>States round-trip\<close>

text \<open>The identity is a \<open>[u8; 16]\<close>, and every string of the state is a Rust string.\<close>

definition state_strs :: "cognitive_state \<Rightarrow> bool" where
  "state_strs s \<longleftrightarrow> length (cs_identity s) = 16
    \<and> list_all (goal_strs \<circ> snd) (cs_goals s) \<and> list_all (task_strs \<circ> snd) (cs_tasks s)
    \<and> list_all (fact_strs \<circ> snd) (cs_world s) \<and> list_all (record_strs \<circ> snd) (sm_records (cs_memory s))
    \<and> list_all (delta_strs \<circ> snd) (cs_deltas s)"

lemma no_goal_zero:
  assumes "cog_wf s" and "(k, t) \<in> set (cs_tasks s)"
  shows "ct_goal_id t \<noteq> Some 0"
proof
  assume "ct_goal_id t = Some 0"
  with table_okD(6) [OF cog_wfD(2) [OF assms(1)] assms(2)] have "bt_get (cs_goals s) 0 \<noteq> None"
    by (simp add: task_valid_def)
  then obtain g where "bt_get (cs_goals s) 0 = Some g" by blast
  from table_ok_get(2) [OF cog_wfD(1) [OF assms(1)] this] show False by simp
qed

lemma state_tables:
  assumes wf: "cog_wf s" and strs: "state_strs s"
  shows "goal_table.entries_ok 0 (cs_goals s)" "task_table.entries_ok 0 (cs_tasks s)"
    "world_table.entries_ok None (cs_world s)" "memory_table.entries_ok 0 (sm_records (cs_memory s))"
    "delta_table.entries_ok 0 (cs_deltas s)"
proof -
  note ok = cog_wfD [OF wf]
  show "goal_table.entries_ok 0 (cs_goals s)"
    using ok(1) strs by (auto simp: goal_table.entries_ok_def table_ok_def state_strs_def list_all_iff word_neq_0_conv)
  show "task_table.entries_ok 0 (cs_tasks s)"
    using ok(2) strs no_goal_zero [OF wf]
    by (auto simp: task_table.entries_ok_def table_ok_def state_strs_def list_all_iff task_codable_def word_neq_0_conv)
  show "world_table.entries_ok None (cs_world s)"
    using ok(4) strs by (auto simp: world_table.entries_ok_def state_strs_def list_all_iff fact_valid_def)
  show "memory_table.entries_ok 0 (sm_records (cs_memory s))"
    using ok(5) strs by (auto simp: memory_table.entries_ok_def memory_wf_def table_ok_def state_strs_def
        list_all_iff record_codable_def record_valid_def strictly_increasing_iff word_neq_0_conv)
  show "delta_table.entries_ok 0 (cs_deltas s)"
    using ok(6) strs by (auto simp: delta_table.entries_ok_def table_ok_def state_strs_def list_all_iff word_neq_0_conv)
qed

lemma state_eta:
  "\<lparr>cs_identity = cs_identity s, cs_tick = cs_tick s, cs_next_goal_id = cs_next_goal_id s,
     cs_next_task_id = cs_next_task_id s, cs_next_delta_id = cs_next_delta_id s, cs_goals = cs_goals s,
     cs_tasks = cs_tasks s, cs_world = cs_world s,
     cs_memory = \<lparr>sm_next_id = sm_next_id (cs_memory s), sm_records = sm_records (cs_memory s)\<rparr>,
     cs_deltas = cs_deltas s\<rparr> = s"
  by (cases s; cases "cs_memory s") simp

lemma reads_sik_body:
  assumes wf: "cog_wf s" and strs: "state_strs s" and enc: "sik_payload s = Inr bs"
  shows "reads sik_body bs s"
proof -
  from enc obtain b1 b2 b3 b4 b5 where
      lens: "int (length (cs_goals s)) < 2 ^ 32" "int (length (cs_tasks s)) < 2 ^ 32" "int (length (cs_world s)) < 2 ^ 32"
        "int (length (sm_records (cs_memory s))) < 2 ^ 32" "int (length (cs_deltas s)) < 2 ^ 32"
    and b: "push_each encode_goal (bt_values (cs_goals s)) = Inr b1"
      "push_each encode_task (bt_values (cs_tasks s)) = Inr b2"
      "push_each encode_world_fact (bt_values (cs_world s)) = Inr b3"
      "push_each encode_memory_record (bt_values (sm_records (cs_memory s))) = Inr b4"
      "push_each encode_delta (bt_values (cs_deltas s)) = Inr b5"
    and bs: "bs = cs_identity s @ u64_le (cs_tick s) @ u64_le (cs_next_goal_id s) @ u64_le (cs_next_task_id s)
      @ u64_le (cs_next_delta_id s) @ u64_le (sm_next_id (cs_memory s)) @ u32_le (of_nat (length (cs_goals s)))
      @ u32_le (of_nat (length (cs_tasks s))) @ u32_le (of_nat (length (cs_world s)))
      @ u32_le (of_nat (length (sm_records (cs_memory s)))) @ u32_le (of_nat (length (cs_deltas s)))
      @ b1 @ b2 @ b3 @ b4 @ b5"
    by (auto simp: sik_payload_def)
  note wfs = cog_wfD(7-9) [OF wf] cog_wfD(3) [OF wf]
  have mem: "bt_wf (sm_records (cs_memory s))"
    using cog_wfD(5) [OF wf] by (auto simp: memory_wf_def dest: table_okD(1))
  note tabs = state_tables [OF wf strs]
  note parts =
    goal_table.table_round_trip [OF wfs(1) tabs(1) b(1)] task_table.table_round_trip [OF wfs(2) tabs(2) b(2)]
    world_table.table_round_trip [OF wfs(4) tabs(3) b(3)] memory_table.table_round_trip [OF mem tabs(4) b(4)]
    delta_table.table_round_trip [OF wfs(3) tabs(5) b(5)]
  have ident: "length (cs_identity s) = 16" using strs by (simp add: state_strs_def)
  show ?thesis
    unfolding sik_body_def bs
    apply (rule reads_dbind [OF reads_take_bytes [OF ident]])
    apply (intro reads_words)
    apply (simp only: lens [THEN unat_len])
    apply (intro reads_dbind [OF parts(1)] reads_dbind [OF parts(2)] reads_dbind [OF parts(3)]
        reads_dbind [OF parts(4)] reads_dbind_last [OF parts(5)])
    unfolding state_eta
    apply (rule reads_dret)
    done
qed

text \<open>What the decoder of the payload guarantees before the state is validated.\<close>

definition sik_parts_ok :: "cognitive_state \<Rightarrow> bool" where
  "sik_parts_ok s \<longleftrightarrow> length (cs_identity s) = 16
    \<and> bt_wf (cs_goals s) \<and> goal_table.entries_ok 0 (cs_goals s)
    \<and> bt_wf (cs_tasks s) \<and> task_table.entries_ok 0 (cs_tasks s)
    \<and> bt_wf (cs_world s) \<and> world_table.entries_ok None (cs_world s)
    \<and> bt_wf (sm_records (cs_memory s)) \<and> memory_table.entries_ok 0 (sm_records (cs_memory s))
    \<and> bt_wf (cs_deltas s) \<and> delta_table.entries_ok 0 (cs_deltas s)"

lemma accepts_sik_body: "accepts sik_body (\<lambda>s bs. sik_parts_ok s \<and> sik_payload s = Inr bs)"
  unfolding sik_body_def
  apply (rule accepts_dbind [OF accepts_take_bytes])
  apply (rule accepts_words)+
  apply (rule accepts_dbind [OF goal_table.table_accepts])
  apply (rule accepts_dbind [OF task_table.table_accepts])
  apply (rule accepts_dbind [OF world_table.table_accepts])
  apply (rule accepts_dbind [OF memory_table.table_accepts])
  apply (rule accepts_dbind [OF delta_table.table_accepts])
  apply (rule accepts_dret)
  apply (auto simp: sik_payload_def sik_parts_ok_def)
  done

lemma entries_no_zero:
  fixes m :: "(u64, 'r) btmap"
  assumes "\<forall>e \<in> set m. 0 < fst e"
  shows "bt_get m 0 = None"
  using assms by (force simp: map_of_eq_None_iff)

lemma sik_parts_no_zero:
  assumes "sik_parts_ok s"
  shows "bt_get (cs_goals s) 0 = None" "bt_get (cs_tasks s) 0 = None" "bt_get (cs_deltas s) 0 = None"
  using assms by (auto intro!: entries_no_zero simp: sik_parts_ok_def goal_table.entries_ok_def
      task_table.entries_ok_def delta_table.entries_ok_def)

lemma sik_parts_strs: "sik_parts_ok s \<Longrightarrow> state_strs s"
  by (auto simp: sik_parts_ok_def state_strs_def goal_table.entries_ok_def task_table.entries_ok_def
      world_table.entries_ok_def memory_table.entries_ok_def delta_table.entries_ok_def list_all_iff
      task_codable_def record_codable_def)

text \<open>The two validations at the end of the decoder accept exactly the states of the kernel.\<close>

lemma sik_validated:
  assumes "sik_parts_ok parts"
  shows "rbind (map_err Sik_Memory (memory_from_parts (sm_next_id (cs_memory parts)) (sm_records (cs_memory parts)))) (\<lambda>memory.
      let state = parts\<lparr>cs_memory := memory\<rparr> in
      rbind (map_err Sik_Cognitive (runtime_from_state state)) (\<lambda>_. Inr state)) = Inr s \<longleftrightarrow> s = parts \<and> cog_wf parts"
proof -
  have mem: "memory_from_parts (sm_next_id (cs_memory parts)) (sm_records (cs_memory parts)) = Inr m
      \<longleftrightarrow> m = cs_memory parts \<and> memory_wf (cs_memory parts)" for m
    using memory_from_parts_wf [of "sm_records (cs_memory parts)"] assms
    by (cases "cs_memory parts") (auto simp: sik_parts_ok_def)
  have st: "parts\<lparr>cs_memory := cs_memory parts\<rparr> = parts" by simp
  have run: "runtime_from_state parts = Inr s' \<longleftrightarrow> s' = parts \<and> cog_wf parts" if "memory_wf (cs_memory parts)" for s'
    using assms sik_parts_no_zero [OF assms] that by (intro runtime_from_state_wf) (auto simp: sik_parts_ok_def)
  show ?thesis
    using mem run by (auto simp: Let_def dest: cog_wfD(5))
qed

lemma sik_payload_overflow: "only Sik_Overflow (sik_payload s)"
  by (auto simp: sik_payload_def encode_goal_def encode_task_def encode_action_def encode_world_fact_def
      encode_memory_record_def encode_delta_def)

lemma table_no_zero: "table_ok rid P nxt m \<Longrightarrow> bt_get m 0 = None"
  using table_ok_get(2) [of rid P nxt m 0] by (cases "bt_get m 0") auto

lemma cog_wf_accepted: "cog_wf s \<Longrightarrow> runtime_from_state s = Inr s"
  using cog_wfD [of s] by (simp add: runtime_from_state_wf table_no_zero)

lemma cog_wf_parts: "cog_wf s \<Longrightarrow> state_strs s \<Longrightarrow> sik_parts_ok s"
  using state_tables [of s] cog_wfD [of s]
  by (auto simp: sik_parts_ok_def memory_wf_def state_strs_def dest: table_okD(1))

lemma decode_encoded_state:
  assumes "cog_wf s" and "state_strs s" and "encode_cognitive_checkpoint s = Inr bs"
  shows "decode_cognitive_checkpoint bs = Inr s"
proof -
  from assms(3) obtain payload where enc: "sik_payload s = Inr payload"
    and fr: "frame_encode sik_ferr sik97_magic sik97_major sik97_minor payload = Inr bs"
    by (auto simp: encode_cognitive_checkpoint_def)
  have "frame_decode sik_ferr sik97_magic sik97_major sik97_minor bs = Inr payload"
    using fr by (rule frame_decode_encode) (simp_all add: sik97_magic_def)
  moreover have "int (length payload) < usize_bound"
    using fr by (auto simp: frame_encode_def frame_header_len_def split: if_splits)
  then have "decode_all Sik_NonCanonicalEncoding sik_body payload = Inr s"
    by (rule decode_all_reads [OF reads_sik_body [OF assms(1,2) enc]])
  ultimately show ?thesis
    using sik_validated [OF cog_wf_parts [OF assms(1,2)], of s] assms(1)
    by (simp add: decode_cognitive_checkpoint_def)
qed

lemma encode_state_overflow:
  assumes "cog_wf s" and "encode_cognitive_checkpoint s = Inl e"
  shows "e = Sik_Overflow"
  using assms sik_payload_overflow [of s]
  by (auto simp: encode_cognitive_checkpoint_def cog_wf_accepted rbind_eq_Inl frame_encode_def frame_header_eq
      only_def sik_ferr_def sik_cerr_def eseq_def push_raw_def split: if_splits)

text \<open>A state with one entry in every table, and its checkpoint.\<close>

definition sik_state :: cognitive_state where
  "sik_state = \<lparr>cs_identity = [1, 2, 3, 4, 5, 6, 7, 8, 9, 10, 11, 12, 13, 14, 15, 16], cs_tick = 9,
     cs_next_goal_id = 2, cs_next_task_id = 3, cs_next_delta_id = 2,
     cs_goals = [(1, \<lparr>gl_id = 1, gl_objective = ''ship'', gl_completion_criteria = [''ok''],
       gl_status = GActive, gl_created_tick = 1, gl_updated_tick = 2\<rparr>)],
     cs_tasks = [(2, \<lparr>ct_id = 2, ct_goal_id = Some 1,
       ct_intent = \<lparr>in_objective = ''go'', in_completion_criteria = [], in_max_steps = 4\<rparr>,
       ct_graph = \<lparr>tg_actions = [\<lparr>an_id = 1, an_capability = ''fs'', an_side_effect = Reversible,
         an_verification_required = True\<rparr>]\<rparr>,
       ct_status = TPaused, ct_steps_taken = 3, ct_verification_failures = 1,
       ct_last_observation = Some ''hm'', ct_created_tick = 3, ct_updated_tick = 8\<rparr>)],
     cs_world = [(''os'', \<lparr>wf_key = ''os'', wf_value = ''a'', wf_revision = 1, wf_updated_tick = 4\<rparr>)],
     cs_memory = \<lparr>sm_next_id = 6, sm_records = [(5, \<lparr>mr_id = 5, mr_kind = Semantic, mr_content = ''c'',
       mr_tags = [''s'', ''t''], mr_importance = 700, mr_created_tick = 2, mr_last_recalled_tick = 6,
       mr_recall_count = 1\<rparr>)]\<rparr>,
     cs_deltas = [(1, \<lparr>ld_id = 1, ld_namespace = ''n'', ld_generation = 2, ld_payload = [255],
       ld_active = True\<rparr>)]\<rparr>"

definition sik_bytes :: "u8 list" where
  "sik_bytes = [83, 73, 75, 57, 55, 0, 24, 0, 0, 0, 1, 0, 0, 0, 0, 0, 45, 1, 0, 0, 0, 0, 0, 0, 1, 2, 3, 4, 5, 6, 7, 8,
     9, 10, 11, 12, 13, 14, 15, 16, 9, 0, 0, 0, 0, 0, 0, 0, 2, 0, 0, 0, 0, 0, 0, 0, 3, 0, 0, 0, 0, 0, 0, 0,
     2, 0, 0, 0, 0, 0, 0, 0, 6, 0, 0, 0, 0, 0, 0, 0, 1, 0, 0, 0, 1, 0, 0, 0, 1, 0, 0, 0, 1, 0, 0, 0, 1, 0,
     0, 0, 1, 0, 0, 0, 0, 0, 0, 0, 1, 1, 0, 0, 0, 0, 0, 0, 0, 2, 0, 0, 0, 0, 0, 0, 0, 4, 0, 0, 0, 115, 104,
     105, 112, 1, 0, 0, 0, 2, 0, 0, 0, 111, 107, 2, 0, 0, 0, 0, 0, 0, 0, 1, 0, 0, 0, 0, 0, 0, 0, 5, 3, 0,
     0, 0, 1, 0, 0, 0, 3, 0, 0, 0, 0, 0, 0, 0, 8, 0, 0, 0, 0, 0, 0, 0, 2, 0, 0, 0, 103, 111, 0, 0, 0, 0, 4,
     0, 0, 0, 1, 0, 0, 0, 1, 0, 0, 0, 2, 0, 0, 0, 102, 115, 2, 1, 1, 2, 0, 0, 0, 104, 109, 2, 0, 0, 0, 111,
     115, 1, 0, 0, 0, 97, 1, 0, 0, 0, 0, 0, 0, 0, 4, 0, 0, 0, 0, 0, 0, 0, 5, 0, 0, 0, 0, 0, 0, 0, 2, 188,
     2, 2, 0, 0, 0, 0, 0, 0, 0, 6, 0, 0, 0, 0, 0, 0, 0, 1, 0, 0, 0, 1, 0, 0, 0, 99, 2, 0, 0, 0, 1, 0, 0, 0,
     115, 1, 0, 0, 0, 116, 1, 0, 0, 0, 0, 0, 0, 0, 2, 0, 0, 0, 0, 0, 0, 0, 1, 1, 0, 0, 0, 110, 1, 0, 0, 0,
     255]"

lemma sik_state_ok: "cog_wf sik_state" "state_strs sik_state"
proof -
  have b: "\<not> blank ''ship''" "\<not> blank ''go''" "\<not> blank ''os''" "\<not> blank ''c''" "\<not> blank ''n''" by code_simp+
  have t: "''s'' < ''t''" by code_simp
  show "cog_wf sik_state"
    by (simp add: cog_wf_def table_ok_def sik_state_def bt_wf_def goal_valid_def task_valid_def fact_valid_def
        delta_valid_def memory_wf_def record_valid_def b t)
  show "state_strs sik_state" by (simp add: state_strs_def sik_state_def sik_strs) code_simp
qed

text \<open>
  C3: a checkpoint of the kernel restores it: for every state that satisfies the kernel invariant
  (as every state the operations produce does), whose strings are Rust strings and whose identity
  has 16 bytes, \<open>encode_cognitive_checkpoint\<close> fails only with \<open>Overflow\<close>, and decoding what it
  writes gives back exactly that state.
\<close>

theorem checkpoint_restores_state:
  assumes "cog_wf s" and "state_strs s"
  shows "case encode_cognitive_checkpoint s of
      Inl e \<Rightarrow> e = Sik_Overflow
    | Inr bs \<Rightarrow> decode_cognitive_checkpoint bs = Inr s"
  using encode_state_overflow [OF assms(1)] decode_encoded_state [OF assms] by (simp split: sum.splits)

theorem checkpoint_restores_state_witness:
  "encode_cognitive_checkpoint sik_state = Inr sik_bytes \<and> decode_cognitive_checkpoint sik_bytes = Inr sik_state"
proof -
  have "encode_cognitive_checkpoint sik_state = Inr sik_bytes" by code_simp
  then show ?thesis using checkpoint_restores_state [OF sik_state_ok] by simp
qed

text \<open>What the decoder accepts.\<close>

lemma decoded_state:
  assumes "decode_cognitive_checkpoint bs = Inr s" and "int (length bs) < usize_bound"
  shows "cog_wf s \<and> state_strs s \<and> encode_cognitive_checkpoint s = Inr (bs[10 := 1])"
proof -
  from assms(1) obtain payload parts where
      fr: "frame_decode sik_ferr sik97_magic sik97_major sik97_minor bs = Inr payload"
    and dec: "decode_all Sik_NonCanonicalEncoding sik_body payload = Inr parts"
    and val: "rbind (map_err Sik_Memory (memory_from_parts (sm_next_id (cs_memory parts)) (sm_records (cs_memory parts)))) (\<lambda>memory.
      let state = parts\<lparr>cs_memory := memory\<rparr> in
      rbind (map_err Sik_Cognitive (runtime_from_state state)) (\<lambda>_. Inr state)) = Inr s"
    unfolding decode_cognitive_checkpoint_def by (auto simp only: rbind_eq_Inr)
  obtain mn where mn: "mn \<le> sik97_minor"
      and enc: "frame_encode sik_ferr sik97_magic sik97_major mn payload = Inr bs"
    using frame_encode_decode [OF fr assms(2), where fe' = sik_ferr] by blast
  have len: "int (length payload) < usize_bound"
    using enc by (auto simp: frame_encode_def frame_header_len_def split: if_splits)
  from decode_all_accepts [OF accepts_sik_body dec len]
  have ok: "sik_parts_ok parts" and pl: "sik_payload parts = Inr payload" by auto
  from sik_validated [OF ok, of s] val have s: "s = parts" and wf: "cog_wf parts" by auto
  have "frame_encode sik_ferr sik97_magic sik97_major sik97_minor payload = Inr (bs[10 := ucast sik97_minor])"
    using enc by (rule frame_minor) (use le_less_trans [OF mn] in \<open>simp_all add: sik97_magic_def sik97_minor_def\<close>)
  moreover have "ucast sik97_minor = (1 :: u8)" by (simp add: sik97_minor_def)
  ultimately show ?thesis
    using wf pl sik_parts_strs [OF ok] by (simp add: s encode_cognitive_checkpoint_def cog_wf_accepted)
qed

interpretation sik: checkpoint "\<lambda>s. cog_wf s \<and> state_strs s" encode_cognitive_checkpoint decode_cognitive_checkpoint
  by unfold_locales (auto intro: decode_encoded_state dest: decoded_state)

text \<open>
  C38: the decoder accepts nothing but checkpoints: whatever byte sequence
  \<open>decode_cognitive_checkpoint\<close> accepts, the state it returns satisfies the kernel invariant, and
  encoding that state again gives the same bytes, up to the minor version, which is written as 1.
\<close>

theorem decode_checkpoint_canonical:
  assumes "decode_cognitive_checkpoint bs = Inr s" and "int (length bs) < usize_bound"
  shows "cog_wf s \<and> state_strs s \<and> encode_cognitive_checkpoint s = Inr (bs[10 := 1])"
  by (rule decoded_state [OF assms])

theorem decode_checkpoint_canonical_witness:
  "cog_wf sik_state \<and> encode_cognitive_checkpoint sik_state = Inr ((sik_bytes[10 := 0])[10 := 1])"
proof -
  have "decode_cognitive_checkpoint (sik_bytes[10 := 0]) = Inr sik_state" by code_simp
  moreover have "int (length (sik_bytes[10 := 0])) < usize_bound" by code_simp
  ultimately show ?thesis using decode_checkpoint_canonical by blast
qed

end
