(* ===== verification/TAF97_Checkpoint.thy ===== *)
theory TAF97_Checkpoint
  imports SIK97_Checkpoint Action_Fabric
begin

text \<open>
  The TAF97 checkpoint of the action fabric, \<open>crates/ntd-runtime/src/action_checkpoint.rs\<close>:
  \<open>encode_action_fabric_checkpoint\<close>, \<open>decode_action_fabric_checkpoint\<close> and the encoders and decoders
  of plans, planned actions, typed actions and outputs. Its cursor and its \<open>push\<close> functions are those
  of \<open>checkpoint.rs\<close> over another error type, and its \<open>encode_side_effect\<close> is the same function; both
  are shared with the theory of SIK97. The registry takes part in both directions, because the
  state is validated against it.
\<close>

section \<open>Errors and constants\<close>

datatype action_checkpoint_error =
    Taf_Truncated
  | Taf_InvalidMagic
  | Taf_InvalidHeader
  | Taf_UnsupportedVersion u16 u16
  | Taf_InvalidUtf8
  | Taf_InvalidBoolean u8
  | Taf_InvalidActionTag u8
  | Taf_InvalidValueTag u8
  | Taf_InvalidSideEffect u8
  | Taf_NonCanonicalEncoding
  | Taf_Overflow
  | Taf_Fabric action_fabric_error

definition taf97_magic :: "u8 list" where
  "taf97_magic = [84, 65, 70, 57, 55, 0]"

definition taf97_major :: u16 where
  "taf97_major = 0"

definition taf97_minor :: u16 where
  "taf97_minor = 4"

definition taf_cerr :: "action_checkpoint_error cerr" where
  "taf_cerr = \<lparr>trunc = Taf_Truncated, ovfl = Taf_Overflow\<rparr>"

definition taf_ferr :: "action_checkpoint_error frame_err" where
  "taf_ferr = \<lparr>fe_cursor = taf_cerr, fe_magic = Taf_InvalidMagic, fe_header = Taf_InvalidHeader,
     fe_version = Taf_UnsupportedVersion, fe_canonical = Taf_NonCanonicalEncoding\<rparr>"

text \<open>The discriminants that \<open>as u8\<close> yields.\<close>

fun action_status_tag :: "action_status \<Rightarrow> u8" where
  "action_status_tag APrepared = 1"
| "action_status_tag ARunning = 2"
| "action_status_tag ASuspended = 3"
| "action_status_tag ARetryable = 4"
| "action_status_tag ACommitted = 5"
| "action_status_tag ARolledBack = 6"
| "action_status_tag AFailed = 7"

fun plan_status_tag :: "action_plan_status \<Rightarrow> u8" where
  "plan_status_tag PReady = 1"
| "plan_status_tag PSuspended = 2"
| "plan_status_tag PCompleted = 3"
| "plan_status_tag PFailed = 4"
| "plan_status_tag PRolledBack = 5"

definition decode_action_side_effect :: "u8 \<Rightarrow> action_checkpoint_error + side_effect_class" where
  "decode_action_side_effect v =
    (if v = 1 then Inr ReadOnly else if v = 2 then Inr Reversible else if v = 3 then Inr ExternalWrite
     else if v = 4 then Inr Irreversible else Inl (Taf_InvalidSideEffect v))"

section \<open>Encoding\<close>

abbreviation taf_str :: "string \<Rightarrow> action_checkpoint_error enc" where
  "taf_str \<equiv> push_string Taf_Overflow"

abbreviation taf_bytes :: "u8 list \<Rightarrow> action_checkpoint_error enc" where
  "taf_bytes \<equiv> push_bytes Taf_Overflow"

fun encode_typed_action :: "typed_action \<Rightarrow> action_checkpoint_error enc" where
  "encode_typed_action (WebSearch query max_results) =
    eseq (push_u8 1) (eseq (taf_str query) (push_u16 max_results))"
| "encode_typed_action (WebFetch url) = eseq (push_u8 2) (taf_str url)"
| "encode_typed_action (BrowserObserve target) = eseq (push_u8 3) (taf_str target)"
| "encode_typed_action (BrowserInteract target operation val) =
    eseq (push_u8 4) (eseq (taf_str target) (eseq (taf_str operation) (push_option taf_str val)))"
| "encode_typed_action (FileRead path) = eseq (push_u8 5) (taf_str path)"
| "encode_typed_action (FileWrite path bytes) = eseq (push_u8 6) (eseq (taf_str path) (taf_bytes bytes))"
| "encode_typed_action (DeviceObserve surface) = eseq (push_u8 7) (taf_str surface)"
| "encode_typed_action (DeviceInteract surface operation argument) =
    eseq (push_u8 8) (eseq (taf_str surface) (eseq (taf_str operation) (push_option taf_str argument)))"
| "encode_typed_action (AppAction app action payload) =
    eseq (push_u8 9) (eseq (taf_str app) (eseq (taf_str action) (taf_bytes payload)))"
| "encode_typed_action (CustomAction type_name payload) =
    eseq (push_u8 10) (eseq (taf_str type_name) (taf_bytes payload))"
| "encode_typed_action (PcObserve peer surface) = eseq (push_u8 11) (eseq (taf_str peer) (taf_str surface))"
| "encode_typed_action (PcExecute peer program args working_dir) =
    eseq (push_u8 12) (eseq (taf_str peer) (eseq (taf_str program)
    (eseq (push_strings Taf_Overflow args) (push_option taf_str working_dir))))"
| "encode_typed_action (PcArtifactRead peer path) = eseq (push_u8 13) (eseq (taf_str peer) (taf_str path))"
| "encode_typed_action (PcArtifactWrite peer path bytes) =
    eseq (push_u8 14) (eseq (taf_str peer) (eseq (taf_str path) (taf_bytes bytes)))"
| "encode_typed_action (ArtifactDownload url path) = eseq (push_u8 15) (eseq (taf_str url) (taf_str path))"
| "encode_typed_action (ArtifactUpload url path) = eseq (push_u8 16) (eseq (taf_str url) (taf_str path))"

definition encode_field :: "string \<times> string \<Rightarrow> action_checkpoint_error enc" where
  "encode_field = (\<lambda>(key, val). eseq (taf_str key) (taf_str val))"

fun encode_action_value :: "action_value \<Rightarrow> action_checkpoint_error enc" where
  "encode_action_value NoValue = push_u8 0"
| "encode_action_value (TextValue val) = eseq (push_u8 1) (taf_str val)"
| "encode_action_value (BytesValue val) = eseq (push_u8 2) (taf_bytes val)"
| "encode_action_value (TextList vals) = eseq (push_u8 3) (push_strings Taf_Overflow vals)"
| "encode_action_value (Fields entries) =
    eseq (push_u8 4) (eseq (push_len Taf_Overflow (length entries)) (push_each encode_field entries))"

definition encode_output :: "action_output \<Rightarrow> action_checkpoint_error enc" where
  "encode_output output =
    eseq (taf_str (ao_summary output))
    (eseq (encode_action_value (ao_value output))
    (push_strings Taf_Overflow (ao_evidence output)))"

definition encode_planned_action :: "planned_action \<Rightarrow> action_checkpoint_error enc" where
  "encode_planned_action a =
    eseq (push_u64 (pa_id a))
    (eseq (push_u32 (pa_node_id a))
    (eseq (taf_str (pa_capability a))
    (eseq (push_u32 (pa_capability_version a))
    (eseq (push_u8 (encode_side_effect (pa_side_effect a)))
    (eseq (push_bool (pa_verification_required a))
    (eseq (encode_typed_action (pa_action a))
    (eseq (push_u8 (action_status_tag (pa_status a)))
    (eseq (push_u32 (pa_attempts a))
    (eseq (push_option encode_output (pa_output a))
    (eseq (push_option taf_bytes (pa_resume_token a))
    (eseq (push_option taf_bytes (pa_rollback_token a))
    (push_option taf_str (pa_last_error a)))))))))))))"

definition encode_plan :: "action_plan_state \<Rightarrow> action_checkpoint_error enc" where
  "encode_plan p =
    eseq (push_u64 (ps_id p))
    (eseq (push_u64 (ps_task_id p))
    (eseq (rbind (ok_or Taf_Overflow (u64_try_from_usize (ps_cursor p))) push_u64)
    (eseq (push_u8 (plan_status_tag (ps_status p)))
    (eseq (push_len Taf_Overflow (length (ps_actions p)))
    (push_each encode_planned_action (ps_actions p))))))"

definition taf_payload :: "action_fabric_state \<Rightarrow> action_checkpoint_error enc" where
  "taf_payload st =
    eseq (push_u64 (fs_next_plan_id st))
    (eseq (push_u64 (fs_next_action_id st))
    (eseq (push_len Taf_Overflow (length (fs_plans st)))
    (push_each encode_plan (bt_values (fs_plans st)))))"

definition encode_action_fabric_checkpoint ::
    "capability_registry \<Rightarrow> action_fabric_state \<Rightarrow> action_checkpoint_error enc" where
  "encode_action_fabric_checkpoint registry st =
    rbind (map_err Taf_Fabric (validate_fabric_state registry st)) (\<lambda>_.
    rbind (taf_payload st) (\<lambda>payload.
    frame_encode taf_ferr taf97_magic taf97_major taf97_minor payload))"

section \<open>Decoding\<close>

abbreviation taf_string :: "(action_checkpoint_error, string) dec" where
  "taf_string \<equiv> take_string taf_cerr Taf_InvalidUtf8"

abbreviation taf_strings :: "(action_checkpoint_error, string list) dec" where
  "taf_strings \<equiv> take_strings taf_cerr Taf_InvalidUtf8"

abbreviation taf_optional :: "(action_checkpoint_error, 'a) dec \<Rightarrow> (action_checkpoint_error, 'a option) dec" where
  "taf_optional \<equiv> take_option taf_cerr Taf_InvalidBoolean"

definition decode_typed_action :: "(action_checkpoint_error, typed_action) dec" where
  "decode_typed_action = dbind (take_u8 taf_cerr) (\<lambda>tag.
    if tag = 1 then dbind taf_string (\<lambda>query. dbind (take_u16 taf_cerr) (\<lambda>max_results.
      dret (WebSearch query max_results)))
    else if tag = 2 then dbind taf_string (\<lambda>url. dret (WebFetch url))
    else if tag = 3 then dbind taf_string (\<lambda>target. dret (BrowserObserve target))
    else if tag = 4 then dbind taf_string (\<lambda>target. dbind taf_string (\<lambda>operation.
      dbind (taf_optional taf_string) (\<lambda>val. dret (BrowserInteract target operation val))))
    else if tag = 5 then dbind taf_string (\<lambda>path. dret (FileRead path))
    else if tag = 6 then dbind taf_string (\<lambda>path. dbind (take_blob taf_cerr) (\<lambda>bytes.
      dret (FileWrite path bytes)))
    else if tag = 7 then dbind taf_string (\<lambda>surface. dret (DeviceObserve surface))
    else if tag = 8 then dbind taf_string (\<lambda>surface. dbind taf_string (\<lambda>operation.
      dbind (taf_optional taf_string) (\<lambda>argument. dret (DeviceInteract surface operation argument))))
    else if tag = 9 then dbind taf_string (\<lambda>app. dbind taf_string (\<lambda>action.
      dbind (take_blob taf_cerr) (\<lambda>payload. dret (AppAction app action payload))))
    else if tag = 10 then dbind taf_string (\<lambda>type_name. dbind (take_blob taf_cerr) (\<lambda>payload.
      dret (CustomAction type_name payload)))
    else if tag = 11 then dbind taf_string (\<lambda>peer. dbind taf_string (\<lambda>surface. dret (PcObserve peer surface)))
    else if tag = 12 then dbind taf_string (\<lambda>peer. dbind taf_string (\<lambda>program.
      dbind taf_strings (\<lambda>args. dbind (taf_optional taf_string) (\<lambda>working_dir.
      dret (PcExecute peer program args working_dir)))))
    else if tag = 13 then dbind taf_string (\<lambda>peer. dbind taf_string (\<lambda>path. dret (PcArtifactRead peer path)))
    else if tag = 14 then dbind taf_string (\<lambda>peer. dbind taf_string (\<lambda>path.
      dbind (take_blob taf_cerr) (\<lambda>bytes. dret (PcArtifactWrite peer path bytes))))
    else if tag = 15 then dbind taf_string (\<lambda>url. dbind taf_string (\<lambda>path. dret (ArtifactDownload url path)))
    else if tag = 16 then dbind taf_string (\<lambda>url. dbind taf_string (\<lambda>path. dret (ArtifactUpload url path)))
    else dfail (Taf_InvalidActionTag tag))"

text \<open>The loop over the fields: the order is checked between the key and the value.\<close>

fun take_fields :: "nat \<Rightarrow> string option \<Rightarrow> (string, string) btmap
    \<Rightarrow> (action_checkpoint_error, (string, string) btmap) dec" where
  "take_fields 0 previous entries = dret entries"
| "take_fields (Suc n) previous entries =
    dbind taf_string (\<lambda>key.
    dbind (dlift (ensure_after Taf_NonCanonicalEncoding key previous)) (\<lambda>previous'.
    dbind taf_string (\<lambda>val.
    if bt_contains entries key then dfail Taf_NonCanonicalEncoding
    else take_fields n previous' (bt_insert key val entries))))"

definition decode_action_value :: "(action_checkpoint_error, action_value) dec" where
  "decode_action_value = dbind (take_u8 taf_cerr) (\<lambda>tag.
    if tag = 0 then dret NoValue
    else if tag = 1 then dbind taf_string (\<lambda>val. dret (TextValue val))
    else if tag = 2 then dbind (take_blob taf_cerr) (\<lambda>val. dret (BytesValue val))
    else if tag = 3 then dbind taf_strings (\<lambda>vals. dret (TextList vals))
    else if tag = 4 then dbind (take_u32 taf_cerr) (\<lambda>count.
      dbind (take_fields (unat count) None []) (\<lambda>entries. dret (Fields entries)))
    else dfail (Taf_InvalidValueTag tag))"

definition decode_output :: "(action_checkpoint_error, action_output) dec" where
  "decode_output =
    dbind taf_string (\<lambda>summary.
    dbind decode_action_value (\<lambda>val.
    dbind taf_strings (\<lambda>evidence.
    dret \<lparr>ao_summary = summary, ao_value = val, ao_evidence = evidence\<rparr>)))"

definition decode_planned_action :: "(action_checkpoint_error, planned_action) dec" where
  "decode_planned_action =
    dbind (take_u64 taf_cerr) (\<lambda>aid.
    dbind (take_u32 taf_cerr) (\<lambda>node_id.
    dbind taf_string (\<lambda>capability.
    dbind (take_u32 taf_cerr) (\<lambda>capability_version.
    dbind (take_u8 taf_cerr) (\<lambda>raw_side_effect.
    dbind (dlift (decode_action_side_effect raw_side_effect)) (\<lambda>side_effect.
    dbind (take_bool taf_cerr Taf_InvalidBoolean) (\<lambda>verification_required.
    dbind decode_typed_action (\<lambda>action.
    dbind (take_u8 taf_cerr) (\<lambda>status_raw.
    dbind (dlift (map_err Taf_Fabric (action_status_try_from status_raw))) (\<lambda>status.
    dbind (take_u32 taf_cerr) (\<lambda>attempts.
    dbind (taf_optional decode_output) (\<lambda>output.
    dbind (taf_optional (take_blob taf_cerr)) (\<lambda>resume_token.
    dbind (taf_optional (take_blob taf_cerr)) (\<lambda>rollback_token.
    dbind (taf_optional taf_string) (\<lambda>last_error.
    dret \<lparr>pa_id = aid, pa_node_id = node_id, pa_capability = capability,
      pa_capability_version = capability_version, pa_side_effect = side_effect,
      pa_verification_required = verification_required, pa_action = action, pa_status = status,
      pa_attempts = attempts, pa_output = output, pa_resume_token = resume_token,
      pa_rollback_token = rollback_token, pa_last_error = last_error\<rparr>)))))))))))))))"

definition decode_plan :: "(action_checkpoint_error, action_plan_state) dec" where
  "decode_plan =
    dbind (take_u64 taf_cerr) (\<lambda>pid.
    dbind (take_u64 taf_cerr) (\<lambda>task_id.
    dbind (take_u64 taf_cerr) (\<lambda>plan_cursor.
    dbind (take_u8 taf_cerr) (\<lambda>status_raw.
    dbind (dlift (map_err Taf_Fabric (plan_status_try_from status_raw))) (\<lambda>status.
    dbind (dbind (take_u32 taf_cerr) (\<lambda>action_count. take_n (unat action_count) decode_planned_action)) (\<lambda>actions.
    dret \<lparr>ps_id = pid, ps_task_id = task_id, ps_cursor = unat plan_cursor, ps_status = status,
      ps_actions = actions\<rparr>))))))"

abbreviation taf_ids :: "u64 \<Rightarrow> u64 \<Rightarrow> action_checkpoint_error + u64" where
  "taf_ids \<equiv> ensure_increasing Taf_NonCanonicalEncoding"

definition taf_body :: "(action_checkpoint_error, action_fabric_state) dec" where
  "taf_body =
    dbind (take_u64 taf_cerr) (\<lambda>next_plan_id.
    dbind (take_u64 taf_cerr) (\<lambda>next_action_id.
    dbind (take_u32 taf_cerr) (\<lambda>count.
    dbind (take_table taf_ids Taf_NonCanonicalEncoding decode_plan ps_id (unat count) 0 []) (\<lambda>plans.
    dret \<lparr>fs_next_plan_id = next_plan_id, fs_next_action_id = next_action_id, fs_plans = plans\<rparr>))))"

definition decode_action_fabric_checkpoint ::
    "capability_registry \<Rightarrow> u8 list \<Rightarrow> action_checkpoint_error + action_fabric_state" where
  "decode_action_fabric_checkpoint registry bytes =
    rbind (frame_decode taf_ferr taf97_magic taf97_major taf97_minor bytes) (\<lambda>payload.
    rbind (decode_all Taf_NonCanonicalEncoding taf_body payload) (\<lambda>st.
    rbind (map_err Taf_Fabric (validate_fabric_state registry st)) (\<lambda>_.
    Inr st)))"

section \<open>Tags round-trip\<close>

lemma action_status_Inr: "action_status_try_from v = Inr st \<longleftrightarrow> v = action_status_tag st"
  by (cases st) (auto simp: action_status_try_from_def)

lemma plan_status_Inr: "plan_status_try_from v = Inr st \<longleftrightarrow> v = plan_status_tag st"
  by (cases st) (auto simp: plan_status_try_from_def)

lemma action_side_effect_Inr: "decode_action_side_effect v = Inr e \<longleftrightarrow> v = encode_side_effect e"
  by (cases e) (auto simp: decode_action_side_effect_def)

lemmas taf_tags = action_status_Inr plan_status_Inr action_side_effect_Inr

lemma taf_tags_back [simp]:
  "action_status_try_from (action_status_tag ast) = Inr ast"
  "plan_status_try_from (plan_status_tag pst) = Inr pst"
  "decode_action_side_effect (encode_side_effect e) = Inr e"
  by (simp_all add: taf_tags)

section \<open>Typed actions and outputs round-trip\<close>

fun typed_strs :: "typed_action \<Rightarrow> bool" where
  "typed_strs (WebSearch query _) \<longleftrightarrow> str_ok query"
| "typed_strs (WebFetch url) \<longleftrightarrow> str_ok url"
| "typed_strs (BrowserObserve target) \<longleftrightarrow> str_ok target"
| "typed_strs (BrowserInteract target operation val) \<longleftrightarrow>
    str_ok target \<and> str_ok operation \<and> pred_option str_ok val"
| "typed_strs (FileRead path) \<longleftrightarrow> str_ok path"
| "typed_strs (FileWrite path _) \<longleftrightarrow> str_ok path"
| "typed_strs (DeviceObserve surface) \<longleftrightarrow> str_ok surface"
| "typed_strs (DeviceInteract surface operation argument) \<longleftrightarrow>
    str_ok surface \<and> str_ok operation \<and> pred_option str_ok argument"
| "typed_strs (AppAction app action _) \<longleftrightarrow> str_ok app \<and> str_ok action"
| "typed_strs (CustomAction type_name _) \<longleftrightarrow> str_ok type_name"
| "typed_strs (PcObserve peer surface) \<longleftrightarrow> str_ok peer \<and> str_ok surface"
| "typed_strs (PcExecute peer program args working_dir) \<longleftrightarrow>
    str_ok peer \<and> str_ok program \<and> list_all str_ok args \<and> pred_option str_ok working_dir"
| "typed_strs (PcArtifactRead peer path) \<longleftrightarrow> str_ok peer \<and> str_ok path"
| "typed_strs (PcArtifactWrite peer path _) \<longleftrightarrow> str_ok peer \<and> str_ok path"
| "typed_strs (ArtifactDownload url path) \<longleftrightarrow> str_ok url \<and> str_ok path"
| "typed_strs (ArtifactUpload url path) \<longleftrightarrow> str_ok url \<and> str_ok path"

lemma pred_option_code [code]: "pred_option P None = True" "pred_option P (Some a) = P a"
  by simp_all

lemma pred_option_iff: "pred_option P v \<longleftrightarrow> (\<forall>a. v = Some a \<longrightarrow> P a)"
  by (cases v) auto

lemma reads_optional_string:
  "push_option (push_string ovf) v = Inr bs \<Longrightarrow> pred_option str_ok v
    \<Longrightarrow> reads (take_option er bad (take_string er' bad')) bs v"
  by (rule string_codec.optional) (auto simp: pred_option_iff)

lemma reads_optional_bytes:
  "push_option (push_bytes ovf) v = Inr bs \<Longrightarrow> reads (take_option er bad (take_blob er')) bs v"
  by (rule bytes_codec.optional) auto

text \<open>The last part of a value, after which only the value is built.\<close>

lemma reads_then_dret: "reads d bs a \<Longrightarrow> reads (dbind d (\<lambda>a. dret (f a))) bs (f a)"
  by (erule reads_dbind_last) (rule reads_dret)

lemmas reads_taf_parts = reads_dbind [OF reads_string] reads_then_dret [OF reads_string]
  reads_then_dret [OF reads_u16] reads_dbind [OF reads_strings] reads_then_dret [OF reads_strings]
  reads_then_dret [OF reads_blob] reads_then_dret [OF reads_optional_string]

lemma reads_typed_action:
  assumes "typed_strs a" and "encode_typed_action a = Inr bs"
  shows "reads decode_typed_action bs a"
  using assms unfolding decode_typed_action_def
  by (cases a) (auto intro!: reads_u8_Cons reads_taf_parts simp: list_all_iff)

lemma accepts_if:
  "(c \<Longrightarrow> accepts d P) \<Longrightarrow> (\<not> c \<Longrightarrow> accepts e P) \<Longrightarrow> accepts (if c then d else e) P"
  by simp

lemmas accepts_taf_string = accepts_dbind [OF accepts_string [where ovf = Taf_Overflow]]
lemmas accepts_taf_strings = accepts_dbind [OF accepts_strings [where ovf = Taf_Overflow]]
lemmas accepts_taf_blob = accepts_dbind [OF accepts_blob [where ovf = Taf_Overflow]]
lemmas accepts_taf_optional_string = accepts_dbind [OF string_canonical.optional_accepts [where ovf = Taf_Overflow]]
lemmas accepts_taf_optional_bytes = accepts_dbind [OF bytes_canonical.optional_accepts [where ovf = Taf_Overflow]]

lemmas accepts_taf_parts = accepts_if accepts_dfail accepts_dret accepts_taf_string accepts_taf_strings
  accepts_taf_blob accepts_taf_optional_string accepts_taf_optional_bytes accepts_words

lemma accepts_typed_action:
  "accepts decode_typed_action (\<lambda>a bs. typed_strs a \<and> encode_typed_action a = Inr bs)"
  unfolding decode_typed_action_def
  by (intro accepts_taf_parts) (auto simp: list_all_iff pred_option_iff)

interpretation typed_action_codec: canonical_codec typed_strs encode_typed_action decode_typed_action
  by unfold_locales (auto intro: reads_typed_action accepts_typed_action)

definition fields_ok :: "string option \<Rightarrow> (string, string) btmap \<Rightarrow> bool" where
  "fields_ok prev m \<longleftrightarrow> (\<forall>e \<in> set m. str_ok (fst e) \<and> str_ok (snd e) \<and> after_key prev (fst e))"

lemma reads_fields:
  assumes "bt_wf (m1 @ m2)" and "fields_ok prev m2" and "push_each encode_field m2 = Inr bs"
  shows "reads (take_fields (length m2) prev m1) bs (m1 @ m2)"
  using assms
proof (induction m2 arbitrary: m1 prev bs)
  case Nil
  then show ?case by (simp add: reads_dret)
next
  case (Cons e m2)
  obtain k v where e: "e = (k, v)" by (cases e)
  from Cons.prems(2) have r: "str_ok k" "str_ok v" "after_key prev k" by (auto simp: fields_ok_def e)
  from Cons.prems(3) obtain b1 b2 b3 where b: "taf_str k = Inr b1" "taf_str v = Inr b2"
      "push_each encode_field m2 = Inr b3" "bs = b1 @ b2 @ b3"
    by (auto simp: e encode_field_def)
  from keys_increasing.chk_above [OF r(3), of Taf_NonCanonicalEncoding] obtain prev' where
      prev': "ensure_after Taf_NonCanonicalEncoding k prev = Inr prev'" by blast
  have sorted: "sorted_wrt (<) (map fst m1 @ k # map fst m2)"
    using Cons.prems(1) by (simp add: bt_wf_def e)
  then have below: "\<And>x. x \<in> set m1 \<Longrightarrow> fst x < k" and above_k: "\<And>x. x \<in> set m2 \<Longrightarrow> k < fst x"
    by (auto simp: sorted_wrt_append)
  have fresh: "bt_get m1 k = None" using below by (force simp: map_of_eq_None_iff)
  have ins: "bt_insert k v m1 = m1 @ [(k, v)]" using below by (rule bt_insert_last)
  have "fields_ok prev' m2"
    using Cons.prems(2) keys_increasing.chk_Inr [OF prev'] above_k by (auto simp: fields_ok_def)
  then have rest: "reads (take_fields (length m2) prev' (m1 @ [(k, v)])) b3 ((m1 @ [(k, v)]) @ m2)"
    using Cons.prems(1) b(3) by (intro Cons.IH) (simp_all add: e)
  show ?case
    unfolding b(4) e list.size add_0_right add_Suc_right take_fields.simps
    by (rule reads_dbind [OF reads_string [OF b(1) r(1)]],
        unfold prev' dbind_dlift, rule reads_dbind [OF reads_string [OF b(2) r(2)]])
      (use rest fresh ins in \<open>simp add: bt_contains_def\<close>)
qed

lemma accepts_fields_from:
  assumes "bt_wf m1" and "\<And>e k. e \<in> set m1 \<Longrightarrow> after_key prev k \<Longrightarrow> fst e < k"
  shows "accepts (take_fields n prev m1)
    (\<lambda>m bs. \<exists>m2. m = m1 @ m2 \<and> length m2 = n \<and> bt_wf m \<and> fields_ok prev m2
      \<and> push_each encode_field m2 = Inr bs)"
  using assms
proof (induction n arbitrary: prev m1)
  case 0
  then show ?case by (auto intro!: accepts_dret simp: fields_ok_def)
next
  case (Suc n)
  show ?case
    unfolding take_fields.simps
  proof (rule accepts_taf_string, rule accepts_dbind_dlift, rule accepts_taf_string)
    fix k bs prev' v cs
    assume k: "str_ok k \<and> taf_str k = Inr bs" and v: "str_ok v \<and> taf_str v = Inr cs"
      and p: "ensure_after Taf_NonCanonicalEncoding k prev = Inr prev'"
    from keys_increasing.chk_Inr [OF p] have ab: "after_key prev k"
      and nxt: "\<And>k'. after_key prev' k' \<longleftrightarrow> k < k'" by auto
    note seen = keys_increasing.seen_below [OF Suc.prems ab]
    have up: "after_key prev k'" if "after_key prev' k'" for k'
      using that ab nxt keys_increasing.above_mono by blast
    have "accepts (take_fields n prev' (m1 @ [(k, v)]))
        (\<lambda>m ds. \<exists>m2. m = (m1 @ [(k, v)]) @ m2 \<and> length m2 = n \<and> bt_wf m \<and> fields_ok prev' m2
          \<and> push_each encode_field m2 = Inr ds)"
      using seen(3) Suc.prems(2) keys_increasing.above_mono [OF ab] nxt by (intro Suc.IH) auto
    then have "accepts (take_fields n prev' (m1 @ [(k, v)]))
        (\<lambda>m ds. \<exists>m2. m = m1 @ m2 \<and> length m2 = Suc n \<and> bt_wf m \<and> fields_ok prev m2
          \<and> push_each encode_field m2 = Inr (bs @ cs @ ds))"
    proof (rule accepts_mono)
      fix m ds
      assume "\<exists>m2. m = (m1 @ [(k, v)]) @ m2 \<and> length m2 = n \<and> bt_wf m \<and> fields_ok prev' m2
          \<and> push_each encode_field m2 = Inr ds"
      then obtain m2 where m2: "m = m1 @ (k, v) # m2" "length m2 = n" "bt_wf m" "fields_ok prev' m2"
          "push_each encode_field m2 = Inr ds" by auto
      then show "\<exists>m2. m = m1 @ m2 \<and> length m2 = Suc n \<and> bt_wf m \<and> fields_ok prev m2
          \<and> push_each encode_field m2 = Inr (bs @ cs @ ds)"
        using k v ab up by (intro exI [of _ "(k, v) # m2"]) (auto simp: fields_ok_def encode_field_def)
    qed
    then show "accepts (if bt_contains m1 k then dfail Taf_NonCanonicalEncoding
          else take_fields n prev' (bt_insert k v m1))
        (\<lambda>m ds. \<exists>m2. m = m1 @ m2 \<and> length m2 = Suc n \<and> bt_wf m \<and> fields_ok prev m2
          \<and> push_each encode_field m2 = Inr (bs @ cs @ ds))"
      using seen(1,2) by (simp add: bt_contains_def)
  qed
qed

lemma accepts_fields:
  "accepts (take_fields n None [])
    (\<lambda>m bs. length m = n \<and> bt_wf m \<and> fields_ok None m \<and> push_each encode_field m = Inr bs)"
  by (rule accepts_mono [OF accepts_fields_from]) auto

fun value_ok :: "action_value \<Rightarrow> bool" where
  "value_ok (TextValue val) \<longleftrightarrow> str_ok val"
| "value_ok (TextList vals) \<longleftrightarrow> list_all str_ok vals"
| "value_ok (Fields m) \<longleftrightarrow> bt_wf m \<and> fields_ok None m"
| "value_ok _ \<longleftrightarrow> True"

lemma reads_action_value:
  assumes "value_ok v" and "encode_action_value v = Inr bs"
  shows "reads decode_action_value bs v"
proof (cases v)
  case (Fields m)
  with assms obtain b where n: "int (length m) < 2 ^ 32" and b: "push_each encode_field m = Inr b"
      and bs: "bs = 4 # u32_le (of_nat (length m)) @ b" by auto
  have "reads (take_fields (unat (of_nat (length m) :: u32)) None []) b m"
    using reads_fields [of "[]" m None b] assms(1) b n by (simp add: Fields unat_len)
  then show ?thesis
    unfolding decode_action_value_def bs Fields
    by (auto intro!: reads_u8_Cons reads_dbind [OF reads_u32] reads_then_dret)
qed (use assms in \<open>auto simp: decode_action_value_def list_all_iff intro!: reads_u8_Cons reads_taf_parts reads_dret\<close>)

lemma accepts_action_value: "accepts decode_action_value (\<lambda>v bs. value_ok v \<and> encode_action_value v = Inr bs)"
  unfolding decode_action_value_def
  by (intro accepts_taf_parts accepts_dbind [OF accepts_fields]) (auto simp: list_all_iff)

definition output_ok :: "action_output \<Rightarrow> bool" where
  "output_ok x \<longleftrightarrow> str_ok (ao_summary x) \<and> value_ok (ao_value x) \<and> list_all str_ok (ao_evidence x)"

lemma reads_output: "output_ok x \<Longrightarrow> encode_output x = Inr bs \<Longrightarrow> reads decode_output bs x"
  unfolding decode_output_def encode_output_def
  by (cases x) (auto simp: output_ok_def list_all_iff intro!: reads_dbind [OF reads_string]
      reads_dbind [OF reads_action_value] reads_dbind_last [OF reads_strings] reads_dret)

lemma accepts_output: "accepts decode_output (\<lambda>x bs. output_ok x \<and> encode_output x = Inr bs)"
  unfolding decode_output_def
  by (intro accepts_taf_parts accepts_dbind [OF accepts_action_value])
    (auto simp: encode_output_def output_ok_def list_all_iff)

interpretation output_codec: canonical_codec output_ok encode_output decode_output
  by unfold_locales (auto intro: reads_output accepts_output)

section \<open>Plans round-trip\<close>

definition planned_ok :: "planned_action \<Rightarrow> bool" where
  "planned_ok a \<longleftrightarrow> str_ok (pa_capability a) \<and> typed_strs (pa_action a)
    \<and> pred_option output_ok (pa_output a) \<and> pred_option str_ok (pa_last_error a)"

lemma reads_optional_output:
  "push_option encode_output v = Inr bs \<Longrightarrow> pred_option output_ok v
    \<Longrightarrow> reads (take_option er bad decode_output) bs v"
  by (rule output_codec.optional) (auto simp: pred_option_iff)

lemma reads_planned_action:
  assumes "planned_ok a" and "encode_planned_action a = Inr bs"
  shows "reads decode_planned_action bs a"
proof -
  have ok: "str_ok (pa_capability a)" "typed_strs (pa_action a)" "pred_option output_ok (pa_output a)"
      "pred_option str_ok (pa_last_error a)"
    using assms(1) by (auto simp: planned_ok_def)
  from assms(2) obtain b1 b2 b3 b4 b5 b6 b7 where
      b: "taf_str (pa_capability a) = Inr b1" "(push_bool (pa_verification_required a) :: action_checkpoint_error enc) = Inr b2"
        "encode_typed_action (pa_action a) = Inr b3" "push_option encode_output (pa_output a) = Inr b4"
        "push_option taf_bytes (pa_resume_token a) = Inr b5" "push_option taf_bytes (pa_rollback_token a) = Inr b6"
        "push_option taf_str (pa_last_error a) = Inr b7"
    and bs: "bs = u64_le (pa_id a) @ u32_le (pa_node_id a) @ b1 @ u32_le (pa_capability_version a)
        @ encode_side_effect (pa_side_effect a) # b2 @ b3 @ action_status_tag (pa_status a)
        # u32_le (pa_attempts a) @ b4 @ b5 @ b6 @ b7"
    by (auto simp: encode_planned_action_def)
  note parts = reads_dbind [OF reads_string [OF b(1) ok(1)]] reads_dbind [OF reads_bool [OF b(2)]]
    reads_dbind [OF reads_typed_action [OF ok(2) b(3)]] reads_dbind [OF reads_optional_output [OF b(4) ok(3)]]
    reads_dbind [OF reads_optional_bytes [OF b(5)]] reads_dbind [OF reads_optional_bytes [OF b(6)]]
    reads_dbind_last [OF reads_optional_string [OF b(7) ok(4)]]
  show ?thesis
    unfolding decode_planned_action_def bs
    apply (intro reads_words parts(1))
    apply (simp only: taf_tags_back dbind_dlift)
    apply (rule parts(2))
    apply (rule parts(3))
    apply (intro reads_words)
    apply (simp only: taf_tags_back map_err_simps dbind_dlift)
    apply (intro reads_words parts(4-7))
    apply (cases a)
    apply (simp add: reads_dret)
    done
qed

lemma accepts_planned_action:
  "accepts decode_planned_action (\<lambda>a bs. planned_ok a \<and> encode_planned_action a = Inr bs)"
  unfolding decode_planned_action_def
  by (intro accepts_taf_parts accepts_dbind_dlift accepts_dbind [OF accepts_bool]
      accepts_dbind [OF accepts_typed_action] accepts_dbind [OF output_codec.optional_accepts])
    (auto simp: encode_planned_action_def planned_ok_def taf_tags pred_option_iff)

interpretation planned_action_codec: canonical_codec planned_ok encode_planned_action decode_planned_action
  by unfold_locales (auto intro: reads_planned_action accepts_planned_action)

definition plan_ok :: "action_plan_state \<Rightarrow> bool" where
  "plan_ok p \<longleftrightarrow> list_all planned_ok (ps_actions p)"

lemma u64_try_from_usize_Some: "u64_try_from_usize n = Some w \<longleftrightarrow> n = unat w"
proof -
  have "unat w < 2 ^ 64" using unsigned_less [of w, where ?'a = nat] by simp
  then show ?thesis
    by (auto simp: u64_try_from_usize_def usize_bound_def unat_of_nat split: if_splits)
qed

lemma reads_plan:
  assumes "plan_ok p" and "encode_plan p = Inr bs"
  shows "reads decode_plan bs p"
proof -
  from assms(2) obtain w b where w: "ps_cursor p = unat w"
    and b: "eseq (push_len Taf_Overflow (length (ps_actions p))) (push_each encode_planned_action (ps_actions p)) = Inr b"
    and bs: "bs = u64_le (ps_id p) @ u64_le (ps_task_id p) @ u64_le w @ plan_status_tag (ps_status p) # b"
    by (auto simp: encode_plan_def u64_try_from_usize_Some ok_or_eq_Inr)
  have acts: "\<And>a. a \<in> set (ps_actions p) \<Longrightarrow> planned_ok a" using assms(1) by (simp add: plan_ok_def list_all_iff)
  show ?thesis
    unfolding decode_plan_def bs
    apply (intro reads_words)
    apply (simp only: taf_tags_back map_err_simps dbind_dlift)
    apply (rule reads_dbind_last [OF planned_action_codec.counted [OF acts b]])
     apply assumption
    apply (cases p)
    apply (use w in \<open>simp add: reads_dret\<close>)
    done
qed

lemma accepts_plan: "accepts decode_plan (\<lambda>p bs. plan_ok p \<and> encode_plan p = Inr bs)"
  unfolding decode_plan_def
  by (intro accepts_words accepts_dbind_dlift accepts_dret
      accepts_dbind [OF planned_action_codec.counted_accepts [where ovf = Taf_Overflow]])
    (auto simp: encode_plan_def plan_ok_def list_all_iff taf_tags u64_try_from_usize_Some ok_or_eq_Inr)

interpretation plan_codec: canonical_codec plan_ok encode_plan decode_plan
  by unfold_locales (auto intro: reads_plan accepts_plan)

interpretation plan_table: canonical_table plan_ok encode_plan decode_plan taf_ids "\<lambda>p k. p < k" ps_id
  by unfold_locales

section \<open>States round-trip\<close>

text \<open>Every string of the state is a Rust string, every map of fields a \<open>BTreeMap\<close>.\<close>

definition fabric_strs :: "action_fabric_state \<Rightarrow> bool" where
  "fabric_strs st \<longleftrightarrow> list_all (plan_ok \<circ> snd) (fs_plans st)"

lemma fabric_entries:
  assumes "fabric_valid registry st" and "fabric_strs st"
  shows "bt_wf (fs_plans st)" "plan_table.entries_ok 0 (fs_plans st)"
  using assms by (auto simp: fabric_valid_def fabric_strs_def table_ok_def plan_table.entries_ok_def
      list_all_iff word_neq_0_conv)

lemma reads_taf_body:
  assumes "fabric_valid registry st" and "fabric_strs st" and enc: "taf_payload st = Inr bs"
  shows "reads taf_body bs st"
proof -
  from enc obtain b where n: "int (length (fs_plans st)) < 2 ^ 32"
    and b: "push_each encode_plan (bt_values (fs_plans st)) = Inr b"
    and bs: "bs = u64_le (fs_next_plan_id st) @ u64_le (fs_next_action_id st)
      @ u32_le (of_nat (length (fs_plans st))) @ b"
    by (auto simp: taf_payload_def)
  note part = plan_table.table_round_trip [OF fabric_entries [OF assms(1,2)] b]
  show ?thesis
    unfolding taf_body_def bs
    apply (intro reads_words)
    apply (simp only: unat_len [OF n])
    apply (rule reads_dbind_last [OF part])
    apply (cases st)
    apply (simp add: reads_dret)
    done
qed

lemma accepts_taf_body:
  "accepts taf_body (\<lambda>st bs. bt_wf (fs_plans st) \<and> fabric_strs st \<and> taf_payload st = Inr bs)"
  unfolding taf_body_def
  by (intro accepts_words accepts_dbind [OF plan_table.table_accepts] accepts_dret)
    (auto simp: taf_payload_def fabric_strs_def plan_table.entries_ok_def list_all_iff)

lemma only_encode_typed_action [simp]: "only Taf_Overflow (encode_typed_action a)"
  by (cases a) auto

lemma only_encode_action_value [simp]: "only Taf_Overflow (encode_action_value v)"
  by (cases v) (auto simp: encode_field_def split: prod.splits)

lemma only_encode_cursor [simp]: "only Taf_Overflow (rbind (ok_or Taf_Overflow v) push_u64)"
  by (cases v) (auto simp: only_def push_u64_def push_raw_def)

lemma taf_payload_overflow: "only Taf_Overflow (taf_payload st)"
  by (auto simp: taf_payload_def encode_plan_def encode_planned_action_def encode_output_def)

lemma decode_encoded_fabric:
  assumes "fabric_valid registry st" and "fabric_strs st"
    and "encode_action_fabric_checkpoint registry st = Inr bs"
  shows "decode_action_fabric_checkpoint registry bs = Inr st"
proof -
  from assms(3) obtain payload where enc: "taf_payload st = Inr payload"
    and fr: "frame_encode taf_ferr taf97_magic taf97_major taf97_minor payload = Inr bs"
    and val: "validate_fabric_state registry st = Inr ()"
    by (auto simp: encode_action_fabric_checkpoint_def)
  have "frame_decode taf_ferr taf97_magic taf97_major taf97_minor bs = Inr payload"
    using fr by (rule frame_decode_encode) (simp_all add: taf97_magic_def)
  moreover have "int (length payload) < usize_bound"
    using fr by (auto simp: frame_encode_def frame_header_len_def split: if_splits)
  then have "decode_all Taf_NonCanonicalEncoding taf_body payload = Inr st"
    by (rule decode_all_reads [OF reads_taf_body [OF assms(1,2) enc]])
  ultimately show ?thesis using val by (simp add: decode_action_fabric_checkpoint_def)
qed

lemma encode_fabric_overflow:
  assumes "fabric_valid registry st" and "encode_action_fabric_checkpoint registry st = Inl e"
  shows "e = Taf_Overflow"
proof -
  have "bt_wf (fs_plans st)" using assms(1) by (auto simp: fabric_valid_def dest: table_okD(1))
  then have "validate_fabric_state registry st = Inr ()" using assms(1) by (simp add: validate_fabric_state_valid)
  then show ?thesis
    using assms(2) taf_payload_overflow [of st]
    by (auto simp: encode_action_fabric_checkpoint_def rbind_eq_Inl frame_encode_def frame_header_eq
        only_def taf_ferr_def taf_cerr_def eseq_def push_raw_def split: if_splits)
qed

text \<open>A plan of which one action is committed and the next is suspended, and its checkpoint.\<close>

definition taf_state :: action_fabric_state where
  "taf_state = \<lparr>fs_next_plan_id = 2, fs_next_action_id = 3, fs_plans = [(1, sample_plan 1 PSuspended
     ((sample_action 1 ACommitted)\<lparr>pa_output := Some \<lparr>ao_summary = ''ok'',
       ao_value = Fields [(''k'', ''v''), (''l'', ''w'')], ao_evidence = [''e'']\<rparr>\<rparr>)
     ((sample_action 2 ASuspended)\<lparr>pa_resume_token := Some [9, 8], pa_last_error := Some ''wait''\<rparr>))]\<rparr>"

definition taf_bytes_sample :: "u8 list" where
  "taf_bytes_sample = [84, 65, 70, 57, 55, 0, 24, 0, 0, 0, 4, 0, 0, 0, 0, 0, 192, 0, 0, 0, 0, 0, 0, 0, 2, 0, 0, 0, 0, 0, 0, 0,
     3, 0, 0, 0, 0, 0, 0, 0, 1, 0, 0, 0, 1, 0, 0, 0, 0, 0, 0, 0, 1, 0, 0, 0, 0, 0, 0, 0, 1, 0, 0, 0, 0, 0,
     0, 0, 2, 2, 0, 0, 0, 1, 0, 0, 0, 0, 0, 0, 0, 1, 0, 0, 0, 1, 0, 0, 0, 99, 1, 0, 0, 0, 2, 1, 6, 1, 0, 0,
     0, 112, 0, 0, 0, 0, 5, 0, 0, 0, 0, 1, 2, 0, 0, 0, 111, 107, 4, 2, 0, 0, 0, 1, 0, 0, 0, 107, 1, 0, 0,
     0, 118, 1, 0, 0, 0, 108, 1, 0, 0, 0, 119, 1, 0, 0, 0, 1, 0, 0, 0, 101, 0, 1, 1, 0, 0, 0, 1, 0, 2, 0,
     0, 0, 0, 0, 0, 0, 1, 0, 0, 0, 1, 0, 0, 0, 99, 1, 0, 0, 0, 2, 1, 6, 1, 0, 0, 0, 112, 0, 0, 0, 0, 3, 0,
     0, 0, 0, 0, 1, 2, 0, 0, 0, 9, 8, 0, 1, 4, 0, 0, 0, 119, 97, 105, 116]"

lemma taf_state_ok: "fabric_valid sample_registry taf_state" "fabric_strs taf_state"
proof -
  have "validate_fabric_state sample_registry taf_state = Inr ()" by code_simp
  moreover have "bt_wf (fs_plans taf_state)" by code_simp
  ultimately show "fabric_valid sample_registry taf_state" by (simp add: validate_fabric_state_valid)
  show "fabric_strs taf_state" by code_simp
qed

text \<open>
  C23: a checkpoint of the action fabric restores it: for every state that satisfies the fabric
  invariant under a registry, \<open>encode_action_fabric_checkpoint\<close> fails only with \<open>Overflow\<close>, and
  decoding what it writes under the same registry gives back exactly that state, with all plans,
  outputs, resume and rollback tokens.
\<close>

theorem checkpoint_restores_fabric:
  assumes "fabric_valid registry st" and "fabric_strs st"
  shows "case encode_action_fabric_checkpoint registry st of
      Inl e \<Rightarrow> e = Taf_Overflow
    | Inr bs \<Rightarrow> decode_action_fabric_checkpoint registry bs = Inr st"
  using encode_fabric_overflow [OF assms(1)] decode_encoded_fabric [OF assms] by (simp split: sum.splits)

theorem checkpoint_restores_fabric_witness:
  "encode_action_fabric_checkpoint sample_registry taf_state = Inr taf_bytes_sample
    \<and> decode_action_fabric_checkpoint sample_registry taf_bytes_sample = Inr taf_state"
proof -
  have "encode_action_fabric_checkpoint sample_registry taf_state = Inr taf_bytes_sample" by code_simp
  then show ?thesis using checkpoint_restores_fabric [OF taf_state_ok] by simp
qed

text \<open>What the decoder accepts.\<close>

lemma decoded_fabric:
  assumes "decode_action_fabric_checkpoint registry bs = Inr st" and "int (length bs) < usize_bound"
  shows "fabric_valid registry st \<and> fabric_strs st
    \<and> encode_action_fabric_checkpoint registry st = Inr (bs[10 := 4])"
proof -
  from assms(1) obtain payload where
      fr: "frame_decode taf_ferr taf97_magic taf97_major taf97_minor bs = Inr payload"
    and dec: "decode_all Taf_NonCanonicalEncoding taf_body payload = Inr st"
    and val: "validate_fabric_state registry st = Inr ()"
    by (auto simp: decode_action_fabric_checkpoint_def)
  obtain mn where mn: "mn \<le> taf97_minor"
      and enc: "frame_encode taf_ferr taf97_magic taf97_major mn payload = Inr bs"
    using frame_encode_decode [OF fr assms(2), where fe' = taf_ferr] by blast
  have len: "int (length payload) < usize_bound"
    using enc by (auto simp: frame_encode_def frame_header_len_def split: if_splits)
  from decode_all_accepts [OF accepts_taf_body dec len]
  have ok: "bt_wf (fs_plans st)" "fabric_strs st" "taf_payload st = Inr payload" by auto
  have "frame_encode taf_ferr taf97_magic taf97_major taf97_minor payload = Inr (bs[10 := ucast taf97_minor])"
    using enc by (rule frame_minor) (use le_less_trans [OF mn] in \<open>simp_all add: taf97_magic_def taf97_minor_def\<close>)
  moreover have "ucast taf97_minor = (4 :: u8)" by (simp add: taf97_minor_def)
  ultimately show ?thesis
    using ok val by (simp add: encode_action_fabric_checkpoint_def validate_fabric_state_valid)
qed

interpretation taf: checkpoint "\<lambda>st. fabric_valid registry st \<and> fabric_strs st"
    "encode_action_fabric_checkpoint registry" "decode_action_fabric_checkpoint registry"
  for registry
  by unfold_locales (auto intro: decode_encoded_fabric dest: decoded_fabric)

text \<open>
  Whatever byte sequence \<open>decode_action_fabric_checkpoint\<close> accepts, the state it returns
  satisfies the fabric invariant under the registry, and encoding it again gives the same bytes up to
  the minor version, which is written as 4.
\<close>

theorem decode_fabric_canonical:
  assumes "decode_action_fabric_checkpoint registry bs = Inr st" and "int (length bs) < usize_bound"
  shows "fabric_valid registry st \<and> fabric_strs st
    \<and> encode_action_fabric_checkpoint registry st = Inr (bs[10 := 4])"
  by (rule decoded_fabric [OF assms])

theorem decode_fabric_canonical_witness:
  "fabric_valid sample_registry taf_state
    \<and> encode_action_fabric_checkpoint sample_registry taf_state = Inr ((taf_bytes_sample[10 := 2])[10 := 4])"
proof -
  have "decode_action_fabric_checkpoint sample_registry (taf_bytes_sample[10 := 2]) = Inr taf_state" by code_simp
  moreover have "int (length (taf_bytes_sample[10 := 2])) < usize_bound" by code_simp
  ultimately show ?thesis using decode_fabric_canonical by blast
qed

end
