(* ===== verification/Mobile_Continuity.thy ===== *)
theory Mobile_Continuity
  imports TAF97_Checkpoint
begin

text \<open>
  The mobile continuity bundle, \<open>crates/ntd-mobile-shell/src/continuity.rs\<close>: a session of the
  cognitive kernel and the action fabric, with the registry of capabilities, the pending approval and
  the retry window, as one value (\<open>build_mobile_continuity_bundle\<close>,
  \<open>restore_mobile_continuity_bundle\<close>) and as the byte format MCS97
  (\<open>encode_mobile_continuity_bundle\<close>, \<open>decode_mobile_continuity_bundle\<close>). It embeds the two
  checkpoints of the theories \<open>SIK97_Checkpoint\<close> and \<open>TAF97_Checkpoint\<close>.

  The source stores errors of the embedded parts as their \<open>{:?}\<close> text; here the error value itself
  stands for its text (\<open>debug_text\<close>). What the shell relies on in the two embedded formats, and
  offers itself, is the locale \<open>checkpoint\<close>.
\<close>

section \<open>Data\<close>

datatype mobile_continuity_state =
    M_Interactive | M_ActiveExecution | M_Checkpointed | M_SuspendedByOs | M_WaitingCondition
  | M_WaitingApproval | M_Reconstructing | M_VerifyingResume | M_Completed | M_FailedRecoverable

datatype wake_reason =
    W_UserInteraction | W_ForegroundExecution | W_ScheduledWork | W_RetryBackoff | W_Reboot
  | W_ApprovalResolved | W_NetworkAvailable | W_Charging | W_ManualRecovery

record pending_approval =
  ap_task_id :: u64
  ap_plan_id :: u64
  ap_action_id :: u64
  ap_capability :: string
  ap_rationale :: string

record retry_backoff =
  rb_attempts :: u32
  rb_not_before_epoch_ms :: u64
  rb_base_delay_ms :: u64
  rb_max_delay_ms :: u64

record mobile_continuity_bundle =
  mb_identity :: cognitive_identity
  mb_state :: mobile_continuity_state
  mb_wake_reason :: wake_reason
  mb_checkpoint_sequence :: u64
  mb_cognitive_checkpoint :: "u8 list"
  mb_action_checkpoint :: "u8 list"
  mb_capabilities :: "capability_descriptor list"
  mb_pending_approval :: "pending_approval option"
  mb_retry :: "retry_backoff option"

record 'w restored_mobile_session =
  rs_cognitive :: cognitive_state
  rs_actions :: "'w action_fabric"
  rs_state :: mobile_continuity_state
  rs_wake_reason :: wake_reason
  rs_checkpoint_sequence :: u64
  rs_pending_approval :: "pending_approval option"
  rs_retry :: "retry_backoff option"

text \<open>What \<open>format!("{error:?}")\<close> is applied to.\<close>

datatype debug_text =
    Debug_Checkpoint checkpoint_error
  | Debug_Cognitive cognitive_error
  | Debug_ActionCheckpoint action_checkpoint_error
  | Debug_Fabric action_fabric_error
  | Debug_Capability capability_error

datatype mobile_continuity_error =
    Mcs_Truncated
  | Mcs_InvalidMagic
  | Mcs_InvalidHeader
  | Mcs_UnsupportedVersion u16 u16
  | Mcs_InvalidUtf8
  | Mcs_InvalidBoolean u8
  | Mcs_InvalidContinuityState u8
  | Mcs_InvalidWakeReason u8
  | Mcs_NonCanonicalEncoding
  | Mcs_InvalidIdentity
  | Mcs_InvalidRetryBackoff
  | Mcs_InvalidApproval
  | Mcs_TaskActionMismatch u64
  | Mcs_Overflow
  | Mcs_CognitiveCheckpoint debug_text
  | Mcs_ActionCheckpoint debug_text

definition mcs97_magic :: "u8 list" where
  "mcs97_magic = [77, 67, 83, 57, 55, 0]"

definition mcs97_major :: u16 where
  "mcs97_major = 0"

definition mcs97_minor :: u16 where
  "mcs97_minor = 2"

definition mcs_cerr :: "mobile_continuity_error cerr" where
  "mcs_cerr = \<lparr>trunc = Mcs_Truncated, ovfl = Mcs_Overflow\<rparr>"

definition mcs_ferr :: "mobile_continuity_error frame_err" where
  "mcs_ferr = \<lparr>fe_cursor = mcs_cerr, fe_magic = Mcs_InvalidMagic, fe_header = Mcs_InvalidHeader,
     fe_version = Mcs_UnsupportedVersion, fe_canonical = Mcs_NonCanonicalEncoding\<rparr>"

text \<open>The discriminants that \<open>as u8\<close> yields, and back.\<close>

fun continuity_state_tag :: "mobile_continuity_state \<Rightarrow> u8" where
  "continuity_state_tag M_Interactive = 1"
| "continuity_state_tag M_ActiveExecution = 2"
| "continuity_state_tag M_Checkpointed = 3"
| "continuity_state_tag M_SuspendedByOs = 4"
| "continuity_state_tag M_WaitingCondition = 5"
| "continuity_state_tag M_WaitingApproval = 6"
| "continuity_state_tag M_Reconstructing = 7"
| "continuity_state_tag M_VerifyingResume = 8"
| "continuity_state_tag M_Completed = 9"
| "continuity_state_tag M_FailedRecoverable = 10"

definition continuity_state_try_from :: "u8 \<Rightarrow> mobile_continuity_error + mobile_continuity_state" where
  "continuity_state_try_from v =
    (if v = 1 then Inr M_Interactive else if v = 2 then Inr M_ActiveExecution
     else if v = 3 then Inr M_Checkpointed else if v = 4 then Inr M_SuspendedByOs
     else if v = 5 then Inr M_WaitingCondition else if v = 6 then Inr M_WaitingApproval
     else if v = 7 then Inr M_Reconstructing else if v = 8 then Inr M_VerifyingResume
     else if v = 9 then Inr M_Completed else if v = 10 then Inr M_FailedRecoverable
     else Inl (Mcs_InvalidContinuityState v))"

fun wake_reason_tag :: "wake_reason \<Rightarrow> u8" where
  "wake_reason_tag W_UserInteraction = 1"
| "wake_reason_tag W_ForegroundExecution = 2"
| "wake_reason_tag W_ScheduledWork = 3"
| "wake_reason_tag W_RetryBackoff = 4"
| "wake_reason_tag W_Reboot = 5"
| "wake_reason_tag W_ApprovalResolved = 6"
| "wake_reason_tag W_NetworkAvailable = 7"
| "wake_reason_tag W_Charging = 8"
| "wake_reason_tag W_ManualRecovery = 9"

definition wake_reason_try_from :: "u8 \<Rightarrow> mobile_continuity_error + wake_reason" where
  "wake_reason_try_from v =
    (if v = 1 then Inr W_UserInteraction else if v = 2 then Inr W_ForegroundExecution
     else if v = 3 then Inr W_ScheduledWork else if v = 4 then Inr W_RetryBackoff
     else if v = 5 then Inr W_Reboot else if v = 6 then Inr W_ApprovalResolved
     else if v = 7 then Inr W_NetworkAvailable else if v = 8 then Inr W_Charging
     else if v = 9 then Inr W_ManualRecovery else Inl (Mcs_InvalidWakeReason v))"

fun domain_tag :: "capability_domain \<Rightarrow> u8" where
  "domain_tag DomWeb = 1"
| "domain_tag DomBrowser = 2"
| "domain_tag DomFile = 3"
| "domain_tag DomDevice = 4"
| "domain_tag DomApp = 5"
| "domain_tag DomCustom = 6"
| "domain_tag DomPc = 7"

fun mcs_encode_side_effect :: "side_effect_class \<Rightarrow> u8" where
  "mcs_encode_side_effect ReadOnly = 1"
| "mcs_encode_side_effect Reversible = 2"
| "mcs_encode_side_effect ExternalWrite = 3"
| "mcs_encode_side_effect Irreversible = 4"

definition mcs_decode_side_effect :: "u8 \<Rightarrow> mobile_continuity_error + side_effect_class" where
  "mcs_decode_side_effect v =
    (if v = 1 then Inr ReadOnly else if v = 2 then Inr Reversible else if v = 3 then Inr ExternalWrite
     else if v = 4 then Inr Irreversible else Inl Mcs_NonCanonicalEncoding)"

section \<open>Retry windows and approvals\<close>

definition next_delay_ms :: "retry_backoff \<Rightarrow> u64" where
  "next_delay_ms r =
    (let exponent = min (rb_attempts r) 20 in
     min (saturating_mul (rb_base_delay_ms r) (push_bit (unat exponent) 1)) (rb_max_delay_ms r))"

definition retry_validate :: "retry_backoff \<Rightarrow> mobile_continuity_error + unit" where
  "retry_validate r =
    (if rb_base_delay_ms r = 0 \<or> rb_max_delay_ms r < rb_base_delay_ms r
     then Inl Mcs_InvalidRetryBackoff else Inr ())"

definition validate_approval :: "pending_approval \<Rightarrow> mobile_continuity_error + unit" where
  "validate_approval a =
    (if ap_task_id a = 0 \<or> ap_plan_id a = 0 \<or> ap_action_id a = 0
       \<or> blank (ap_capability a) \<or> blank (ap_rationale a)
     then Inl Mcs_InvalidApproval else Inr ())"

text \<open>\<open>if let Some(x) = value { check(x)?; }\<close>\<close>

definition if_some :: "'a option \<Rightarrow> ('a \<Rightarrow> 'e + unit) \<Rightarrow> 'e + unit" where
  "if_some v check = (case v of Some a \<Rightarrow> check a | None \<Rightarrow> Inr ())"

text \<open>The loop over the plans, and the link of an approval to a planned action.\<close>

fun check_plan_tasks ::
    "(u64, cognitive_task) btmap \<Rightarrow> action_plan_state list \<Rightarrow> mobile_continuity_error + unit" where
  "check_plan_tasks tasks [] = Inr ()"
| "check_plan_tasks tasks (p # ps) =
    (if \<not> bt_contains tasks (ps_task_id p) then Inl (Mcs_TaskActionMismatch (ps_task_id p))
     else check_plan_tasks tasks ps)"

definition validate_links ::
    "cognitive_state \<Rightarrow> action_fabric_state \<Rightarrow> pending_approval option \<Rightarrow> mobile_continuity_error + unit" where
  "validate_links cognitive actions approval =
    rbind (check_plan_tasks (cs_tasks cognitive) (bt_values (fs_plans actions))) (\<lambda>_.
    if_some approval (\<lambda>a.
      rbind (validate_approval a) (\<lambda>_.
      rbind (ok_or Mcs_InvalidApproval (bt_get (fs_plans actions) (ap_plan_id a))) (\<lambda>p.
      if ps_task_id p \<noteq> ap_task_id a
        \<or> \<not> list_ex (\<lambda>x. pa_id x = ap_action_id a \<and> pa_capability x = ap_capability a) (ps_actions p)
      then Inl Mcs_InvalidApproval else Inr ()))))"

section \<open>Bundles\<close>

fun register_each ::
    "capability_descriptor list \<Rightarrow> capability_registry \<Rightarrow> mobile_continuity_error + capability_registry" where
  "register_each [] registry = Inr registry"
| "register_each (d # ds) registry = (case register d registry of
      (Inl e, _) \<Rightarrow> Inl (Mcs_ActionCheckpoint (Debug_Capability e))
    | (Inr _, registry') \<Rightarrow> register_each ds registry')"

definition registry_from_snapshot ::
    "capability_descriptor list \<Rightarrow> mobile_continuity_error + capability_registry" where
  "registry_from_snapshot descriptors = register_each descriptors registry_new"

definition validate_bundle :: "mobile_continuity_bundle \<Rightarrow> mobile_continuity_error + unit" where
  "validate_bundle b =
    (if mb_checkpoint_sequence b = 0 \<or> mb_cognitive_checkpoint b = [] \<or> mb_action_checkpoint b = []
     then Inl Mcs_NonCanonicalEncoding
     else if \<not> successively (\<lambda>x y. cd_id x < cd_id y) (mb_capabilities b) then Inl Mcs_NonCanonicalEncoding
     else
     rbind (registry_from_snapshot (mb_capabilities b)) (\<lambda>registry.
     rbind (map_err (Mcs_ActionCheckpoint \<circ> Debug_ActionCheckpoint)
       (decode_action_fabric_checkpoint registry (mb_action_checkpoint b))) (\<lambda>_.
     rbind (if_some (mb_retry b) retry_validate) (\<lambda>_.
     rbind (if_some (mb_pending_approval b) (\<lambda>a.
       rbind (validate_approval a) (\<lambda>_.
       if mb_state b \<noteq> M_WaitingApproval then Inl Mcs_InvalidApproval else Inr ()))) (\<lambda>_.
     if mb_state b = M_WaitingApproval \<and> mb_pending_approval b = None then Inl Mcs_InvalidApproval
     else Inr ())))))"

definition build_mobile_continuity_bundle ::
    "cognitive_state \<Rightarrow> capability_registry \<Rightarrow> action_fabric_state \<Rightarrow> mobile_continuity_state \<Rightarrow> wake_reason
      \<Rightarrow> u64 \<Rightarrow> pending_approval option \<Rightarrow> retry_backoff option \<Rightarrow> mobile_continuity_error + mobile_continuity_bundle" where
  "build_mobile_continuity_bundle cognitive registry actions state reason sequence approval retry =
    (if sequence = 0 then Inl Mcs_NonCanonicalEncoding else
    rbind (if_some retry retry_validate) (\<lambda>_.
    rbind (map_err (Mcs_CognitiveCheckpoint \<circ> Debug_Checkpoint) (encode_cognitive_checkpoint cognitive)) (\<lambda>cog.
    rbind (map_err (Mcs_ActionCheckpoint \<circ> Debug_ActionCheckpoint)
      (encode_action_fabric_checkpoint registry actions)) (\<lambda>act.
    rbind (validate_links cognitive actions approval) (\<lambda>_.
    let b = \<lparr>mb_identity = cs_identity cognitive, mb_state = state, mb_wake_reason = reason,
      mb_checkpoint_sequence = sequence, mb_cognitive_checkpoint = cog, mb_action_checkpoint = act,
      mb_capabilities = bt_values registry, mb_pending_approval = approval, mb_retry = retry\<rparr> in
    rbind (validate_bundle b) (\<lambda>_. Inr b))))))"

definition restore_mobile_continuity_bundle ::
    "mobile_continuity_bundle \<Rightarrow> mobile_continuity_error + 'w restored_mobile_session" where
  "restore_mobile_continuity_bundle b =
    rbind (validate_bundle b) (\<lambda>_.
    rbind (registry_from_snapshot (mb_capabilities b)) (\<lambda>registry.
    rbind (map_err (Mcs_CognitiveCheckpoint \<circ> Debug_Checkpoint)
      (decode_cognitive_checkpoint (mb_cognitive_checkpoint b))) (\<lambda>state.
    if cs_identity state \<noteq> mb_identity b then Inl Mcs_InvalidIdentity else
    rbind (map_err (Mcs_CognitiveCheckpoint \<circ> Debug_Cognitive) (runtime_from_state state)) (\<lambda>cognitive.
    rbind (map_err (Mcs_ActionCheckpoint \<circ> Debug_ActionCheckpoint)
      (decode_action_fabric_checkpoint registry (mb_action_checkpoint b))) (\<lambda>action_state.
    rbind (validate_links cognitive action_state (mb_pending_approval b)) (\<lambda>_.
    rbind (map_err (Mcs_ActionCheckpoint \<circ> Debug_Fabric) (fabric_from_state registry action_state)) (\<lambda>actions.
    Inr \<lparr>rs_cognitive = cognitive, rs_actions = actions, rs_state = mb_state b,
      rs_wake_reason = mb_wake_reason b, rs_checkpoint_sequence = mb_checkpoint_sequence b,
      rs_pending_approval = mb_pending_approval b, rs_retry = mb_retry b\<rparr>)))))))"

section \<open>The byte format\<close>

abbreviation mcs_str :: "string \<Rightarrow> mobile_continuity_error enc" where
  "mcs_str \<equiv> push_string Mcs_Overflow"

definition push_descriptor :: "capability_descriptor \<Rightarrow> mobile_continuity_error enc" where
  "push_descriptor d =
    eseq (mcs_str (cd_id d))
    (eseq (push_u32 (cd_version d))
    (eseq (push_u8 (domain_tag (cd_domain d)))
    (eseq (push_u8 (mcs_encode_side_effect (cd_side_effect d)))
    (eseq (push_bool (cd_verification_required d))
    (eseq (push_bool (cd_rollback_supported d))
    (eseq (push_bool (cd_resumable d))
    (eseq (push_len Mcs_Overflow (length (cd_required_scopes d)))
    (push_each mcs_str (cd_required_scopes d)))))))))"

definition push_capabilities :: "capability_descriptor list \<Rightarrow> mobile_continuity_error enc" where
  "push_capabilities ds = eseq (push_len Mcs_Overflow (length ds)) (push_each push_descriptor ds)"

definition push_approval :: "pending_approval \<Rightarrow> mobile_continuity_error enc" where
  "push_approval a =
    eseq (push_u64 (ap_task_id a))
    (eseq (push_u64 (ap_plan_id a))
    (eseq (push_u64 (ap_action_id a))
    (eseq (mcs_str (ap_capability a))
    (mcs_str (ap_rationale a)))))"

definition push_retry :: "retry_backoff \<Rightarrow> mobile_continuity_error enc" where
  "push_retry r =
    eseq (push_u32 (rb_attempts r))
    (eseq (push_u64 (rb_not_before_epoch_ms r))
    (eseq (push_u64 (rb_base_delay_ms r))
    (push_u64 (rb_max_delay_ms r))))"

definition mcs_payload :: "mobile_continuity_bundle \<Rightarrow> mobile_continuity_error enc" where
  "mcs_payload b =
    eseq (push_raw (mb_identity b))
    (eseq (push_u8 (continuity_state_tag (mb_state b)))
    (eseq (push_u8 (wake_reason_tag (mb_wake_reason b)))
    (eseq (push_u16 0)
    (eseq (push_u64 (mb_checkpoint_sequence b))
    (eseq (push_bytes Mcs_Overflow (mb_cognitive_checkpoint b))
    (eseq (push_bytes Mcs_Overflow (mb_action_checkpoint b))
    (eseq (push_capabilities (mb_capabilities b))
    (eseq (push_option push_approval (mb_pending_approval b))
    (push_option push_retry (mb_retry b))))))))))"

definition encode_mobile_continuity_bundle :: "mobile_continuity_bundle \<Rightarrow> mobile_continuity_error enc" where
  "encode_mobile_continuity_bundle b =
    rbind (validate_bundle b) (\<lambda>_.
    rbind (mcs_payload b) (\<lambda>payload.
    frame_encode mcs_ferr mcs97_magic mcs97_major mcs97_minor payload))"

abbreviation mcs_string :: "(mobile_continuity_error, string) dec" where
  "mcs_string \<equiv> take_string mcs_cerr Mcs_InvalidUtf8"

abbreviation mcs_boolean :: "(mobile_continuity_error, bool) dec" where
  "mcs_boolean \<equiv> take_bool mcs_cerr Mcs_InvalidBoolean"

abbreviation mcs_capability :: "capability_error + 'a \<Rightarrow> mobile_continuity_error + 'a" where
  "mcs_capability \<equiv> map_err (Mcs_ActionCheckpoint \<circ> Debug_Capability)"

definition take_scope :: "(mobile_continuity_error, authority_scope) dec" where
  "take_scope = dbind mcs_string (\<lambda>s. dlift (mcs_capability (authority_scope_new s)))"

text \<open>The fields of a descriptor after its identifier, and its normal form.\<close>

definition take_descriptor :: "capability_id \<Rightarrow> (mobile_continuity_error, capability_descriptor) dec" where
  "take_descriptor i =
    dbind (take_u32 mcs_cerr) (\<lambda>version.
    dbind (take_u8 mcs_cerr) (\<lambda>raw_domain.
    dbind (dlift (mcs_capability (domain_try_from raw_domain))) (\<lambda>dmn.
    dbind (take_u8 mcs_cerr) (\<lambda>raw_effect.
    dbind (dlift (mcs_decode_side_effect raw_effect)) (\<lambda>side_effect.
    dbind mcs_boolean (\<lambda>verification_required.
    dbind mcs_boolean (\<lambda>rollback_supported.
    dbind mcs_boolean (\<lambda>resumable.
    dbind (dbind (take_u32 mcs_cerr) (\<lambda>scope_count. take_n (unat scope_count) take_scope)) (\<lambda>required_scopes.
    dbind (dlift (mcs_capability (capability_descriptor_new i version dmn side_effect))) (\<lambda>d0.
    (case normalize (d0\<lparr>cd_verification_required := verification_required,
        cd_rollback_supported := rollback_supported, cd_resumable := resumable,
        cd_required_scopes := required_scopes\<rparr>) of
      (r, d) \<Rightarrow> dbind (dlift (mcs_capability r)) (\<lambda>_. dret d))))))))))))"

fun take_capabilities ::
    "nat \<Rightarrow> string option \<Rightarrow> (mobile_continuity_error, capability_descriptor list) dec" where
  "take_capabilities 0 previous = dret []"
| "take_capabilities (Suc n) previous =
    dbind mcs_string (\<lambda>i.
    if blank i \<or> (case previous of Some p \<Rightarrow> i \<le> p | None \<Rightarrow> False) then dfail Mcs_NonCanonicalEncoding
    else
    dbind (take_descriptor i) (\<lambda>d.
    dbind (take_capabilities n (Some i)) (\<lambda>ds. dret (d # ds))))"

definition take_approval :: "(mobile_continuity_error, pending_approval) dec" where
  "take_approval =
    dbind (take_u64 mcs_cerr) (\<lambda>task_id.
    dbind (take_u64 mcs_cerr) (\<lambda>plan_id.
    dbind (take_u64 mcs_cerr) (\<lambda>action_id.
    dbind mcs_string (\<lambda>capability.
    dbind mcs_string (\<lambda>rationale.
    dret \<lparr>ap_task_id = task_id, ap_plan_id = plan_id, ap_action_id = action_id,
      ap_capability = capability, ap_rationale = rationale\<rparr>)))))"

definition take_retry :: "(mobile_continuity_error, retry_backoff) dec" where
  "take_retry =
    dbind (take_u32 mcs_cerr) (\<lambda>attempts.
    dbind (take_u64 mcs_cerr) (\<lambda>not_before.
    dbind (take_u64 mcs_cerr) (\<lambda>base_delay.
    dbind (take_u64 mcs_cerr) (\<lambda>max_delay.
    dret \<lparr>rb_attempts = attempts, rb_not_before_epoch_ms = not_before, rb_base_delay_ms = base_delay,
      rb_max_delay_ms = max_delay\<rparr>))))"

definition mcs_body :: "(mobile_continuity_error, mobile_continuity_bundle) dec" where
  "mcs_body =
    dbind (take_bytes mcs_cerr 16) (\<lambda>ident.
    dbind (take_u8 mcs_cerr) (\<lambda>raw_state.
    dbind (dlift (continuity_state_try_from raw_state)) (\<lambda>state.
    dbind (take_u8 mcs_cerr) (\<lambda>raw_reason.
    dbind (dlift (wake_reason_try_from raw_reason)) (\<lambda>reason.
    dbind (take_u16 mcs_cerr) (\<lambda>reserved.
    if reserved \<noteq> 0 then dfail Mcs_NonCanonicalEncoding else
    dbind (take_u64 mcs_cerr) (\<lambda>sequence.
    dbind (take_blob mcs_cerr) (\<lambda>cog.
    dbind (take_blob mcs_cerr) (\<lambda>act.
    dbind (dbind (take_u32 mcs_cerr) (\<lambda>count. take_capabilities (unat count) None)) (\<lambda>capabilities.
    dbind (take_option mcs_cerr Mcs_InvalidBoolean take_approval) (\<lambda>approval.
    dbind (take_option mcs_cerr Mcs_InvalidBoolean take_retry) (\<lambda>retry.
    dret \<lparr>mb_identity = ident, mb_state = state, mb_wake_reason = reason,
      mb_checkpoint_sequence = sequence, mb_cognitive_checkpoint = cog, mb_action_checkpoint = act,
      mb_capabilities = capabilities, mb_pending_approval = approval, mb_retry = retry\<rparr>))))))))))))"

definition decode_mobile_continuity_bundle :: "u8 list \<Rightarrow> mobile_continuity_error + mobile_continuity_bundle" where
  "decode_mobile_continuity_bundle bytes =
    rbind (frame_decode mcs_ferr mcs97_magic mcs97_major mcs97_minor bytes) (\<lambda>payload.
    rbind (decode_all Mcs_NonCanonicalEncoding mcs_body payload) (\<lambda>b.
    rbind (validate_bundle b) (\<lambda>_. Inr b)))"

section \<open>Tags round-trip\<close>

lemma mcs_tags:
  "continuity_state_try_from v = Inr cs \<longleftrightarrow> v = continuity_state_tag cs"
  "wake_reason_try_from v = Inr wr \<longleftrightarrow> v = wake_reason_tag wr"
  "domain_try_from v = Inr dm \<longleftrightarrow> v = domain_tag dm"
  "mcs_decode_side_effect v = Inr se \<longleftrightarrow> v = mcs_encode_side_effect se"
proof -
  show "continuity_state_try_from v = Inr cs \<longleftrightarrow> v = continuity_state_tag cs"
    by (cases cs) (auto simp: continuity_state_try_from_def)
  show "wake_reason_try_from v = Inr wr \<longleftrightarrow> v = wake_reason_tag wr"
    by (cases wr) (auto simp: wake_reason_try_from_def)
  show "domain_try_from v = Inr dm \<longleftrightarrow> v = domain_tag dm"
    by (cases dm) (auto simp: domain_try_from_def)
  show "mcs_decode_side_effect v = Inr se \<longleftrightarrow> v = mcs_encode_side_effect se"
    by (cases se) (auto simp: mcs_decode_side_effect_def)
qed

lemma mcs_tags_back [simp]:
  "continuity_state_try_from (continuity_state_tag cs) = Inr cs"
  "wake_reason_try_from (wake_reason_tag wr) = Inr wr"
  "domain_try_from (domain_tag dm) = Inr dm"
  "mcs_decode_side_effect (mcs_encode_side_effect se) = Inr se"
  by (simp_all add: mcs_tags)

section \<open>Descriptors round-trip\<close>

text \<open>Every string of a descriptor is a Rust string.\<close>

definition descriptor_strs :: "capability_descriptor \<Rightarrow> bool" where
  "descriptor_strs d \<longleftrightarrow> str_ok (cd_id d) \<and> list_all str_ok (cd_required_scopes d)"

interpretation scope_codec: codec "\<lambda>s. str_ok s \<and> s \<noteq> [] \<and> trim s = s" mcs_str take_scope
proof unfold_locales
  fix s bs
  assume s: "str_ok s \<and> s \<noteq> [] \<and> trim s = s" and enc: "mcs_str s = Inr bs"
  then have "reads mcs_string bs s" by (auto intro: reads_string)
  then show "reads take_scope bs s"
    unfolding take_scope_def using s
    by (intro reads_dbind_last reads_dlift) (auto simp: authority_scope_new_def Let_def)
qed

lemma reads_descriptor:
  assumes norm: "descriptor_normal d" and strs: "descriptor_strs d" and enc: "push_descriptor d = Inr bs"
  shows "\<exists>b1 b2. bs = b1 @ b2 \<and> reads mcs_string b1 (cd_id d) \<and> reads (take_descriptor (cd_id d)) b2 d"
proof -
  let ?scopes = "eseq (push_len Mcs_Overflow (length (cd_required_scopes d))) (push_each mcs_str (cd_required_scopes d))"
  obtain b3 where b3: "?scopes = Inr b3" using enc unfolding push_descriptor_def by (auto simp only: eseq_eq_Inr)
  let ?flag = "\<lambda>v. [if v then 1 else 0] :: u8 list"
  have flag: "push_bool v = Inr (?flag v)" for v :: bool by (simp add: push_bool_def)
  from enc obtain b1 where b1: "mcs_str (cd_id d) = Inr b1"
    and bs: "bs = b1 @ u32_le (cd_version d) @ domain_tag (cd_domain d) # mcs_encode_side_effect (cd_side_effect d)
      # ?flag (cd_verification_required d) @ ?flag (cd_rollback_supported d) @ ?flag (cd_resumable d) @ b3"
    unfolding push_descriptor_def b3 flag by auto
  have scopes: "reads (dbind (take_u32 mcs_cerr) (\<lambda>n. take_n (unat n) take_scope)) b3 (cd_required_scopes d)"
    using b3 norm strs
    by (intro scope_codec.counted) (auto simp: descriptor_normal_def descriptor_strs_def list_all_iff)
  have fresh: "capability_descriptor_new (cd_id d) (cd_version d) (cd_domain d) (cd_side_effect d) =
      Inr (d\<lparr>cd_verification_required := True, cd_rollback_supported := False, cd_resumable := False,
        cd_required_scopes := []\<rparr>)"
    using norm by (cases d) (auto simp: capability_descriptor_new_def descriptor_normal_def blank_def)
  have "reads (take_descriptor (cd_id d))
      (u32_le (cd_version d) @ domain_tag (cd_domain d) # mcs_encode_side_effect (cd_side_effect d)
        # ?flag (cd_verification_required d) @ ?flag (cd_rollback_supported d) @ ?flag (cd_resumable d) @ b3) d"
    unfolding take_descriptor_def
    apply (intro reads_words)
    apply (simp only: mcs_tags_back map_err_simps dbind_dlift)
    apply (intro reads_words)
    apply (simp only: mcs_tags_back dbind_dlift)
    apply (rule reads_dbind [OF reads_bool [OF flag]])+
    apply (rule reads_dbind_last [OF scopes])
    using normalize_of_normal [OF norm]
    apply (simp add: fresh reads_dret)
    done
  moreover have "reads mcs_string b1 (cd_id d)"
    using b1 strs by (auto simp: descriptor_strs_def intro: reads_string)
  ultimately show ?thesis unfolding bs by blast
qed

lemma reads_capabilities:
  assumes "list_all (\<lambda>d. descriptor_normal d \<and> descriptor_strs d) ds"
    and "successively (\<lambda>x y. cd_id x < cd_id y) ds"
    and "\<And>p. previous = Some p \<Longrightarrow> ds \<noteq> [] \<Longrightarrow> p < cd_id (hd ds)"
    and "push_each push_descriptor ds = Inr bs"
  shows "reads (take_capabilities (length ds) previous) bs ds"
  using assms
proof (induction ds arbitrary: previous bs)
  case Nil
  then show ?case by (simp add: reads_dret)
next
  case (Cons d ds)
  from Cons.prems(4) obtain b b' where enc: "push_descriptor d = Inr b" "push_each push_descriptor ds = Inr b'"
      and bs: "bs = b @ b'" by auto
  from Cons.prems(1) have d: "descriptor_normal d" "descriptor_strs d" by simp_all
  from reads_descriptor [OF this enc(1)] obtain b1 b2 where b: "b = b1 @ b2"
      and head: "reads mcs_string b1 (cd_id d)" and body: "reads (take_descriptor (cd_id d)) b2 d"
    by blast
  have rest: "reads (take_capabilities (length ds) (Some (cd_id d))) b' ds"
    using Cons.prems enc(2) by (intro Cons.IH) (auto simp: successively_Cons)
  have "\<not> blank (cd_id d)" using d(1) by (simp add: descriptor_normal_def blank_def)
  moreover have "\<not> (case previous of Some p \<Rightarrow> cd_id d \<le> p | None \<Rightarrow> False)"
    using Cons.prems(3) by (auto split: option.splits)
  moreover have "reads (dbind (take_descriptor (cd_id d)) (\<lambda>d. dbind (take_capabilities (length ds) (Some (cd_id d')))
      (\<lambda>ds. dret (d # ds)))) (b2 @ b') (d # ds)" if "d' = d" for d'
    unfolding that by (rule reads_dbind [OF body], rule reads_dbind_last [OF rest], rule reads_dret)
  ultimately show ?case
    unfolding bs b append.assoc by (auto intro!: reads_dbind [OF head])
qed

section \<open>The registry survives as a snapshot\<close>

lemma register_normal:
  assumes "descriptor_normal d" and "bt_get r (cd_id d) = None"
  shows "register d r = (Inr (), bt_insert (cd_id d) d r)"
  using assms by (simp add: register_result normalize_of_normal bt_contains_def)

lemma register_each_snapshot:
  "registry_wf (m1 @ m2) \<Longrightarrow> register_each (bt_values m2) m1 = Inr (m1 @ m2)"
proof (induction m2 arbitrary: m1)
  case Nil
  then show ?case by (simp add: bt_values_def)
next
  case (Cons e m2)
  obtain k d where e: "e = (k, d)" by (cases e)
  from Cons.prems have d: "k = cd_id d" "descriptor_normal d" by (auto simp: registry_wf_def e)
  have below: "\<And>x. x \<in> set m1 \<Longrightarrow> fst x < k"
    using Cons.prems by (auto simp: registry_wf_def bt_wf_def e sorted_wrt_append)
  then have fresh: "bt_get m1 (cd_id d) = None" unfolding d(1) by (force simp: map_of_eq_None_iff)
  have "bt_insert (cd_id d) d m1 = m1 @ [(k, d)]" using bt_insert_last [of m1 k d] below d(1) by simp
  with Cons.IH [of "m1 @ [(k, d)]"] Cons.prems register_normal [OF d(2) fresh] show ?case
    by (simp add: bt_values_def e)
qed

lemma registry_from_snapshot_values: "registry_wf r \<Longrightarrow> registry_from_snapshot (bt_values r) = Inr r"
  using register_each_snapshot [of "[]" r] by (simp add: registry_from_snapshot_def registry_new_def)

text \<open>Whatever a snapshot registers is a registry.\<close>

lemma register_wf: "registry_wf r \<Longrightarrow> register d r = (res, r') \<Longrightarrow> registry_wf r'"
  by (auto simp: register_result normalize_normal registry_wf_insert split: prod.splits sum.splits if_splits)

lemma register_each_wf: "registry_wf r \<Longrightarrow> register_each ds r = Inr r' \<Longrightarrow> registry_wf r'"
  by (induction ds arbitrary: r) (auto split: prod.splits sum.splits dest: register_wf)

lemma registry_from_snapshot_wf: "registry_from_snapshot ds = Inr r \<Longrightarrow> registry_wf r"
  unfolding registry_from_snapshot_def by (rule register_each_wf [OF registry_wf_new])

section \<open>Bundles round-trip\<close>

definition approval_strs :: "pending_approval \<Rightarrow> bool" where
  "approval_strs a \<longleftrightarrow> str_ok (ap_capability a) \<and> str_ok (ap_rationale a)"

text \<open>
  A bundle in the form that \<open>build_mobile_continuity_bundle\<close> and the decoder produce: it passes
  validation, its descriptors are in normal form and its strings are Rust strings.
\<close>

definition bundle_ok :: "mobile_continuity_bundle \<Rightarrow> bool" where
  "bundle_ok b \<longleftrightarrow> validate_bundle b = Inr () \<and> length (mb_identity b) = 16
    \<and> list_all (\<lambda>d. descriptor_normal d \<and> descriptor_strs d) (mb_capabilities b)
    \<and> pred_option approval_strs (mb_pending_approval b)"

interpretation approval_codec: canonical_codec approval_strs push_approval take_approval
proof unfold_locales
  fix a bs assume a: "approval_strs a" "push_approval a = Inr bs"
  then obtain b1 b2 where b: "mcs_str (ap_capability a) = Inr b1" "mcs_str (ap_rationale a) = Inr b2"
      and bs: "bs = u64_le (ap_task_id a) @ u64_le (ap_plan_id a) @ u64_le (ap_action_id a) @ b1 @ b2"
    by (auto simp: push_approval_def)
  have strs: "str_ok (ap_capability a)" "str_ok (ap_rationale a)" using a(1) by (simp_all add: approval_strs_def)
  show "reads take_approval bs a"
    unfolding take_approval_def bs
    apply (intro reads_words)
    apply (rule reads_dbind [OF reads_string [OF b(1) strs(1)]])
    apply (rule reads_dbind_last [OF reads_string [OF b(2) strs(2)]])
    apply (cases a, simp add: reads_dret)
    done
next
  show "accepts take_approval (\<lambda>a bs. approval_strs a \<and> push_approval a = Inr bs)"
    unfolding take_approval_def
    by (intro accepts_words accepts_dbind [OF accepts_string [where ovf = Mcs_Overflow]] accepts_dret)
      (auto simp: push_approval_def approval_strs_def)
qed

interpretation retry_codec: canonical_codec "\<lambda>_. True" push_retry take_retry
proof unfold_locales
  fix r bs assume "push_retry r = Inr bs"
  then show "reads take_retry bs r"
    unfolding take_retry_def push_retry_def
    by (cases r) (auto intro!: reads_words reads_dbind_last [OF reads_u64] reads_dret)
next
  show "accepts take_retry (\<lambda>r bs. True \<and> push_retry r = Inr bs)"
    unfolding take_retry_def by (intro accepts_words accepts_dret) (auto simp: push_retry_def)
qed

lemma validate_bundle_ascending:
  "validate_bundle b = Inr () \<Longrightarrow> successively (\<lambda>x y. cd_id x < cd_id y) (mb_capabilities b)"
  by (auto simp: validate_bundle_def split: if_splits)

lemma reads_mcs_body:
  assumes ok: "bundle_ok b" and enc: "mcs_payload b = Inr bs"
  shows "reads mcs_body bs b"
proof -
  from ok have parts: "length (mb_identity b) = 16" "pred_option approval_strs (mb_pending_approval b)"
      "list_all (\<lambda>d. descriptor_normal d \<and> descriptor_strs d) (mb_capabilities b)"
      "successively (\<lambda>x y. cd_id x < cd_id y) (mb_capabilities b)"
    by (simp_all add: bundle_ok_def validate_bundle_ascending)
  from enc obtain b1 b2 b3 b4 b5 where n: "int (length (mb_capabilities b)) < 2 ^ 32"
    and bytes: "push_bytes Mcs_Overflow (mb_cognitive_checkpoint b) = Inr b1"
      "push_bytes Mcs_Overflow (mb_action_checkpoint b) = Inr b2"
    and caps: "push_each push_descriptor (mb_capabilities b) = Inr b3"
    and opts: "push_option push_approval (mb_pending_approval b) = Inr b4" "push_option push_retry (mb_retry b) = Inr b5"
    and bs: "bs = mb_identity b @ continuity_state_tag (mb_state b) # wake_reason_tag (mb_wake_reason b)
      # u16_le 0 @ u64_le (mb_checkpoint_sequence b) @ b1 @ b2
      @ (u32_le (of_nat (length (mb_capabilities b))) @ b3) @ b4 @ b5"
    unfolding mcs_payload_def push_capabilities_def
    by (auto simp only: eseq_eq_Inr push_eq_Inr push_len_eq_Inr append_Cons append_Nil append_assoc)
  have capabilities: "reads (dbind (take_u32 mcs_cerr) (\<lambda>count. take_capabilities (unat count) None))
      (u32_le (of_nat (length (mb_capabilities b))) @ b3) (mb_capabilities b)"
    by (rule reads_dbind [OF reads_u32], unfold unat_len [OF n], rule reads_capabilities)
      (use parts caps in auto)
  have approval: "reads (take_option mcs_cerr Mcs_InvalidBoolean take_approval) b4 (mb_pending_approval b)"
    using parts(2) opts(1) by (intro approval_codec.optional) (auto simp: pred_option_iff)
  have retry: "reads (take_option mcs_cerr Mcs_InvalidBoolean take_retry) b5 (mb_retry b)"
    using opts(2) by (intro retry_codec.optional) auto
  show ?thesis
    unfolding mcs_body_def bs
    apply (rule reads_dbind [OF reads_take_bytes [OF parts(1)]])
    apply (intro reads_words)
    apply (simp only: mcs_tags_back dbind_dlift)
    apply (intro reads_words)
    apply (simp only: mcs_tags_back dbind_dlift)
    apply (rule reads_dbind [OF reads_u16])
    apply (simp only: refl not_not if_False not_True_eq_False)
    apply (rule reads_dbind [OF reads_u64])
    apply (rule reads_dbind [OF reads_blob [OF bytes(1)]])
    apply (rule reads_dbind [OF reads_blob [OF bytes(2)]])
    apply (rule reads_dbind [OF capabilities])
    apply (rule reads_dbind [OF approval])
    apply (rule reads_dbind_last [OF retry])
    apply (cases b)
    apply (simp add: reads_dret)
    done
qed

text \<open>What the decoder of a body can return.\<close>

lemma accepts_scope: "accepts take_scope (\<lambda>s _. str_ok s)"
  unfolding take_scope_def
  by (intro accepts_dbind [OF accepts_string [where ovf = Mcs_Overflow]] accepts_dlift)
    (auto simp: authority_scope_new_def Let_def map_err_eq_Inr split: if_splits)

lemma accepts_n: "accepts d (\<lambda>x _. P x) \<Longrightarrow> accepts (take_n n d) (\<lambda>xs _. list_all P xs)"
proof (induction n)
  case (Suc n)
  show ?case
    unfolding take_n.simps
    by (rule accepts_dbind [OF Suc.prems], rule accepts_dbind [OF Suc.IH [OF Suc.prems]], rule accepts_dret) simp
qed (simp add: accepts_dret)

lemma normalize_strs:
  assumes "normalize d = (Inr (), d')"
  shows "descriptor_normal d' \<and> descriptor_strs d'"
  using assms normalize_normal [OF assms] by (auto simp: normalize_Inr descriptor_strs_def list_all_iff)

lemma accepts_descriptor: "accepts (take_descriptor i) (\<lambda>d _. descriptor_normal d \<and> descriptor_strs d)"
  unfolding take_descriptor_def
  apply (rule accepts_words)+
  apply (rule accepts_dbind_dlift)
  apply (rule accepts_words)
  apply (rule accepts_dbind_dlift)
  apply (rule accepts_dbind [OF accepts_bool])+
  apply (rule accepts_dbind)
   apply (rule accepts_dbind [OF accepts_u32])
   apply (rule accepts_n [OF accepts_scope])
  apply (rule accepts_dbind_dlift)
  apply (split prod.split, intro allI impI)
  apply (rule accepts_dbind_dlift)
  apply (rule accepts_dret)
  apply (rule normalize_strs)
  apply (auto simp: map_err_eq_Inr)
  done

lemma accepts_capabilities:
  "accepts (take_capabilities n previous) (\<lambda>ds _. list_all (\<lambda>d. descriptor_normal d \<and> descriptor_strs d) ds)"
proof (induction n arbitrary: previous)
  case (Suc n)
  show ?case
    unfolding take_capabilities.simps
    apply (rule accepts_dbind [OF accepts_string [where ovf = Mcs_Overflow]])
    apply (split if_split, intro conjI impI, rule accepts_dfail)
    apply (rule accepts_dbind [OF accepts_descriptor])
    apply (rule accepts_dbind [OF Suc.IH])
    apply (rule accepts_dret)
    apply simp
    done
qed (simp add: accepts_dret)

lemma accepts_mcs_body:
  "accepts mcs_body (\<lambda>b _. length (mb_identity b) = 16
    \<and> list_all (\<lambda>d. descriptor_normal d \<and> descriptor_strs d) (mb_capabilities b)
    \<and> pred_option approval_strs (mb_pending_approval b)
    \<and> int (length (mb_cognitive_checkpoint b)) < usize_bound \<and> int (length (mb_action_checkpoint b)) < usize_bound)"
  unfolding mcs_body_def
  apply (rule accepts_dbind [OF accepts_take_bytes])
  apply (rule accepts_words)
  apply (rule accepts_dbind_dlift)
  apply (rule accepts_words)
  apply (rule accepts_dbind_dlift)
  apply (rule accepts_words)
  apply (split if_split, intro conjI impI, rule accepts_dfail)
  apply (rule accepts_words)
  apply (rule accepts_dbind [OF accepts_blob [where ovf = Mcs_Overflow]])+
  apply (rule accepts_dbind)
   apply (rule accepts_dbind [OF accepts_u32])
   apply (rule accepts_capabilities)
  apply (rule accepts_dbind [OF approval_codec.optional_accepts])
  apply (rule accepts_dbind [OF retry_codec.optional_accepts])
  apply (rule accepts_dret)
  apply (auto simp: push_bytes_def usize_bound_def pred_option_iff)
  done

lemma decoded_bundle:
  assumes "decode_mobile_continuity_bundle bs = Inr b" and "int (length bs) < usize_bound"
  shows "bundle_ok b \<and> int (length (mb_cognitive_checkpoint b)) < usize_bound
    \<and> int (length (mb_action_checkpoint b)) < usize_bound"
proof -
  from assms(1) obtain payload where
      fr: "frame_decode mcs_ferr mcs97_magic mcs97_major mcs97_minor bs = Inr payload"
    and dec: "decode_all Mcs_NonCanonicalEncoding mcs_body payload = Inr b"
    and val: "validate_bundle b = Inr ()"
    by (auto simp: decode_mobile_continuity_bundle_def)
  have "int (length payload) < usize_bound"
    using fr assms(2) by (auto simp: frame_decode_def split: if_splits)
  from decode_all_accepts [OF accepts_mcs_body dec this] val show ?thesis by (simp add: bundle_ok_def)
qed

lemma decode_encoded_bundle:
  assumes "bundle_ok b" and "encode_mobile_continuity_bundle b = Inr bs"
  shows "decode_mobile_continuity_bundle bs = Inr b"
proof -
  from assms(2) obtain payload where enc: "mcs_payload b = Inr payload"
    and fr: "frame_encode mcs_ferr mcs97_magic mcs97_major mcs97_minor payload = Inr bs"
    and val: "validate_bundle b = Inr ()"
    by (auto simp: encode_mobile_continuity_bundle_def)
  have "frame_decode mcs_ferr mcs97_magic mcs97_major mcs97_minor bs = Inr payload"
    using fr by (rule frame_decode_encode) (simp_all add: mcs97_magic_def)
  moreover have "int (length payload) < usize_bound"
    using fr by (auto simp: frame_encode_def frame_header_len_def split: if_splits)
  then have "decode_all Mcs_NonCanonicalEncoding mcs_body payload = Inr b"
    by (rule decode_all_reads [OF reads_mcs_body [OF assms(1) enc]])
  ultimately show ?thesis using val by (simp add: decode_mobile_continuity_bundle_def)
qed

interpretation mcs: checkpoint bundle_ok encode_mobile_continuity_bundle decode_mobile_continuity_bundle
  by unfold_locales (auto intro: decode_encoded_bundle dest: decoded_bundle)

lemma mcs_payload_overflow: "only Mcs_Overflow (mcs_payload b)"
  by (auto simp: mcs_payload_def push_capabilities_def push_descriptor_def push_approval_def push_retry_def)

lemma encode_bundle_overflow:
  assumes "validate_bundle b = Inr ()" and "encode_mobile_continuity_bundle b = Inl e"
  shows "e = Mcs_Overflow"
  using assms mcs_payload_overflow [of b]
  by (auto simp: encode_mobile_continuity_bundle_def rbind_eq_Inl frame_encode_def frame_header_eq
      only_def mcs_ferr_def mcs_cerr_def eseq_def push_raw_def split: if_splits)

section \<open>Sessions\<close>

text \<open>A running session whose parts satisfy their invariants.\<close>

definition session_ok ::
    "cognitive_state \<Rightarrow> capability_registry \<Rightarrow> action_fabric_state \<Rightarrow> pending_approval option \<Rightarrow> bool" where
  "session_ok s registry st approval \<longleftrightarrow> cog_wf s \<and> state_strs s \<and> registry_wf registry
    \<and> list_all descriptor_strs (bt_values registry) \<and> fabric_valid registry st \<and> fabric_strs st
    \<and> pred_option approval_strs approval"

lemma built_bundle:
  assumes "build_mobile_continuity_bundle s registry st cst reason sequence approval retry = Inr b"
  shows "encode_cognitive_checkpoint s = Inr (mb_cognitive_checkpoint b)"
    "encode_action_fabric_checkpoint registry st = Inr (mb_action_checkpoint b)"
    "validate_links s st approval = Inr ()" "validate_bundle b = Inr ()"
    "mb_identity b = cs_identity s" "mb_capabilities b = bt_values registry"
    "mb_pending_approval b = approval" "mb_state b = cst" "mb_wake_reason b = reason"
    "mb_checkpoint_sequence b = sequence" "mb_retry b = retry"
  using assms by (auto simp: build_mobile_continuity_bundle_def Let_def split: if_splits)

lemma built_bundle_ok:
  assumes ok: "session_ok s registry st approval"
    and build: "build_mobile_continuity_bundle s registry st cst reason sequence approval retry = Inr b"
  shows "bundle_ok b"
proof -
  have "list_all descriptor_normal (bt_values registry)"
    using ok by (auto simp: session_ok_def registry_wf_def list_all_iff bt_values_def)
  with ok built_bundle [OF build] show ?thesis
    by (auto simp: bundle_ok_def session_ok_def state_strs_def list_all_iff)
qed

lemma fabric_valid_accepted: "fabric_valid registry st \<Longrightarrow> validate_fabric_state registry st = Inr ()"
  by (rule validate_fabric_state_valid [THEN iffD2]) (auto simp: fabric_valid_def dest: table_okD(1))

lemma restore_built:
  assumes ok: "session_ok s registry st approval"
    and build: "build_mobile_continuity_bundle s registry st cst reason sequence approval retry = Inr b"
  shows "restore_mobile_continuity_bundle b = Inr \<lparr>rs_cognitive = s,
    rs_actions = \<lparr>af_registry = registry, af_adapters = [], af_state = st\<rparr>, rs_state = cst,
    rs_wake_reason = reason, rs_checkpoint_sequence = sequence, rs_pending_approval = approval, rs_retry = retry\<rparr>"
proof -
  note b = built_bundle [OF build]
  have "decode_cognitive_checkpoint (mb_cognitive_checkpoint b) = Inr s"
    using ok b(1) by (intro sik.restores) (simp_all add: session_ok_def)
  moreover have "decode_action_fabric_checkpoint registry (mb_action_checkpoint b) = Inr st"
    using ok b(2) by (intro taf.restores) (simp_all add: session_ok_def)
  moreover have "registry_from_snapshot (mb_capabilities b) = Inr registry"
    using ok by (simp add: b(6) session_ok_def registry_from_snapshot_values)
  ultimately show ?thesis
    using ok b(3-5,7-11)
    by (simp add: restore_mobile_continuity_bundle_def session_ok_def cog_wf_accepted fabric_from_state_def
        fabric_valid_accepted)
qed

lemma retry_validate_Inr:
  "retry_validate r = Inr () \<longleftrightarrow> 0 < rb_base_delay_ms r \<and> rb_base_delay_ms r \<le> rb_max_delay_ms r"
  by (auto simp: retry_validate_def word_neq_0_conv not_less)

lemma plan_tasks_linked:
  "check_plan_tasks tasks ps = Inr () \<longleftrightarrow> (\<forall>p \<in> set ps. bt_get tasks (ps_task_id p) \<noteq> None)"
  by (induction ps) (auto simp: bt_contains_def)

lemma if_some_Inr: "if_some v f = Inr () \<longleftrightarrow> (\<forall>a. v = Some a \<longrightarrow> f a = Inr ())"
  by (cases v) (simp_all add: if_some_def)

text \<open>A kernel with one task, and the plan of that task, which waits for an approval.\<close>

definition mcs_kernel :: cognitive_state where
  "mcs_kernel = (cognitive_state_new [1, 2, 3, 4, 5, 6, 7, 8, 9, 10, 11, 12, 13, 14, 15, 16])\<lparr>cs_next_task_id := 3,
     cs_tasks := [(2, sample_task\<lparr>ct_id := 2, ct_goal_id := None\<rparr>)]\<rparr>"

definition mcs_fabric :: action_fabric_state where
  "mcs_fabric = \<lparr>fs_next_plan_id = 2, fs_next_action_id = 2, fs_plans = [(1, \<lparr>ps_id = 1, ps_task_id = 2,
     ps_cursor = 0, ps_status = PReady, ps_actions = [sample_action 1 APrepared]\<rparr>)]\<rparr>"

definition mcs_approval :: pending_approval where
  "mcs_approval = \<lparr>ap_task_id = 2, ap_plan_id = 1, ap_action_id = 1, ap_capability = ''c'', ap_rationale = ''why''\<rparr>"

definition mcs_retry :: retry_backoff where
  "mcs_retry = \<lparr>rb_attempts = 3, rb_not_before_epoch_ms = 99, rb_base_delay_ms = 1000, rb_max_delay_ms = 60000\<rparr>"

definition mcs_built :: "mobile_continuity_error + mobile_continuity_bundle" where
  "mcs_built = build_mobile_continuity_bundle mcs_kernel sample_registry mcs_fabric M_WaitingApproval
     W_Reboot 7 (Some mcs_approval) (Some mcs_retry)"

lemma mcs_kernel_ok: "cog_wf mcs_kernel" "state_strs mcs_kernel"
proof -
  show "cog_wf mcs_kernel"
    by (simp add: cog_wf_def table_ok_def mcs_kernel_def sample_task_def cognitive_state_new_def bt_wf_def
        goal_valid_def task_valid_def sample_blanks)
  show "state_strs mcs_kernel"
    by (simp add: state_strs_def mcs_kernel_def cognitive_state_new_def memory_new_def sample_task_def sik_strs) code_simp
qed

lemma sample_registry_wf: "registry_wf sample_registry"
  by (simp add: registry_wf_def sample_registry_def bt_wf_def) code_simp

lemma mcs_session_ok: "session_ok mcs_kernel sample_registry mcs_fabric (Some mcs_approval)"
proof -
  have "validate_fabric_state sample_registry mcs_fabric = Inr ()" by code_simp
  moreover have "bt_wf (fs_plans mcs_fabric)" by code_simp
  ultimately have "fabric_valid sample_registry mcs_fabric" by (simp add: validate_fabric_state_valid)
  moreover have "fabric_strs mcs_fabric" by code_simp
  moreover have "list_all descriptor_strs (bt_values sample_registry)" by code_simp
  moreover have "approval_strs mcs_approval" by code_simp
  ultimately show ?thesis using mcs_kernel_ok sample_registry_wf by (simp add: session_ok_def)
qed

lemma mcs_written:
  obtains b bs where "mcs_built = Inr b" "encode_mobile_continuity_bundle b = Inr bs" "int (length bs) < usize_bound"
proof -
  have "case mcs_built of Inl _ \<Rightarrow> False
    | Inr b \<Rightarrow> (case encode_mobile_continuity_bundle b of Inl _ \<Rightarrow> False | Inr bs \<Rightarrow> int (length bs) < usize_bound)"
    by code_simp
  then show ?thesis using that by (auto split: sum.splits)
qed

text \<open>
  C22: a session survives the death of its process: if the parts of a session satisfy their
  invariants and a bundle is built from it, encoding the bundle fails only with \<open>Overflow\<close>, decoding
  the bytes gives the bundle back, and restoring it gives exactly the same kernel state, registry,
  plans with their tokens, approval and retry window; only the adapters, which are code, are absent.
\<close>

theorem session_survives:
  assumes "session_ok s registry st approval"
    and "build_mobile_continuity_bundle s registry st cst reason sequence approval retry = Inr b"
  shows "(case encode_mobile_continuity_bundle b of
        Inl e \<Rightarrow> e = Mcs_Overflow | Inr bs \<Rightarrow> decode_mobile_continuity_bundle bs = Inr b)
    \<and> restore_mobile_continuity_bundle b = Inr \<lparr>rs_cognitive = s,
        rs_actions = \<lparr>af_registry = registry, af_adapters = [], af_state = st\<rparr>, rs_state = cst,
        rs_wake_reason = reason, rs_checkpoint_sequence = sequence, rs_pending_approval = approval, rs_retry = retry\<rparr>"
proof -
  have ok: "bundle_ok b" by (rule built_bundle_ok [OF assms])
  then have "validate_bundle b = Inr ()" by (simp add: bundle_ok_def)
  then have "case encode_mobile_continuity_bundle b of
      Inl e \<Rightarrow> e = Mcs_Overflow | Inr bs \<Rightarrow> decode_mobile_continuity_bundle bs = Inr b"
    using mcs.restores [OF ok] encode_bundle_overflow [of b] by (simp split: sum.splits)
  then show ?thesis by (intro conjI restore_built [OF assms])
qed

theorem session_survives_witness:
  "\<exists>b bs. mcs_built = Inr b \<and> encode_mobile_continuity_bundle b = Inr bs \<and> decode_mobile_continuity_bundle bs = Inr b
    \<and> map_sum id rs_cognitive (restore_mobile_continuity_bundle b :: _ + unit restored_mobile_session)
      = Inr mcs_kernel"
proof -
  obtain b bs where b: "mcs_built = Inr b" "encode_mobile_continuity_bundle b = Inr bs" "int (length bs) < usize_bound"
    by (rule mcs_written)
  note survives = session_survives [OF mcs_session_ok b(1) [unfolded mcs_built_def]]
  have "map_sum id rs_cognitive (restore_mobile_continuity_bundle b :: _ + unit restored_mobile_session) = Inr mcs_kernel"
    by (simp only: survives [THEN conjunct2] map_sum.simps restored_mobile_session.simps)
  with b(1,2) survives [THEN conjunct1, unfolded b(2) sum.case] show ?thesis by blast
qed

text \<open>
  C28: nothing but sound sessions comes out of stored bytes: whatever bytes decode to a bundle that
  restores, the kernel satisfies its invariant, the registry is well formed, the fabric is valid under
  it, every plan belongs to an existing task, an approval is pending exactly in the state that waits
  for one and names an action of a plan of its task, and a retry window is not empty.
\<close>

theorem restored_session_sound:
  assumes "decode_mobile_continuity_bundle bs = Inr b" and "int (length bs) < usize_bound"
    and "restore_mobile_continuity_bundle b = Inr ses"
  shows "cog_wf (rs_cognitive ses) \<and> registry_wf (af_registry (rs_actions ses))
    \<and> fabric_valid (af_registry (rs_actions ses)) (af_state (rs_actions ses))
    \<and> (\<forall>p \<in> set (bt_values (fs_plans (af_state (rs_actions ses)))).
        bt_get (cs_tasks (rs_cognitive ses)) (ps_task_id p) \<noteq> None)
    \<and> (rs_pending_approval ses \<noteq> None \<longleftrightarrow> rs_state ses = M_WaitingApproval)
    \<and> (\<forall>a. rs_pending_approval ses = Some a \<longrightarrow>
        (\<exists>p. bt_get (fs_plans (af_state (rs_actions ses))) (ap_plan_id a) = Some p \<and> ps_task_id p = ap_task_id a
          \<and> (\<exists>x \<in> set (ps_actions p). pa_id x = ap_action_id a \<and> pa_capability x = ap_capability a)))
    \<and> (\<forall>r. rs_retry ses = Some r \<longrightarrow> 0 < rb_base_delay_ms r \<and> rb_base_delay_ms r \<le> rb_max_delay_ms r)"
proof -
  from assms(3) obtain registry st actions where
      val: "validate_bundle b = Inr ()" and reg: "registry_from_snapshot (mb_capabilities b) = Inr registry"
    and cog: "decode_cognitive_checkpoint (mb_cognitive_checkpoint b) = Inr (rs_cognitive ses)"
    and act: "decode_action_fabric_checkpoint registry (mb_action_checkpoint b) = Inr st"
    and links: "validate_links (rs_cognitive ses) st (mb_pending_approval b) = Inr ()"
    and ses: "rs_actions ses = \<lparr>af_registry = registry, af_adapters = [], af_state = st\<rparr>"
      "rs_state ses = mb_state b" "rs_pending_approval ses = mb_pending_approval b" "rs_retry ses = mb_retry b"
    by (auto simp: restore_mobile_continuity_bundle_def fabric_from_state_def runtime_from_state_def split: if_splits)
  note lens = decoded_bundle [OF assms(1,2)]
  have "cog_wf (rs_cognitive ses)" using sik.sound [OF cog] lens by simp
  moreover have "fabric_valid registry st" using taf.sound [OF act] lens by simp
  moreover have "registry_wf registry" by (rule registry_from_snapshot_wf [OF reg])
  moreover have "mb_pending_approval b \<noteq> None \<longleftrightarrow> mb_state b = M_WaitingApproval"
    using val by (auto simp: validate_bundle_def if_some_Inr split: if_splits)
  moreover have "\<forall>r. mb_retry b = Some r \<longrightarrow> 0 < rb_base_delay_ms r \<and> rb_base_delay_ms r \<le> rb_max_delay_ms r"
    using val by (auto simp: validate_bundle_def if_some_Inr retry_validate_Inr split: if_splits)
  moreover have "\<forall>p \<in> set (bt_values (fs_plans st)). bt_get (cs_tasks (rs_cognitive ses)) (ps_task_id p) \<noteq> None"
    using links by (auto simp: validate_links_def plan_tasks_linked)
  moreover have "\<exists>p. bt_get (fs_plans st) (ap_plan_id a) = Some p \<and> ps_task_id p = ap_task_id a
      \<and> (\<exists>x \<in> set (ps_actions p). pa_id x = ap_action_id a \<and> pa_capability x = ap_capability a)"
    if "mb_pending_approval b = Some a" for a
    using links that by (auto simp: validate_links_def if_some_Inr list_ex_iff split: if_splits)
  ultimately show ?thesis unfolding ses by simp
qed

theorem restored_session_sound_witness:
  "\<exists>ses :: unit restored_mobile_session. rs_cognitive ses = mcs_kernel
    \<and> cog_wf (rs_cognitive ses) \<and> fabric_valid (af_registry (rs_actions ses)) (af_state (rs_actions ses))"
proof -
  obtain b bs where b: "mcs_built = Inr b" "encode_mobile_continuity_bundle b = Inr bs" "int (length bs) < usize_bound"
    by (rule mcs_written)
  note built = b(1) [unfolded mcs_built_def]
  have dec: "decode_mobile_continuity_bundle bs = Inr b"
    by (rule mcs.restores [OF built_bundle_ok [OF mcs_session_ok built] b(2)])
  from restored_session_sound [OF dec b(3) restore_built [OF mcs_session_ok built]] show ?thesis
    by (intro exI [of _ "\<lparr>rs_cognitive = mcs_kernel,
        rs_actions = \<lparr>af_registry = sample_registry, af_adapters = [], af_state = mcs_fabric\<rparr>, rs_state = M_WaitingApproval,
        rs_wake_reason = W_Reboot, rs_checkpoint_sequence = 7, rs_pending_approval = Some mcs_approval,
        rs_retry = Some mcs_retry\<rparr>"]) simp
qed

section \<open>Exponential backoff\<close>

lemma unat_next_delay:
  "unat (next_delay_ms r) = min (unat (rb_base_delay_ms r) * 2 ^ min (unat (rb_attempts r)) 20) (unat (rb_max_delay_ms r))"
proof -
  have low: "unat (min a b) = min (unat a) (unat b)" for a b :: "'n::len word"
    by (simp add: min_def word_le_nat_alt)
  have "(2 :: nat) ^ min (unat (rb_attempts r)) 20 < 2 ^ 64" by (rule power_strict_increasing) simp_all
  then have "unat (2 ^ min (unat (rb_attempts r)) 20 :: u64) = 2 ^ min (unat (rb_attempts r)) 20"
    using unat_of_nat [of "2 ^ min (unat (rb_attempts r)) 20", where ?'a = 64] by simp
  moreover have "unat (rb_max_delay_ms r) \<le> 2 ^ 64 - 1"
    using unsigned_less [of "rb_max_delay_ms r", where ?'a = nat] by simp
  ultimately show ?thesis
    by (simp add: next_delay_ms_def Let_def low saturating_mul_unat min.assoc min_absorb2)
qed

text \<open>
  The backoff of \<open>RetryBackoff::next_delay_ms\<close> is exponential with a cap: for a valid window the
  delay is \<open>base * 2 ^ min attempts 20\<close>, cut off at the maximum, although the product is computed in
  64 bits; so it lies between base and maximum and never shrinks as attempts are added.
\<close>

theorem next_delay_bounds:
  assumes "retry_validate r = Inr ()"
  shows "unat (next_delay_ms r) = min (unat (rb_base_delay_ms r) * 2 ^ min (unat (rb_attempts r)) 20) (unat (rb_max_delay_ms r))
    \<and> rb_base_delay_ms r \<le> next_delay_ms r \<and> next_delay_ms r \<le> rb_max_delay_ms r
    \<and> (\<forall>n \<ge> rb_attempts r. next_delay_ms r \<le> next_delay_ms (r\<lparr>rb_attempts := n\<rparr>))"
proof (intro conjI allI impI unat_next_delay)
  let ?d = "unat (rb_base_delay_ms r) * 2 ^ min (unat (rb_attempts r)) 20"
  have "unat (rb_base_delay_ms r) * 1 \<le> ?d" by (rule mult_le_mono2) simp
  then show "rb_base_delay_ms r \<le> next_delay_ms r"
    using assms by (simp add: word_le_nat_alt unat_next_delay retry_validate_Inr)
  show "next_delay_ms r \<le> rb_max_delay_ms r" by (simp add: word_le_nat_alt unat_next_delay)
  fix n assume "rb_attempts r \<le> n"
  then have "?d \<le> unat (rb_base_delay_ms r) * 2 ^ min (unat n) 20"
    by (intro mult_le_mono2 power_increasing) (auto simp: word_le_nat_alt)
  then show "next_delay_ms r \<le> next_delay_ms (r\<lparr>rb_attempts := n\<rparr>)"
    unfolding word_le_nat_alt unat_next_delay by (intro min.mono) simp_all
qed

theorem next_delay_bounds_witness:
  "unat (next_delay_ms mcs_retry) = 8000 \<and> next_delay_ms mcs_retry \<le> next_delay_ms (mcs_retry\<lparr>rb_attempts := 9\<rparr>)"
proof -
  have "retry_validate mcs_retry = Inr ()" by code_simp
  from next_delay_bounds [OF this] show ?thesis by (simp add: mcs_retry_def)
qed

end
