(* ===== verification/Mobile_Scheduler.thy ===== *)
theory Mobile_Scheduler
  imports Mobile_Continuity
begin

text \<open>
  The wake policy of the mobile host, \<open>crates/ntd-mobile-shell/src/scheduler.rs\<close>: what the platform
  is told to do with a stored session, given the resources of the device
  (\<open>ResourceSnapshot\<close> of \<open>crates/ntd-runtime/src/mobile.rs\<close>) and the circumstances of the wake. The
  arm that the source marks as \<open>unreachable!\<close> panics; here a panic is the value \<open>None\<close>.
\<close>

datatype thermal_state = Thermal_Nominal | Thermal_Warm | Thermal_Hot | Thermal_Critical

record resource_snapshot =
  rn_available_ram_bytes :: u64
  rn_battery_percent :: u8
  rn_charging :: bool
  rn_thermal :: thermal_state
  rn_latency_budget_ms :: u32

record wake_context =
  wc_now_epoch_ms :: u64
  wc_user_visible :: bool
  wc_network_available :: bool
  wc_device_unlocked :: bool

datatype platform_directive =
    KeepInteractive
  | StartForegroundExecution string
  | SchedulePersistentWork u64 bool bool
  | ShowApproval string string
  | CheckpointAndSuspend
  | VerifyResume
  | NoEligibleWork

datatype wake_policy_error = MissingApproval | InvalidRetryWindow

text \<open>The last \<open>match\<close> on the state.\<close>

fun directive_for :: "mobile_continuity_state \<Rightarrow> wake_context \<Rightarrow> platform_directive option" where
  "directive_for M_Interactive cx =
    Some (if wc_user_visible cx then KeepInteractive else SchedulePersistentWork 1000 False False)"
| "directive_for M_ActiveExecution cx =
    Some (if wc_user_visible cx then KeepInteractive else StartForegroundExecution ''visible active task'')"
| "directive_for M_Checkpointed cx = Some (SchedulePersistentWork
    (if wc_device_unlocked cx then 1000 else 15000) (\<not> wc_network_available cx) True)"
| "directive_for M_SuspendedByOs cx = Some (SchedulePersistentWork
    (if wc_device_unlocked cx then 1000 else 15000) (\<not> wc_network_available cx) True)"
| "directive_for M_WaitingCondition cx = Some (SchedulePersistentWork
    (if wc_device_unlocked cx then 1000 else 15000) (\<not> wc_network_available cx) True)"
| "directive_for M_WaitingApproval cx = None"
| "directive_for M_Reconstructing cx = None"
| "directive_for M_VerifyingResume cx = None"
| "directive_for M_Completed cx = None"
| "directive_for M_FailedRecoverable cx = None"

definition choose_platform_directive ::
    "mobile_continuity_bundle \<Rightarrow> resource_snapshot \<Rightarrow> wake_context \<Rightarrow> (wake_policy_error + platform_directive) option" where
  "choose_platform_directive b resources cx =
    (if mb_state b = M_WaitingApproval then
       Some (rbind (ok_or MissingApproval (mb_pending_approval b)) (\<lambda>a.
         Inr (ShowApproval (ap_capability a) (ap_rationale a))))
     else if mb_state b = M_Completed \<or> mb_state b = M_FailedRecoverable then Some (Inr NoEligibleWork)
     else if mb_state b = M_Reconstructing \<or> mb_state b = M_VerifyingResume then Some (Inr VerifyResume)
     else
     (case (case mb_retry b of
         Some r \<Rightarrow>
           if wc_now_epoch_ms cx < rb_not_before_epoch_ms r then
             Some (Inr (SchedulePersistentWork (rb_not_before_epoch_ms r - wc_now_epoch_ms cx) False True))
           else if rb_base_delay_ms r = 0 \<or> rb_max_delay_ms r < rb_base_delay_ms r then Some (Inl InvalidRetryWindow)
           else None
       | None \<Rightarrow> None) of
       Some early \<Rightarrow> Some early
     | None \<Rightarrow>
       if rn_thermal resources = Thermal_Critical \<or> \<not> rn_charging resources \<and> rn_battery_percent resources \<le> 5
       then Some (Inr CheckpointAndSuspend)
       else map_option Inr (directive_for (mb_state b) cx)))"

text \<open>A session that must not run now: the device is too hot or its battery nearly empty.\<close>

definition exhausted :: "resource_snapshot \<Rightarrow> bool" where
  "exhausted resources \<longleftrightarrow> rn_thermal resources = Thermal_Critical
    \<or> \<not> rn_charging resources \<and> rn_battery_percent resources \<le> 5"

definition runs :: "platform_directive \<Rightarrow> bool" where
  "runs d \<longleftrightarrow> d = KeepInteractive \<or> (\<exists>reason. d = StartForegroundExecution reason)"

definition waits_until :: "mobile_continuity_bundle \<Rightarrow> wake_context \<Rightarrow> bool" where
  "waits_until b cx \<longleftrightarrow> (\<exists>r. mb_retry b = Some r \<and> wc_now_epoch_ms cx < rb_not_before_epoch_ms r)"

lemma validated_bundle:
  assumes "validate_bundle b = Inr ()"
  shows "mb_state b = M_WaitingApproval \<longleftrightarrow> mb_pending_approval b \<noteq> None"
    and "mb_retry b = Some r \<Longrightarrow> 0 < rb_base_delay_ms r \<and> rb_base_delay_ms r \<le> rb_max_delay_ms r"
  using assms by (auto simp: validate_bundle_def if_some_Inr retry_validate_Inr split: if_splits)

text \<open>
  For every bundle that passes validation the wake policy returns a directive, without error and
  without reaching the panicking arm, and the directive is safe: an approval is shown exactly when the
  session waits for one and is the pending one; work is started or kept running only for an active
  or interactive session, never on a device that is too hot or nearly empty, and never before a retry
  window opens, for whose remaining time it is scheduled instead.
\<close>

theorem directive_safe:
  assumes "validate_bundle b = Inr ()"
  shows "\<exists>d. choose_platform_directive b resources cx = Some (Inr d)
    \<and> ((\<exists>c r. d = ShowApproval c r) \<longleftrightarrow> mb_state b = M_WaitingApproval)
    \<and> (\<forall>a. mb_pending_approval b = Some a \<longrightarrow> d = ShowApproval (ap_capability a) (ap_rationale a))
    \<and> (runs d \<longrightarrow> \<not> exhausted resources \<and> \<not> waits_until b cx
        \<and> (mb_state b = M_Interactive \<or> mb_state b = M_ActiveExecution))
    \<and> (\<forall>r. mb_retry b = Some r \<longrightarrow> wc_now_epoch_ms cx < rb_not_before_epoch_ms r \<longrightarrow>
        mb_state b \<in> {M_Interactive, M_ActiveExecution, M_Checkpointed, M_SuspendedByOs, M_WaitingCondition} \<longrightarrow>
        (\<exists>n p. d = SchedulePersistentWork (rb_not_before_epoch_ms r - wc_now_epoch_ms cx) n p))"
proof (cases "waits_until b cx")
  case True
  with validated_bundle [OF assms] show ?thesis
    by (cases "mb_state b") (auto simp: choose_platform_directive_def waits_until_def runs_def)
next
  case False
  have "(case mb_retry b of
         Some r \<Rightarrow>
           if wc_now_epoch_ms cx < rb_not_before_epoch_ms r then
             Some (Inr (SchedulePersistentWork (rb_not_before_epoch_ms r - wc_now_epoch_ms cx) False True))
           else if rb_base_delay_ms r = 0 \<or> rb_max_delay_ms r < rb_base_delay_ms r then Some (Inl InvalidRetryWindow)
           else None
       | None \<Rightarrow> None) = None"
    using False validated_bundle(2) [OF assms] by (auto simp: waits_until_def split: option.splits)
  with False validated_bundle(1) [OF assms] show ?thesis
    by (cases "mb_state b") (auto simp: choose_platform_directive_def waits_until_def runs_def exhausted_def)
qed

theorem directive_safe_witness:
  "\<exists>b d. mcs_built = Inr b \<and> choose_platform_directive b \<lparr>rn_available_ram_bytes = 0, rn_battery_percent = 3,
      rn_charging = False, rn_thermal = Thermal_Nominal, rn_latency_budget_ms = 0\<rparr>
    \<lparr>wc_now_epoch_ms = 0, wc_user_visible = True, wc_network_available = True, wc_device_unlocked = True\<rparr> = Some (Inr d)
    \<and> d = ShowApproval ''c'' ''why''"
proof -
  obtain b where b: "mcs_built = Inr b" by (rule mcs_written)
  note built = built_bundle [OF b [unfolded mcs_built_def]]
  from directive_safe [OF built(4)] built(7) b show ?thesis by (fastforce simp: mcs_approval_def)
qed

end
