(* ===== verification/Float32.thy ===== *)
theory Float32
  imports Rust_Base
begin

text \<open>
  \<open>f32\<close>, the element type of the tensors: the binary32 format as the 32 bits that
  \<open>f32::from_bits\<close> and \<open>from_le_bytes\<close> read. A finite value is an integer multiple of
  \<open>2 ^ -149\<close>, and \<open>f32_units\<close> is that integer, so that comparisons, \<open>fract\<close>, the casts to and
  from integers and the correctly rounded operations (\<open>+\<close>, \<open>-\<close>, \<open>*\<close>, \<open>/\<close>, \<open>sqrt\<close>, to nearest with
  ties to even) are computed on integers, without an approximation. The language leaves two choices to
  the platform: the bits of a NaN that an operation produces (here the quiet NaN \<open>0x7fc00000\<close>)
  and which zero \<open>max\<close> returns for two zeros of different sign (here its first argument). The functions of
  the platform's mathematical library, whose precision the language does not specify, are the
  parameter \<open>libm\<close>.
\<close>

type_synonym f32 = u32

record libm =
  lm_exp :: "f32 \<Rightarrow> f32"
  lm_sin :: "f32 \<Rightarrow> f32"
  lm_cos :: "f32 \<Rightarrow> f32"
  lm_powf :: "f32 \<Rightarrow> f32 \<Rightarrow> f32"

section \<open>The format\<close>

definition f32_sign :: "f32 \<Rightarrow> bool" where
  "f32_sign x \<longleftrightarrow> 2 ^ 31 \<le> uint x"

definition f32_exp :: "f32 \<Rightarrow> int" where
  "f32_exp x = uint x div 2 ^ 23 mod 2 ^ 8"

definition f32_frac :: "f32 \<Rightarrow> int" where
  "f32_frac x = uint x mod 2 ^ 23"

definition f32_is_nan :: "f32 \<Rightarrow> bool" where
  "f32_is_nan x \<longleftrightarrow> f32_exp x = 255 \<and> f32_frac x \<noteq> 0"

definition f32_is_inf :: "f32 \<Rightarrow> bool" where
  "f32_is_inf x \<longleftrightarrow> f32_exp x = 255 \<and> f32_frac x = 0"

definition f32_is_finite :: "f32 \<Rightarrow> bool" where
  "f32_is_finite x \<longleftrightarrow> f32_exp x \<noteq> 255"

text \<open>The magnitude and the value, in units of \<open>2 ^ -149\<close>; an infinity is larger than every finite value.\<close>

definition f32_mag :: "f32 \<Rightarrow> int" where
  "f32_mag x = (if f32_exp x = 0 then f32_frac x else (2 ^ 23 + f32_frac x) * 2 ^ nat (f32_exp x - 1))"

definition f32_units :: "f32 \<Rightarrow> int" where
  "f32_units x = (if f32_sign x then - f32_mag x else f32_mag x)"

text \<open>The comparisons: false when an operand is a NaN, and the two zeros are equal.\<close>

definition f32_lt :: "f32 \<Rightarrow> f32 \<Rightarrow> bool" where
  "f32_lt x y \<longleftrightarrow> \<not> f32_is_nan x \<and> \<not> f32_is_nan y \<and> f32_units x < f32_units y"

definition f32_eq :: "f32 \<Rightarrow> f32 \<Rightarrow> bool" where
  "f32_eq x y \<longleftrightarrow> \<not> f32_is_nan x \<and> \<not> f32_is_nan y \<and> f32_units x = f32_units y"

text \<open>\<open>f32::total_cmp\<close> compares these integers, the bits of a negative number inverted.\<close>

definition f32_total_key :: "f32 \<Rightarrow> int" where
  "f32_total_key x = (if f32_sign x then 2 ^ 31 - 1 - uint x else uint x)"

text \<open>\<open>x.fract() == 0.0\<close> for a finite \<open>x\<close>, and \<open>x as usize\<close>, which truncates and saturates.\<close>

definition f32_is_integer :: "f32 \<Rightarrow> bool" where
  "f32_is_integer x \<longleftrightarrow> f32_mag x mod 2 ^ 149 = 0"

definition f32_as_usize :: "f32 \<Rightarrow> nat" where
  "f32_as_usize x =
    (if f32_is_nan x \<or> f32_sign x then 0 else nat (min (f32_mag x div 2 ^ 149) (usize_bound - 1)))"

section \<open>Rounding\<close>

fun ilog2 :: "int \<Rightarrow> nat" where
  "ilog2 n = (if n < 2 then 0 else Suc (ilog2 (n div 2)))"

text \<open>The integer nearest to \<open>num / den\<close>, the even one of two.\<close>

definition round_even :: "int \<Rightarrow> int \<Rightarrow> int" where
  "round_even num den = (let q = num div den; r = num mod den in
    if den < 2 * r \<or> 2 * r = den \<and> odd q then q + 1 else q)"

definition f32_infinity :: f32 where "f32_infinity = 0x7f800000"

definition f32_nan :: f32 where "f32_nan = 0x7fc00000"

definition f32_neg :: "f32 \<Rightarrow> f32" where
  "f32_neg x = (if f32_sign x then x - 0x80000000 else x + 0x80000000)"

definition f32_signed :: "bool \<Rightarrow> f32 \<Rightarrow> f32" where
  "f32_signed neg x = (if neg then f32_neg x else x)"

text \<open>
  The \<open>f32\<close> nearest to \<open>num / den\<close> units. With \<open>s\<close> the number of bits by which the quotient
  exceeds 24 bits, the significand is rounded to a multiple of \<open>2 ^ s\<close>; a significand that rounds up to
  \<open>2 ^ 24\<close> carries into the exponent field.
\<close>

definition f32_round :: "int \<Rightarrow> int \<Rightarrow> f32" where
  "f32_round num den = (let s = ilog2 (num div den) - 23;
      bits = round_even num (den * 2 ^ s) + int s * 2 ^ 23 in
    if 0x7f800000 \<le> bits then f32_infinity else of_int bits)"

definition f32_of_units :: "bool \<Rightarrow> int \<Rightarrow> int \<Rightarrow> f32" where
  "f32_of_units zero_sign num den =
    (if num = 0 then f32_signed zero_sign 0 else f32_signed (num < 0) (f32_round \<bar>num\<bar> den))"

definition f32_of_int :: "int \<Rightarrow> f32" where
  "f32_of_int i = f32_of_units False (i * 2 ^ 149) 1"

section \<open>Arithmetic\<close>

definition f32_add :: "f32 \<Rightarrow> f32 \<Rightarrow> f32" where
  "f32_add x y =
    (if f32_is_nan x \<or> f32_is_nan y then f32_nan
     else if f32_is_inf x then (if f32_is_inf y \<and> f32_sign x \<noteq> f32_sign y then f32_nan else x)
     else if f32_is_inf y then y
     else f32_of_units (f32_sign x \<and> f32_sign y) (f32_units x + f32_units y) 1)"

definition f32_sub :: "f32 \<Rightarrow> f32 \<Rightarrow> f32" where
  "f32_sub x y = (if f32_is_nan y then f32_nan else f32_add x (f32_neg y))"

definition f32_mul :: "f32 \<Rightarrow> f32 \<Rightarrow> f32" where
  "f32_mul x y = (let neg = (f32_sign x \<noteq> f32_sign y) in
     if f32_is_nan x \<or> f32_is_nan y then f32_nan
     else if f32_is_inf x \<or> f32_is_inf y then
       (if f32_mag x = 0 \<or> f32_mag y = 0 then f32_nan else f32_signed neg f32_infinity)
     else f32_of_units neg (f32_units x * f32_units y) (2 ^ 149))"

definition f32_div :: "f32 \<Rightarrow> f32 \<Rightarrow> f32" where
  "f32_div x y = (let neg = (f32_sign x \<noteq> f32_sign y) in
     if f32_is_nan x \<or> f32_is_nan y then f32_nan
     else if f32_is_inf x then (if f32_is_inf y then f32_nan else f32_signed neg f32_infinity)
     else if f32_is_inf y then f32_signed neg 0
     else if f32_mag y = 0 then (if f32_mag x = 0 then f32_nan else f32_signed neg f32_infinity)
     else if f32_mag x = 0 then f32_signed neg 0
     else f32_signed neg (f32_round (f32_mag x * 2 ^ 149) (f32_mag y)))"

text \<open>The integer square root, and \<open>sqrt\<close>, whose remainder decides the rounding.\<close>

fun isqrt :: "int \<Rightarrow> int" where
  "isqrt n = (if n \<le> 0 then 0 else
    let r = 2 * isqrt (n div 4) in if (r + 1) * (r + 1) \<le> n then r + 1 else r)"

definition f32_sqrt :: "f32 \<Rightarrow> f32" where
  "f32_sqrt x =
    (if f32_is_nan x then f32_nan
     else if f32_mag x = 0 then x
     else if f32_sign x then f32_nan
     else if f32_is_inf x then x
     else (let n = f32_mag x * 2 ^ 149; r = isqrt n in
       f32_round (2 * r + (if r * r = n then 0 else 1)) 2))"

definition f32_max :: "f32 \<Rightarrow> f32 \<Rightarrow> f32" where
  "f32_max x y = (if f32_is_nan x then y else if f32_is_nan y then x else if f32_lt x y then y else x)"

text \<open>\<open>Iterator::sum\<close> of the toolchain that the workspace pins (1.80) starts from \<open>0.0\<close>.\<close>

definition f32_sum :: "f32 list \<Rightarrow> f32" where
  "f32_sum xs = foldl f32_add 0 xs"

text \<open>Literals of the sources.\<close>

definition f32_one :: f32 where "f32_one = 0x3f800000"
definition f32_minus_one :: f32 where "f32_minus_one = 0xbf800000"
definition f32_1e_minus_5 :: f32 where "f32_1e_minus_5 = 0x3727c5ac"
definition f32_10000 :: f32 where "f32_10000 = 0x461c4000"
definition f32_neg_infinity :: f32 where "f32_neg_infinity = 0xff800000"

section \<open>Facts\<close>

declare ilog2.simps [simp del] isqrt.simps [simp del]

lemma f32_literals:
  "f32_of_int 1 = f32_one" "f32_of_int (- 1) = f32_minus_one" "f32_of_int 10000 = f32_10000"
  "f32_of_units False (2 ^ 149) 100000 = f32_1e_minus_5" "f32_neg f32_infinity = f32_neg_infinity"
  by code_simp+

end
