(* ===== verification/Rust_Panic.thy ===== *)
theory Rust_Panic
  imports Rust_Base
begin

text \<open>
  Code that may panic: a computation is \<open>None\<close> when it panics (an index or a slice out of range) or never
  returns, and \<open>Some\<close> of its \<open>Result\<close> otherwise. \<open>pbind\<close> is the sequencing of statements with \<open>?\<close>, and
  \<open>for_each\<close> a \<open>for\<close> loop that updates the variables of its state. An index is computed on natural
  numbers: the access panics when the exact index lies outside the vector, and where it does not, no
  intermediate result of the index expression exceeds the length of a vector, so it never
  overflows \<open>usize\<close>. \<open>yields E P m\<close> states that \<open>m\<close> returns, an error only of the kind \<open>E\<close> and otherwise a
  value that satisfies \<open>P\<close>; its rules, collected in \<open>yields_rules\<close>, follow the statements.
\<close>

named_theorems yields_rules \<open>rules of the logic of total correctness with errors\<close>

type_synonym ('e, 'a) run = "('e + 'a) option"

definition pret :: "'a \<Rightarrow> ('e, 'a) run" where
  "pret a = Some (Inr a)"

definition pfail :: "'e \<Rightarrow> ('e, 'a) run" where
  "pfail e = Some (Inl e)"

fun pbind :: "('e, 'a) run \<Rightarrow> ('a \<Rightarrow> ('e, 'b) run) \<Rightarrow> ('e, 'b) run" where
  "pbind None f = None"
| "pbind (Some (Inl e)) f = Some (Inl e)"
| "pbind (Some (Inr a)) f = f a"

text \<open>\<open>expr?\<close> for an expression that does not panic.\<close>

definition plift :: "'e + 'a \<Rightarrow> ('e, 'a) run" where
  "plift r = Some r"

text \<open>\<open>xs[i]\<close>, \<open>xs[i] = v\<close>, \<open>&xs[start..end]\<close>.\<close>

definition vec_get :: "'a list \<Rightarrow> nat \<Rightarrow> ('e, 'a) run" where
  "vec_get xs i = (if i < length xs then pret (xs ! i) else None)"

definition vec_set :: "'a list \<Rightarrow> nat \<Rightarrow> 'a \<Rightarrow> ('e, 'a list) run" where
  "vec_set xs i v = (if i < length xs then pret (xs[i := v]) else None)"

definition vec_slice :: "'a list \<Rightarrow> nat \<Rightarrow> nat \<Rightarrow> ('e, 'a list) run" where
  "vec_slice xs start stop =
    (if start \<le> stop \<and> stop \<le> length xs then pret (take (stop - start) (drop start xs)) else None)"

fun for_each :: "('a \<Rightarrow> 's \<Rightarrow> ('e, 's) run) \<Rightarrow> 'a list \<Rightarrow> 's \<Rightarrow> ('e, 's) run" where
  "for_each f [] s = pret s"
| "for_each f (x # xs) s = pbind (f x s) (for_each f xs)"

text \<open>\<open>usize::checked_mul\<close> and \<open>checked_add\<close>.\<close>

definition usize_mul :: "nat \<Rightarrow> nat \<Rightarrow> nat option" where
  "usize_mul a b = (if int a * int b < usize_bound then Some (a * b) else None)"

definition usize_add :: "nat \<Rightarrow> nat \<Rightarrow> nat option" where
  "usize_add a b = (if int a + int b < usize_bound then Some (a + b) else None)"

text \<open>\<open>chunks_exact\<close>: the full chunks, without the remainder.\<close>

definition full_chunks :: "nat \<Rightarrow> 'a list \<Rightarrow> 'a list list" where
  "full_chunks w xs = map (\<lambda>i. take w (drop (i * w) xs)) [0..<length xs div w]"

section \<open>Equations\<close>

lemma usize_mul_eq [simp]: "usize_mul a b = Some c \<longleftrightarrow> int a * int b < usize_bound \<and> c = a * b"
  by (auto simp: usize_mul_def)

lemma usize_add_eq [simp]: "usize_add a b = Some c \<longleftrightarrow> int a + int b < usize_bound \<and> c = a + b"
  by (auto simp: usize_add_def)

lemma run_cases [case_names Panic Err Ok]:
  obtains "m = None" | e where "m = Some (Inl e)" | a where "m = Some (Inr a)"
  by (metis not_None_eq obj_sumE)

text \<open>\<open>pbind\<close> may be used in the body of a partial function.\<close>

lemma pbind_bind: "pbind m f = Option.bind m (\<lambda>r. case r of Inl e \<Rightarrow> Some (Inl e) | Inr a \<Rightarrow> f a)"
  by (cases m rule: run_cases) simp_all

lemma pbind_mono [partial_function_mono]:
  assumes "mono_option F" "\<And>a. mono_option (\<lambda>f. G a f)"
  shows "mono_option (\<lambda>f. pbind (F f) (\<lambda>a. G a f))"
  unfolding pbind_bind
proof (rule bind_mono [OF assms(1)])
  fix r :: "'c + 'd"
  show "mono_option (\<lambda>f. case r of Inl e \<Rightarrow> Some (Inl e) | Inr a \<Rightarrow> G a f)"
    by (cases r) (simp_all add: assms(2) option.const_mono)
qed

lemma pbind_pret [simp]: "pbind (pret a) f = f a"
  by (simp add: pret_def)

lemma pbind_pfail [simp]: "pbind (pfail e) f = pfail e"
  by (simp add: pfail_def)

lemma pbind_plift [simp]: "pbind (plift (Inr a)) f = f a" "pbind (plift (Inl e)) f = pfail e"
  by (simp_all add: plift_def pfail_def)

lemma pbind_assoc: "pbind (pbind m f) g = pbind m (\<lambda>a. pbind (f a) g)"
  by (cases m rule: run_cases) simp_all

lemma pbind_pret_right [simp]: "pbind m pret = m"
  by (cases m rule: run_cases) (simp_all add: pret_def)

lemma pbind_eq_Inr: "pbind m f = Some (Inr b) \<longleftrightarrow> (\<exists>a. m = Some (Inr a) \<and> f a = Some (Inr b))"
  by (cases m rule: run_cases) simp_all

lemma pbind_cong [fundef_cong]:
  "m = m' \<Longrightarrow> (\<And>a. m' = Some (Inr a) \<Longrightarrow> f a = g a) \<Longrightarrow> pbind m f = pbind m' g"
  by (cases m' rule: run_cases) simp_all

lemma for_each_append: "for_each f (xs @ ys) s = pbind (for_each f xs s) (for_each f ys)"
  by (induction xs arbitrary: s) (auto simp: pbind_assoc intro: pbind_cong)

lemma for_each_cong [fundef_cong]:
  assumes "xs = ys" "s = t" "\<And>x s. x \<in> set ys \<Longrightarrow> f x s = g x s"
  shows "for_each f xs s = for_each g ys t"
proof -
  have "(\<And>x s. x \<in> set ys \<Longrightarrow> f x s = g x s) \<Longrightarrow> for_each f ys s = for_each g ys s" for s
    by (induction ys arbitrary: s) (auto intro: pbind_cong)
  with assms show ?thesis by simp
qed

section \<open>Total correctness with errors\<close>

fun yields :: "('e \<Rightarrow> bool) \<Rightarrow> ('a \<Rightarrow> bool) \<Rightarrow> ('e, 'a) run \<Rightarrow> bool" where
  "yields E P None \<longleftrightarrow> False"
| "yields E P (Some (Inl e)) \<longleftrightarrow> E e"
| "yields E P (Some (Inr a)) \<longleftrightarrow> P a"

lemma yields_pret [simp]: "yields E P (pret a) \<longleftrightarrow> P a"
  by (simp add: pret_def)

lemma yields_pfail [simp]: "yields E P (pfail e) \<longleftrightarrow> E e"
  by (simp add: pfail_def)

lemma yields_plift [simp]: "yields E P (plift r) \<longleftrightarrow> (case r of Inl e \<Rightarrow> E e | Inr a \<Rightarrow> P a)"
  by (cases r) (simp_all add: plift_def)

lemma yields_cases: "yields E P m \<longleftrightarrow> (\<exists>r. m = Some r \<and> (case r of Inl e \<Rightarrow> E e | Inr a \<Rightarrow> P a))"
  by (cases m rule: run_cases) simp_all

lemma yields_total: "yields (\<lambda>_. False) P m \<Longrightarrow> \<exists>a. m = pret a \<and> P a"
  by (cases m rule: run_cases) (simp_all add: pret_def)

lemma yields_bind: "yields E P (pbind m f) \<longleftrightarrow> yields E (\<lambda>a. yields E P (f a)) m"
  by (cases m rule: run_cases) simp_all

lemma yields_mono: "yields E P m \<Longrightarrow> (\<And>a. P a \<Longrightarrow> Q a) \<Longrightarrow> yields E Q m"
  by (auto simp: yields_cases split: sum.splits)

lemma yields_pbind [yields_rules]:
  "yields E Q m \<Longrightarrow> (\<And>a. Q a \<Longrightarrow> yields E P (f a)) \<Longrightarrow> yields E P (pbind m f)"
  unfolding yields_bind by (erule yields_mono)

lemma yields_get [simp]: "yields E P (vec_get xs i) \<longleftrightarrow> i < length xs \<and> P (xs ! i)"
  by (simp add: vec_get_def)

lemma yields_set [simp]: "yields E P (vec_set xs i v) \<longleftrightarrow> i < length xs \<and> P (xs[i := v])"
  by (simp add: vec_set_def)

lemma yields_slice [simp]:
  "yields E P (vec_slice xs a b) \<longleftrightarrow> a \<le> b \<and> b \<le> length xs \<and> P (take (b - a) (drop a xs))"
  by (auto simp: vec_slice_def)

lemma yields_if: "yields E P (if b then m else n) \<longleftrightarrow> (if b then yields E P m else yields E P n)"
  by simp

text \<open>A loop keeps what each of its iterations keeps.\<close>

lemma yields_for_each:
  assumes "I s" "\<And>x s. x \<in> set xs \<Longrightarrow> I s \<Longrightarrow> yields E I (f x s)"
  shows "yields E I (for_each f xs s)"
  using assms by (induction xs arbitrary: s) (auto simp: yields_bind intro: yields_mono)

text \<open>A loop over \<open>0..n\<close> with an invariant that depends on the iteration.\<close>

lemma yields_for_upto:
  assumes "I a s" "a \<le> n" "\<And>i s. a \<le> i \<Longrightarrow> i < n \<Longrightarrow> I i s \<Longrightarrow> yields E (I (Suc i)) (f i s)"
  shows "yields E (I n) (for_each f [a..<n] s)"
  using assms(2,1,3)
proof (induction a arbitrary: s rule: inc_induct)
  case base
  then show ?case by simp
next
  case (step a)
  then have "yields E (I (Suc a)) (f a s)" by simp
  then show ?case
    using step by (auto simp: upt_conv_Cons yields_bind intro: yields_mono)
qed

lemma length_chunk: "0 < w \<Longrightarrow> c \<in> set (full_chunks w xs) \<Longrightarrow> length c = w"
proof -
  assume w: "0 < w" and "c \<in> set (full_chunks w xs)"
  then obtain i where i: "i < length xs div w" and c: "c = take w (drop (i * w) xs)"
    by (auto simp: full_chunks_def)
  from i have "Suc i * w \<le> length xs div w * w" by (intro mult_le_mono1) simp
  also have "\<dots> \<le> length xs" by simp
  finally show "length c = w" by (simp add: c)
qed

lemma concat_full_chunks:
  assumes "0 < w" "w dvd length xs"
  shows "concat (full_chunks w xs) = xs"
proof -
  have "concat (map (\<lambda>i. take w (drop (i * w) xs)) [0..<n]) = take (n * w) xs" if "n * w \<le> length xs" for n
    using that
  proof (induction n)
    case (Suc n)
    then show ?case by (simp add: take_add [of "n * w" w, symmetric] add.commute)
  qed simp
  from this [of "length xs div w"] assms show ?thesis by (simp add: full_chunks_def)
qed

lemma length_full_chunks [simp]: "length (full_chunks w xs) = length xs div w"
  by (simp add: full_chunks_def)

end
