(* ===== verification/Tensor_Ops.thy ===== *)
theory Tensor_Ops
  imports NTD_IR Float32 Rust_Panic
begin

text \<open>
  The tensors of \<open>crates/ntd-runtime/src/tensor.rs\<close>: loading from the bytes of a capsule, and the reference
  provider that executes the tensor operations. Each operation is the loop nest of the source over
  the vectors of elements, with every access that could panic; what is proved of them is in
  \<open>Tensor_Safety\<close> and \<open>Tensor_Layout\<close>. A vector for the result of a product or of a gather may have more
  elements than its operands; its reservation panics when it needs more than \<open>isize::MAX\<close> bytes. Every other
  vector has no more elements than an operand, which already exists, and can be allocated.
\<close>

unbundle bit_operations_syntax

section \<open>Data\<close>

record tensor =
  tn_shape :: "nat list"
  tn_data :: "f32 list"

datatype quantization_params = QP_None | SymmetricI8 f32 | AffineI8 f32 int

datatype tensor_load_error =
  LoadInvalidShape
| ByteLengthMismatch nat nat
| InvalidQuantization
| UnsupportedQuantizationDType dtype
| InvalidBool u8

datatype tensor_error =
  InvalidShape
| ElementCountMismatch nat nat
| Arity nat nat
| ShapeMismatch
| UnsupportedOp tensor_op
| InvalidIndex
| NoProvider

fun count_elements :: "nat \<Rightarrow> nat list \<Rightarrow> tensor_error + nat" where
  "count_elements count [] = Inr count"
| "count_elements count (dimension # shape) =
    rbind (ok_or InvalidShape (usize_mul count dimension)) (\<lambda>c. count_elements c shape)"

definition element_count_usize :: "nat list \<Rightarrow> tensor_error + nat" where
  "element_count_usize shape = count_elements 1 shape"

definition tensor_new :: "nat list \<Rightarrow> f32 list \<Rightarrow> tensor_error + tensor" where
  "tensor_new shape data = rbind (element_count_usize shape) (\<lambda>expected.
    if length data \<noteq> expected then Inl (ElementCountMismatch expected (length data))
    else Inr \<lparr>tn_shape = shape, tn_data = data\<rparr>)"

definition tensor_scalar :: "f32 \<Rightarrow> tensor" where
  "tensor_scalar v = \<lparr>tn_shape = [], tn_data = [v]\<rparr>"

definition tensor_rank :: "tensor \<Rightarrow> nat" where
  "tensor_rank t = length (tn_shape t)"

section \<open>Loading\<close>

definition load_dtype_width :: "dtype \<Rightarrow> nat" where
  "load_dtype_width d = (case d of F32 \<Rightarrow> 4 | I32 \<Rightarrow> 4 | F16 \<Rightarrow> 2 | Bf16 \<Rightarrow> 2 | I64 \<Rightarrow> 8 | I8 \<Rightarrow> 1 | U8 \<Rightarrow> 1 | Bool \<Rightarrow> 1)"

text \<open>\<open>from_le_bytes\<close> for the unsigned and the signed integers.\<close>

fun le_uint :: "u8 list \<Rightarrow> int" where
  "le_uint [] = 0"
| "le_uint (b # bs) = uint b + 256 * le_uint bs"

definition le_sint :: "u8 list \<Rightarrow> int" where
  "le_sint bs = (let v = le_uint bs; n = 256 ^ length bs in if 2 * v < n then v else v - n)"

text \<open>
  The loop that normalizes a subnormal half-precision fraction. Ten shifts bring the leading one of a
  non-zero fraction of ten bits to bit 10, which is the most that the fuel allows.
\<close>

primrec f16_normalize :: "nat \<Rightarrow> u32 \<Rightarrow> int \<Rightarrow> u32 \<times> int" where
  "f16_normalize 0 frac e = (frac, e)"
| "f16_normalize (Suc fuel) frac e =
    (if frac AND 0x0400 = 0 then f16_normalize fuel (push_bit 1 frac) (e - 1) else (frac, e))"

definition f16_to_f32 :: "u16 \<Rightarrow> f32" where
  "f16_to_f32 bits = (let
      sign = push_bit 16 (ucast (bits AND 0x8000)) :: u32;
      exponent = drop_bit 10 bits AND 0x1f;
      fraction = ucast (bits AND 0x03ff) :: u32 in
    if exponent = 0 then
      (if fraction = 0 then sign
       else let (frac, e) = f16_normalize 10 fraction (- 14); f32_e = (if 0 \<le> e + 127 then of_int (e + 127) else 0) in
         sign OR push_bit 23 f32_e OR push_bit 13 (frac AND 0x03ff))
    else if exponent = 0x1f then sign OR 0x7f800000 OR push_bit 13 fraction
    else sign OR push_bit 23 (ucast (exponent + 112)) OR push_bit 13 fraction)"

fun decode_bools :: "u8 list \<Rightarrow> tensor_load_error + f32 list" where
  "decode_bools [] = Inr []"
| "decode_bools (b # bs) =
    (if b = 0 then rbind (decode_bools bs) (\<lambda>out. Inr (0 # out))
     else if b = 1 then rbind (decode_bools bs) (\<lambda>out. Inr (f32_one # out))
     else Inl (InvalidBool b))"

definition decode_unquantized :: "dtype \<Rightarrow> nat \<Rightarrow> u8 list \<Rightarrow> tensor_load_error + f32 list" where
  "decode_unquantized dtype elements bytes =
    rbind (ok_or LoadInvalidShape (usize_mul elements (load_dtype_width dtype))) (\<lambda>expected.
      if length bytes \<noteq> expected then Inl (ByteLengthMismatch expected (length bytes))
      else (case dtype of
        F32 \<Rightarrow> Inr (map (\<lambda>c. of_int (le_uint c)) (full_chunks 4 bytes))
      | F16 \<Rightarrow> Inr (map (\<lambda>c. f16_to_f32 (of_int (le_uint c))) (full_chunks 2 bytes))
      | Bf16 \<Rightarrow> Inr (map (\<lambda>c. of_int (le_uint c * 2 ^ 16)) (full_chunks 2 bytes))
      | I8 \<Rightarrow> Inr (map (\<lambda>b. f32_of_int (sint b)) bytes)
      | U8 \<Rightarrow> Inr (map (\<lambda>b. f32_of_int (uint b)) bytes)
      | I32 \<Rightarrow> Inr (map (\<lambda>c. f32_of_int (le_sint c)) (full_chunks 4 bytes))
      | I64 \<Rightarrow> Inr (map (\<lambda>c. f32_of_int (le_sint c)) (full_chunks 8 bytes))
      | Bool \<Rightarrow> decode_bools bytes))"

definition decode_i8_quantized :: "nat \<Rightarrow> u8 list \<Rightarrow> f32 \<Rightarrow> int \<Rightarrow> tensor_load_error + f32 list" where
  "decode_i8_quantized elements bytes scale zero_point =
    (if length bytes \<noteq> elements then Inl (ByteLengthMismatch elements (length bytes))
     else Inr (map (\<lambda>b. f32_mul (f32_of_int (sint b - zero_point)) scale) bytes))"

definition load_validate_scale :: "f32 \<Rightarrow> tensor_load_error + unit" where
  "load_validate_scale scale = (if f32_is_finite scale \<and> f32_lt 0 scale then Inr () else Inl InvalidQuantization)"

definition tensor_load :: "dtype \<Rightarrow> u64 list \<Rightarrow> quantization_params \<Rightarrow> u8 list \<Rightarrow> tensor_load_error + tensor" where
  "tensor_load dtype dims quantization bytes = (let shape = map unat dims in
    rbind (map_err (\<lambda>_. LoadInvalidShape) (element_count_usize shape)) (\<lambda>elements.
      if quantization \<noteq> QP_None \<and> dtype \<noteq> I8 then Inl (UnsupportedQuantizationDType dtype)
      else rbind (case quantization of
          QP_None \<Rightarrow> decode_unquantized dtype elements bytes
        | SymmetricI8 scale \<Rightarrow>
            rbind (load_validate_scale scale) (\<lambda>_. decode_i8_quantized elements bytes scale 0)
        | AffineI8 scale zero_point \<Rightarrow>
            rbind (load_validate_scale scale) (\<lambda>_.
              if \<not> (- 128 \<le> zero_point \<and> zero_point \<le> 127) then Inl InvalidQuantization
              else decode_i8_quantized elements bytes scale zero_point))
        (\<lambda>data. map_err (\<lambda>_. LoadInvalidShape) (tensor_new shape data))))"

section \<open>Operations\<close>

definition require_arity :: "tensor list \<Rightarrow> nat \<Rightarrow> (tensor_error, unit) run" where
  "require_arity inputs expected =
    (if length inputs = expected then pret () else pfail (Arity expected (length inputs)))"

definition elementwise_binary :: "tensor list \<Rightarrow> (f32 \<Rightarrow> f32 \<Rightarrow> f32) \<Rightarrow> (tensor_error, tensor) run" where
  "elementwise_binary inputs op =
    pbind (require_arity inputs 2) (\<lambda>_.
    pbind (vec_get inputs 0) (\<lambda>a.
    pbind (vec_get inputs 1) (\<lambda>b.
      if tn_shape a \<noteq> tn_shape b then pfail ShapeMismatch
      else plift (tensor_new (tn_shape a) (map (\<lambda>(x, y). op x y) (zip (tn_data a) (tn_data b)))))))"

text \<open>\<open>sum += lhs.data[row * k + inner] * rhs.data[inner * n + col]\<close>\<close>

definition dot_step :: "f32 list \<Rightarrow> f32 list \<Rightarrow> nat \<Rightarrow> nat \<Rightarrow> nat \<Rightarrow> nat \<Rightarrow> nat \<Rightarrow> f32 \<Rightarrow> (tensor_error, f32) run" where
  "dot_step lhs rhs k n row col inner acc =
    pbind (vec_get lhs (row * k + inner)) (\<lambda>a.
    pbind (vec_get rhs (inner * n + col)) (\<lambda>b.
      pret (f32_add acc (f32_mul a b))))"

text \<open>\<open>vec![0.0; n]\<close> and \<open>Vec::with_capacity(n)\<close> for elements of four bytes: a capacity overflow panics.\<close>

definition reserve_f32 :: "nat \<Rightarrow> (tensor_error, unit) run" where
  "reserve_f32 n = (if 4 * int n < 2 ^ 63 then pret () else None)"

definition matmul :: "tensor list \<Rightarrow> (tensor_error, tensor) run" where
  "matmul inputs =
    pbind (require_arity inputs 2) (\<lambda>_.
    pbind (vec_get inputs 0) (\<lambda>lhs.
    pbind (vec_get inputs 1) (\<lambda>rhs.
      if length (tn_shape lhs) \<noteq> 2 \<or> length (tn_shape rhs) \<noteq> 2 \<or> tn_shape lhs ! 1 \<noteq> tn_shape rhs ! 0
      then pfail ShapeMismatch
      else let m = tn_shape lhs ! 0; k = tn_shape lhs ! 1; n = tn_shape rhs ! 1 in
        pbind (plift (ok_or InvalidShape (usize_mul m n))) (\<lambda>len.
        pbind (reserve_f32 len) (\<lambda>_.
        pbind (for_each (\<lambda>row. for_each (\<lambda>col data.
            pbind (for_each (dot_step (tn_data lhs) (tn_data rhs) k n row col) [0..<k] 0) (\<lambda>acc.
              vec_set data (row * n + col) acc)) [0..<n]) [0..<m] (replicate len 0)) (\<lambda>data.
          plift (tensor_new [m, n] data)))))))"

definition rms_norm :: "tensor list \<Rightarrow> (tensor_error, tensor) run" where
  "rms_norm inputs =
    (if inputs = [] \<or> 3 < length inputs then pfail (Arity 3 (length inputs))
     else pbind (vec_get inputs 0) (\<lambda>input.
       if tn_shape input = [] then pfail InvalidShape
       else let width = last (tn_shape input) in
       if width = 0 then pfail InvalidShape
       else
       pbind (if 2 \<le> length inputs then
           pbind (vec_get inputs 1) (\<lambda>weight.
             if tn_shape weight \<noteq> [width] then pfail ShapeMismatch else pret (Some weight))
         else pret None) (\<lambda>weight.
       pbind (if length inputs = 3 then
           pbind (vec_get inputs 2) (\<lambda>epsilon.
             if tensor_rank epsilon \<noteq> 0 \<or> length (tn_data epsilon) \<noteq> 1 then pfail ShapeMismatch
             else pbind (vec_get (tn_data epsilon) 0) (\<lambda>v.
               if \<not> f32_is_finite v \<or> f32_lt v 0 \<or> f32_eq v 0 then pfail InvalidShape else pret v))
         else pret f32_1e_minus_5) (\<lambda>epsilon.
       pbind (for_each (\<lambda>row data.
           let mean_square = f32_div (f32_sum (map (\<lambda>v. f32_mul v v) row)) (f32_of_int (int width));
               inv_rms = f32_div f32_one (f32_sqrt (f32_add mean_square epsilon)) in
           for_each (\<lambda>(index, v) data.
             pbind (case weight of None \<Rightarrow> pret f32_one | Some t \<Rightarrow> vec_get (tn_data t) index) (\<lambda>scale.
               pret (data @ [f32_mul (f32_mul v inv_rms) scale]))) (List.enumerate 0 row) data)
         (full_chunks width (tn_data input)) []) (\<lambda>data.
       plift (tensor_new (tn_shape input) data))))))"

text \<open>The weights of a row of scores, in \<open>softmax\<close> and in \<open>causal_attention\<close>.\<close>

definition exp_weights :: "libm \<Rightarrow> f32 list \<Rightarrow> f32 list" where
  "exp_weights lm row = (let
      mx = foldl f32_max f32_neg_infinity row;
      exps = map (\<lambda>v. lm_exp lm (f32_sub v mx)) row;
      total = f32_sum exps in
    map (\<lambda>v. f32_div v total) exps)"

definition softmax :: "libm \<Rightarrow> tensor list \<Rightarrow> (tensor_error, tensor) run" where
  "softmax lm inputs =
    pbind (require_arity inputs 1) (\<lambda>_.
    pbind (vec_get inputs 0) (\<lambda>input.
      if tn_shape input = [] then pfail InvalidShape
      else let width = last (tn_shape input) in
      if width = 0 then pfail InvalidShape
      else plift (tensor_new (tn_shape input)
        (concat (map (exp_weights lm) (full_chunks width (tn_data input)))))))"

definition gather :: "tensor list \<Rightarrow> (tensor_error, tensor) run" where
  "gather inputs =
    pbind (require_arity inputs 2) (\<lambda>_.
    pbind (vec_get inputs 0) (\<lambda>table.
    pbind (vec_get inputs 1) (\<lambda>indices.
      if length (tn_shape table) \<noteq> 2 \<or> length (tn_shape indices) \<noteq> 1 then pfail ShapeMismatch
      else let rows = tn_shape table ! 0; width = tn_shape table ! 1 in
        pbind (plift (ok_or InvalidShape (usize_mul (length (tn_data indices)) width))) (\<lambda>capacity.
        pbind (reserve_f32 capacity) (\<lambda>_.
        pbind (for_each (\<lambda>raw_index data.
            if \<not> f32_is_finite raw_index \<or> f32_lt raw_index 0 \<or> \<not> f32_is_integer raw_index then pfail InvalidIndex
            else let row = f32_as_usize raw_index in
            if rows \<le> row then pfail InvalidIndex
            else
              pbind (plift (ok_or InvalidShape (usize_mul row width))) (\<lambda>start.
              pbind (plift (ok_or InvalidShape (usize_add start width))) (\<lambda>stop.
              pbind (vec_slice (tn_data table) start stop) (\<lambda>slice.
                pret (data @ slice))))) (tn_data indices) []) (\<lambda>data.
          plift (tensor_new [length (tn_data indices), width] data)))))))"

text \<open>One pair of elements of a head, rotated by the angle of its position.\<close>

definition rotate_pair :: "libm \<Rightarrow> f32 list \<Rightarrow> nat \<Rightarrow> f32 \<Rightarrow> nat \<Rightarrow> nat \<Rightarrow> f32 list \<Rightarrow> (tensor_error, f32 list) run" where
  "rotate_pair lm input width position base pair data = (let
      even_index = pair * 2;
      exponent = f32_div (f32_neg (f32_of_int (int even_index))) (f32_of_int (int width));
      theta = f32_mul position (lm_powf lm f32_10000 exponent);
      cosine = lm_cos lm theta;
      sine = lm_sin lm theta in
    pbind (vec_get input (base + even_index)) (\<lambda>left.
    pbind (vec_get input (base + even_index + 1)) (\<lambda>right.
    pbind (vec_set data (base + even_index) (f32_sub (f32_mul left cosine) (f32_mul right sine))) (\<lambda>data.
      vec_set data (base + even_index + 1) (f32_add (f32_mul left sine) (f32_mul right cosine))))))"

definition rotary_position :: "libm \<Rightarrow> tensor list \<Rightarrow> (tensor_error, tensor) run" where
  "rotary_position lm inputs =
    pbind (require_arity inputs 2) (\<lambda>_.
    pbind (vec_get inputs 0) (\<lambda>input.
    pbind (vec_get inputs 1) (\<lambda>positions.
      if length (tn_shape input) \<noteq> 3 \<or> length (tn_shape positions) \<noteq> 1 then pfail ShapeMismatch
      else let sequence = tn_shape input ! 0; heads = tn_shape input ! 1; width = tn_shape input ! 2 in
      if length (tn_data positions) \<noteq> sequence \<or> width = 0 \<or> width mod 2 \<noteq> 0 then pfail ShapeMismatch
      else
        pbind (for_each (\<lambda>position_index data.
            pbind (vec_get (tn_data positions) position_index) (\<lambda>position.
              if \<not> f32_is_finite position \<or> f32_lt position 0 then pfail InvalidIndex
              else for_each (\<lambda>head.
                for_each (rotate_pair lm (tn_data input) width position ((position_index * heads + head) * width))
                  [0..<width div 2]) [0..<heads] data)) [0..<sequence] (tn_data input)) (\<lambda>data.
          plift (tensor_new (tn_shape input) data)))))"

definition attention_score ::
    "f32 list \<Rightarrow> f32 list \<Rightarrow> nat \<Rightarrow> f32 \<Rightarrow> nat \<Rightarrow> nat \<Rightarrow> nat \<Rightarrow> nat \<Rightarrow> f32 list \<Rightarrow> (tensor_error, f32 list) run" where
  "attention_score query key width scale kv_heads kv_head query_base key_position scores = (let
      key_base = (key_position * kv_heads + kv_head) * width in
    pbind (for_each (\<lambda>offset dot.
        pbind (vec_get query (query_base + offset)) (\<lambda>q.
        pbind (vec_get key (key_base + offset)) (\<lambda>k.
          pret (f32_add dot (f32_mul q k))))) [0..<width] 0) (\<lambda>dot.
      pret (scores @ [f32_div dot scale])))"

definition attention_accumulate ::
    "f32 list \<Rightarrow> nat \<Rightarrow> nat \<Rightarrow> nat \<Rightarrow> nat \<Rightarrow> nat \<times> f32 \<Rightarrow> f32 list \<Rightarrow> (tensor_error, f32 list) run" where
  "attention_accumulate val width kv_heads kv_head query_base = (\<lambda>(key_position, weight). (let
      value_base = (key_position * kv_heads + kv_head) * width in
    for_each (\<lambda>offset output.
      pbind (vec_get output (query_base + offset)) (\<lambda>old.
      pbind (vec_get val (value_base + offset)) (\<lambda>v.
        vec_set output (query_base + offset) (f32_add old (f32_mul v weight))))) [0..<width]))"

text \<open>The body of the loop over the heads of a query position.\<close>

definition attention_head ::
    "libm \<Rightarrow> f32 list \<Rightarrow> f32 list \<Rightarrow> f32 list \<Rightarrow> nat \<Rightarrow> f32 \<Rightarrow> nat \<Rightarrow> nat \<Rightarrow> nat \<Rightarrow> nat \<Rightarrow> nat \<Rightarrow> f32 list
      \<Rightarrow> (tensor_error, f32 list) run" where
  "attention_head lm query key val width scale query_heads kv_heads heads_per_kv query_position query_head out = (let
      kv_head = query_head div heads_per_kv;
      query_base = (query_position * query_heads + query_head) * width in
    pbind (for_each (attention_score query key width scale kv_heads kv_head query_base)
        [0..<Suc query_position] []) (\<lambda>scores.
      for_each (attention_accumulate val width kv_heads kv_head query_base)
        (List.enumerate 0 (exp_weights lm scores)) out))"

definition causal_attention :: "libm \<Rightarrow> tensor list \<Rightarrow> (tensor_error, tensor) run" where
  "causal_attention lm inputs =
    pbind (require_arity inputs 3) (\<lambda>_.
    pbind (vec_get inputs 0) (\<lambda>query.
    pbind (vec_get inputs 1) (\<lambda>key.
    pbind (vec_get inputs 2) (\<lambda>val.
      if length (tn_shape query) \<noteq> 3 \<or> length (tn_shape key) \<noteq> 3 \<or> length (tn_shape val) \<noteq> 3
        \<or> tn_shape key \<noteq> tn_shape val \<or> tn_shape query ! 0 \<noteq> tn_shape key ! 0 \<or> tn_shape query ! 2 \<noteq> tn_shape key ! 2
      then pfail ShapeMismatch
      else let
        sequence = tn_shape query ! 0; query_heads = tn_shape query ! 1;
        kv_heads = tn_shape key ! 1; width = tn_shape query ! 2 in
      if width = 0 \<or> kv_heads = 0 \<or> query_heads = 0 \<or> query_heads mod kv_heads \<noteq> 0 then pfail ShapeMismatch
      else let
        heads_per_kv = query_heads div kv_heads;
        scale = f32_sqrt (f32_of_int (int width)) in
        pbind (for_each (\<lambda>query_position.
            for_each (attention_head lm (tn_data query) (tn_data key) (tn_data val) width scale
              query_heads kv_heads heads_per_kv query_position) [0..<query_heads])
            [0..<sequence] (replicate (length (tn_data query)) 0)) (\<lambda>output.
          plift (tensor_new (tn_shape query) output))))))"

definition silu :: "libm \<Rightarrow> tensor list \<Rightarrow> (tensor_error, tensor) run" where
  "silu lm inputs =
    pbind (require_arity inputs 1) (\<lambda>_.
    pbind (vec_get inputs 0) (\<lambda>input.
      plift (tensor_new (tn_shape input)
        (map (\<lambda>v. f32_div v (f32_add f32_one (lm_exp lm (f32_neg v)))) (tn_data input)))))"

text \<open>One entry of the shape specification of \<open>reshape\<close>; the state is \<open>shape\<close>, \<open>inferred\<close> and \<open>known_product\<close>.\<close>

definition reshape_entry ::
    "nat list \<Rightarrow> nat \<times> f32 \<Rightarrow> nat list \<times> nat option \<times> nat \<Rightarrow> (tensor_error, nat list \<times> nat option \<times> nat) run" where
  "reshape_entry input_shape = (\<lambda>(index, raw) (shape, inferred, known_product).
    if \<not> f32_is_finite raw \<or> \<not> f32_is_integer raw then pfail InvalidShape
    else if f32_eq raw f32_minus_one then
      (if inferred \<noteq> None then pfail InvalidShape else pret (shape @ [1], Some index, known_product))
    else pbind (if f32_eq raw 0 then
          (if index < length input_shape then pret (input_shape ! index) else pfail InvalidShape)
        else if f32_lt 0 raw then pret (f32_as_usize raw)
        else pfail InvalidShape) (\<lambda>dimension.
      if dimension = 0 then pfail InvalidShape
      else pbind (plift (ok_or InvalidShape (usize_mul known_product dimension))) (\<lambda>product.
        pret (shape @ [dimension], inferred, product))))"

definition reshape :: "tensor list \<Rightarrow> (tensor_error, tensor) run" where
  "reshape inputs =
    pbind (require_arity inputs 2) (\<lambda>_.
    pbind (vec_get inputs 0) (\<lambda>input.
    pbind (vec_get inputs 1) (\<lambda>shape_spec.
      if tensor_rank shape_spec \<noteq> 1 \<or> tn_data shape_spec = [] then pfail ShapeMismatch
      else let input_elements = length (tn_data input) in
        pbind (for_each (reshape_entry (tn_shape input)) (List.enumerate 0 (tn_data shape_spec)) ([], None, 1))
          (\<lambda>(shape, inferred, known_product).
          pbind (case inferred of
              Some index \<Rightarrow>
                if known_product = 0 \<or> input_elements mod known_product \<noteq> 0 then pfail ShapeMismatch
                else let dimension = input_elements div known_product in
                if dimension = 0 then pfail InvalidShape else vec_set shape index dimension
            | None \<Rightarrow> if known_product \<noteq> input_elements then pfail ShapeMismatch else pret shape) (\<lambda>shape.
            plift (tensor_new shape (tn_data input)))))))"

definition position_ids :: "tensor list \<Rightarrow> (tensor_error, tensor) run" where
  "position_ids inputs =
    pbind (require_arity inputs 1) (\<lambda>_.
    pbind (vec_get inputs 0) (\<lambda>input.
      if tensor_rank input \<noteq> 1 then pfail ShapeMismatch
      else pbind (vec_get (tn_shape input) 0) (\<lambda>len.
        plift (tensor_new [len] (map (\<lambda>index. f32_of_int (int index)) [0..<len])))))"

definition row_major_strides :: "nat list \<Rightarrow> (tensor_error, nat list) run" where
  "row_major_strides shape =
    pbind (for_each (\<lambda>index (strides, running).
        pbind (vec_set strides index running) (\<lambda>strides.
        pbind (vec_get shape index) (\<lambda>dimension.
        pbind (plift (ok_or InvalidShape (usize_mul running dimension))) (\<lambda>running.
          pret (strides, running))))) (rev [0..<length shape]) (replicate (length shape) 1, 1)) (\<lambda>(strides, _).
      pret strides)"

definition check_axis :: "nat \<Rightarrow> f32 \<Rightarrow> nat list \<times> bool list \<Rightarrow> (tensor_error, nat list \<times> bool list) run" where
  "check_axis rank raw = (\<lambda>(axes, seen).
    if \<not> f32_is_finite raw \<or> f32_lt raw 0 \<or> \<not> f32_is_integer raw then pfail InvalidIndex
    else let axis = f32_as_usize raw in
    if rank \<le> axis then pfail InvalidIndex
    else pbind (vec_get seen axis) (\<lambda>already.
      if already then pfail InvalidIndex
      else pbind (vec_set seen axis True) (\<lambda>seen. pret (axes @ [axis], seen))))"

text \<open>The position in the input of an element of the output; \<open>/\<close> and \<open>%\<close> panic on a zero stride.\<close>

definition transpose_step ::
    "nat list \<Rightarrow> nat list \<Rightarrow> nat list \<Rightarrow> nat \<Rightarrow> nat \<times> nat \<Rightarrow> (tensor_error, nat \<times> nat) run" where
  "transpose_step axes input_strides output_strides output_axis = (\<lambda>(remainder, input_index).
    pbind (vec_get output_strides output_axis) (\<lambda>stride.
      if stride = 0 then None
      else let coordinate = remainder div stride in
        pbind (vec_get axes output_axis) (\<lambda>input_axis.
        pbind (vec_get input_strides input_axis) (\<lambda>input_stride.
        pbind (plift (ok_or InvalidShape (usize_mul coordinate input_stride))) (\<lambda>offset.
        pbind (plift (ok_or InvalidShape (usize_add input_index offset))) (\<lambda>input_index.
          pret (remainder mod stride, input_index)))))))"

definition transpose_data ::
    "f32 list \<Rightarrow> nat \<Rightarrow> nat list \<Rightarrow> nat list \<Rightarrow> nat list \<Rightarrow> (tensor_error, f32 list) run" where
  "transpose_data input rank axes input_strides output_strides =
    for_each (\<lambda>output_index data.
      pbind (for_each (transpose_step axes input_strides output_strides) [0..<rank] (output_index, 0)) (\<lambda>(_, input_index).
      pbind (vec_get input input_index) (\<lambda>v.
        vec_set data output_index v))) [0..<length input] (replicate (length input) 0)"

text \<open>The part of \<open>transpose\<close> after the axes are checked.\<close>

definition transpose_axes :: "tensor \<Rightarrow> nat list \<Rightarrow> (tensor_error, tensor) run" where
  "transpose_axes input axes =
    pbind (for_each (\<lambda>axis shape. pbind (vec_get (tn_shape input) axis) (\<lambda>d. pret (shape @ [d]))) axes [])
      (\<lambda>output_shape.
    pbind (row_major_strides (tn_shape input)) (\<lambda>input_strides.
    pbind (row_major_strides output_shape) (\<lambda>output_strides.
    pbind (transpose_data (tn_data input) (tensor_rank input) axes input_strides output_strides) (\<lambda>data.
      plift (tensor_new output_shape data)))))"

definition transpose_tensor :: "tensor list \<Rightarrow> (tensor_error, tensor) run" where
  "transpose_tensor inputs =
    pbind (require_arity inputs 2) (\<lambda>_.
    pbind (vec_get inputs 0) (\<lambda>input.
    pbind (vec_get inputs 1) (\<lambda>permutation. (let rank = tensor_rank input in
      if rank = 0 \<or> tensor_rank permutation \<noteq> 1 \<or> length (tn_data permutation) \<noteq> rank then pfail ShapeMismatch
      else
        pbind (for_each (check_axis rank) (tn_data permutation) ([], replicate rank False)) (\<lambda>(axes, _).
          transpose_axes input axes)))))"

section \<open>The reference provider\<close>

fun reference_op :: "libm \<Rightarrow> tensor_op \<Rightarrow> tensor list \<Rightarrow> (tensor_error, tensor) run" where
  "reference_op lm Add inputs = elementwise_binary inputs f32_add"
| "reference_op lm Mul inputs = elementwise_binary inputs f32_mul"
| "reference_op lm MatMul inputs = matmul inputs"
| "reference_op lm QuantizedMatMul inputs = matmul inputs"
| "reference_op lm RmsNorm inputs = rms_norm inputs"
| "reference_op lm Softmax inputs = softmax lm inputs"
| "reference_op lm Gather inputs = gather inputs"
| "reference_op lm RotaryPosition inputs = rotary_position lm inputs"
| "reference_op lm CausalAttention inputs = causal_attention lm inputs"
| "reference_op lm Silu inputs = silu lm inputs"
| "reference_op lm Reshape inputs = reshape inputs"
| "reference_op lm Transpose inputs = transpose_tensor inputs"
| "reference_op lm PositionIds inputs = position_ids inputs"

text \<open>A provider: \<open>trait ExecutionProvider\<close>.\<close>

type_synonym provider = "tensor_op \<Rightarrow> tensor list \<Rightarrow> (tensor_error, tensor list) run"

definition cpu_reference :: "libm \<Rightarrow> provider" where
  "cpu_reference lm op inputs = pbind (reference_op lm op inputs) (\<lambda>output. pret [output])"

end
