(* ===== verification/Tensor_Safety.thy ===== *)
theory Tensor_Safety
  imports Tensor_Ops
begin

text \<open>
  The tensor operations never panic, but for a result that no vector can hold: on tensors whose elements
  match their shape every access of every loop nest lies inside its vector, the final \<open>Tensor::new\<close> never finds a wrong number of
  elements, and the shape of the output is the one the operation promises.
\<close>

section \<open>Well-formed tensors\<close>

definition tensor_ok :: "tensor \<Rightarrow> bool" where
  "tensor_ok t \<longleftrightarrow> element_count_usize (tn_shape t) = Inr (length (tn_data t))"

text \<open>The errors an operation may report; the other two are internal.\<close>

definition op_error :: "tensor_error \<Rightarrow> bool" where
  "op_error e \<longleftrightarrow> (\<forall>n m. e \<noteq> ElementCountMismatch n m) \<and> e \<noteq> NoProvider \<and> (\<forall>op. e \<noteq> UnsupportedOp op)"

lemma op_error_simps [simp]:
  "op_error InvalidShape" "op_error ShapeMismatch" "op_error InvalidIndex" "op_error (Arity n m)"
  "\<not> op_error (ElementCountMismatch n m)" "\<not> op_error NoProvider" "\<not> op_error (UnsupportedOp op)"
  by (simp_all add: op_error_def)

lemma count_elements_Inr: "count_elements c shape = Inr n \<Longrightarrow> n = c * prod_list shape"
  by (induction shape arbitrary: c) (fastforce simp: mult.assoc)+

lemma count_elements_Inl: "count_elements c shape = Inl e \<Longrightarrow> e = InvalidShape"
  by (induction shape arbitrary: c) (auto simp: rbind_eq_Inl)

lemma count_elements_small: "count_elements c shape = Inr n \<Longrightarrow> int c < usize_bound \<Longrightarrow> int n < usize_bound"
  by (induction shape arbitrary: c) auto

lemma tensor_ok_length: "tensor_ok t \<Longrightarrow> length (tn_data t) = prod_list (tn_shape t)"
  by (auto simp: tensor_ok_def element_count_usize_def dest: count_elements_Inr)

lemma tensor_ok_small: "tensor_ok t \<Longrightarrow> int (length (tn_data t)) < usize_bound"
  by (auto simp: tensor_ok_def element_count_usize_def usize_bound_def dest: count_elements_small)

lemma tensor_new_Inr:
  "tensor_new shape data = Inr t \<longleftrightarrow> t = \<lparr>tn_shape = shape, tn_data = data\<rparr> \<and> tensor_ok t"
  by (auto simp: tensor_new_def tensor_ok_def split: if_splits)

lemma tensor_new_Inl:
  "tensor_new shape data = Inl e \<Longrightarrow> length data = prod_list shape \<Longrightarrow> e = InvalidShape"
  by (auto simp: tensor_new_def element_count_usize_def rbind_eq_Inl count_elements_Inl
      dest: count_elements_Inr split: if_splits)

lemma tensor_scalar_ok [simp]: "tensor_ok (tensor_scalar v)"
  by (simp add: tensor_ok_def tensor_scalar_def element_count_usize_def)

lemma yields_new:
  assumes "length data = prod_list shape"
    and "\<And>t. t = \<lparr>tn_shape = shape, tn_data = data\<rparr> \<Longrightarrow> tensor_ok t \<Longrightarrow> P t"
  shows "yields op_error P (plift (tensor_new shape data))"
proof (cases "tensor_new shape data")
  case (Inl e)
  with assms(1) show ?thesis using tensor_new_Inl by fastforce
next
  case (Inr t)
  then have "P t" using assms(2) [of t] by (auto simp: tensor_new_Inr)
  with Inr show ?thesis by simp
qed

lemma yields_arity: "(length inputs = n \<Longrightarrow> yields op_error P (f ())) \<Longrightarrow> yields op_error P (pbind (require_arity inputs n) f)"
  by (simp add: require_arity_def)

lemma yields_input:
  "i < length inputs \<Longrightarrow> yields E P (f (inputs ! i)) \<Longrightarrow> yields E P (pbind (vec_get inputs i) f)"
  by (simp add: vec_get_def)

lemma yields_usize_mul:
  "(int a * int b < usize_bound \<Longrightarrow> yields op_error P (f (a * b)))
    \<Longrightarrow> yields op_error P (pbind (plift (ok_or InvalidShape (usize_mul a b))) f)"
  by (simp add: usize_mul_def yields_bind)

lemma yields_fail_if:
  "op_error e \<Longrightarrow> (\<not> b \<Longrightarrow> yields op_error P m) \<Longrightarrow> yields op_error P (if b then pfail e else m)"
  by simp

lemma shape2: "length sh = 2 \<Longrightarrow> prod_list sh = sh ! 0 * sh ! 1"
  by (cases sh; cases "tl sh") auto

lemma shape3: "length sh = 3 \<Longrightarrow> prod_list sh = sh ! 0 * sh ! 1 * sh ! 2"
  by (cases sh; cases "tl sh"; cases "tl (tl sh)") (auto simp: numeral_3_eq_3 mult.assoc)

text \<open>An index into a row-major matrix lies inside it.\<close>

lemma row_major_less: "row < m \<Longrightarrow> col < n \<Longrightarrow> row * n + col < m * (n :: nat)"
proof -
  assume "row < m" "col < n"
  then have "row * n + col < Suc row * n" by simp
  also have "\<dots> \<le> m * n" using \<open>row < m\<close> by (intro mult_le_mono1) simp
  finally show ?thesis .
qed

text \<open>A loop that only writes elements keeps the length of the vector.\<close>

lemma yields_length_loop:
  assumes "length s = n" "\<And>x s. x \<in> set xs \<Longrightarrow> length s = n \<Longrightarrow> yields E (\<lambda>s. length s = n) (f x s)"
  shows "yields E (\<lambda>s. length s = n) (for_each f xs s)"
  using assms by (rule yields_for_each)

lemma yields_true_loop:
  assumes "\<And>x s. x \<in> set xs \<Longrightarrow> yields E (\<lambda>_. True) (f x s)"
  shows "yields E (\<lambda>_. True) (for_each f xs s)"
  by (rule yields_for_each) (simp_all add: assms)

text \<open>The elements that a product or a gather reserves, and the reservations that panic.\<close>

definition product_elements :: "tensor \<Rightarrow> tensor \<Rightarrow> nat" where
  "product_elements a b =
    (if length (tn_shape a) = 2 \<and> length (tn_shape b) = 2 \<and> tn_shape a ! 1 = tn_shape b ! 0 then tn_shape a ! 0 * tn_shape b ! 1 else 0)"

definition gather_elements :: "tensor \<Rightarrow> tensor \<Rightarrow> nat" where
  "gather_elements table indices =
    (if length (tn_shape table) = 2 \<and> length (tn_shape indices) = 1 then length (tn_data indices) * tn_shape table ! 1 else 0)"

fun reserved_elements :: "tensor_op \<Rightarrow> tensor list \<Rightarrow> nat" where
  "reserved_elements MatMul [a, b] = product_elements a b"
| "reserved_elements QuantizedMatMul [a, b] = product_elements a b"
| "reserved_elements Gather [table, indices] = gather_elements table indices"
| "reserved_elements _ _ = 0"

definition oversized :: "tensor_op \<Rightarrow> tensor list \<Rightarrow> bool" where
  "oversized op inputs \<longleftrightarrow> 2 ^ 63 \<le> 4 * int (reserved_elements op inputs) \<and> int (reserved_elements op inputs) < usize_bound"

lemma list2: "length xs = 2 \<Longrightarrow> xs = [xs ! 0, xs ! 1]"
  by (cases xs; cases "tl xs") auto

lemma reserved_matmul:
  assumes "length inputs = 2" "length (tn_shape (inputs ! 0)) = 2" "length (tn_shape (inputs ! 1)) = 2"
    "tn_shape (inputs ! 0) ! 1 = tn_shape (inputs ! 1) ! 0"
  shows "reserved_elements MatMul inputs = tn_shape (inputs ! 0) ! 0 * tn_shape (inputs ! 1) ! 1"
proof -
  obtain a b where "inputs = [a, b]" using list2 [OF assms(1)] by blast
  with assms show ?thesis by (simp add: product_elements_def)
qed

lemma reserved_gather:
  assumes "length inputs = 2" "length (tn_shape (inputs ! 0)) = 2" "length (tn_shape (inputs ! 1)) = 1"
  shows "reserved_elements Gather inputs = length (tn_data (inputs ! 1)) * tn_shape (inputs ! 0) ! 1"
proof -
  obtain a b where "inputs = [a, b]" using list2 [OF assms(1)] by blast
  with assms show ?thesis by (simp add: gather_elements_def)
qed

lemma oversized_quantized: "oversized QuantizedMatMul inputs \<longleftrightarrow> oversized MatMul inputs"
proof -
  have "reserved_elements QuantizedMatMul inputs = reserved_elements MatMul inputs"
    by (cases inputs; cases "tl inputs"; cases "tl (tl inputs)") auto
  then show ?thesis by (simp add: oversized_def)
qed

text \<open>An oversized operation panics.\<close>

lemma oversized_panics:
  assumes "oversized op inputs"
  shows "op \<in> {MatMul, QuantizedMatMul} \<and> matmul inputs = None \<or> op = Gather \<and> gather inputs = None"
proof -
  from assms have pos: "0 < reserved_elements op inputs" by (simp add: oversized_def)
  then have op: "op \<in> {MatMul, QuantizedMatMul, Gather}" and "length inputs = 2"
    by (cases "(op, inputs)" rule: reserved_elements.cases; simp)+
  then obtain a b where ab: "inputs = [a, b]" using list2 by blast
  note size_of = assms [unfolded oversized_def ab]
  have "matmul inputs = None" if "reserved_elements op inputs = product_elements a b"
  proof -
    have shapes: "length (tn_shape a) = 2" "length (tn_shape b) = 2" "tn_shape a ! 1 = tn_shape b ! 0"
        "product_elements a b = tn_shape a ! 0 * tn_shape b ! 1"
      using pos that by (simp_all add: product_elements_def split: if_splits)
    have fits: "2 ^ 63 \<le> 4 * int (product_elements a b)" "int (product_elements a b) < usize_bound" using size_of that ab by simp_all
    then have "usize_mul (tn_shape a ! 0) (tn_shape b ! 1) = Some (product_elements a b)" "reserve_f32 (product_elements a b) = None"
      using shapes(4) by (simp_all only: usize_mul_eq of_nat_mult reserve_f32_def linorder_not_le [symmetric] simp_thms if_False)
    with shapes show ?thesis by (simp add: ab matmul_def require_arity_def vec_get_def Let_def plift_def del: usize_mul_eq)
  qed
  moreover have "gather inputs = None" if "reserved_elements op inputs = gather_elements a b"
  proof -
    have shapes: "length (tn_shape a) = 2" "length (tn_shape b) = 1"
        "gather_elements a b = length (tn_data b) * tn_shape a ! 1"
      using pos that by (simp_all add: gather_elements_def split: if_splits)
    have fits: "2 ^ 63 \<le> 4 * int (gather_elements a b)" "int (gather_elements a b) < usize_bound" using size_of that ab by simp_all
    then have "usize_mul (length (tn_data b)) (tn_shape a ! 1) = Some (gather_elements a b)" "reserve_f32 (gather_elements a b) = None"
      using shapes(3) by (simp_all only: usize_mul_eq of_nat_mult reserve_f32_def linorder_not_le [symmetric] simp_thms if_False)
    with shapes show ?thesis by (simp add: ab gather_def require_arity_def vec_get_def Let_def plift_def del: usize_mul_eq)
  qed
  ultimately show ?thesis using op ab by auto
qed

lemma yields_reserve: "4 * int n < 2 ^ 63 \<Longrightarrow> yields E P (f ()) \<Longrightarrow> yields E P (pbind (reserve_f32 n) f)"
  by (simp add: reserve_f32_def)

section \<open>Elementwise operations, products and tables\<close>

lemma elementwise_yields:
  assumes "\<forall>t \<in> set inputs. tensor_ok t"
  shows "yields op_error (\<lambda>t. tensor_ok t \<and> tn_shape t = tn_shape (inputs ! 0)) (elementwise_binary inputs op)"
  unfolding elementwise_binary_def
proof (intro yields_arity yields_input yields_fail_if yields_new; simp)
  assume "length inputs = 2" "tn_shape (inputs ! 0) = tn_shape (inputs ! Suc 0)"
  with assms show "min (length (tn_data (inputs ! 0))) (length (tn_data (inputs ! Suc 0)))
      = prod_list (tn_shape (inputs ! Suc 0))"
    using tensor_ok_length [of "inputs ! 0"] tensor_ok_length [of "inputs ! 1"] by simp
qed

lemma dot_step_yields:
  "row * k + inner < length lhs \<Longrightarrow> inner * n + col < length rhs
    \<Longrightarrow> yields E (\<lambda>_. True) (dot_step lhs rhs k n row col inner acc)"
  by (simp add: dot_step_def yields_bind)

lemma matmul_yields:
  assumes "\<forall>t \<in> set inputs. tensor_ok t" "\<not> oversized MatMul inputs"
  shows "yields op_error (\<lambda>t. tensor_ok t \<and> tn_shape t = [tn_shape (inputs ! 0) ! 0, tn_shape (inputs ! 1) ! 1])
    (matmul inputs)"
  unfolding matmul_def Let_def
proof (intro yields_arity yields_input yields_fail_if yields_usize_mul yields_reserve
    yields_pbind [where Q = "\<lambda>d. length d = tn_shape (inputs ! 0) ! 0 * tn_shape (inputs ! 1) ! 1"] yields_new, simp_all, goal_cases)
  case 1
  then show ?case using assms(2) by (auto simp: oversized_def reserved_matmul)
next
  case 2
  let ?a = "inputs ! 0" and ?b = "inputs ! Suc 0"
  have la: "length (tn_data ?a) = tn_shape ?a ! 0 * tn_shape ?b ! 0"
    and lb: "length (tn_data ?b) = tn_shape ?b ! 0 * tn_shape ?b ! 1"
    using 2 assms(1) tensor_ok_length [of ?a] tensor_ok_length [of ?b] by (simp_all add: shape2)
  show ?case
    by (intro yields_length_loop) (auto simp: yields_bind la lb row_major_less
        intro!: yields_mono [OF yields_true_loop] dot_step_yields)
qed


section \<open>Rows\<close>

lemma last_dvd_prod: "sh \<noteq> [] \<Longrightarrow> last sh dvd prod_list sh"
  for sh :: "nat list"
  by (induction sh) auto

lemma rows_of: "tensor_ok t \<Longrightarrow> tn_shape t \<noteq> [] \<Longrightarrow> last (tn_shape t) dvd length (tn_data t)"
  by (simp add: tensor_ok_length last_dvd_prod)

text \<open>A loop that appends as many elements as the rows it reads.\<close>

lemma yields_append_loop:
  assumes "\<And>x s. x \<in> set xs \<Longrightarrow> yields E (\<lambda>s'. length s' = length s + w) (f x s)"
  shows "yields E (\<lambda>s'. length s' = length s + length xs * w) (for_each f xs s)"
  using assms
proof (induction xs arbitrary: s)
  case (Cons x xs)
  have "yields E (\<lambda>s'. length s' = length s + w) (f x s)" using Cons.prems by simp
  then show ?case unfolding for_each.simps
  proof (rule yields_pbind)
    fix s' :: "'b list"
    assume "length s' = length s + w"
    moreover have "yields E (\<lambda>t. length t = length s' + length xs * w) (for_each f xs s')"
      using Cons by simp
    ultimately show "yields E (\<lambda>t. length t = length s + length (x # xs) * w) (for_each f xs s')"
      by (simp add: add.assoc)
  qed
qed simp

lemma exp_weights_length [simp]: "length (exp_weights lm row) = length row"
  by (simp add: exp_weights_def Let_def)

lemma concat_length_rows: "(\<And>r. r \<in> set rows \<Longrightarrow> length r = w) \<Longrightarrow> length (concat rows) = length rows * w"
  by (induction rows) auto

lemma softmax_yields:
  assumes "\<forall>t \<in> set inputs. tensor_ok t"
  shows "yields op_error (\<lambda>t. tensor_ok t \<and> tn_shape t = tn_shape (inputs ! 0)) (softmax lm inputs)"
  unfolding softmax_def Let_def
proof (intro yields_arity yields_input yields_fail_if yields_new, simp_all, goal_cases)
  case 1
  then have ok: "tensor_ok (inputs ! 0)" using assms by simp
  from 1 have w: "0 < last (tn_shape (inputs ! 0))" by simp
  show ?case
    using rows_of [OF ok] 1 tensor_ok_length [OF ok] w
    by (subst concat_length_rows [where w = "last (tn_shape (inputs ! 0))"]) (auto simp: length_chunk)
qed

lemma silu_yields:
  assumes "\<forall>t \<in> set inputs. tensor_ok t"
  shows "yields op_error (\<lambda>t. tensor_ok t \<and> tn_shape t = tn_shape (inputs ! 0)) (silu lm inputs)"
  unfolding silu_def using assms
  by (intro yields_arity yields_input yields_new) (simp_all add: tensor_ok_length)

lemma position_ids_yields:
  assumes "\<forall>t \<in> set inputs. tensor_ok t"
  shows "yields op_error (\<lambda>t. tensor_ok t \<and> tn_shape t = tn_shape (inputs ! 0)) (position_ids inputs)"
  unfolding position_ids_def using assms
  by (intro yields_arity yields_input yields_fail_if yields_new)
    (auto simp: tensor_rank_def length_Suc_conv)

lemma gather_yields:
  assumes "\<forall>t \<in> set inputs. tensor_ok t" "\<not> oversized Gather inputs"
  shows "yields op_error
    (\<lambda>t. tensor_ok t \<and> tn_shape t = [length (tn_data (inputs ! 1)), tn_shape (inputs ! 0) ! 1]) (gather inputs)"
  unfolding gather_def Let_def
proof ((intro yields_arity yields_input yields_fail_if yields_usize_mul yields_reserve
    yields_pbind [where Q = "\<lambda>d. length d = length ([] :: f32 list) + length (tn_data (inputs ! 1)) * (tn_shape (inputs ! 0) ! 1)"]
    yields_append_loop yields_new; (elim conjE)?; simp?), goal_cases)
  case 1
  then show ?case using assms(2) by (auto simp: oversized_def reserved_gather)
next
  case (2 raw data)
  then have len: "length (tn_data (inputs ! 0)) = tn_shape (inputs ! 0) ! 0 * tn_shape (inputs ! 0) ! 1"
    using assms(1) tensor_ok_length [of "inputs ! 0"] by (simp add: shape2)
  have "f32_as_usize raw * w + w \<le> tn_shape (inputs ! 0) ! 0 * w" for w
    using mult_le_mono1 [of "Suc (f32_as_usize raw)" "tn_shape (inputs ! 0) ! 0" w] 2 by (simp add: not_le)
  from this [of "tn_shape (inputs ! 0) ! 1"] show ?case
    by (auto simp: len yields_bind usize_add_def usize_mul_def min_def)
qed

lemma enumerate_mem: "(i, v) \<in> set (List.enumerate 0 xs) \<Longrightarrow> i < length xs"
  by (auto simp: in_set_enumerate_eq)

lemma rms_norm_yields:
  assumes "\<forall>t \<in> set inputs. tensor_ok t"
  shows "yields op_error (\<lambda>t. tensor_ok t \<and> tn_shape t = tn_shape (inputs ! 0)) (rms_norm inputs)"
proof -
  let ?width = "last (tn_shape (inputs ! 0))"
  let ?len = "\<lambda>d :: f32 list. length d = length ([] :: f32 list) + length (full_chunks ?width (tn_data (inputs ! 0))) * ?width"
  let ?weight = "\<lambda>w. \<forall>t. w = Some t \<longrightarrow> length (tn_data t) = ?width"
  show ?thesis
    unfolding rms_norm_def Let_def
  proof ((intro yields_input yields_fail_if yields_pbind [where Q = ?weight]
      yields_pbind [where Q = ?len] yields_pbind [where Q = "\<lambda>_. True"] yields_append_loop yields_new; (elim conjE)?), goal_cases)
    case 5
    then show ?case using assms tensor_ok_length [of "inputs ! 1"] by (auto simp: yields_bind)
  next
    case 6
    then show ?case by (auto simp: yields_bind)
  next
    case (7 weight epsilon row data)
    then have "length row = ?width" by (auto intro: length_chunk)
    with 7 show ?case
      by (intro yields_mono [OF yields_append_loop [where w = 1]])
        (auto simp: yields_bind dest!: enumerate_mem split: option.splits)
  next
    case 8
    then show ?case using assms rows_of [of "inputs ! 0"] tensor_ok_length [of "inputs ! 0"]  by simp
  qed auto
qed

section \<open>Rotary positions and attention\<close>

lemma rotate_pair_yields:
  "base + pair * 2 + 1 < length input \<Longrightarrow> length data = length input
    \<Longrightarrow> yields E (\<lambda>d. length d = length input) (rotate_pair lm input width position base pair data)"
  by (simp add: rotate_pair_def Let_def yields_bind)

lemma head_less:
  assumes "p < sequence" "h < heads" "c < width"
  shows "(p * heads + h) * width + c < sequence * heads * (width :: nat)"
  using row_major_less [OF assms(1,2)] assms(3) by (rule row_major_less)

lemma rotary_position_yields:
  assumes "\<forall>t \<in> set inputs. tensor_ok t"
  shows "yields op_error (\<lambda>t. tensor_ok t \<and> tn_shape t = tn_shape (inputs ! 0)) (rotary_position lm inputs)"
  unfolding rotary_position_def Let_def
proof ((intro yields_arity yields_input yields_fail_if
    yields_pbind [where Q = "\<lambda>d. length d = length (tn_data (inputs ! 0))"] yields_length_loop yields_new;
    (elim conjE)?; simp?), goal_cases)
  case (1 p data)
  let ?sh = "tn_shape (inputs ! 0)"
  have len: "length (tn_data (inputs ! 0)) = ?sh ! 0 * ?sh ! 1 * ?sh ! 2"
    using 1 assms tensor_ok_length [of "inputs ! 0"] by (simp add: shape3)
  have idx: "(p * ?sh ! 1 + h) * ?sh ! 2 + pair * 2 + 1 < length (tn_data (inputs ! 0))"
    if "h < ?sh ! 1" "pair < ?sh ! 2 div 2" for h pair
    using head_less [of p "?sh ! 0" h "?sh ! 1" "pair * 2 + 1" "?sh ! 2"] 1 that len by simp
  show ?case
    using 1 idx by (auto simp: yields_bind intro!: yields_length_loop rotate_pair_yields)
next
  case 2
  then show ?case using assms by (simp add: tensor_ok_length)
qed

lemma attention_score_yields:
  assumes "query_base + width \<le> length query" "(key_position * kv_heads + kv_head) * width + width \<le> length key"
  shows "yields E (\<lambda>s. length s = length scores + 1)
    (attention_score query key width scale kv_heads kv_head query_base key_position scores)"
  unfolding attention_score_def Let_def
  by (rule yields_pbind [where Q = "\<lambda>_. True"], rule yields_true_loop) (use assms in \<open>auto simp: yields_bind\<close>)

lemma attention_accumulate_yields:
  assumes "query_base + width \<le> length output" "(key_position * kv_heads + kv_head) * width + width \<le> length val"
    "length output = n"
  shows "yields E (\<lambda>s. length s = n)
    (attention_accumulate val width kv_heads kv_head query_base (key_position, weight) output)"
  unfolding attention_accumulate_def Let_def split
  by (rule yields_length_loop) (use assms in \<open>auto simp: yields_bind\<close>)

lemma head_block:
  assumes "p < sequence" "h < heads"
  shows "(p * heads + h) * width + width \<le> sequence * heads * (width :: nat)"
proof -
  have "Suc (p * heads + h) * width \<le> sequence * heads * width"
    using row_major_less [OF assms] by (intro mult_le_mono1) simp
  then show ?thesis by simp
qed

lemma attention_head_yields:
  assumes p: "p < sequence" and h: "h < query_heads" and heads: "0 < kv_heads" "query_heads mod kv_heads = 0"
    and lens: "length query = sequence * query_heads * width" "length key = sequence * kv_heads * width"
      "length val = sequence * kv_heads * width" "length out = length query"
  shows "yields E (\<lambda>s. length s = length query)
    (attention_head lm query key val width scale query_heads kv_heads (query_heads div kv_heads) p h out)"
proof -
  let ?kv = "h div (query_heads div kv_heads)" and ?base = "(p * query_heads + h) * width"
  have "?kv < kv_heads"
    using h heads by (intro less_mult_imp_div_less) (auto simp: mod_eq_0_iff_dvd)
  then have kv: "(kp * kv_heads + ?kv) * width + width \<le> sequence * kv_heads * width" if "kp \<le> p" for kp
    using that p by (intro head_block) auto
  have base: "?base + width \<le> length query"
    unfolding lens(1) using p h by (rule head_block)
  have "yields E (\<lambda>s. length s = length ([] :: f32 list) + length [0..<Suc p] * 1)
      (for_each (attention_score query key width scale kv_heads ?kv ?base) [0..<Suc p] [])"
    using base kv lens(2) by (intro yields_append_loop attention_score_yields) auto
  then show ?thesis
    unfolding attention_head_def Let_def
    by (rule yields_pbind)
      (use base kv lens(3,4) in \<open>auto intro!: yields_length_loop attention_accumulate_yields dest!: enumerate_mem\<close>)
qed

lemma causal_attention_yields:
  assumes "\<forall>t \<in> set inputs. tensor_ok t"
  shows "yields op_error (\<lambda>t. tensor_ok t \<and> tn_shape t = tn_shape (inputs ! 0)) (causal_attention lm inputs)"
  unfolding causal_attention_def Let_def
proof ((intro yields_arity yields_input yields_fail_if
    yields_pbind [where Q = "\<lambda>d. length d = length (tn_data (inputs ! 0))"] yields_length_loop yields_new;
    (elim conjE)?; simp?), goal_cases)
  case (1 p data h out)
  then show ?case
    using assms tensor_ok_length [of "inputs ! 0"] tensor_ok_length [of "inputs ! 1"] tensor_ok_length [of "inputs ! 2"]
    by (intro attention_head_yields) (simp_all add: shape3)
next
  case 2
  then show ?case using assms by (simp add: tensor_ok_length)
qed

section \<open>Reshaping\<close>

lemma prod_list_update:
  "i < length xs \<Longrightarrow> xs ! i = 1 \<Longrightarrow> prod_list (xs[i := v]) = v * prod_list (xs :: nat list)"
  by (induction xs arbitrary: i) (auto split: nat.splits)

text \<open>What the loop over the shape specification keeps.\<close>

definition reshape_inv :: "nat list \<times> nat option \<times> nat \<Rightarrow> bool" where
  "reshape_inv = (\<lambda>(shape, inferred, known).
    prod_list shape = known \<and> (\<forall>i. inferred = Some i \<longrightarrow> i < length shape \<and> shape ! i = 1))"

lemma reshape_entry_yields:
  assumes "reshape_inv s" "length (fst s) = index"
  shows "yields op_error (\<lambda>s'. reshape_inv s' \<and> length (fst s') = Suc index) (reshape_entry input_shape (index, raw) s)"
proof -
  obtain shape inferred known where s: "s = (shape, inferred, known)" by (cases s)
  from assms show ?thesis
    by (auto simp: s reshape_entry_def reshape_inv_def yields_bind nth_append usize_mul_def)
qed

lemma reshape_yields:
  assumes "\<forall>t \<in> set inputs. tensor_ok t"
  shows "yields op_error (\<lambda>t. tensor_ok t \<and> tn_data t = tn_data (inputs ! 0)) (reshape inputs)"
proof -
  let ?step = "reshape_entry (tn_shape (inputs ! 0))"
  have loop: "yields op_error (\<lambda>s'. reshape_inv s' \<and> length (fst s') = i + length raws)
      (for_each ?step (List.enumerate i raws) s)" if "reshape_inv s" "length (fst s) = i" for raws i s
    using that
  proof (induction raws arbitrary: i s)
    case (Cons raw raws)
    have "yields op_error (\<lambda>s'. reshape_inv s' \<and> length (fst s') = Suc i) (?step (i, raw) s)"
      using Cons.prems by (rule reshape_entry_yields)
    then have "yields op_error (\<lambda>s'. reshape_inv s' \<and> length (fst s') = Suc i + length raws)
        (for_each ?step (List.enumerate i (raw # raws)) s)"
      unfolding enumerate_simps for_each.simps by (rule yields_pbind) (rule Cons.IH, auto)
    then show ?case by simp
  qed simp
  show ?thesis
    unfolding reshape_def Let_def
  proof ((intro yields_arity yields_input yields_fail_if yields_pbind [OF loop]; simp?), goal_cases)
    case 1
    then show ?case by (simp add: reshape_inv_def)
  next
    case (2 s)
    obtain shape inferred known where s: "s = (shape, inferred, known)" by (cases s)
    have len: "length (tn_data (inputs ! 0)) = prod_list (shape[i := length (tn_data (inputs ! 0)) div known])"
      if "inferred = Some i" "length (tn_data (inputs ! 0)) mod known = 0" for i
      using 2 that by (subst prod_list_update) (auto simp: s reshape_inv_def)
    show ?case
    proof (cases inferred)
      case None
      with 2 show ?thesis by (auto simp: s reshape_inv_def simp del: yields_plift intro!: yields_new)
    next
      case (Some i)
      with 2 have "i < length shape" by (simp add: s reshape_inv_def)
      with Some len [OF Some] show ?thesis
        by (auto simp: s vec_set_def simp del: yields_plift intro!: yields_new)
    qed
  qed
qed

end
