(* ===== verification/Tensor_Layout.thy ===== *)
theory Tensor_Layout
  imports Tensor_Safety "HOL-Library.Multiset"
begin

text \<open>
  Row-major layout and \<open>transpose\<close>: the strides that the code accumulates are the products of the
  later dimensions, the quotients and remainders of a position by them are its coordinates, and
  the transposed tensor has at permuted coordinates the element of the input.
\<close>

section \<open>Coordinates\<close>

text \<open>The position of coordinates in a tensor of a shape, and the coordinates of a position.\<close>

fun flat_index :: "nat list \<Rightarrow> nat list \<Rightarrow> nat" where
  "flat_index (d # sh) (c # cs) = c * prod_list sh + flat_index sh cs"
| "flat_index _ _ = 0"

fun coords :: "nat list \<Rightarrow> nat \<Rightarrow> nat list" where
  "coords [] pos = []"
| "coords (d # sh) pos = pos div prod_list sh # coords sh (pos mod prod_list sh)"

definition in_shape :: "nat list \<Rightarrow> nat list \<Rightarrow> bool" where
  "in_shape sh cs \<longleftrightarrow> length cs = length sh \<and> (\<forall>i < length sh. cs ! i < sh ! i)"

lemma in_shape_Nil [simp]: "in_shape [] cs \<longleftrightarrow> cs = []"
  by (simp add: in_shape_def)

lemma in_shape_Cons [simp]: "in_shape (d # sh) (c # cs) \<longleftrightarrow> c < d \<and> in_shape sh cs"
  by (auto simp: in_shape_def All_less_Suc2)

lemma in_shape_ConsD: "in_shape (d # sh) cs \<Longrightarrow> \<exists>c cs'. cs = c # cs' \<and> c < d \<and> in_shape sh cs'"
  by (cases cs) (auto simp: in_shape_def All_less_Suc2)

lemma flat_index_less: "in_shape sh cs \<Longrightarrow> flat_index sh cs < prod_list sh"
proof (induction sh arbitrary: cs)
  case (Cons d sh)
  from in_shape_ConsD [OF Cons.prems] obtain c cs' where "cs = c # cs'" "c < d" "in_shape sh cs'" by blast
  with Cons.IH [of cs'] show ?case using row_major_less [of c d "flat_index sh cs'" "prod_list sh"] by simp
qed simp

lemma coords_flat_index: "in_shape sh cs \<Longrightarrow> coords sh (flat_index sh cs) = cs"
proof (induction sh arbitrary: cs)
  case (Cons d sh)
  then obtain c cs' where "cs = c # cs'" and "in_shape sh cs'" using in_shape_ConsD by blast
  with Cons.IH flat_index_less [of sh cs'] show ?case by simp
qed simp

lemma length_coords [simp]: "length (coords sh pos) = length sh"
  by (induction sh arbitrary: pos) auto

lemma in_shape_coords: "pos < prod_list sh \<Longrightarrow> in_shape sh (coords sh pos)"
proof (induction sh arbitrary: pos)
  case (Cons d sh)
  then have "0 < prod_list sh" by (auto intro: gr0I)
  with Cons show ?case by (simp add: less_mult_imp_div_less)
qed simp

definition stride :: "nat list \<Rightarrow> nat \<Rightarrow> nat" where
  "stride sh i = prod_list (drop (Suc i) sh)"

lemma flat_index_sum:
  "length cs = length sh \<Longrightarrow> flat_index sh cs = (\<Sum>i < length sh. cs ! i * stride sh i)"
proof (induction sh arbitrary: cs)
  case (Cons d sh)
  then obtain c cs' where "cs = c # cs'" "length cs' = length sh" by (cases cs) auto
  with Cons.IH show ?case by (simp add: stride_def sum.lessThan_Suc_shift del: sum.lessThan_Suc)
qed simp

section \<open>The strides of the code\<close>

lemma yields_for_down:
  assumes "I n s" "\<And>i s. i < n \<Longrightarrow> I (Suc i) s \<Longrightarrow> yields E (I i) (f i s)"
  shows "yields E (I 0) (for_each f (rev [0..<n]) s)"
  using assms
proof (induction n arbitrary: s)
  case (Suc n)
  have "yields E (I n) (f n s)" using Suc.prems by simp
  then have "yields E (I 0) (for_each f (n # rev [0..<n]) s)"
    unfolding for_each.simps by (rule yields_pbind) (rule Suc.IH, auto intro: Suc.prems)
  then show ?case by simp
qed simp

text \<open>The running products overflow only for a shape whose element count does, or for an empty tensor.\<close>

definition countable :: "nat list \<Rightarrow> bool" where
  "countable sh \<longleftrightarrow> 0 < prod_list sh \<and> int (prod_list sh) < usize_bound"

lemma row_major_strides_yields:
  assumes "\<not> countable sh \<Longrightarrow> E InvalidShape"
  shows "yields E (\<lambda>st. st = map (stride sh) [0..<length sh]) (row_major_strides sh)"
proof -
  let ?I = "\<lambda>i (st, running). length st = length sh \<and> running = prod_list (drop i sh)
    \<and> (\<forall>j. i \<le> j \<and> j < length sh \<longrightarrow> st ! j = stride sh j)"
  have step: "yields E (?I i) (pbind (vec_set st i running) (\<lambda>st.
      pbind (vec_get sh i) (\<lambda>d. pbind (plift (ok_or InvalidShape (usize_mul running d))) (\<lambda>r. pret (st, r)))))"
    if "i < length sh" "?I (Suc i) (st, running)" for i st running
  proof -
    have run: "prod_list (drop i sh) = running * sh ! i"
      using that by (simp add: Cons_nth_drop_Suc [OF that(1), symmetric] mult.commute del: drop_Suc)
    have "prod_list (drop i sh) dvd prod_list sh"
      by (metis append_take_drop_id dvd_triv_right prod_list.append)
    then have "countable sh \<Longrightarrow> int (running * sh ! i) < usize_bound"
      unfolding countable_def run using dvd_imp_le le_less_trans of_nat_le_iff by metis
    then have "countable sh \<Longrightarrow> int running * int (sh ! i) < usize_bound" by simp
    moreover have "running = stride sh i" using that by (simp add: stride_def)
    ultimately show ?thesis
      using that assms run by (auto simp: yields_bind usize_mul_def nth_list_update le_Suc_eq Suc_le_eq)
  qed
  show ?thesis unfolding row_major_strides_def
  proof (rule yields_pbind [OF yields_for_down [where I = ?I]], goal_cases)
    case (2 i s)
    then show ?case using step [of i "fst s" "snd s"] by (cases s) simp
  next
    case (3 s)
    then show ?case by (auto split: prod.splits intro!: nth_equalityI)
  qed simp
qed

lemma count_elements_countable:
  "0 < prod_list sh \<Longrightarrow> int (c * prod_list sh) < usize_bound \<Longrightarrow> count_elements c sh = Inr (c * prod_list sh)"
proof (induction sh arbitrary: c)
  case (Cons d sh)
  have "c * d \<le> c * prod_list (d # sh)" using Cons.prems(1) by simp
  then have "int (c * d) < usize_bound" using Cons.prems(2) le_less_trans of_nat_le_iff by metis
  then have "usize_mul c d = Some (c * d)" by (simp add: usize_mul_def)
  with Cons show ?case by (simp add: mult.assoc)
qed simp

lemma tensor_new_countable:
  "countable sh \<Longrightarrow> length data = prod_list sh \<Longrightarrow> tensor_new sh data = Inr \<lparr>tn_shape = sh, tn_data = data\<rparr>"
  using count_elements_countable [of sh 1] by (simp add: tensor_new_def element_count_usize_def countable_def)

section \<open>The permutation\<close>

definition axes_inv :: "nat \<Rightarrow> nat list \<times> bool list \<Rightarrow> bool" where
  "axes_inv rank = (\<lambda>(axes, seen). length seen = rank \<and> distinct axes \<and> set axes \<subseteq> {..<rank}
    \<and> (\<forall>a < rank. seen ! a \<longleftrightarrow> a \<in> set axes))"

text \<open>A specification that the check of the axes accepts.\<close>

definition axis_ok :: "f32 \<Rightarrow> bool" where
  "axis_ok raw \<longleftrightarrow> f32_is_finite raw \<and> \<not> f32_lt raw 0 \<and> f32_is_integer raw"

lemma check_axis_yields:
  assumes "axes_inv rank (axes, seen)"
    and "\<not> (axis_ok raw \<and> f32_as_usize raw < rank \<and> f32_as_usize raw \<notin> set axes) \<Longrightarrow> E InvalidIndex"
  shows "yields E (\<lambda>s. axes_inv rank s \<and> fst s = axes @ [f32_as_usize raw]) (check_axis rank raw (axes, seen))"
  using assms by (auto simp: check_axis_def axis_ok_def axes_inv_def Let_def yields_bind nth_list_update)

lemma check_axes_yields:
  assumes "axes_inv rank s"
    and "\<not> (\<forall>raw \<in> set raws. axis_ok raw \<and> f32_as_usize raw < rank) \<or> \<not> distinct (fst s @ map f32_as_usize raws) \<Longrightarrow> E InvalidIndex"
  shows "yields E (\<lambda>s'. axes_inv rank s' \<and> fst s' = fst s @ map f32_as_usize raws) (for_each (check_axis rank) raws s)"
  using assms
proof (induction raws arbitrary: s)
  case (Cons raw raws)
  have "yields E (\<lambda>s'. axes_inv rank s' \<and> fst s' = fst s @ [f32_as_usize raw]) (check_axis rank raw s)"
    using Cons.prems check_axis_yields [of rank "fst s" "snd s" raw E] by auto
  then show ?case unfolding for_each.simps
  proof (rule yields_pbind)
    fix s'
    assume s': "axes_inv rank s' \<and> fst s' = fst s @ [f32_as_usize raw]"
    then have "yields E (\<lambda>t. axes_inv rank t \<and> fst t = fst s' @ map f32_as_usize raws) (for_each (check_axis rank) raws s')"
      using Cons.prems(2) by (intro Cons.IH) auto
    with s' show "yields E (\<lambda>t. axes_inv rank t \<and> fst t = fst s @ map f32_as_usize (raw # raws)) (for_each (check_axis rank) raws s')"
      by simp
  qed
qed simp

lemma permutation_bij:
  assumes "distinct axes" "set axes \<subseteq> {..<length axes}"
  shows "bij_betw (\<lambda>i. axes ! i) {..<length axes} {..<length axes}"
proof -
  have "set axes = {..<length axes}"
    using assms by (intro card_subset_eq) (simp_all add: distinct_card)
  then show ?thesis using assms(1) by (intro bij_betw_nth) simp_all
qed

lemma prod_list_permuted:
  assumes "distinct axes" "set axes \<subseteq> {..<length axes}" "length axes = length sh"
  shows "prod_list (map (\<lambda>a. sh ! a) axes) = prod_list (sh :: nat list)"
proof -
  have "set axes = {..<length axes}"
    using assms by (intro card_subset_eq) (simp_all add: distinct_card)
  then have "set axes = set [0..<length sh]" by (simp only: assms(3) set_upt atLeast0LessThan)
  then have "mset axes = mset [0..<length sh]"
    using assms(1) set_eq_iff_mset_eq_distinct [of axes "[0..<length sh]"] by simp
  then have "mset (map (\<lambda>a. sh ! a) axes) = mset (map (\<lambda>a. sh ! a) [0..<length sh])" by simp
  then have "mset (map (\<lambda>a. sh ! a) axes) = mset sh" by (simp add: map_nth)
  then show ?thesis by (metis prod_mset_prod_list)
qed

text \<open>A permutation of the axes of a shape, and the coordinates of an output position in the input.\<close>

definition permutation :: "nat list \<Rightarrow> nat \<Rightarrow> bool" where
  "permutation axes r \<longleftrightarrow> distinct axes \<and> length axes = r \<and> set axes \<subseteq> {..<r}"

definition source_index :: "nat list \<Rightarrow> nat list \<Rightarrow> nat list \<Rightarrow> nat" where
  "source_index sh axes cs = (\<Sum>j < length axes. cs ! j * stride sh (axes ! j))"

lemma source_index_permuted:
  assumes "permutation axes (length sh)" "length ds = length sh"
  shows "source_index sh axes (map (\<lambda>a. ds ! a) axes) = flat_index sh ds"
proof -
  have "bij_betw (\<lambda>i. axes ! i) {..<length sh} {..<length sh}"
    using permutation_bij [of axes] assms(1) by (auto simp: permutation_def)
  from sum.reindex_bij_betw [OF this, of "\<lambda>a. ds ! a * stride sh a"] assms show ?thesis
    by (simp add: source_index_def flat_index_sum permutation_def)
qed

lemma permuted_coords_exist:
  assumes perm: "permutation axes (length sh)" and cs: "in_shape (map (\<lambda>a. sh ! a) axes) cs"
  obtains ds where "in_shape sh ds" "cs = map (\<lambda>a. ds ! a) axes"
proof
  let ?r = "length sh"
  have bij: "bij_betw (\<lambda>i. axes ! i) {..<?r} {..<?r}"
    using permutation_bij [of axes] perm by (auto simp: permutation_def)
  let ?pos = "inv_into {..<?r} (\<lambda>i. axes ! i)"
  let ?ds = "map (\<lambda>a. cs ! ?pos a) [0..<?r]"
  have pos: "?pos a < ?r" "axes ! ?pos a = a" if "a < ?r" for a
    using bij that bij_betw_inv_into_right [OF bij, of a] bij_betw_inv_into [OF bij, THEN bij_betwE, rule_format, of a]
    by simp_all
  show "in_shape sh ?ds"
    using cs perm pos by (auto simp: in_shape_def permutation_def) (metis nth_map)
  have len: "length axes = ?r" "length cs = ?r" using perm cs by (simp_all add: permutation_def in_shape_def)
  show "cs = map (\<lambda>a. ?ds ! a) axes"
  proof (rule nth_equalityI)
    fix j assume "j < length cs"
    with len bij bij_betw_inv_into_left [OF bij, of j] bij_betwE [OF bij, rule_format, of j]
    show "cs ! j = map (\<lambda>a. ?ds ! a) axes ! j" by simp
  qed (simp add: len)
qed

lemma source_index_less:
  assumes perm: "permutation axes (length sh)" and "in_shape (map (\<lambda>a. sh ! a) axes) cs"
  shows "source_index sh axes cs < prod_list sh"
proof -
  from assms obtain ds where "in_shape sh ds" "cs = map (\<lambda>a. ds ! a) axes" by (rule permuted_coords_exist)
  with perm show ?thesis
    by (simp add: source_index_permuted flat_index_less in_shape_def)
qed

section \<open>The loop over the axes\<close>

lemma coords_drop: "coords (drop j sh) rem = drop j cs \<Longrightarrow> j < length sh \<Longrightarrow> length cs = length sh
    \<Longrightarrow> cs ! j = rem div stride sh j \<and> coords (drop (Suc j) sh) (rem mod stride sh j) = drop (Suc j) cs"
proof -
  assume *: "coords (drop j sh) rem = drop j cs" and j: "j < length sh" "length cs = length sh"
  then have "drop j sh = sh ! j # drop (Suc j) sh" "drop j cs = cs ! j # drop (Suc j) cs"
    by (simp_all add: Cons_nth_drop_Suc)
  with * show ?thesis by (simp add: stride_def)
qed

lemma transpose_index_yields:
  fixes axes sh pos
  defines "out \<equiv> map (\<lambda>a. sh ! a) axes"
  assumes perm: "permutation axes (length sh)" and pos: "pos < prod_list sh" and small: "int (prod_list sh) < usize_bound"
  shows "yields (\<lambda>_. False) (\<lambda>(_, i). i = source_index sh axes (coords out pos))
    (for_each (transpose_step axes (map (stride sh) [0..<length sh]) (map (stride out) [0..<length out]))
      [0..<length sh] (pos, 0))"
proof -
  let ?cs = "coords out pos" and ?r = "length sh"
  let ?part = "\<lambda>j. \<Sum>i < j. ?cs ! i * stride sh (axes ! i)"
  let ?I = "\<lambda>j (rem, i). coords (drop j out) rem = drop j ?cs \<and> i = ?part j"
  have len: "length axes = ?r" "length out = ?r" using perm by (simp_all add: permutation_def out_def)
  have out: "prod_list out = prod_list sh"
    using perm prod_list_permuted [of axes sh] by (simp add: out_def permutation_def)
  then have cs: "in_shape out ?cs" using pos by (simp add: in_shape_coords)
  then have full: "?part ?r < prod_list sh"
    using source_index_less [OF perm, of ?cs] len by (simp add: out_def source_index_def)
  have "?part (Suc j) \<le> ?part ?r" if "j < ?r" for j
    using that by (intro sum_mono2) auto
  with full have bound: "?part j + ?cs ! j * stride sh (axes ! j) < prod_list sh" if "j < ?r" for j
    using that by (auto intro: le_less_trans)
  have pos_prod: "0 < stride out j" if "j < ?r" for j
  proof -
    have "prod_list (drop (Suc j) out) dvd prod_list out"
      by (metis append_take_drop_id dvd_triv_right prod_list.append)
    then show ?thesis using pos out by (auto simp: stride_def intro: gr0I)
  qed
  have ax: "axes ! j < ?r" if "j < ?r" for j
    using perm that nth_mem [of j axes] by (auto simp: permutation_def simp del: nth_mem)
  have step: "yields (\<lambda>_. False) (?I (Suc j))
      (transpose_step axes (map (stride sh) [0..<?r]) (map (stride out) [0..<length out]) j s)"
    if j: "j < ?r" and I: "?I j s" for j s
  proof -
    obtain rem where s: "s = (rem, ?part j)" and c: "coords (drop j out) rem = drop j ?cs" using I by (cases s) auto
    from coords_drop [OF c] j len have c': "?cs ! j = rem div stride out j"
      "coords (drop (Suc j) out) (rem mod stride out j) = drop (Suc j) ?cs" by simp_all
    have "int (?part j + ?cs ! j * stride sh (axes ! j)) < usize_bound"
      using bound [OF j] small by linarith
    then have le: "int (?part j) + int (?cs ! j) * int (stride sh (axes ! j)) < usize_bound" by simp
    moreover have "0 \<le> int (?part j)" by (rule of_nat_0_le_iff)
    ultimately have "int (?cs ! j) * int (stride sh (axes ! j)) < usize_bound" by linarith
    with le show ?thesis
      using j len pos_prod [OF j] ax [OF j] c'
      by (simp add: s transpose_step_def Let_def yields_bind usize_mul_def usize_add_def del: of_nat_sum)
  qed
  have "yields (\<lambda>_. False) (?I ?r)
    (for_each (transpose_step axes (map (stride sh) [0..<?r]) (map (stride out) [0..<length out])) [0..<?r] (pos, 0))"
    by (rule yields_for_upto) (use step in auto)
  then show ?thesis by (rule yields_mono) (auto simp: source_index_def len)
qed

section \<open>Transposition\<close>

text \<open>The input \<open>a\<close> with its axes in the order \<open>axes\<close>.\<close>

definition transposed :: "nat list \<Rightarrow> tensor \<Rightarrow> tensor \<Rightarrow> bool" where
  "transposed axes a b \<longleftrightarrow> permutation axes (tensor_rank a)
    \<and> tn_shape b = map (\<lambda>i. tn_shape a ! i) axes
    \<and> (\<forall>ds. in_shape (tn_shape a) ds \<longrightarrow>
        tn_data b ! flat_index (tn_shape b) (map (\<lambda>i. ds ! i) axes) = tn_data a ! flat_index (tn_shape a) ds)"

lemma yields_errors: "yields E P m \<Longrightarrow> (\<And>e. E e \<Longrightarrow> F e) \<Longrightarrow> yields F P m"
  by (auto simp: yields_cases split: sum.splits)

lemma collect_shape_yields:
  "set axes \<subseteq> {..<length sh} \<Longrightarrow> yields E (\<lambda>s'. s' = s @ map (\<lambda>a. sh ! a) axes)
    (for_each (\<lambda>axis shape. pbind (vec_get sh axis) (\<lambda>d. pret (shape @ [d]))) axes s)"
proof (induction axes arbitrary: s)
  case (Cons a axes)
  from Cons.IH [of "s @ [sh ! a]"] Cons.prems show ?case by (simp add: yields_bind)
qed simp

lemma transpose_data_yields:
  fixes axes a
  defines "out \<equiv> map (\<lambda>i. tn_shape a ! i) axes" and "r \<equiv> length (tn_shape a)" and "n \<equiv> length (tn_data a)"
  assumes ok: "tensor_ok a" and perm: "permutation axes r"
  shows "yields (\<lambda>_. False) (\<lambda>d. length d = n \<and> (\<forall>k < n. d ! k = tn_data a ! source_index (tn_shape a) axes (coords out k)))
    (transpose_data (tn_data a) r axes (map (stride (tn_shape a)) [0..<r]) (map (stride out) [0..<length out]))"
proof -
  let ?sh = "tn_shape a" and ?src = "\<lambda>k. source_index (tn_shape a) axes (coords out k)"
  let ?I = "\<lambda>k d. length d = n \<and> (\<forall>i < k. d ! i = tn_data a ! ?src i)"
  have n: "n = prod_list ?sh" "int (prod_list ?sh) < usize_bound"
    using ok tensor_ok_length [OF ok] tensor_ok_small [OF ok] by (simp_all add: n_def)
  have out: "prod_list out = prod_list ?sh"
    using perm prod_list_permuted [of axes ?sh] by (simp add: out_def permutation_def r_def)
  have src: "?src k < n" if "k < n" for k
    using source_index_less [of axes ?sh] perm in_shape_coords [of k out] that n out by (simp add: out_def r_def)
  show ?thesis unfolding transpose_data_def n_def [symmetric]
  proof (rule yields_for_upto [where I = ?I])
    fix k d
    assume k: "k < n" and I: "?I k d"
    have "yields (\<lambda>_. False) (\<lambda>(_, i). i = ?src k)
        (for_each (transpose_step axes (map (stride ?sh) [0..<r]) (map (stride out) [0..<length out])) [0..<r] (k, 0))"
      using transpose_index_yields [of axes ?sh k] perm k n by (simp add: out_def r_def)
    then show "yields (\<lambda>_. False) (?I (Suc k))
      (pbind (for_each (transpose_step axes (map (stride ?sh) [0..<r]) (map (stride out) [0..<length out])) [0..<r] (k, 0))
          (\<lambda>(_, input_index). pbind (vec_get (tn_data a) input_index) (\<lambda>v. vec_set d k v)))"
      by (rule yields_pbind) (use src [OF k] k I in \<open>auto simp: yields_bind nth_list_update less_Suc_eq n_def\<close>)
  qed simp_all
qed

lemma transpose_axes_yields:
  assumes ok: "tensor_ok a" and perm: "permutation axes (tensor_rank a)" and E: "tn_data a = [] \<Longrightarrow> E InvalidShape"
  shows "yields E (\<lambda>t. tensor_ok t \<and> transposed axes a t) (transpose_axes a axes)"
proof -
  let ?sh = "tn_shape a" and ?out = "map (\<lambda>i. tn_shape a ! i) axes"
  have perm': "permutation axes (length ?sh)" and sub: "set axes \<subseteq> {..<length ?sh}" and len: "length ?out = length ?sh"
    using perm by (simp_all add: permutation_def tensor_rank_def)
  have prod: "prod_list ?out = prod_list ?sh"
    using perm' prod_list_permuted [of axes ?sh] by (simp add: permutation_def)
  have countable: "countable sh" if "tn_data a \<noteq> []" "prod_list sh = prod_list ?sh" for sh
    using that tensor_ok_length [OF ok] tensor_ok_small [OF ok] by (cases "tn_data a") (auto simp: countable_def)
  have strides: "yields E (\<lambda>st. st = map (stride sh) [0..<length sh]) (row_major_strides sh)"
    if "prod_list sh = prod_list ?sh" for sh
    by (rule row_major_strides_yields) (use countable that E in blast)
  have data: "yields E (\<lambda>d. length d = length (tn_data a)
        \<and> (\<forall>k < length (tn_data a). d ! k = tn_data a ! source_index ?sh axes (coords ?out k)))
      (transpose_data (tn_data a) (tensor_rank a) axes (map (stride ?sh) [0..<length ?sh]) (map (stride ?out) [0..<length ?out]))"
    using transpose_data_yields [OF ok perm'] by (auto simp: tensor_rank_def intro: yields_errors)
  have elem: "d ! flat_index ?out (map (\<lambda>i. ds ! i) axes) = tn_data a ! flat_index ?sh ds"
    if d: "\<forall>k < length (tn_data a). d ! k = tn_data a ! source_index ?sh axes (coords ?out k)" and ds: "in_shape ?sh ds" for d ds
  proof -
    have cs: "in_shape ?out (map (\<lambda>i. ds ! i) axes)"
      using ds sub by (auto simp: in_shape_def subset_eq)
    with flat_index_less [OF cs] d prod tensor_ok_length [OF ok] coords_flat_index [OF cs] ds
      source_index_permuted [OF perm', of ds] show ?thesis by (simp add: in_shape_def)
  qed
  have new: "yields E (\<lambda>t. tensor_ok t \<and> transposed axes a t) (plift (tensor_new ?out d))"
    if d: "length d = length (tn_data a)" "\<forall>k < length (tn_data a). d ! k = tn_data a ! source_index ?sh axes (coords ?out k)" for d
  proof (cases "tensor_new ?out d")
    case (Inl e)
    with d(1) prod tensor_ok_length [OF ok] have "e = InvalidShape" by (auto dest: tensor_new_Inl)
    moreover have "tn_data a = []"
      using Inl countable [of ?out] prod d(1) tensor_ok_length [OF ok] tensor_new_countable [of ?out d] by auto
    ultimately show ?thesis using Inl E by simp
  next
    case (Inr t)
    then have "tensor_ok t \<and> transposed axes a t" using perm elem d by (auto simp: tensor_new_Inr transposed_def)
    with Inr show ?thesis by simp
  qed
  show ?thesis unfolding transpose_axes_def
    by (rule yields_pbind [OF collect_shape_yields [OF sub]], simp only: append_Nil, rule yields_pbind [OF strides [OF refl]],
        simp only:, rule yields_pbind [OF strides [OF prod]], simp only:, rule yields_pbind [OF data]) (use new in blast)
qed

lemma transpose_yields:
  assumes "\<forall>t \<in> set inputs. tensor_ok t"
  shows "yields op_error (\<lambda>t. tensor_ok t \<and> transposed (map f32_as_usize (tn_data (inputs ! 1))) (inputs ! 0) t)
    (transpose_tensor inputs)"
  unfolding transpose_tensor_def Let_def
proof ((intro yields_arity yields_input yields_fail_if yields_pbind [OF check_axes_yields]; simp?), goal_cases)
  case 1
  then show ?case by (simp add: axes_inv_def)
next
  case (2 s)
  then have "permutation (fst s) (tensor_rank (inputs ! 0))" "fst s = map f32_as_usize (tn_data (inputs ! 1))"
    by (auto simp: axes_inv_def permutation_def split: prod.splits)
  moreover have "tensor_ok (inputs ! 0)" using 2 assms by simp
  ultimately show ?case
    using transpose_axes_yields [of "inputs ! 0" "fst s" op_error] by (cases s) simp
qed

text \<open>A permutation of the axes of a non-empty tensor is always accepted.\<close>

lemma transpose_accepts:
  assumes ok: "tensor_ok a" and data: "tn_data a \<noteq> []" and rank: "0 < tensor_rank a" "tensor_rank axes = 1"
    and perm: "permutation (map f32_as_usize (tn_data axes)) (tensor_rank a)" and raws: "\<forall>raw \<in> set (tn_data axes). axis_ok raw"
  shows "yields (\<lambda>_. False) (\<lambda>t. tensor_ok t \<and> transposed (map f32_as_usize (tn_data axes)) a t) (transpose_tensor [a, axes])"
proof -
  have len: "length (tn_data axes) = tensor_rank a" using perm by (simp add: permutation_def)
  have "yields (\<lambda>_. False) (\<lambda>s. axes_inv (tensor_rank a) s
      \<and> fst s = fst ([] :: nat list, replicate (tensor_rank a) False) @ map f32_as_usize (tn_data axes))
    (for_each (check_axis (tensor_rank a)) (tn_data axes) ([], replicate (tensor_rank a) False))"
    using perm raws by (intro check_axes_yields) (auto simp: axes_inv_def permutation_def)
  then have "yields (\<lambda>_. False) (\<lambda>t. tensor_ok t \<and> transposed (map f32_as_usize (tn_data axes)) a t)
      (pbind (for_each (check_axis (tensor_rank a)) (tn_data axes) ([], replicate (tensor_rank a) False))
        (\<lambda>(axes, _). transpose_axes a axes))"
    using transpose_axes_yields [OF ok perm, of "\<lambda>_. False"] data by (elim yields_pbind) auto
  with rank len show ?thesis by (simp add: transpose_tensor_def require_arity_def vec_get_def Let_def)
qed

section \<open>The reference provider\<close>

text \<open>What an operation promises about its output.\<close>

fun output_matches :: "tensor_op \<Rightarrow> tensor list \<Rightarrow> tensor \<Rightarrow> bool" where
  "output_matches MatMul inputs t \<longleftrightarrow> tn_shape t = [tn_shape (inputs ! 0) ! 0, tn_shape (inputs ! 1) ! 1]"
| "output_matches QuantizedMatMul inputs t \<longleftrightarrow> tn_shape t = [tn_shape (inputs ! 0) ! 0, tn_shape (inputs ! 1) ! 1]"
| "output_matches Gather inputs t \<longleftrightarrow> tn_shape t = [length (tn_data (inputs ! 1)), tn_shape (inputs ! 0) ! 1]"
| "output_matches Reshape inputs t \<longleftrightarrow> tn_data t = tn_data (inputs ! 0)"
| "output_matches Transpose inputs t \<longleftrightarrow> transposed (map f32_as_usize (tn_data (inputs ! 1))) (inputs ! 0) t"
| "output_matches _ inputs t \<longleftrightarrow> tn_shape t = tn_shape (inputs ! 0)"

lemma reference_op_yields:
  "\<forall>t \<in> set inputs. tensor_ok t \<Longrightarrow> \<not> oversized op inputs \<Longrightarrow> yields op_error (\<lambda>t. tensor_ok t \<and> output_matches op inputs t) (reference_op lm op inputs)"
  by (cases op) (simp_all add: oversized_quantized elementwise_yields matmul_yields [simplified] rms_norm_yields softmax_yields gather_yields [simplified]
      rotary_position_yields causal_attention_yields silu_yields reshape_yields transpose_yields [simplified] position_ids_yields)

lemma cpu_reference_yields:
  "\<forall>t \<in> set inputs. tensor_ok t \<Longrightarrow> \<not> oversized op inputs \<Longrightarrow>
    yields op_error (\<lambda>ts. \<exists>t. ts = [t] \<and> tensor_ok t \<and> output_matches op inputs t) (cpu_reference lm op inputs)"
  unfolding cpu_reference_def by (rule yields_pbind [OF reference_op_yields]) auto

lemma cpu_reference_oversized: "oversized op inputs \<Longrightarrow> cpu_reference lm op inputs = None"
  using oversized_panics [of op inputs] by (auto simp: cpu_reference_def)

text \<open>
  C10: on well-formed tensors every index of every loop nest of the reference provider lies inside its
  vector, whatever the mathematical library computes: an operation panics only in the reservation
  of a result of more than \<open>isize::MAX\<close> bytes, which a product and a gather may ask for, and then
  always. Otherwise it returns an error about the arity, the shapes or an index, never a wrong element count, or exactly one
  well-formed tensor, with the shape that the operation promises; \<open>Reshape\<close> keeps the elements in order.
\<close>

theorem cpu_reference_safe:
  assumes "\<forall>t \<in> set inputs. tensor_ok t"
  shows "case cpu_reference lm op inputs of
      None \<Rightarrow> oversized op inputs
    | Some r \<Rightarrow> \<not> oversized op inputs \<and> (case r of Inl e \<Rightarrow> op_error e
        | Inr ts \<Rightarrow> \<exists>t. ts = [t] \<and> tensor_ok t \<and> output_matches op inputs t)"
proof (cases "oversized op inputs")
  case False
  from cpu_reference_yields [OF assms this, of lm] False show ?thesis by (auto simp: yields_cases)
qed (simp add: cpu_reference_oversized)

text \<open>An empty product that panics: the operands have no elements, the result would have \<open>2 ^ 62\<close>.\<close>

theorem empty_product_panics:
  "cpu_reference lm MatMul [\<lparr>tn_shape = [2 ^ 62, 0], tn_data = []\<rparr>, \<lparr>tn_shape = [0, 1], tn_data = []\<rparr>] = None
    \<and> tensor_ok \<lparr>tn_shape = [2 ^ 62, 0], tn_data = []\<rparr> \<and> tensor_ok \<lparr>tn_shape = [0, 1], tn_data = []\<rparr>"
proof -
  have "oversized MatMul [\<lparr>tn_shape = [2 ^ 62, 0], tn_data = []\<rparr>, \<lparr>tn_shape = [0, 1], tn_data = []\<rparr>]"
    by (simp add: oversized_def product_elements_def usize_bound_def)
  then show ?thesis
    by (simp add: cpu_reference_oversized tensor_ok_def element_count_usize_def usize_mul_def usize_bound_def)
qed

text \<open>A mathematical library for the examples, and a matrix.\<close>

definition sample_libm :: libm where
  "sample_libm = \<lparr>lm_exp = \<lambda>x. x, lm_sin = \<lambda>x. x, lm_cos = \<lambda>x. x, lm_powf = \<lambda>x y. x\<rparr>"

definition sample_matrix :: tensor where
  "sample_matrix = \<lparr>tn_shape = [1, 2], tn_data = [f32_of_int 3, f32_of_int 4]\<rparr>"

definition sample_column :: tensor where
  "sample_column = \<lparr>tn_shape = [2, 1], tn_data = [f32_of_int 5, f32_of_int 6]\<rparr>"

lemma sample_tensors_ok [simp]: "tensor_ok sample_matrix" "tensor_ok sample_column"
  by (simp_all add: tensor_ok_def sample_matrix_def sample_column_def element_count_usize_def usize_mul_def usize_bound_def)

lemma sample_product:
  "cpu_reference sample_libm MatMul [sample_matrix, sample_column] = Some (Inr [\<lparr>tn_shape = [1, 1], tn_data = [f32_of_int 39]\<rparr>])"
  by code_simp

theorem cpu_reference_safe_witness:
  "cpu_reference sample_libm MatMul [sample_matrix, sample_column] = Some (Inr [\<lparr>tn_shape = [1, 1], tn_data = [f32_of_int 39]\<rparr>])
    \<and> tensor_ok \<lparr>tn_shape = [1, 1], tn_data = [f32_of_int 39]\<rparr>"
  using cpu_reference_safe [where inputs = "[sample_matrix, sample_column]" and lm = sample_libm and op = MatMul] sample_product by auto

text \<open>
  C18: \<open>transpose\<close> with a permutation of the axes of a non-empty tensor always succeeds, and the dimensions of its
  result are the permuted ones and its element at the permuted coordinates is the element of the
  input at the coordinates.
\<close>

theorem transpose_correct:
  assumes "tensor_ok a" "tn_data a \<noteq> []" "0 < tensor_rank a" "tensor_rank axes = 1"
    and "permutation (map f32_as_usize (tn_data axes)) (tensor_rank a)" "\<forall>raw \<in> set (tn_data axes). axis_ok raw"
  shows "\<exists>t. transpose_tensor [a, axes] = Some (Inr t) \<and> tensor_ok t \<and> transposed (map f32_as_usize (tn_data axes)) a t"
  using transpose_accepts [OF assms] by (cases "transpose_tensor [a, axes]" rule: run_cases) auto

theorem transpose_correct_witness:
  "\<exists>t. transpose_tensor [sample_matrix, \<lparr>tn_shape = [2], tn_data = [f32_of_int 1, 0]\<rparr>] = Some (Inr t)
    \<and> transposed [1, 0] sample_matrix t"
proof -
  have idx: "f32_as_usize (f32_of_int 1) = 1" "f32_as_usize 0 = 0" by code_simp+
  moreover have "axis_ok (f32_of_int 1)" "axis_ok 0" by code_simp+
  ultimately show ?thesis
    using transpose_correct [of sample_matrix "\<lparr>tn_shape = [2], tn_data = [f32_of_int 1, 0]\<rparr>"]
    by (auto simp: tensor_rank_def permutation_def; auto simp: sample_matrix_def)
qed

end
