(* ===== verification/Graph_Executor.thy ===== *)
theory Graph_Executor
  imports Tensor_Layout Rust_BTreeMap
begin

text \<open>
  The graph executor, \<open>crates/ntd-runtime/src/executor.rs\<close>: a validated graph is evaluated node by node
  in an environment of tensors. Inputs that the caller does not supply are resolved when a node first
  needs them, and a value is released after its last use. \<open>eval_graph\<close> is the reference: the same evaluation
  in an environment from which nothing is ever released. A map that the code only looks up is a
  function to \<open>option\<close>; the inputs, over which the code iterates, are an ordered map.
\<close>

section \<open>Definitions\<close>

datatype tensor_resolve_error = ResolveUnavailable | ResolveInvalid

datatype execution_error =
  InvalidGraph validation_error
| MissingGraphInput value_id
| MissingValue node_id value_id
| UnsupportedNode node_id
| ProviderError node_id tensor_error
| OutputArity node_id nat nat
| OutputType node_id value_id
| OutputRank node_id value_id nat nat
| ResolveError value_id tensor_resolve_error

type_synonym env = "value_id \<Rightarrow> tensor option"
type_synonym resolver = "value_id \<Rightarrow> tensor_resolve_error + tensor option"

definition empty_resolver :: resolver where
  "empty_resolver v = Inr None"

definition validate_decl :: "node_id \<Rightarrow> value_decl \<Rightarrow> tensor \<Rightarrow> execution_error + unit" where
  "validate_decl node decl t =
    rbind (case vd_ty decl of
        Scalar _ \<Rightarrow> Inr 0
      | Tensor _ rank \<Rightarrow> Inr (unat rank)
      | Bytes \<Rightarrow> Inl (OutputType node (vd_id decl))
      | Handle \<Rightarrow> Inl (OutputType node (vd_id decl))) (\<lambda>expected_rank.
      if tensor_rank t \<noteq> expected_rank then Inl (OutputRank node (vd_id decl) expected_rank (tensor_rank t))
      else Inr ())"

text \<open>\<open>graph.inputs.iter().map(|decl| (decl.id, *decl)).collect::<BTreeMap<_, _>>()\<close>\<close>

definition input_decls :: "graph \<Rightarrow> value_id \<Rightarrow> value_decl option" where
  "input_decls g = foldl (\<lambda>m d. m(vd_id d \<mapsto> d)) Map.empty (gr_inputs g)"

text \<open>\<open>*remaining_uses.entry(*value).or_default() += 1\<close>\<close>

definition use_count :: "(value_id \<Rightarrow> nat option) \<Rightarrow> value_id \<Rightarrow> nat" where
  "use_count uses v = (case uses v of None \<Rightarrow> 0 | Some n \<Rightarrow> n)"

definition remaining_uses :: "node list \<Rightarrow> value_id \<Rightarrow> nat option" where
  "remaining_uses nodes =
    foldl (\<lambda>uses node. foldl (\<lambda>uses v. uses(v \<mapsto> use_count uses v + 1)) uses (nd_inputs node)) Map.empty nodes"

text \<open>The identifier that the errors of graph inputs and outputs carry.\<close>

definition no_node :: node_id where
  "no_node = 0xffffffff"

definition load_input ::
    "(value_id \<Rightarrow> value_decl option) \<Rightarrow> value_id \<times> tensor \<Rightarrow> env \<Rightarrow> (execution_error, env) run" where
  "load_input decls = (\<lambda>(v, t) values.
    case decls v of
      Some decl \<Rightarrow> pbind (plift (validate_decl no_node decl t)) (\<lambda>_. pret (values(v \<mapsto> t)))
    | None \<Rightarrow> pret values)"

definition resolve_input ::
    "(value_id \<Rightarrow> value_decl option) \<Rightarrow> resolver \<Rightarrow> node_id \<Rightarrow> value_id \<Rightarrow> env \<Rightarrow> (execution_error, env) run" where
  "resolve_input decls resolve node v values =
    (if values v \<noteq> None then pret values
     else case decls v of
       None \<Rightarrow> pfail (MissingValue node v)
     | Some decl \<Rightarrow>
         pbind (plift (map_err (ResolveError v) (resolve v))) (\<lambda>found.
         pbind (plift (ok_or (MissingGraphInput v) found)) (\<lambda>t.
         pbind (plift (validate_decl no_node decl t)) (\<lambda>_.
           pret (values(v \<mapsto> t))))))"

definition collect_values :: "node_id \<Rightarrow> env \<Rightarrow> value_id list \<Rightarrow> (execution_error, tensor list) run" where
  "collect_values node values vs =
    for_each (\<lambda>v ts. pbind (plift (ok_or (MissingValue node v) (values v))) (\<lambda>t. pret (ts @ [t]))) vs []"

definition release_value ::
    "value_id set \<Rightarrow> value_id \<Rightarrow> (value_id \<Rightarrow> nat option) \<times> env \<Rightarrow> (value_id \<Rightarrow> nat option) \<times> env" where
  "release_value output_ids v = (\<lambda>(uses, values).
    case uses v of
      None \<Rightarrow> (uses, values)
    | Some remaining \<Rightarrow>
        (uses(v \<mapsto> remaining - 1),
         if remaining - 1 = 0 \<and> v \<notin> output_ids then values(v := None) else values))"

definition store_output :: "node_id \<Rightarrow> value_decl \<times> tensor \<Rightarrow> env \<Rightarrow> (execution_error, env) run" where
  "store_output node = (\<lambda>(decl, t) values.
    pbind (plift (validate_decl node decl t)) (\<lambda>_. pret (values(vd_id decl \<mapsto> t))))"

text \<open>A node up to the outputs of its provider, which both evaluations share.\<close>

definition run_provider ::
    "provider \<Rightarrow> (value_id \<Rightarrow> value_decl option) \<Rightarrow> resolver \<Rightarrow> node \<Rightarrow> env \<Rightarrow> (execution_error, env \<times> tensor list) run" where
  "run_provider provider decls resolve node values =
    (case nd_op node of
      TensorOp op \<Rightarrow>
        pbind (for_each (resolve_input decls resolve (nd_id node)) (nd_inputs node) values) (\<lambda>values.
        pbind (collect_values (nd_id node) values (nd_inputs node)) (\<lambda>args.
        pbind (map_option (map_err (ProviderError (nd_id node))) (provider op args)) (\<lambda>outputs.
          if length outputs \<noteq> length (nd_outputs node)
          then pfail (OutputArity (nd_id node) (length (nd_outputs node)) (length outputs))
          else pret (values, outputs))))
    | _ \<Rightarrow> pfail (UnsupportedNode (nd_id node)))"

definition execute_node ::
    "provider \<Rightarrow> (value_id \<Rightarrow> value_decl option) \<Rightarrow> resolver \<Rightarrow> value_id set \<Rightarrow> node
      \<Rightarrow> (value_id \<Rightarrow> nat option) \<times> env \<Rightarrow> (execution_error, (value_id \<Rightarrow> nat option) \<times> env) run" where
  "execute_node provider decls resolve output_ids node = (\<lambda>(uses, values).
    pbind (run_provider provider decls resolve node values) (\<lambda>(values, outputs).
      let (uses, values) = foldl (\<lambda>s v. release_value output_ids v s) (uses, values) (nd_inputs node) in
      pbind (for_each (store_output (nd_id node)) (zip (nd_outputs node) outputs) values) (\<lambda>values.
        pret (uses, values))))"

definition execute_with_resolver ::
    "provider \<Rightarrow> graph \<Rightarrow> (value_id, tensor) btmap \<Rightarrow> resolver \<Rightarrow> (execution_error, tensor list) run" where
  "execute_with_resolver provider g inputs resolve =
    pbind (plift (map_err InvalidGraph (graph_validate g))) (\<lambda>_.
    pbind (for_each (load_input (input_decls g)) inputs Map.empty) (\<lambda>values.
    pbind (for_each (execute_node provider (input_decls g) resolve (set (gr_outputs g))) (gr_nodes g)
        (remaining_uses (gr_nodes g), values)) (\<lambda>(_, values).
      collect_values no_node values (gr_outputs g))))"

definition execute_graph :: "provider \<Rightarrow> graph \<Rightarrow> (value_id, tensor) btmap \<Rightarrow> (execution_error, tensor list) run" where
  "execute_graph provider g inputs = execute_with_resolver provider g inputs empty_resolver"

section \<open>The reference evaluation\<close>

definition eval_node ::
    "provider \<Rightarrow> (value_id \<Rightarrow> value_decl option) \<Rightarrow> resolver \<Rightarrow> node \<Rightarrow> env \<Rightarrow> (execution_error, env) run" where
  "eval_node provider decls resolve node values =
    pbind (run_provider provider decls resolve node values) (\<lambda>(values, outputs).
      for_each (store_output (nd_id node)) (zip (nd_outputs node) outputs) values)"

definition eval_graph ::
    "provider \<Rightarrow> graph \<Rightarrow> (value_id, tensor) btmap \<Rightarrow> resolver \<Rightarrow> (execution_error, tensor list) run" where
  "eval_graph provider g inputs resolve =
    pbind (plift (map_err InvalidGraph (graph_validate g))) (\<lambda>_.
    pbind (for_each (load_input (input_decls g)) inputs Map.empty) (\<lambda>values.
    pbind (for_each (eval_node provider (input_decls g) resolve) (gr_nodes g) values) (\<lambda>values.
      collect_values no_node values (gr_outputs g))))"

section \<open>Releasing values does not change the result\<close>

text \<open>Two runs end alike: they panic together, fail with the same error, or return related values.\<close>

abbreviation alike :: "('a \<Rightarrow> 'b \<Rightarrow> bool) \<Rightarrow> ('e, 'a) run \<Rightarrow> ('e, 'b) run \<Rightarrow> bool" where
  "alike R \<equiv> rel_option (rel_sum (=) R)"

lemma alike_pbind:
  "alike R m n \<Longrightarrow> (\<And>a b. R a b \<Longrightarrow> alike Q (f a) (g b)) \<Longrightarrow> alike Q (pbind m f) (pbind n g)"
  by (cases m rule: run_cases; cases n rule: run_cases) auto

lemma alike_pret [simp]: "alike R (pret a) (pret b) \<longleftrightarrow> R a b"
  by (simp add: pret_def)

lemma alike_pfail [simp]: "alike R (pfail e) (pfail e)"
  by (simp add: pfail_def)

lemma alike_refl: "(\<And>a. R a a) \<Longrightarrow> alike R m m"
  by (simp add: option.rel_refl sum.rel_refl)

lemma alike_for_each:
  assumes "R s t" "\<And>x s t. x \<in> set xs \<Longrightarrow> R s t \<Longrightarrow> alike R (f x s) (g x t)"
  shows "alike R (for_each f xs s) (for_each g xs t)"
  using assms
proof (induction xs arbitrary: s t)
  case (Cons x xs)
  have "alike R (f x s) (g x t)" using Cons.prems by simp
  then show ?case unfolding for_each.simps
    by (rule alike_pbind) (rule Cons.IH, auto intro: Cons.prems)
qed simp

definition agree :: "value_id set \<Rightarrow> env \<Rightarrow> env \<Rightarrow> bool" where
  "agree live a b \<longleftrightarrow> (\<forall>v \<in> live. a v = b v)"

lemma agree_update [simp]: "agree live a b \<Longrightarrow> agree live (a(v := t)) (b(v := t))"
  by (simp add: agree_def)

lemma resolve_input_alike:
  "agree live a b \<Longrightarrow> v \<in> live \<Longrightarrow>
    alike (agree live) (resolve_input decls resolve node v a) (resolve_input decls resolve node v b)"
  by (auto simp: resolve_input_def agree_def split: option.splits intro!: alike_pbind [where R = "(=)"] alike_refl)

lemma collect_values_agree:
  "agree live a b \<Longrightarrow> set vs \<subseteq> live \<Longrightarrow> collect_values node a vs = collect_values node b vs"
  unfolding collect_values_def by (rule for_each_cong) (auto simp: agree_def)

lemma run_provider_alike:
  assumes "agree live a b" "set (nd_inputs node) \<subseteq> live"
  shows "alike (rel_prod (agree live) (=)) (run_provider provider decls resolve node a)
    (run_provider provider decls resolve node b)"
proof (cases "nd_op node")
  case (TensorOp op)
  have "alike (agree live) (for_each (resolve_input decls resolve (nd_id node)) (nd_inputs node) a)
      (for_each (resolve_input decls resolve (nd_id node)) (nd_inputs node) b)"
    using assms by (intro alike_for_each resolve_input_alike) auto
  then show ?thesis
    unfolding run_provider_def TensorOp op_kind.case
    using assms(2) collect_values_agree
    by (elim alike_pbind) (auto intro!: alike_pbind [where R = "(=)"] alike_refl)
qed (simp_all add: run_provider_def)

lemma store_outputs_alike:
  "agree live a b \<Longrightarrow> alike (agree live) (for_each (store_output node) ds a) (for_each (store_output node) ds b)"
  by (intro alike_for_each) (auto simp: store_output_def intro!: alike_pbind [where R = "(=)"] alike_refl)

text \<open>The counters of the uses: what is left of them, and what they protect.\<close>

definition uses_of :: "node list \<Rightarrow> value_id \<Rightarrow> nat" where
  "uses_of nodes v = count_list (concat (map nd_inputs nodes)) v"

lemma uses_of_simps [simp]:
  "uses_of [] v = 0" "uses_of (n # ns) v = count_list (nd_inputs n) v + uses_of ns v"
  by (simp_all add: uses_of_def count_list_append)

lemma count_uses_list:
  "use_count (foldl (\<lambda>uses v. uses(v \<mapsto> Suc (use_count uses v))) uses vs) w = use_count uses w + count_list vs w"
  by (induction vs arbitrary: uses) (auto simp: use_count_def)

lemma remaining_uses_count: "use_count (remaining_uses nodes) v = uses_of nodes v"
proof -
  have "use_count (foldl (\<lambda>uses node. foldl (\<lambda>uses v. uses(v \<mapsto> use_count uses v + 1)) uses (nd_inputs node)) uses nodes) v
      = use_count uses v + uses_of nodes v" for uses
    by (induction nodes arbitrary: uses) (simp_all add: count_uses_list)
  from this [of Map.empty] show ?thesis by (simp add: remaining_uses_def use_count_def)
qed

lemma release_step:
  assumes "release_value outs x (uses, a) = (uses', a')"
  shows "use_count uses' v = use_count uses v - (if v = x then 1 else 0)"
    and "0 < use_count uses' v \<or> v \<in> outs \<or> v \<noteq> x \<Longrightarrow> a' v = a v"
  using assms by (auto simp: release_value_def use_count_def split: option.splits if_splits)

lemma release_values:
  assumes "foldl (\<lambda>s v. release_value outs v s) (uses, a) vs = (uses', a')"
  shows "use_count uses' v = use_count uses v - count_list vs v
    \<and> (0 < use_count uses' v \<or> v \<in> outs \<longrightarrow> a' v = a v)"
  using assms
proof (induction vs arbitrary: uses a)
  case (Cons x vs)
  obtain uses1 a1 where first: "release_value outs x (uses, a) = (uses1, a1)" by fastforce
  with Cons.prems have "foldl (\<lambda>s v. release_value outs v s) (uses1, a1) vs = (uses', a')" by simp
  from Cons.IH [OF this] release_step [OF first, of v] show ?case by auto
qed simp

text \<open>The states of the two evaluations before the nodes \<open>rest\<close>.\<close>

definition simulates :: "value_id set \<Rightarrow> node list \<Rightarrow> (value_id \<Rightarrow> nat option) \<times> env \<Rightarrow> env \<Rightarrow> bool" where
  "simulates outs rest = (\<lambda>(uses, a) b.
    (\<forall>v. use_count uses v = uses_of rest v) \<and> agree ({v. 0 < uses_of rest v} \<union> outs) a b)"

lemma execute_node_alike:
  assumes "simulates outs (node # rest) s b"
  shows "alike (simulates outs rest) (execute_node provider decls resolve outs node s) (eval_node provider decls resolve node b)"
proof -
  obtain uses a where s: "s = (uses, a)" by (cases s)
  let ?live = "{v. 0 < uses_of (node # rest) v} \<union> outs" and ?later = "{v. 0 < uses_of rest v} \<union> outs"
  from assms have uses: "use_count uses v = uses_of (node # rest) v" and ab: "agree ?live a b" for v
    by (simp_all add: s simulates_def)
  have "set (nd_inputs node) \<subseteq> ?live" 
    using count_list_pos by (fastforce simp: Suc_le_eq)
  from run_provider_alike [OF ab this] show ?thesis
    unfolding execute_node_def eval_node_def s split
  proof (rule alike_pbind)
    fix p q :: "env \<times> tensor list"
    assume "rel_prod (agree ?live) (=) p q"
    then obtain a1 b1 outputs where p: "p = (a1, outputs)" "q = (b1, outputs)" and agree1: "agree ?live a1 b1"
      by (cases p; cases q) auto
    obtain uses2 a2 where rel: "foldl (\<lambda>s v. release_value outs v s) (uses, a1) (nd_inputs node) = (uses2, a2)" by fastforce
    note rel' = release_values [OF rel]
    have uses2: "use_count uses2 v = uses_of rest v" for v using rel' [of v] uses by simp
    have "a2 v = b1 v" if "v \<in> ?later" for v
      using rel' [of v] that uses2 [of v] agree1 by (auto simp: agree_def)
    then have "agree ?later a2 b1" by (simp add: agree_def)
    from store_outputs_alike [OF this, of "nd_id node" "zip (nd_outputs node) outputs"]
    have "alike (simulates outs rest)
        (pbind (for_each (store_output (nd_id node)) (zip (nd_outputs node) outputs) a2) (\<lambda>a3. pret (uses2, a3)))
        (pbind (for_each (store_output (nd_id node)) (zip (nd_outputs node) outputs) b1) pret)"
      by (rule alike_pbind) (simp add: simulates_def uses2)
    then show "alike (simulates outs rest)
       (case p of (a, outputs) \<Rightarrow> let (uses, a) = foldl (\<lambda>s v. release_value outs v s) (uses, a) (nd_inputs node)
        in pbind (for_each (store_output (nd_id node)) (zip (nd_outputs node) outputs) a) (\<lambda>a. pret (uses, a)))
       (case q of (b, outputs) \<Rightarrow> for_each (store_output (nd_id node)) (zip (nd_outputs node) outputs) b)"
      by (simp add: p rel)
  qed
qed

lemma execute_nodes_alike:
  "simulates outs nodes s b \<Longrightarrow> alike (simulates outs [])
    (for_each (execute_node provider decls resolve outs) nodes s) (for_each (eval_node provider decls resolve) nodes b)"
proof (induction nodes arbitrary: s b)
  case (Cons node nodes)
  from execute_node_alike [OF Cons.prems] show ?case unfolding for_each.simps
    by (rule alike_pbind) (rule Cons.IH)
qed simp

lemma execute_is_eval:
  "execute_with_resolver provider g inputs resolve = eval_graph provider g inputs resolve"
proof -
  let ?d = "input_decls g" and ?outs = "set (gr_outputs g)"
  have nodes: "pbind (for_each (execute_node provider ?d resolve ?outs) (gr_nodes g) (remaining_uses (gr_nodes g), a))
        (\<lambda>(_, values). collect_values no_node values (gr_outputs g))
      = pbind (for_each (eval_node provider ?d resolve) (gr_nodes g) a)
        (\<lambda>values. collect_values no_node values (gr_outputs g))" for a
  proof -
    have "simulates ?outs (gr_nodes g) (remaining_uses (gr_nodes g), a) a"
      by (simp add: simulates_def remaining_uses_count agree_def)
    from execute_nodes_alike [OF this, of provider ?d resolve]
    have "alike (=) (pbind (for_each (execute_node provider ?d resolve ?outs) (gr_nodes g) (remaining_uses (gr_nodes g), a))
        (\<lambda>(_, values). collect_values no_node values (gr_outputs g)))
      (pbind (for_each (eval_node provider ?d resolve) (gr_nodes g) a)
        (\<lambda>values. collect_values no_node values (gr_outputs g)))"
      by (rule alike_pbind)
        (auto simp: simulates_def intro!: alike_refl dest!: collect_values_agree [where vs = "gr_outputs g" and node = no_node])
    then show ?thesis by (simp add: sum.rel_eq option.rel_eq)
  qed
  show ?thesis by (simp add: execute_with_resolver_def eval_graph_def nodes)
qed

section \<open>What every evaluation guarantees\<close>

text \<open>\<open>outcome N E P m\<close>: \<open>m\<close> panics only under \<open>N\<close>, fails only with an error in \<open>E\<close> and returns only values in \<open>P\<close>.\<close>

fun outcome :: "bool \<Rightarrow> ('e \<Rightarrow> bool) \<Rightarrow> ('a \<Rightarrow> bool) \<Rightarrow> ('e, 'a) run \<Rightarrow> bool" where
  "outcome N E P None \<longleftrightarrow> N"
| "outcome N E P (Some (Inl e)) \<longleftrightarrow> E e"
| "outcome N E P (Some (Inr a)) \<longleftrightarrow> P a"

lemma outcome_basic [simp]: "outcome N E P (pret a) \<longleftrightarrow> P a" "outcome N E P (pfail e) \<longleftrightarrow> E e"
  by (simp_all add: pret_def pfail_def)

lemma outcome_pbind: "outcome N E Q m \<Longrightarrow> (\<And>a. m = Some (Inr a) \<Longrightarrow> Q a \<Longrightarrow> outcome N E P (f a)) \<Longrightarrow> outcome N E P (pbind m f)"
  by (cases m rule: run_cases) simp_all

lemma outcome_mono: "outcome N E P m \<Longrightarrow> (\<And>a. m = Some (Inr a) \<Longrightarrow> P a \<Longrightarrow> Q a) \<Longrightarrow> outcome N E Q m"
  by (cases m rule: run_cases) simp_all

lemma outcome_yields: "yields E P m \<Longrightarrow> outcome N E P m"
  by (cases m rule: run_cases) simp_all

lemma outcome_cases: "outcome N E P m \<longleftrightarrow> (case m of None \<Rightarrow> N | Some (Inl e) \<Rightarrow> E e | Some (Inr a) \<Rightarrow> P a)"
  by (cases m rule: run_cases) simp_all

text \<open>
  The contract of a provider: on well-formed tensors it returns, with an error or with
  well-formed tensors, but for the calls that make it panic.
\<close>

locale tensor_provider =
  fixes run :: provider and panics :: "tensor_op \<Rightarrow> tensor list \<Rightarrow> bool"
  assumes run_safe: "\<forall>t \<in> set inputs. tensor_ok t \<Longrightarrow>
      outcome (panics op inputs) (\<lambda>_. True) (\<lambda>ts. \<forall>t \<in> set ts. tensor_ok t) (run op inputs)"
    and run_panics: "panics op inputs \<Longrightarrow> run op inputs = None"

text \<open>The rank that a declaration asks for, and the environments that respect the declarations.\<close>

fun declared_rank :: "value_type \<Rightarrow> nat option" where
  "declared_rank (Scalar _) = Some 0"
| "declared_rank (Tensor _ rank) = Some (unat rank)"
| "declared_rank Bytes = None"
| "declared_rank Handle = None"

definition graph_decls :: "graph \<Rightarrow> value_decl list" where
  "graph_decls g = gr_inputs g @ concat (map nd_outputs (gr_nodes g))"

definition typed_value :: "value_decl set \<Rightarrow> value_id \<Rightarrow> tensor \<Rightarrow> bool" where
  "typed_value decls v t \<longleftrightarrow> tensor_ok t \<and> (\<exists>d \<in> decls. vd_id d = v \<and> declared_rank (vd_ty d) = Some (tensor_rank t))"

definition typed_env :: "value_decl set \<Rightarrow> env \<Rightarrow> bool" where
  "typed_env decls a \<longleftrightarrow> (\<forall>v t. a v = Some t \<longrightarrow> typed_value decls v t)"

lemma validate_decl_Inr: "validate_decl node decl t = Inr () \<longleftrightarrow> declared_rank (vd_ty decl) = Some (tensor_rank t)"
  by (cases "vd_ty decl") (auto simp: validate_decl_def)

lemma typed_env_store [simp]:
  "typed_env decls a \<Longrightarrow> d \<in> decls \<Longrightarrow> tensor_ok t \<Longrightarrow> declared_rank (vd_ty d) = Some (tensor_rank t)
    \<Longrightarrow> typed_env decls (a(vd_id d \<mapsto> t))"
  by (auto simp: typed_env_def typed_value_def)

lemma typed_env_empty [simp]: "typed_env decls Map.empty"
  by (simp add: typed_env_def)

lemma input_decls_Some:
  "input_decls g v = Some d \<Longrightarrow> d \<in> set (gr_inputs g) \<and> vd_id d = v"
proof -
  have "foldl (\<lambda>m d. m(vd_id d \<mapsto> d)) m ds v = Some d \<Longrightarrow> m v = Some d \<or> d \<in> set ds \<and> vd_id d = v" for m ds
    by (induction ds arbitrary: m) (fastforce split: if_splits)+
  then show "input_decls g v = Some d \<Longrightarrow> ?thesis" unfolding input_decls_def by fastforce
qed

lemma input_decls_None: "input_decls g v = None \<longleftrightarrow> v \<notin> set (decl_ids (gr_inputs g))"
proof -
  have "foldl (\<lambda>m d. m(vd_id d \<mapsto> d)) m ds v = None \<longleftrightarrow> m v = None \<and> v \<notin> set (decl_ids ds)" for m ds
    by (induction ds arbitrary: m) auto
  then show ?thesis by (simp add: input_decls_def)
qed

text \<open>The environment in which the reference evaluation reaches the \<open>i\<close>-th node.\<close>

definition reached :: "provider \<Rightarrow> graph \<Rightarrow> (value_id, tensor) btmap \<Rightarrow> resolver \<Rightarrow> nat \<Rightarrow> env \<Rightarrow> bool" where
  "reached provider g inputs resolve i values \<longleftrightarrow> graph_validate g = Inr () \<and> i \<le> length (gr_nodes g)
    \<and> pbind (for_each (load_input (input_decls g)) inputs Map.empty)
        (for_each (eval_node provider (input_decls g) resolve) (take i (gr_nodes g))) = Some (Inr values)"

text \<open>The evaluation gets to the node and calls the provider with these tensors, the values of the node's inputs.\<close>

definition called :: "provider \<Rightarrow> graph \<Rightarrow> (value_id, tensor) btmap \<Rightarrow> resolver \<Rightarrow> node \<Rightarrow> tensor_op \<Rightarrow> tensor list \<Rightarrow> bool" where
  "called provider g inputs resolve node op args \<longleftrightarrow> (\<exists>i values values'. i < length (gr_nodes g)
    \<and> node = gr_nodes g ! i \<and> nd_op node = TensorOp op \<and> reached provider g inputs resolve i values
    \<and> for_each (resolve_input (input_decls g) resolve (nd_id node)) (nd_inputs node) values = Some (Inr values')
    \<and> list_all2 (\<lambda>v t. values' v = Some t) (nd_inputs node) args)"

text \<open>A graph input that a node needs and the caller did not supply.\<close>

definition asked_for :: "graph \<Rightarrow> (value_id, tensor) btmap \<Rightarrow> value_id \<Rightarrow> bool" where
  "asked_for g inputs v \<longleftrightarrow> v \<in> set (decl_ids (gr_inputs g)) \<and> v \<notin> fst ` set inputs \<and> (\<exists>node \<in> set (gr_nodes g). v \<in> set (nd_inputs node))"

text \<open>The tensors that are checked against a declaration: supplied, resolved, or the outputs of a call.\<close>

definition checked ::
    "provider \<Rightarrow> graph \<Rightarrow> (value_id, tensor) btmap \<Rightarrow> resolver \<Rightarrow> node_id \<Rightarrow> value_decl \<Rightarrow> tensor \<Rightarrow> bool" where
  "checked provider g inputs resolve n d t \<longleftrightarrow>
    n = no_node \<and> d \<in> set (gr_inputs g)
      \<and> ((vd_id d, t) \<in> set inputs \<or> asked_for g inputs (vd_id d) \<and> resolve (vd_id d) = Inr (Some t))
    \<or> (\<exists>node op args ts j. called provider g inputs resolve node op args \<and> provider op args = Some (Inr ts) \<and> n = nd_id node
        \<and> length ts = length (nd_outputs node) \<and> j < length ts \<and> d = nd_outputs node ! j \<and> t = ts ! j)"

text \<open>
  When an evaluation may report each error: the error of a provider is the one with which it answers the
  call that the evaluation makes, an arity or a rank is that of the outputs of such a call, and a
  missing value is a graph input that is an output, is used by no node and was not supplied.
\<close>

fun justified :: "provider \<Rightarrow> graph \<Rightarrow> (value_id, tensor) btmap \<Rightarrow> resolver \<Rightarrow> execution_error \<Rightarrow> bool" where
  "justified provider g inputs resolve (InvalidGraph e) \<longleftrightarrow> graph_validate g = Inl e"
| "justified provider g inputs resolve (MissingGraphInput v) \<longleftrightarrow> asked_for g inputs v \<and> resolve v = Inr None"
| "justified provider g inputs resolve (MissingValue n v) \<longleftrightarrow>
    n = no_node \<and> v \<in> set (gr_outputs g) \<inter> set (decl_ids (gr_inputs g)) \<and> uses_of (gr_nodes g) v = 0
      \<and> v \<notin> fst ` set inputs"
| "justified provider g inputs resolve (UnsupportedNode n) \<longleftrightarrow>
    (\<exists>node \<in> set (gr_nodes g). nd_id node = n \<and> (\<forall>op. nd_op node \<noteq> TensorOp op))"
| "justified provider g inputs resolve (ProviderError n e) \<longleftrightarrow>
    (\<exists>node op args. called provider g inputs resolve node op args \<and> nd_id node = n \<and> provider op args = Some (Inl e))"
| "justified provider g inputs resolve (OutputArity n expected actual) \<longleftrightarrow>
    (\<exists>node op args ts. called provider g inputs resolve node op args \<and> nd_id node = n \<and> provider op args = Some (Inr ts)
      \<and> expected = length (nd_outputs node) \<and> actual = length ts \<and> expected \<noteq> actual)"
| "justified provider g inputs resolve (OutputType n v) \<longleftrightarrow>
    (\<exists>d t. checked provider g inputs resolve n d t \<and> vd_id d = v \<and> declared_rank (vd_ty d) = None)"
| "justified provider g inputs resolve (OutputRank n v expected actual) \<longleftrightarrow>
    (\<exists>d t. checked provider g inputs resolve n d t \<and> vd_id d = v \<and> declared_rank (vd_ty d) = Some expected
      \<and> actual = tensor_rank t \<and> expected \<noteq> actual)"
| "justified provider g inputs resolve (ResolveError v e) \<longleftrightarrow> asked_for g inputs v \<and> resolve v = Inl e"

lemma yields_validate_decl:
  assumes "checked provider g inputs resolve node d t" "declared_rank (vd_ty d) = Some (tensor_rank t) \<Longrightarrow> P ()"
  shows "yields (justified provider g inputs resolve) P (plift (validate_decl node d t))"
  using assms by (cases "vd_ty d") (auto simp: validate_decl_def intro!: exI [of _ d] exI [of _ t])

lemma load_inputs_safe:
  assumes "typed_env (set (graph_decls g)) a" "\<forall>t \<in> snd ` set inputs. tensor_ok t" "set inputs \<subseteq> set inputs'"
  shows "yields (justified provider g inputs' resolve)
    (\<lambda>b. typed_env (set (graph_decls g)) b \<and> dom a \<union> (fst ` set inputs \<inter> set (decl_ids (gr_inputs g))) \<subseteq> dom b)
    (for_each (load_input (input_decls g)) inputs a)"
  using assms
proof (induction inputs arbitrary: a)
  case (Cons e inputs)
  obtain v t where e: "e = (v, t)" by (cases e)
  have grow: "A \<union> {v} \<inter> D \<subseteq> B \<Longrightarrow> B \<union> I \<inter> D \<subseteq> C \<Longrightarrow> A \<union> insert v I \<inter> D \<subseteq> C" for A B C D I :: "value_id set"
    by blast
  show ?case unfolding for_each.simps
  proof (rule yields_pbind [where Q = "\<lambda>b. typed_env (set (graph_decls g)) b \<and> dom a \<union> ({v} \<inter> set (decl_ids (gr_inputs g))) \<subseteq> dom b"])
    show "yields (justified provider g inputs' resolve)
      (\<lambda>b. typed_env (set (graph_decls g)) b \<and> dom a \<union> ({v} \<inter> set (decl_ids (gr_inputs g))) \<subseteq> dom b)
      (load_input (input_decls g) e a)"
    proof (cases "input_decls g v")
      case None
      moreover have "v \<notin> set (decl_ids (gr_inputs g))" using None input_decls_None by blast
      ultimately show ?thesis using Cons.prems by (auto simp: e load_input_def)
    next
      case (Some d)
      from input_decls_Some [OF this] have d: "d \<in> set (graph_decls g)" "vd_id d = v" by (simp_all add: graph_decls_def)
      have "checked provider g inputs' resolve no_node d t"
        using input_decls_Some [OF Some] Cons.prems(3) by (auto simp: checked_def e)
      with d Some Cons.prems show ?thesis
        by (auto simp: e load_input_def yields_bind simp del: yields_plift intro!: yields_validate_decl)
    qed
  next
    fix b
    assume b: "typed_env (set (graph_decls g)) b \<and> dom a \<union> ({v} \<inter> set (decl_ids (gr_inputs g))) \<subseteq> dom b"
    have "yields (justified provider g inputs' resolve)
      (\<lambda>c. typed_env (set (graph_decls g)) c \<and> dom b \<union> (fst ` set inputs \<inter> set (decl_ids (gr_inputs g))) \<subseteq> dom c)
      (for_each (load_input (input_decls g)) inputs b)"
      using b Cons.prems by (intro Cons.IH) auto
    then show "yields (justified provider g inputs' resolve)
      (\<lambda>c. typed_env (set (graph_decls g)) c \<and> dom a \<union> (fst ` set (e # inputs) \<inter> set (decl_ids (gr_inputs g))) \<subseteq> dom c)
      (for_each (load_input (input_decls g)) inputs b)"
    proof (rule yields_mono, intro conjI)
      fix c
      assume c: "typed_env (set (graph_decls g)) c
        \<and> dom b \<union> (fst ` set inputs \<inter> set (decl_ids (gr_inputs g))) \<subseteq> dom c"
      then show "typed_env (set (graph_decls g)) c" by simp
      show "dom a \<union> (fst ` set (e # inputs) \<inter> set (decl_ids (gr_inputs g))) \<subseteq> dom c"
        unfolding e set_simps image_insert fst_conv
        by (rule grow [OF b [THEN conjunct2] c [THEN conjunct2]])
    qed
  qed
qed simp

lemma resolve_input_safe:
  assumes "typed_env (set (graph_decls g)) a" "v \<in> dom a \<or> v \<in> set (decl_ids (gr_inputs g))"
    and "\<forall>v t. resolve v = Inr (Some t) \<longrightarrow> tensor_ok t"
    and "fst ` set inputs \<inter> set (decl_ids (gr_inputs g)) \<subseteq> dom a" "\<exists>node \<in> set (gr_nodes g). v \<in> set (nd_inputs node)"
  shows "yields (justified provider g inputs resolve)
    (\<lambda>b. typed_env (set (graph_decls g)) b \<and> insert v (dom a) \<subseteq> dom b) (resolve_input (input_decls g) resolve n v a)"
proof (cases "v \<in> dom a")
  case True
  with assms(1) show ?thesis by (auto simp: resolve_input_def)
next
  case False
  with assms(2) obtain d where d: "input_decls g v = Some d" using input_decls_None [of g v] by fastforce
  from input_decls_Some [OF this] have mem: "d \<in> set (graph_decls g)" "vd_id d = v" by (simp_all add: graph_decls_def)
  have ask: "asked_for g inputs v" using False assms(2,4,5) by (auto simp: asked_for_def)
  show ?thesis
  proof (cases "resolve v")
    case (Inl e)
    with False d ask show ?thesis by (simp add: resolve_input_def domIff yields_bind)
  next
    case (Inr found)
    show ?thesis
    proof (cases found)
      case None
      with Inr False d ask show ?thesis by (simp add: resolve_input_def domIff yields_bind)
    next
      case (Some t)
      with Inr assms(3) have "tensor_ok t" by blast
      moreover have "checked provider g inputs resolve no_node d t"
        using input_decls_Some [OF d] ask Inr Some by (simp add: checked_def)
      ultimately show ?thesis using Some Inr False d mem assms(1)
        unfolding resolve_input_def yields_bind
        by (auto simp: domIff yields_bind plift_def [of "Inr _"] intro!: yields_validate_decl simp del: yields_plift)
    qed
  qed
qed

lemma resolve_inputs_safe:
  assumes "typed_env (set (graph_decls g)) a" "set vs \<subseteq> dom a \<union> set (decl_ids (gr_inputs g))"
    and res: "\<forall>v t. resolve v = Inr (Some t) \<longrightarrow> tensor_ok t"
    and sup: "fst ` set inputs \<inter> set (decl_ids (gr_inputs g)) \<subseteq> dom a"
    and need: "set vs \<subseteq> set (nd_inputs node)" "node \<in> set (gr_nodes g)"
  shows "yields (justified provider g inputs resolve)
    (\<lambda>b. typed_env (set (graph_decls g)) b \<and> dom a \<union> set vs \<subseteq> dom b)
    (for_each (resolve_input (input_decls g) resolve n) vs a)"
  using assms(1,2) sup need(1)
proof (induction vs arbitrary: a)
  case (Cons v vs)
  have "yields (justified provider g inputs resolve)
    (\<lambda>b. typed_env (set (graph_decls g)) b \<and> insert v (dom a) \<subseteq> dom b) (resolve_input (input_decls g) resolve n v a)"
    using Cons.prems res need(2) by (intro resolve_input_safe) auto
  then show ?case unfolding for_each.simps
  proof (rule yields_pbind)
    fix b assume b: "typed_env (set (graph_decls g)) b \<and> insert v (dom a) \<subseteq> dom b"
    have sub: "set vs \<subseteq> dom a \<union> set (decl_ids (gr_inputs g))" "set vs \<subseteq> set (nd_inputs node)" using Cons.prems(2,4) by simp_all
    with b Cons.prems(3) have "set vs \<subseteq> dom b \<union> set (decl_ids (gr_inputs g))"
      "fst ` set inputs \<inter> set (decl_ids (gr_inputs g)) \<subseteq> dom b" by blast+
    with b sub(2) have "yields (justified provider g inputs resolve)
        (\<lambda>c. typed_env (set (graph_decls g)) c \<and> dom b \<union> set vs \<subseteq> dom c)
        (for_each (resolve_input (input_decls g) resolve n) vs b)"
      by (intro Cons.IH) simp_all
    with b show "yields (justified provider g inputs resolve)
        (\<lambda>c. typed_env (set (graph_decls g)) c \<and> dom a \<union> set (v # vs) \<subseteq> dom c)
        (for_each (resolve_input (input_decls g) resolve n) vs b)"
      by (auto elim!: yields_mono)
  qed
qed simp

lemma collect_values_dom:
  "set vs \<subseteq> dom a \<Longrightarrow> collect_values node a vs = pret (map (\<lambda>v. the (a v)) vs)"
proof -
  have "for_each (\<lambda>v ts. pbind (plift (ok_or (MissingValue node v) (a v))) (\<lambda>t. pret (ts @ [t]))) vs ts
      = pret (ts @ map (\<lambda>v. the (a v)) vs)" if "set vs \<subseteq> dom a" for ts
    using that by (induction vs arbitrary: ts) (auto simp: plift_def)
  then show "set vs \<subseteq> dom a \<Longrightarrow> ?thesis" by (simp add: collect_values_def)
qed

lemma store_outputs_safe:
  assumes "typed_env (set (graph_decls g)) a" "length ts = length ds" "set ds \<subseteq> set (graph_decls g)" "\<forall>t \<in> set ts. tensor_ok t"
    and "\<forall>(d, t) \<in> set (zip ds ts). checked provider g inputs resolve node d t"
  shows "yields (justified provider g inputs resolve)
    (\<lambda>b. typed_env (set (graph_decls g)) b \<and> dom a \<union> set (decl_ids ds) \<subseteq> dom b)
    (for_each (store_output node) (zip ds ts) a)"
  using assms(2,1,3,4,5)
proof (induction ts ds arbitrary: a rule: list_induct2)
  case (Cons t ts d ds)
  have "yields (justified provider g inputs resolve)
    (\<lambda>b. typed_env (set (graph_decls g)) b \<and> insert (vd_id d) (dom a) \<subseteq> dom b) (store_output node (d, t) a)"
    using Cons.prems unfolding store_output_def split yields_bind
    by (intro yields_validate_decl) auto
  then show ?case unfolding zip_Cons_Cons for_each.simps
  proof (rule yields_pbind)
    fix b assume b: "typed_env (set (graph_decls g)) b \<and> insert (vd_id d) (dom a) \<subseteq> dom b"
    with Cons.prems have "yields (justified provider g inputs resolve)
        (\<lambda>c. typed_env (set (graph_decls g)) c \<and> dom b \<union> set (decl_ids ds) \<subseteq> dom c)
        (for_each (store_output node) (zip ds ts) b)"
      by (intro Cons.IH) auto
    with b show "yields (justified provider g inputs resolve)
        (\<lambda>c. typed_env (set (graph_decls g)) c \<and> dom a \<union> set (decl_ids (d # ds)) \<subseteq> dom c)
        (for_each (store_output node) (zip ds ts) b)"
      by (auto elim!: yields_mono)
  qed
qed simp

lemma uses_ok_mono: "uses_ok X ns \<Longrightarrow> X \<subseteq> Y \<Longrightarrow> uses_ok Y ns"
proof (induction ns arbitrary: X Y)
  case (Cons n ns)
  then show ?case using Cons.IH [of "X \<union> set (decl_ids (nd_outputs n))" "Y \<union> set (decl_ids (nd_outputs n))"] by auto
qed simp

lemma collect_outputs_safe:
  assumes wf: "graph_wf g" and env: "typed_env (set (graph_decls g)) b"
    and dom: "set (node_outs (gr_nodes g)) \<union> {v. 0 < uses_of (gr_nodes g) v}
      \<union> (fst ` set inputs \<inter> set (decl_ids (gr_inputs g))) \<subseteq> dom b"
  shows "yields (justified provider g inputs resolve) (\<lambda>ts. list_all2 (typed_value (set (graph_decls g))) (gr_outputs g) ts)
    (collect_values no_node b (gr_outputs g))"
proof -
  have loop: "yields (justified provider g inputs resolve)
      (\<lambda>ts'. \<exists>us. ts' = ts @ us \<and> list_all2 (typed_value (set (graph_decls g))) vs us)
      (for_each (\<lambda>v ts. pbind (plift (ok_or (MissingValue no_node v) (b v))) (\<lambda>t. pret (ts @ [t]))) vs ts)"
    if "set vs \<subseteq> set (gr_outputs g)" for vs ts
    using that
  proof (induction vs arbitrary: ts)
    case (Cons v vs)
    show ?case
    proof (cases "b v")
      case None
      then have "v \<notin> dom b" by auto
      moreover have "v \<in> set (decl_ids (gr_inputs g)) \<union> set (node_outs (gr_nodes g))"
        using wf Cons.prems unfolding graph_wf_def by auto
      ultimately have "justified provider g inputs resolve (MissingValue no_node v)"
        using dom Cons.prems by auto
      with None show ?thesis by (simp add: plift_def)
    next
      case (Some t)
      with env have "typed_value (set (graph_decls g)) v t" by (simp add: typed_env_def)
      with Some Cons.IH [of "ts @ [t]"] Cons.prems show ?thesis
        by (fastforce simp: plift_def elim!: yields_mono)
    qed
  qed simp
  show ?thesis unfolding collect_values_def
    by (rule yields_mono [OF loop]) simp_all
qed

lemma called_reached:
  assumes "called provider g inputs resolve node op args"
  obtains i a b where "i < length (gr_nodes g)" "node = gr_nodes g ! i" "nd_op node = TensorOp op"
    "reached provider g inputs resolve i a" "for_each (resolve_input (input_decls g) resolve (nd_id node)) (nd_inputs node) a = Some (Inr b)"
    "collect_values (nd_id node) b (nd_inputs node) = pret args"
proof -
  have args: "args = map (\<lambda>v. the (b v)) vs \<and> set vs \<subseteq> dom b" if "list_all2 (\<lambda>v t. b v = Some t) vs args" for b :: env and vs
    using that by (induction vs args rule: list_all2_induct) auto
  from assms obtain i a b where "i < length (gr_nodes g)" "node = gr_nodes g ! i" "nd_op node = TensorOp op"
    "reached provider g inputs resolve i a" "for_each (resolve_input (input_decls g) resolve (nd_id node)) (nd_inputs node) a = Some (Inr b)"
    "list_all2 (\<lambda>v t. b v = Some t) (nd_inputs node) args" by (auto simp: called_def)
  with that args [of b "nd_inputs node"] show ?thesis by (auto simp: collect_values_dom)
qed

text \<open>A call that panics makes the evaluation panic.\<close>

lemma called_panics:
  assumes "called provider g inputs resolve node op args" "provider op args = None"
  shows "eval_graph provider g inputs resolve = None"
  using assms(1)
proof (rule called_reached)
  fix i a b
  assume i: "i < length (gr_nodes g)" "node = gr_nodes g ! i" and op: "nd_op node = TensorOp op"
    and at: "reached provider g inputs resolve i a"
    and res: "for_each (resolve_input (input_decls g) resolve (nd_id node)) (nd_inputs node) a = Some (Inr b)"
    and args: "collect_values (nd_id node) b (nd_inputs node) = pret args"
  have nodes: "gr_nodes g = take i (gr_nodes g) @ node # drop (Suc i) (gr_nodes g)"
    using i by (simp add: id_take_nth_drop)
  let ?eval = "for_each (eval_node provider (input_decls g) resolve)"
  have "eval_node provider (input_decls g) resolve node a = None"
    using op res args assms(2) by (simp add: eval_node_def run_provider_def)
  moreover obtain c where c: "graph_validate g = Inr ()" "for_each (load_input (input_decls g)) inputs Map.empty = Some (Inr c)"
    "?eval (take i (gr_nodes g)) c = Some (Inr a)" using at by (auto simp: reached_def pbind_eq_Inr)
  ultimately have "?eval (gr_nodes g) c = None" by (subst nodes) (simp add: for_each_append)
  with c show ?thesis by (simp add: eval_graph_def plift_def)
qed

text \<open>The evaluation makes a call that panics.\<close>

definition overrun ::
    "provider \<Rightarrow> (tensor_op \<Rightarrow> tensor list \<Rightarrow> bool) \<Rightarrow> graph \<Rightarrow> (value_id, tensor) btmap \<Rightarrow> resolver \<Rightarrow> bool" where
  "overrun provider panics g inputs resolve \<longleftrightarrow> (\<exists>node op args. called provider g inputs resolve node op args \<and> panics op args)"

context tensor_provider
begin

lemma run_provider_safe:
  assumes env: "typed_env (set (graph_decls g)) a" and i: "i < length (gr_nodes g)" and at: "reached run g inputs resolve i a"
    and ins: "set (nd_inputs (gr_nodes g ! i)) \<subseteq> dom a \<union> set (decl_ids (gr_inputs g))"
    and sup: "fst ` set inputs \<inter> set (decl_ids (gr_inputs g)) \<subseteq> dom a"
    and res: "\<forall>v t. resolve v = Inr (Some t) \<longrightarrow> tensor_ok t" and op: "nd_op (gr_nodes g ! i) = TensorOp op"
  shows "outcome (overrun run panics g inputs resolve) (justified run g inputs resolve)
    (\<lambda>(b, ts). typed_env (set (graph_decls g)) b \<and> dom a \<union> set (nd_inputs (gr_nodes g ! i)) \<subseteq> dom b
      \<and> length ts = length (nd_outputs (gr_nodes g ! i)) \<and> (\<forall>t \<in> set ts. tensor_ok t)
      \<and> (\<exists>args. called run g inputs resolve (gr_nodes g ! i) op args \<and> run op args = Some (Inr ts)))
    (run_provider run (input_decls g) resolve (gr_nodes g ! i) a)"
  unfolding run_provider_def op op_kind.case
proof (rule outcome_pbind [OF outcome_yields [OF resolve_inputs_safe [OF env ins res sup subset_refl nth_mem [OF i]]]])
  let ?node = "gr_nodes g ! i"
  fix b
  assume run_b: "for_each (resolve_input (input_decls g) resolve (nd_id ?node)) (nd_inputs ?node) a = Some (Inr b)"
    and b: "typed_env (set (graph_decls g)) b \<and> dom a \<union> set (nd_inputs ?node) \<subseteq> dom b"
  let ?args = "map (\<lambda>v. the (b v)) (nd_inputs ?node)"
  have "list_all2 (\<lambda>v t. b v = Some t) (nd_inputs ?node) ?args"
    using b by (auto simp: list_all2_conv_all_nth dest!: nth_mem)
  then have call: "called run g inputs resolve ?node op ?args"
    using i at run_b op by (auto simp: called_def)
  have "\<forall>t \<in> set ?args. tensor_ok t"
    using b by (fastforce simp: typed_env_def typed_value_def)
  from run_safe [OF this, of op]
  have "outcome (overrun run panics g inputs resolve) (justified run g inputs resolve)
      (\<lambda>ts. (\<forall>t \<in> set ts. tensor_ok t) \<and> run op ?args = Some (Inr ts))
      (map_option (map_err (ProviderError (nd_id ?node))) (run op ?args))"
    using call by (cases "run op ?args" rule: run_cases) (auto simp: overrun_def)
  note called_outcome = this
  have args: "collect_values (nd_id ?node) b (nd_inputs ?node) = pret ?args" using b by (intro collect_values_dom) blast
  show "outcome (overrun run panics g inputs resolve) (justified run g inputs resolve)
      (\<lambda>(b, ts). typed_env (set (graph_decls g)) b \<and> dom a \<union> set (nd_inputs ?node) \<subseteq> dom b
        \<and> length ts = length (nd_outputs ?node) \<and> (\<forall>t \<in> set ts. tensor_ok t)
        \<and> (\<exists>args. called run g inputs resolve ?node op args \<and> run op args = Some (Inr ts)))
      (pbind (collect_values (nd_id ?node) b (nd_inputs ?node)) (\<lambda>args.
        pbind (map_option (map_err (ProviderError (nd_id ?node))) (run op args)) (\<lambda>outputs.
          if length outputs \<noteq> length (nd_outputs ?node)
          then pfail (OutputArity (nd_id ?node) (length (nd_outputs ?node)) (length outputs))
          else pret (b, outputs))))"
    unfolding args pbind_pret by (rule outcome_pbind [OF called_outcome]) (use b call in auto)
qed

lemma eval_node_safe:
  assumes env: "typed_env (set (graph_decls g)) a" and i: "i < length (gr_nodes g)" and at: "reached run g inputs resolve i a"
    and ins: "set (nd_inputs (gr_nodes g ! i)) \<subseteq> dom a \<union> set (decl_ids (gr_inputs g))"
    and sup: "fst ` set inputs \<inter> set (decl_ids (gr_inputs g)) \<subseteq> dom a"
    and res: "\<forall>v t. resolve v = Inr (Some t) \<longrightarrow> tensor_ok t"
  shows "outcome (overrun run panics g inputs resolve) (justified run g inputs resolve)
    (\<lambda>b. typed_env (set (graph_decls g)) b
      \<and> dom a \<union> set (nd_inputs (gr_nodes g ! i)) \<union> set (decl_ids (nd_outputs (gr_nodes g ! i))) \<subseteq> dom b)
    (eval_node run (input_decls g) resolve (gr_nodes g ! i) a)"
proof (cases "nd_op (gr_nodes g ! i)")
  case (TensorOp op)
  let ?node = "gr_nodes g ! i"
  have decls: "set (nd_outputs ?node) \<subseteq> set (graph_decls g)" using nth_mem [OF i] by (auto simp: graph_decls_def)
  show ?thesis unfolding eval_node_def
  proof (rule outcome_pbind [OF run_provider_safe [OF assms TensorOp]])
    fix p :: "env \<times> tensor list"
    assume "case p of (b, ts) \<Rightarrow> typed_env (set (graph_decls g)) b \<and> dom a \<union> set (nd_inputs ?node) \<subseteq> dom b
      \<and> length ts = length (nd_outputs ?node) \<and> (\<forall>t \<in> set ts. tensor_ok t)
      \<and> (\<exists>args. called run g inputs resolve ?node op args \<and> run op args = Some (Inr ts))"
    then obtain b ts args where p: "p = (b, ts)" and b: "typed_env (set (graph_decls g)) b" "dom a \<union> set (nd_inputs ?node) \<subseteq> dom b"
      "length ts = length (nd_outputs ?node)" "\<forall>t \<in> set ts. tensor_ok t"
      and call: "called run g inputs resolve ?node op args" "run op args = Some (Inr ts)" by (cases p) auto
    have "\<forall>(d, t) \<in> set (zip (nd_outputs ?node) ts). checked run g inputs resolve (nd_id ?node) d t"
    proof safe
      fix d t assume "(d, t) \<in> set (zip (nd_outputs ?node) ts)"
      then obtain j where "j < length ts" "d = nd_outputs ?node ! j" "t = ts ! j" by (auto simp: set_zip)
      with call b(3) show "checked run g inputs resolve (nd_id ?node) d t" unfolding checked_def by blast
    qed
    note stored = outcome_yields [OF store_outputs_safe [OF b(1,3) decls b(4) this]]
    show "outcome (overrun run panics g inputs resolve) (justified run g inputs resolve)
        (\<lambda>c. typed_env (set (graph_decls g)) c \<and> dom a \<union> set (nd_inputs ?node) \<union> set (decl_ids (nd_outputs ?node)) \<subseteq> dom c)
        (case p of (values, outputs) \<Rightarrow> for_each (store_output (nd_id ?node)) (zip (nd_outputs ?node) outputs) values)"
      unfolding p split
      by (rule outcome_mono [OF stored]) (use b(2) in blast)
  qed
qed (use nth_mem [OF i] in \<open>auto simp: eval_node_def run_provider_def\<close>)

lemma reached_Suc:
  assumes "i < length (gr_nodes g)" "reached run g inputs resolve i a"
    and "eval_node run (input_decls g) resolve (gr_nodes g ! i) a = Some (Inr b)"
  shows "reached run g inputs resolve (Suc i) b"
  using assms by (auto simp: reached_def take_Suc_conv_app_nth for_each_append pbind_eq_Inr pret_def)

text \<open>All nodes: what the uses and the outputs of the processed ones need is there.\<close>

lemma eval_nodes_safe:
  assumes "typed_env (set (graph_decls g)) a" "nodes = drop i (gr_nodes g)" "reached run g inputs resolve i a"
    and "uses_ok (dom a \<union> set (decl_ids (gr_inputs g))) nodes"
    and "fst ` set inputs \<inter> set (decl_ids (gr_inputs g)) \<subseteq> dom a"
    and res: "\<forall>v t. resolve v = Inr (Some t) \<longrightarrow> tensor_ok t"
  shows "outcome (overrun run panics g inputs resolve) (justified run g inputs resolve)
    (\<lambda>b. typed_env (set (graph_decls g)) b \<and> dom a \<union> set (node_outs nodes) \<union> {v. 0 < uses_of nodes v} \<subseteq> dom b)
    (for_each (eval_node run (input_decls g) resolve) nodes a)"
  using assms(1-5)
proof (induction nodes arbitrary: a i)
  case (Cons node nodes)
  let ?new = "set (nd_inputs node) \<union> set (decl_ids (nd_outputs node))"
  have i: "i < length (gr_nodes g)" "gr_nodes g ! i = node" "nodes = drop (Suc i) (gr_nodes g)"
    using Cons.prems(2) by (metis drop_all list.distinct(1) not_le, metis hd_drop_conv_nth drop_all list.distinct(1) list.sel(1) not_le, metis drop_Suc list.sel(3) tl_drop)
  have "outcome (overrun run panics g inputs resolve) (justified run g inputs resolve)
      (\<lambda>b. typed_env (set (graph_decls g)) b \<and> dom a \<union> ?new \<subseteq> dom b)
      (eval_node run (input_decls g) resolve node a)"
    using eval_node_safe [OF Cons.prems(1) i(1) Cons.prems(3) _ Cons.prems(5) res] Cons.prems(4) by (simp add: Un_assoc i(2))
  then show ?case unfolding for_each.simps
  proof (rule outcome_pbind)
    fix b assume run_b: "eval_node run (input_decls g) resolve node a = Some (Inr b)"
      and b: "typed_env (set (graph_decls g)) b \<and> dom a \<union> ?new \<subseteq> dom b"
    have at: "reached run g inputs resolve (Suc i) b" using reached_Suc [OF i(1) Cons.prems(3)] run_b i(2) by simp
    have "uses_ok (dom b \<union> set (decl_ids (gr_inputs g))) nodes"
      by (rule uses_ok_mono [of "dom a \<union> set (decl_ids (gr_inputs g)) \<union> set (decl_ids (nd_outputs node))"])
        (use Cons.prems(4) b in \<open>simp, blast\<close>)
    moreover have "fst ` set inputs \<inter> set (decl_ids (gr_inputs g)) \<subseteq> dom b" using b Cons.prems(5) by blast
    ultimately have "outcome (overrun run panics g inputs resolve) (justified run g inputs resolve)
        (\<lambda>c. typed_env (set (graph_decls g)) c \<and> dom b \<union> set (node_outs nodes) \<union> {v. 0 < uses_of nodes v} \<subseteq> dom c)
        (for_each (eval_node run (input_decls g) resolve) nodes b)"
      using b Cons.IH [OF _ i(3) at] by blast
    then show "outcome (overrun run panics g inputs resolve) (justified run g inputs resolve)
        (\<lambda>c. typed_env (set (graph_decls g)) c
          \<and> dom a \<union> set (node_outs (node # nodes)) \<union> {v. 0 < uses_of (node # nodes) v} \<subseteq> dom c)
        (for_each (eval_node run (input_decls g) resolve) nodes b)"
    proof (rule outcome_mono)
      fix c
      assume c: "typed_env (set (graph_decls g)) c \<and> dom b \<union> set (node_outs nodes) \<union> {v. 0 < uses_of nodes v} \<subseteq> dom c"
      have "{v. 0 < uses_of (node # nodes) v} \<subseteq> set (nd_inputs node) \<union> {v. 0 < uses_of nodes v}"
        using count_notin by fastforce
      with b c show "typed_env (set (graph_decls g)) c
          \<and> dom a \<union> set (node_outs (node # nodes)) \<union> {v. 0 < uses_of (node # nodes) v} \<subseteq> dom c"
        unfolding node_outs_simps set_append by blast
    qed
  qed
qed simp

text \<open>The evaluation panics exactly when a call that it makes does.\<close>

lemma eval_graph_safe:
  assumes ok: "\<forall>t \<in> snd ` set inputs. tensor_ok t" and res: "\<forall>v t. resolve v = Inr (Some t) \<longrightarrow> tensor_ok t"
  shows "outcome (overrun run panics g inputs resolve) (justified run g inputs resolve)
    (\<lambda>ts. graph_wf g \<and> list_all2 (typed_value (set (graph_decls g))) (gr_outputs g) ts) (eval_graph run g inputs resolve)"
proof (cases "graph_validate g")
  case (Inl e)
  then show ?thesis by (simp add: eval_graph_def plift_def)
next
  case (Inr u)
  then have wf: "graph_wf g" by (simp add: graph_validate_wf [symmetric])
  then have uses: "uses_ok (set (decl_ids (gr_inputs g))) (gr_nodes g)"
    by (simp add: graph_wf_def defined_before_use_def uses_ok_iff)
  let ?N = "overrun run panics g inputs resolve" and ?E = "justified run g inputs resolve"
  let ?P = "\<lambda>ts. graph_wf g \<and> list_all2 (typed_value (set (graph_decls g))) (gr_outputs g) ts"
  have "outcome ?N ?E ?P
     (pbind (for_each (load_input (input_decls g)) inputs Map.empty) (\<lambda>values.
      pbind (for_each (eval_node run (input_decls g) resolve) (gr_nodes g) values) (\<lambda>values.
        collect_values no_node values (gr_outputs g))))"
  proof (rule outcome_pbind [OF outcome_yields [OF load_inputs_safe [OF typed_env_empty ok subset_refl]]])
    fix a :: env
    assume run_a: "for_each (load_input (input_decls g)) inputs Map.empty = Some (Inr a)"
      and a: "typed_env (set (graph_decls g)) a \<and> dom Map.empty \<union> (fst ` set inputs \<inter> set (decl_ids (gr_inputs g))) \<subseteq> dom a"
    have at: "reached run g inputs resolve 0 a" using Inr run_a by (simp add: reached_def pret_def)
    have uses': "uses_ok (dom a \<union> set (decl_ids (gr_inputs g))) (gr_nodes g)" by (rule uses_ok_mono [OF uses]) blast
    have "outcome ?N ?E
        (\<lambda>b. typed_env (set (graph_decls g)) b \<and> dom a \<union> set (node_outs (gr_nodes g)) \<union> {v. 0 < uses_of (gr_nodes g) v} \<subseteq> dom b)
        (for_each (eval_node run (input_decls g) resolve) (gr_nodes g) a)"
      by (rule eval_nodes_safe [OF _ _ at uses' _ res]) (use a in simp_all)
    then show "outcome ?N ?E ?P
        (pbind (for_each (eval_node run (input_decls g) resolve) (gr_nodes g) a) (\<lambda>values.
          collect_values no_node values (gr_outputs g)))"
    proof (rule outcome_pbind)
      fix b
      assume b: "typed_env (set (graph_decls g)) b \<and> dom a \<union> set (node_outs (gr_nodes g)) \<union> {v. 0 < uses_of (gr_nodes g) v} \<subseteq> dom b"
      have "yields ?E (\<lambda>ts. list_all2 (typed_value (set (graph_decls g))) (gr_outputs g) ts)
        (collect_values no_node b (gr_outputs g))"
        using a b by (intro collect_outputs_safe [OF wf]) (simp, blast)
      then show "outcome ?N ?E ?P (collect_values no_node b (gr_outputs g))"
        using wf by (auto intro: outcome_yields yields_mono)
    qed
  qed
  with Inr show ?thesis by (simp add: eval_graph_def plift_def)
qed

lemma eval_graph_panics: "overrun run panics g inputs resolve \<Longrightarrow> eval_graph run g inputs resolve = None"
  using run_panics called_panics unfolding overrun_def by blast

lemma execution_safe:
  assumes "\<forall>t \<in> snd ` set inputs. tensor_ok t" "\<forall>v t. resolve v = Inr (Some t) \<longrightarrow> tensor_ok t"
  shows "outcome (overrun run panics g inputs resolve) (justified run g inputs resolve)
    (\<lambda>ts. graph_wf g \<and> list_all2 (typed_value (set (graph_decls g))) (gr_outputs g) ts) (execute_with_resolver run g inputs resolve)"
    "overrun run panics g inputs resolve \<Longrightarrow> execute_with_resolver run g inputs resolve = None"
  unfolding execute_is_eval using eval_graph_safe [OF assms] eval_graph_panics by auto

end

lemma cpu_reference_outcome:
  assumes "\<forall>t \<in> set inputs. tensor_ok t"
  shows "outcome (oversized op inputs) (\<lambda>_. True) (\<lambda>ts. \<forall>t \<in> set ts. tensor_ok t) (cpu_reference lm op inputs)"
proof (cases "oversized op inputs")
  case True
  then show ?thesis by (simp add: cpu_reference_oversized)
next
  case False
  from cpu_reference_yields [OF assms this, of lm] show ?thesis
    by (cases "cpu_reference lm op inputs" rule: run_cases) auto
qed

interpretation cpu: tensor_provider "cpu_reference lm" oversized for lm
  by unfold_locales (simp_all add: cpu_reference_outcome cpu_reference_oversized)

section \<open>Properties\<close>

text \<open>
  C7: releasing every value after its last use never changes anything: for every provider, graph, set of inputs
  and resolver, the executor panics, fails with the same error or returns the same tensors as the
  reference evaluation, which keeps all values.
\<close>

theorem execution_equals_reference:
  "execute_with_resolver provider g inputs resolve = eval_graph provider g inputs resolve"
  by (rule execute_is_eval)

text \<open>
  C4: running any graph on the reference provider with well-formed inputs and a resolver of well-formed tensors
  panics exactly when a call that the evaluation makes asks for a product or a gather of more than
  \<open>isize::MAX\<close> bytes, and never for another reason. An error is a real one: the graph is invalid, a node is
  not a tensor operation, the resolver failed or had nothing for an input that a node needs and nobody supplied,
  the provider answered a call of the evaluation with this error or with another number of outputs,
  a tensor that was supplied, resolved or computed violates its declaration, or an output is an input
  that no node uses and nobody supplied; a value that a node needs is never missing. Otherwise the graph is
  well-formed and each output is a well-formed tensor of the rank that its declaration states.
\<close>

theorem graph_execution_safe:
  assumes "\<forall>t \<in> snd ` set inputs. tensor_ok t" "\<forall>v t. resolve v = Inr (Some t) \<longrightarrow> tensor_ok t"
  shows "(execute_with_resolver (cpu_reference lm) g inputs resolve = None
      \<longleftrightarrow> (\<exists>node op args. called (cpu_reference lm) g inputs resolve node op args \<and> oversized op args))
    \<and> (case execute_with_resolver (cpu_reference lm) g inputs resolve of
        None \<Rightarrow> True
      | Some (Inl e) \<Rightarrow> justified (cpu_reference lm) g inputs resolve e
      | Some (Inr ts) \<Rightarrow> graph_wf g \<and> list_all2 (typed_value (set (graph_decls g))) (gr_outputs g) ts)"
  using cpu.execution_safe [OF assms, of lm g] unfolding overrun_def
  by (cases "execute_with_resolver (cpu_reference lm) g inputs resolve" rule: run_cases) auto

text \<open>A product of an input that is supplied and one that is resolved.\<close>

definition product_graph :: graph where
  "product_graph = \<lparr>gr_version = ir_current,
    gr_inputs = [\<lparr>vd_id = 1, vd_ty = Tensor F32 2\<rparr>, \<lparr>vd_id = 2, vd_ty = Tensor F32 2\<rparr>], gr_outputs = [4],
    gr_nodes = [
      \<lparr>nd_id = 1, nd_op = TensorOp MatMul, nd_inputs = [1, 2], nd_outputs = [\<lparr>vd_id = 3, vd_ty = Tensor F32 2\<rparr>]\<rparr>,
      \<lparr>nd_id = 2, nd_op = TensorOp Add, nd_inputs = [3, 3], nd_outputs = [\<lparr>vd_id = 4, vd_ty = Tensor F32 2\<rparr>]\<rparr>]\<rparr>"

definition weights_resolver :: resolver where
  "weights_resolver v = Inr (if v = 2 then Some sample_column else None)"

lemma product_graph_runs:
  "execute_with_resolver (cpu_reference sample_libm) product_graph [(1, sample_matrix)] weights_resolver
    = Some (Inr [\<lparr>tn_shape = [1, 1], tn_data = [f32_of_int 78]\<rparr>])"
  by code_simp

theorem graph_execution_safe_witness:
  "\<exists>ts. execute_with_resolver (cpu_reference sample_libm) product_graph [(1, sample_matrix)] weights_resolver = Some (Inr ts)
    \<and> ts = [\<lparr>tn_shape = [1, 1], tn_data = [f32_of_int 78]\<rparr>]
    \<and> list_all2 (typed_value (set (graph_decls product_graph))) (gr_outputs product_graph) ts"
proof -
  have "\<forall>v t. weights_resolver v = Inr (Some t) \<longrightarrow> tensor_ok t" by (auto simp: weights_resolver_def)
  with graph_execution_safe [of "[(1, sample_matrix)]" weights_resolver sample_libm product_graph] product_graph_runs
  show ?thesis by auto
qed

end
