(* ===== verification/Rust_Order.thy ===== *)
theory Rust_Order
  imports Rust_Base "HOL-Library.Product_Lexorder"
begin

text \<open>
  \<open>std::cmp::Ordering\<close>, the comparisons derived from an order, and the stable sort. A comparison that is
  the one of a key sorts like the library's \<open>sort_key\<close>.
\<close>

datatype ordering = Less | Equal | Greater

definition cmp :: "'a::linorder \<Rightarrow> 'a \<Rightarrow> ordering" where
  "cmp a b = (if a < b then Less else if a = b then Equal else Greater)"

definition then_with :: "ordering \<Rightarrow> ordering \<Rightarrow> ordering" where
  "then_with a b = (if a = Equal then b else a)"

text \<open>\<open>sort_by\<close>: its contract requires that the comparison is a total order.\<close>

fun insert_by :: "('a \<Rightarrow> 'a \<Rightarrow> ordering) \<Rightarrow> 'a \<Rightarrow> 'a list \<Rightarrow> 'a list" where
  "insert_by f x [] = [x]"
| "insert_by f x (y # ys) = (if f x y = Greater then y # insert_by f x ys else x # y # ys)"

definition sort_by :: "('a \<Rightarrow> 'a \<Rightarrow> ordering) \<Rightarrow> 'a list \<Rightarrow> 'a list" where
  "sort_by f xs = foldr (insert_by f) xs []"

lemma cmp_simps: "cmp a b = Equal \<longleftrightarrow> a = b" "cmp a b = Less \<longleftrightarrow> a < b" "cmp a b = Greater \<longleftrightarrow> b < a"
  by (auto simp: cmp_def)

lemma cmp_pair: "cmp (a, b) (c, d) = then_with (cmp a c) (cmp b d)"
  by (auto simp: cmp_def then_with_def)

lemma then_with_assoc: "then_with (then_with a b) c = then_with a (then_with b c)"
  by (simp add: then_with_def)

lemma then_with_Equal: "then_with Equal b = b" and then_with_Less: "then_with Less b = Less" "then_with Greater b = Greater"
  by (simp_all add: then_with_def)

lemma cmp_bool: "cmp (of_bool a :: nat) (of_bool b) = cmp a b"
  by (auto simp: cmp_def)

lemma insert_by_key: "insert_by (\<lambda>x y. cmp (f x) (f y)) x ys = insort_key f x ys"
  by (induction ys) (auto simp: cmp_simps)

lemma sort_by_key: "sort_by (\<lambda>x y. cmp (f x) (f y)) xs = sort_key f xs"
  by (simp add: sort_by_def sort_key_def insert_by_key fun_eq_iff cong: foldr_cong)

lemma insort_key_cong: "(\<And>y. y \<in> set (x # ys) \<Longrightarrow> g y = h y) \<Longrightarrow> insort_key g x ys = insort_key h x ys"
  by (induction ys) auto

lemma sort_key_agree: "(\<And>x. x \<in> set xs \<Longrightarrow> g x = h x) \<Longrightarrow> sort_key g xs = sort_key h xs"
  by (induction xs) (auto intro!: insort_key_cong)

end
