(* ===== verification/Mobile_Compute.thy ===== *)
theory Mobile_Compute
  imports Mobile_Scheduler Graph_Executor Rust_Order
begin

text \<open>
  Mobile execution planning, \<open>crates/ntd-runtime/src/mobile.rs\<close>: the resources of a device and the policy
  derived from them, the paging of tensors, the placement plan, and the adaptive provider, which
  orders the providers that the resources permit and falls back from one to the next. What the code
  asks of the operating system (\<open>available_parallelism\<close>) is an argument. A slice is the list of its bytes.
\<close>

section \<open>Devices and policies\<close>

datatype provider_kind = CpuReference | CpuTiled | Vulkan | Npu

datatype power_class = PowerLow | PowerMedium | PowerHigh

text \<open>The derived order of the two enumerations, by position.\<close>

instantiation thermal_state :: linorder
begin

definition thermal_rank :: "thermal_state \<Rightarrow> nat" where
  "thermal_rank t = (case t of Thermal_Nominal \<Rightarrow> 0 | Thermal_Warm \<Rightarrow> 1 | Thermal_Hot \<Rightarrow> 2 | Thermal_Critical \<Rightarrow> 3)"

definition less_eq_thermal_state :: "thermal_state \<Rightarrow> thermal_state \<Rightarrow> bool" where
  "a \<le> b \<longleftrightarrow> thermal_rank a \<le> thermal_rank b"

definition less_thermal_state :: "thermal_state \<Rightarrow> thermal_state \<Rightarrow> bool" where
  "a < b \<longleftrightarrow> thermal_rank a < thermal_rank b"

instance
  by standard (auto simp: less_eq_thermal_state_def less_thermal_state_def thermal_rank_def split: thermal_state.splits)

end

instantiation power_class :: linorder
begin

definition power_rank :: "power_class \<Rightarrow> nat" where
  "power_rank p = (case p of PowerLow \<Rightarrow> 0 | PowerMedium \<Rightarrow> 1 | PowerHigh \<Rightarrow> 2)"

definition less_eq_power_class :: "power_class \<Rightarrow> power_class \<Rightarrow> bool" where
  "a \<le> b \<longleftrightarrow> power_rank a \<le> power_rank b"

definition less_power_class :: "power_class \<Rightarrow> power_class \<Rightarrow> bool" where
  "a < b \<longleftrightarrow> power_rank a < power_rank b"

instance
  by standard (auto simp: less_eq_power_class_def less_power_class_def power_rank_def split: power_class.splits)

end

record device_capabilities =
  dc_logical_cores :: nat
  dc_total_ram_bytes :: u64
  dc_supports_vulkan :: bool
  dc_supports_npu :: bool

definition device_detect :: "nat option \<Rightarrow> u64 \<Rightarrow> bool \<Rightarrow> bool \<Rightarrow> device_capabilities" where
  "device_detect parallelism total_ram_bytes supports_vulkan supports_npu =
    \<lparr>dc_logical_cores = (case parallelism of Some n \<Rightarrow> n | None \<Rightarrow> 1), dc_total_ram_bytes = total_ram_bytes,
     dc_supports_vulkan = supports_vulkan, dc_supports_npu = supports_npu\<rparr>"

definition snapshot_normalized :: "resource_snapshot \<Rightarrow> device_capabilities \<Rightarrow> resource_snapshot" where
  "snapshot_normalized s device =
    \<lparr>rn_available_ram_bytes = min (rn_available_ram_bytes s) (dc_total_ram_bytes device),
     rn_battery_percent = min (rn_battery_percent s) 100, rn_charging = rn_charging s,
     rn_thermal = rn_thermal s, rn_latency_budget_ms = rn_latency_budget_ms s\<rparr>"

datatype quantization_profile = ReferenceF32 | BalancedF16 | MobileI8 | AggressiveI8

definition bytes_per_element :: "quantization_profile \<Rightarrow> u64" where
  "bytes_per_element q = (case q of ReferenceF32 \<Rightarrow> 4 | BalancedF16 \<Rightarrow> 2 | MobileI8 \<Rightarrow> 1 | AggressiveI8 \<Rightarrow> 1)"

definition GIB :: u64 where "GIB = 1024 * 1024 * 1024"
definition MIB :: u64 where "MIB = 1024 * 1024"

definition quantization_recommended :: "device_capabilities \<Rightarrow> quantization_profile" where
  "quantization_recommended device =
    (if dc_total_ram_bytes device < 6 * GIB then AggressiveI8
     else if dc_total_ram_bytes device < 10 * GIB then MobileI8
     else if dc_total_ram_bytes device < 16 * GIB then BalancedF16
     else ReferenceF32)"

record compute_policy =
  po_reserve_ram_bytes :: u64
  po_page_bytes :: u64
  po_min_battery_for_accelerator :: u8
  po_allow_vulkan :: bool
  po_allow_npu :: bool
  po_prefer_low_power :: bool
  po_quantization :: quantization_profile

definition policy_for_device :: "device_capabilities \<Rightarrow> compute_policy" where
  "policy_for_device device =
    \<lparr>po_reserve_ram_bytes = max (dc_total_ram_bytes device div 8) (256 * MIB), po_page_bytes = 16 * MIB,
     po_min_battery_for_accelerator = 15, po_allow_vulkan = True, po_allow_npu = True,
     po_prefer_low_power = False, po_quantization = quantization_recommended device\<rparr>"

datatype tensor_placement = ResidentCpu | PagedCpu u64 | AcceleratorLocal provider_kind

record tensor_placement_plan =
  pl_quantization :: quantization_profile
  pl_placement :: tensor_placement
  pl_estimated_bytes :: u64
  pl_page_count :: u64

section \<open>Pages\<close>

record page_window =
  pw_offset :: u64
  pw_len :: u64

datatype mobile_compute_error = ComputeOverflow | InvalidPageSize

definition saturating_sub :: "'n::len word \<Rightarrow> 'n word \<Rightarrow> 'n word" where
  "saturating_sub a b = (if b \<le> a then a - b else 0)"

definition word_checked_mul :: "'n::len word \<Rightarrow> 'n word \<Rightarrow> 'n word option" where
  "word_checked_mul a b = (if uint a * uint b < 2 ^ LENGTH('n) then Some (a * b) else None)"

definition div_ceil :: "u64 \<Rightarrow> u64 \<Rightarrow> u64" where
  "div_ceil a b = a div b + (if a mod b = 0 then 0 else 1)"

text \<open>The loop over the offsets; with a page size of zero it would never end, which is \<open>None\<close>.\<close>

partial_function (option) page_loop ::
    "u64 \<Rightarrow> u64 \<Rightarrow> u64 \<Rightarrow> page_window list \<Rightarrow> (mobile_compute_error, page_window list) run" where
  "page_loop total_bytes page_bytes pos windows =
    (if pos < total_bytes then
       (let len = min (total_bytes - pos) page_bytes; windows' = windows @ [\<lparr>pw_offset = pos, pw_len = len\<rparr>] in
        (case checked_add pos len of
          None \<Rightarrow> Some (Inl ComputeOverflow)
        | Some pos' \<Rightarrow> page_loop total_bytes page_bytes pos' windows'))
     else Some (Inr windows))"

text \<open>\<open>Vec::with_capacity\<close> panics when its 16-byte elements would exceed \<open>isize::MAX\<close> bytes.\<close>

definition window_capacity :: "u64 \<Rightarrow> (mobile_compute_error, unit) run" where
  "window_capacity capacity = (if 16 * uint capacity < 2 ^ 63 then pret () else None)"

definition page_windows :: "u64 \<Rightarrow> u64 \<Rightarrow> (mobile_compute_error, page_window list) run" where
  "page_windows total_bytes page_bytes =
    (if page_bytes = 0 then pfail InvalidPageSize
     else let page_count = div_ceil total_bytes page_bytes in
       pbind (if uint page_count < usize_bound then pret page_count else pfail ComputeOverflow) (\<lambda>capacity.
       pbind (window_capacity capacity) (\<lambda>_.
         page_loop total_bytes page_bytes 0 [])))"

text \<open>\<open>SliceByteRegion\<close> and the reader over it.\<close>

definition region_len :: "u8 list \<Rightarrow> u64" where
  "region_len bytes = (if int (length bytes) < 2 ^ 64 then of_nat (length bytes) else - 1)"

definition read_range :: "u8 list \<Rightarrow> u64 \<Rightarrow> u64 \<Rightarrow> u8 list option" where
  "read_range bytes start width =
    (if uint start + uint width < usize_bound \<and> unat start + unat width \<le> length bytes
     then Some (take (unat width) (drop (unat start) bytes)) else None)"

record paged_byte_reader =
  pr_region :: "u8 list"
  pr_windows :: "page_window list"

definition reader_new :: "u8 list \<Rightarrow> u64 \<Rightarrow> (mobile_compute_error, paged_byte_reader) run" where
  "reader_new region page_bytes =
    pbind (page_windows (region_len region) page_bytes) (\<lambda>windows.
      pret \<lparr>pr_region = region, pr_windows = windows\<rparr>)"

definition reader_page_count :: "paged_byte_reader \<Rightarrow> nat" where
  "reader_page_count r = length (pr_windows r)"

definition reader_page :: "paged_byte_reader \<Rightarrow> nat \<Rightarrow> u8 list option" where
  "reader_page r index =
    (if index < length (pr_windows r) then
       let window = pr_windows r ! index in read_range (pr_region r) (pw_offset window) (pw_len window)
     else None)"

section \<open>Placement\<close>

definition accelerator_permitted ::
    "provider_kind \<Rightarrow> device_capabilities \<Rightarrow> resource_snapshot \<Rightarrow> compute_policy \<Rightarrow> bool" where
  "accelerator_permitted kind device snapshot policy = (let
      supported = (case kind of
          Vulkan \<Rightarrow> po_allow_vulkan policy \<and> dc_supports_vulkan device
        | Npu \<Rightarrow> po_allow_npu policy \<and> dc_supports_npu device
        | CpuReference \<Rightarrow> True
        | CpuTiled \<Rightarrow> True) in
    if \<not> supported then False
    else if kind \<in> {Vulkan, Npu} \<and> \<not> rn_charging snapshot
        \<and> rn_battery_percent snapshot < po_min_battery_for_accelerator policy then False
    else if kind \<in> {Vulkan, Npu} \<and> Thermal_Hot \<le> rn_thermal snapshot then False
    else True)"

definition plan_tensor_placement ::
    "u64 \<Rightarrow> device_capabilities \<Rightarrow> resource_snapshot \<Rightarrow> compute_policy \<Rightarrow> (mobile_compute_error, tensor_placement_plan) run" where
  "plan_tensor_placement element_count device snapshot policy = (let
      snapshot = snapshot_normalized snapshot device in
    pbind (plift (ok_or ComputeOverflow (word_checked_mul element_count (bytes_per_element (po_quantization policy)))))
      (\<lambda>estimated_bytes. let
        resident_budget = saturating_sub (rn_available_ram_bytes snapshot) (po_reserve_ram_bytes policy);
        accelerator =
          (if accelerator_permitted Npu device snapshot policy then Some Npu
           else if accelerator_permitted Vulkan device snapshot policy then Some Vulkan
           else None);
        placement =
          (if estimated_bytes \<le> resident_budget div 2 then
             (case accelerator of Some provider \<Rightarrow> AcceleratorLocal provider | None \<Rightarrow> ResidentCpu)
           else PagedCpu (po_page_bytes policy)) in
      pbind (case placement of
          PagedCpu page_bytes \<Rightarrow>
            pbind (page_windows estimated_bytes page_bytes) (\<lambda>windows.
              if int (length windows) < 2 ^ 64 then pret (of_nat (length windows)) else pfail ComputeOverflow)
        | ResidentCpu \<Rightarrow> pret 1
        | AcceleratorLocal _ \<Rightarrow> pret 1) (\<lambda>page_count.
        pret \<lparr>pl_quantization = po_quantization policy, pl_placement = placement,
          pl_estimated_bytes = estimated_bytes, pl_page_count = page_count\<rparr>)))"

section \<open>Providers\<close>

record provider_profile =
  pp_kind :: provider_kind
  pp_name :: string
  pp_minimum_working_set_bytes :: u64
  pp_power :: power_class
  pp_priority :: u16
  pp_supported_ops :: "tensor_op list"

definition profile_supports :: "provider_profile \<Rightarrow> tensor_op \<Rightarrow> bool" where
  "profile_supports p op \<longleftrightarrow> op \<in> set (pp_supported_ops p)"

definition all_tensor_ops :: "provider_kind \<Rightarrow> string \<Rightarrow> provider_profile" where
  "all_tensor_ops kind name =
    \<lparr>pp_kind = kind, pp_name = name, pp_minimum_working_set_bytes = 0, pp_power = PowerMedium, pp_priority = 100,
     pp_supported_ops = [Add, Mul, MatMul, QuantizedMatMul, RmsNorm, Softmax, Gather, RotaryPosition,
       CausalAttention, Silu, Reshape, Transpose, PositionIds]\<rparr>"

text \<open>\<open>trait MobileExecutionProvider\<close>: a provider and its profile.\<close>

record mobile_provider =
  mp_profile :: provider_profile
  mp_run :: provider

definition cpu_reference_mobile :: "libm \<Rightarrow> mobile_provider" where
  "cpu_reference_mobile lm =
    \<lparr>mp_profile = (all_tensor_ops CpuReference ''cpu-reference'')\<lparr>pp_power := PowerLow, pp_priority := 400\<rparr>,
     mp_run = cpu_reference lm\<rparr>"

record cpu_tiled_provider =
  ct_tile :: nat

definition cpu_tiled_new :: "nat \<Rightarrow> cpu_tiled_provider" where
  "cpu_tiled_new tile = \<lparr>ct_tile = max tile 1\<rparr>"

definition cpu_tiled_default :: cpu_tiled_provider where
  "cpu_tiled_default = cpu_tiled_new 32"

text \<open>\<open>usize::saturating_add\<close>, and the loop over the blocks of the inner dimension, which ends when it advances.\<close>

definition usize_saturating_add :: "nat \<Rightarrow> nat \<Rightarrow> nat" where
  "usize_saturating_add a b = (if int a + int b < usize_bound then a + b else nat (usize_bound - 1))"

partial_function (option) block_loop ::
    "(nat \<Rightarrow> f32 \<Rightarrow> (tensor_error, f32) run) \<Rightarrow> nat \<Rightarrow> nat \<Rightarrow> nat \<Rightarrow> f32 \<Rightarrow> (tensor_error, f32) run" where
  "block_loop body k tile block acc =
    (if block < k then
       (let stop = min (usize_saturating_add block tile) k in
        (case for_each body [block..<stop] acc of
          None \<Rightarrow> None
        | Some (Inl e) \<Rightarrow> Some (Inl e)
        | Some (Inr acc) \<Rightarrow> block_loop body k tile stop acc))
     else Some (Inr acc))"

definition tiled_matmul :: "tensor list \<Rightarrow> nat \<Rightarrow> (tensor_error, tensor) run" where
  "tiled_matmul inputs tile =
    (if length inputs \<noteq> 2 then pfail (Arity 2 (length inputs))
     else pbind (vec_get inputs 0) (\<lambda>lhs.
     pbind (vec_get inputs 1) (\<lambda>rhs.
       if length (tn_shape lhs) \<noteq> 2 \<or> length (tn_shape rhs) \<noteq> 2 \<or> tn_shape lhs ! 1 \<noteq> tn_shape rhs ! 0
       then pfail ShapeMismatch
       else let m = tn_shape lhs ! 0; k = tn_shape lhs ! 1; n = tn_shape rhs ! 1 in
         pbind (plift (ok_or InvalidShape (usize_mul m n))) (\<lambda>output_len.
         pbind (reserve_f32 output_len) (\<lambda>_.
         pbind (for_each (\<lambda>row. for_each (\<lambda>col output.
             pbind (block_loop (dot_step (tn_data lhs) (tn_data rhs) k n row col) k tile 0 0) (\<lambda>acc.
               vec_set output (row * n + col) acc)) [0..<n]) [0..<m] (replicate output_len 0)) (\<lambda>output.
           plift (tensor_new [m, n] output)))))))"

definition cpu_tiled_run :: "libm \<Rightarrow> cpu_tiled_provider \<Rightarrow> provider" where
  "cpu_tiled_run lm p op inputs =
    (if op = MatMul \<or> op = QuantizedMatMul
     then pbind (tiled_matmul inputs (ct_tile p)) (\<lambda>output. pret [output])
     else cpu_reference lm op inputs)"

definition cpu_tiled_mobile :: "libm \<Rightarrow> cpu_tiled_provider \<Rightarrow> mobile_provider" where
  "cpu_tiled_mobile lm p =
    \<lparr>mp_profile = (all_tensor_ops CpuTiled ''cpu-tiled'')\<lparr>pp_power := PowerMedium, pp_priority := 300\<rparr>,
     mp_run = cpu_tiled_run lm p\<rparr>"

text \<open>\<open>ProfiledProvider\<close>, and the two profiles of accelerators; the back end is an argument.\<close>

definition profiled_provider :: "provider \<Rightarrow> provider_profile \<Rightarrow> mobile_provider" where
  "profiled_provider backend profile = \<lparr>mp_profile = profile, mp_run = backend\<rparr>"

definition vulkan_provider :: "provider \<Rightarrow> string \<Rightarrow> u64 \<Rightarrow> tensor_op list \<Rightarrow> mobile_provider" where
  "vulkan_provider backend name minimum_working_set_bytes supported_ops =
    profiled_provider backend
      \<lparr>pp_kind = Vulkan, pp_name = name, pp_minimum_working_set_bytes = minimum_working_set_bytes,
       pp_power = PowerHigh, pp_priority = 100, pp_supported_ops = supported_ops\<rparr>"

definition npu_provider :: "provider \<Rightarrow> string \<Rightarrow> u64 \<Rightarrow> tensor_op list \<Rightarrow> mobile_provider" where
  "npu_provider backend name minimum_working_set_bytes supported_ops =
    profiled_provider backend
      \<lparr>pp_kind = Npu, pp_name = name, pp_minimum_working_set_bytes = minimum_working_set_bytes,
       pp_power = PowerLow, pp_priority = 50, pp_supported_ops = supported_ops\<rparr>"

section \<open>Measurements\<close>

record provider_measurement =
  pm_kind :: provider_kind
  pm_op :: tensor_op
  pm_latency_nanos :: u64
  pm_verified_equivalent :: bool

type_synonym autotune_table = "provider_measurement list"

fun autotune_record :: "autotune_table \<Rightarrow> provider_measurement \<Rightarrow> autotune_table" where
  "autotune_record [] m = [m]"
| "autotune_record (e # es) m =
    (if pm_kind e = pm_kind m \<and> pm_op e = pm_op m then m # es else e # autotune_record es m)"

definition latency_nanos :: "autotune_table \<Rightarrow> provider_kind \<Rightarrow> tensor_op \<Rightarrow> u64 option" where
  "latency_nanos t kind op =
    map_option pm_latency_nanos (find (\<lambda>e. pm_kind e = kind \<and> pm_op e = op \<and> pm_verified_equivalent e) t)"

definition is_verified :: "autotune_table \<Rightarrow> provider_kind \<Rightarrow> tensor_op \<Rightarrow> bool" where
  "is_verified t kind op = list_ex (\<lambda>e. pm_kind e = kind \<and> pm_op e = op \<and> pm_verified_equivalent e) t"

text \<open>The derived equality of tensors, on which a NaN differs from itself.\<close>

definition tensor_eq :: "tensor \<Rightarrow> tensor \<Rightarrow> bool" where
  "tensor_eq a b \<longleftrightarrow> tn_shape a = tn_shape b \<and> list_all2 f32_eq (tn_data a) (tn_data b)"

definition verify_provider_equivalence ::
    "provider \<Rightarrow> provider \<Rightarrow> tensor_op \<Rightarrow> tensor list \<Rightarrow> (tensor_error, bool) run" where
  "verify_provider_equivalence reference candidate op inputs =
    pbind (reference op inputs) (\<lambda>reference_outputs.
      case candidate op inputs of
        None \<Rightarrow> None
      | Some (Inr candidate_outputs) \<Rightarrow> pret (list_all2 tensor_eq candidate_outputs reference_outputs)
      | Some (Inl _) \<Rightarrow> pret False)"

section \<open>The adaptive provider\<close>

record adaptive_provider =
  ad_device :: device_capabilities
  ad_snapshot :: resource_snapshot
  ad_policy :: compute_policy
  ad_autotune :: autotune_table
  ad_providers :: "mobile_provider list"

definition adaptive_new :: "device_capabilities \<Rightarrow> resource_snapshot \<Rightarrow> compute_policy \<Rightarrow> adaptive_provider" where
  "adaptive_new device snapshot policy =
    \<lparr>ad_device = device, ad_snapshot = snapshot_normalized snapshot device, ad_policy = policy,
     ad_autotune = [], ad_providers = []\<rparr>"

definition adaptive_register :: "mobile_provider \<Rightarrow> adaptive_provider \<Rightarrow> adaptive_provider" where
  "adaptive_register p a = a\<lparr>ad_providers := ad_providers a @ [p]\<rparr>"

definition adaptive_set_snapshot :: "resource_snapshot \<Rightarrow> adaptive_provider \<Rightarrow> adaptive_provider" where
  "adaptive_set_snapshot s a = a\<lparr>ad_snapshot := snapshot_normalized s (ad_device a)\<rparr>"

definition adaptive_set_autotune :: "autotune_table \<Rightarrow> adaptive_provider \<Rightarrow> adaptive_provider" where
  "adaptive_set_autotune t a = a\<lparr>ad_autotune := t\<rparr>"

definition compare_provider ::
    "provider_profile \<Rightarrow> provider_profile \<Rightarrow> tensor_op \<Rightarrow> autotune_table \<Rightarrow> u32 \<Rightarrow> bool \<Rightarrow> ordering" where
  "compare_provider left right op autotune latency_budget_ms prefer_low_power = (let
      left_latency = latency_nanos autotune (pp_kind left) op;
      right_latency = latency_nanos autotune (pp_kind right) op;
      budget_nanos = saturating_mul (ucast latency_budget_ms :: u64) 1000000 in
    case (left_latency, right_latency) of
      (Some left_ns, Some right_ns) \<Rightarrow> let
        left_misses_budget = (0 < latency_budget_ms \<and> budget_nanos < left_ns);
        right_misses_budget = (0 < latency_budget_ms \<and> budget_nanos < right_ns) in
        then_with (then_with (cmp left_misses_budget right_misses_budget) (cmp left_ns right_ns))
          (cmp (pp_priority left) (pp_priority right))
    | (Some _, None) \<Rightarrow> Less
    | (None, Some _) \<Rightarrow> Greater
    | (None, None) \<Rightarrow>
        if prefer_low_power then then_with (cmp (pp_power left) (pp_power right)) (cmp (pp_priority left) (pp_priority right))
        else cmp (pp_priority left) (pp_priority right))"

definition profile_allowed :: "adaptive_provider \<Rightarrow> provider_profile \<Rightarrow> tensor_op \<Rightarrow> bool" where
  "profile_allowed a profile op =
    (if \<not> profile_supports profile op then False
     else let working_budget = saturating_sub (rn_available_ram_bytes (ad_snapshot a)) (po_reserve_ram_bytes (ad_policy a)) in
     if working_budget < pp_minimum_working_set_bytes profile then False
     else (case pp_kind profile of
         CpuReference \<Rightarrow> True
       | CpuTiled \<Rightarrow> True
       | kind \<Rightarrow> is_verified (ad_autotune a) kind op
           \<and> accelerator_permitted kind (ad_device a) (ad_snapshot a) (ad_policy a)))"

definition ordered_provider_indices :: "adaptive_provider \<Rightarrow> tensor_op \<Rightarrow> nat list" where
  "ordered_provider_indices a op =
    sort_by (\<lambda>left right. compare_provider (mp_profile (ad_providers a ! left)) (mp_profile (ad_providers a ! right))
        op (ad_autotune a) (rn_latency_budget_ms (ad_snapshot a)) (po_prefer_low_power (ad_policy a)))
      (filter (\<lambda>index. profile_allowed a (mp_profile (ad_providers a ! index)) op) [0..<length (ad_providers a)])"

definition selected_provider :: "adaptive_provider \<Rightarrow> tensor_op \<Rightarrow> provider_profile option" where
  "selected_provider a op =
    (case ordered_provider_indices a op of [] \<Rightarrow> None | index # _ \<Rightarrow> Some (mp_profile (ad_providers a ! index)))"

text \<open>The loop over the providers, with the error of the last one that failed.\<close>

fun try_providers ::
    "provider list \<Rightarrow> tensor_op \<Rightarrow> tensor list \<Rightarrow> tensor_error option \<Rightarrow> (tensor_error, tensor list) run" where
  "try_providers [] op inputs last_error = pfail (case last_error of Some e \<Rightarrow> e | None \<Rightarrow> NoProvider)"
| "try_providers (p # ps) op inputs last_error =
    (case p op inputs of
      None \<Rightarrow> None
    | Some (Inr outputs) \<Rightarrow> pret outputs
    | Some (Inl e) \<Rightarrow> try_providers ps op inputs (Some e))"

definition adaptive_execute :: "adaptive_provider \<Rightarrow> provider" where
  "adaptive_execute a op inputs = (let indices = ordered_provider_indices a op in
    if indices = [] then pfail NoProvider
    else try_providers (map (\<lambda>index. mp_run (ad_providers a ! index)) indices) op inputs None)"

end
