(* ===== verification/Mobile_Execution.thy ===== *)
theory Mobile_Execution
  imports Mobile_Compute
begin

text \<open>
  What the mobile execution planning guarantees: pages cover a tensor exactly, a placement fits the
  memory that is left and respects the limits of the accelerators, the tiled product is the
  reference product bit for bit, the providers are tried in the order of a total preorder, the first that
  does not fail decides, and with accelerators that are equivalent to the reference a fallback never changes the outcome.
\<close>

section \<open>Pages\<close>

text \<open>The windows of a region from a position: adjacent, not empty, full except for the last one.\<close>

fun contiguous :: "nat \<Rightarrow> nat \<Rightarrow> nat \<Rightarrow> page_window list \<Rightarrow> bool" where
  "contiguous page pos size_bytes [] \<longleftrightarrow> pos = size_bytes"
| "contiguous page pos size_bytes (w # ws) \<longleftrightarrow>
    unat (pw_offset w) = pos \<and> 0 < unat (pw_len w) \<and> unat (pw_len w) \<le> page \<and> (ws \<noteq> [] \<longrightarrow> unat (pw_len w) = page)
    \<and> contiguous page (pos + unat (pw_len w)) size_bytes ws"

lemma contiguous_le: "contiguous page pos size_bytes ws \<Longrightarrow> pos \<le> size_bytes"
  by (induction ws arbitrary: pos) fastforce+

lemma contiguous_length:
  "contiguous page pos size_bytes ws \<Longrightarrow> 0 < page \<Longrightarrow> length ws = (size_bytes - pos + page - 1) div page"
proof (induction ws arbitrary: pos)
  case (Cons w ws)
  let ?len = "unat (pw_len w)"
  have rest: "length ws = (size_bytes - (pos + ?len) + page - 1) div page" "pos + ?len \<le> size_bytes"
    using Cons contiguous_le by auto
  show ?case
  proof (cases ws)
    case Nil
    then have "size_bytes - pos = ?len" "0 < ?len" "?len \<le> page" using Cons.prems by auto
    then have "(size_bytes - pos + page - 1) div page = 1"
      by (intro div_nat_eqI) auto
    with Nil show ?thesis by simp
  next
    case (Cons w' ws')
    then have "?len = page" using Cons.prems by simp
    with rest have eq: "size_bytes - pos + page - 1 = (size_bytes - (pos + ?len) + page - 1) + page"
      using \<open>0 < page\<close> by simp
    show ?thesis unfolding eq length_Cons rest(1) using \<open>0 < page\<close> by (simp only: div_add_self2)
  qed
qed simp

lemma min_unat: "unat (min a b) = min (unat a) (unat b)"
  by (simp add: min_def word_le_nat_alt)

lemma page_loop_contiguous:
  assumes "0 < page_bytes" "pos \<le> total_bytes"
  shows "\<exists>ws. page_loop total_bytes page_bytes pos acc = Some (Inr (acc @ ws))
    \<and> contiguous (unat page_bytes) (unat pos) (unat total_bytes) ws"
  using assms(2)
proof (induction "unat total_bytes - unat pos" arbitrary: pos acc rule: less_induct)
  case less
  show ?case
  proof (cases "pos < total_bytes")
    case False
    with less.prems show ?thesis
      by (subst page_loop.simps) (auto intro!: exI [of _ "[]"])
  next
    case True
    let ?len = "min (total_bytes - pos) page_bytes"
    have sub: "unat (total_bytes - pos) = unat total_bytes - unat pos"
      using less.prems by (simp add: unat_sub)
    have len: "unat ?len = min (unat total_bytes - unat pos) (unat page_bytes)" by (simp add: min_unat sub)
    have pos: "0 < unat ?len" "unat pos < unat total_bytes"
      using True assms(1) by (auto simp: len word_less_nat_alt)
    have "unat total_bytes < 2 ^ LENGTH(64)" by (rule unsigned_less)
    then have sum: "unat pos + unat ?len < 2 ^ LENGTH(64)" using pos len by linarith
    then have add: "checked_add pos ?len = Some (pos + ?len)"
      unfolding checked_add_def uint_add_less by (rule if_P)
    note add = add checked_add_unat [OF add]
    have le: "pos + ?len \<le> total_bytes" using add(2) len pos by (simp add: word_le_nat_alt)
    let ?w = "\<lparr>pw_offset = pos, pw_len = ?len\<rparr>"
    obtain ws where ws: "page_loop total_bytes page_bytes (pos + ?len) (acc @ [?w]) = Some (Inr ((acc @ [?w]) @ ws))"
      "contiguous (unat page_bytes) (unat (pos + ?len)) (unat total_bytes) ws"
      using less.hyps [OF _ le, of "acc @ [?w]"] add(2) pos len by (metis diff_less_mono2 less_add_same_cancel1)
    have "unat ?len = unat page_bytes" if "ws \<noteq> []"
    proof (rule ccontr)
      assume "unat ?len \<noteq> unat page_bytes"
      then have "unat (pos + ?len) = unat total_bytes" using len add(2) pos by auto
      with ws(2) that contiguous_le show False by (cases ws) fastforce+
    qed
    with ws(2) pos len add(2) have "contiguous (unat page_bytes) (unat pos) (unat total_bytes) (?w # ws)" by simp
    moreover have "page_loop total_bytes page_bytes pos acc = Some (Inr (acc @ ?w # ws))"
      using True add(1) ws(1) by (subst page_loop.simps) (simp add: Let_def)
    ultimately show ?thesis by blast
  qed
qed

lemma div_ceil_unat: "0 < b \<Longrightarrow> unat (div_ceil a b) = (unat a + unat b - 1) div unat b"
proof -
  assume b: "0 < b"
  then have ub: "0 < unat b" by (simp add: word_less_nat_alt)
  have m: "unat (a mod b) = unat a mod unat b" and d: "unat (a div b) = unat a div unat b"
    by (simp_all add: unat_mod_distrib unat_div_distrib)
  show ?thesis
  proof (cases "a mod b = 0")
    case True
    then have "unat a mod unat b = 0" using m by simp
    then obtain q where "unat a = unat b * q" by auto
    with ub have "(unat a + unat b - 1) div unat b = unat a div unat b"
      by (simp, intro div_nat_eqI) (auto simp: algebra_simps)
    with True d show ?thesis by (simp add: div_ceil_def)
  next
    case False
    then have r: "0 < unat a mod unat b" using m by (metis gr0I unat_eq_zero)
    have "unat a div unat b < 2 ^ LENGTH(64) - 1"
    proof (cases "unat b = 1")
      case True with r show ?thesis by simp
    next
      case False
      then have "unat a div unat b \<le> unat a div 2" using ub by (intro div_le_mono2) auto
      moreover have "unat a < 2 ^ LENGTH(64)" by (rule unsigned_less)
      ultimately show ?thesis by simp
    qed
    then have s: "unat (a div b + 1) = unat a div unat b + 1"
      using d by (simp add: unat_word_ariths)
    have "unat a + unat b - 1 = (unat a mod unat b - 1) + unat b * (unat a div unat b + 1)"
    proof -
      have "unat b * (unat a div unat b + 1) = unat b * (unat a div unat b) + unat b" by simp
      with r mod_mult_div_eq [of "unat a" "unat b"] show ?thesis by linarith
    qed
    moreover have "unat a mod unat b - 1 < unat b" using ub by (meson le_less_trans diff_le_self mod_less_divisor)
    ultimately have "(unat a + unat b - 1) div unat b = unat a div unat b + 1"
      by (intro div_nat_eqI) simp_all
    with s False show ?thesis by (simp add: div_ceil_def)
  qed
qed

lemma page_windows_contiguous:
  assumes "0 < page_bytes" "16 * uint (div_ceil total_bytes page_bytes) < 2 ^ 63"
  shows "\<exists>ws. page_windows total_bytes page_bytes = Some (Inr ws)
    \<and> contiguous (unat page_bytes) 0 (unat total_bytes) ws \<and> length ws = unat (div_ceil total_bytes page_bytes)"
proof -
  obtain ws where ws: "page_loop total_bytes page_bytes 0 [] = Some (Inr ws)" "contiguous (unat page_bytes) 0 (unat total_bytes) ws"
    using page_loop_contiguous [OF assms(1), of 0 total_bytes "[]"] by auto
  moreover have "0 < unat page_bytes" using assms(1) by (simp add: word_less_nat_alt)
  ultimately have "length ws = unat (div_ceil total_bytes page_bytes)"
    using contiguous_length [of "unat page_bytes" 0 "unat total_bytes" ws] assms(1) by (simp add: div_ceil_unat)
  moreover have "page_windows total_bytes page_bytes = Some (Inr ws)"
    using ws(1) assms by (auto simp: page_windows_def window_capacity_def usize_bound_def Let_def)
  ultimately show ?thesis using ws(2) by blast
qed

text \<open>The pages of a region, in order, are the region.\<close>

definition window_bytes :: "u8 list \<Rightarrow> page_window \<Rightarrow> u8 list" where
  "window_bytes bytes w = take (unat (pw_len w)) (drop (unat (pw_offset w)) bytes)"

lemma contiguous_concat:
  "contiguous page pos (length bytes) ws \<Longrightarrow> concat (map (window_bytes bytes) ws) = drop pos bytes"
proof (induction ws arbitrary: pos)
  case (Cons w ws)
  then have rest: "concat (map (window_bytes bytes) ws) = drop (pos + unat (pw_len w)) bytes" by simp
  from Cons.prems have "window_bytes bytes w = take (unat (pw_len w)) (drop pos bytes)" by (simp add: window_bytes_def)
  moreover have "drop (pos + unat (pw_len w)) bytes = drop (unat (pw_len w)) (drop pos bytes)" by (simp add: add.commute)
  ultimately show ?case using rest by (simp only: list.map concat.simps append_take_drop_id)
qed simp

lemma contiguous_inside:
  "contiguous page pos (length bytes) ws \<Longrightarrow> w \<in> set ws \<Longrightarrow> unat (pw_offset w) + unat (pw_len w) \<le> length bytes"
proof (induction ws arbitrary: pos)
  case (Cons v ws)
  then show ?case using contiguous_le [of page "pos + unat (pw_len v)" "length bytes" ws] by auto
qed simp

lemma read_window:
  assumes "unat (pw_offset w) + unat (pw_len w) \<le> length bytes" "int (length bytes) < usize_bound"
  shows "read_range bytes (pw_offset w) (pw_len w) = Some (window_bytes bytes w)"
proof -
  have "uint (pw_offset w) + uint (pw_len w) = int (unat (pw_offset w) + unat (pw_len w))" by simp
  also have "\<dots> \<le> int (length bytes)" using assms(1) by (simp only: of_nat_le_iff)
  finally show ?thesis using assms by (simp add: read_range_def window_bytes_def)
qed

lemma reader_pages:
  assumes "int (length bytes) < usize_bound" "0 < page_bytes" "16 * uint (div_ceil (of_nat (length bytes)) page_bytes) < 2 ^ 63"
  shows "\<exists>r. reader_new bytes page_bytes = Some (Inr r)
    \<and> contiguous (unat page_bytes) 0 (length bytes) (pr_windows r)
    \<and> map (reader_page r) [0..<reader_page_count r] = map (\<lambda>w. Some (window_bytes bytes w)) (pr_windows r)
    \<and> (\<forall>i \<ge> reader_page_count r. reader_page r i = None)"
proof -
  have len: "region_len bytes = of_nat (length bytes)" "unat (of_nat (length bytes) :: u64) = length bytes"
    using assms(1) by (simp_all add: region_len_def usize_bound_def unat_of_nat)
  obtain ws where ws: "page_windows (of_nat (length bytes)) page_bytes = Some (Inr ws)"
    "contiguous (unat page_bytes) 0 (length bytes) ws"
    using page_windows_contiguous [OF assms(2,3)] len(2) by auto
  let ?r = "\<lparr>pr_region = bytes, pr_windows = ws\<rparr>"
  have "reader_page ?r i = Some (window_bytes bytes (ws ! i))" if "i < length ws" for i
    using read_window [OF contiguous_inside [OF ws(2)] assms(1)] that by (simp add: reader_page_def Let_def)
  then have "map (reader_page ?r) [0..<reader_page_count ?r] = map (\<lambda>w. Some (window_bytes bytes w)) ws"
    by (auto simp: reader_page_count_def intro!: nth_equalityI)
  moreover have "reader_new bytes page_bytes = Some (Inr ?r)" using ws(1) len(1) by (simp add: reader_new_def pret_def)
  moreover have "\<forall>i \<ge> reader_page_count ?r. reader_page ?r i = None" by (simp add: reader_page_count_def reader_page_def)
  ultimately show ?thesis using ws(2) by (intro exI [of _ ?r]) simp
qed

section \<open>The tiled product\<close>

lemma block_loop_blocks:
  assumes "0 < tile" "block \<le> k" "int k < usize_bound"
  shows "block_loop body k tile block acc = for_each body [block..<k] acc"
  using assms(2)
proof (induction "k - block" arbitrary: block acc rule: less_induct)
  case less
  show ?case
  proof (cases "block < k")
    case False
    with less.prems show ?thesis by (subst block_loop.simps) (simp add: pret_def)
  next
    case True
    let ?stop = "min (usize_saturating_add block tile) k"
    have stop: "block < ?stop" "?stop \<le> k"
      using True assms(1,3) by (auto simp: usize_saturating_add_def usize_bound_def)
    then have "[block..<k] = [block..<?stop] @ [?stop..<k]"
      using upt_add_eq_append [of block ?stop "k - ?stop"] by simp
    then have split: "for_each body [block..<k] acc = pbind (for_each body [block..<?stop] acc) (for_each body [?stop..<k])"
      by (simp only: for_each_append)
    have IH: "block_loop body k tile ?stop a = for_each body [?stop..<k] a" for a
      using less.hyps [of ?stop] stop True by simp
    show ?thesis unfolding split
      by (subst block_loop.simps, cases "for_each body [block..<?stop] acc" rule: run_cases) (use True IH in \<open>simp_all add: Let_def\<close>)
  qed
qed

lemma tensor_ok_inner:
  assumes "tensor_ok t" "length (tn_shape t) = 2" "0 < tn_shape t ! 0"
  shows "int (tn_shape t ! 1) < usize_bound"
proof -
  have "tn_shape t ! 1 \<le> length (tn_data t)"
    using assms tensor_ok_length [OF assms(1)] by (simp add: shape2)
  then show ?thesis using tensor_ok_small [OF assms(1)] by linarith
qed

lemma tiled_matmul_matmul:
  assumes "\<forall>t \<in> set inputs. tensor_ok t" "0 < tile"
  shows "tiled_matmul inputs tile = matmul inputs"
proof (cases "length inputs = 2")
  case True
  let ?a = "inputs ! 0" and ?b = "inputs ! 1"
  have ok: "tensor_ok ?a" using assms(1) True by simp
  show ?thesis
  proof (cases "length (tn_shape ?a) = 2")
    case shape: True
    let ?k = "tn_shape ?a ! 1"
    have "for_each (\<lambda>row. for_each (\<lambda>col out.
          pbind (block_loop (dot_step (tn_data ?a) (tn_data ?b) ?k n row col) ?k tile 0 0) (\<lambda>acc.
            vec_set out (row * n + col) acc)) [0..<n]) [0..<tn_shape ?a ! 0] z
        = for_each (\<lambda>row. for_each (\<lambda>col out.
          pbind (for_each (dot_step (tn_data ?a) (tn_data ?b) ?k n row col) [0..<?k] 0) (\<lambda>acc.
            vec_set out (row * n + col) acc)) [0..<n]) [0..<tn_shape ?a ! 0] z" for n z
    proof (rule for_each_cong [OF refl refl])
      fix row s assume "row \<in> set [0..<tn_shape ?a ! 0]"
      then have "int ?k < usize_bound" using tensor_ok_inner [OF ok shape] by auto
      then show "for_each (\<lambda>col out. pbind (block_loop (dot_step (tn_data ?a) (tn_data ?b) ?k n row col) ?k tile 0 0)
            (\<lambda>acc. vec_set out (row * n + col) acc)) [0..<n] s
        = for_each (\<lambda>col out. pbind (for_each (dot_step (tn_data ?a) (tn_data ?b) ?k n row col) [0..<?k] 0)
            (\<lambda>acc. vec_set out (row * n + col) acc)) [0..<n] s"
        by (simp only: block_loop_blocks [OF assms(2) le0])
    qed
    note rows = this
    have inputs: "vec_get inputs 0 = pret ?a" "vec_get inputs 1 = pret ?b"
      using True by (simp_all add: vec_get_def)
    show ?thesis
      by (simp only: tiled_matmul_def matmul_def require_arity_def True inputs pbind_pret Let_def rows simp_thms if_True if_False)
  qed (use True in \<open>simp add: tiled_matmul_def matmul_def require_arity_def vec_get_def\<close>)
qed (simp add: tiled_matmul_def matmul_def require_arity_def)

lemma cpu_tiled_is_reference:
  assumes "\<forall>t \<in> set inputs. tensor_ok t"
  shows "cpu_tiled_run lm (cpu_tiled_new n) op inputs = cpu_reference lm op inputs"
  using tiled_matmul_matmul [OF assms, of "max n 1"]
  by (auto simp: cpu_tiled_run_def cpu_tiled_new_def cpu_reference_def)

lemma cpu_tiled_oversized: "oversized op inputs \<Longrightarrow> cpu_tiled_run lm p op inputs = None"
proof -
  assume big: "oversized op inputs"
  have "tiled_matmul inputs tile = None" if "matmul inputs = None" "oversized MatMul inputs" for tile
  proof -
    from that(2) have "0 < reserved_elements MatMul inputs" by (simp add: oversized_def)
    then obtain a b where ab: "inputs = [a, b]"
      by (cases "(MatMul, inputs)" rule: reserved_elements.cases; simp)
    with that(2) have "4 * int (product_elements a b) \<ge> 2 ^ 63" "int (product_elements a b) < usize_bound"
      by (simp_all add: oversized_def)
    moreover from this have shapes: "length (tn_shape a) = 2" "length (tn_shape b) = 2" "tn_shape a ! 1 = tn_shape b ! 0"
        "product_elements a b = tn_shape a ! 0 * tn_shape b ! 1"
      by (auto simp: product_elements_def split: if_splits)
    ultimately have "usize_mul (tn_shape a ! 0) (tn_shape b ! 1) = Some (product_elements a b)"
      "reserve_f32 (product_elements a b) = None"
      by (simp_all only: usize_mul_eq of_nat_mult reserve_f32_def linorder_not_le [symmetric] simp_thms if_False)
    with shapes show ?thesis by (simp add: ab tiled_matmul_def vec_get_def Let_def plift_def del: usize_mul_eq)
  qed
  with big oversized_panics [OF big] cpu_reference_oversized [OF big, of lm] show "cpu_tiled_run lm p op inputs = None"
    by (auto simp: cpu_tiled_run_def oversized_quantized)
qed

interpretation tiled: tensor_provider "cpu_tiled_run lm (cpu_tiled_new n)" oversized for lm n
  by unfold_locales (simp_all add: cpu_tiled_is_reference cpu.run_safe cpu_tiled_oversized)

section \<open>The order of the providers\<close>

text \<open>Measured providers first, by missed budget, latency and priority; then the others.\<close>

definition provider_key :: "tensor_op \<Rightarrow> autotune_table \<Rightarrow> u32 \<Rightarrow> bool \<Rightarrow> provider_profile \<Rightarrow> nat \<times> nat \<times> u64 \<times> u16" where
  "provider_key op table budget_ms prefer_low_power p =
    (case latency_nanos table (pp_kind p) op of
      Some ns \<Rightarrow> (0, of_bool (0 < budget_ms \<and> saturating_mul (ucast budget_ms :: u64) 1000000 < ns), ns, pp_priority p)
    | None \<Rightarrow> (1, if prefer_low_power then power_rank (pp_power p) else 0, 0, pp_priority p))"

lemma cmp_power: "cmp (power_rank a) (power_rank b) = cmp a b"
proof -
  have "power_rank a = power_rank b \<longleftrightarrow> a = b" by (auto simp: power_rank_def split: power_class.splits)
  then show ?thesis by (simp add: cmp_def less_power_class_def)
qed

lemma compare_provider_key:
  "compare_provider left right op table budget_ms low_power =
    cmp (provider_key op table budget_ms low_power left) (provider_key op table budget_ms low_power right)"
proof -
  have refl: "cmp x x = Equal" for x :: "'a :: linorder" by (simp add: cmp_def)
  have less: "cmp 0 (1 :: nat) = Less" "cmp 1 (0 :: nat) = Greater" by (simp_all add: cmp_def)
  show ?thesis
  proof (cases "latency_nanos table (pp_kind left) op")
    case None
    then show ?thesis
      by (cases "latency_nanos table (pp_kind right) op"; cases low_power)
        (simp_all only: compare_provider_def provider_key_def Let_def option.case prod.case cmp_pair less refl
          then_with_Equal then_with_Less cmp_power if_True if_False)
  next
    case (Some ns)
    then show ?thesis
      by (cases "latency_nanos table (pp_kind right) op")
        (simp_all only: compare_provider_def provider_key_def Let_def option.case prod.case cmp_pair less refl then_with_assoc
          then_with_Equal then_with_Less cmp_bool)
  qed
qed

lemma ordered_indices_key:
  "ordered_provider_indices a op =
    sort_key (\<lambda>i. provider_key op (ad_autotune a) (rn_latency_budget_ms (ad_snapshot a)) (po_prefer_low_power (ad_policy a))
        (mp_profile (ad_providers a ! i)))
      (filter (\<lambda>i. profile_allowed a (mp_profile (ad_providers a ! i)) op) [0..<length (ad_providers a)])"
  unfolding ordered_provider_indices_def compare_provider_key by (rule sort_by_key)

section \<open>Fallback\<close>

lemma ordered_indices_set:
  "set (ordered_provider_indices a op) = {i. i < length (ad_providers a) \<and> profile_allowed a (mp_profile (ad_providers a ! i)) op}"
  by (auto simp: ordered_indices_key)

text \<open>
  Fallback over a list of providers, whatever they do: the first that does not fail decides, by its tensors or by its
  panic; when all fail the error is that of the last one.
\<close>

definition fails :: "provider \<Rightarrow> tensor_op \<Rightarrow> tensor list \<Rightarrow> bool" where
  "fails p op inputs \<longleftrightarrow> (\<exists>e. p op inputs = Some (Inl e))"

definition settles :: "provider list \<Rightarrow> tensor_op \<Rightarrow> tensor list \<Rightarrow> (tensor_error, tensor list) run \<Rightarrow> bool" where
  "settles ps op inputs r \<longleftrightarrow>
    (\<exists>before p after. ps = before @ p # after \<and> (\<forall>q \<in> set before. fails q op inputs)
      \<and> \<not> fails p op inputs \<and> r = p op inputs)
    \<or> (\<forall>q \<in> set ps. fails q op inputs) \<and> r = (if ps = [] then pfail NoProvider else last ps op inputs)"

lemma settles_Cons: "fails p op inputs \<Longrightarrow> ps \<noteq> [] \<Longrightarrow> settles ps op inputs r \<Longrightarrow> settles (p # ps) op inputs r"
  unfolding settles_def by (elim disjE exE conjE) (metis append_Cons set_ConsD, simp)

lemma try_providers_settle: "ps \<noteq> [] \<Longrightarrow> settles ps op inputs (try_providers ps op inputs e)"
proof (induction ps arbitrary: e)
  case (Cons p ps)
  show ?case
  proof (cases "p op inputs" rule: run_cases)
    case (Err e')
    then have "fails p op inputs" by (simp add: fails_def)
    with Cons.IH [of "Some e'"] Err show ?thesis
      by (cases "ps = []") (simp_all add: settles_Cons, simp add: settles_def fails_def pfail_def)
  next
    case Panic
    then show ?thesis unfolding settles_def by (intro disjI1 exI [of _ "[]"]) (simp add: fails_def)
  next
    case (Ok ts)
    then show ?thesis unfolding settles_def by (intro disjI1 exI [of _ "[]"]) (simp add: fails_def pret_def)
  qed
qed simp

text \<open>The providers that the resources allow, in the order in which they are tried.\<close>

abbreviation (input) tried :: "adaptive_provider \<Rightarrow> tensor_op \<Rightarrow> provider list" where
  "tried a op \<equiv> map (\<lambda>i. mp_run (ad_providers a ! i)) (ordered_provider_indices a op)"

lemma adaptive_settles: "settles (tried a op) op inputs (adaptive_execute a op inputs)"
  using try_providers_settle [of "tried a op" op inputs None]
  by (cases "ordered_provider_indices a op = []") (simp_all add: adaptive_execute_def settles_def)

lemma set_tried: "set (tried a op) = {mp_run p | p. p \<in> set (ad_providers a) \<and> profile_allowed a (mp_profile p) op}"
  by (force simp: ordered_indices_set in_set_conv_nth)

text \<open>Two outcomes that are the same, the kind of the error apart.\<close>

fun same_outcome :: "(tensor_error, tensor list) run \<Rightarrow> (tensor_error, tensor list) run \<Rightarrow> bool" where
  "same_outcome (Some (Inl _)) r \<longleftrightarrow> (\<exists>e. r = Some (Inl e))"
| "same_outcome r' r \<longleftrightarrow> r = r'"

lemma settles_same_outcome:
  assumes settled: "settles ps op inputs r" and ps: "\<forall>p \<in> set ps. fails p op inputs \<or> p op inputs = expected"
    and one: "\<exists>p \<in> set ps. p op inputs = expected"
  shows "same_outcome expected r"
  using settled unfolding settles_def
proof (elim disjE exE conjE)
  fix before p after
  assume "ps = before @ p # after" "\<not> fails p op inputs" "r = p op inputs"
  with ps have "r = expected" by auto
  then show ?thesis by (cases expected rule: run_cases) simp_all
next
  assume fail: "\<forall>q \<in> set ps. fails q op inputs" "r = (if ps = [] then pfail NoProvider else last ps op inputs)"
  with one obtain e where e: "expected = Some (Inl e)" by (auto simp: fails_def)
  from one have "ps \<noteq> []" by auto
  with fail have "fails (last ps) op inputs" "r = last ps op inputs" by simp_all
  with e show ?thesis by (simp add: fails_def)
qed

lemma cpu_profile_allowed: "profile_allowed a (mp_profile (cpu_reference_mobile lm)) op"
  by (cases op) (simp_all add: profile_allowed_def cpu_reference_mobile_def all_tensor_ops_def profile_supports_def Let_def)

text \<open>What an accelerator needs before it runs.\<close>

definition accelerator_ready :: "adaptive_provider \<Rightarrow> provider_kind \<Rightarrow> tensor_op \<Rightarrow> bool" where
  "accelerator_ready a kind op \<longleftrightarrow> is_verified (ad_autotune a) kind op
    \<and> (kind = Vulkan \<longrightarrow> po_allow_vulkan (ad_policy a) \<and> dc_supports_vulkan (ad_device a))
    \<and> (kind = Npu \<longrightarrow> po_allow_npu (ad_policy a) \<and> dc_supports_npu (ad_device a))
    \<and> (rn_charging (ad_snapshot a) \<or> po_min_battery_for_accelerator (ad_policy a) \<le> rn_battery_percent (ad_snapshot a))
    \<and> rn_thermal (ad_snapshot a) < Thermal_Hot"

lemma profile_allowed_iff:
  "profile_allowed a p op \<longleftrightarrow> op \<in> set (pp_supported_ops p)
    \<and> pp_minimum_working_set_bytes p
        \<le> saturating_sub (rn_available_ram_bytes (ad_snapshot a)) (po_reserve_ram_bytes (ad_policy a))
    \<and> (pp_kind p \<in> {Vulkan, Npu} \<longrightarrow> accelerator_ready a (pp_kind p) op)"
  by (cases "pp_kind p")
    (auto simp: profile_allowed_def profile_supports_def accelerator_ready_def accelerator_permitted_def Let_def not_less not_le)

text \<open>A provider that is not allowed is not run: its back end could as well be replaced.\<close>

definition with_backend :: "(mobile_provider \<Rightarrow> provider) \<Rightarrow> adaptive_provider \<Rightarrow> tensor_op \<Rightarrow> adaptive_provider" where
  "with_backend bad a op = a\<lparr>ad_providers :=
    map (\<lambda>p. if profile_allowed a (mp_profile p) op then p else p\<lparr>mp_run := bad p\<rparr>) (ad_providers a)\<rparr>"

lemma with_backend_simps [simp]:
  "ad_snapshot (with_backend bad a op) = ad_snapshot a" "ad_policy (with_backend bad a op) = ad_policy a"
  "ad_autotune (with_backend bad a op) = ad_autotune a" "ad_device (with_backend bad a op) = ad_device a"
  "length (ad_providers (with_backend bad a op)) = length (ad_providers a)"
  by (simp_all add: with_backend_def)

lemma with_backend_allowed [simp]: "profile_allowed (with_backend bad a op') p op = profile_allowed a p op"
  by (simp add: profile_allowed_iff accelerator_ready_def)

lemma with_backend_profile [simp]:
  "i < length (ad_providers a) \<Longrightarrow> mp_profile (ad_providers (with_backend bad a op) ! i) = mp_profile (ad_providers a ! i)"
  by (simp add: with_backend_def)

lemma with_backend_indices: "ordered_provider_indices (with_backend bad a op') op = ordered_provider_indices a op"
proof -
  let ?b = "with_backend bad a op'"
  have f: "filter (\<lambda>i. profile_allowed ?b (mp_profile (ad_providers ?b ! i)) op) [0..<length (ad_providers ?b)]
      = filter (\<lambda>i. profile_allowed a (mp_profile (ad_providers a ! i)) op) [0..<length (ad_providers a)]"
    unfolding with_backend_simps by (rule filter_cong [OF refl]) simp
  show ?thesis
    unfolding ordered_indices_key f by (rule sort_key_agree) simp
qed

lemma with_backend_execute: "adaptive_execute (with_backend bad a op) op inputs = adaptive_execute a op inputs"
proof -
  have "map (\<lambda>i. mp_run (ad_providers (with_backend bad a op) ! i)) (ordered_provider_indices a op)
      = map (\<lambda>i. mp_run (ad_providers a ! i)) (ordered_provider_indices a op)"
    by (rule map_cong [OF refl]) (simp add: ordered_indices_set with_backend_def)
  then show ?thesis by (simp add: adaptive_execute_def with_backend_indices Let_def del: map_eq_conv)
qed

section \<open>Plans\<close>

lemma half_le: "a \<le> b div 2 \<Longrightarrow> 2 * unat a \<le> unat (b :: u64)"
proof -
  assume "a \<le> b div 2"
  then have "unat a \<le> unat b div 2" by (simp add: word_le_nat_alt unat_div_distrib)
  then show ?thesis by simp
qed

lemma word_checked_mul_unat: "word_checked_mul a b = Some c \<Longrightarrow> unat c = unat a * unat b"
  by (auto simp: word_checked_mul_def uint_mult_less unat_word_ariths split: if_splits)

lemma saturating_sub_unat: "unat (saturating_sub a b) = unat a - unat b"
  by (auto simp: saturating_sub_def unat_sub word_le_nat_alt)

section \<open>Properties\<close>

text \<open>
  For every page size and every region whose page table can be allocated, the paged reader returns, and its pages
  tile the region: they are adjacent, not empty, no longer than a page and full but for the last
  one, every index up to the page count yields a page, no other one does, and their bytes in order
  are the bytes of the region.
\<close>

theorem paged_reader_reassembles:
  assumes "int (length bytes) < usize_bound" "0 < page_bytes" "16 * uint (div_ceil (of_nat (length bytes)) page_bytes) < 2 ^ 63"
  shows "\<exists>r. reader_new bytes page_bytes = Some (Inr r)
    \<and> contiguous (unat page_bytes) 0 (length bytes) (pr_windows r)
    \<and> (\<forall>i. reader_page r i \<noteq> None \<longleftrightarrow> i < reader_page_count r)
    \<and> concat (map (\<lambda>i. the (reader_page r i)) [0..<reader_page_count r]) = bytes"
proof -
  obtain r where r: "reader_new bytes page_bytes = Some (Inr r)" "contiguous (unat page_bytes) 0 (length bytes) (pr_windows r)"
    and pages: "map (reader_page r) [0..<reader_page_count r] = map (\<lambda>w. Some (window_bytes bytes w)) (pr_windows r)"
    and none: "\<forall>i \<ge> reader_page_count r. reader_page r i = None"
    using reader_pages [OF assms] by blast
  have "map (\<lambda>i. the (reader_page r i)) [0..<reader_page_count r] = map (window_bytes bytes) (pr_windows r)"
    using arg_cong [OF pages, of "map the"] by (simp add: comp_def)
  then have "concat (map (\<lambda>i. the (reader_page r i)) [0..<reader_page_count r]) = bytes"
    using contiguous_concat [OF r(2)] by simp
  moreover have "reader_page r i \<noteq> None" if "i < reader_page_count r" for i
    using arg_cong [OF pages, of "\<lambda>ps. ps ! i"] that by (simp add: reader_page_count_def)
  ultimately show ?thesis using r none by (metis not_le)
qed

theorem paged_reader_reassembles_witness:
  "\<exists>r. reader_new [1, 2, 3, 4, 5, 6, 7] 3 = Some (Inr r)
    \<and> concat (map (\<lambda>i. the (reader_page r i)) [0..<reader_page_count r]) = [1, 2, 3, 4, 5, 6, 7]"
proof -
  have "int (length [1, 2, 3, 4, 5, 6, 7 :: u8]) < usize_bound \<and> 0 < (3 :: u64)
    \<and> 16 * uint (div_ceil (of_nat (length [1, 2, 3, 4, 5, 6, 7 :: u8])) 3) < 2 ^ 63" by code_simp
  with paged_reader_reassembles [of "[1, 2, 3, 4, 5, 6, 7]" 3] show ?thesis by blast
qed

text \<open>
  A page size that is too small for the region panics in the allocation of the page table, although
  the function reports an overflow as an error.
\<close>

theorem page_table_allocation_panics: "page_windows (- 1) 1 = None"
  by code_simp

text \<open>
  C36: a placement plan that is returned fits the device: a tensor that is not paged takes at most half of the
  memory that the reserve leaves, one placed on an accelerator is so only where that accelerator is
  supported and allowed, the battery suffices or charges, and the device is not hot, and a paged
  one has exactly the pages that cover its bytes.
\<close>

theorem placement_fits:
  assumes "plan_tensor_placement n device snapshot policy = Some (Inr plan)"
  shows "unat (pl_estimated_bytes plan) = unat n * unat (bytes_per_element (po_quantization policy))
    \<and> (case pl_placement plan of
        PagedCpu page \<Rightarrow> page = po_page_bytes policy \<and> page \<noteq> 0 \<and> pl_page_count plan = div_ceil (pl_estimated_bytes plan) page
      | placement \<Rightarrow> pl_page_count plan = 1
          \<and> 2 * unat (pl_estimated_bytes plan)
              \<le> unat (rn_available_ram_bytes (snapshot_normalized snapshot device)) - unat (po_reserve_ram_bytes policy)
          \<and> (\<forall>kind. placement = AcceleratorLocal kind \<longrightarrow>
              kind \<in> {Vulkan, Npu} \<and> accelerator_permitted kind device (snapshot_normalized snapshot device) policy))"
proof -
  let ?s = "snapshot_normalized snapshot device"
  let ?budget = "saturating_sub (rn_available_ram_bytes ?s) (po_reserve_ram_bytes policy)"
  from assms obtain est where est: "word_checked_mul n (bytes_per_element (po_quantization policy)) = Some est"
    "pl_estimated_bytes plan = est"
    by (auto simp: plan_tensor_placement_def Let_def pbind_eq_Inr plift_def pret_def)
  then have bytes: "unat est = unat n * unat (bytes_per_element (po_quantization policy))"
    by (simp add: word_checked_mul_unat)
  show ?thesis
  proof (cases "est \<le> ?budget div 2")
    case True
    have "pl_page_count plan = 1 \<and> (pl_placement plan = ResidentCpu
        \<or> (\<exists>kind. pl_placement plan = AcceleratorLocal kind \<and> kind \<in> {Vulkan, Npu} \<and> accelerator_permitted kind device ?s policy))"
      using assms est(1) True
      by (simp add: plan_tensor_placement_def Let_def plift_def pret_def split: if_splits) auto
    with half_le [OF True] est(2) bytes show ?thesis by (auto simp: saturating_sub_unat)
  next
    case False
    with assms est(1) obtain ws where ws: "page_windows est (po_page_bytes policy) = Some (Inr ws)"
      and plan: "pl_placement plan = PagedCpu (po_page_bytes policy)" "pl_page_count plan = of_nat (length ws)"
      by (auto simp: plan_tensor_placement_def Let_def pbind_eq_Inr plift_def pret_def pfail_def split: if_splits)
    then have "po_page_bytes policy \<noteq> 0" "16 * uint (div_ceil est (po_page_bytes policy)) < 2 ^ 63"
      by (auto simp: page_windows_def Let_def pbind_eq_Inr window_capacity_def pret_def pfail_def split: if_splits)
    with page_windows_contiguous [of "po_page_bytes policy" est] ws
    have "length ws = unat (div_ceil est (po_page_bytes policy))" by (auto simp: word_gt_0)
    with plan est(2) bytes \<open>po_page_bytes policy \<noteq> 0\<close> show ?thesis by simp
  qed
qed

text \<open>A device for the examples.\<close>

definition sample_device :: device_capabilities where
  "sample_device = device_detect (Some 8) (8 * GIB) True True"

definition sample_snapshot :: resource_snapshot where
  "sample_snapshot = \<lparr>rn_available_ram_bytes = 5 * GIB, rn_battery_percent = 80, rn_charging = False,
    rn_thermal = Thermal_Nominal, rn_latency_budget_ms = 100\<rparr>"

lemma sample_plan:
  "plan_tensor_placement 1000 sample_device sample_snapshot (policy_for_device sample_device)
    = Some (Inr \<lparr>pl_quantization = MobileI8, pl_placement = AcceleratorLocal Npu, pl_estimated_bytes = 1000, pl_page_count = 1\<rparr>)"
  by code_simp

theorem placement_fits_witness:
  "\<exists>plan. plan_tensor_placement 1000 sample_device sample_snapshot (policy_for_device sample_device) = Some (Inr plan)
    \<and> pl_placement plan = AcceleratorLocal Npu
    \<and> accelerator_permitted Npu sample_device (snapshot_normalized sample_snapshot sample_device) (policy_for_device sample_device)"
  using placement_fits [OF sample_plan] sample_plan by auto

text \<open>
  C17: the tiled provider, with any tile size, is the reference provider: on well-formed tensors it returns the same
  error or the same tensors bit for bit, because blocking the inner dimension does not change the
  order in which the products are added.
\<close>

theorem tiled_equals_reference:
  assumes "\<forall>t \<in> set inputs. tensor_ok t"
  shows "cpu_tiled_run lm (cpu_tiled_new tile) op inputs = cpu_reference lm op inputs"
  by (rule cpu_tiled_is_reference [OF assms])

theorem tiled_equals_reference_witness:
  "cpu_tiled_run sample_libm (cpu_tiled_new 0) MatMul [sample_matrix, sample_column]
    = cpu_reference sample_libm MatMul [sample_matrix, sample_column]"
  using tiled_equals_reference [of "[sample_matrix, sample_column]" sample_libm 0 MatMul] by simp

text \<open>
  The adaptive provider tries the providers that the resources allow in the order of \<open>provider_key\<close>: the code's
  comparison is the total preorder of that key, as the contract of the standard sort demands, and
  providers with equal keys keep the order of their registration.
\<close>

theorem provider_order_is_sorted:
  "ordered_provider_indices a op =
    sort_key (\<lambda>i. provider_key op (ad_autotune a) (rn_latency_budget_ms (ad_snapshot a)) (po_prefer_low_power (ad_policy a))
        (mp_profile (ad_providers a ! i)))
      (filter (\<lambda>i. profile_allowed a (mp_profile (ad_providers a ! i)) op) [0..<length (ad_providers a)])"
  by (rule ordered_indices_key)

text \<open>
  C35: a provider that the resources do not allow is never run: whatever its back end is replaced by, even one that panics,
  the result is the same; and an accelerator is allowed only when it is verified for the operation,
  supported and enabled, when the battery suffices or charges, and the device is not hot.
\<close>

theorem disallowed_never_run:
  "adaptive_execute (with_backend bad a op) op inputs = adaptive_execute a op inputs
    \<and> (profile_allowed a p op \<longleftrightarrow> op \<in> set (pp_supported_ops p)
        \<and> pp_minimum_working_set_bytes p
            \<le> saturating_sub (rn_available_ram_bytes (ad_snapshot a)) (po_reserve_ram_bytes (ad_policy a))
        \<and> (pp_kind p = CpuReference \<or> pp_kind p = CpuTiled \<or> accelerator_ready a (pp_kind p) op))"
  by (cases "pp_kind p") (simp_all add: with_backend_execute profile_allowed_iff)

text \<open>
  What the record of verified equivalence claims of an accelerator, which the code cannot check at run time: for
  these inputs it fails or does what the reference does.
\<close>

definition accelerators_equivalent :: "libm \<Rightarrow> adaptive_provider \<Rightarrow> tensor_op \<Rightarrow> tensor list \<Rightarrow> bool" where
  "accelerators_equivalent lm a op inputs \<longleftrightarrow>
    (\<forall>p \<in> set (ad_providers a). profile_allowed a (mp_profile p) op \<longrightarrow>
      p = cpu_reference_mobile lm \<or> (\<exists>tile. p = cpu_tiled_mobile lm (cpu_tiled_new tile))
      \<or> fails (mp_run p) op inputs \<or> mp_run p op inputs = cpu_reference lm op inputs)"

text \<open>
  C9: whatever its providers do, the adaptive provider answers as the first one that does not fail, in the order of
  the allowed ones, and when all fail with the error of the last, or \<open>NoProvider\<close> without any. So when the
  reference provider is registered, the inputs are well-formed and every allowed provider other than the
  reference and the tiled ones fails or does what the reference does, falling back never changes the
  outcome: the adaptive provider panics, fails or returns the same tensors exactly as the reference does,
  however many accelerators fail.
\<close>

theorem fallback_preserves_semantics:
  "settles (map (\<lambda>i. mp_run (ad_providers a ! i)) (ordered_provider_indices a op)) op inputs (adaptive_execute a op inputs)
    \<and> (cpu_reference_mobile lm \<in> set (ad_providers a) \<and> (\<forall>t \<in> set inputs. tensor_ok t) \<and> accelerators_equivalent lm a op inputs
      \<longrightarrow> same_outcome (cpu_reference lm op inputs) (adaptive_execute a op inputs))"
proof (intro conjI impI; (elim conjE)?)
  show settled: "settles (tried a op) op inputs (adaptive_execute a op inputs)" by (rule adaptive_settles)
  assume mem: "cpu_reference_mobile lm \<in> set (ad_providers a)" and ok: "\<forall>t \<in> set inputs. tensor_ok t"
    and equiv: "accelerators_equivalent lm a op inputs"
  have runs: "mp_run (cpu_reference_mobile lm) = cpu_reference lm"
    "mp_run (cpu_tiled_mobile lm tile) = cpu_tiled_run lm tile" for tile
    by (simp_all add: cpu_reference_mobile_def cpu_tiled_mobile_def)
  have "\<forall>p \<in> set (tried a op). fails p op inputs \<or> p op inputs = cpu_reference lm op inputs"
    using equiv unfolding set_tried accelerators_equivalent_def by (auto simp: runs cpu_tiled_is_reference [OF ok])
  moreover have "cpu_reference lm \<in> set (tried a op)"
    using mem cpu_profile_allowed [of a lm op] runs(1) unfolding set_tried by force
  ultimately show "same_outcome (cpu_reference lm op inputs) (adaptive_execute a op inputs)"
    by (intro settles_same_outcome [OF settled]) blast+
qed

text \<open>An accelerator that is verified but fails, before the reference provider.\<close>

definition failing_backend :: provider where
  "failing_backend op inputs = pfail (UnsupportedOp op)"

definition sample_adaptive :: adaptive_provider where
  "sample_adaptive = adaptive_set_autotune (autotune_record [] \<lparr>pm_kind = Npu, pm_op = MatMul, pm_latency_nanos = 50, pm_verified_equivalent = True\<rparr>)
    (adaptive_register (cpu_reference_mobile sample_libm)
      (adaptive_register (npu_provider failing_backend ''npu'' 0 [MatMul])
        (adaptive_new sample_device sample_snapshot (policy_for_device sample_device))))"

lemma sample_adaptive_order: "ordered_provider_indices sample_adaptive MatMul = [0, 1]"
  by code_simp

theorem fallback_preserves_semantics_witness:
  "ordered_provider_indices sample_adaptive MatMul = [0, 1]
    \<and> adaptive_execute sample_adaptive MatMul [sample_matrix, sample_column]
      = cpu_reference sample_libm MatMul [sample_matrix, sample_column]"
proof -
  let ?xs = "[sample_matrix, sample_column]"
  have providers: "set (ad_providers sample_adaptive) = {npu_provider failing_backend ''npu'' 0 [MatMul], cpu_reference_mobile sample_libm}"
    by (auto simp: sample_adaptive_def adaptive_set_autotune_def adaptive_register_def adaptive_new_def)
  obtain ts where ref: "cpu_reference sample_libm MatMul ?xs = Some (Inr ts)"
    using sample_product by blast
  have "mp_run (npu_provider failing_backend ''npu'' 0 [MatMul]) = failing_backend"
    by (simp add: npu_provider_def profiled_provider_def)
  then have "accelerators_equivalent sample_libm sample_adaptive MatMul ?xs"
    unfolding accelerators_equivalent_def providers by (simp add: fails_def failing_backend_def pfail_def)
  moreover have "cpu_reference_mobile sample_libm \<in> set (ad_providers sample_adaptive)" "\<forall>t \<in> set ?xs. tensor_ok t"
    by (simp_all add: providers)
  ultimately have "same_outcome (cpu_reference sample_libm MatMul ?xs) (adaptive_execute sample_adaptive MatMul ?xs)"
    using fallback_preserves_semantics [of sample_adaptive MatMul ?xs sample_libm] by blast
  then show ?thesis by (simp only: ref sample_adaptive_order same_outcome.simps simp_thms)
qed

end
