(* ===== verification/Conversation.thy ===== *)
theory Conversation
  imports Rust_Base Rust_Strings
begin

text \<open>
  The prompt compiler, \<open>crates/ntd-runtime/src/conversation.rs\<close>: the dialogue, the recalled memories
  and the message of the user become one prompt that fits a budget of tokens. The tokenizer is any
  implementation of the trait \<open>TextTokenizer\<close>: a function from a text and the flag for special tokens
  to token identifiers or an error.
\<close>

section \<open>Data\<close>

datatype conversation_role = RUser | RAssistant

record conversation_turn =
  tn_role :: conversation_role
  tn_content :: string

definition turn_user :: "string \<Rightarrow> conversation_turn" where
  "turn_user content = \<lparr>tn_role = RUser, tn_content = content\<rparr>"

definition turn_assistant :: "string \<Rightarrow> conversation_turn" where
  "turn_assistant content = \<lparr>tn_role = RAssistant, tn_content = content\<rparr>"

record compiled_chat_prompt =
  cp_text :: string
  cp_token_ids :: "u32 list"
  cp_retained_history_turns :: nat
  cp_dropped_history_turns :: nat
  cp_retained_memory_items :: nat
  cp_dropped_memory_items :: nat

datatype 'te chat_prompt_error =
    EmptyUserMessage
  | EmptyTurn nat
  | InvalidHistoryOrder nat
  | InvalidTokenBudget
  | ContextOverflow nat nat
  | TokenizerErr 'te

type_synonym 'te tokenizer = "string \<Rightarrow> bool \<Rightarrow> 'te + u32 list"

section \<open>Validation\<close>

definition expected_role :: "nat \<Rightarrow> conversation_role" where
  "expected_role index = (if index mod 2 = 0 then RUser else RAssistant)"

fun check_turns :: "nat \<Rightarrow> conversation_turn list \<Rightarrow> 'te chat_prompt_error + unit" where
  "check_turns index [] = Inr ()"
| "check_turns index (t # ts) =
    (if blank (tn_content t) then Inl (EmptyTurn index)
     else if tn_role t \<noteq> expected_role index then Inl (InvalidHistoryOrder index)
     else check_turns (index + 1) ts)"

fun check_memory :: "nat \<Rightarrow> string list \<Rightarrow> 'te chat_prompt_error + unit" where
  "check_memory turns [] = Inr ()"
| "check_memory turns (m # ms) = (if blank m then Inl (EmptyTurn turns) else check_memory turns ms)"

definition validate_inputs ::
    "conversation_turn list \<Rightarrow> string list \<Rightarrow> string \<Rightarrow> nat \<Rightarrow> 'te chat_prompt_error + unit" where
  "validate_inputs history memory user_message max_prompt_tokens =
    (if blank user_message then Inl EmptyUserMessage
     else if max_prompt_tokens = 0 then Inl InvalidTokenBudget
     else
     rbind (check_turns 0 history) (\<lambda>_.
     if length history mod 2 \<noteq> 0 then Inl (InvalidHistoryOrder (length history - 1))
     else check_memory (length history) memory))"

section \<open>Rendering\<close>

definition newline :: string where
  "newline = [CHR 0x0A]"

definition render_turn :: "conversation_turn \<Rightarrow> string" where
  "render_turn t = (case tn_role t of RUser \<Rightarrow> ''User: '' | RAssistant \<Rightarrow> ''Assistant: '') @ tn_content t @ newline"

definition render_prompt :: "conversation_turn list \<Rightarrow> string list \<Rightarrow> string \<Rightarrow> string" where
  "render_prompt history memory user_message =
    (if memory = [] then []
     else ''Relevant memory:'' @ newline @ concat (map (\<lambda>m. ''- '' @ m @ newline) memory) @ newline)
    @ concat (map render_turn history) @ ''User: '' @ user_message @ newline @ ''Assistant:''"

section \<open>Fitting the budget\<close>

text \<open>
  The two nested loops: over the retained memories for one number of dropped turns, and over the
  dropped turns. \<open>None\<close> is a loop that ran through without finding a prompt that fits.
\<close>

fun fit_memory ::
    "'te tokenizer \<Rightarrow> conversation_turn list \<Rightarrow> string list \<Rightarrow> string \<Rightarrow> nat \<Rightarrow> nat \<Rightarrow> nat list
      \<Rightarrow> 'te chat_prompt_error + compiled_chat_prompt option" where
  "fit_memory tok history memory user_message limit dropped [] = Inr None"
| "fit_memory tok history memory user_message limit dropped (retained # rest) =
    (let text = render_prompt (drop dropped history) (take retained memory) user_message in
     rbind (map_err TokenizerErr (tok text True)) (\<lambda>token_ids.
     if length token_ids \<le> limit then
       Inr (Some \<lparr>cp_text = text, cp_token_ids = token_ids,
         cp_retained_history_turns = length (drop dropped history), cp_dropped_history_turns = dropped,
         cp_retained_memory_items = retained, cp_dropped_memory_items = length memory - retained\<rparr>)
     else fit_memory tok history memory user_message limit dropped rest))"

fun fit_history ::
    "'te tokenizer \<Rightarrow> conversation_turn list \<Rightarrow> string list \<Rightarrow> string \<Rightarrow> nat \<Rightarrow> nat list
      \<Rightarrow> 'te chat_prompt_error + compiled_chat_prompt option" where
  "fit_history tok history memory user_message limit [] = Inr None"
| "fit_history tok history memory user_message limit (dropped # rest) =
    rbind (fit_memory tok history memory user_message limit dropped (rev [0 ..< length memory + 1])) (\<lambda>found.
    (case found of
      Some p \<Rightarrow> Inr (Some p)
    | None \<Rightarrow> fit_history tok history memory user_message limit rest))"

text \<open>\<open>(0..=n).step_by(2)\<close>\<close>

definition steps_by_two :: "nat \<Rightarrow> nat list" where
  "steps_by_two n = map (\<lambda>i. 2 * i) [0 ..< n div 2 + 1]"

definition compile_with_memory ::
    "conversation_turn list \<Rightarrow> string list \<Rightarrow> string \<Rightarrow> 'te tokenizer \<Rightarrow> nat
      \<Rightarrow> 'te chat_prompt_error + compiled_chat_prompt" where
  "compile_with_memory history memory user_message tok max_prompt_tokens =
    rbind (validate_inputs history memory user_message max_prompt_tokens) (\<lambda>_.
    rbind (fit_history tok history memory user_message max_prompt_tokens (steps_by_two (length history))) (\<lambda>found.
    (case found of
      Some p \<Rightarrow> Inr p
    | None \<Rightarrow>
        rbind (map_err TokenizerErr (tok (render_prompt [] [] user_message) True)) (\<lambda>token_ids.
        Inl (ContextOverflow (length token_ids) max_prompt_tokens)))))"

definition compile_prompt ::
    "conversation_turn list \<Rightarrow> string \<Rightarrow> 'te tokenizer \<Rightarrow> nat \<Rightarrow> 'te chat_prompt_error + compiled_chat_prompt" where
  "compile_prompt history user_message tok max_prompt_tokens =
    compile_with_memory history [] user_message tok max_prompt_tokens"

section \<open>Specification\<close>

text \<open>
  A candidate drops an even number of the oldest turns and keeps a prefix of the memories. One is
  preferred to another when it drops fewer turns, or as many turns and fewer memories.
\<close>

definition candidate :: "conversation_turn list \<Rightarrow> string list \<Rightarrow> nat \<times> nat \<Rightarrow> bool" where
  "candidate history memory = (\<lambda>(d, k). even d \<and> d \<le> length history \<and> k \<le> length memory)"

fun preferred :: "nat \<times> nat \<Rightarrow> nat \<times> nat \<Rightarrow> bool" where
  "preferred (d, k) (d', k') \<longleftrightarrow> d < d' \<or> d = d' \<and> k' < k"

definition prompt_for :: "conversation_turn list \<Rightarrow> string list \<Rightarrow> string \<Rightarrow> nat \<times> nat \<Rightarrow> string" where
  "prompt_for history memory user_message = (\<lambda>(d, k). render_prompt (drop d history) (take k memory) user_message)"

definition fits :: "'te tokenizer \<Rightarrow> nat \<Rightarrow> string \<Rightarrow> bool" where
  "fits tok limit text \<longleftrightarrow> (case tok text True of Inr ids \<Rightarrow> length ids \<le> limit | Inl _ \<Rightarrow> False)"

definition inputs_ok :: "conversation_turn list \<Rightarrow> string list \<Rightarrow> string \<Rightarrow> nat \<Rightarrow> bool" where
  "inputs_ok history memory user_message limit \<longleftrightarrow> \<not> blank user_message \<and> 0 < limit
    \<and> even (length history) \<and> (\<forall>i < length history. \<not> blank (tn_content (history ! i)) \<and> tn_role (history ! i) = expected_role i)
    \<and> (\<forall>m \<in> set memory. \<not> blank m)"

lemma check_turns_Inr:
  "check_turns n ts = Inr () \<longleftrightarrow> (\<forall>i < length ts. \<not> blank (tn_content (ts ! i)) \<and> tn_role (ts ! i) = expected_role (n + i))"
proof (induction ts arbitrary: n)
  case (Cons t ts)
  then show ?case by (auto simp: nth_Cons split: nat.splits)
qed simp

lemma check_memory_Inr: "check_memory n ms = Inr () \<longleftrightarrow> (\<forall>m \<in> set ms. \<not> blank m)"
  by (induction ms) auto

lemma validate_inputs_Inr:
  "validate_inputs history memory user_message limit = Inr () \<longleftrightarrow> inputs_ok history memory user_message limit"
  by (auto simp: validate_inputs_def inputs_ok_def check_turns_Inr check_memory_Inr even_iff_mod_2_eq_zero)

section \<open>The loops find the first candidate that fits\<close>

text \<open>The result of a candidate that is taken.\<close>

definition chosen ::
    "'te tokenizer \<Rightarrow> conversation_turn list \<Rightarrow> string list \<Rightarrow> string \<Rightarrow> nat \<Rightarrow> nat \<times> nat \<Rightarrow> compiled_chat_prompt \<Rightarrow> bool" where
  "chosen tok history memory user_message limit c p \<longleftrightarrow>
    cp_text p = prompt_for history memory user_message c \<and> tok (cp_text p) True = Inr (cp_token_ids p)
    \<and> length (cp_token_ids p) \<le> limit
    \<and> cp_retained_history_turns p = length history - fst c \<and> cp_dropped_history_turns p = fst c
    \<and> cp_retained_memory_items p = snd c \<and> cp_dropped_memory_items p = length memory - snd c"

text \<open>
  The outcome of trying candidates in turn: the first that fits is taken and those before it do not
  fit; or the tokenizer failed on one; or none fits.
\<close>

definition tried ::
    "'te tokenizer \<Rightarrow> conversation_turn list \<Rightarrow> string list \<Rightarrow> string \<Rightarrow> nat \<Rightarrow> (nat \<times> nat) list
      \<Rightarrow> 'te chat_prompt_error + compiled_chat_prompt option \<Rightarrow> bool" where
  "tried tok history memory user_message limit cs res = (case res of
      Inl e \<Rightarrow> \<exists>c \<in> set cs. \<exists>te. tok (prompt_for history memory user_message c) True = Inl te \<and> e = TokenizerErr te
    | Inr None \<Rightarrow> \<forall>c \<in> set cs. \<not> fits tok limit (prompt_for history memory user_message c)
    | Inr (Some p) \<Rightarrow> \<exists>before c after. cs = before @ c # after \<and> chosen tok history memory user_message limit c p
        \<and> (\<forall>b \<in> set before. \<not> fits tok limit (prompt_for history memory user_message b)))"

lemma tried_append:
  assumes "tried tok history memory user_message limit cs (Inr None)"
    and "tried tok history memory user_message limit cs' res"
  shows "tried tok history memory user_message limit (cs @ cs') res"
proof (cases res)
  case (Inr found)
  show ?thesis
  proof (cases found)
    case (Some p)
    with Inr assms(2) obtain before c after where c: "cs' = before @ c # after"
        "chosen tok history memory user_message limit c p"
        "\<forall>b \<in> set before. \<not> fits tok limit (prompt_for history memory user_message b)"
      by (auto simp: tried_def)
    with assms(1) have "cs @ cs' = (cs @ before) @ c # after
        \<and> (\<forall>b \<in> set (cs @ before). \<not> fits tok limit (prompt_for history memory user_message b))"
      by (auto simp: tried_def)
    with Inr Some c(2) show ?thesis unfolding tried_def by (simp only: sum.case option.case) blast
  qed (use Inr assms in \<open>auto simp: tried_def\<close>)
qed (use assms in \<open>auto simp: tried_def\<close>)

lemma tried_more:
  assumes "tried tok history memory user_message limit cs res" and "res \<noteq> Inr None"
  shows "tried tok history memory user_message limit (cs @ cs') res"
proof (cases res)
  case (Inr found)
  with assms(2) obtain p where p: "found = Some p" by auto
  with Inr assms(1) obtain before c after where c: "cs = before @ c # after"
      "chosen tok history memory user_message limit c p"
      "\<forall>b \<in> set before. \<not> fits tok limit (prompt_for history memory user_message b)"
    by (auto simp: tried_def)
  then have "cs @ cs' = before @ c # (after @ cs')" by simp
  with Inr p c show ?thesis unfolding tried_def by (simp only: sum.case option.case) blast
qed (use assms in \<open>auto simp: tried_def\<close>)

lemma tried_first:
  assumes "chosen tok history memory user_message limit c p"
  shows "tried tok history memory user_message limit (c # cs) (Inr (Some p))"
  unfolding tried_def sum.case option.case
  by (rule exI [of _ "[]"], rule exI [of _ c], rule exI [of _ cs]) (simp add: assms)

lemma fit_memory_tried:
  "tried tok history memory user_message limit (map (Pair d) ks) (fit_memory tok history memory user_message limit d ks)"
proof (induction ks)
  case (Cons k ks)
  have rendered: "prompt_for history memory user_message (d, k) = render_prompt (drop d history) (take k memory) user_message"
    by (simp add: prompt_for_def)
  show ?case
  proof (cases "tok (prompt_for history memory user_message (d, k)) True")
    case (Inl te)
    then show ?thesis by (simp add: Let_def rendered tried_def)
  next
    case (Inr ids)
    show ?thesis
    proof (cases "length ids \<le> limit")
      case True
      then show ?thesis
        using Inr by (auto simp: Let_def rendered chosen_def intro!: tried_first)
    next
      case False
      then have "tried tok history memory user_message limit [(d, k)] (Inr None)"
        using Inr by (simp add: tried_def fits_def)
      from tried_append [OF this Cons.IH] Inr False show ?thesis by (simp add: Let_def rendered)
    qed
  qed
qed (simp add: tried_def)

lemma fit_history_tried:
  "tried tok history memory user_message limit (List.product ds (rev [0 ..< length memory + 1]))
    (fit_history tok history memory user_message limit ds)"
proof (induction ds)
  case (Cons d ds)
  let ?fit = "fit_memory tok history memory user_message limit d (rev [0 ..< length memory + 1])"
  note here = fit_memory_tried [of tok history memory user_message limit d "rev [0 ..< length memory + 1]"]
  show ?case
  proof (cases "?fit = Inr None")
    case True
    with tried_append [OF here [unfolded True] Cons.IH] show ?thesis by simp
  next
    case False
    then have "fit_history tok history memory user_message limit (d # ds) = ?fit"
      by (cases ?fit) (auto split: option.splits)
    with tried_more [OF here False] show ?thesis by (simp only: product.simps)
  qed
qed (simp add: tried_def)

text \<open>The order of the loops is the order of preference.\<close>

lemma candidates_set:
  "c \<in> set (List.product (steps_by_two n) (rev [0 ..< m + 1])) \<longleftrightarrow> even (fst c) \<and> fst c \<le> n \<and> snd c \<le> m"
proof -
  have "d \<in> (\<lambda>i. 2 * i) ` {0 ..< n div 2 + 1} \<longleftrightarrow> even d \<and> d \<le> n" for d
    by (auto simp: image_iff elim!: evenE)
  then show ?thesis by (cases c) (auto simp: steps_by_two_def)
qed

lemma preferred_product:
  assumes "sorted_wrt (<) ds" and "sorted_wrt (>) ks"
  shows "sorted_wrt preferred (List.product ds ks)"
  using assms(1)
proof (induction ds)
  case (Cons d ds)
  have "sorted_wrt preferred (map (Pair d) ks)"
    unfolding sorted_wrt_map by (rule sorted_wrt_mono_rel [OF _ assms(2)]) simp
  with Cons show ?case by (auto simp: sorted_wrt_append)
qed simp

lemma candidates_sorted: "sorted_wrt preferred (List.product (steps_by_two n) (rev [0 ..< m + 1]))"
proof (rule preferred_product)
  show "sorted_wrt (<) (steps_by_two n)"
    unfolding steps_by_two_def sorted_wrt_map by (rule sorted_wrt_mono_rel [OF _ sorted_wrt_upt]) simp
  show "sorted_wrt (>) (rev [0 ..< m + 1])"
    unfolding sorted_wrt_rev by (rule sorted_wrt_upt)
qed

lemma before_if_preferred:
  assumes "sorted_wrt preferred (before @ c # after)" and "c' \<in> set (before @ c # after)" and "preferred c' c"
  shows "c' \<in> set before"
proof -
  have "\<not> preferred c' c" if "c' \<in> set after"
  proof -
    have "preferred c c'" using assms(1) that by (simp add: sorted_wrt_append)
    then show ?thesis by (cases c; cases c') auto
  qed
  moreover have "\<not> preferred c c" by (cases c) simp
  ultimately show ?thesis using assms(2,3) by auto
qed

section \<open>The compiler\<close>

lemma check_turns_Inl:
  "check_turns n ts = Inl e \<Longrightarrow> (\<exists>i. e = EmptyTurn i) \<or> (\<exists>i. e = InvalidHistoryOrder i)"
  by (induction ts arbitrary: n) (auto split: if_splits)

lemma check_memory_Inl: "check_memory n ms = Inl e \<Longrightarrow> \<exists>i. e = EmptyTurn i"
  by (induction ms) (auto split: if_splits)

lemma validate_inputs_Inl:
  "validate_inputs history memory user_message limit = Inl e \<Longrightarrow>
    e = EmptyUserMessage \<or> e = InvalidTokenBudget \<or> (\<exists>i. e = EmptyTurn i) \<or> (\<exists>i. e = InvalidHistoryOrder i)"
  by (auto simp: validate_inputs_def rbind_eq_Inl dest: check_turns_Inl check_memory_Inl split: if_splits)

lemma dropped_roles:
  assumes "inputs_ok history memory user_message limit" and "even d" and "i < length (drop d history)"
  shows "tn_role (drop d history ! i) = expected_role i"
proof -
  from assms(2) obtain e where "d = 2 * e" by (rule evenE)
  then have "expected_role (d + i) = expected_role i" by (simp only: expected_role_def mod_mult_self4)
  with assms(1,3) show ?thesis by (simp add: inputs_ok_def)
qed

text \<open>
  C39: the prompt compiler keeps as much context as fits: for inputs that pass validation it returns
  the rendered prompt of the most preferred candidate within the token budget (fewest complete
  exchanges dropped from the old end, then fewest memories dropped from the low-ranked end), whose
  dialogue still starts with the user and alternates, with true counts. It reports \<open>ContextOverflow\<close>
  only when no candidate fits, not even the bare message, and otherwise fails only with an error of
  the tokenizer on one of the candidates. Inputs that do not pass validation are rejected.
\<close>

theorem compile_keeps_most:
  "case compile_with_memory history memory user_message tok limit of
    Inr p \<Rightarrow> inputs_ok history memory user_message limit \<and>
      (\<exists>d k. candidate history memory (d, k)
        \<and> cp_text p = render_prompt (drop d history) (take k memory) user_message
        \<and> tok (cp_text p) True = Inr (cp_token_ids p) \<and> length (cp_token_ids p) \<le> limit
        \<and> (\<forall>c. candidate history memory c \<longrightarrow> preferred c (d, k) \<longrightarrow>
            \<not> fits tok limit (prompt_for history memory user_message c))
        \<and> (\<forall>i < length (drop d history). tn_role (drop d history ! i) = expected_role i)
        \<and> cp_retained_history_turns p = length history - d \<and> cp_dropped_history_turns p = d
        \<and> cp_retained_memory_items p = k \<and> cp_dropped_memory_items p = length memory - k)
  | Inl (ContextOverflow required l) \<Rightarrow> l = limit \<and> limit < required
      \<and> (\<forall>c. candidate history memory c \<longrightarrow> \<not> fits tok limit (prompt_for history memory user_message c))
  | Inl (TokenizerErr te) \<Rightarrow> \<exists>c. candidate history memory c \<and> tok (prompt_for history memory user_message c) True = Inl te
  | Inl _ \<Rightarrow> \<not> inputs_ok history memory user_message limit"
proof (cases "inputs_ok history memory user_message limit")
  case False
  then have "(validate_inputs history memory user_message limit :: 'a chat_prompt_error + unit) \<noteq> Inr ()"
    by (simp add: validate_inputs_Inr)
  then obtain e :: "'a chat_prompt_error" where e: "validate_inputs history memory user_message limit = Inl e"
    by (cases "validate_inputs history memory user_message limit :: 'a chat_prompt_error + unit") auto
  from validate_inputs_Inl [OF e] e False show ?thesis by (auto simp: compile_with_memory_def)
next
  case True
  let ?cs = "List.product (steps_by_two (length history)) (rev [0 ..< length memory + 1])"
  let ?fit = "fit_history tok history memory user_message limit (steps_by_two (length history))"
  note tries = fit_history_tried [of tok history memory user_message limit "steps_by_two (length history)"]
  have cand: "c \<in> set ?cs \<longleftrightarrow> candidate history memory c" for c
    unfolding candidates_set by (cases c) (simp add: candidate_def)
  have bare: "candidate history memory (length history, 0)" using True by (simp add: candidate_def inputs_ok_def)
  have "(validate_inputs history memory user_message limit :: 'a chat_prompt_error + unit) = Inr ()"
    using True by (simp add: validate_inputs_Inr)
  then have compile: "compile_with_memory history memory user_message tok limit = rbind ?fit (\<lambda>found. case found of
      Some p \<Rightarrow> Inr p | None \<Rightarrow> rbind (map_err TokenizerErr (tok (render_prompt [] [] user_message) True))
        (\<lambda>token_ids. Inl (ContextOverflow (length token_ids) limit)))"
    by (simp add: compile_with_memory_def)
  show ?thesis
  proof (cases ?fit)
    case (Inl e)
    with tries obtain c te where c: "c \<in> set ?cs" "tok (prompt_for history memory user_message c) True = Inl te"
        "e = TokenizerErr te"
      unfolding tried_def by (simp only: sum.case) blast
    then have "candidate history memory c" using cand by blast
    with c(2,3) Inl show ?thesis by (auto simp only: compile rbind_simps sum.case chat_prompt_error.case)
  next
    case (Inr found)
    show ?thesis
    proof (cases found)
      case None
      with Inr tries have "\<forall>c \<in> set ?cs. \<not> fits tok limit (prompt_for history memory user_message c)"
        unfolding tried_def by (simp only: sum.case option.case)
      then have none: "\<not> fits tok limit (prompt_for history memory user_message c)" if "candidate history memory c" for c
        using that cand by blast
      have bare_text: "prompt_for history memory user_message (length history, 0) = render_prompt [] [] user_message"
        by (simp add: prompt_for_def)
      show ?thesis
      proof (cases "tok (render_prompt [] [] user_message) True")
        case (Inl te)
        with bare bare_text Inr None show ?thesis
          by (simp add: compile) (rule exI [of _ "length history"], rule exI [of _ 0], simp)
      next
        case (Inr ids)
        then have "limit < length ids" using none [OF bare] by (simp add: fits_def bare_text)
        with Inr \<open>?fit = Inr found\<close> None none show ?thesis by (simp add: compile)
      qed
    next
      case (Some p)
      with Inr tries obtain before c after where c: "?cs = before @ c # after"
          "chosen tok history memory user_message limit c p"
          "\<forall>b \<in> set before. \<not> fits tok limit (prompt_for history memory user_message b)"
        unfolding tried_def by (simp only: sum.case option.case) blast
      obtain d k where dk: "c = (d, k)" by (cases c)
      have "c \<in> set ?cs" unfolding c(1) by simp
      then have "candidate history memory (d, k)" using cand [of c] unfolding dk by blast
      moreover have "\<not> fits tok limit (prompt_for history memory user_message c')"
        if "candidate history memory c'" "preferred c' (d, k)" for c'
        using before_if_preferred [OF candidates_sorted [of "length history" "length memory", unfolded c(1)], of c']
          that cand [of c'] c(3) unfolding c(1) dk by blast
      ultimately show ?thesis
        using True Inr Some c(2) dropped_roles [OF True] dk
        by (auto simp: compile chosen_def prompt_for_def candidate_def)
    qed
  qed
qed

text \<open>The statement on the dialogue of the crate's tests, with one token per byte.\<close>

definition byte_tokens :: "unit tokenizer" where
  "byte_tokens s special = Inr (map ucast (str_bytes s))"

definition sample_dialogue :: "conversation_turn list" where
  "sample_dialogue = [turn_user ''first'', turn_assistant ''one'', turn_user ''then'', turn_assistant ''two'']"

lemma compile_drops_oldest:
  "map_sum id (\<lambda>p. (cp_dropped_history_turns p, cp_retained_memory_items p))
    (compile_with_memory sample_dialogue [''m'', ''n''] ''now'' byte_tokens 70) = Inr (2, 1)"
  by code_simp

theorem compile_keeps_most_witness:
  "\<not> fits byte_tokens 70 (prompt_for sample_dialogue [''m'', ''n''] ''now'' (0, 0))
    \<and> \<not> fits byte_tokens 70 (prompt_for sample_dialogue [''m'', ''n''] ''now'' (2, 2))"
proof -
  obtain p where p: "compile_with_memory sample_dialogue [''m'', ''n''] ''now'' byte_tokens 70 = Inr p"
      "cp_dropped_history_turns p = 2" "cp_retained_memory_items p = 1"
    using compile_drops_oldest
    by (cases "compile_with_memory sample_dialogue [''m'', ''n''] ''now'' byte_tokens 70") simp_all
  have "candidate sample_dialogue [''m'', ''n''] (0, 0)" "candidate sample_dialogue [''m'', ''n''] (2, 2)" by code_simp+
  with compile_keeps_most [where history = sample_dialogue and memory = "[''m'', ''n'']" and user_message = "''now''"
      and tok = byte_tokens and limit = 70] p show ?thesis by auto
qed

end
