(* ===== verification/SHA256.thy ===== *)
theory SHA256
  imports Rust_Codec
begin

text \<open>
  The hash function of the capsule format, \<open>crates/ntd-capsule/src/hash.rs\<close>: SHA-256, as the source
  computes it on 32-bit words with wrapping addition.
\<close>

unbundle bit_operations_syntax

type_synonym digest = "u8 list"

definition sha_initial :: "u32 list" where
  "sha_initial = [0x6a09e667, 0xbb67ae85, 0x3c6ef372, 0xa54ff53a, 0x510e527f, 0x9b05688c, 0x1f83d9ab, 0x5be0cd19]"

definition sha_k :: "u32 list" where
  "sha_k =
    [0x428a2f98, 0x71374491, 0xb5c0fbcf, 0xe9b5dba5, 0x3956c25b, 0x59f111f1, 0x923f82a4, 0xab1c5ed5]
  @ [0xd807aa98, 0x12835b01, 0x243185be, 0x550c7dc3, 0x72be5d74, 0x80deb1fe, 0x9bdc06a7, 0xc19bf174]
  @ [0xe49b69c1, 0xefbe4786, 0x0fc19dc6, 0x240ca1cc, 0x2de92c6f, 0x4a7484aa, 0x5cb0a9dc, 0x76f988da]
  @ [0x983e5152, 0xa831c66d, 0xb00327c8, 0xbf597fc7, 0xc6e00bf3, 0xd5a79147, 0x06ca6351, 0x14292967]
  @ [0x27b70a85, 0x2e1b2138, 0x4d2c6dfc, 0x53380d13, 0x650a7354, 0x766a0abb, 0x81c2c92e, 0x92722c85]
  @ [0xa2bfe8a1, 0xa81a664b, 0xc24b8b70, 0xc76c51a3, 0xd192e819, 0xd6990624, 0xf40e3585, 0x106aa070]
  @ [0x19a4c116, 0x1e376c08, 0x2748774c, 0x34b0bcb5, 0x391c0cb3, 0x4ed8aa4a, 0x5b9cca4f, 0x682e6ff3]
  @ [0x748f82ee, 0x78a5636f, 0x84c87814, 0x8cc70208, 0x90befffa, 0xa4506ceb, 0xbef9a3f7, 0xc67178f2]"

text \<open>\<open>to_be_bytes\<close> and \<open>from_be_bytes\<close>.\<close>

definition u32_be :: "u32 \<Rightarrow> u8 list" where
  "u32_be w = rev (u32_le w)"

definition u64_be :: "u64 \<Rightarrow> u8 list" where
  "u64_be w = rev (u64_le w)"

definition be_u32 :: "u8 list \<Rightarrow> u32" where
  "be_u32 bs = le_word (rev bs)"

text \<open>\<open>while (padded.len() + 8) % 64 != 0 { padded.push(0) }\<close>\<close>

function pad_zeros :: "u8 list \<Rightarrow> u8 list" where
  "pad_zeros xs = (if (length xs + 8) mod 64 = 0 then xs else pad_zeros (xs @ [0]))"
  by auto
termination
proof (relation "measure (\<lambda>xs. (64 - (length xs + 8) mod 64) mod 64)")
  fix xs :: "u8 list" assume open_block: "(length xs + 8) mod 64 \<noteq> 0"
  have "length (xs @ [0]) + 8 = Suc (length xs + 8)" by simp
  then have "(length (xs @ [0]) + 8) mod 64 =
      (if Suc ((length xs + 8) mod 64) = 64 then 0 else Suc ((length xs + 8) mod 64))"
    by (simp only: mod_Suc)
  moreover have "(length xs + 8) mod 64 < 64" by simp
  ultimately have "(64 - (length (xs @ [0]) + 8) mod 64) mod 64 < (64 - (length xs + 8) mod 64) mod 64"
    using open_block by (auto simp del: length_append split: if_splits)
  then show "(xs @ [0], xs) \<in> measure (\<lambda>xs. (64 - (length xs + 8) mod 64) mod 64)" by simp
qed simp

declare pad_zeros.simps [simp del]

definition sha_padded :: "u8 list \<Rightarrow> u8 list" where
  "sha_padded input = pad_zeros (input @ [0x80]) @ u64_be (of_nat (length input) * 8)"

text \<open>\<open>chunks_exact(n)\<close>: the full chunks.\<close>

function chunks_exact :: "nat \<Rightarrow> 'a list \<Rightarrow> 'a list list" where
  "chunks_exact n xs = (if n = 0 \<or> length xs < n then [] else take n xs # chunks_exact n (drop n xs))"
  by auto
termination by (relation "measure (\<lambda>(n, xs). length xs)") auto

declare chunks_exact.simps [simp del]

text \<open>One step of the message schedule, and the schedule of a chunk.\<close>

definition schedule_step :: "u32 list \<Rightarrow> nat \<Rightarrow> u32 list" where
  "schedule_step w i =
    (let a = w ! (i - 15); b = w ! (i - 2);
         s0 = word_rotr 7 a XOR word_rotr 18 a XOR drop_bit 3 a;
         s1 = word_rotr 17 b XOR word_rotr 19 b XOR drop_bit 10 b
     in w[i := w ! (i - 16) + s0 + w ! (i - 7) + s1])"

definition schedule :: "u8 list \<Rightarrow> u32 list" where
  "schedule chunk = foldl schedule_step
    (map be_u32 (take 16 (chunks_exact 4 chunk)) @ replicate 48 0) [16 ..< 64]"

text \<open>One round on the working variables \<open>a\<close> to \<open>h\<close>.\<close>

type_synonym sha_vars = "u32 \<times> u32 \<times> u32 \<times> u32 \<times> u32 \<times> u32 \<times> u32 \<times> u32"

definition sha_round :: "u32 list \<Rightarrow> sha_vars \<Rightarrow> nat \<Rightarrow> sha_vars" where
  "sha_round w = (\<lambda>(a, b, c, d, e, f, g, h) i.
    let sum1 = word_rotr 6 e XOR word_rotr 11 e XOR word_rotr 25 e;
        ch = (e AND f) XOR (NOT e AND g);
        temp1 = h + sum1 + ch + sha_k ! i + w ! i;
        sum0 = word_rotr 2 a XOR word_rotr 13 a XOR word_rotr 22 a;
        maj = (a AND b) XOR (a AND c) XOR (b AND c);
        temp2 = sum0 + maj
    in (temp1 + temp2, a, b, c, d + temp1, e, f, g))"

definition sha_block :: "u32 list \<Rightarrow> u8 list \<Rightarrow> u32 list" where
  "sha_block st chunk =
    (case foldl (sha_round (schedule chunk))
       (st ! 0, st ! 1, st ! 2, st ! 3, st ! 4, st ! 5, st ! 6, st ! 7) [0 ..< 64] of
      (a, b, c, d, e, f, g, h) \<Rightarrow>
        [st ! 0 + a, st ! 1 + b, st ! 2 + c, st ! 3 + d, st ! 4 + e, st ! 5 + f, st ! 6 + g, st ! 7 + h])"

definition sha256 :: "u8 list \<Rightarrow> digest" where
  "sha256 input = concat (map u32_be (foldl sha_block sha_initial (chunks_exact 64 (sha_padded input))))"

section \<open>Facts\<close>

lemma pad_zeros_blocks: "(length (pad_zeros xs) + 8) mod 64 = 0"
  by (induction xs rule: pad_zeros.induct) (subst pad_zeros.simps, simp)

lemma sha_padded_blocks: "64 dvd length (sha_padded input)"
  using pad_zeros_blocks [of "input @ [0x80]"] by (simp add: sha_padded_def u64_be_def dvd_eq_mod_eq_0)

lemma length_sha_block [simp]: "length (sha_block st chunk) = 8"
  by (simp add: sha_block_def split: prod.splits)

lemma length_sha256 [simp]: "length (sha256 input) = 32"
proof -
  have "length (foldl sha_block st chunks) = 8" if "length st = 8" for st chunks
    using that by (induction chunks arbitrary: st) auto
  then have "length (foldl sha_block sha_initial chunks) = 8" for chunks by (simp add: sha_initial_def)
  moreover have "length (concat (map u32_be ws)) = 4 * length ws" for ws
    by (induction ws) (simp_all add: u32_be_def)
  ultimately show ?thesis by (simp add: sha256_def)
qed

lemma sha256_abc:
  "sha256 [97, 98, 99] =
    [0xba, 0x78, 0x16, 0xbf, 0x8f, 0x01, 0xcf, 0xea, 0x41, 0x41, 0x40, 0xde, 0x5d, 0xae,
     0x22, 0x23, 0xb0, 0x03, 0x61, 0xa3, 0x96, 0x17, 0x7a, 0x9c, 0xb4, 0x10, 0xff, 0x61,
     0xf2, 0x00, 0x15, 0xad]"
  by code_simp

end
