(* ===== verification/Capsule.thy ===== *)
theory Capsule
  imports NTD_IR SHA256
begin

text \<open>
  The NCC97 capsule container: \<open>crates/ntd-capsule/src/lib.rs\<close> (section kinds, versions, the
  contract) and \<open>binary.rs\<close> (\<open>CapsuleBuilder\<close>, its \<open>write\<close>, and \<open>CapsuleView::read\<close>).

  A capsule is one byte string: a fixed header, a fixed manifest, an index with one entry per
  chunk, and the embedded payloads at multiples of eight. The writer fills a zeroed buffer at
  absolute offsets and the reader fetches at absolute offsets, and both are modelled this way:
  \<open>subslice\<close> is \<open>&bytes[a..a + n]\<close>, \<open>put_bytes\<close> is \<open>copy_from_slice\<close> into such a range. Every range
  the source indexes without a check is inside the buffer at that point: the writer allocates up to
  the end of the last payload, and the reader checks the length of what it indexes first.

  \<open>[u8; 16]\<close> and \<open>Digest = [u8; 32]\<close> are lists, whose lengths are part of what is assumed of a builder.
\<close>

unbundle bit_operations_syntax

section \<open>Sections, versions, contract\<close>

datatype section_kind =
  SecGraph | SecTensors | SecTokenizer | SecCodecs | SecRouter | SecAdapters | SecCapabilities
| SecMemorySchema | SecMemoryState | SecDeviceProfiles | SecProvenance | SecSignatures
| SecAssimilationLog | SecWorldStateSchema | SecContinuityState | SecEmbodimentProfile
| SecGenerativeManifest

record capsule_version =
  cv_major :: u16
  cv_minor :: u16

definition capsule_current :: capsule_version where
  "capsule_current = \<lparr>cv_major = 0, cv_minor = 2\<rparr>"

definition capsule_can_read :: "capsule_version \<Rightarrow> capsule_version \<Rightarrow> bool" where
  "capsule_can_read self other \<longleftrightarrow> cv_major self = cv_major other \<and> cv_minor other \<le> cv_minor self"

record native_contract =
  nc_capsule :: capsule_version
  nc_ir :: ir_version

definition contract_current :: native_contract where
  "contract_current = \<lparr>nc_capsule = capsule_current, nc_ir = ir_current\<rparr>"

definition contract_can_read :: "native_contract \<Rightarrow> native_contract \<Rightarrow> bool" where
  "contract_can_read self other \<longleftrightarrow>
    capsule_can_read (nc_capsule self) (nc_capsule other) \<and> can_read (nc_ir self) (nc_ir other)"

datatype capsule_kind = KindFull | KindThin | KindState

datatype capsule_error =
  CapTruncated
| CapInvalidMagic
| CapInvalidHeader
| CapInvalidManifest
| CapInvalidIndex
| CapInvalidCapsuleKind u8
| CapInvalidSectionKind u16
| CapInvalidChunkFlags u16
| CapUnsupportedContract native_contract
| CapMetadataIntegrityMismatch
| CapChunkIntegrityMismatch section_kind
| CapExternalChunkInFullCapsule
| CapNonCanonicalLayout
| CapOverflow

text \<open>\<open>kind as u16\<close> and \<open>SectionKind::try_from\<close>.\<close>

fun section_tag :: "section_kind \<Rightarrow> u16" where
  "section_tag SecGraph = 1"
| "section_tag SecTensors = 2"
| "section_tag SecTokenizer = 3"
| "section_tag SecCodecs = 4"
| "section_tag SecRouter = 5"
| "section_tag SecAdapters = 6"
| "section_tag SecCapabilities = 7"
| "section_tag SecMemorySchema = 8"
| "section_tag SecMemoryState = 9"
| "section_tag SecDeviceProfiles = 10"
| "section_tag SecProvenance = 11"
| "section_tag SecSignatures = 12"
| "section_tag SecAssimilationLog = 13"
| "section_tag SecWorldStateSchema = 14"
| "section_tag SecContinuityState = 15"
| "section_tag SecEmbodimentProfile = 16"
| "section_tag SecGenerativeManifest = 17"

definition section_kind_try_from :: "u16 \<Rightarrow> capsule_error + section_kind" where
  "section_kind_try_from v =
    (if v = 1 then Inr SecGraph
     else if v = 2 then Inr SecTensors
     else if v = 3 then Inr SecTokenizer
     else if v = 4 then Inr SecCodecs
     else if v = 5 then Inr SecRouter
     else if v = 6 then Inr SecAdapters
     else if v = 7 then Inr SecCapabilities
     else if v = 8 then Inr SecMemorySchema
     else if v = 9 then Inr SecMemoryState
     else if v = 10 then Inr SecDeviceProfiles
     else if v = 11 then Inr SecProvenance
     else if v = 12 then Inr SecSignatures
     else if v = 13 then Inr SecAssimilationLog
     else if v = 14 then Inr SecWorldStateSchema
     else if v = 15 then Inr SecContinuityState
     else if v = 16 then Inr SecEmbodimentProfile
     else if v = 17 then Inr SecGenerativeManifest
     else Inl (CapInvalidSectionKind v))"

fun capsule_kind_tag :: "capsule_kind \<Rightarrow> u8" where
  "capsule_kind_tag KindFull = 1"
| "capsule_kind_tag KindThin = 2"
| "capsule_kind_tag KindState = 3"

definition capsule_kind_try_from :: "u8 \<Rightarrow> capsule_error + capsule_kind" where
  "capsule_kind_try_from v =
    (if v = 1 then Inr KindFull
     else if v = 2 then Inr KindThin
     else if v = 3 then Inr KindState
     else Inl (CapInvalidCapsuleKind v))"

section \<open>The builder\<close>

datatype chunk_source = SrcEmbedded "u8 list" | SrcExternal u64 digest

record chunk_spec =
  sp_kind :: section_kind
  sp_source :: chunk_source

record capsule_builder =
  cb_kind :: capsule_kind
  cb_capsule_id :: "u8 list"
  cb_base_root :: "digest option"
  cb_chunks :: "chunk_spec list"

definition capsule_builder_new :: "capsule_kind \<Rightarrow> u8 list \<Rightarrow> capsule_builder" where
  "capsule_builder_new kind capsule_id =
    \<lparr>cb_kind = kind, cb_capsule_id = capsule_id, cb_base_root = None, cb_chunks = []\<rparr>"

definition with_base_root :: "digest \<Rightarrow> capsule_builder \<Rightarrow> capsule_builder" where
  "with_base_root root b = b\<lparr>cb_base_root := Some root\<rparr>"

definition push_embedded :: "section_kind \<Rightarrow> u8 list \<Rightarrow> capsule_builder \<Rightarrow> capsule_builder" where
  "push_embedded kind bytes b =
    b\<lparr>cb_chunks := cb_chunks b @ [\<lparr>sp_kind = kind, sp_source = SrcEmbedded bytes\<rparr>]\<rparr>"

definition push_external :: "section_kind \<Rightarrow> u64 \<Rightarrow> digest \<Rightarrow> capsule_builder \<Rightarrow> capsule_builder" where
  "push_external kind logical_len hash b =
    b\<lparr>cb_chunks := cb_chunks b @ [\<lparr>sp_kind = kind, sp_source = SrcExternal logical_len hash\<rparr>]\<rparr>"

section \<open>Buffers\<close>

definition subslice :: "nat \<Rightarrow> nat \<Rightarrow> 'a list \<Rightarrow> 'a list" where
  "subslice off n xs = take n (drop off xs)"

definition put_bytes :: "u8 list \<Rightarrow> nat \<Rightarrow> u8 list \<Rightarrow> u8 list" where
  "put_bytes dst off bs = take off dst @ bs @ drop (off + length bs) dst"

definition put_u16 :: "u8 list \<Rightarrow> nat \<Rightarrow> u16 \<Rightarrow> u8 list" where
  "put_u16 dst off v = put_bytes dst off (u16_le v)"

definition put_u32 :: "u8 list \<Rightarrow> nat \<Rightarrow> u32 \<Rightarrow> u8 list" where
  "put_u32 dst off v = put_bytes dst off (u32_le v)"

definition put_u64 :: "u8 list \<Rightarrow> nat \<Rightarrow> u64 \<Rightarrow> u8 list" where
  "put_u64 dst off v = put_bytes dst off (u64_le v)"

text \<open>\<open>src.get(off..off + n)\<close>\<close>

definition get_range :: "u8 list \<Rightarrow> nat \<Rightarrow> nat \<Rightarrow> capsule_error + u8 list" where
  "get_range src off n = (if off + n \<le> length src then Inr (subslice off n src) else Inl CapTruncated)"

definition read_u16 :: "u8 list \<Rightarrow> nat \<Rightarrow> capsule_error + u16" where
  "read_u16 src off = rbind (get_range src off 2) (\<lambda>bs. Inr (le_word bs))"

definition read_u32 :: "u8 list \<Rightarrow> nat \<Rightarrow> capsule_error + u32" where
  "read_u32 src off = rbind (get_range src off 4) (\<lambda>bs. Inr (le_word bs))"

definition read_u64 :: "u8 list \<Rightarrow> nat \<Rightarrow> capsule_error + u64" where
  "read_u64 src off = rbind (get_range src off 8) (\<lambda>bs. Inr (le_word bs))"

text \<open>A \<open>usize\<close> computation that must not overflow.\<close>

definition usize_checked :: "nat \<Rightarrow> capsule_error + nat" where
  "usize_checked n = (if int n < usize_bound then Inr n else Inl CapOverflow)"

text \<open>\<open>u64::try_from(n)\<close> of a \<open>usize\<close>; the converse always succeeds where \<open>usize\<close> has 64 bits.\<close>

definition u64_try_from :: "nat \<Rightarrow> capsule_error + u64" where
  "u64_try_from n = (if int n < 2 ^ 64 then Inr (of_nat n) else Inl CapOverflow)"

definition align_up :: "nat \<Rightarrow> nat \<Rightarrow> capsule_error + nat" where
  "align_up v alignment =
    (if alignment = 0 then Inl CapOverflow
     else rbind (usize_checked (v + (alignment - 1))) (\<lambda>v'. Inr (v' div alignment * alignment)))"

definition checked_range :: "nat \<Rightarrow> u64 \<Rightarrow> u64 \<Rightarrow> capsule_error + nat \<times> nat" where
  "checked_range total_len off len =
    rbind (usize_checked (unat off + unat len)) (\<lambda>stop.
    if total_len < stop then Inl CapTruncated else Inr (unat off, stop))"

section \<open>Header, manifest, index\<close>

definition HEADER_LEN :: nat where "HEADER_LEN = 112"
definition MANIFEST_LEN :: nat where "MANIFEST_LEN = 56"
definition INDEX_ENTRY_LEN :: nat where "INDEX_ENTRY_LEN = 56"
definition ALIGNMENT :: nat where "ALIGNMENT = 8"
definition CHUNK_FLAG_EXTERNAL :: u16 where "CHUNK_FLAG_EXTERNAL = 1"
definition MANIFEST_FLAG_HAS_BASE :: u8 where "MANIFEST_FLAG_HAS_BASE = 1"

text \<open>\<open>b"NCC97\0"\<close>\<close>

definition NCC97_MAGIC :: "u8 list" where
  "NCC97_MAGIC = [78, 67, 67, 57, 55, 0]"

record header_fields =
  hd_contract :: native_contract
  hd_manifest_offset :: u64
  hd_manifest_len :: u64
  hd_index_offset :: u64
  hd_index_len :: u64
  hd_payload_offset :: u64
  hd_chunk_count :: u32
  hd_root_hash :: digest

record manifest_fields =
  mf_kind :: capsule_kind
  mf_capsule_id :: "u8 list"
  mf_base_root :: "digest option"

record index_entry =
  ie_kind :: section_kind
  ie_flags :: u16
  ie_logical_len :: u64
  ie_offset :: u64
  ie_hash :: digest

definition encode_header :: "u8 list \<Rightarrow> header_fields \<Rightarrow> u8 list" where
  "encode_header dst f =
    (let dst = replicate (length dst) 0;
         dst = put_bytes dst 0 NCC97_MAGIC;
         dst = put_u16 dst 6 (of_nat HEADER_LEN);
         dst = put_u16 dst 8 (cv_major (nc_capsule (hd_contract f)));
         dst = put_u16 dst 10 (cv_minor (nc_capsule (hd_contract f)));
         dst = put_u16 dst 12 (major (nc_ir (hd_contract f)));
         dst = put_u16 dst 14 (minor (nc_ir (hd_contract f)));
         dst = put_u32 dst 16 0;
         dst = put_u64 dst 20 (hd_manifest_offset f);
         dst = put_u64 dst 28 (hd_manifest_len f);
         dst = put_u64 dst 36 (hd_index_offset f);
         dst = put_u64 dst 44 (hd_index_len f);
         dst = put_u64 dst 52 (hd_payload_offset f);
         dst = put_u32 dst 60 (hd_chunk_count f);
         dst = put_u32 dst 64 0
     in put_bytes dst 68 (hd_root_hash f))"

definition decode_header :: "u8 list \<Rightarrow> capsule_error + header_fields" where
  "decode_header bytes =
    (if length bytes < HEADER_LEN then Inl CapTruncated
     else if subslice 0 6 bytes \<noteq> NCC97_MAGIC then Inl CapInvalidMagic
     else
       rbind (read_u16 bytes 6) (\<lambda>header_len.
       if unat header_len \<noteq> HEADER_LEN then Inl CapInvalidHeader
       else
         rbind (read_u16 bytes 8) (\<lambda>cmaj.
         rbind (read_u16 bytes 10) (\<lambda>cmin.
         rbind (read_u16 bytes 12) (\<lambda>imaj.
         rbind (read_u16 bytes 14) (\<lambda>imin.
         rbind (read_u32 bytes 16) (\<lambda>flags.
         rbind (read_u32 bytes 64) (\<lambda>reserved.
         if flags \<noteq> 0 \<or> reserved \<noteq> 0 \<or> (\<exists>b \<in> set (subslice 100 (HEADER_LEN - 100) bytes). b \<noteq> 0)
         then Inl CapInvalidHeader
         else
           rbind (read_u64 bytes 20) (\<lambda>manifest_offset.
           rbind (read_u64 bytes 28) (\<lambda>manifest_len.
           rbind (read_u64 bytes 36) (\<lambda>index_offset.
           rbind (read_u64 bytes 44) (\<lambda>index_len.
           rbind (read_u64 bytes 52) (\<lambda>payload_offset.
           rbind (read_u32 bytes 60) (\<lambda>chunk_count.
           Inr \<lparr>hd_contract = \<lparr>nc_capsule = \<lparr>cv_major = cmaj, cv_minor = cmin\<rparr>,
                                nc_ir = \<lparr>major = imaj, minor = imin\<rparr>\<rparr>,
                hd_manifest_offset = manifest_offset, hd_manifest_len = manifest_len,
                hd_index_offset = index_offset, hd_index_len = index_len,
                hd_payload_offset = payload_offset, hd_chunk_count = chunk_count,
                hd_root_hash = subslice 68 32 bytes\<rparr>))))))))))))))"

definition encode_manifest :: "capsule_kind \<Rightarrow> u8 list \<Rightarrow> digest option \<Rightarrow> u8 list" where
  "encode_manifest kind capsule_id base_root =
    (let out = replicate MANIFEST_LEN 0;
         out = out[0 := capsule_kind_tag kind];
         out = (if base_root \<noteq> None then out[1 := MANIFEST_FLAG_HAS_BASE] else out);
         out = put_bytes out 8 capsule_id
     in case base_root of Some root \<Rightarrow> put_bytes out 24 root | None \<Rightarrow> out)"

definition decode_manifest :: "u8 list \<Rightarrow> capsule_error + manifest_fields" where
  "decode_manifest bytes =
    (if length bytes \<noteq> MANIFEST_LEN then Inl CapInvalidManifest
     else
       rbind (capsule_kind_try_from (bytes ! 0)) (\<lambda>kind.
       let flags = bytes ! 1 in
       if flags AND NOT MANIFEST_FLAG_HAS_BASE \<noteq> 0 \<or> (\<exists>b \<in> set (subslice 2 6 bytes). b \<noteq> 0)
       then Inl CapInvalidManifest
       else
         let capsule_id = subslice 8 16 bytes; root = subslice 24 32 bytes in
         rbind (if flags AND MANIFEST_FLAG_HAS_BASE \<noteq> 0 then Inr (Some root)
                else if \<exists>b \<in> set root. b \<noteq> 0 then Inl CapInvalidManifest
                else Inr None) (\<lambda>base_root.
         Inr \<lparr>mf_kind = kind, mf_capsule_id = capsule_id, mf_base_root = base_root\<rparr>)))"

fun encode_entries :: "nat \<Rightarrow> index_entry list \<Rightarrow> u8 list \<Rightarrow> u8 list" where
  "encode_entries i [] out = out"
| "encode_entries i (e # es) out =
    (let base = i * INDEX_ENTRY_LEN;
         out = put_u16 out base (section_tag (ie_kind e));
         out = put_u16 out (base + 2) (ie_flags e);
         out = put_u32 out (base + 4) 0;
         out = put_u64 out (base + 8) (ie_logical_len e);
         out = put_u64 out (base + 16) (ie_offset e);
         out = put_bytes out (base + 24) (ie_hash e)
     in encode_entries (Suc i) es out)"

definition encode_index :: "index_entry list \<Rightarrow> u8 list" where
  "encode_index es = encode_entries 0 es (replicate (length es * INDEX_ENTRY_LEN) 0)"

definition decode_entry :: "u8 list \<Rightarrow> nat \<Rightarrow> capsule_error + index_entry" where
  "decode_entry bytes i =
    (let base = i * INDEX_ENTRY_LEN in
     rbind (read_u16 bytes base) (\<lambda>raw_kind.
     rbind (section_kind_try_from raw_kind) (\<lambda>kind.
     rbind (read_u16 bytes (base + 2)) (\<lambda>flags.
     rbind (read_u32 bytes (base + 4)) (\<lambda>reserved.
     if reserved \<noteq> 0 then Inl CapInvalidIndex
     else
       rbind (read_u64 bytes (base + 8)) (\<lambda>logical_len.
       rbind (read_u64 bytes (base + 16)) (\<lambda>off.
       Inr \<lparr>ie_kind = kind, ie_flags = flags, ie_logical_len = logical_len, ie_offset = off,
            ie_hash = subslice (base + 24) 32 bytes\<rparr>)))))))"

fun decode_entries :: "u8 list \<Rightarrow> nat list \<Rightarrow> capsule_error + index_entry list" where
  "decode_entries bytes [] = Inr []"
| "decode_entries bytes (i # is) =
    rbind (decode_entry bytes i) (\<lambda>e. rbind (decode_entries bytes is) (\<lambda>es. Inr (e # es)))"

definition decode_index :: "u8 list \<Rightarrow> u32 \<Rightarrow> capsule_error + index_entry list" where
  "decode_index bytes count =
    rbind (usize_checked (unat count * INDEX_ENTRY_LEN)) (\<lambda>len.
    if length bytes \<noteq> len then Inl CapInvalidIndex
    else decode_entries bytes [0 ..< unat count])"

definition metadata_root :: "u8 list \<Rightarrow> u8 list \<Rightarrow> digest" where
  "metadata_root manifest index = sha256 (manifest @ index)"

section \<open>Writing\<close>

definition is_external :: "chunk_spec \<Rightarrow> bool" where
  "is_external c = (case sp_source c of SrcExternal _ _ \<Rightarrow> True | SrcEmbedded _ \<Rightarrow> False)"

text \<open>The layout loop: the index entries, and where the payloads end.\<close>

fun lay_chunks :: "chunk_spec list \<Rightarrow> nat \<Rightarrow> nat \<Rightarrow> capsule_error + index_entry list \<times> nat" where
  "lay_chunks [] cursor file_len = Inr ([], file_len)"
| "lay_chunks (c # cs) cursor file_len =
    (case sp_source c of
      SrcEmbedded bytes \<Rightarrow>
        rbind (u64_try_from (length bytes)) (\<lambda>logical_len.
        rbind (u64_try_from cursor) (\<lambda>off.
        rbind (usize_checked (cursor + length bytes)) (\<lambda>stop.
        rbind (align_up stop ALIGNMENT) (\<lambda>cursor'.
        rbind (lay_chunks cs cursor' (max file_len stop)) (\<lambda>(es, len).
        Inr (\<lparr>ie_kind = sp_kind c, ie_flags = 0, ie_logical_len = logical_len, ie_offset = off,
              ie_hash = sha256 bytes\<rparr> # es, len))))))
    | SrcExternal logical_len hash \<Rightarrow>
        rbind (lay_chunks cs cursor file_len) (\<lambda>(es, len).
        Inr (\<lparr>ie_kind = sp_kind c, ie_flags = CHUNK_FLAG_EXTERNAL, ie_logical_len = logical_len,
              ie_offset = 0, ie_hash = hash\<rparr> # es, len)))"

text \<open>The copy loop over the chunks and their entries.\<close>

fun copy_chunks :: "(chunk_spec \<times> index_entry) list \<Rightarrow> u8 list \<Rightarrow> capsule_error + u8 list" where
  "copy_chunks [] out = Inr out"
| "copy_chunks ((c, e) # ces) out =
    (case sp_source c of
      SrcEmbedded bytes \<Rightarrow>
        rbind (usize_checked (unat (ie_offset e) + length bytes)) (\<lambda>stop.
        copy_chunks ces (put_bytes out (unat (ie_offset e)) bytes))
    | SrcExternal _ _ \<Rightarrow> copy_chunks ces out)"

definition capsule_write :: "capsule_builder \<Rightarrow> capsule_error + u8 list" where
  "capsule_write b =
    (if cb_kind b = KindFull \<and> (\<exists>c \<in> set (cb_chunks b). is_external c)
     then Inl CapExternalChunkInFullCapsule
     else
       rbind (len_u32 CapOverflow (length (cb_chunks b))) (\<lambda>chunk_count.
       rbind (usize_checked (HEADER_LEN + MANIFEST_LEN)) (\<lambda>index_offset.
       rbind (usize_checked (length (cb_chunks b) * INDEX_ENTRY_LEN)) (\<lambda>index_len.
       rbind (usize_checked (index_offset + index_len)) (\<lambda>index_end.
       rbind (align_up index_end ALIGNMENT) (\<lambda>payload_offset.
       let manifest = encode_manifest (cb_kind b) (cb_capsule_id b) (cb_base_root b) in
       rbind (lay_chunks (cb_chunks b) payload_offset payload_offset) (\<lambda>(entries, file_len).
       let index = encode_index entries;
           root_hash = metadata_root manifest index;
           out = replicate file_len 0 in
       rbind (u64_try_from HEADER_LEN) (\<lambda>manifest_offset64.
       rbind (u64_try_from MANIFEST_LEN) (\<lambda>manifest_len64.
       rbind (u64_try_from index_offset) (\<lambda>index_offset64.
       rbind (u64_try_from (length index)) (\<lambda>index_len64.
       rbind (u64_try_from payload_offset) (\<lambda>payload_offset64.
       let out = encode_header (take HEADER_LEN out)
                   \<lparr>hd_contract = contract_current, hd_manifest_offset = manifest_offset64,
                    hd_manifest_len = manifest_len64, hd_index_offset = index_offset64,
                    hd_index_len = index_len64, hd_payload_offset = payload_offset64,
                    hd_chunk_count = chunk_count, hd_root_hash = root_hash\<rparr>
                 @ drop HEADER_LEN out;
           out = put_bytes out HEADER_LEN manifest;
           out = put_bytes out index_offset index
       in copy_chunks (zip (cb_chunks b) entries) out))))))))))))"

section \<open>Reading\<close>

datatype chunk_storage = StoEmbedded "u8 list" | StoExternal

record chunk_view =
  cw_kind :: section_kind
  cw_logical_len :: u64
  cw_hash :: digest
  cw_storage :: chunk_storage

record capsule_view =
  vw_contract :: native_contract
  vw_kind :: capsule_kind
  vw_capsule_id :: "u8 list"
  vw_base_root :: "digest option"
  vw_root_hash :: digest
  vw_chunks :: "chunk_view list"

text \<open>The loop over the index entries; \<open>off\<close> and \<open>len\<close> are \<open>expected_embedded_offset\<close> and
  \<open>expected_file_len\<close>.\<close>

fun read_chunks ::
    "u8 list \<Rightarrow> capsule_kind \<Rightarrow> index_entry list \<Rightarrow> nat \<Rightarrow> nat \<Rightarrow> capsule_error + chunk_view list \<times> nat" where
  "read_chunks bytes kind [] off len = Inr ([], len)"
| "read_chunks bytes kind (e # es) off len =
    (if ie_flags e AND NOT CHUNK_FLAG_EXTERNAL \<noteq> 0 then Inl (CapInvalidChunkFlags (ie_flags e))
     else if ie_flags e AND CHUNK_FLAG_EXTERNAL \<noteq> 0 then
       if ie_offset e \<noteq> 0 then Inl CapInvalidIndex
       else if kind = KindFull then Inl CapExternalChunkInFullCapsule
       else
         rbind (read_chunks bytes kind es off len) (\<lambda>(cs, len').
         Inr (\<lparr>cw_kind = ie_kind e, cw_logical_len = ie_logical_len e, cw_hash = ie_hash e,
               cw_storage = StoExternal\<rparr> # cs, len'))
     else if unat (ie_offset e) \<noteq> off then Inl CapNonCanonicalLayout
     else
       rbind (checked_range (length bytes) (ie_offset e) (ie_logical_len e)) (\<lambda>(start, stop).
       rbind (align_up stop ALIGNMENT) (\<lambda>off'.
       if sha256 (subslice start (stop - start) bytes) \<noteq> ie_hash e
       then Inl (CapChunkIntegrityMismatch (ie_kind e))
       else
         rbind (read_chunks bytes kind es off' stop) (\<lambda>(cs, len').
         Inr (\<lparr>cw_kind = ie_kind e, cw_logical_len = ie_logical_len e, cw_hash = ie_hash e,
               cw_storage = StoEmbedded (subslice start (stop - start) bytes)\<rparr> # cs, len')))))"

definition capsule_read :: "u8 list \<Rightarrow> capsule_error + capsule_view" where
  "capsule_read bytes =
    rbind (decode_header bytes) (\<lambda>header.
    if \<not> contract_can_read contract_current (hd_contract header)
    then Inl (CapUnsupportedContract (hd_contract header))
    else
      rbind (usize_checked (unat (hd_chunk_count header) * INDEX_ENTRY_LEN)) (\<lambda>index_len.
      rbind (usize_checked (HEADER_LEN + MANIFEST_LEN)) (\<lambda>index_offset.
      rbind (usize_checked (index_offset + index_len)) (\<lambda>index_end.
      rbind (align_up index_end ALIGNMENT) (\<lambda>payload_offset.
      rbind (u64_try_from HEADER_LEN) (\<lambda>manifest_offset64.
      rbind (u64_try_from MANIFEST_LEN) (\<lambda>manifest_len64.
      rbind (u64_try_from index_offset) (\<lambda>index_offset64.
      rbind (u64_try_from index_len) (\<lambda>index_len64.
      rbind (u64_try_from payload_offset) (\<lambda>payload_offset64.
      if hd_manifest_offset header \<noteq> manifest_offset64 \<or> hd_manifest_len header \<noteq> manifest_len64
        \<or> hd_index_offset header \<noteq> index_offset64 \<or> hd_index_len header \<noteq> index_len64
        \<or> hd_payload_offset header \<noteq> payload_offset64
      then Inl CapNonCanonicalLayout
      else
        rbind (checked_range (length bytes) (hd_manifest_offset header) (hd_manifest_len header)) (\<lambda>(ms, me).
        rbind (checked_range (length bytes) (hd_index_offset header) (hd_index_len header)) (\<lambda>(is, ie).
        let manifest_bytes = subslice ms (me - ms) bytes; index_bytes = subslice is (ie - is) bytes in
        if metadata_root manifest_bytes index_bytes \<noteq> hd_root_hash header
        then Inl CapMetadataIntegrityMismatch
        else
          rbind (decode_manifest manifest_bytes) (\<lambda>manifest.
          rbind (decode_index index_bytes (hd_chunk_count header)) (\<lambda>entries.
          rbind (read_chunks bytes (mf_kind manifest) entries payload_offset payload_offset) (\<lambda>(chunks, len).
          if length bytes \<noteq> len then Inl CapNonCanonicalLayout
          else Inr \<lparr>vw_contract = hd_contract header, vw_kind = mf_kind manifest,
                    vw_capsule_id = mf_capsule_id manifest, vw_base_root = mf_base_root manifest,
                    vw_root_hash = hd_root_hash header, vw_chunks = chunks\<rparr>)))))))))))))))"

end
