(* ===== verification/Descriptors.thy ===== *)
theory Descriptors
  imports NTD_IR_Codec Checkpoint_Frame Capsule
begin

text \<open>
  Small section payloads of a capsule: tensor descriptor tables and descriptor frames
  (\<open>crates/ntd-capsule/src/descriptors.rs\<close>), the generative manifest (\<open>generative.rs\<close>), and the graph
  section (\<open>push_graph_section\<close> and \<open>decode_graph_section\<close> of \<open>ir_codec.rs\<close>). Each format is
  shown to be read back (\<open>reads_\<dots>\<close>) and to be accepted only in its own encoding, up to the minor
  version (\<open>accepts_\<dots>\<close>).
\<close>

section \<open>Integers\<close>

text \<open>\<open>u8::try_from(len)\<close>, and a vector of \<open>u64\<close>.\<close>

definition len_u8 :: "'e \<Rightarrow> nat \<Rightarrow> 'e + u8" where
  "len_u8 ovf n = (if n < 256 then Inr (of_nat n) else Inl ovf)"

definition len_u64 :: "'e \<Rightarrow> nat \<Rightarrow> 'e + u64" where
  "len_u64 ovf n = (if int n < 2 ^ 64 then Inr (of_nat n) else Inl ovf)"

lemma len_u8_Inr [simp]: "len_u8 ovf n = Inr w \<longleftrightarrow> n < 256 \<and> w = of_nat n"
  by (auto simp: len_u8_def)

lemma len_u64_Inr [simp]: "len_u64 ovf n = Inr w \<longleftrightarrow> int n < 2 ^ 64 \<and> w = of_nat n"
  by (auto simp: len_u64_def)

lemma unat_len_u8: "n < 256 \<Longrightarrow> unat (of_nat n :: u8) = n"
  by (simp add: unat_of_nat)

lemma unat_u8_less [simp]: "unat (w :: u8) < 256"
  using unsigned_less [of w, where ?'a = nat] by simp

lemma uint_u64_less [simp]: "uint (w :: u64) < 18446744073709551616"
  using unsigned_less [of w, where ?'a = int] by simp

lemma unat_len_u64: "int n < 2 ^ 64 \<Longrightarrow> unat (of_nat n :: u64) = n"
  by (simp add: unat_of_nat)

interpretation u64_codec: canonical_codec "\<lambda>_. True" push_u64 "take_u64 er"
  for er
  by unfold_locales (auto intro: reads_u64 accepts_mono [OF accepts_u64])

section \<open>Tensor descriptors\<close>

record tensor_descriptor =
  td_id :: u32
  td_dtype :: dtype
  td_shape :: "u64 list"
  td_byte_len :: u64

datatype descriptor_frame_kind = FrameTokenizer | FrameCodec

record descriptor_frame =
  df_kind :: descriptor_frame_kind
  df_format :: string
  df_payload :: "u8 list"

datatype descriptor_error =
  Ds_Truncated
| Ds_InvalidMagic
| Ds_InvalidHeader
| Ds_InvalidKind u8
| Ds_InvalidDType u8
| Ds_InvalidUtf8
| Ds_UnsupportedVersion u16 u16
| Ds_NonCanonicalEncoding
| Ds_Overflow

definition ds_cerr :: "descriptor_error cerr" where
  "ds_cerr = \<lparr>trunc = Ds_Truncated, ovfl = Ds_Overflow\<rparr>"

text \<open>\<open>b"NTS97\0"\<close> and \<open>b"NDF97\0"\<close>\<close>

definition tensor_descriptor_magic :: "u8 list" where
  "tensor_descriptor_magic = [78, 84, 83, 57, 55, 0]"

definition descriptor_frame_magic :: "u8 list" where
  "descriptor_frame_magic = [78, 68, 70, 57, 55, 0]"

definition ds_decode_dtype :: "u8 \<Rightarrow> descriptor_error + dtype" where
  "ds_decode_dtype tag =
    (if tag = 1 then Inr F32
     else if tag = 2 then Inr F16
     else if tag = 3 then Inr Bf16
     else if tag = 4 then Inr I8
     else if tag = 5 then Inr U8
     else if tag = 6 then Inr I32
     else if tag = 7 then Inr I64
     else if tag = 8 then Inr Bool
     else Inl (Ds_InvalidDType tag))"

definition encode_tensor_record :: "tensor_descriptor \<Rightarrow> descriptor_error enc" where
  "encode_tensor_record d =
    rbind (len_u8 Ds_Overflow (length (td_shape d))) (\<lambda>rank.
    eseq (push_u32 (td_id d))
    (eseq (push_u8 (dtype_tag (td_dtype d)))
    (eseq (push_u8 rank)
    (eseq (push_u16 0)
    (eseq (push_u64 (td_byte_len d))
    (push_each push_u64 (td_shape d)))))))"

definition encode_tensor_descriptors :: "tensor_descriptor list \<Rightarrow> descriptor_error enc" where
  "encode_tensor_descriptors ds =
    rbind (len_u32 Ds_Overflow (length ds)) (\<lambda>count.
    eseq (push_raw tensor_descriptor_magic)
    (eseq (push_u16 16)
    (eseq (push_u16 (major ir_current))
    (eseq (push_u16 (minor ir_current))
    (eseq (push_u32 count)
    (push_each encode_tensor_record ds))))))"

definition decode_tensor_record :: "(descriptor_error, tensor_descriptor) dec" where
  "decode_tensor_record =
    dbind (take_u32 ds_cerr) (\<lambda>tid.
    dbind (take_u8 ds_cerr) (\<lambda>tag.
    dbind (dlift (ds_decode_dtype tag)) (\<lambda>dt.
    dbind (take_u8 ds_cerr) (\<lambda>rank.
    dbind (take_u16 ds_cerr) (\<lambda>reserved.
    if reserved \<noteq> 0 then dfail Ds_NonCanonicalEncoding
    else
      dbind (take_u64 ds_cerr) (\<lambda>byte_len.
      dbind (take_n (unat rank) (take_u64 ds_cerr)) (\<lambda>shape.
      dret \<lparr>td_id = tid, td_dtype = dt, td_shape = shape, td_byte_len = byte_len\<rparr>)))))))"

definition decode_tensor_table :: "(descriptor_error, tensor_descriptor list) dec" where
  "decode_tensor_table =
    dbind (take_bytes ds_cerr 6) (\<lambda>magic.
    if magic \<noteq> tensor_descriptor_magic then dfail Ds_InvalidMagic
    else
      dbind (take_u16 ds_cerr) (\<lambda>header_len.
      if unat header_len \<noteq> 16 then dfail Ds_InvalidHeader
      else
        dbind (take_u16 ds_cerr) (\<lambda>mj.
        dbind (take_u16 ds_cerr) (\<lambda>mn.
        if \<not> can_read ir_current \<lparr>major = mj, minor = mn\<rparr> then dfail (Ds_UnsupportedVersion mj mn)
        else
          dbind (take_u32 ds_cerr) (\<lambda>count.
          take_n (unat count) decode_tensor_record)))))"

definition decode_tensor_descriptors :: "u8 list \<Rightarrow> descriptor_error + tensor_descriptor list" where
  "decode_tensor_descriptors bytes = decode_all Ds_NonCanonicalEncoding decode_tensor_table bytes"

section \<open>Descriptor frames\<close>

fun frame_kind_tag :: "descriptor_frame_kind \<Rightarrow> u8" where
  "frame_kind_tag FrameTokenizer = 1"
| "frame_kind_tag FrameCodec = 2"

definition decode_frame_kind :: "u8 \<Rightarrow> descriptor_error + descriptor_frame_kind" where
  "decode_frame_kind tag =
    (if tag = 1 then Inr FrameTokenizer else if tag = 2 then Inr FrameCodec else Inl (Ds_InvalidKind tag))"

definition encode_descriptor_frame :: "descriptor_frame \<Rightarrow> descriptor_error enc" where
  "encode_descriptor_frame f =
    rbind (len_u32 Ds_Overflow (length (df_format f))) (\<lambda>format_len.
    rbind (len_u64 Ds_Overflow (length (df_payload f))) (\<lambda>payload_len.
    eseq (push_raw descriptor_frame_magic)
    (eseq (push_u16 32)
    (eseq (push_u8 (frame_kind_tag (df_kind f)))
    (eseq (push_u8 0)
    (eseq (push_u16 0)
    (eseq (push_u16 1)
    (eseq (push_u16 0)
    (eseq (push_u32 format_len)
    (eseq (push_u64 payload_len)
    (eseq (push_u32 0)
    (eseq (push_raw (str_bytes (df_format f)))
    (push_raw (df_payload f))))))))))))))"

definition decode_frame_body :: "(descriptor_error, descriptor_frame) dec" where
  "decode_frame_body =
    dbind (take_bytes ds_cerr 6) (\<lambda>magic.
    if magic \<noteq> descriptor_frame_magic then dfail Ds_InvalidMagic
    else
      dbind (take_u16 ds_cerr) (\<lambda>header_len.
      if unat header_len \<noteq> 32 then dfail Ds_InvalidHeader
      else
        dbind (take_u8 ds_cerr) (\<lambda>tag.
        dbind (dlift (decode_frame_kind tag)) (\<lambda>kind.
        dbind (take_u8 ds_cerr) (\<lambda>flags.
        if flags \<noteq> 0 then dfail Ds_NonCanonicalEncoding
        else
          dbind (take_u16 ds_cerr) (\<lambda>mj.
          dbind (take_u16 ds_cerr) (\<lambda>mn.
          if mj \<noteq> 0 \<or> 1 < mn then dfail (Ds_UnsupportedVersion mj mn)
          else
            dbind (take_u16 ds_cerr) (\<lambda>reserved.
            if reserved \<noteq> 0 then dfail Ds_NonCanonicalEncoding
            else
              dbind (take_u32 ds_cerr) (\<lambda>format_len.
              dbind (take_u64 ds_cerr) (\<lambda>payload_len.
              dbind (take_u32 ds_cerr) (\<lambda>reserved.
              if reserved \<noteq> 0 then dfail Ds_NonCanonicalEncoding
              else
                dbind (take_bytes ds_cerr (unat format_len)) (\<lambda>format_bytes.
                dbind (dlift (ok_or Ds_InvalidUtf8 (from_utf8 format_bytes))) (\<lambda>fmt.
                dbind (take_bytes ds_cerr (unat payload_len)) (\<lambda>payload.
                dret \<lparr>df_kind = kind, df_format = fmt, df_payload = payload\<rparr>))))))))))))))"

definition decode_descriptor_frame :: "u8 list \<Rightarrow> descriptor_error + descriptor_frame" where
  "decode_descriptor_frame bytes = decode_all Ds_NonCanonicalEncoding decode_frame_body bytes"

section \<open>The generative manifest\<close>

record generative_manifest =
  gm_token_input :: value_id
  gm_distribution_output :: u32
  gm_vocabulary_size :: u32

datatype generative_manifest_error =
  Gm_Truncated
| Gm_InvalidMagic
| Gm_InvalidHeader
| Gm_UnsupportedVersion u16 u16
| Gm_InvalidVocabulary
| Gm_NonCanonicalEncoding

text \<open>The cursor of \<open>generative.rs\<close> reports an overflow as \<open>Truncated\<close> too.\<close>

definition gm_cerr :: "generative_manifest_error cerr" where
  "gm_cerr = \<lparr>trunc = Gm_Truncated, ovfl = Gm_Truncated\<rparr>"

text \<open>\<open>b"NGM97\0"\<close>\<close>

definition generative_manifest_magic :: "u8 list" where
  "generative_manifest_magic = [78, 71, 77, 57, 55, 0]"

definition encode_native_generative_manifest :: "generative_manifest \<Rightarrow> generative_manifest_error enc" where
  "encode_native_generative_manifest m =
    (if gm_vocabulary_size m = 0 then Inl Gm_InvalidVocabulary
     else
       eseq (push_raw generative_manifest_magic)
       (eseq (push_u16 26)
       (eseq (push_u16 0)
       (eseq (push_u16 1)
       (eseq (push_u32 (gm_token_input m))
       (eseq (push_u32 (gm_distribution_output m))
       (eseq (push_u32 (gm_vocabulary_size m))
       (push_u16 0))))))))"

definition decode_manifest_body :: "(generative_manifest_error, generative_manifest) dec" where
  "decode_manifest_body =
    dbind (take_bytes gm_cerr 6) (\<lambda>magic.
    if magic \<noteq> generative_manifest_magic then dfail Gm_InvalidMagic
    else
      dbind (take_u16 gm_cerr) (\<lambda>header_len.
      if unat header_len \<noteq> 26 then dfail Gm_InvalidHeader
      else
        dbind (take_u16 gm_cerr) (\<lambda>mj.
        dbind (take_u16 gm_cerr) (\<lambda>mn.
        if mj \<noteq> 0 \<or> 1 < mn then dfail (Gm_UnsupportedVersion mj mn)
        else
          dbind (take_u32 gm_cerr) (\<lambda>token_input.
          dbind (take_u32 gm_cerr) (\<lambda>distribution_output.
          dbind (take_u32 gm_cerr) (\<lambda>vocabulary_size.
          if vocabulary_size = 0 then dfail Gm_InvalidVocabulary
          else
            dbind (take_u16 gm_cerr) (\<lambda>reserved.
            if reserved \<noteq> 0 then dfail Gm_NonCanonicalEncoding
            else dret \<lparr>gm_token_input = token_input, gm_distribution_output = distribution_output,
              gm_vocabulary_size = vocabulary_size\<rparr>))))))))"

definition decode_native_generative_manifest :: "u8 list \<Rightarrow> generative_manifest_error + generative_manifest" where
  "decode_native_generative_manifest bytes = decode_all Gm_NonCanonicalEncoding decode_manifest_body bytes"

definition push_native_generative_manifest_section ::
    "generative_manifest \<Rightarrow> (capsule_builder, generative_manifest_error, unit) op" where
  "push_native_generative_manifest_section m =
    sbind (slift (encode_native_generative_manifest m)) (\<lambda>bytes.
    smodify (push_embedded SecGenerativeManifest bytes))"

section \<open>The graph section\<close>

datatype graph_section_error =
  Gs_WrongSection section_kind
| Gs_ExternalGraph
| Gs_Codec ir_codec_error

definition push_graph_section :: "graph \<Rightarrow> (capsule_builder, ir_codec_error, unit) op" where
  "push_graph_section g =
    sbind (slift (encode_graph g)) (\<lambda>bytes. smodify (push_embedded SecGraph bytes))"

definition decode_graph_section :: "chunk_view \<Rightarrow> graph_section_error + graph" where
  "decode_graph_section chunk =
    (if cw_kind chunk \<noteq> SecGraph then Inl (Gs_WrongSection (cw_kind chunk))
     else case cw_storage chunk of
       StoEmbedded bytes \<Rightarrow> map_err Gs_Codec (decode_graph bytes)
     | StoExternal \<Rightarrow> Inl Gs_ExternalGraph)"

section \<open>Facts\<close>

lemma ds_decode_dtype_Inr: "ds_decode_dtype t = Inr dt \<longleftrightarrow> t = dtype_tag dt"
  by (cases dt) (auto simp: ds_decode_dtype_def)

lemma decode_frame_kind_Inr: "decode_frame_kind t = Inr k \<longleftrightarrow> t = frame_kind_tag k"
  by (cases k) (auto simp: decode_frame_kind_def)

lemma decode_tags_back [simp]:
  "ds_decode_dtype (dtype_tag dt) = Inr dt" "decode_frame_kind (frame_kind_tag k) = Inr k"
  by (simp_all add: ds_decode_dtype_Inr decode_frame_kind_Inr)

lemma descriptor_etas [simp]:
  "\<lparr>td_id = td_id d, td_dtype = td_dtype d, td_shape = td_shape d, td_byte_len = td_byte_len d\<rparr> = d"
  "\<lparr>df_kind = df_kind f, df_format = df_format f, df_payload = df_payload f\<rparr> = f"
  "\<lparr>gm_token_input = gm_token_input m, gm_distribution_output = gm_distribution_output m,
    gm_vocabulary_size = gm_vocabulary_size m\<rparr> = m"
  by simp_all

lemma magic_lengths [simp]:
  "length tensor_descriptor_magic = 6" "length descriptor_frame_magic = 6" "length generative_manifest_magic = 6"
  by (simp_all add: tensor_descriptor_magic_def descriptor_frame_magic_def generative_manifest_magic_def)

lemma reads_tensor_record: "encode_tensor_record d = Inr bs \<Longrightarrow> reads decode_tensor_record bs d"
proof -
  assume "encode_tensor_record d = Inr bs"
  then obtain b where b: "(push_each push_u64 (td_shape d) :: descriptor_error enc) = Inr b" and n: "length (td_shape d) < 256"
    and bs: "bs = u32_le (td_id d) @ [dtype_tag (td_dtype d)] @ [of_nat (length (td_shape d))] @ u16_le 0
      @ u64_le (td_byte_len d) @ b"
    by (auto simp: encode_tensor_record_def)
  have shape: "reads (take_n (length (td_shape d)) (take_u64 ds_cerr)) b (td_shape d)"
    using b by (intro u64_codec.each) simp_all
  show ?thesis
    unfolding decode_tensor_record_def bs
    by (auto simp: unat_len_u8 [OF n] intro!: reads_dbind [OF reads_u32] reads_u8_Cons reads_dbind [OF reads_u16]
        reads_dbind [OF reads_u64] reads_dbind_last [OF shape] reads_dret)
qed

lemma accepts_tensor_record: "accepts decode_tensor_record (\<lambda>d bs. True \<and> encode_tensor_record d = Inr bs)"
  unfolding decode_tensor_record_def
  apply (rule accepts_dbind [OF accepts_u32])
  apply (rule accepts_dbind [OF accepts_u8])
  apply (rule accepts_dbind_dlift)
  apply (rule accepts_dbind [OF accepts_u8])
  apply (rule accepts_dbind [OF accepts_u16])
  apply (clarsimp simp: accepts_dfail ds_decode_dtype_Inr)
  apply (rule accepts_dbind [OF accepts_u64])
  apply (rule accepts_dbind [OF u64_codec.each_accepts])
  apply (rule accepts_dret)
  apply (auto simp: encode_tensor_record_def unat_len_u8)
  done

interpretation tensor_record_codec: canonical_codec "\<lambda>_. True" encode_tensor_record decode_tensor_record
  by unfold_locales (auto intro: reads_tensor_record accepts_tensor_record [simplified])

lemma unat_eq_small: "unat (w :: u16) = 16 \<longleftrightarrow> w = 16" "unat w = 26 \<longleftrightarrow> w = 26" "unat w = 32 \<longleftrightarrow> w = 32"
  "unat w = 80 \<longleftrightarrow> w = 80"
  by (auto simp: word_unat_eq_iff)

text \<open>The bytes of a table written under minor version \<open>mn\<close>.\<close>

definition tensor_table_bytes :: "u16 \<Rightarrow> tensor_descriptor list \<Rightarrow> descriptor_error enc" where
  "tensor_table_bytes mn ds =
    rbind (len_u32 Ds_Overflow (length ds)) (\<lambda>count.
    eseq (push_raw (tensor_descriptor_magic @ u16_le 16 @ u16_le 0 @ u16_le mn @ u32_le count))
      (push_each encode_tensor_record ds))"

lemma eseq_raw: "eseq (push_raw xs) (eseq (push_raw ys) m) = eseq (push_raw (xs @ ys)) m"
  by (cases m) (simp_all add: eseq_def push_raw_def)

lemma encode_tensor_descriptors_bytes: "encode_tensor_descriptors ds = tensor_table_bytes 4 ds"
  by (simp add: encode_tensor_descriptors_def tensor_table_bytes_def ir_current_def push_u16_def push_u32_def
      eseq_raw cong: if_cong)

lemma reads_tensor_table:
  assumes "tensor_table_bytes mn ds = Inr bs" and "mn \<le> 4"
  shows "reads decode_tensor_table bs ds"
proof -
  from assms(1) obtain b where n: "int (length ds) < 2 ^ 32" and b: "push_each encode_tensor_record ds = Inr b"
    and bs: "bs = tensor_descriptor_magic @ u16_le 16 @ u16_le 0 @ u16_le mn @ u32_le (of_nat (length ds)) @ b"
    by (auto simp: tensor_table_bytes_def len_u32_eq_Inr)
  have "reads (take_n (length ds) decode_tensor_record) b ds" using b by (intro tensor_record_codec.each) simp_all
  then show ?thesis
    unfolding decode_tensor_table_def bs
    using assms(2)
    by (auto simp: unat_len [OF n] can_read_def ir_current_def intro!: reads_dbind [OF reads_take_bytes]
        reads_dbind [OF reads_u16] reads_dbind [OF reads_u32])
qed

lemma accepts_tensor_table:
  "accepts decode_tensor_table (\<lambda>ds bs. \<exists>mn \<le> 4. tensor_table_bytes mn ds = Inr bs)"
  unfolding decode_tensor_table_def
  apply (rule accepts_dbind [OF accepts_take_bytes])
  apply (clarsimp simp: accepts_dfail)
  apply (rule accepts_dbind [OF accepts_u16])
  apply (clarsimp simp: accepts_dfail unat_eq_small)
  apply (rule accepts_dbind [OF accepts_u16])
  apply (rule accepts_dbind [OF accepts_u16])
  apply (clarsimp simp: accepts_dfail can_read_def ir_current_def)
  apply (rule accepts_dbind [OF accepts_u32])
  apply (rule accepts_mono [OF tensor_record_codec.each_accepts])
  apply (auto simp: tensor_table_bytes_def len_u32_eq_Inr)
  done

lemma decode_encode_tensor_descriptors:
  "encode_tensor_descriptors ds = Inr bs \<Longrightarrow> int (length bs) < usize_bound \<Longrightarrow> decode_tensor_descriptors bs = Inr ds"
  unfolding decode_tensor_descriptors_def encode_tensor_descriptors_bytes
  by (rule decode_all_reads [OF reads_tensor_table [where mn = 4]]) simp_all

lemma decoded_tensor_descriptors:
  "decode_tensor_descriptors bs = Inr ds \<Longrightarrow> int (length bs) < usize_bound
    \<Longrightarrow> \<exists>mn \<le> 4. tensor_table_bytes mn ds = Inr bs"
  unfolding decode_tensor_descriptors_def by (rule decode_all_accepts [OF accepts_tensor_table])

definition frame_bytes :: "u16 \<Rightarrow> descriptor_frame \<Rightarrow> descriptor_error enc" where
  "frame_bytes mn f =
    rbind (len_u32 Ds_Overflow (length (df_format f))) (\<lambda>format_len.
    rbind (len_u64 Ds_Overflow (length (df_payload f))) (\<lambda>payload_len.
    push_raw (descriptor_frame_magic @ u16_le 32 @ [frame_kind_tag (df_kind f), 0] @ u16_le 0 @ u16_le mn @ u16_le 0
      @ u32_le format_len @ u64_le payload_len @ u32_le 0 @ str_bytes (df_format f) @ df_payload f)))"

lemma eseq_raw_last: "eseq (push_raw xs) (push_raw ys) = push_raw (xs @ ys)"
  by (simp add: eseq_def push_raw_def)

lemma encode_descriptor_frame_bytes: "encode_descriptor_frame f = frame_bytes 1 f"
  by (simp add: encode_descriptor_frame_def frame_bytes_def push_u8_def push_u16_def push_u32_def push_u64_def
      eseq_raw eseq_raw_last)

lemma reads_frame:
  assumes "frame_bytes mn f = Inr bs" and "mn \<le> 1" and "str_ok (df_format f)"
  shows "reads decode_frame_body bs f"
proof -
  from assms(1) have n: "int (length (df_format f)) < 2 ^ 32" "int (length (df_payload f)) < 2 ^ 64"
    and bs: "bs = descriptor_frame_magic @ u16_le 32 @ [frame_kind_tag (df_kind f)] @ [0] @ u16_le 0 @ u16_le mn @ u16_le 0
      @ u32_le (of_nat (length (df_format f))) @ u64_le (of_nat (length (df_payload f))) @ u32_le 0
      @ str_bytes (df_format f) @ df_payload f"
    by (auto simp: frame_bytes_def len_u32_eq_Inr)
  have payload: "reads (dbind (take_bytes ds_cerr (length (df_payload f)))
      (\<lambda>payload. dret \<lparr>df_kind = df_kind f, df_format = df_format f, df_payload = payload\<rparr>)) (df_payload f) f"
    by (rule reads_dbind_last [OF reads_take_bytes]) (auto intro!: reads_dret)
  show ?thesis
    unfolding decode_frame_body_def bs
    using assms(2,3)
    by (auto simp: unat_len [OF n(1)] unat_len_u64 [OF n(2)] leD intro!: payload reads_dbind [OF reads_take_bytes]
        reads_dbind [OF reads_u16] reads_u8_Cons reads_dbind [OF reads_u32] reads_dbind [OF reads_u64])
qed

lemma accepts_frame:
  "accepts decode_frame_body (\<lambda>f bs. str_ok (df_format f) \<and> (\<exists>mn \<le> 1. frame_bytes mn f = Inr bs))"
  unfolding decode_frame_body_def
  apply (rule accepts_dbind [OF accepts_take_bytes])
  apply (clarsimp simp: accepts_dfail)
  apply (rule accepts_dbind [OF accepts_u16])
  apply (clarsimp simp: accepts_dfail unat_eq_small)
  apply (rule accepts_dbind [OF accepts_u8])
  apply (rule accepts_dbind_dlift)
  apply (rule accepts_dbind [OF accepts_u8])
  apply (clarsimp simp: accepts_dfail decode_frame_kind_Inr)
  apply (rule accepts_dbind [OF accepts_u16])
  apply (rule accepts_dbind [OF accepts_u16])
  apply (clarsimp simp: accepts_dfail not_less)
  apply (rule accepts_dbind [OF accepts_u16])
  apply (clarsimp simp: accepts_dfail)
  apply (rule accepts_dbind [OF accepts_u32])
  apply (rule accepts_dbind [OF accepts_u64])
  apply (rule accepts_dbind [OF accepts_u32])
  apply (clarsimp simp: accepts_dfail)
  apply (rule accepts_dbind [OF accepts_take_bytes])
  apply (rule accepts_dbind_dlift)
  apply (rule accepts_dbind [OF accepts_take_bytes])
  apply (rule accepts_dret)
  apply (auto simp: frame_bytes_def len_u32_eq_Inr from_utf8_Some)
  done

lemma decode_encode_descriptor_frame:
  "encode_descriptor_frame f = Inr bs \<Longrightarrow> str_ok (df_format f) \<Longrightarrow> int (length bs) < usize_bound
    \<Longrightarrow> decode_descriptor_frame bs = Inr f"
  unfolding decode_descriptor_frame_def encode_descriptor_frame_bytes
  by (rule decode_all_reads [OF reads_frame [where mn = 1]]) simp_all

lemma decoded_descriptor_frame:
  "decode_descriptor_frame bs = Inr f \<Longrightarrow> int (length bs) < usize_bound
    \<Longrightarrow> str_ok (df_format f) \<and> (\<exists>mn \<le> 1. frame_bytes mn f = Inr bs)"
  unfolding decode_descriptor_frame_def by (rule decode_all_accepts [OF accepts_frame])

definition manifest_section_bytes :: "u16 \<Rightarrow> generative_manifest \<Rightarrow> u8 list" where
  "manifest_section_bytes mn m = generative_manifest_magic @ u16_le 26 @ u16_le 0 @ u16_le mn @ u32_le (gm_token_input m)
    @ u32_le (gm_distribution_output m) @ u32_le (gm_vocabulary_size m) @ u16_le 0"

lemma encode_generative_manifest_Inr:
  "encode_native_generative_manifest m = Inr bs \<longleftrightarrow> gm_vocabulary_size m \<noteq> 0 \<and> bs = manifest_section_bytes 1 m"
  by (auto simp: encode_native_generative_manifest_def manifest_section_bytes_def)

lemma reads_manifest:
  assumes "mn \<le> 1" and "gm_vocabulary_size m \<noteq> 0"
  shows "reads decode_manifest_body (manifest_section_bytes mn m) m"
proof -
  have last: "reads (dbind (take_u16 gm_cerr) (\<lambda>reserved. if reserved \<noteq> 0 then dfail Gm_NonCanonicalEncoding
      else dret \<lparr>gm_token_input = gm_token_input m, gm_distribution_output = gm_distribution_output m,
        gm_vocabulary_size = gm_vocabulary_size m\<rparr>)) (u16_le 0) m"
    by (rule reads_dbind_last [OF reads_u16]) (auto intro!: reads_dret)
  show ?thesis
    unfolding decode_manifest_body_def manifest_section_bytes_def
    using assms
    by (auto simp: leD intro!: last reads_dbind [OF reads_take_bytes] reads_dbind [OF reads_u16]
        reads_dbind [OF reads_u32])
qed

lemma accepts_manifest:
  "accepts decode_manifest_body (\<lambda>m bs. gm_vocabulary_size m \<noteq> 0 \<and> (\<exists>mn \<le> 1. bs = manifest_section_bytes mn m))"
  unfolding decode_manifest_body_def
  apply (rule accepts_dbind [OF accepts_take_bytes])
  apply (clarsimp simp: accepts_dfail)
  apply (rule accepts_dbind [OF accepts_u16])
  apply (clarsimp simp: accepts_dfail unat_eq_small)
  apply (rule accepts_dbind [OF accepts_u16])
  apply (rule accepts_dbind [OF accepts_u16])
  apply (clarsimp simp: accepts_dfail not_less)
  apply (rule accepts_dbind [OF accepts_u32])
  apply (rule accepts_dbind [OF accepts_u32])
  apply (rule accepts_dbind [OF accepts_u32])
  apply (clarsimp simp: accepts_dfail)
  apply (rule accepts_dbind [OF accepts_u16])
  apply (auto intro!: accepts_dfail accepts_dret simp: manifest_section_bytes_def)
  done

lemma decode_encode_generative_manifest:
  assumes "encode_native_generative_manifest m = Inr bs"
  shows "decode_native_generative_manifest bs = Inr m"
proof -
  from assms have m: "gm_vocabulary_size m \<noteq> 0" and bs: "bs = manifest_section_bytes 1 m"
    by (simp_all add: encode_generative_manifest_Inr)
  show ?thesis
    unfolding decode_native_generative_manifest_def bs
    by (rule decode_all_reads [OF reads_manifest [OF order_refl m]]) (simp add: manifest_section_bytes_def usize_bound_def)
qed

end
