(* ===== verification/Native_Tensor.thy ===== *)
theory Native_Tensor
  imports Descriptors
begin

text \<open>
  Tensor shards and the loading of a program from a capsule,
  \<open>crates/ntd-capsule/src/native_tensor.rs\<close>: the NTP97 format of one tensor, the content store that
  holds external chunks by their hash, and \<open>load_native_program\<close>, which resolves the chunks of a
  capsule view, matches shards with the descriptor table, and checks the bindings to graph inputs.

  An \<open>f32\<close> is its bit pattern: the code stores scales as bits and asks of them only whether they are
  finite and positive, which on bit patterns is \<open>finite_positive\<close> (sign clear, exponent not all ones,
  not zero). An \<open>i32\<close> is a 32-bit word read with \<open>sint\<close>. A \<open>ContentStore\<close> is the function \<open>get\<close>.
\<close>

section \<open>Data\<close>

datatype quantization_metadata =
  QuantNone
| SymmetricI8 u32
| AffineI8 u32 i32

record native_tensor =
  nt_descriptor :: tensor_descriptor
  nt_graph_value :: "value_id option"
  nt_quantization :: quantization_metadata
  nt_payload :: "u8 list"

record native_program =
  np_graph :: graph
  np_tensors :: "native_tensor list"

datatype native_tensor_error =
  Nt_Descriptor descriptor_error
| Nt_Graph ir_codec_error
| Nt_Truncated
| Nt_InvalidMagic
| Nt_InvalidHeader
| Nt_UnsupportedVersion u16 u16
| Nt_InvalidDType u8
| Nt_InvalidQuantization
| Nt_InvalidShape
| Nt_PayloadLengthMismatch u64 u64
| Nt_DescriptorIntegrityMismatch
| Nt_NonCanonicalEncoding
| Nt_MissingGraph
| Nt_MultipleGraphs
| Nt_MissingDescriptorTable
| Nt_MultipleDescriptorTables
| Nt_DuplicateTensorId u32
| Nt_DuplicateGraphBinding value_id
| Nt_MissingTensorShard u32
| Nt_UnknownTensorShard u32
| Nt_TensorDescriptorMismatch u32
| Nt_GraphBindingMissing value_id
| Nt_GraphBindingTypeMismatch value_id
| Nt_MissingExternalContent digest
| Nt_ExternalLengthMismatch u64 u64
| Nt_ExternalIntegrityMismatch digest
| Nt_UnknownTensorChunk
| Nt_Overflow

definition nt_cerr :: "native_tensor_error cerr" where
  "nt_cerr = \<lparr>trunc = Nt_Truncated, ovfl = Nt_Overflow\<rparr>"

text \<open>\<open>b"NTP97\0"\<close> and \<open>u32::MAX\<close>\<close>

definition native_tensor_magic :: "u8 list" where
  "native_tensor_magic = [78, 84, 80, 57, 55, 0]"

definition NO_GRAPH_BINDING :: u32 where
  "NO_GRAPH_BINDING = - 1"

section \<open>Quantization and shapes\<close>

definition finite_positive :: "u32 \<Rightarrow> bool" where
  "finite_positive bits \<longleftrightarrow> 0 < bits \<and> bits < 0x7F800000"

definition validate_scale :: "u32 \<Rightarrow> native_tensor_error + unit" where
  "validate_scale bits = (if finite_positive bits then Inr () else Inl Nt_InvalidQuantization)"

text \<open>\<open>(-128..=127).contains(&zero_point)\<close>\<close>

definition i8_range :: "i32 \<Rightarrow> bool" where
  "i8_range z \<longleftrightarrow> - 128 \<le> sint z \<and> sint z \<le> 127"

definition symmetric_i8 :: "u32 \<Rightarrow> native_tensor_error + quantization_metadata" where
  "symmetric_i8 scale = rbind (validate_scale scale) (\<lambda>_. Inr (SymmetricI8 scale))"

definition affine_i8 :: "u32 \<Rightarrow> i32 \<Rightarrow> native_tensor_error + quantization_metadata" where
  "affine_i8 scale zero_point =
    rbind (validate_scale scale) (\<lambda>_.
    if \<not> i8_range zero_point then Inl Nt_InvalidQuantization else Inr (AffineI8 scale zero_point))"

fun quant_scale :: "quantization_metadata \<Rightarrow> u32 option" where
  "quant_scale QuantNone = None"
| "quant_scale (SymmetricI8 s) = Some s"
| "quant_scale (AffineI8 s z) = Some s"

fun quant_zero_point :: "quantization_metadata \<Rightarrow> i32 option" where
  "quant_zero_point QuantNone = None"
| "quant_zero_point (SymmetricI8 s) = Some 0"
| "quant_zero_point (AffineI8 s z) = Some z"

fun encode_quantization :: "quantization_metadata \<Rightarrow> native_tensor_error + u8 \<times> u32 \<times> i32" where
  "encode_quantization QuantNone = Inr (0, 0, 0)"
| "encode_quantization (SymmetricI8 s) = rbind (validate_scale s) (\<lambda>_. Inr (1, s, 0))"
| "encode_quantization (AffineI8 s z) =
    rbind (validate_scale s) (\<lambda>_. if \<not> i8_range z then Inl Nt_InvalidQuantization else Inr (2, s, z))"

definition decode_quantization :: "u8 \<Rightarrow> u32 \<Rightarrow> i32 \<Rightarrow> native_tensor_error + quantization_metadata" where
  "decode_quantization tag s z =
    (if tag = 0 \<and> s = 0 \<and> z = 0 then Inr QuantNone
     else if tag = 1 \<and> z = 0 then rbind (validate_scale s) (\<lambda>_. Inr (SymmetricI8 s))
     else if tag = 2 \<and> i8_range z then rbind (validate_scale s) (\<lambda>_. Inr (AffineI8 s z))
     else Inl Nt_InvalidQuantization)"

definition validate_quantized_i8 :: "dtype \<Rightarrow> u32 \<Rightarrow> i32 \<Rightarrow> native_tensor_error + unit" where
  "validate_quantized_i8 dt s z =
    (if dt \<noteq> I8 \<or> \<not> i8_range z then Inl Nt_InvalidQuantization else validate_scale s)"

definition checked_mul :: "u64 \<Rightarrow> u64 \<Rightarrow> u64 option" where
  "checked_mul a b = (if uint a * uint b < 2 ^ 64 then Some (a * b) else None)"

fun element_count_from :: "u64 \<Rightarrow> u64 list \<Rightarrow> native_tensor_error + u64" where
  "element_count_from count [] = Inr count"
| "element_count_from count (d # ds) =
    rbind (ok_or Nt_InvalidShape (checked_mul count d)) (\<lambda>count'. element_count_from count' ds)"

definition element_count :: "u64 list \<Rightarrow> native_tensor_error + u64" where
  "element_count shape = element_count_from 1 shape"

fun dtype_width :: "dtype \<Rightarrow> u64" where
  "dtype_width F32 = 4"
| "dtype_width I32 = 4"
| "dtype_width F16 = 2"
| "dtype_width Bf16 = 2"
| "dtype_width I64 = 8"
| "dtype_width I8 = 1"
| "dtype_width U8 = 1"
| "dtype_width Bool = 1"

definition validate_tensor :: "native_tensor \<Rightarrow> native_tensor_error + unit" where
  "validate_tensor t =
    rbind (element_count (td_shape (nt_descriptor t))) (\<lambda>elements.
    rbind (len_u64 Nt_Overflow (length (nt_payload t))) (\<lambda>actual.
    if actual \<noteq> td_byte_len (nt_descriptor t)
    then Inl (Nt_PayloadLengthMismatch (td_byte_len (nt_descriptor t)) actual)
    else
      rbind (case nt_quantization t of
          QuantNone \<Rightarrow> ok_or Nt_Overflow (checked_mul elements (dtype_width (td_dtype (nt_descriptor t))))
        | SymmetricI8 s \<Rightarrow> rbind (validate_quantized_i8 (td_dtype (nt_descriptor t)) s 0) (\<lambda>_. Inr elements)
        | AffineI8 s z \<Rightarrow> rbind (validate_quantized_i8 (td_dtype (nt_descriptor t)) s z) (\<lambda>_. Inr elements))
      (\<lambda>expected.
      if actual \<noteq> expected then Inl (Nt_PayloadLengthMismatch expected actual) else Inr ())))"

section \<open>The shard format\<close>

definition nt_decode_dtype :: "u8 \<Rightarrow> native_tensor_error + dtype" where
  "nt_decode_dtype tag =
    (if tag = 1 then Inr F32
     else if tag = 2 then Inr F16
     else if tag = 3 then Inr Bf16
     else if tag = 4 then Inr I8
     else if tag = 5 then Inr U8
     else if tag = 6 then Inr I32
     else if tag = 7 then Inr I64
     else if tag = 8 then Inr Bool
     else Inl (Nt_InvalidDType tag))"

text \<open>\<open>push_i32\<close> writes the same four bytes as \<open>push_u32\<close>.\<close>

definition encode_native_tensor :: "native_tensor \<Rightarrow> native_tensor_error enc" where
  "encode_native_tensor t =
    rbind (validate_tensor t) (\<lambda>_.
    rbind (map_err Nt_Descriptor (encode_tensor_descriptors [nt_descriptor t])) (\<lambda>descriptor_bytes.
    let descriptor_hash = sha256 descriptor_bytes; shape = td_shape (nt_descriptor t) in
    rbind (len_u8 Nt_Overflow (length shape)) (\<lambda>rank.
    rbind (element_count shape) (\<lambda>elements.
    rbind (len_u64 Nt_Overflow (length (nt_payload t))) (\<lambda>payload_len.
    rbind (encode_quantization (nt_quantization t)) (\<lambda>(quant_tag, scale_bits, zero_point).
    if \<not> int (80 + length shape * 8 + length (nt_payload t)) < usize_bound then Inl Nt_Overflow
    else
      eseq (push_raw native_tensor_magic)
      (eseq (push_u16 80)
      (eseq (push_u16 0)
      (eseq (push_u16 1)
      (eseq (push_u32 (td_id (nt_descriptor t)))
      (eseq (push_u32 (case nt_graph_value t of None \<Rightarrow> NO_GRAPH_BINDING | Some v \<Rightarrow> v))
      (eseq (push_u8 (dtype_tag (td_dtype (nt_descriptor t))))
      (eseq (push_u8 quant_tag)
      (eseq (push_u8 rank)
      (eseq (push_u8 0)
      (eseq (push_u64 elements)
      (eseq (push_u64 payload_len)
      (eseq (push_u32 scale_bits)
      (eseq (push_u32 zero_point)
      (eseq (push_raw descriptor_hash)
      (eseq (push_each push_u64 shape)
      (push_raw (nt_payload t)))))))))))))))))))))))"

text \<open>What the cursor of \<open>decode_native_tensor\<close> reads, before it is assembled and checked.\<close>

record tensor_fields =
  tf_id :: u32
  tf_graph_value_raw :: u32
  tf_dtype :: dtype
  tf_quant_tag :: u8
  tf_scale_bits :: u32
  tf_zero_point :: i32
  tf_descriptor_hash :: digest
  tf_shape :: "u64 list"
  tf_payload_len :: u64
  tf_payload :: "u8 list"

definition decode_tensor_fields :: "(native_tensor_error, tensor_fields) dec" where
  "decode_tensor_fields =
    dbind (take_bytes nt_cerr 6) (\<lambda>magic.
    if magic \<noteq> native_tensor_magic then dfail Nt_InvalidMagic
    else
      dbind (take_u16 nt_cerr) (\<lambda>header_len.
      if unat header_len \<noteq> 80 then dfail Nt_InvalidHeader
      else
        dbind (take_u16 nt_cerr) (\<lambda>mj.
        dbind (take_u16 nt_cerr) (\<lambda>mn.
        if mj \<noteq> 0 \<or> 1 < mn then dfail (Nt_UnsupportedVersion mj mn)
        else
          dbind (take_u32 nt_cerr) (\<lambda>tensor_id.
          dbind (take_u32 nt_cerr) (\<lambda>graph_value_raw.
          dbind (take_u8 nt_cerr) (\<lambda>tag.
          dbind (dlift (nt_decode_dtype tag)) (\<lambda>dt.
          dbind (take_u8 nt_cerr) (\<lambda>quant_tag.
          dbind (take_u8 nt_cerr) (\<lambda>rank.
          dbind (take_u8 nt_cerr) (\<lambda>reserved.
          if reserved \<noteq> 0 then dfail Nt_NonCanonicalEncoding
          else
            dbind (take_u64 nt_cerr) (\<lambda>encoded_element_count.
            dbind (take_u64 nt_cerr) (\<lambda>payload_len.
            dbind (take_u32 nt_cerr) (\<lambda>scale_bits.
            dbind (take_u32 nt_cerr) (\<lambda>zero_point.
            dbind (take_bytes nt_cerr 32) (\<lambda>descriptor_hash.
            dbind (take_n (unat rank) (take_u64 nt_cerr)) (\<lambda>shape.
            dbind (dlift (element_count shape)) (\<lambda>elements.
            if elements \<noteq> encoded_element_count then dfail Nt_InvalidShape
            else
              dbind (take_bytes nt_cerr (unat payload_len)) (\<lambda>payload.
              dret \<lparr>tf_id = tensor_id, tf_graph_value_raw = graph_value_raw, tf_dtype = dt, tf_quant_tag = quant_tag,
                tf_scale_bits = scale_bits, tf_zero_point = zero_point, tf_descriptor_hash = descriptor_hash,
                tf_shape = shape, tf_payload_len = payload_len, tf_payload = payload\<rparr>)))))))))))))))))))"

definition assemble_tensor :: "tensor_fields \<Rightarrow> quantization_metadata \<Rightarrow> native_tensor" where
  "assemble_tensor f q =
    \<lparr>nt_descriptor = \<lparr>td_id = tf_id f, td_dtype = tf_dtype f, td_shape = tf_shape f, td_byte_len = tf_payload_len f\<rparr>,
     nt_graph_value = (if tf_graph_value_raw f \<noteq> NO_GRAPH_BINDING then Some (tf_graph_value_raw f) else None),
     nt_quantization = q, nt_payload = tf_payload f\<rparr>"

definition decode_native_tensor :: "u8 list \<Rightarrow> native_tensor_error + native_tensor" where
  "decode_native_tensor bytes =
    rbind (decode_all Nt_NonCanonicalEncoding decode_tensor_fields bytes) (\<lambda>f.
    rbind (decode_quantization (tf_quant_tag f) (tf_scale_bits f) (tf_zero_point f)) (\<lambda>q.
    let tensor = assemble_tensor f q in
    rbind (validate_tensor tensor) (\<lambda>_.
    rbind (map_err Nt_Descriptor (encode_tensor_descriptors [nt_descriptor tensor])) (\<lambda>canonical_descriptor.
    if sha256 canonical_descriptor \<noteq> tf_descriptor_hash f then Inl Nt_DescriptorIntegrityMismatch
    else Inr tensor))))"

definition push_tensor_descriptor_section ::
    "tensor_descriptor list \<Rightarrow> (capsule_builder, native_tensor_error, unit) op" where
  "push_tensor_descriptor_section ds =
    sbind (slift (map_err Nt_Descriptor (encode_tensor_descriptors ds))) (\<lambda>bytes.
    smodify (push_embedded SecTensors bytes))"

definition push_native_tensor_shard :: "native_tensor \<Rightarrow> (capsule_builder, native_tensor_error, unit) op" where
  "push_native_tensor_shard t =
    sbind (slift (encode_native_tensor t)) (\<lambda>bytes. smodify (push_embedded SecTensors bytes))"

section \<open>The content store\<close>

type_synonym content_store = "digest \<Rightarrow> u8 list option"

record memory_content_store =
  ms_entries :: "(digest, u8 list) btmap"

definition store_new :: memory_content_store where
  "store_new = \<lparr>ms_entries = []\<rparr>"

text \<open>\<open>entries.entry(hash).or_insert(bytes)\<close>\<close>

definition entry_or_insert :: "digest \<Rightarrow> u8 list \<Rightarrow> memory_content_store \<Rightarrow> memory_content_store" where
  "entry_or_insert hash bytes s =
    (if bt_contains (ms_entries s) hash then s else s\<lparr>ms_entries := bt_insert hash bytes (ms_entries s)\<rparr>)"

definition store_insert :: "u8 list \<Rightarrow> memory_content_store \<Rightarrow> digest \<times> memory_content_store" where
  "store_insert bytes s = (let hash = sha256 bytes in (hash, entry_or_insert hash bytes s))"

definition store_insert_verified :: "digest \<Rightarrow> u8 list \<Rightarrow> (memory_content_store, native_tensor_error, unit) op" where
  "store_insert_verified hash bytes =
    (if sha256 bytes \<noteq> hash then sfail (Nt_ExternalIntegrityMismatch hash)
     else smodify (entry_or_insert hash bytes))"

definition store_len :: "memory_content_store \<Rightarrow> nat" where
  "store_len s = length (ms_entries s)"

definition store_is_empty :: "memory_content_store \<Rightarrow> bool" where
  "store_is_empty s \<longleftrightarrow> ms_entries s = []"

definition store_get :: "memory_content_store \<Rightarrow> content_store" where
  "store_get s = bt_get (ms_entries s)"

section \<open>Loading a program\<close>

definition resolve_chunk :: "chunk_view \<Rightarrow> content_store \<Rightarrow> native_tensor_error + u8 list" where
  "resolve_chunk chunk store =
    (case cw_storage chunk of
      StoEmbedded bytes \<Rightarrow> Inr bytes
    | StoExternal \<Rightarrow>
        rbind (ok_or (Nt_MissingExternalContent (cw_hash chunk)) (store (cw_hash chunk))) (\<lambda>bytes.
        rbind (len_u64 Nt_Overflow (length bytes)) (\<lambda>actual.
        if actual \<noteq> cw_logical_len chunk then Inl (Nt_ExternalLengthMismatch (cw_logical_len chunk) actual)
        else if sha256 bytes \<noteq> cw_hash chunk then Inl (Nt_ExternalIntegrityMismatch (cw_hash chunk))
        else Inr bytes)))"

text \<open>The loop over the \<open>Tensors\<close> chunks; the table found so far and the shards, in order.\<close>

fun sort_chunks ::
    "content_store \<Rightarrow> chunk_view list \<Rightarrow> tensor_descriptor list option \<Rightarrow> native_tensor list
      \<Rightarrow> native_tensor_error + tensor_descriptor list option \<times> native_tensor list" where
  "sort_chunks store [] table shards = Inr (table, shards)"
| "sort_chunks store (c # cs) table shards =
    rbind (resolve_chunk c store) (\<lambda>bytes.
    if starts_with bytes tensor_descriptor_magic then
      if table \<noteq> None then Inl Nt_MultipleDescriptorTables
      else
        rbind (map_err Nt_Descriptor (decode_tensor_descriptors bytes)) (\<lambda>ds.
        sort_chunks store cs (Some ds) shards)
    else if starts_with bytes native_tensor_magic then
      rbind (decode_native_tensor bytes) (\<lambda>t. sort_chunks store cs table (shards @ [t]))
    else Inl Nt_UnknownTensorChunk)"

fun index_descriptors ::
    "tensor_descriptor list \<Rightarrow> (u32, tensor_descriptor) btmap \<Rightarrow> native_tensor_error + (u32, tensor_descriptor) btmap" where
  "index_descriptors [] m = Inr m"
| "index_descriptors (d # ds) m =
    (if bt_contains m (td_id d) then Inl (Nt_DuplicateTensorId (td_id d))
     else index_descriptors ds (bt_insert (td_id d) d m))"

definition validate_graph_binding :: "graph \<Rightarrow> value_id \<Rightarrow> tensor_descriptor \<Rightarrow> native_tensor_error + unit" where
  "validate_graph_binding g v d =
    rbind (ok_or (Nt_GraphBindingMissing v) (find (\<lambda>decl. vd_id decl = v) (gr_inputs g))) (\<lambda>decl.
    case vd_ty decl of
      Scalar dt \<Rightarrow>
        if dt = td_dtype d \<and> td_shape d = [] then Inr () else Inl (Nt_GraphBindingTypeMismatch v)
    | Tensor dt rank \<Rightarrow>
        if dt = td_dtype d \<and> unat rank = length (td_shape d) then Inr () else Inl (Nt_GraphBindingTypeMismatch v)
    | _ \<Rightarrow> Inl (Nt_GraphBindingTypeMismatch v))"

text \<open>The loop over the shards; the identifiers and the bindings seen so far.\<close>

fun check_shards ::
    "graph \<Rightarrow> (u32, tensor_descriptor) btmap \<Rightarrow> u32 list \<Rightarrow> value_id list \<Rightarrow> native_tensor list
      \<Rightarrow> native_tensor_error + u32 list" where
  "check_shards g table ids bindings [] = Inr ids"
| "check_shards g table ids bindings (t # ts) =
    (let i = td_id (nt_descriptor t) in
     if i \<in> set ids then Inl (Nt_DuplicateTensorId i)
     else
       rbind (ok_or (Nt_UnknownTensorShard i) (bt_get table i)) (\<lambda>d.
       if d \<noteq> nt_descriptor t then Inl (Nt_TensorDescriptorMismatch i)
       else
         case nt_graph_value t of
           None \<Rightarrow> check_shards g table (i # ids) bindings ts
         | Some v \<Rightarrow>
             if v \<in> set bindings then Inl (Nt_DuplicateGraphBinding v)
             else
               rbind (validate_graph_binding g v d) (\<lambda>_.
               check_shards g table (i # ids) (v # bindings) ts)))"

definition load_native_program :: "capsule_view \<Rightarrow> content_store \<Rightarrow> native_tensor_error + native_program" where
  "load_native_program v store =
    rbind (case filter (\<lambda>c. cw_kind c = SecGraph) (vw_chunks v) of
        [] \<Rightarrow> Inl Nt_MissingGraph
      | [c] \<Rightarrow> Inr c
      | _ \<Rightarrow> Inl Nt_MultipleGraphs) (\<lambda>graph_chunk.
    rbind (resolve_chunk graph_chunk store) (\<lambda>graph_content.
    rbind (map_err Nt_Graph (decode_graph graph_content)) (\<lambda>g.
    rbind (sort_chunks store (filter (\<lambda>c. cw_kind c = SecTensors) (vw_chunks v)) None []) (\<lambda>(table, shards).
    rbind (ok_or Nt_MissingDescriptorTable table) (\<lambda>descriptors.
    rbind (index_descriptors descriptors []) (\<lambda>descriptor_by_id.
    rbind (check_shards g descriptor_by_id [] [] shards) (\<lambda>seen.
    rbind (check_all (\<lambda>i. if i \<in> set seen then Inr () else Inl (Nt_MissingTensorShard i)) (map fst descriptor_by_id))
      (\<lambda>_.
    Inr \<lparr>np_graph = g, np_tensors = sort_key (\<lambda>t. td_id (nt_descriptor t)) shards\<rparr>))))))))"

end
