(* ===== verification/Tokenizer_Codec.thy ===== *)
theory Tokenizer_Codec
  imports Native_Tensor
begin

text \<open>
  The native tokenizer section and the loading of a generative program,
  \<open>crates/ntd-capsule/src/tokenizer.rs\<close>: the NTK97 payload inside a descriptor frame, the validation
  of a tokenizer, and \<open>load_native_generative_program\<close>.

  \<open>BTreeMap<Vec<u8>, u32>\<close> is a \<open>btmap\<close> with the lexicographic order of byte lists; the \<open>BTreeSet\<close> of
  merges is only asked for membership and is a list. A score is the bit pattern of an \<open>f32\<close>, which is
  finite when its exponent bits are not all ones.
\<close>

unbundle bit_operations_syntax

section \<open>Data\<close>

datatype native_tokenizer_model =
  Vocabulary
| LlamaSpm (spm_score_bits: "u32 list") (spm_token_types: "i32 list") (spm_add_space_prefix: bool)
    (spm_add_bos: bool) (spm_add_eos: bool)
| Gpt2Bpe (bpe_merges: "string list") (bpe_add_bos: bool) (bpe_add_eos: bool)

record native_tokenizer =
  tk_tokens :: "u8 list list"
  tk_bos :: "u32 option"
  tk_eos :: "u32 option"
  tk_unknown :: "u32 option"
  tk_model :: native_tokenizer_model

record native_generative_program =
  gp_program :: native_program
  gp_tokenizer :: native_tokenizer
  gp_manifest :: "generative_manifest option"

datatype native_tokenizer_error =
  Tk_Descriptor descriptor_error
| Tk_WrongDescriptorKind descriptor_frame_kind
| Tk_WrongFormat string
| Tk_Truncated
| Tk_InvalidUtf8
| Tk_InvalidMagic
| Tk_InvalidHeader
| Tk_UnsupportedVersion u16 u16
| Tk_EmptyVocabulary
| Tk_EmptyToken u32
| Tk_DuplicateToken u32 u32
| Tk_InvalidSpecialToken u32
| Tk_InvalidTokenizerModel u32
| Tk_InvalidScoreCount nat nat
| Tk_InvalidTokenTypeCount nat nat
| Tk_InvalidTokenType u32 i32
| Tk_NonFiniteScore u32
| Tk_InvalidBpeMerge string
| Tk_DuplicateBpeMerge string
| Tk_NonCanonicalEncoding
| Tk_Overflow

datatype native_generative_error =
  Ng_Program native_tensor_error
| Ng_Tokenizer native_tokenizer_error
| Ng_MissingTokenizer
| Ng_MultipleTokenizers
| Ng_Manifest generative_manifest_error
| Ng_MultipleGenerativeManifests
| Ng_MissingExternalContent digest
| Ng_ExternalLengthMismatch u64 u64
| Ng_ExternalIntegrityMismatch digest
| Ng_Overflow

definition tk_cerr :: "native_tokenizer_error cerr" where
  "tk_cerr = \<lparr>trunc = Tk_Truncated, ovfl = Tk_Overflow\<rparr>"

definition native_tokenizer_format :: string where
  "native_tokenizer_format = ''ntd97.tokenizer.v2''"

definition legacy_native_tokenizer_format :: string where
  "legacy_native_tokenizer_format = ''ntd97.tokenizer.vocab.v1''"

text \<open>\<open>b"NTK97\0"\<close> and \<open>u32::MAX\<close>\<close>

definition native_tokenizer_magic :: "u8 list" where
  "native_tokenizer_magic = [78, 84, 75, 57, 55, 0]"

definition NO_SPECIAL_TOKEN :: u32 where
  "NO_SPECIAL_TOKEN = - 1"

section \<open>Validation\<close>

definition f32_finite :: "u32 \<Rightarrow> bool" where
  "f32_finite bits \<longleftrightarrow> bits AND 0x7F800000 \<noteq> 0x7F800000"

definition token_type_ok :: "i32 \<Rightarrow> bool" where
  "token_type_ok ty \<longleftrightarrow> 1 \<le> sint ty \<and> sint ty \<le> 6"

text \<open>\<open>for (index, token) in tokens.iter().enumerate()\<close>, with the map of tokens seen so far.\<close>

fun check_tokens :: "nat \<Rightarrow> u8 list list \<Rightarrow> (u8 list, u32) btmap \<Rightarrow> native_tokenizer_error + unit" where
  "check_tokens index [] seen = Inr ()"
| "check_tokens index (token # tokens) seen =
    rbind (len_u32 Tk_Overflow index) (\<lambda>i.
    if token = [] then Inl (Tk_EmptyToken i)
    else case bt_get seen token of
      Some first \<Rightarrow> Inl (Tk_DuplicateToken first i)
    | None \<Rightarrow> check_tokens (Suc index) tokens (bt_insert token i seen))"

definition check_special :: "u32 \<Rightarrow> u32 option \<Rightarrow> native_tokenizer_error + unit" where
  "check_special token_count special =
    (case special of
      None \<Rightarrow> Inr ()
    | Some i \<Rightarrow> if token_count \<le> i then Inl (Tk_InvalidSpecialToken i) else Inr ())"

text \<open>\<open>for (index, score) in score_bits.iter().enumerate()\<close>, with \<open>token_types[index]\<close> alongside.\<close>

fun check_scores :: "nat \<Rightarrow> u32 list \<Rightarrow> i32 list \<Rightarrow> native_tokenizer_error + unit" where
  "check_scores index (score # scores) (ty # tys) =
    rbind (len_u32 Tk_Overflow index) (\<lambda>i.
    if \<not> f32_finite score then Inl (Tk_NonFiniteScore i)
    else if \<not> token_type_ok ty then Inl (Tk_InvalidTokenType i ty)
    else check_scores (Suc index) scores tys)"
| "check_scores index _ _ = Inr ()"

fun check_merges :: "string list \<Rightarrow> string list \<Rightarrow> native_tokenizer_error + unit" where
  "check_merges seen [] = Inr ()"
| "check_merges seen (m # ms) =
    (case split_once_space m of
      None \<Rightarrow> Inl (Tk_InvalidBpeMerge m)
    | Some (left, right) \<Rightarrow>
        if left = [] \<or> right = [] \<or> CHR '' '' \<in> set right then Inl (Tk_InvalidBpeMerge m)
        else if m \<in> set seen then Inl (Tk_DuplicateBpeMerge m)
        else check_merges (m # seen) ms)"

definition validate_tokenizer :: "native_tokenizer \<Rightarrow> native_tokenizer_error + unit" where
  "validate_tokenizer t =
    (if tk_tokens t = [] then Inl Tk_EmptyVocabulary
     else
       rbind (check_tokens 0 (tk_tokens t) []) (\<lambda>_.
       rbind (len_u32 Tk_Overflow (length (tk_tokens t))) (\<lambda>token_count.
       rbind (check_all (check_special token_count) [tk_bos t, tk_eos t, tk_unknown t]) (\<lambda>_.
       case tk_model t of
         Vocabulary \<Rightarrow> Inr ()
       | LlamaSpm scores types _ _ _ \<Rightarrow>
           if length scores \<noteq> length (tk_tokens t)
           then Inl (Tk_InvalidScoreCount (length (tk_tokens t)) (length scores))
           else if length types \<noteq> length (tk_tokens t)
           then Inl (Tk_InvalidTokenTypeCount (length (tk_tokens t)) (length types))
           else check_scores 0 scores types
       | Gpt2Bpe merges _ _ \<Rightarrow> check_merges [] merges))))"

section \<open>The payload\<close>

definition special_word :: "u32 option \<Rightarrow> u32" where
  "special_word special = (case special of None \<Rightarrow> NO_SPECIAL_TOKEN | Some i \<Rightarrow> i)"

definition decode_special :: "u32 \<Rightarrow> u32 option" where
  "decode_special v = (if v \<noteq> NO_SPECIAL_TOKEN then Some v else None)"

fun model_tag :: "native_tokenizer_model \<Rightarrow> u32" where
  "model_tag Vocabulary = 0"
| "model_tag (LlamaSpm _ _ _ _ _) = 1"
| "model_tag (Gpt2Bpe _ _ _) = 2"

definition spm_flags :: "bool \<Rightarrow> bool \<Rightarrow> bool \<Rightarrow> u32" where
  "spm_flags space bos eos =
    (if space then 1 else 0) OR (if bos then 2 else 0) OR (if eos then 4 else 0)"

fun encode_model :: "native_tokenizer_model \<Rightarrow> native_tokenizer_error enc" where
  "encode_model Vocabulary = push_raw []"
| "encode_model (LlamaSpm scores types space bos eos) =
    rbind (len_u32 Tk_Overflow (length scores)) (\<lambda>score_count.
    eseq (push_u32 score_count)
    (eseq (push_each push_u32 scores)
    (rbind (len_u32 Tk_Overflow (length types)) (\<lambda>type_count.
    eseq (push_u32 type_count)
    (eseq (push_each push_u32 types)
    (push_u32 (spm_flags space bos eos)))))))"
| "encode_model (Gpt2Bpe merges bos eos) =
    rbind (len_u32 Tk_Overflow (length merges)) (\<lambda>merge_count.
    eseq (push_u32 merge_count)
    (eseq (push_each (push_string Tk_Overflow) merges)
    (push_u32 (spm_flags False bos eos))))"

definition tokenizer_payload :: "native_tokenizer \<Rightarrow> native_tokenizer_error enc" where
  "tokenizer_payload t =
    rbind (len_u32 Tk_Overflow (length (tk_tokens t))) (\<lambda>token_count.
    eseq (push_raw native_tokenizer_magic)
    (eseq (push_u16 32)
    (eseq (push_u16 0)
    (eseq (push_u16 3)
    (eseq (push_u32 token_count)
    (eseq (push_u32 (special_word (tk_bos t)))
    (eseq (push_u32 (special_word (tk_eos t)))
    (eseq (push_u32 (special_word (tk_unknown t)))
    (eseq (push_u32 (model_tag (tk_model t)))
    (eseq (push_each (push_bytes Tk_Overflow) (tk_tokens t))
    (encode_model (tk_model t))))))))))))"

definition encode_native_tokenizer :: "native_tokenizer \<Rightarrow> native_tokenizer_error enc" where
  "encode_native_tokenizer t =
    rbind (validate_tokenizer t) (\<lambda>_.
    rbind (tokenizer_payload t) (\<lambda>payload.
    map_err Tk_Descriptor (encode_descriptor_frame
      \<lparr>df_kind = FrameTokenizer, df_format = native_tokenizer_format, df_payload = payload\<rparr>)))"

definition decode_model :: "u16 \<Rightarrow> u32 \<Rightarrow> (native_tokenizer_error, native_tokenizer_model) dec" where
  "decode_model mn tag =
    (if mn \<le> 1 then dret Vocabulary
     else if tag = 0 then dret Vocabulary
     else if tag = 1 then
       dbind (take_u32 tk_cerr) (\<lambda>score_count.
       dbind (take_n (unat score_count) (take_u32 tk_cerr)) (\<lambda>scores.
       dbind (take_u32 tk_cerr) (\<lambda>type_count.
       dbind (take_n (unat type_count) (take_u32 tk_cerr)) (\<lambda>types.
       dbind (take_u32 tk_cerr) (\<lambda>flags.
       if flags AND NOT 7 \<noteq> 0 then dfail Tk_NonCanonicalEncoding
       else dret (LlamaSpm scores types (flags AND 1 \<noteq> 0) (flags AND 2 \<noteq> 0) (flags AND 4 \<noteq> 0)))))))
     else if tag = 2 then
       if mn < 3 then dfail Tk_NonCanonicalEncoding
       else
         dbind (take_u32 tk_cerr) (\<lambda>merge_count.
         dbind (take_n (unat merge_count) (take_string tk_cerr Tk_InvalidUtf8)) (\<lambda>merges.
         dbind (take_u32 tk_cerr) (\<lambda>flags.
         if flags AND NOT 6 \<noteq> 0 then dfail Tk_NonCanonicalEncoding
         else dret (Gpt2Bpe merges (flags AND 2 \<noteq> 0) (flags AND 4 \<noteq> 0)))))
     else dfail (Tk_InvalidTokenizerModel tag))"

definition decode_tokenizer_body :: "(native_tokenizer_error, native_tokenizer) dec" where
  "decode_tokenizer_body =
    dbind (take_bytes tk_cerr 6) (\<lambda>magic.
    if magic \<noteq> native_tokenizer_magic then dfail Tk_InvalidMagic
    else
      dbind (take_u16 tk_cerr) (\<lambda>header_len.
      if unat header_len \<noteq> 32 then dfail Tk_InvalidHeader
      else
        dbind (take_u16 tk_cerr) (\<lambda>mj.
        dbind (take_u16 tk_cerr) (\<lambda>mn.
        if mj \<noteq> 0 \<or> 3 < mn then dfail (Tk_UnsupportedVersion mj mn)
        else
          dbind (take_u32 tk_cerr) (\<lambda>token_count.
          dbind (take_u32 tk_cerr) (\<lambda>bos.
          dbind (take_u32 tk_cerr) (\<lambda>eos.
          dbind (take_u32 tk_cerr) (\<lambda>unknown.
          dbind (take_u32 tk_cerr) (\<lambda>tag.
          if mn \<le> 1 \<and> tag \<noteq> 0 then dfail Tk_NonCanonicalEncoding
          else
            dbind (take_n (unat token_count) (take_blob tk_cerr)) (\<lambda>tokens.
            dbind (decode_model mn tag) (\<lambda>model.
            dret \<lparr>tk_tokens = tokens, tk_bos = decode_special bos, tk_eos = decode_special eos,
              tk_unknown = decode_special unknown, tk_model = model\<rparr>)))))))))))"

definition decode_native_tokenizer :: "u8 list \<Rightarrow> native_tokenizer_error + native_tokenizer" where
  "decode_native_tokenizer bytes =
    rbind (map_err Tk_Descriptor (decode_descriptor_frame bytes)) (\<lambda>f.
    if df_kind f \<noteq> FrameTokenizer then Inl (Tk_WrongDescriptorKind (df_kind f))
    else if df_format f \<noteq> native_tokenizer_format \<and> df_format f \<noteq> legacy_native_tokenizer_format
    then Inl (Tk_WrongFormat (df_format f))
    else
      rbind (decode_all Tk_NonCanonicalEncoding decode_tokenizer_body (df_payload f)) (\<lambda>t.
      rbind (validate_tokenizer t) (\<lambda>_. Inr t)))"

definition push_native_tokenizer_section :: "native_tokenizer \<Rightarrow> (capsule_builder, native_tokenizer_error, unit) op" where
  "push_native_tokenizer_section t =
    sbind (slift (encode_native_tokenizer t)) (\<lambda>bytes. smodify (push_embedded SecTokenizer bytes))"

section \<open>Generative programs\<close>

definition resolve_generative_chunk :: "chunk_view \<Rightarrow> content_store \<Rightarrow> native_generative_error + u8 list" where
  "resolve_generative_chunk chunk store =
    (case cw_storage chunk of
      StoEmbedded bytes \<Rightarrow> Inr bytes
    | StoExternal \<Rightarrow>
        rbind (ok_or (Ng_MissingExternalContent (cw_hash chunk)) (store (cw_hash chunk))) (\<lambda>bytes.
        rbind (len_u64 Ng_Overflow (length bytes)) (\<lambda>actual.
        if actual \<noteq> cw_logical_len chunk then Inl (Ng_ExternalLengthMismatch (cw_logical_len chunk) actual)
        else if sha256 bytes \<noteq> cw_hash chunk then Inl (Ng_ExternalIntegrityMismatch (cw_hash chunk))
        else Inr bytes)))"

definition load_native_generative_program ::
    "capsule_view \<Rightarrow> content_store \<Rightarrow> native_generative_error + native_generative_program" where
  "load_native_generative_program v store =
    rbind (map_err Ng_Program (load_native_program v store)) (\<lambda>program.
    rbind (case filter (\<lambda>c. cw_kind c = SecTokenizer) (vw_chunks v) of
        [] \<Rightarrow> Inl Ng_MissingTokenizer
      | [c] \<Rightarrow> Inr c
      | _ \<Rightarrow> Inl Ng_MultipleTokenizers) (\<lambda>chunk.
    rbind (resolve_generative_chunk chunk store) (\<lambda>bytes.
    rbind (map_err Ng_Tokenizer (decode_native_tokenizer bytes)) (\<lambda>tokenizer.
    rbind (case filter (\<lambda>c. cw_kind c = SecGenerativeManifest) (vw_chunks v) of
        [] \<Rightarrow> Inr None
      | [c] \<Rightarrow>
          rbind (resolve_generative_chunk c store) (\<lambda>bytes.
          rbind (map_err Ng_Manifest (decode_native_generative_manifest bytes)) (\<lambda>m. Inr (Some m)))
      | _ \<Rightarrow> Inl Ng_MultipleGenerativeManifests) (\<lambda>manifest.
    Inr \<lparr>gp_program = program, gp_tokenizer = tokenizer, gp_manifest = manifest\<rparr>)))))"

end
