(* ===== verification/Capsule_Integrity.thy ===== *)
theory Capsule_Integrity
  imports Capsule
begin

text \<open>
  What the capsule container promises. First the laws of the two buffer operations and of the
  three fixed-layout records (\<open>header_bytes\<close>, \<open>manifest_bytes\<close>, \<open>entry_bytes\<close> are their byte images, read
  from left to right), each in both directions: what the encoder wrote is decoded, and what is
  decoded is the encoding of the result. Then the layout: the reader's walk over the index follows
  the writer's. SHA-256 stays opaque throughout, except that a digest has 32 bytes.
\<close>

section \<open>Buffers\<close>

named_theorems buffer_simps \<open>reading and writing buffers at absolute offsets\<close>

lemma length_subslice [simp]: "length (subslice off n xs) = min n (length xs - off)"
  by (simp add: subslice_def)

lemma subslice_skip [buffer_simps]: "length a \<le> off \<Longrightarrow> subslice off n (a @ b) = subslice (off - length a) n b"
  by (simp add: subslice_def)

lemma subslice_hit [buffer_simps]: "n = length a \<Longrightarrow> subslice 0 n (a @ b) = a" "n = length a \<Longrightarrow> subslice 0 n a = a"
  by (simp_all add: subslice_def)

lemma subslice_slice: "k + n \<le> m \<Longrightarrow> subslice k n (subslice b m xs) = subslice (b + k) n xs"
  by (simp add: subslice_def take_drop min_def add.commute add.left_commute)

lemma subslice_split: "subslice off (m + n) xs = subslice off m xs @ subslice (off + m) n xs"
  by (simp add: subslice_def take_add add.commute)

lemma subslice_take: "off + n \<le> m \<Longrightarrow> subslice off n (take m xs) = subslice off n xs"
  by (simp add: subslice_def drop_take min_def)

lemma subslice_one: "off < length xs \<Longrightarrow> subslice off (Suc 0) xs = [xs ! off]"
  by (simp add: subslice_def Cons_nth_drop_Suc [symmetric])

lemma length_put_bytes [simp]:
  "off + length bs \<le> length dst \<Longrightarrow> length (put_bytes dst off bs) = length dst"
  by (simp add: put_bytes_def)

lemma subslice_put_bytes: "off + length bs \<le> length dst \<Longrightarrow> subslice off (length bs) (put_bytes dst off bs) = bs"
  by (simp add: subslice_def put_bytes_def)

lemma take_put_bytes: "n \<le> off \<Longrightarrow> off \<le> length dst \<Longrightarrow> take n (put_bytes dst off bs) = take n dst"
  by (simp add: put_bytes_def min_def)

text \<open>Filling a zeroed buffer from left to right.\<close>

lemma put_bytes_skip [buffer_simps]:
  "length a \<le> off \<Longrightarrow> put_bytes (a @ b) off bs = a @ put_bytes b (off - length a) bs"
  by (simp add: put_bytes_def)

lemma put_bytes_start [buffer_simps]:
  "length bs \<le> n \<Longrightarrow> put_bytes (replicate n 0) 0 bs = bs @ replicate (n - length bs) 0"
  by (simp add: put_bytes_def)

lemma get_range_Inr: "get_range src off n = Inr bs \<longleftrightarrow> off + n \<le> length src \<and> bs = subslice off n src"
  by (auto simp: get_range_def)

lemma read_Inr:
  "read_u16 src off = Inr v2 \<longleftrightarrow> off + 2 \<le> length src \<and> subslice off 2 src = u16_le v2"
  "read_u32 src off = Inr v4 \<longleftrightarrow> off + 4 \<le> length src \<and> subslice off 4 src = u32_le v4"
  "read_u64 src off = Inr v8 \<longleftrightarrow> off + 8 \<le> length src \<and> subslice off 8 src = u64_le v8"
  by (auto simp: read_u16_def read_u32_def read_u64_def get_range_Inr)

lemma usize_checked_Inr [simp]: "usize_checked n = Inr m \<longleftrightarrow> int n < usize_bound \<and> m = n"
  by (auto simp: usize_checked_def)

lemma u64_try_from_Inr [simp]: "u64_try_from n = Inr w \<longleftrightarrow> int n < usize_bound \<and> w = of_nat n"
  by (auto simp: u64_try_from_def usize_bound_def)

lemma unat_of_usize: "int n < usize_bound \<Longrightarrow> unat (of_nat n :: u64) = n"
  by (simp add: usize_bound_def unat_of_nat)

lemma of_nat_eq_u64: "int n < usize_bound \<Longrightarrow> w = (of_nat n :: u64) \<longleftrightarrow> unat w = n"
  using unat_of_usize by auto

definition aligned :: "nat \<Rightarrow> nat" where
  "aligned n = (n + 7) div 8 * 8"

lemma aligned_ge: "n \<le> aligned n"
  unfolding aligned_def using div_mult_mod_eq [of "n + 7" 8] mod_less_divisor [of 8 "n + 7"] by linarith

lemma aligned_eq: "8 dvd n \<Longrightarrow> aligned n = n"
  by (auto simp: aligned_def elim!: dvdE)

lemma align_up_Inr [simp]: "align_up n ALIGNMENT = Inr m \<longleftrightarrow> int (n + 7) < usize_bound \<and> m = aligned n"
  by (auto simp: align_up_def ALIGNMENT_def aligned_def)

lemma checked_range_Inr:
  "checked_range total_len off len = Inr r \<longleftrightarrow>
    int (unat off + unat len) < usize_bound \<and> unat off + unat len \<le> total_len
    \<and> r = (unat off, unat off + unat len)"
  by (auto simp: checked_range_def)

section \<open>The fixed-layout records\<close>

lemma section_kind_Inr [simp]: "section_kind_try_from v = Inr k \<longleftrightarrow> v = section_tag k"
  by (cases k) (auto simp: section_kind_try_from_def)

lemma capsule_kind_Inr [simp]: "capsule_kind_try_from v = Inr k \<longleftrightarrow> v = capsule_kind_tag k"
  by (cases k) (auto simp: capsule_kind_try_from_def)

definition header_bytes :: "header_fields \<Rightarrow> u8 list" where
  "header_bytes f =
    NCC97_MAGIC @ u16_le 112
    @ u16_le (cv_major (nc_capsule (hd_contract f))) @ u16_le (cv_minor (nc_capsule (hd_contract f)))
    @ u16_le (major (nc_ir (hd_contract f))) @ u16_le (minor (nc_ir (hd_contract f))) @ u32_le 0
    @ u64_le (hd_manifest_offset f) @ u64_le (hd_manifest_len f) @ u64_le (hd_index_offset f)
    @ u64_le (hd_index_len f) @ u64_le (hd_payload_offset f) @ u32_le (hd_chunk_count f) @ u32_le 0
    @ hd_root_hash f @ replicate 12 0"

lemma length_magic [simp]: "length NCC97_MAGIC = 6"
  by (simp add: NCC97_MAGIC_def)

lemma length_header_bytes: "length (hd_root_hash f) = 32 \<Longrightarrow> length (header_bytes f) = 112"
  by (simp add: header_bytes_def)

lemma encode_header_bytes:
  "length dst = HEADER_LEN \<Longrightarrow> length (hd_root_hash f) = 32 \<Longrightarrow> encode_header dst f = header_bytes f"
  by (simp add: encode_header_def header_bytes_def HEADER_LEN_def Let_def put_u16_def put_u32_def put_u64_def
      buffer_simps)

lemma decode_header_bytes:
  assumes "length (hd_root_hash f) = 32"
  shows "decode_header (header_bytes f @ rest) = Inr f"
  using assms
  by (simp add: decode_header_def header_bytes_def HEADER_LEN_def read_u16_def read_u32_def read_u64_def
      get_range_def buffer_simps)

text \<open>A digest or identity that is all zero, as the source tests it.\<close>

lemma zeros_iff: "(\<forall>b \<in> set xs. b = 0) \<longleftrightarrow> xs = replicate (length xs) 0"
  by (metis in_set_replicate replicate_eqI)

lemma unat_eq_112: "unat (w :: u16) = 112 \<longleftrightarrow> w = 112"
  using word_unat_eq_iff [of w 112] by simp

lemma decoded_header:
  assumes "decode_header bytes = Inr f"
  shows "112 \<le> length bytes" and "length (hd_root_hash f) = 32" and "take 112 bytes = header_bytes f"
proof -
  let ?at = "\<lambda>k n. subslice k n bytes"
  have len: "112 \<le> length bytes" and root: "hd_root_hash f = ?at 68 32"
    and ints: "?at 0 6 = NCC97_MAGIC" "?at 6 2 = u16_le 112"
      "?at 8 2 = u16_le (cv_major (nc_capsule (hd_contract f)))" "?at 10 2 = u16_le (cv_minor (nc_capsule (hd_contract f)))"
      "?at 12 2 = u16_le (major (nc_ir (hd_contract f)))" "?at 14 2 = u16_le (minor (nc_ir (hd_contract f)))"
      "?at 16 4 = u32_le 0" "?at 20 8 = u64_le (hd_manifest_offset f)" "?at 28 8 = u64_le (hd_manifest_len f)"
      "?at 36 8 = u64_le (hd_index_offset f)" "?at 44 8 = u64_le (hd_index_len f)"
      "?at 52 8 = u64_le (hd_payload_offset f)" "?at 60 4 = u32_le (hd_chunk_count f)" "?at 64 4 = u32_le 0"
    and pad: "\<forall>b \<in> set (?at 100 12). b = 0"
    using assms
    by (auto simp: decode_header_def HEADER_LEN_def read_Inr unat_eq_112 not_less split: if_splits)
  show "112 \<le> length bytes" by (rule len)
  show "length (hd_root_hash f) = 32" using len by (simp add: root)
  have "take 112 bytes = subslice 0 (6 + (2 + (2 + (2 + (2 + (2 + (4 + (8 + (8 + (8 + (8 + (8 + (4 + (4 + (32 + 12)))))))))))))))
      bytes"
    by (simp add: subslice_def)
  also have "\<dots> = ?at 0 6 @ ?at 6 2 @ ?at 8 2 @ ?at 10 2 @ ?at 12 2 @ ?at 14 2 @ ?at 16 4 @ ?at 20 8 @ ?at 28 8
      @ ?at 36 8 @ ?at 44 8 @ ?at 52 8 @ ?at 60 4 @ ?at 64 4 @ ?at 68 32 @ ?at 100 12"
    unfolding subslice_split by simp
  also have "\<dots> = header_bytes f"
    using pad len unfolding header_bytes_def ints root zeros_iff by simp
  finally show "take 112 bytes = header_bytes f" .
qed

definition manifest_bytes :: "capsule_kind \<Rightarrow> u8 list \<Rightarrow> digest option \<Rightarrow> u8 list" where
  "manifest_bytes kind capsule_id base_root =
    capsule_kind_tag kind # (if base_root = None then 0 else 1) # replicate 6 0 @ capsule_id
    @ (case base_root of None \<Rightarrow> replicate 32 0 | Some root \<Rightarrow> root)"

definition manifest_typed :: "u8 list \<Rightarrow> digest option \<Rightarrow> bool" where
  "manifest_typed capsule_id base_root \<longleftrightarrow>
    length capsule_id = 16 \<and> pred_option (\<lambda>root. length root = 32) base_root"

lemma length_manifest_bytes: "manifest_typed i r \<Longrightarrow> length (manifest_bytes k i r) = 56"
  by (cases r) (simp_all add: manifest_bytes_def manifest_typed_def)

lemma encode_manifest_bytes:
  assumes "manifest_typed i r"
  shows "encode_manifest k i r = manifest_bytes k i r"
proof -
  have zeros: "replicate MANIFEST_LEN (0 :: u8) = 0 # 0 # replicate 6 0 @ replicate 48 0"
    by (simp add: MANIFEST_LEN_def numeral_eq_Suc)
  have skip2: "put_bytes (a # b # xs) off bs = a # b # put_bytes xs (off - 2) bs" if "2 \<le> off" for a b xs off bs
    using put_bytes_skip [of "[a, b]" off xs bs] that by (simp add: numeral_2_eq_2)
  show ?thesis
    using assms
    by (cases r) (simp_all add: encode_manifest_def manifest_bytes_def manifest_typed_def zeros Let_def
        MANIFEST_FLAG_HAS_BASE_def skip2 buffer_simps)
qed

lemma flag_bits: "flags AND - 2 = 0 \<longleftrightarrow> flags = 0 \<or> flags = 1" "flags AND 1 = 0 \<longleftrightarrow> even flags"
  for flags :: "'n::len word"
proof -
  have "flags = 0 \<or> flags = 1" if clear: "flags AND NOT 1 = 0"
  proof -
    have none: "\<not> bit flags n" if "n \<noteq> 0" for n
      using arg_cong [OF clear, of "\<lambda>w. bit w n"] that bit_imp_le_length [of flags n]
      by (simp add: bit_and_iff bit_not_iff bit_1_iff del: bit.compl_one)
    have "flags = (if odd flags then 1 else 0)"
    proof (rule bit_eqI)
      fix n
      show "bit flags n \<longleftrightarrow> bit (if odd flags then 1 else 0 :: 'n word) n"
        using none [of n] by (cases "n = 0") (simp_all add: bit_0 bit_1_iff)
    qed
    then show ?thesis by (cases "odd flags") simp_all
  qed
  then show "flags AND - 2 = 0 \<longleftrightarrow> flags = 0 \<or> flags = 1" by auto
  show "flags AND 1 = 0 \<longleftrightarrow> even flags" by (simp add: and_one_eq even_iff_mod_2_eq_zero)
qed

lemma decode_manifest_bytes:
  "manifest_typed i r
    \<Longrightarrow> decode_manifest (manifest_bytes k i r) = Inr \<lparr>mf_kind = k, mf_capsule_id = i, mf_base_root = r\<rparr>"
proof -
  assume typed: "manifest_typed i r"
  have two: "subslice off n (a # b # xs) = subslice (off - 2) n xs" if "2 \<le> off" for off n and a b :: u8 and xs
    using subslice_skip [of "[a, b]" off n xs] that by (simp add: numeral_2_eq_2)
  from typed show ?thesis
    by (cases r) (simp_all add: decode_manifest_def length_manifest_bytes MANIFEST_LEN_def
        manifest_typed_def manifest_bytes_def two buffer_simps MANIFEST_FLAG_HAS_BASE_def flag_bits)
qed

lemma manifest_bytes_inj:
  assumes "manifest_bytes k i r = manifest_bytes k' i' r'" and "manifest_typed i r" and "manifest_typed i' r'"
  shows "k = k' \<and> i = i' \<and> r = r'"
  using decode_manifest_bytes [OF assms(2), of k] decode_manifest_bytes [OF assms(3), of k']
  unfolding assms(1) by simp

lemma decoded_manifest:
  assumes "decode_manifest bytes = Inr m"
  shows "bytes = manifest_bytes (mf_kind m) (mf_capsule_id m) (mf_base_root m)"
    and "manifest_typed (mf_capsule_id m) (mf_base_root m)"
proof -
  have len: "length bytes = 56" and tag: "bytes ! 0 = capsule_kind_tag (mf_kind m)"
    and flag: "bytes ! 1 = 0 \<or> bytes ! 1 = 1" and pad: "\<forall>b \<in> set (subslice 2 6 bytes). b = 0"
    and ident: "mf_capsule_id m = subslice 8 16 bytes"
    and root: "mf_base_root m = (if bytes ! 1 = 1 then Some (subslice 24 32 bytes) else None)"
    and base: "bytes ! 1 \<noteq> 1 \<Longrightarrow> \<forall>b \<in> set (subslice 24 32 bytes). b = 0"
    using assms
    by (auto simp: decode_manifest_def MANIFEST_LEN_def MANIFEST_FLAG_HAS_BASE_def flag_bits Let_def
        split: if_splits)
  have "bytes = subslice 0 (1 + (1 + (6 + (16 + 32)))) bytes" using len by (simp add: subslice_def)
  also have "\<dots> = subslice 0 1 bytes @ subslice 1 1 bytes @ subslice 2 6 bytes @ subslice 8 16 bytes
      @ subslice 24 32 bytes"
    unfolding subslice_split by (simp add: numeral_2_eq_2)
  also have "\<dots> = bytes ! 0 # bytes ! 1 # subslice 2 6 bytes @ subslice 8 16 bytes @ subslice 24 32 bytes"
    using len by (simp add: subslice_one)
  finally show "bytes = manifest_bytes (mf_kind m) (mf_capsule_id m) (mf_base_root m)"
    using tag flag pad base root ident len by (auto simp: manifest_bytes_def zeros_iff)
  show "manifest_typed (mf_capsule_id m) (mf_base_root m)"
    using len by (simp add: manifest_typed_def ident root)
qed

definition entry_bytes :: "index_entry \<Rightarrow> u8 list" where
  "entry_bytes e = u16_le (section_tag (ie_kind e)) @ u16_le (ie_flags e) @ u32_le 0
    @ u64_le (ie_logical_len e) @ u64_le (ie_offset e) @ ie_hash e"

abbreviation entry_typed :: "index_entry \<Rightarrow> bool" where
  "entry_typed e \<equiv> length (ie_hash e) = 32"

definition index_bytes :: "index_entry list \<Rightarrow> u8 list" where
  "index_bytes es = concat (map entry_bytes es)"

lemma length_entry_bytes [simp]: "entry_typed e \<Longrightarrow> length (entry_bytes e) = 56"
  by (simp add: entry_bytes_def)

lemma length_index_bytes: "\<forall>e \<in> set es. entry_typed e \<Longrightarrow> length (index_bytes es) = 56 * length es"
  by (induction es) (simp_all add: index_bytes_def)

lemma encode_entries_bytes:
  "length pre = i * 56 \<Longrightarrow> \<forall>e \<in> set es. entry_typed e
    \<Longrightarrow> encode_entries i es (pre @ replicate (length es * 56) 0) = pre @ index_bytes es"
proof (induction es arbitrary: i pre)
  case Nil
  then show ?case by (simp add: index_bytes_def)
next
  case (Cons e es)
  have "encode_entries i (e # es) (pre @ replicate (length (e # es) * 56) 0) =
      encode_entries (Suc i) es ((pre @ entry_bytes e) @ replicate (length es * 56) 0)"
    using Cons.prems
    by (simp add: Let_def INDEX_ENTRY_LEN_def put_u16_def put_u32_def put_u64_def buffer_simps entry_bytes_def)
  also have "\<dots> = (pre @ entry_bytes e) @ index_bytes es"
    using Cons.prems by (intro Cons.IH) simp_all
  finally show ?case by (simp add: index_bytes_def)
qed

lemma encode_index_bytes: "\<forall>e \<in> set es. entry_typed e \<Longrightarrow> encode_index es = index_bytes es"
  using encode_entries_bytes [of "[]" 0 es] by (simp add: encode_index_def INDEX_ENTRY_LEN_def)

lemma decode_entry_Inr:
  "decode_entry bytes i = Inr e \<and> i * 56 + 56 \<le> length bytes
    \<longleftrightarrow> i * 56 + 56 \<le> length bytes \<and> entry_typed e \<and> subslice (i * 56) 56 bytes = entry_bytes e"
proof -
  let ?at = "\<lambda>k n. subslice (i * 56 + k) n bytes"
  have "subslice (i * 56) 56 bytes = subslice (i * 56) (2 + (2 + (4 + (8 + (8 + 32))))) bytes" by simp
  also have "\<dots> = ?at 0 2 @ ?at 2 2 @ ?at 4 4 @ ?at 8 8 @ ?at 16 8 @ ?at 24 32"
    unfolding subslice_split add.assoc by simp
  finally have "subslice (i * 56) 56 bytes = entry_bytes e \<longleftrightarrow>
      ?at 0 2 = u16_le (section_tag (ie_kind e)) \<and> ?at 2 2 = u16_le (ie_flags e) \<and> ?at 4 4 = u32_le 0
      \<and> ?at 8 8 = u64_le (ie_logical_len e) \<and> ?at 16 8 = u64_le (ie_offset e) \<and> ?at 24 32 = ie_hash e"
    if "i * 56 + 56 \<le> length bytes"
    using that by (simp add: entry_bytes_def)
  then show ?thesis
    by (cases e) (auto simp: decode_entry_def INDEX_ENTRY_LEN_def Let_def read_Inr)
qed

lemma decode_entries_Inr:
  "length bytes = (i + k) * 56
    \<Longrightarrow> decode_entries bytes [i ..< i + k] = Inr es \<longleftrightarrow>
      length es = k \<and> (\<forall>e \<in> set es. entry_typed e) \<and> drop (i * 56) bytes = index_bytes es"
proof (induction k arbitrary: i es)
  case 0
  then show ?case by (auto simp: index_bytes_def)
next
  case (Suc k)
  have room: "i * 56 + 56 \<le> length bytes" using Suc.prems by simp
  have parts: "drop (i * 56) bytes = subslice (i * 56) 56 bytes @ drop (Suc i * 56) bytes"
    by (simp add: subslice_def add.commute flip: drop_drop)
  have entry: "decode_entry bytes i = Inr e \<longleftrightarrow> entry_typed e \<and> subslice (i * 56) 56 bytes = entry_bytes e" for e
    using decode_entry_Inr [of bytes i e] room by blast
  have rest: "decode_entries bytes [Suc i ..< i + Suc k] = Inr es' \<longleftrightarrow>
      length es' = k \<and> (\<forall>e \<in> set es'. entry_typed e) \<and> drop (Suc i * 56) bytes = index_bytes es'" for es'
    using Suc.IH [of "Suc i" es'] Suc.prems by simp
  have "decode_entries bytes [i ..< i + Suc k] = Inr es \<longleftrightarrow>
      (\<exists>e es'. es = e # es' \<and> decode_entry bytes i = Inr e \<and> decode_entries bytes [Suc i ..< i + Suc k] = Inr es')"
    by (simp add: upt_conv_Cons del: upt_Suc) blast
  also have "\<dots> \<longleftrightarrow> length es = Suc k \<and> (\<forall>e \<in> set es. entry_typed e) \<and> drop (i * 56) bytes = index_bytes es"
    unfolding entry rest parts using room by (cases es) (auto simp: index_bytes_def append_eq_append_conv)
  finally show ?case .
qed

lemma decode_index_Inr:
  "decode_index bytes count = Inr es \<longleftrightarrow>
    length es = unat count \<and> (\<forall>e \<in> set es. entry_typed e) \<and> bytes = index_bytes es"
proof -
  have small: "int (unat count * 56) < usize_bound"
    using uint_u32_less [of count] by (simp add: usize_bound_def del: uint_u32_less)
  have "decode_index bytes count = Inr es \<longleftrightarrow>
      length bytes = unat count * 56 \<and> decode_entries bytes [0 ..< unat count] = Inr es"
    using small by (simp add: decode_index_def INDEX_ENTRY_LEN_def usize_checked_def)
  also have "\<dots> \<longleftrightarrow> length bytes = unat count * 56
      \<and> length es = unat count \<and> (\<forall>e \<in> set es. entry_typed e) \<and> bytes = index_bytes es"
    using decode_entries_Inr [of bytes 0 "unat count" es] by auto
  finally show ?thesis by (auto simp: length_index_bytes)
qed

lemma index_bytes_inj:
  assumes "index_bytes es1 = index_bytes es2" and "\<forall>e \<in> set es1. entry_typed e" and "\<forall>e \<in> set es2. entry_typed e"
    and "int (length es1) < 2 ^ 32" and "int (length es2) < 2 ^ 32"
  shows "es1 = es2"
proof -
  have "length es1 = length es2"
    using arg_cong [OF assms(1), of length] assms(2,3) by (simp add: length_index_bytes)
  then have "decode_index (index_bytes es1) (of_nat (length es1)) = Inr es1"
    "decode_index (index_bytes es1) (of_nat (length es1)) = Inr es2"
    using assms by (simp_all add: decode_index_Inr unat_len)
  then show ?thesis by simp
qed

section \<open>Layout\<close>

text \<open>The view of a chunk that was written.\<close>

definition chunk_view_of :: "chunk_spec \<Rightarrow> chunk_view" where
  "chunk_view_of c = (case sp_source c of
    SrcEmbedded bytes \<Rightarrow> \<lparr>cw_kind = sp_kind c, cw_logical_len = of_nat (length bytes), cw_hash = sha256 bytes,
      cw_storage = StoEmbedded bytes\<rparr>
  | SrcExternal logical_len hash \<Rightarrow> \<lparr>cw_kind = sp_kind c, cw_logical_len = logical_len, cw_hash = hash,
      cw_storage = StoExternal\<rparr>)"

definition chunk_typed :: "chunk_spec \<Rightarrow> bool" where
  "chunk_typed c = (case sp_source c of SrcEmbedded _ \<Rightarrow> True | SrcExternal _ hash \<Rightarrow> length hash = 32)"

text \<open>Each embedded chunk stands in \<open>bytes\<close> at the offset its entry names.\<close>

fun placed :: "u8 list \<Rightarrow> chunk_spec list \<Rightarrow> index_entry list \<Rightarrow> bool" where
  "placed bytes (c # cs) (e # es) \<longleftrightarrow>
    (case sp_source c of SrcEmbedded bs \<Rightarrow> subslice (unat (ie_offset e)) (length bs) bytes = bs | _ \<Rightarrow> True)
    \<and> placed bytes cs es"
| "placed bytes _ _ \<longleftrightarrow> True"

lemma lay_chunks_shape:
  "lay_chunks cs cur fl = Inr (es, len) \<Longrightarrow>
    length es = length cs \<and> fl \<le> len \<and> ((\<forall>c \<in> set cs. chunk_typed c) \<longrightarrow> (\<forall>e \<in> set es. entry_typed e))"
proof (induction cs arbitrary: cur fl es len)
  case Nil
  then show ?case by simp
next
  case (Cons c cs)
  show ?case
  proof (cases "sp_source c")
    case (SrcEmbedded bs)
    then show ?thesis using Cons.prems by (auto dest!: Cons.IH)
  next
    case (SrcExternal n h)
    then show ?thesis using Cons.prems by (auto simp: chunk_typed_def dest!: Cons.IH)
  qed
qed

lemma lay_chunks_file_len: "lay_chunks cs cur fl = Inr (es, len) \<Longrightarrow> int fl < usize_bound \<Longrightarrow> int len < usize_bound"
proof (induction cs arbitrary: cur fl es len)
  case Nil
  then show ?case by simp
next
  case (Cons c cs)
  show ?case
  proof (cases "sp_source c")
    case (SrcEmbedded bs)
    then show ?thesis using Cons.prems Cons.IH by (auto simp: max_def split: if_splits)
  next
    case (SrcExternal n h)
    then show ?thesis using Cons.prems Cons.IH by auto
  qed
qed

text \<open>The copy loop puts every chunk where its entry says and touches nothing before the payloads.\<close>

lemma copy_laid:
  "lay_chunks cs cur fl = Inr (es, len) \<Longrightarrow> fl \<le> cur \<Longrightarrow> len \<le> length out
    \<Longrightarrow> \<exists>out'. copy_chunks (zip cs es) out = Inr out' \<and> length out' = length out
      \<and> take cur out' = take cur out \<and> placed out' cs es"
proof (induction cs arbitrary: cur fl es len out)
  case Nil
  then show ?case by simp
next
  case (Cons c cs)
  show ?case
  proof (cases "sp_source c")
    case (SrcExternal n h)
    then show ?thesis using Cons.prems Cons.IH by fastforce
  next
    case (SrcEmbedded bs)
    let ?stop = "cur + length bs"
    from Cons.prems(1) SrcEmbedded obtain e es' where es: "es = e # es'" and off: "ie_offset e = of_nat cur"
      and small: "int ?stop < usize_bound"
      and rest: "lay_chunks cs (aligned ?stop) (max fl ?stop) = Inr (es', len)"
      by (auto simp: ac_simps)
    have at: "unat (ie_offset e) = cur" using small by (simp add: off unat_of_usize)
    have room: "?stop \<le> length out" using lay_chunks_shape [OF rest] Cons.prems(3) by simp
    let ?out = "put_bytes out cur bs"
    have "\<exists>out'. copy_chunks (zip cs es') ?out = Inr out' \<and> length out' = length ?out
        \<and> take (aligned ?stop) out' = take (aligned ?stop) ?out \<and> placed out' cs es'"
      using Cons.prems(2,3) aligned_ge [of ?stop] room by (intro Cons.IH [OF rest]) auto
    then obtain out' where out': "copy_chunks (zip cs es') ?out = Inr out'" "length out' = length out"
      "take (aligned ?stop) out' = take (aligned ?stop) ?out" "placed out' cs es'"
      using room by auto
    have low: "take n out' = take n ?out" if "n \<le> ?stop" for n
      using arg_cong [OF out'(3), of "take n"] that aligned_ge [of ?stop] by (simp add: min_def)
    have "subslice cur (length bs) out' = subslice cur (length bs) (take ?stop out')" by (simp add: subslice_take)
    also have "\<dots> = bs" unfolding low [OF order_refl] using room by (simp add: subslice_take subslice_put_bytes)
    finally have "subslice cur (length bs) out' = bs" .
    moreover have "take cur out' = take cur out" using low [of cur] room by (simp add: take_put_bytes)
    ultimately show ?thesis using out' small by (simp add: SrcEmbedded es at)
  qed
qed

text \<open>The reader's walk over the index follows the layout loop of the writer.\<close>

lemma read_laid:
  "lay_chunks cs cur fl = Inr (es, len) \<Longrightarrow> fl \<le> cur \<Longrightarrow> len \<le> length bytes \<Longrightarrow> placed bytes cs es
    \<Longrightarrow> kind = KindFull \<longrightarrow> (\<forall>c \<in> set cs. \<not> is_external c)
    \<Longrightarrow> read_chunks bytes kind es cur fl = Inr (map chunk_view_of cs, len)"
proof (induction cs arbitrary: cur fl es len)
  case Nil
  then show ?case by simp
next
  case (Cons c cs)
  show ?case
  proof (cases "sp_source c")
    case (SrcExternal n h)
    then show ?thesis using Cons.prems
      by (auto simp: is_external_def chunk_view_of_def CHUNK_FLAG_EXTERNAL_def dest!: Cons.IH)
  next
    case (SrcEmbedded bs)
    let ?stop = "cur + length bs"
    from Cons.prems(1) SrcEmbedded obtain es'
      where es: "es = \<lparr>ie_kind = sp_kind c, ie_flags = 0, ie_logical_len = of_nat (length bs),
          ie_offset = of_nat cur, ie_hash = sha256 bs\<rparr> # es'"
      and small: "int ?stop < usize_bound" "int (?stop + 7) < usize_bound"
      and rest: "lay_chunks cs (aligned ?stop) (max fl ?stop) = Inr (es', len)"
      by (auto simp: ac_simps)
    have words: "unat (of_nat cur :: u64) = cur" "unat (of_nat (length bs) :: u64) = length bs"
      using small(1) by (simp_all add: unat_of_usize)
    have stop: "max fl ?stop = ?stop" using Cons.prems(2) by simp
    have "?stop \<le> length bytes" using lay_chunks_shape [OF rest] Cons.prems(3) by simp
    then have range: "checked_range (length bytes) (of_nat cur) (of_nat (length bs)) = Inr (cur, ?stop)"
      using small(1) by (simp add: checked_range_Inr words)
    have here: "subslice cur (length bs) bytes = bs" and there: "placed bytes cs es'"
      using Cons.prems(4) by (simp_all add: es SrcEmbedded words)
    have up: "align_up ?stop ALIGNMENT = Inr (aligned ?stop)" using small(2) by simp
    have "read_chunks bytes kind es' (aligned ?stop) ?stop = Inr (map chunk_view_of cs, len)"
      using rest there Cons.prems(3,5) aligned_ge [of ?stop] unfolding stop by (intro Cons.IH) auto
    then show ?thesis
      using range up by (simp add: es words here chunk_view_of_def SrcEmbedded CHUNK_FLAG_EXTERNAL_def)
  qed
qed

section \<open>Reading and writing whole capsules\<close>

text \<open>The header of a capsule with \<open>n\<close> chunks, and where its payloads start.\<close>

definition payload_start :: "nat \<Rightarrow> nat" where
  "payload_start n = 168 + 56 * n"

definition header_for :: "native_contract \<Rightarrow> nat \<Rightarrow> digest \<Rightarrow> header_fields" where
  "header_for contract n root =
    \<lparr>hd_contract = contract, hd_manifest_offset = 112, hd_manifest_len = 56, hd_index_offset = 168,
     hd_index_len = of_nat (56 * n), hd_payload_offset = of_nat (payload_start n), hd_chunk_count = of_nat n,
     hd_root_hash = root\<rparr>"

lemma payload_start_aligned [simp]: "aligned (payload_start n) = payload_start n"
  by (rule aligned_eq) (simp add: payload_start_def)

lemma payload_start_small: "int n < 2 ^ 32 \<Longrightarrow> int (payload_start n + 7) < usize_bound"
  by (simp add: payload_start_def usize_bound_def)

text \<open>The part of a capsule in front of its payloads.\<close>

definition preamble :: "capsule_view \<Rightarrow> index_entry list \<Rightarrow> u8 list" where
  "preamble v es = header_bytes (header_for (vw_contract v) (length es) (vw_root_hash v))
    @ manifest_bytes (vw_kind v) (vw_capsule_id v) (vw_base_root v) @ index_bytes es"

text \<open>\<open>v\<close> is the reading of \<open>bytes\<close> whose index is \<open>es\<close>.\<close>

definition reading :: "u8 list \<Rightarrow> index_entry list \<Rightarrow> capsule_view \<Rightarrow> bool" where
  "reading bytes es v \<longleftrightarrow>
    int (length es) < 2 ^ 32 \<and> (\<forall>e \<in> set es. entry_typed e)
    \<and> manifest_typed (vw_capsule_id v) (vw_base_root v)
    \<and> contract_can_read contract_current (vw_contract v)
    \<and> vw_root_hash v = sha256 (manifest_bytes (vw_kind v) (vw_capsule_id v) (vw_base_root v) @ index_bytes es)
    \<and> take (payload_start (length es)) bytes = preamble v es
    \<and> read_chunks bytes (vw_kind v) es (payload_start (length es)) (payload_start (length es))
        = Inr (vw_chunks v, length bytes)"

lemma length_preamble:
  "length (vw_root_hash v) = 32 \<Longrightarrow> manifest_typed (vw_capsule_id v) (vw_base_root v) \<Longrightarrow> \<forall>e \<in> set es. entry_typed e
    \<Longrightarrow> length (preamble v es) = payload_start (length es)"
  by (simp add: preamble_def length_header_bytes length_manifest_bytes length_index_bytes payload_start_def
      header_for_def)

text \<open>The reader in closed form, for a header that names the canonical layout.\<close>

lemma capsule_read_canonical:
  assumes header: "decode_header bytes = Inr (header_for contract n root)" and n: "int n < 2 ^ 32"
    and P: "payload_start n \<le> length bytes"
  shows "capsule_read bytes =
    (if \<not> contract_can_read contract_current contract then Inl (CapUnsupportedContract contract)
     else if metadata_root (subslice 112 56 bytes) (subslice 168 (56 * n) bytes) \<noteq> root
     then Inl CapMetadataIntegrityMismatch
     else
       rbind (decode_manifest (subslice 112 56 bytes)) (\<lambda>manifest.
       rbind (decode_index (subslice 168 (56 * n) bytes) (of_nat n)) (\<lambda>entries.
       rbind (read_chunks bytes (mf_kind manifest) entries (payload_start n) (payload_start n)) (\<lambda>(chunks, len).
       if length bytes \<noteq> len then Inl CapNonCanonicalLayout
       else Inr \<lparr>vw_contract = contract, vw_kind = mf_kind manifest,
                 vw_capsule_id = mf_capsule_id manifest, vw_base_root = mf_base_root manifest,
                 vw_root_hash = root, vw_chunks = chunks\<rparr>))))"
proof -
  have cnt: "unat (of_nat n :: u32) = n" using n by (rule unat_len)
  have small: "int (56 * n) < usize_bound" "int (168 + 56 * n) < usize_bound" "int (168 + 56 * n + 7) < usize_bound"
    using payload_start_small [OF n] by (simp_all add: payload_start_def)
  have checks: "usize_checked (n * 56) = Inr (56 * n)" "usize_checked 168 = Inr 168"
    "usize_checked (168 + 56 * n) = Inr (168 + 56 * n)"
    "align_up (168 + 56 * n) ALIGNMENT = Inr (payload_start n)"
    "u64_try_from 112 = Inr 112" "u64_try_from 56 = Inr 56" "u64_try_from 168 = Inr 168"
    "u64_try_from (56 * n) = Inr (of_nat (56 * n))" "u64_try_from (payload_start n) = Inr (of_nat (payload_start n))"
    using small payload_start_aligned [of n] by (simp_all add: payload_start_def usize_bound_def mult.commute)
  have ranges: "checked_range (length bytes) 112 56 = Inr (112, 168)"
    "checked_range (length bytes) 168 (of_nat (56 * n)) = Inr (168, 168 + 56 * n)"
    using P small unat_of_usize [OF small(1)] by (simp_all add: checked_range_Inr payload_start_def usize_bound_def)
  show ?thesis
    unfolding capsule_read_def header
    by (simp add: header_for_def cnt HEADER_LEN_def MANIFEST_LEN_def INDEX_ENTRY_LEN_def checks ranges Let_def
        del: of_nat_mult of_nat_add usize_checked_Inr u64_try_from_Inr align_up_Inr cong: if_cong)
qed

lemma capsule_read_header:
  assumes "capsule_read bytes = Inr v"
  obtains contract n root where "int n < 2 ^ 32" "decode_header bytes = Inr (header_for contract n root)"
    "payload_start n \<le> length bytes"
proof -
  from assms obtain h where h: "decode_header bytes = Inr h" by (auto simp: capsule_read_def)
  let ?n = "unat (hd_chunk_count h)"
  have n: "int ?n < 2 ^ 32" by simp
  have small: "int (56 * ?n) < usize_bound"
    using payload_start_small [OF n] by (simp add: payload_start_def)
  from assms h have fields: "hd_manifest_offset h = 112" "hd_manifest_len h = 56" "hd_index_offset h = 168"
      "hd_index_len h = of_nat (56 * ?n)" "hd_payload_offset h = of_nat (payload_start ?n)"
    and room: "unat (hd_index_offset h) + unat (hd_index_len h) \<le> length bytes"
    using payload_start_aligned [of ?n]
    by (auto simp: capsule_read_def HEADER_LEN_def MANIFEST_LEN_def INDEX_ENTRY_LEN_def checked_range_Inr
        payload_start_def mult.commute split: if_splits)
  have "h = header_for (hd_contract h) ?n (hd_root_hash h)"
    using fields by (cases h) (simp add: header_for_def)
  moreover have "payload_start ?n \<le> length bytes"
    using room unat_of_usize [OF small] by (simp add: fields payload_start_def del: of_nat_mult)
  ultimately show thesis using that [of ?n "hd_contract h" "hd_root_hash h"] h n by simp
qed

text \<open>What \<open>CapsuleView::read\<close> accepts, and with which result.\<close>

lemma capsule_read_Inr: "capsule_read bytes = Inr v \<longleftrightarrow> (\<exists>es. reading bytes es v)"
proof
  assume read: "capsule_read bytes = Inr v"
  then obtain contract n root where n: "int n < 2 ^ 32"
    and header: "decode_header bytes = Inr (header_for contract n root)" and P: "payload_start n \<le> length bytes"
    by (rule capsule_read_header)
  from read [unfolded capsule_read_canonical [OF header n P]]
  obtain m es where can: "contract_can_read contract_current contract"
    and meta: "metadata_root (subslice 112 56 bytes) (subslice 168 (56 * n) bytes) = root"
    and m: "decode_manifest (subslice 112 56 bytes) = Inr m"
    and es: "decode_index (subslice 168 (56 * n) bytes) (of_nat n) = Inr es"
    and chunks: "read_chunks bytes (mf_kind m) es (payload_start n) (payload_start n) = Inr (vw_chunks v, length bytes)"
    and v: "vw_contract v = contract" "vw_kind v = mf_kind m" "vw_capsule_id v = mf_capsule_id m"
      "vw_base_root v = mf_base_root m" "vw_root_hash v = root"
    by (auto split: if_splits)
  have len: "length es = n" and typed: "\<forall>e \<in> set es. entry_typed e" and index: "subslice 168 (56 * n) bytes = index_bytes es"
    using es n by (simp_all add: decode_index_Inr unat_len)
  have "take (payload_start n) bytes = subslice 0 (112 + (56 + 56 * n)) bytes"
    by (simp add: subslice_def payload_start_def)
  also have "\<dots> = take 112 bytes @ subslice 112 56 bytes @ subslice 168 (56 * n) bytes"
    unfolding subslice_split by (simp add: subslice_def)
  also have "\<dots> = preamble v es"
    using decoded_header(3) [OF header] decoded_manifest(1) [OF m] by (simp add: preamble_def v len index)
  finally show "\<exists>es. reading bytes es v"
    using n typed decoded_manifest [OF m] can meta chunks index
    by (intro exI [of _ es]) (simp add: reading_def v len metadata_root_def)
next
  assume "\<exists>es. reading bytes es v"
  then obtain es where r: "reading bytes es v" by blast
  let ?n = "length es" and ?m = "manifest_bytes (vw_kind v) (vw_capsule_id v) (vw_base_root v)"
  have root: "length (vw_root_hash v) = 32" using r by (simp add: reading_def)
  have mt: "manifest_typed (vw_capsule_id v) (vw_base_root v)" and n: "int ?n < 2 ^ 32"
    and typed: "\<forall>e \<in> set es. entry_typed e" and pre: "take (payload_start ?n) bytes = preamble v es"
    using r by (simp_all add: reading_def)
  define rest where "rest = drop (payload_start ?n) bytes"
  have bytes: "bytes = header_bytes (header_for (vw_contract v) ?n (vw_root_hash v)) @ ?m @ index_bytes es @ rest"
    using append_take_drop_id [of "payload_start ?n" bytes] by (simp add: pre preamble_def rest_def)
  have P: "payload_start ?n \<le> length bytes"
    using arg_cong [OF pre, of length] length_preamble [OF root mt typed] by simp
  have hl: "length (header_bytes (header_for (vw_contract v) ?n (vw_root_hash v))) = 112"
    using root by (simp add: length_header_bytes header_for_def)
  have header: "decode_header bytes = Inr (header_for (vw_contract v) ?n (vw_root_hash v))"
    using root by (subst bytes) (simp add: decode_header_bytes header_for_def)
  have m: "subslice 112 56 bytes = ?m"
    by (subst bytes) (simp add: buffer_simps hl length_manifest_bytes [OF mt])
  have ix: "subslice 168 (56 * ?n) bytes = index_bytes es"
    by (subst bytes) (simp add: buffer_simps hl length_manifest_bytes [OF mt] length_index_bytes [OF typed])
  have "decode_index (index_bytes es) (of_nat ?n) = Inr es"
    using n typed by (simp add: decode_index_Inr unat_len)
  then show "capsule_read bytes = Inr v"
    using r unfolding capsule_read_canonical [OF header n P] m ix
    by (simp add: reading_def metadata_root_def decode_manifest_bytes [OF mt])
qed

text \<open>
  The arrays of a builder have the lengths of their types; \<open>view_of\<close> is what a reader should get to
  see of it.
\<close>

definition builder_typed :: "capsule_builder \<Rightarrow> bool" where
  "builder_typed b \<longleftrightarrow> manifest_typed (cb_capsule_id b) (cb_base_root b) \<and> list_all chunk_typed (cb_chunks b)"

definition view_of :: "capsule_builder \<Rightarrow> digest \<Rightarrow> capsule_view" where
  "view_of b root = \<lparr>vw_contract = contract_current, vw_kind = cb_kind b, vw_capsule_id = cb_capsule_id b,
    vw_base_root = cb_base_root b, vw_root_hash = root, vw_chunks = map chunk_view_of (cb_chunks b)\<rparr>"

definition refused :: "capsule_builder \<Rightarrow> bool" where
  "refused b \<longleftrightarrow> cb_kind b = KindFull \<and> list_ex is_external (cb_chunks b)"

definition written_root :: "capsule_builder \<Rightarrow> index_entry list \<Rightarrow> digest" where
  "written_root b es =
    sha256 (manifest_bytes (cb_kind b) (cb_capsule_id b) (cb_base_root b) @ index_bytes es)"

text \<open>The writer in closed form, once the layout is known.\<close>

lemma capsule_write_laid:
  assumes typed: "builder_typed b" and ok: "\<not> refused b" and n: "int (length (cb_chunks b)) < 2 ^ 32"
    and lay: "lay_chunks (cb_chunks b) (payload_start (length (cb_chunks b))) (payload_start (length (cb_chunks b)))
      = Inr (es, len)"
  shows "capsule_write b = copy_chunks (zip (cb_chunks b) es)
    (preamble (view_of b (written_root b es)) es @ replicate (len - payload_start (length es)) 0)"
proof -
  let ?n = "length (cb_chunks b)"
  have shape: "length es = ?n" "payload_start ?n \<le> len" "\<forall>e \<in> set es. entry_typed e"
    using lay_chunks_shape [OF lay] typed by (simp_all add: builder_typed_def list_all_iff)
  have mt: "manifest_typed (cb_capsule_id b) (cb_base_root b)" using typed by (simp add: builder_typed_def)
  have il: "length (index_bytes es) = 56 * ?n" using shape by (simp add: length_index_bytes)
  have small: "int (56 * ?n) < usize_bound" "int (168 + 56 * ?n) < usize_bound" "int (168 + 56 * ?n + 7) < usize_bound"
    using payload_start_small [OF n] by (simp_all add: payload_start_def)
  have checks: "usize_checked (?n * 56) = Inr (56 * ?n)" "usize_checked 168 = Inr 168"
    "usize_checked (168 + 56 * ?n) = Inr (168 + 56 * ?n)"
    "align_up (168 + 56 * ?n) ALIGNMENT = Inr (payload_start ?n)"
    "u64_try_from 112 = Inr 112" "u64_try_from 56 = Inr 56" "u64_try_from 168 = Inr 168"
    "u64_try_from (56 * ?n) = Inr (of_nat (56 * ?n))" "u64_try_from (payload_start ?n) = Inr (of_nat (payload_start ?n))"
    "len_u32 CapOverflow ?n = Inr (of_nat ?n)"
    using small n payload_start_aligned [of ?n]
    by (simp_all add: payload_start_def usize_bound_def mult.commute len_u32_def)
  define h where "h = header_for contract_current ?n (written_root b es)"
  let ?m = "manifest_bytes (cb_kind b) (cb_capsule_id b) (cb_base_root b)"
  have hl: "length (header_bytes h) = 112" and root: "length (hd_root_hash h) = 32"
    by (simp_all add: h_def header_for_def length_header_bytes written_root_def)
  have room: "168 + 56 * ?n \<le> len" using shape(2) by (simp add: payload_start_def)
  have "encode_header (take 112 (replicate len 0)) h = header_bytes h"
    using room root by (intro encode_header_bytes) (simp_all add: HEADER_LEN_def)
  then have buffer: "put_bytes (put_bytes (encode_header (take 112 (replicate len 0)) h @ drop 112 (replicate len 0))
      112 ?m) 168 (index_bytes es) = preamble (view_of b (written_root b es)) es @ replicate (len - payload_start (length es)) 0"
    using room by (simp add: buffer_simps hl [unfolded h_def] length_manifest_bytes [OF mt] il preamble_def view_of_def h_def shape(1)
        payload_start_def)
  have no: "(cb_kind b = KindFull \<and> (\<exists>c \<in> set (cb_chunks b). is_external c)) = False"
    using ok by (simp add: refused_def list_ex_iff)
  show ?thesis
    unfolding capsule_write_def no buffer [symmetric] h_def
    by (simp add: HEADER_LEN_def MANIFEST_LEN_def INDEX_ENTRY_LEN_def checks lay Let_def encode_manifest_bytes [OF mt]
        encode_index_bytes [OF shape(3)] il metadata_root_def written_root_def header_for_def
        del: of_nat_mult of_nat_add usize_checked_Inr u64_try_from_Inr align_up_Inr take_replicate drop_replicate)
qed

lemma capsule_write_reading:
  assumes typed: "builder_typed b" and ok: "\<not> refused b" and n: "int (length (cb_chunks b)) < 2 ^ 32"
    and lay: "lay_chunks (cb_chunks b) (payload_start (length (cb_chunks b))) (payload_start (length (cb_chunks b)))
      = Inr (es, len)"
  shows "\<exists>bytes. capsule_write b = Inr bytes \<and> length bytes = len \<and> reading bytes es (view_of b (written_root b es))"
proof -
  let ?v = "view_of b (written_root b es)" and ?P = "payload_start (length (cb_chunks b))"
  let ?out = "preamble ?v es @ replicate (len - payload_start (length es)) 0"
  have shape: "length es = length (cb_chunks b)" "?P \<le> len" "\<forall>e \<in> set es. entry_typed e"
    using lay_chunks_shape [OF lay] typed by (simp_all add: builder_typed_def list_all_iff)
  have mt: "manifest_typed (vw_capsule_id ?v) (vw_base_root ?v)" and root: "length (vw_root_hash ?v) = 32"
    using typed by (simp_all add: builder_typed_def view_of_def written_root_def)
  have pl: "length (preamble ?v es) = ?P" using length_preamble [OF root mt shape(3)] shape(1) by simp
  then have "length ?out = len" using shape by simp
  with copy_laid [OF lay order_refl, of ?out] obtain bytes
    where copy: "copy_chunks (zip (cb_chunks b) es) ?out = Inr bytes" and len: "length bytes = len"
      and low: "take ?P bytes = take ?P ?out" and placed: "placed bytes (cb_chunks b) es"
    by auto
  have "read_chunks bytes (cb_kind b) es ?P ?P = Inr (map chunk_view_of (cb_chunks b), len)"
    using ok by (intro read_laid [OF lay]) (auto simp: len placed refused_def list_ex_iff)
  then have "reading bytes es ?v"
    using mt low pl n shape len unfolding reading_def
    by (simp add: view_of_def written_root_def contract_can_read_def capsule_can_read_def can_read_def)
  then show ?thesis using capsule_write_laid [OF typed ok n lay] copy len by simp
qed

lemma lay_chunks_error: "lay_chunks cs cur fl = Inl e \<Longrightarrow> e = CapOverflow"
proof (induction cs arbitrary: cur fl)
  case (Cons c cs)
  then show ?case
    by (cases "sp_source c")
      (auto simp: rbind_eq_Inl u64_try_from_def usize_checked_def align_up_def ALIGNMENT_def split: if_splits)
qed simp

text \<open>How much room the payloads need at most, with their alignment.\<close>

fun payload_room :: "chunk_spec list \<Rightarrow> nat" where
  "payload_room [] = 0"
| "payload_room (c # cs) =
    (case sp_source c of SrcEmbedded bytes \<Rightarrow> length bytes + 7 | SrcExternal _ _ \<Rightarrow> 0) + payload_room cs"

lemma aligned_le: "aligned n \<le> n + 7"
  unfolding aligned_def using div_mult_mod_eq [of "n + 7" 8] by linarith

lemma lay_chunks_fits:
  "int (cur + payload_room cs) < usize_bound \<Longrightarrow> \<exists>es len. lay_chunks cs cur fl = Inr (es, len)"
proof (induction cs arbitrary: cur fl)
  case Nil
  then show ?case by simp
next
  case (Cons c cs)
  show ?case
  proof (cases "sp_source c")
    case (SrcExternal n h)
    then have "\<exists>es len. lay_chunks cs cur fl = Inr (es, len)" using Cons.prems by (intro Cons.IH) simp
    then show ?thesis by (auto simp: SrcExternal)
  next
    case (SrcEmbedded bs)
    let ?stop = "cur + length bs"
    have "int (aligned ?stop + payload_room cs) < usize_bound"
      using Cons.prems SrcEmbedded aligned_le [of ?stop] by simp
    then have "\<exists>es len. lay_chunks cs (aligned ?stop) (max fl ?stop) = Inr (es, len)" by (rule Cons.IH)
    moreover have "u64_try_from (length bs) = Inr (of_nat (length bs))" "u64_try_from cur = Inr (of_nat cur)"
      "usize_checked ?stop = Inr ?stop" "align_up ?stop ALIGNMENT = Inr (aligned ?stop)"
      using Cons.prems SrcEmbedded by simp_all
    ultimately show ?thesis by (auto simp: SrcEmbedded)
  qed
qed

lemma reading_metadata:
  assumes "reading bytes es v"
  shows "subslice 112 (56 + 56 * length es) bytes =
    manifest_bytes (vw_kind v) (vw_capsule_id v) (vw_base_root v) @ index_bytes es"
proof -
  let ?P = "payload_start (length es)"
  have "subslice 112 (56 + 56 * length es) bytes = subslice 112 (56 + 56 * length es) (take ?P bytes)"
    by (simp add: subslice_take payload_start_def)
  also have "take ?P bytes = preamble v es" using assms by (simp add: reading_def)
  also have "subslice 112 (56 + 56 * length es) (preamble v es) =
      manifest_bytes (vw_kind v) (vw_capsule_id v) (vw_base_root v) @ index_bytes es"
    using assms unfolding preamble_def
    by (simp add: reading_def subslice_skip subslice_hit length_header_bytes header_for_def length_manifest_bytes
        length_index_bytes)
  finally show ?thesis .
qed

section \<open>From a view back to a builder\<close>

definition chunk_spec_of :: "chunk_view \<Rightarrow> chunk_spec" where
  "chunk_spec_of c = \<lparr>sp_kind = cw_kind c, sp_source = (case cw_storage c of
    StoEmbedded bytes \<Rightarrow> SrcEmbedded bytes | StoExternal \<Rightarrow> SrcExternal (cw_logical_len c) (cw_hash c))\<rparr>"

lemma chunk_spec_of_embedded:
  "cw_storage c = StoEmbedded bs \<Longrightarrow> chunk_spec_of c = \<lparr>sp_kind = cw_kind c, sp_source = SrcEmbedded bs\<rparr>"
  by (simp add: chunk_spec_of_def)

definition builder_of :: "capsule_view \<Rightarrow> capsule_builder" where
  "builder_of v = \<lparr>cb_kind = vw_kind v, cb_capsule_id = vw_capsule_id v, cb_base_root = vw_base_root v,
    cb_chunks = map chunk_spec_of (vw_chunks v)\<rparr>"

text \<open>What the reader guarantees of a chunk.\<close>

definition chunk_sound :: "u8 list \<Rightarrow> capsule_kind \<Rightarrow> chunk_view \<Rightarrow> bool" where
  "chunk_sound bytes kind c \<longleftrightarrow> length (cw_hash c) = 32 \<and>
    (case cw_storage c of
      StoEmbedded bs \<Rightarrow> cw_hash c = sha256 bs \<and> unat (cw_logical_len c) = length bs \<and>
        (\<exists>off. off + length bs \<le> length bytes \<and> bs = subslice off (length bs) bytes)
    | StoExternal \<Rightarrow> kind \<noteq> KindFull)"

text \<open>One turn of the reader's loop.\<close>

lemma read_chunks_Cons:
  assumes "read_chunks bytes kind (e # es) cur fl = Inr (cs, len)"
  obtains cs' where "ie_flags e = CHUNK_FLAG_EXTERNAL" "ie_offset e = 0" "kind \<noteq> KindFull"
      "cs = \<lparr>cw_kind = ie_kind e, cw_logical_len = ie_logical_len e, cw_hash = ie_hash e, cw_storage = StoExternal\<rparr> # cs'"
      "read_chunks bytes kind es cur fl = Inr (cs', len)"
  | cs' bs where "ie_flags e = 0" "unat (ie_offset e) = cur" "unat (ie_logical_len e) = length bs"
      "cur + length bs \<le> length bytes" "int (cur + length bs + 7) < usize_bound"
      "bs = subslice cur (length bs) bytes" "ie_hash e = sha256 bs"
      "cs = \<lparr>cw_kind = ie_kind e, cw_logical_len = ie_logical_len e, cw_hash = ie_hash e, cw_storage = StoEmbedded bs\<rparr> # cs'"
      "read_chunks bytes kind es (aligned (cur + length bs)) (cur + length bs) = Inr (cs', len)"
proof (cases "even (ie_flags e)")
  case False
  then show thesis using assms that(1)
    by (auto simp: CHUNK_FLAG_EXTERNAL_def flag_bits split: if_splits)
next
  case True
  let ?bs = "subslice cur (unat (ie_logical_len e)) bytes"
  from True assms obtain cs' where "ie_flags e = 0" "unat (ie_offset e) = cur"
    and room: "cur + unat (ie_logical_len e) \<le> length bytes" and "int (cur + unat (ie_logical_len e) + 7) < usize_bound"
    and "ie_hash e = sha256 ?bs"
    and "cs = \<lparr>cw_kind = ie_kind e, cw_logical_len = ie_logical_len e, cw_hash = ie_hash e, cw_storage = StoEmbedded ?bs\<rparr> # cs'"
    and "read_chunks bytes kind es (aligned (cur + unat (ie_logical_len e))) (cur + unat (ie_logical_len e)) = Inr (cs', len)"
    by (auto simp: CHUNK_FLAG_EXTERNAL_def flag_bits checked_range_Inr split: if_splits)
  moreover from room have "length ?bs = unat (ie_logical_len e)" by simp
  ultimately show thesis using that(2) [of ?bs cs'] by simp
qed

lemma read_chunks_sound:
  "read_chunks bytes kind es cur fl = Inr (cs, len) \<Longrightarrow> \<forall>e \<in> set es. entry_typed e
    \<Longrightarrow> length cs = length es \<and> (\<forall>c \<in> set cs. chunk_sound bytes kind c)"
proof (induction es arbitrary: cur fl cs)
  case (Cons e es)
  from Cons.prems(1) show ?case
  proof (cases rule: read_chunks_Cons)
    case (1 cs')
    then show ?thesis using Cons.IH [OF 1(5)] Cons.prems(2) by (auto simp: chunk_sound_def)
  next
    case (2 cs' bs)
    then show ?thesis using Cons.IH [OF 2(9)] Cons.prems(2) by (auto simp: chunk_sound_def)
  qed
qed simp

text \<open>The layout loop of the writer reproduces every index the reader accepts.\<close>

lemma lay_read:
  "read_chunks bytes kind es cur fl = Inr (cs, len) \<Longrightarrow> fl \<le> cur \<Longrightarrow> int cur < usize_bound
    \<Longrightarrow> lay_chunks (map chunk_spec_of cs) cur fl = Inr (es, len)"
proof (induction es arbitrary: cur fl cs)
  case Nil
  then show ?case by simp
next
  case (Cons e es)
  from Cons.prems(1) show ?case
  proof (cases rule: read_chunks_Cons)
    case (1 cs')
    then show ?thesis using Cons.IH [OF 1(5)] Cons.prems by (simp add: chunk_spec_of_def)
  next
    case (2 cs' bs)
    let ?stop = "cur + length bs"
    have "max fl ?stop = ?stop" using Cons.prems(2) by simp
    moreover have "lay_chunks (map chunk_spec_of cs') (aligned ?stop) ?stop = Inr (es, len)"
      using 2(5) aligned_le [of ?stop] aligned_ge [of ?stop] by (intro Cons.IH [OF 2(9)]) simp_all
    moreover have "ie_logical_len e = of_nat (length bs)" "ie_offset e = of_nat cur"
      by (simp_all flip: 2(2,3))
    then have "e = \<lparr>ie_kind = ie_kind e, ie_flags = 0, ie_logical_len = of_nat (length bs),
        ie_offset = of_nat cur, ie_hash = sha256 bs\<rparr>"
      using 2(1,7) by (cases e) simp
    moreover have "u64_try_from (length bs) = Inr (of_nat (length bs))" "u64_try_from cur = Inr (of_nat cur)"
      "usize_checked ?stop = Inr ?stop" "align_up ?stop ALIGNMENT = Inr (aligned ?stop)"
      using 2(5) by simp_all
    ultimately show ?thesis using 2(8) by (simp add: chunk_spec_of_embedded)
  qed
qed

section \<open>Properties\<close>

text \<open>The four ways through the writer.\<close>

lemma capsule_write_cases:
  assumes typed: "builder_typed b"
  obtains (refused) "refused b" "capsule_write b = Inl CapExternalChunkInFullCapsule"
  | (many) "\<not> refused b" "2 ^ 32 \<le> int (length (cb_chunks b))" "capsule_write b = Inl CapOverflow"
  | (large) "\<not> refused b" "usize_bound \<le> int (payload_start (length (cb_chunks b)) + payload_room (cb_chunks b))"
      "capsule_write b = Inl CapOverflow"
  | (written) es bytes where "\<not> refused b" "int (length (cb_chunks b)) < 2 ^ 32" "capsule_write b = Inr bytes"
      "lay_chunks (cb_chunks b) (payload_start (length (cb_chunks b))) (payload_start (length (cb_chunks b))) =
        Inr (es, length bytes)"
      "reading bytes es (view_of b (written_root b es))"
proof (cases "refused b")
  case True
  then show thesis by (intro refused) (simp_all add: capsule_write_def refused_def list_ex_iff)
next
  case ok: False
  let ?n = "length (cb_chunks b)"
  let ?lay = "lay_chunks (cb_chunks b) (payload_start ?n) (payload_start ?n)"
  have no: "(cb_kind b = KindFull \<and> (\<exists>c \<in> set (cb_chunks b). is_external c)) = False"
    using ok by (simp add: refused_def list_ex_iff)
  show thesis
  proof (cases "int ?n < 2 ^ 32")
    case False
    then show thesis by (intro many ok) (simp_all add: capsule_write_def no len_u32_def)
  next
    case n: True
    show thesis
    proof (cases ?lay)
      case (Inr r)
      then obtain es len where lay: "?lay = Inr (es, len)" by (cases r) simp
      from capsule_write_reading [OF typed ok n lay] show thesis using written [OF ok n] lay by blast
    next
      case (Inl e)
      have "int (56 * ?n) < usize_bound" "int (168 + 56 * ?n) < usize_bound" "int (168 + 56 * ?n + 7) < usize_bound"
        using payload_start_small [OF n] by (simp_all add: payload_start_def)
      then have "usize_checked (?n * 56) = Inr (56 * ?n)" "usize_checked 168 = Inr 168"
        "usize_checked (168 + 56 * ?n) = Inr (168 + 56 * ?n)" "align_up (168 + 56 * ?n) ALIGNMENT = Inr (payload_start ?n)"
        using payload_start_aligned [of ?n] by (simp_all add: payload_start_def mult.commute usize_bound_def)
      then have "capsule_write b = Inl CapOverflow"
        using Inl lay_chunks_error [OF Inl] n
        by (simp add: capsule_write_def no len_u32_def HEADER_LEN_def MANIFEST_LEN_def INDEX_ENTRY_LEN_def Let_def
            del: usize_checked_Inr align_up_Inr)
      moreover have "usize_bound \<le> int (payload_start ?n + payload_room (cb_chunks b))"
        using lay_chunks_fits [of "payload_start ?n" "cb_chunks b" "payload_start ?n"] Inl by force
      ultimately show thesis using large ok by blast
    qed
  qed
qed

text \<open>
  C12: A capsule survives writing and reading. Whatever \<open>CapsuleBuilder::write\<close> emits,
  \<open>CapsuleView::read\<close> accepts, and it shows the same kind, identity, base root and, in order, the same
  chunks: embedded ones byte for byte with their SHA-256, external ones with their length and hash.
  \<open>write\<close> fails with \<open>ExternalChunkInFullCapsule\<close> exactly for a Full capsule that has an external
  chunk; every other failure is \<open>Overflow\<close>, which cannot happen while there are fewer than
  \<open>2 ^ 32\<close> chunks and the padded file stays below \<open>2 ^ 64\<close> bytes.
\<close>
theorem capsule_round_trip:
  assumes "builder_typed b"
  shows "case capsule_write b of
      Inr bytes \<Rightarrow> \<exists>root. capsule_read bytes = Inr (view_of b root)
    | Inl e \<Rightarrow> if refused b then e = CapExternalChunkInFullCapsule
        else e = CapOverflow \<and> (2 ^ 32 \<le> int (length (cb_chunks b))
          \<or> usize_bound \<le> int (payload_start (length (cb_chunks b)) + payload_room (cb_chunks b)))"
  using assms
proof (cases rule: capsule_write_cases)
  case (written es bytes)
  then show ?thesis by (auto simp: capsule_read_Inr)
qed simp_all

definition sample_capsule :: capsule_builder where
  "sample_capsule =
    push_external SecTensors 22 (replicate 32 9) (push_embedded SecGraph [105, 114]
      (with_base_root (replicate 32 7) (capsule_builder_new KindThin (replicate 16 1))))"

lemma sample_capsule_simps:
  "cb_kind sample_capsule = KindThin"
  "cb_chunks sample_capsule = [\<lparr>sp_kind = SecGraph, sp_source = SrcEmbedded [105, 114]\<rparr>,
    \<lparr>sp_kind = SecTensors, sp_source = SrcExternal 22 (replicate 32 9)\<rparr>]"
  "\<not> refused sample_capsule" "builder_typed sample_capsule"
  by (simp_all add: sample_capsule_def push_external_def push_embedded_def with_base_root_def capsule_builder_new_def
      refused_def builder_typed_def manifest_typed_def chunk_typed_def)

theorem capsule_round_trip_witness:
  "\<exists>bytes root. capsule_write sample_capsule = Inr bytes \<and> capsule_read bytes = Inr (view_of sample_capsule root)"
  using capsule_round_trip [OF sample_capsule_simps(4)]
  by (auto simp: sample_capsule_simps payload_start_def usize_bound_def split: sum.splits)

text \<open>
  C31: What \<open>CapsuleView::read\<close> accepts is intact. The contract is one this version can read; the root
  hash is the SHA-256 of the manifest and index as they stand in the file; every embedded chunk is a
  range of the file with the length and the SHA-256 its entry names; and no chunk of a Full capsule is
  external.
\<close>
theorem capsule_read_sound:
  assumes "capsule_read bytes = Inr v"
  shows "contract_can_read contract_current (vw_contract v)
    \<and> vw_root_hash v = sha256 (subslice 112 (56 + 56 * length (vw_chunks v)) bytes)
    \<and> list_all (chunk_sound bytes (vw_kind v)) (vw_chunks v)"
proof -
  from assms obtain es where r: "reading bytes es v" by (auto simp: capsule_read_Inr)
  have sound: "length (vw_chunks v) = length es" "\<forall>c \<in> set (vw_chunks v). chunk_sound bytes (vw_kind v) c"
    using r read_chunks_sound [of bytes "vw_kind v" es] by (auto simp: reading_def)
  with r show ?thesis by (simp add: reading_def reading_metadata [OF r] list_all_iff)
qed

text \<open>The sample as it is read back.\<close>

lemma sample_capsule_read:
  obtains bytes root where "capsule_write sample_capsule = Inr bytes" "capsule_read bytes = Inr (view_of sample_capsule root)"
  using sample_capsule_simps(4)
  by (cases rule: capsule_write_cases)
    (auto simp: sample_capsule_simps payload_start_def usize_bound_def capsule_read_Inr)

theorem capsule_read_sound_witness:
  "\<exists>bytes v. capsule_read bytes = Inr v \<and> length (vw_chunks v) = 2
    \<and> vw_root_hash v = sha256 (subslice 112 (56 + 56 * length (vw_chunks v)) bytes)"
proof -
  obtain bytes root where "capsule_read bytes = Inr (view_of sample_capsule root)" by (rule sample_capsule_read)
  with capsule_read_sound [OF this] show ?thesis
    by (intro exI [of _ bytes] exI [of _ "view_of sample_capsule root"])
      (simp add: view_of_def sample_capsule_simps)
qed

lemma chunk_view_of_spec: "chunk_sound bytes kind c \<Longrightarrow> chunk_view_of (chunk_spec_of c) = c"
proof -
  assume sound: "chunk_sound bytes kind c"
  show ?thesis
  proof (cases "cw_storage c")
    case (StoEmbedded bs)
    then have "unat (cw_logical_len c) = length bs" and hash: "cw_hash c = sha256 bs"
      using sound by (simp_all add: chunk_sound_def)
    then have "cw_logical_len c = of_nat (length bs)" by (simp flip: \<open>unat (cw_logical_len c) = length bs\<close>)
    with hash show ?thesis using StoEmbedded by (simp add: chunk_view_of_def chunk_spec_of_def)
  qed (simp add: chunk_view_of_def chunk_spec_of_def)
qed

text \<open>
  C30: The reader accepts nothing the writer would not have laid out the same way. If a file is read as
  \<open>v\<close>, then writing the contents of \<open>v\<close> again succeeds, gives a file of the same length, and that file
  reads as \<open>v\<close> again, root hash included, under the current contract.
\<close>
theorem capsule_rewrite:
  assumes "capsule_read bytes = Inr v"
  shows "\<exists>bytes'. capsule_write (builder_of v) = Inr bytes' \<and> length bytes' = length bytes
    \<and> capsule_read bytes' = Inr (v\<lparr>vw_contract := contract_current\<rparr>)"
proof -
  let ?b = "builder_of v"
  from assms obtain es where r: "reading bytes es v" by (auto simp: capsule_read_Inr)
  let ?P = "payload_start (length es)"
  from r have rc: "read_chunks bytes (vw_kind v) es ?P ?P = Inr (vw_chunks v, length bytes)"
    and typed: "\<forall>e \<in> set es. entry_typed e" and n: "int (length es) < 2 ^ 32"
    and mt: "manifest_typed (vw_capsule_id v) (vw_base_root v)"
    by (simp_all add: reading_def)
  have len: "length (vw_chunks v) = length es" and sound: "\<forall>c \<in> set (vw_chunks v). chunk_sound bytes (vw_kind v) c"
    using read_chunks_sound [OF rc typed] by simp_all
  have bt: "builder_typed ?b"
    using mt sound by (auto simp: builder_typed_def builder_of_def list_all_iff chunk_sound_def chunk_typed_def
        chunk_spec_of_def split: chunk_storage.splits)
  have ok: "\<not> refused ?b"
    using sound by (auto simp: refused_def builder_of_def list_ex_iff chunk_sound_def is_external_def
        chunk_spec_of_def split: chunk_storage.splits)
  have lay: "lay_chunks (cb_chunks ?b) ?P ?P = Inr (es, length bytes)"
    using lay_read [OF rc order_refl] payload_start_small [OF n] by (simp add: builder_of_def)
  have views: "map chunk_view_of (cb_chunks ?b) = vw_chunks v"
    using sound by (auto simp: builder_of_def intro!: map_idI chunk_view_of_spec)
  have "view_of ?b (written_root ?b es) = v\<lparr>vw_contract := contract_current\<rparr>"
    using r views by (simp add: view_of_def reading_def written_root_def builder_of_def)
  moreover have "length (cb_chunks ?b) = length es" by (simp add: builder_of_def len)
  ultimately show ?thesis
    using capsule_write_reading [OF bt ok, of es "length bytes"] n lay by (auto simp: capsule_read_Inr)
qed

theorem capsule_rewrite_witness:
  "\<exists>bytes v bytes'. capsule_read bytes = Inr v \<and> vw_kind v = KindThin \<and> capsule_write (builder_of v) = Inr bytes'
    \<and> length bytes' = length bytes"
proof -
  obtain bytes root where read: "capsule_read bytes = Inr (view_of sample_capsule root)" by (rule sample_capsule_read)
  moreover have "vw_kind (view_of sample_capsule root) = KindThin" by (simp add: view_of_def sample_capsule_simps)
  ultimately show ?thesis using capsule_rewrite [OF read] by blast
qed

text \<open>Two different parts of the two files have the same SHA-256.\<close>

definition sha_collision :: "u8 list \<Rightarrow> u8 list \<Rightarrow> bool" where
  "sha_collision bytes1 bytes2 \<longleftrightarrow> (\<exists>o1 n1 o2 n2.
    subslice o1 n1 bytes1 \<noteq> subslice o2 n2 bytes2
    \<and> sha256 (subslice o1 n1 bytes1) = sha256 (subslice o2 n2 bytes2))"

lemma same_index_same_chunks:
  "read_chunks bytes1 kind es cur1 fl1 = Inr (cs1, len1) \<Longrightarrow> read_chunks bytes2 kind es cur2 fl2 = Inr (cs2, len2)
    \<Longrightarrow> \<not> sha_collision bytes1 bytes2 \<Longrightarrow> cs1 = cs2"
proof (induction es arbitrary: cur1 fl1 cs1 cur2 fl2 cs2)
  case (Cons e es)
  from Cons.prems(1) show ?case
  proof (cases rule: read_chunks_Cons)
    case 1: (1 cs1')
    from Cons.prems(2) 1 Cons.IH [OF 1(5)] Cons.prems(3) show ?thesis
      by (cases rule: read_chunks_Cons) (auto simp: CHUNK_FLAG_EXTERNAL_def)
  next
    case 1: (2 cs1' bs1)
    from Cons.prems(2) show ?thesis
    proof (cases rule: read_chunks_Cons)
      case (1 cs2')
      then show ?thesis using \<open>ie_flags e = 0\<close> by (simp add: CHUNK_FLAG_EXTERNAL_def)
    next
      case 2: (2 cs2' bs2)
      have "bs1 = bs2" using 1(6,7) 2(6,7) Cons.prems(3) unfolding sha_collision_def by metis
      then show ?thesis using 1(8) 2(8) Cons.IH [OF 1(9) 2(9) Cons.prems(3)] by simp
    qed
  qed
qed simp

text \<open>
  C13: The root hash identifies a capsule. Two files that are read with the same root hash have the
  same kind, identity, base root and chunks, with the same embedded bytes, unless two different parts
  of them are a collision of SHA-256.
\<close>
theorem root_hash_identifies:
  assumes "capsule_read bytes1 = Inr v1" and "capsule_read bytes2 = Inr v2" and "vw_root_hash v1 = vw_root_hash v2"
  shows "sha_collision bytes1 bytes2 \<or> v1 = v2\<lparr>vw_contract := vw_contract v1\<rparr>"
proof (cases "sha_collision bytes1 bytes2")
  case safe: False
  from assms(1,2) obtain es1 es2 where r1: "reading bytes1 es1 v1" and r2: "reading bytes2 es2 v2"
    by (auto simp: capsule_read_Inr)
  let ?m = "\<lambda>v. manifest_bytes (vw_kind v) (vw_capsule_id v) (vw_base_root v)"
  have "sha256 (?m v1 @ index_bytes es1) = sha256 (?m v2 @ index_bytes es2)"
    using r1 r2 assms(3) by (simp add: reading_def)
  then have joined: "?m v1 @ index_bytes es1 = ?m v2 @ index_bytes es2"
    using safe unfolding sha_collision_def reading_metadata [OF r1, symmetric] reading_metadata [OF r2, symmetric] by blast
  have mt: "manifest_typed (vw_capsule_id v1) (vw_base_root v1)" "manifest_typed (vw_capsule_id v2) (vw_base_root v2)"
    using r1 r2 by (simp_all add: reading_def)
  then have "length (?m v1) = length (?m v2)" by (simp add: length_manifest_bytes)
  then have m: "?m v1 = ?m v2" and ix: "index_bytes es1 = index_bytes es2"
    using joined append_eq_append_conv [of "?m v1" "?m v2"] by blast+
  have fields: "vw_kind v1 = vw_kind v2 \<and> vw_capsule_id v1 = vw_capsule_id v2 \<and> vw_base_root v1 = vw_base_root v2"
    using manifest_bytes_inj [OF m mt] .
  have es: "es1 = es2" using r1 r2 ix index_bytes_inj unfolding reading_def by blast
  have "vw_chunks v1 = vw_chunks v2"
    using r1 r2 fields es by (intro same_index_same_chunks [OF _ _ safe]) (auto simp: reading_def)
  with fields assms(3) show ?thesis by simp
qed simp

theorem root_hash_identifies_witness:
  "\<exists>bytes v. capsule_read bytes = Inr v \<and> (sha_collision bytes bytes \<or> v = v\<lparr>vw_contract := vw_contract v\<rparr>)"
proof -
  obtain bytes root where "capsule_read bytes = Inr (view_of sample_capsule root)" by (rule sample_capsule_read)
  with root_hash_identifies [OF this this refl] show ?thesis by blast
qed

section \<open>Padding\<close>

text \<open>
  The bytes between two embedded payloads belong to no chunk: the reader looks at none of them, and
  they are covered by no hash. Two files that differ there are read as the same capsule.
\<close>

definition padded_capsule :: capsule_builder where
  "padded_capsule = push_embedded SecTokenizer [2] (push_embedded SecGraph [1]
    (capsule_builder_new KindFull (replicate 16 1)))"

lemma padded_capsule_layout:
  "lay_chunks (cb_chunks padded_capsule) 280 280 =
    Inr ([\<lparr>ie_kind = SecGraph, ie_flags = 0, ie_logical_len = 1, ie_offset = 280, ie_hash = sha256 [1]\<rparr>,
      \<lparr>ie_kind = SecTokenizer, ie_flags = 0, ie_logical_len = 1, ie_offset = 288, ie_hash = sha256 [2]\<rparr>], 289)"
  by (simp add: padded_capsule_def push_embedded_def capsule_builder_new_def u64_try_from_def usize_checked_def
      usize_bound_def align_up_def ALIGNMENT_def)

theorem padding_not_authenticated:
  "\<exists>bytes1 bytes2 v. bytes1 \<noteq> bytes2 \<and> capsule_read bytes1 = Inr v \<and> capsule_read bytes2 = Inr v"
proof -
  let ?b = "padded_capsule"
  obtain es where lay: "lay_chunks (cb_chunks ?b) 280 280 = Inr (es, 289)"
    and es: "length es = 2" "\<forall>e \<in> set es. entry_typed e" "map ie_offset es = [280, 288]"
    using padded_capsule_layout by simp
  let ?v = "view_of ?b (written_root ?b es)"
  define bytes where "bytes x = preamble ?v es @ [1] @ (x # replicate 6 0) @ [2]" for x
  have b: "cb_kind ?b = KindFull" "manifest_typed (cb_capsule_id ?b) (cb_base_root ?b)"
      "map sp_source (cb_chunks ?b) = [SrcEmbedded [1], SrcEmbedded [2]]"
    by (simp_all add: padded_capsule_def push_embedded_def capsule_builder_new_def manifest_typed_def)
  have P: "payload_start (length es) = 280" by (simp add: payload_start_def es)
  have pre: "length (preamble ?v es) = 280"
    using length_preamble [of ?v es] es b by (simp add: view_of_def written_root_def payload_start_def)
  have "capsule_read (bytes x) = Inr ?v" for x
  proof -
    have "placed (bytes x) (cb_chunks ?b) es"
      using b(3) es(3) pre by (auto simp: map_eq_Cons_conv bytes_def subslice_skip subslice_def)
    moreover have "\<forall>c \<in> set (cb_chunks ?b). \<not> is_external c"
      using b(3) by (auto simp: map_eq_Cons_conv is_external_def)
    moreover have len: "length (bytes x) = 289" by (simp add: bytes_def pre)
    ultimately have "read_chunks (bytes x) KindFull es 280 280 = Inr (map chunk_view_of (cb_chunks ?b), 289)"
      by (intro read_laid [OF lay]) simp_all
    then have "reading (bytes x) es ?v"
      unfolding reading_def P using b es len pre
      by (simp add: view_of_def written_root_def contract_can_read_def capsule_can_read_def can_read_def bytes_def)
    then show ?thesis by (auto simp: capsule_read_Inr)
  qed
  moreover have "bytes 0 \<noteq> bytes 1" by (simp add: bytes_def)
  ultimately show ?thesis by blast
qed

end
