(* ===== verification/Native_Program.thy ===== *)
theory Native_Program
  imports Native_Tensor Capsule_Integrity "HOL-Library.Multiset"
begin

text \<open>
  What holds of shards, the content store and loaded programs: the NTP97 format is read back and is
  canonical, a content store only ever holds content under its own hash, whatever
  \<open>load_native_program\<close> returns is well-formed, and a program that is packed into a capsule, written,
  read and loaded comes back as it was.
\<close>

section \<open>The shard format\<close>

lemma nt_decode_dtype_Inr: "nt_decode_dtype t = Inr dt \<longleftrightarrow> t = dtype_tag dt"
  by (cases dt) (auto simp: nt_decode_dtype_def)

lemma nt_decode_dtype_tag [simp]: "nt_decode_dtype (dtype_tag dt) = Inr dt"
  by (simp add: nt_decode_dtype_Inr)

lemma validate_scale_Inr [simp]: "validate_scale s = Inr u \<longleftrightarrow> finite_positive s"
  by (simp add: validate_scale_def)

lemma i8_range_0 [simp]: "i8_range 0"
  by (simp add: i8_range_def)

lemma quantization_inverse:
  "decode_quantization tag s z = Inr q \<longleftrightarrow> encode_quantization q = Inr (tag, s, z)"
  by (cases q) (auto simp: decode_quantization_def split: if_splits)

lemma length_native_tensor_magic [simp]: "length native_tensor_magic = 6"
  by (simp add: native_tensor_magic_def)

lemma push_each_u64: "push_each push_u64 ws = Inr bs \<longleftrightarrow> bs = concat (map u64_le ws)"
  by (induction ws arbitrary: bs) (auto simp: push_raw_def)

text \<open>The bytes of a shard with \<open>n\<close> elements under minor version \<open>mn\<close>.\<close>

definition shard_bytes :: "u16 \<Rightarrow> u64 \<Rightarrow> tensor_fields \<Rightarrow> u8 list" where
  "shard_bytes mn n f =
    native_tensor_magic @ u16_le 80 @ u16_le 0 @ u16_le mn @ u32_le (tf_id f) @ u32_le (tf_graph_value_raw f)
    @ [dtype_tag (tf_dtype f)] @ [tf_quant_tag f] @ [of_nat (length (tf_shape f))] @ [0]
    @ u64_le n @ u64_le (tf_payload_len f) @ u32_le (tf_scale_bits f) @ u32_le (tf_zero_point f)
    @ tf_descriptor_hash f @ concat (map u64_le (tf_shape f)) @ tf_payload f"

definition fields_fit :: "u64 \<Rightarrow> tensor_fields \<Rightarrow> bool" where
  "fields_fit n f \<longleftrightarrow> length (tf_descriptor_hash f) = 32 \<and> length (tf_shape f) < 256
    \<and> element_count (tf_shape f) = Inr n \<and> unat (tf_payload_len f) = length (tf_payload f)"

lemma reads_tensor_fields:
  assumes "fields_fit n f" and "mn \<le> 1"
  shows "reads decode_tensor_fields (shard_bytes mn n f) f"
proof -
  have shape: "reads (take_n (length (tf_shape f)) (take_u64 nt_cerr)) (concat (map u64_le (tf_shape f))) (tf_shape f)"
    by (rule u64_codec.each) (simp_all add: push_each_u64)
  have payload: "reads (dbind (take_bytes nt_cerr (length (tf_payload f)))
      (\<lambda>payload. dret (f\<lparr>tf_payload := payload\<rparr>))) (tf_payload f) f"
    by (intro reads_dbind_last [OF reads_take_bytes]) (auto intro!: reads_dret)
  have rec: "\<lparr>tf_id = tf_id f, tf_graph_value_raw = tf_graph_value_raw f, tf_dtype = tf_dtype f, tf_quant_tag = tf_quant_tag f,
    tf_scale_bits = tf_scale_bits f, tf_zero_point = tf_zero_point f, tf_descriptor_hash = tf_descriptor_hash f,
    tf_shape = tf_shape f, tf_payload_len = tf_payload_len f, tf_payload = p\<rparr> = f\<lparr>tf_payload := p\<rparr>" for p
    by (cases f) simp
  show ?thesis
    unfolding decode_tensor_fields_def shard_bytes_def
    using assms
    by (auto simp: leD unat_len_u8 rec fields_fit_def intro!: payload reads_dbind [OF reads_take_bytes]
        reads_dbind [OF reads_u16] reads_u8_Cons reads_dbind [OF reads_u32] reads_dbind [OF reads_u64] reads_dbind [OF shape])
qed

lemma accepts_tensor_fields:
  "accepts decode_tensor_fields (\<lambda>f bs. \<exists>mn \<le> 1. \<exists>n. fields_fit n f \<and> bs = shard_bytes mn n f)"
  unfolding decode_tensor_fields_def
  apply (rule accepts_dbind [OF accepts_take_bytes])
  apply (clarsimp simp: accepts_dfail)
  apply (rule accepts_dbind [OF accepts_u16])
  apply (clarsimp simp: accepts_dfail unat_eq_small)
  apply (rule accepts_dbind [OF accepts_u16])
  apply (rule accepts_dbind [OF accepts_u16])
  apply (clarsimp simp: accepts_dfail not_less)
  apply (rule accepts_dbind [OF accepts_u32])
  apply (rule accepts_dbind [OF accepts_u32])
  apply (rule accepts_dbind [OF accepts_u8])
  apply (rule accepts_dbind_dlift)
  apply (rule accepts_dbind [OF accepts_u8])
  apply (rule accepts_dbind [OF accepts_u8])
  apply (rule accepts_dbind [OF accepts_u8])
  apply (clarsimp simp: accepts_dfail nt_decode_dtype_Inr)
  apply (rule accepts_dbind [OF accepts_u64])
  apply (rule accepts_dbind [OF accepts_u64])
  apply (rule accepts_dbind [OF accepts_u32])
  apply (rule accepts_dbind [OF accepts_u32])
  apply (rule accepts_dbind [OF accepts_take_bytes])
  apply (rule accepts_dbind [OF u64_codec.each_accepts])
  apply (rule accepts_dbind_dlift)
  apply (clarsimp simp: accepts_dfail)
  apply (rule accepts_dbind [OF accepts_take_bytes])
  apply (rule accepts_dret)
  apply (auto simp: shard_bytes_def fields_fit_def push_each_u64)
  done

text \<open>The fields under which a tensor is written.\<close>

definition tensor_fields_of :: "native_tensor \<Rightarrow> u8 \<Rightarrow> u32 \<Rightarrow> i32 \<Rightarrow> digest \<Rightarrow> tensor_fields" where
  "tensor_fields_of t tag s z hash =
    \<lparr>tf_id = td_id (nt_descriptor t),
     tf_graph_value_raw = (case nt_graph_value t of None \<Rightarrow> NO_GRAPH_BINDING | Some v \<Rightarrow> v),
     tf_dtype = td_dtype (nt_descriptor t), tf_quant_tag = tag, tf_scale_bits = s, tf_zero_point = z,
     tf_descriptor_hash = hash, tf_shape = td_shape (nt_descriptor t), tf_payload_len = td_byte_len (nt_descriptor t),
     tf_payload = nt_payload t\<rparr>"

text \<open>
  \<open>NO_GRAPH_BINDING\<close> stands for the absent binding, so a tensor bound to that very value is not told
  apart from an unbound one.
\<close>

definition tensor_bindable :: "native_tensor \<Rightarrow> bool" where
  "tensor_bindable t \<longleftrightarrow> nt_graph_value t \<noteq> Some NO_GRAPH_BINDING"

lemma assemble_fields_of: "tensor_bindable t \<Longrightarrow> assemble_tensor (tensor_fields_of t tag s z hash) (nt_quantization t) = t"
  by (cases "nt_graph_value t") (simp_all add: assemble_tensor_def tensor_fields_of_def tensor_bindable_def)

lemma validate_tensor_len:
  "validate_tensor t = Inr () \<Longrightarrow> of_nat (length (nt_payload t)) = td_byte_len (nt_descriptor t)"
  "validate_tensor t = Inr () \<Longrightarrow> unat (td_byte_len (nt_descriptor t)) = length (nt_payload t)"
  by (auto simp: validate_tensor_def unat_len_u64 split: if_splits)

lemma encode_native_tensor_Inr:
  "encode_native_tensor t = Inr bs \<longleftrightarrow>
    (\<exists>desc n tag s z.
      validate_tensor t = Inr () \<and> encode_tensor_descriptors [nt_descriptor t] = Inr desc
      \<and> encode_quantization (nt_quantization t) = Inr (tag, s, z)
      \<and> fields_fit n (tensor_fields_of t tag s z (sha256 desc))
      \<and> int (80 + length (td_shape (nt_descriptor t)) * 8 + length (nt_payload t)) < usize_bound
      \<and> bs = shard_bytes 1 n (tensor_fields_of t tag s z (sha256 desc)))"
    (is "?enc \<longleftrightarrow> ?image")
proof
  assume ?enc
  then have "validate_tensor t = Inr ()" by (auto simp: encode_native_tensor_def)
  with \<open>?enc\<close> show ?image
    by (auto simp: validate_tensor_len encode_native_tensor_def Let_def fields_fit_def tensor_fields_of_def shard_bytes_def
        push_each_u64 split: if_splits)
next
  assume ?image
  then have "validate_tensor t = Inr ()" by blast
  with \<open>?image\<close> show ?enc
    by (auto simp: validate_tensor_len encode_native_tensor_def Let_def fields_fit_def tensor_fields_of_def shard_bytes_def
        push_each_u64 simp flip: validate_tensor_len(2))
qed

lemma length_shard_bytes:
  "fields_fit n f \<Longrightarrow> length (shard_bytes mn n f) = 80 + 8 * length (tf_shape f) + length (tf_payload f)"
proof -
  have "length (concat (map u64_le ws)) = 8 * length ws" for ws by (induction ws) simp_all
  then show "fields_fit n f \<Longrightarrow> ?thesis" by (simp add: shard_bytes_def fields_fit_def)
qed

lemma decode_encode_native_tensor:
  assumes "encode_native_tensor t = Inr bs" and "tensor_bindable t"
  shows "decode_native_tensor bs = Inr t"
proof -
  from assms(1) obtain desc n tag s z where t: "validate_tensor t = Inr ()"
    and desc: "encode_tensor_descriptors [nt_descriptor t] = Inr desc"
    and q: "encode_quantization (nt_quantization t) = Inr (tag, s, z)"
    and fit: "fields_fit n (tensor_fields_of t tag s z (sha256 desc))"
    and small: "int (80 + length (td_shape (nt_descriptor t)) * 8 + length (nt_payload t)) < usize_bound"
    and bs: "bs = shard_bytes 1 n (tensor_fields_of t tag s z (sha256 desc))"
    unfolding encode_native_tensor_Inr by blast
  let ?f = "tensor_fields_of t tag s z (sha256 desc)"
  have "int (length bs) < usize_bound"
    using small unfolding bs length_shard_bytes [OF fit] by (simp add: tensor_fields_of_def mult.commute)
  then have fields: "decode_all Nt_NonCanonicalEncoding decode_tensor_fields bs = Inr ?f"
    unfolding bs by (intro decode_all_reads reads_tensor_fields [OF fit]) simp_all
  have tags: "tf_quant_tag ?f = tag" "tf_scale_bits ?f = s" "tf_zero_point ?f = z" "tf_descriptor_hash ?f = sha256 desc"
    by (simp_all add: tensor_fields_of_def)
  have "decode_quantization tag s z = Inr (nt_quantization t)" using q by (simp add: quantization_inverse)
  then show ?thesis
    unfolding decode_native_tensor_def fields
    by (simp add: tags assemble_fields_of [OF assms(2)] t desc Let_def)
qed

lemma decoded_native_tensor:
  assumes "decode_native_tensor bs = Inr t" and "int (length bs) < usize_bound"
  shows "validate_tensor t = Inr ()" "tensor_bindable t"
    "\<exists>mn \<le> 1. \<exists>desc n tag s z. encode_tensor_descriptors [nt_descriptor t] = Inr desc
      \<and> encode_quantization (nt_quantization t) = Inr (tag, s, z)
      \<and> fields_fit n (tensor_fields_of t tag s z (sha256 desc))
      \<and> bs = shard_bytes mn n (tensor_fields_of t tag s z (sha256 desc))"
proof -
  from assms(1) obtain f q desc where f: "decode_all Nt_NonCanonicalEncoding decode_tensor_fields bs = Inr f"
    and q: "decode_quantization (tf_quant_tag f) (tf_scale_bits f) (tf_zero_point f) = Inr q"
    and t: "t = assemble_tensor f q" and valid: "validate_tensor t = Inr ()"
    and desc: "encode_tensor_descriptors [nt_descriptor t] = Inr desc" and hash: "sha256 desc = tf_descriptor_hash f"
    by (auto simp: decode_native_tensor_def Let_def split: if_splits)
  from decode_all_accepts [OF accepts_tensor_fields f assms(2)]
  obtain mn n where mn: "mn \<le> 1" and fit: "fields_fit n f" and bs: "bs = shard_bytes mn n f" by blast
  show "validate_tensor t = Inr ()" by (rule valid)
  show "tensor_bindable t" by (simp add: t assemble_tensor_def tensor_bindable_def)
  have same: "tensor_fields_of t (tf_quant_tag f) (tf_scale_bits f) (tf_zero_point f) (sha256 desc) = f"
    by (simp add: t assemble_tensor_def tensor_fields_of_def hash)
  have "nt_quantization t = q" by (simp add: t assemble_tensor_def)
  then show "\<exists>mn \<le> 1. \<exists>desc n tag s z. encode_tensor_descriptors [nt_descriptor t] = Inr desc
      \<and> encode_quantization (nt_quantization t) = Inr (tag, s, z)
      \<and> fields_fit n (tensor_fields_of t tag s z (sha256 desc))
      \<and> bs = shard_bytes mn n (tensor_fields_of t tag s z (sha256 desc))"
    using mn fit bs desc q same unfolding quantization_inverse by metis
qed

section \<open>The content store\<close>

text \<open>A store that is addressed by content: what it returns has the hash it was asked for.\<close>

locale content_addressed =
  fixes get :: "'s \<Rightarrow> content_store" and inv :: "'s \<Rightarrow> bool"
  assumes get_hash: "inv s \<Longrightarrow> get s h = Some bytes \<Longrightarrow> sha256 bytes = h"
begin

text \<open>The integrity check of \<open>resolve_chunk\<close> never fails on such a store.\<close>

lemma resolve_no_mismatch: "inv s \<Longrightarrow> resolve_chunk c (get s) \<noteq> Inl (Nt_ExternalIntegrityMismatch h)"
  by (cases "cw_storage c"; cases "get s (cw_hash c)")
    (auto simp: resolve_chunk_def len_u64_def get_hash)

lemma resolve_external:
  "inv s \<Longrightarrow> cw_storage c = StoExternal \<Longrightarrow> get s (cw_hash c) = Some bytes \<Longrightarrow> int (length bytes) < 2 ^ 64
    \<Longrightarrow> cw_logical_len c = of_nat (length bytes) \<Longrightarrow> resolve_chunk c (get s) = Inr bytes"
  by (simp add: resolve_chunk_def len_u64_def get_hash)

end

definition store_wf :: "memory_content_store \<Rightarrow> bool" where
  "store_wf s \<longleftrightarrow> bt_wf (ms_entries s) \<and> (\<forall>(h, bytes) \<in> set (ms_entries s). sha256 bytes = h)"

interpretation mcs_store: content_addressed store_get store_wf
  by unfold_locales (auto simp: store_get_def store_wf_def dest!: map_of_SomeD)

lemma store_wf_new: "store_wf store_new"
  by (simp add: store_wf_def store_new_def)

lemma entry_or_insert_wf: "store_wf s \<Longrightarrow> sha256 bytes = hash \<Longrightarrow> store_wf (entry_or_insert hash bytes s)"
  using set_bt_insert [of hash bytes "ms_entries s"]
  by (auto simp: store_wf_def entry_or_insert_def split: if_splits)

lemma entry_or_insert_get:
  assumes "store_wf s"
  shows "store_get (entry_or_insert hash bytes s) h =
    (if h = hash \<and> store_get s h = None then Some bytes else store_get s h)"
  using assms by (auto simp: entry_or_insert_def store_get_def bt_contains_def bt_get_insert store_wf_def)

text \<open>
  A memory content store holds content only under its own SHA-256, and never replaces any.
  \<open>insert\<close> keeps this, returns the hash of the bytes and makes it resolvable; \<open>insert_verified\<close>
  either refuses, exactly when the hash is not that of the bytes, and changes nothing, or does the
  same. A chunk resolved against such a store never fails its integrity check.
\<close>
theorem content_store_authentic:
  assumes "store_wf s"
  shows "(case store_insert bytes s of (h, s') \<Rightarrow>
      h = sha256 bytes \<and> store_wf s' \<and> store_get s \<subseteq>\<^sub>m store_get s' \<and> store_get s' h \<noteq> None)
    \<and> (case store_insert_verified hash bytes s of
        (Inl e, s') \<Rightarrow> e = Nt_ExternalIntegrityMismatch hash \<and> sha256 bytes \<noteq> hash \<and> s' = s
      | (Inr _, s') \<Rightarrow> sha256 bytes = hash \<and> store_wf s' \<and> store_get s \<subseteq>\<^sub>m store_get s' \<and> store_get s' hash \<noteq> None)
    \<and> resolve_chunk c (store_get s) \<noteq> Inl (Nt_ExternalIntegrityMismatch hash)"
  using assms mcs_store.resolve_no_mismatch [OF assms, of c hash]
  by (auto simp: store_insert_def store_insert_verified_def Let_def entry_or_insert_wf entry_or_insert_get map_le_def
      dom_def sfail_def smodify_def)

theorem content_store_authentic_witness:
  "store_wf store_new \<and> store_wf (snd (store_insert [1, 2, 3] store_new))"
  using content_store_authentic [OF store_wf_new, of "[1, 2, 3]" "[]" "chunk_view_of \<lparr>sp_kind = SecGraph, sp_source = SrcEmbedded []\<rparr>"]
    store_wf_new
  by (simp add: store_insert_def Let_def)

section \<open>Loading\<close>

definition tensor_id :: "native_tensor \<Rightarrow> u32" where
  "tensor_id t = td_id (nt_descriptor t)"

text \<open>The bindings of a list of tensors, in order.\<close>

definition bindings_of :: "native_tensor list \<Rightarrow> value_id list" where
  "bindings_of ts = List.map_filter nt_graph_value ts"

lemma bindings_of_simps [simp]:
  "bindings_of [] = []"
  "bindings_of (t # ts) = (case nt_graph_value t of None \<Rightarrow> bindings_of ts | Some v \<Rightarrow> v # bindings_of ts)"
  by (simp_all add: bindings_of_def List.map_filter_simps split: option.splits)

text \<open>A binding names a graph input of the type and rank of the tensor.\<close>

definition binding_ok :: "graph \<Rightarrow> native_tensor \<Rightarrow> bool" where
  "binding_ok g t = (case nt_graph_value t of None \<Rightarrow> True
    | Some v \<Rightarrow> validate_graph_binding g v (nt_descriptor t) = Inr ())"

lemma check_shards_Inr:
  "check_shards g table ids bindings ts = Inr seen \<longleftrightarrow>
    seen = rev (map tensor_id ts) @ ids
    \<and> distinct (map tensor_id ts) \<and> set (map tensor_id ts) \<inter> set ids = {}
    \<and> distinct (bindings_of ts) \<and> set (bindings_of ts) \<inter> set bindings = {}
    \<and> (\<forall>t \<in> set ts. bt_get table (tensor_id t) = Some (nt_descriptor t) \<and> binding_ok g t)"
proof (induction ts arbitrary: ids bindings)
  case Nil
  then show ?case by auto
next
  case (Cons t ts)
  show ?case
  proof (cases "nt_graph_value t")
    case None
    then show ?thesis
      by (auto simp: Let_def Cons.IH tensor_id_def binding_ok_def)
  next
    case (Some v)
    then show ?thesis
      by (auto simp: Let_def Cons.IH tensor_id_def binding_ok_def)
  qed
qed

lemma index_descriptors_Inr:
  "bt_wf m \<Longrightarrow> index_descriptors ds m = Inr m' \<Longrightarrow>
    bt_wf m' \<and> distinct (map td_id ds) \<and> fst ` set m' = td_id ` set ds \<union> fst ` set m
    \<and> td_id ` set ds \<inter> fst ` set m = {}
    \<and> (\<forall>i. bt_get m' i = (case bt_get m i of Some d \<Rightarrow> Some d | None \<Rightarrow> find (\<lambda>d. td_id d = i) ds))"
proof (induction ds arbitrary: m)
  case Nil
  then show ?case by (auto split: option.splits)
next
  case (Cons d ds)
  let ?m = "bt_insert (td_id d) d m"
  from Cons.prems(2) have new: "bt_get m (td_id d) = None" and rest: "index_descriptors ds ?m = Inr m'"
    by (auto simp: bt_contains_def split: if_splits)
  have wf: "bt_wf ?m" using Cons.prems(1) by simp
  have fresh: "td_id d \<notin> fst ` set m" using new by (simp add: map_of_eq_None_iff)
  have dom: "fst ` set ?m = insert (td_id d) (fst ` set m)"
    using Cons.prems(1) by (simp add: dom_map_of_conv_image_fst [symmetric] dom_def bt_get_insert) auto
  show ?case
    using Cons.IH [OF wf rest] new fresh Cons.prems(1)
    by (auto simp: dom bt_get_insert split: option.splits if_splits)
qed

lemma index_descriptors_succeeds:
  "bt_wf m \<Longrightarrow> distinct (map td_id ds) \<Longrightarrow> td_id ` set ds \<inter> fst ` set m = {} \<Longrightarrow> \<exists>m'. index_descriptors ds m = Inr m'"
proof (induction ds arbitrary: m)
  case (Cons d ds)
  let ?m = "bt_insert (td_id d) d m"
  have "fst ` set ?m \<subseteq> insert (td_id d) (fst ` set m)" using set_bt_insert [of "td_id d" d m] by force
  moreover have "td_id d \<notin> td_id ` set ds" "td_id ` set ds \<inter> fst ` set m = {}" using Cons.prems by auto
  moreover have "C \<inter> A = {}" if "A \<subseteq> insert x B" "x \<notin> C" "C \<inter> B = {}" for A B C and x :: u32
    using that by blast
  ultimately have "td_id ` set ds \<inter> fst ` set ?m = {}" by metis
  then have "\<exists>m'. index_descriptors ds ?m = Inr m'" using Cons.prems(1,2) by (intro Cons.IH) simp_all
  moreover have "bt_get m (td_id d) = None" using Cons.prems(3) by (auto simp: map_of_eq_None_iff)
  ultimately show ?case by (simp add: bt_contains_def)
qed simp

text \<open>What the loader guarantees of a program.\<close>

definition program_wf :: "native_program \<Rightarrow> bool" where
  "program_wf p \<longleftrightarrow>
    graph_validate (np_graph p) = Inr ()
    \<and> sorted_wrt (<) (map tensor_id (np_tensors p))
    \<and> distinct (bindings_of (np_tensors p))
    \<and> (\<forall>t \<in> set (np_tensors p). validate_tensor t = Inr () \<and> tensor_bindable t \<and> binding_ok (np_graph p) t)"

text \<open>Every embedded chunk of a view fits the address space, as any slice does.\<close>

definition view_fits :: "capsule_view \<Rightarrow> bool" where
  "view_fits v \<longleftrightarrow> (\<forall>c \<in> set (vw_chunks v). \<forall>bs. cw_storage c = StoEmbedded bs \<longrightarrow> int (length bs) < usize_bound)"

lemma resolve_chunk_fits:
  assumes "resolve_chunk c store = Inr bytes" and "view_fits v" and "c \<in> set (vw_chunks v)"
  shows "int (length bytes) < usize_bound"
  using assms by (cases "cw_storage c") (auto simp: resolve_chunk_def view_fits_def usize_bound_def split: if_splits)

lemma sort_chunks_valid:
  assumes "sort_chunks store cs table shards = Inr (table', shards')" and "view_fits v" and "set cs \<subseteq> set (vw_chunks v)"
    and "\<forall>t \<in> set shards. validate_tensor t = Inr () \<and> tensor_bindable t"
  shows "\<forall>t \<in> set shards'. validate_tensor t = Inr () \<and> tensor_bindable t"
  using assms
proof (induction cs arbitrary: table shards)
  case (Cons c cs)
  from Cons.prems(1) obtain bytes where bytes: "resolve_chunk c store = Inr bytes" by auto
  have fits: "int (length bytes) < usize_bound"
    using resolve_chunk_fits [OF bytes Cons.prems(2)] Cons.prems(3) by simp
  show ?case
  proof (cases "starts_with bytes tensor_descriptor_magic")
    case True
    with Cons.prems(1) bytes obtain ds where "sort_chunks store cs (Some ds) shards = Inr (table', shards')"
      by (auto split: if_splits)
    then show ?thesis using Cons.prems(2,3,4) by (intro Cons.IH) simp_all
  next
    case False
    with Cons.prems(1) bytes obtain t where t: "decode_native_tensor bytes = Inr t"
      and rest: "sort_chunks store cs table (shards @ [t]) = Inr (table', shards')"
      by (auto split: if_splits)
    have "\<forall>t' \<in> set (shards @ [t]). validate_tensor t' = Inr () \<and> tensor_bindable t'"
      using Cons.prems(4) decoded_native_tensor(1,2) [OF t fits] by auto
    then show ?thesis using Cons.prems(2,3) by (intro Cons.IH [OF rest]) auto
  qed
qed simp

lemma distinct_bindings_perm:
  assumes "distinct (bindings_of ts)" and "mset ts = mset ts'"
  shows "distinct (bindings_of ts')"
proof -
  have "mset (bindings_of ts) = mset (bindings_of ts')"
    using arg_cong [OF assms(2), of "\<lambda>M. image_mset (the \<circ> nt_graph_value) (filter_mset (\<lambda>t. nt_graph_value t \<noteq> None) M)"]
    by (simp add: bindings_of_def List.map_filter_def)
  then show ?thesis using assms(1) by (metis mset_eq_imp_distinct_iff)
qed

text \<open>
  C29: Whatever \<open>load_native_program\<close> returns is well-formed, for every capsule and every store: the
  graph passes validation; the tensors are in strictly ascending order of their identifiers; each has
  a payload of exactly the length its shape, type and quantization call for; and no two of them are
  bound to the same graph input, each binding naming an input of the tensor's type and rank.
\<close>
theorem load_native_program_sound:
  assumes "load_native_program v store = Inr p" and "view_fits v"
  shows "program_wf p"
proof -
  let ?cs = "filter (\<lambda>c. cw_kind c = SecTensors) (vw_chunks v)"
  from assms(1) obtain content g table shards ds m seen where g: "decode_graph content = Inr g"
    and sorted: "sort_chunks store ?cs None [] = Inr (table, shards)"
    and shards: "check_shards g m [] [] shards = Inr seen"
    and p: "p = \<lparr>np_graph = g, np_tensors = sort_key (\<lambda>t. td_id (nt_descriptor t)) shards\<rparr>"
    unfolding load_native_program_def by auto
  have valid: "\<forall>t \<in> set shards. validate_tensor t = Inr () \<and> tensor_bindable t"
    using sort_chunks_valid [OF sorted assms(2)] by auto
  have ids: "distinct (map tensor_id shards)" "distinct (bindings_of shards)" "\<forall>t \<in> set shards. binding_ok g t"
    using shards by (auto simp: check_shards_Inr)
  have tid: "(\<lambda>t. td_id (nt_descriptor t)) = tensor_id" by (simp add: tensor_id_def fun_eq_iff)
  have "sorted_wrt (<) (map tensor_id (np_tensors p))"
    using ids(1) by (simp add: p tid strict_sorted_iff distinct_map)
  moreover have "distinct (bindings_of (np_tensors p))"
    using ids(2) by (rule distinct_bindings_perm) (simp add: p)
  moreover have "graph_validate g = Inr ()" using g by (auto simp: decode_graph_def split: if_splits)
  ultimately show ?thesis using valid ids(3) by (simp add: program_wf_def p)
qed

section \<open>Packing and loading\<close>

text \<open>A program put into a builder section by section: graph, descriptor table, shards.\<close>

fun push_shards :: "native_tensor list \<Rightarrow> (capsule_builder, native_tensor_error, unit) op" where
  "push_shards [] = sret ()"
| "push_shards (t # ts) = sbind (push_native_tensor_shard t) (\<lambda>_. push_shards ts)"

definition pack_program :: "native_program \<Rightarrow> (capsule_builder, native_tensor_error, unit) op" where
  "pack_program p =
    sbind (sfield (\<lambda>b. b) (\<lambda>b _. b) Nt_Graph (push_graph_section (np_graph p))) (\<lambda>_.
    sbind (push_tensor_descriptor_section (map nt_descriptor (np_tensors p))) (\<lambda>_.
    push_shards (np_tensors p)))"

abbreviation embedded :: "section_kind \<Rightarrow> u8 list \<Rightarrow> chunk_spec" where
  "embedded k bytes \<equiv> \<lparr>sp_kind = k, sp_source = SrcEmbedded bytes\<rparr>"

lemma push_shards_chunks:
  "push_shards ts b = (Inr (), b') \<Longrightarrow> \<exists>bss. list_all2 (\<lambda>t bs. encode_native_tensor t = Inr bs) ts bss
    \<and> b' = b\<lparr>cb_chunks := cb_chunks b @ map (embedded SecTensors) bss\<rparr>"
proof (induction ts arbitrary: b)
  case Nil
  then show ?case by (simp add: sret_def)
next
  case (Cons t ts)
  from Cons.prems obtain bs where bs: "encode_native_tensor t = Inr bs"
    and rest: "push_shards ts (push_embedded SecTensors bs b) = (Inr (), b')"
    by (auto simp: push_native_tensor_shard_def sbind_def slift_def smodify_def split: sum.splits)
  from Cons.IH [OF rest] obtain bss where "list_all2 (\<lambda>t bs. encode_native_tensor t = Inr bs) ts bss"
    "b' = b\<lparr>cb_chunks := cb_chunks b @ map (embedded SecTensors) (bs # bss)\<rparr>"
    by (auto simp: push_embedded_def)
  with bs show ?case by (intro exI [of _ "bs # bss"]) simp
qed

lemma pack_program_chunks:
  assumes "pack_program p b = (Inr (), b')"
  shows "\<exists>gb db bss. encode_graph (np_graph p) = Inr gb
    \<and> encode_tensor_descriptors (map nt_descriptor (np_tensors p)) = Inr db
    \<and> list_all2 (\<lambda>t bs. encode_native_tensor t = Inr bs) (np_tensors p) bss
    \<and> b' = b\<lparr>cb_chunks := cb_chunks b @ embedded SecGraph gb # embedded SecTensors db # map (embedded SecTensors) bss\<rparr>"
proof -
  from assms obtain gb db where "encode_graph (np_graph p) = Inr gb"
    and "encode_tensor_descriptors (map nt_descriptor (np_tensors p)) = Inr db"
    and rest: "push_shards (np_tensors p) (push_embedded SecTensors db (push_embedded SecGraph gb b)) = (Inr (), b')"
    by (auto simp: pack_program_def push_graph_section_def push_tensor_descriptor_section_def sbind_def slift_def
        smodify_def sfield_def split: sum.splits)
  with push_shards_chunks [OF rest] show ?thesis by (auto simp: push_embedded_def)
qed

text \<open>Shards are told apart from the table by their first bytes.\<close>

lemma shard_starts: "encode_native_tensor t = Inr bs \<Longrightarrow>
    starts_with bs native_tensor_magic \<and> \<not> starts_with bs tensor_descriptor_magic"
  unfolding encode_native_tensor_Inr
  by (auto simp: starts_with_def shard_bytes_def native_tensor_magic_def tensor_descriptor_magic_def)

lemma table_starts: "encode_tensor_descriptors ds = Inr bs \<Longrightarrow> starts_with bs tensor_descriptor_magic"
  unfolding encode_tensor_descriptors_bytes
  by (auto simp: starts_with_def tensor_table_bytes_def)

lemma sort_shards:
  assumes "list_all2 (\<lambda>t bs. encode_native_tensor t = Inr bs) ts bss" and "\<forall>t \<in> set ts. tensor_bindable t"
  shows "sort_chunks store (map (\<lambda>bs. chunk_view_of (embedded SecTensors bs)) bss) table shards =
    Inr (table, shards @ ts)"
  using assms
proof (induction ts bss arbitrary: shards rule: list_all2_induct)
  case (Cons t ts bs bss)
  then show ?case
    using shard_starts [OF Cons.hyps(1)] decode_encode_native_tensor [OF Cons.hyps(1)]
    by (simp add: chunk_view_of_def resolve_chunk_def)
qed simp

lemma sort_key_sorted: "sorted (map f xs) \<Longrightarrow> sort_key f xs = xs"
  by (induction xs) (auto simp: insort_is_Cons)

lemma find_descriptor:
  "distinct (map tensor_id ts) \<Longrightarrow> t \<in> set ts
    \<Longrightarrow> find (\<lambda>d. td_id d = tensor_id t) (map nt_descriptor ts) = Some (nt_descriptor t)"
  by (induction ts) (auto simp: tensor_id_def image_iff)

lemma decode_encoded_graph:
  "encode_graph g = Inr bs \<Longrightarrow> graph_strs_ok g \<Longrightarrow> int (length bs) < usize_bound \<Longrightarrow> decode_graph bs = Inr g"
  by (rule decode_graph_after_reads) (auto intro: reads_graph simp: encode_graph_def split: if_splits)

lemma load_packed:
  assumes wf: "program_wf p" and strs: "graph_strs_ok (np_graph p)"
    and gb: "encode_graph (np_graph p) = Inr gb" "int (length gb) < usize_bound"
    and db: "encode_tensor_descriptors (map nt_descriptor (np_tensors p)) = Inr db" "int (length db) < usize_bound"
    and bss: "list_all2 (\<lambda>t bs. encode_native_tensor t = Inr bs) (np_tensors p) bss"
    and graph: "filter (\<lambda>c. cw_kind c = SecGraph) (vw_chunks v) = [chunk_view_of (embedded SecGraph gb)]"
    and tensors: "filter (\<lambda>c. cw_kind c = SecTensors) (vw_chunks v) =
      map (\<lambda>bs. chunk_view_of (embedded SecTensors bs)) (db # bss)"
  shows "load_native_program v store = Inr p"
proof -
  let ?ts = "np_tensors p" and ?g = "np_graph p"
  have sorted: "sorted_wrt (<) (map tensor_id ?ts)" and bind: "distinct (bindings_of ?ts)"
    and each: "\<forall>t \<in> set ?ts. validate_tensor t = Inr () \<and> tensor_bindable t \<and> binding_ok ?g t"
    using wf by (simp_all add: program_wf_def)
  then have ids: "distinct (map tensor_id ?ts)" by (simp add: strict_sorted_iff)
  have tid: "td_id \<circ> nt_descriptor = tensor_id" by (simp add: tensor_id_def fun_eq_iff)
  obtain m where m: "index_descriptors (map nt_descriptor ?ts) [] = Inr m"
    using index_descriptors_succeeds [of "[]" "map nt_descriptor ?ts"] ids by (auto simp: tid)
  have keys: "fst ` set m = tensor_id ` set ?ts"
    using index_descriptors_Inr [OF bt_wf_Nil m] by (simp add: image_image tensor_id_def)
  have look: "bt_get m (tensor_id t) = Some (nt_descriptor t)" if "t \<in> set ?ts" for t
    using index_descriptors_Inr [OF bt_wf_Nil m] find_descriptor [OF ids that] by simp
  have shards: "check_shards ?g m [] [] ?ts = Inr (rev (map tensor_id ?ts))"
    using ids bind each look by (simp add: check_shards_Inr)
  have all: "check_all (\<lambda>i. if i \<in> set (rev (map tensor_id ?ts)) then Inr () else Inl (Nt_MissingTensorShard i)) (map fst m) = Inr ()"
    using keys by auto
  have "sort_chunks store (filter (\<lambda>c. cw_kind c = SecTensors) (vw_chunks v)) None [] =
      sort_chunks store (map (\<lambda>bs. chunk_view_of (embedded SecTensors bs)) bss) (Some (map nt_descriptor ?ts)) []"
    using table_starts [OF db(1)] decode_encode_tensor_descriptors [OF db]
    by (simp add: tensors chunk_view_of_def resolve_chunk_def)
  also have "\<dots> = Inr (Some (map nt_descriptor ?ts), ?ts)"
    using sort_shards [OF bss] each by simp
  finally have chunks: "sort_chunks store (filter (\<lambda>c. cw_kind c = SecTensors) (vw_chunks v)) None [] =
    Inr (Some (map nt_descriptor ?ts), ?ts)" .
  have "sort_key (\<lambda>t. td_id (nt_descriptor t)) ?ts = ?ts"
    using sorted by (intro sort_key_sorted) (simp add: strict_sorted_iff tensor_id_def [abs_def])
  then show ?thesis
    unfolding load_native_program_def graph chunks
    using shards all decode_encoded_graph [OF gb(1) strs gb(2)] m
    by (simp add: chunk_view_of_def resolve_chunk_def)
qed

text \<open>What a reader sees of a written builder; every embedded section fits the address space.\<close>

lemma written_view:
  assumes "builder_typed b" and "capsule_write b = Inr bytes"
  obtains v where "capsule_read bytes = Inr v" "vw_chunks v = map chunk_view_of (cb_chunks b)"
    "\<forall>k bs. embedded k bs \<in> set (cb_chunks b) \<longrightarrow> int (length bs) < usize_bound"
  using assms(1)
proof (cases rule: capsule_write_cases)
  case (written es bytes')
  let ?v = "view_of b (written_root b es)"
  have same: "bytes' = bytes" using written(3) assms(2) by simp
  have small: "int (length bytes) < usize_bound"
    using lay_chunks_file_len [OF written(4)] payload_start_small [OF written(2)] same by simp
  have r: "reading bytes es ?v" using written(5) by (simp add: same)
  have sound: "\<forall>c \<in> set (vw_chunks ?v). chunk_sound bytes (vw_kind ?v) c"
    using read_chunks_sound [of bytes "vw_kind ?v" es] r unfolding reading_def by blast
  have "int (length bs) < usize_bound" if "embedded k bs \<in> set (cb_chunks b)" for k bs
  proof -
    have "chunk_view_of (embedded k bs) \<in> set (vw_chunks ?v)" using that by (simp add: view_of_def)
    from bspec [OF sound this] small show ?thesis by (auto simp: chunk_sound_def chunk_view_of_def)
  qed
  moreover have "capsule_read bytes = Inr ?v" using r by (auto simp: capsule_read_Inr)
  ultimately show thesis using that [of ?v] by (auto simp: view_of_def)
qed (use assms(2) in auto)

lemma cw_kind_view [simp]: "cw_kind (chunk_view_of c) = sp_kind c"
  by (simp add: chunk_view_of_def split: chunk_source.splits)

lemma filter_views: "filter (\<lambda>c. cw_kind c = k) (map chunk_view_of cs) = map chunk_view_of (filter (\<lambda>c. sp_kind c = k) cs)"
  by (simp add: filter_map comp_def)

lemma filter_other: "list_all (\<lambda>c. sp_kind c \<noteq> k) cs \<Longrightarrow> filter (\<lambda>c. sp_kind c = k) cs = []"
  by (auto simp: filter_empty_conv list_all_iff)

text \<open>
  A program survives packing. Take a well-formed program, push its graph, its descriptor table and
  its shards into a builder that holds no graph or tensor section yet, and write the capsule. If that
  succeeds, reading the file and loading the program from it gives exactly that program, whatever the
  content store holds.
\<close>
theorem packed_program_loads:
  assumes "program_wf p" and "graph_strs_ok (np_graph p)"
    and "builder_typed b" and "list_all (\<lambda>c. sp_kind c \<noteq> SecGraph) (cb_chunks b)"
    and "list_all (\<lambda>c. sp_kind c \<noteq> SecTensors) (cb_chunks b)"
    and "pack_program p b = (Inr (), b')" and "capsule_write b' = Inr bytes"
  shows "\<exists>v. capsule_read bytes = Inr v \<and> load_native_program v store = Inr p"
proof -
  from pack_program_chunks [OF assms(6)] obtain gb db bss where gb: "encode_graph (np_graph p) = Inr gb"
    and db: "encode_tensor_descriptors (map nt_descriptor (np_tensors p)) = Inr db"
    and bss: "list_all2 (\<lambda>t bs. encode_native_tensor t = Inr bs) (np_tensors p) bss"
    and b': "b' = b\<lparr>cb_chunks := cb_chunks b @ embedded SecGraph gb # embedded SecTensors db # map (embedded SecTensors) bss\<rparr>"
    by blast
  have "builder_typed b'"
    using assms(3) by (auto simp: b' builder_typed_def chunk_typed_def list_all_iff)
  then obtain v where v: "capsule_read bytes = Inr v" "vw_chunks v = map chunk_view_of (cb_chunks b')"
    and fits: "\<forall>k bs. embedded k bs \<in> set (cb_chunks b') \<longrightarrow> int (length bs) < usize_bound"
    using assms(7) by (rule written_view)
  have "load_native_program v store = Inr p"
    using filter_other [OF assms(4)] filter_other [OF assms(5)] spec [OF spec [OF fits, of SecGraph], of gb] spec [OF spec [OF fits, of SecTensors], of db]
    by (intro load_packed [OF assms(1,2) gb _ db _ bss]) (simp_all add: v(2) filter_views b' filter_map comp_def)
  with v(1) show ?thesis by blast
qed

section \<open>A sample program\<close>

definition sample_tensor :: native_tensor where
  "sample_tensor =
    \<lparr>nt_descriptor = \<lparr>td_id = 7, td_dtype = F16, td_shape = [1, 1], td_byte_len = 2\<rparr>,
     nt_graph_value = Some 0, nt_quantization = QuantNone, nt_payload = [1, 2]\<rparr>"

definition sample_program :: native_program where
  "sample_program = \<lparr>np_graph = sample_graph, np_tensors = [sample_tensor]\<rparr>"

definition sample_table :: "u8 list" where
  "sample_table = [78, 84, 83, 57, 55, 0, 16, 0, 0, 0, 4, 0, 1, 0, 0, 0, 7, 0, 0, 0, 2, 2, 0, 0, 2, 0, 0, 0, 0, 0, 0, 0,
    1, 0, 0, 0, 0, 0, 0, 0, 1, 0, 0, 0, 0, 0, 0, 0]"

lemma sample_program_parts:
  "encode_graph sample_graph = Inr sample_bytes" "graph_strs_ok sample_graph"
  "encode_tensor_descriptors [nt_descriptor sample_tensor] = Inr sample_table"
  "validate_tensor sample_tensor = Inr ()" "graph_validate sample_graph = Inr ()"
  "validate_graph_binding sample_graph 0 (nt_descriptor sample_tensor) = Inr ()"
  by code_simp+

lemma sample_program_wf: "program_wf sample_program"
proof -
  have "nt_graph_value sample_tensor = Some 0" by (simp add: sample_tensor_def)
  then show ?thesis
    by (simp add: program_wf_def sample_program_def sample_program_parts tensor_bindable_def binding_ok_def NO_GRAPH_BINDING_def)
qed

lemma sample_shard: obtains bs where "encode_native_tensor sample_tensor = Inr bs" "int (length bs) < usize_bound" "length bs = 98"
proof -
  let ?f = "tensor_fields_of sample_tensor 0 0 0 (sha256 sample_table)"
  have "fields_fit 1 ?f"
    by (simp add: fields_fit_def tensor_fields_of_def sample_tensor_def element_count_def checked_mul_def)
  moreover from length_shard_bytes [OF this] have "length (shard_bytes 1 1 ?f) = 98"
    by (simp add: tensor_fields_of_def sample_tensor_def)
  ultimately show thesis
    using sample_program_parts that [of "shard_bytes 1 1 ?f"] unfolding encode_native_tensor_Inr
    by (auto simp: sample_tensor_def usize_bound_def)
qed

text \<open>The sections of the sample and the view of a capsule made of them.\<close>

definition sample_view :: "u8 list \<Rightarrow> capsule_view" where
  "sample_view shard = view_of (capsule_builder_new KindFull (replicate 16 1))
    [] \<lparr>vw_chunks := [chunk_view_of (embedded SecGraph sample_bytes), chunk_view_of (embedded SecTensors sample_table),
      chunk_view_of (embedded SecTensors shard)]\<rparr>"

lemma sample_lengths: "int (length sample_bytes) < usize_bound" "int (length sample_table) < usize_bound"
  by (simp_all add: sample_bytes_def sample_table_def usize_bound_def)

theorem load_native_program_sound_witness:
  "\<exists>v. load_native_program v (store_get store_new) = Inr sample_program \<and> program_wf sample_program"
proof -
  obtain shard where shard: "encode_native_tensor sample_tensor = Inr shard" "int (length shard) < usize_bound"
    by (rule sample_shard)
  have "load_native_program (sample_view shard) (store_get store_new) = Inr sample_program"
    by (rule load_packed [OF sample_program_wf _ _ sample_lengths(1) _ sample_lengths(2), where bss = "[shard]"])
      (simp_all add: sample_program_def sample_program_parts shard(1) sample_view_def chunk_view_of_def)
  moreover have "view_fits (sample_view shard)"
    using sample_lengths shard(2) by (auto simp: view_fits_def sample_view_def chunk_view_of_def)
  ultimately show ?thesis using load_native_program_sound by blast
qed

theorem packed_program_loads_witness:
  "\<exists>bytes v. capsule_read bytes = Inr v \<and> load_native_program v (store_get store_new) = Inr sample_program"
proof -
  let ?b = "capsule_builder_new KindFull (replicate 16 1)"
  obtain shard where shard: "encode_native_tensor sample_tensor = Inr shard" "length shard = 98"
    by (rule sample_shard)
  define b' where "b' = ?b\<lparr>cb_chunks := [embedded SecGraph sample_bytes, embedded SecTensors sample_table,
    embedded SecTensors shard]\<rparr>"
  have pack: "pack_program sample_program ?b = (Inr (), b')"
    by (simp add: pack_program_def sample_program_def push_graph_section_def push_tensor_descriptor_section_def
        push_native_tensor_shard_def sample_program_parts shard sbind_def slift_def smodify_def sfield_def sret_def
        push_embedded_def capsule_builder_new_def b'_def)
  have "builder_typed ?b" "builder_typed b'" "\<not> refused b'"
    by (simp_all add: b'_def capsule_builder_new_def builder_typed_def manifest_typed_def chunk_typed_def refused_def
        is_external_def)
  moreover obtain bytes where "capsule_write b' = Inr bytes"
    using \<open>builder_typed b'\<close> \<open>\<not> refused b'\<close>
    by (cases rule: capsule_write_cases)
      (auto simp: b'_def payload_start_def sample_bytes_def sample_table_def shard usize_bound_def)
  moreover have "graph_strs_ok (np_graph sample_program)" by (simp add: sample_program_def sample_program_parts)
  moreover have "cb_chunks ?b = []" by (simp add: capsule_builder_new_def)
  ultimately have "\<exists>v. capsule_read bytes = Inr v \<and> load_native_program v (store_get store_new) = Inr sample_program"
    by (intro packed_program_loads [OF sample_program_wf _ _ _ _ pack]) simp_all
  then show ?thesis by blast
qed

text \<open>
  A tensor bound to the graph value whose number is the sentinel is written as an unbound one.
\<close>

theorem sentinel_binding_lost:
  "encode_native_tensor (t\<lparr>nt_graph_value := Some NO_GRAPH_BINDING\<rparr>) = encode_native_tensor (t\<lparr>nt_graph_value := None\<rparr>)"
proof -
  have "validate_tensor (t\<lparr>nt_graph_value := v\<rparr>) = validate_tensor t" for v
    by (simp add: validate_tensor_def cong: if_cong quantization_metadata.case_cong)
  then show ?thesis by (simp add: encode_native_tensor_def Let_def cong: if_cong)
qed

end
