(* ===== verification/Generative_Program.thy ===== *)
theory Generative_Program
  imports Tokenizer_Codec Native_Program
begin

text \<open>
  The tokenizer section and generative programs: validation as a declarative predicate, the format
  read back, and a whole generative program (graph, tensors, tokenizer, manifest) through a capsule.
\<close>

section \<open>Validation\<close>

lemma check_special_Inr [simp]: "check_special n special = Inr () \<longleftrightarrow> (\<forall>i. special = Some i \<longrightarrow> i < n)"
  by (cases special) (auto simp: check_special_def not_less)

lemma check_scores_Inr:
  "length scores = length types \<Longrightarrow> int (index + length scores) \<le> 2 ^ 32
    \<Longrightarrow> check_scores index scores types = Inr () \<longleftrightarrow>
      (\<forall>s \<in> set scores. f32_finite s) \<and> (\<forall>ty \<in> set types. token_type_ok ty)"
  by (induction index scores types rule: check_scores.induct) (auto simp: len_u32_def)

lemma check_tokens_Inr:
  "bt_wf seen \<Longrightarrow> int (index + length tokens) \<le> 2 ^ 32
    \<Longrightarrow> check_tokens index tokens seen = Inr () \<longleftrightarrow>
      [] \<notin> set tokens \<and> distinct tokens \<and> (\<forall>t \<in> set tokens. bt_get seen t = None)"
proof (induction tokens arbitrary: index seen)
  case (Cons t ts)
  have len: "len_u32 Tk_Overflow index = Inr (of_nat index)" using Cons.prems(2) by (simp add: len_u32_def)
  show ?case
  proof (cases "bt_get seen t")
    case None
    have "check_tokens (Suc index) ts (bt_insert t (of_nat index) seen) = Inr () \<longleftrightarrow>
        [] \<notin> set ts \<and> distinct ts \<and> (\<forall>t' \<in> set ts. bt_get (bt_insert t (of_nat index) seen) t' = None)"
      using Cons.prems by (intro Cons.IH) simp_all
    then show ?thesis using None Cons.prems(1) by (auto simp: len bt_get_insert)
  qed (simp add: len)
qed simp

text \<open>A merge is two non-empty words with one space between them.\<close>

definition merge_ok :: "string \<Rightarrow> bool" where
  "merge_ok m \<longleftrightarrow> (\<exists>l r. m = l @ CHR '' '' # r \<and> l \<noteq> [] \<and> r \<noteq> [] \<and> CHR '' '' \<notin> set l \<and> CHR '' '' \<notin> set r)"

lemma check_merges_Inr:
  "check_merges seen ms = Inr () \<longleftrightarrow> (\<forall>m \<in> set ms. merge_ok m) \<and> distinct ms \<and> set ms \<inter> set seen = {}"
proof (induction ms arbitrary: seen)
  case (Cons m ms)
  have split: "merge_ok m \<longleftrightarrow> (\<exists>l r. split_once_space m = Some (l, r) \<and> l \<noteq> [] \<and> r \<noteq> [] \<and> CHR '' '' \<notin> set r)"
    unfolding merge_ok_def split_once_Some by blast
  show ?case
    by (cases "split_once_space m") (auto simp: Cons.IH split split: prod.splits)
qed simp

definition model_wf :: "nat \<Rightarrow> native_tokenizer_model \<Rightarrow> bool" where
  "model_wf n model = (case model of
    Vocabulary \<Rightarrow> True
  | LlamaSpm scores types _ _ _ \<Rightarrow> length scores = n \<and> length types = n
      \<and> (\<forall>s \<in> set scores. f32_finite s) \<and> (\<forall>ty \<in> set types. token_type_ok ty)
  | Gpt2Bpe merges _ _ \<Rightarrow> (\<forall>m \<in> set merges. merge_ok m) \<and> distinct merges)"

definition tokenizer_wf :: "native_tokenizer \<Rightarrow> bool" where
  "tokenizer_wf t \<longleftrightarrow>
    tk_tokens t \<noteq> [] \<and> int (length (tk_tokens t)) < 2 ^ 32 \<and> [] \<notin> set (tk_tokens t) \<and> distinct (tk_tokens t)
    \<and> (\<forall>i. Some i \<in> {tk_bos t, tk_eos t, tk_unknown t} \<longrightarrow> unat i < length (tk_tokens t))
    \<and> model_wf (length (tk_tokens t)) (tk_model t)"

lemma validate_tokenizer_wf: "validate_tokenizer t = Inr () \<longleftrightarrow> tokenizer_wf t"
proof (cases "int (length (tk_tokens t)) < 2 ^ 32")
  case False
  then show ?thesis by (auto simp: validate_tokenizer_def tokenizer_wf_def len_u32_def)
next
  case n: True
  let ?n = "length (tk_tokens t)"
  have tokens: "check_tokens 0 (tk_tokens t) [] = Inr () \<longleftrightarrow> [] \<notin> set (tk_tokens t) \<and> distinct (tk_tokens t)"
    using check_tokens_Inr [of "[]" 0 "tk_tokens t"] n by auto
  have less: "i < of_nat ?n \<longleftrightarrow> unat i < ?n" for i :: u32
    using n by (simp add: word_less_nat_alt unat_len)
  have count: "len_u32 Tk_Overflow ?n = Inr (of_nat ?n)" using n by (simp add: len_u32_def)
  have "(case tk_model t of Vocabulary \<Rightarrow> Inr ()
       | LlamaSpm scores types _ _ _ \<Rightarrow>
           if length scores \<noteq> ?n then Inl (Tk_InvalidScoreCount ?n (length scores))
           else if length types \<noteq> ?n then Inl (Tk_InvalidTokenTypeCount ?n (length types))
           else check_scores 0 scores types
       | Gpt2Bpe merges _ _ \<Rightarrow> check_merges [] merges) = Inr () \<longleftrightarrow> model_wf ?n (tk_model t)"
    using n check_scores_Inr [of "spm_score_bits (tk_model t)" "spm_token_types (tk_model t)" 0]
    by (cases "tk_model t") (auto simp: model_wf_def check_merges_Inr)
  then show ?thesis
    unfolding validate_tokenizer_def tokenizer_wf_def
    using tokens n by (auto simp: count less)
qed

text \<open>
  \<open>validate_tokenizer\<close>, which both directions of the tokenizer codec run, accepts exactly the
  tokenizers with a non-empty vocabulary of distinct, non-empty tokens that can be numbered by \<open>u32\<close>,
  special tokens within it, one finite score and one known type per token for a SentencePiece model,
  and distinct two-word merges for a BPE model.
\<close>
theorem validate_tokenizer_iff: "validate_tokenizer t = Inr () \<longleftrightarrow> tokenizer_wf t"
  by (rule validate_tokenizer_wf)

section \<open>The format\<close>


lemma length_tokenizer_magic [simp]: "length native_tokenizer_magic = 6"
  by (simp add: native_tokenizer_magic_def)










section \<open>Generative programs through a capsule\<close>














end
