(* ===== verification/Runtime_Tokenizer.thy ===== *)
theory Runtime_Tokenizer
  imports Rust_Strings Rust_BTreeMap Rust_Codec Rust_Panic Rust_Order Float32
begin

text \<open>
  The tokenizers of the runtime, \<open>crates/ntd-runtime/src/tokenizer.rs\<close>: the greedy \<open>VocabularyTokenizer\<close>
  and \<open>LlamaSpmTokenizer\<close>, which merges adjacent symbols in the order of a priority queue.

  Lengths and positions are natural numbers with the checked additions of the source; a token is an index
  into the vocabulary, of type \<open>u32\<close> (whose conversion to \<open>usize\<close> never fails). The three loops
  that need not end are partial functions. \<open>BinaryHeap\<close> promises that \<open>pop\<close> removes an element no other is
  greater than; \<open>heap_pop\<close> takes the first such element of a list. Elements that compare as equal
  differ at most in \<open>size\<close>, and of those all but one are stale and skipped.
\<close>

unbundle bit_operations_syntax

section \<open>Data\<close>

definition TOKEN_TYPE_NORMAL :: i32 where "TOKEN_TYPE_NORMAL = 1"
definition TOKEN_TYPE_UNKNOWN :: i32 where "TOKEN_TYPE_UNKNOWN = 2"
definition TOKEN_TYPE_CONTROL :: i32 where "TOKEN_TYPE_CONTROL = 3"
definition TOKEN_TYPE_USER_DEFINED :: i32 where "TOKEN_TYPE_USER_DEFINED = 4"
definition TOKEN_TYPE_UNUSED :: i32 where "TOKEN_TYPE_UNUSED = 5"
definition TOKEN_TYPE_BYTE :: i32 where "TOKEN_TYPE_BYTE = 6"

lemmas token_types = TOKEN_TYPE_NORMAL_def TOKEN_TYPE_UNKNOWN_def TOKEN_TYPE_CONTROL_def
  TOKEN_TYPE_USER_DEFINED_def TOKEN_TYPE_UNUSED_def TOKEN_TYPE_BYTE_def

definition SPM_SPACE :: "u8 list" where
  "SPM_SPACE = [0xE2, 0x96, 0x81]"

record vocabulary_tokenizer =
  vt_tokens :: "u8 list list"
  vt_bos_token :: "u32 option"
  vt_eos_token :: "u32 option"
  vt_unknown_token :: "u32 option"

record llama_spm_config =
  sc_bos_token :: "u32 option"
  sc_eos_token :: "u32 option"
  sc_unknown_token :: "u32 option"
  sc_add_space_prefix :: bool
  sc_add_bos_token :: bool
  sc_add_eos_token :: bool

record llama_spm_tokenizer =
  lt_tokens :: "u8 list list"
  lt_score_bits :: "u32 list"
  lt_token_types :: "i32 list"
  lt_bos_token :: "u32 option"
  lt_eos_token :: "u32 option"
  lt_unknown_token :: "u32 option"
  lt_add_space_prefix :: bool
  lt_add_bos_token :: bool
  lt_add_eos_token :: bool
  lt_token_to_id :: "(u8 list, u32) btmap"
  lt_byte_tokens :: "u32 option list"

datatype tokenizer_error =
  Te_EmptyVocabulary
| Te_EmptyToken u32
| Te_DuplicateToken u32 u32
| Te_InvalidSpecialToken u32
| Te_InvalidScoreCount nat nat
| Te_InvalidTokenTypeCount nat nat
| Te_InvalidTokenType u32 i32
| Te_NonFiniteScore u32
| Te_MissingByteToken u8
| Te_InvalidBpeMerge string
| Te_DuplicateBpeMerge string
| Te_MissingTokenPiece "u8 list"
| Te_InvalidGpt2ByteChar "u8 list"
| Te_UnmatchedInput nat
| Te_InvalidTokenId u32
| Te_InvalidUtf8
| Te_Overflow

record spm_symbol =
  sy_start :: nat
  sy_len :: nat
  sy_prev :: "nat option"
  sy_next :: "nat option"

record spm_bigram =
  bg_left :: nat
  bg_right :: nat
  bg_score :: f32
  bg_size :: nat

section \<open>Validation of a vocabulary\<close>

fun validate_tokens :: "nat \<Rightarrow> u8 list list \<Rightarrow> (u8 list, u32) btmap \<Rightarrow> tokenizer_error + unit" where
  "validate_tokens index [] seen = Inr ()"
| "validate_tokens index (token # tokens) seen =
    rbind (len_u32 Te_Overflow index) (\<lambda>i.
    if token = [] then Inl (Te_EmptyToken i)
    else case bt_get seen token of
      Some first \<Rightarrow> Inl (Te_DuplicateToken first i)
    | None \<Rightarrow> validate_tokens (Suc index) tokens (bt_insert token i seen))"

definition validate_vocabulary :: "u8 list list \<Rightarrow> tokenizer_error + unit" where
  "validate_vocabulary tokens = (if tokens = [] then Inl Te_EmptyVocabulary else validate_tokens 0 tokens [])"

definition flatten_options :: "'a option list \<Rightarrow> 'a list" where
  "flatten_options vs = concat (map (\<lambda>v. case v of None \<Rightarrow> [] | Some a \<Rightarrow> [a]) vs)"

definition validate_specials ::
    "u8 list list \<Rightarrow> u32 option \<Rightarrow> u32 option \<Rightarrow> u32 option \<Rightarrow> tokenizer_error + unit" where
  "validate_specials tokens bos eos unknown =
    check_all (\<lambda>i. if length tokens \<le> unat i then Inl (Te_InvalidSpecialToken i) else Inr ())
      (flatten_options [bos, eos, unknown])"

section \<open>VocabularyTokenizer\<close>

definition vocabulary_new ::
    "u8 list list \<Rightarrow> u32 option \<Rightarrow> u32 option \<Rightarrow> u32 option \<Rightarrow> tokenizer_error + vocabulary_tokenizer" where
  "vocabulary_new tokens bos eos unknown =
    rbind (validate_vocabulary tokens) (\<lambda>_.
    rbind (validate_specials tokens bos eos unknown) (\<lambda>_.
    Inr \<lparr>vt_tokens = tokens, vt_bos_token = bos, vt_eos_token = eos, vt_unknown_token = unknown\<rparr>))"

definition vt_is_special :: "vocabulary_tokenizer \<Rightarrow> u32 \<Rightarrow> bool" where
  "vt_is_special tk i \<longleftrightarrow> vt_bos_token tk = Some i \<or> vt_eos_token tk = Some i \<or> vt_unknown_token tk = Some i"

text \<open>\<open>for (index, token) in self.tokens.iter().enumerate()\<close>\<close>

fun best_match ::
    "vocabulary_tokenizer \<Rightarrow> u8 list \<Rightarrow> nat \<Rightarrow> u8 list list \<Rightarrow> (nat \<times> u32) option
      \<Rightarrow> tokenizer_error + (nat \<times> u32) option" where
  "best_match tk rest index [] best = Inr best"
| "best_match tk rest index (token # tokens) best =
    rbind (len_u32 Te_Overflow index) (\<lambda>i.
    if vt_is_special tk i \<or> \<not> starts_with rest token then best_match tk rest (Suc index) tokens best
    else best_match tk rest (Suc index) tokens
      (case best of
        Some (best_len, best_id) \<Rightarrow>
          if length token < best_len \<or> best_len = length token \<and> best_id < i then best
          else Some (length token, i)
      | None \<Rightarrow> Some (length token, i)))"

partial_function (option) vt_encode_loop ::
    "vocabulary_tokenizer \<Rightarrow> u8 list \<Rightarrow> nat \<Rightarrow> u32 list \<Rightarrow> (tokenizer_error, u32 list) run" where
  "vt_encode_loop tk bytes pos out =
    (if pos < length bytes then
       pbind (plift (best_match tk (drop pos bytes) 0 (vt_tokens tk) None)) (\<lambda>best.
       case best of
         Some m \<Rightarrow>
           pbind (plift (ok_or Te_Overflow (usize_add pos (fst m)))) (\<lambda>pos'.
           vt_encode_loop tk bytes pos' (out @ [snd m]))
       | None \<Rightarrow>
           (case vt_unknown_token tk of
             Some unknown \<Rightarrow>
               pbind (plift (ok_or Te_Overflow (usize_add pos 1))) (\<lambda>pos'.
               vt_encode_loop tk bytes pos' (out @ [unknown]))
           | None \<Rightarrow> pfail (Te_UnmatchedInput pos)))
     else pret out)"

definition vt_encode :: "vocabulary_tokenizer \<Rightarrow> string \<Rightarrow> bool \<Rightarrow> (tokenizer_error, u32 list) run" where
  "vt_encode tk text add_bos =
    vt_encode_loop tk (str_bytes text) 0 (if add_bos then flatten_options [vt_bos_token tk] else [])"

fun vt_decode_bytes :: "vocabulary_tokenizer \<Rightarrow> bool \<Rightarrow> u32 list \<Rightarrow> u8 list \<Rightarrow> tokenizer_error + u8 list" where
  "vt_decode_bytes tk skip_special [] bytes = Inr bytes"
| "vt_decode_bytes tk skip_special (i # ids) bytes =
    (if skip_special \<and> vt_is_special tk i then vt_decode_bytes tk skip_special ids bytes
     else if length (vt_tokens tk) \<le> unat i then Inl (Te_InvalidTokenId i)
     else vt_decode_bytes tk skip_special ids (bytes @ vt_tokens tk ! unat i))"

definition vt_decode :: "vocabulary_tokenizer \<Rightarrow> u32 list \<Rightarrow> bool \<Rightarrow> tokenizer_error + string" where
  "vt_decode tk token_ids skip_special =
    rbind (vt_decode_bytes tk skip_special token_ids []) (\<lambda>bytes. ok_or Te_InvalidUtf8 (from_utf8 bytes))"

section \<open>Pieces of the SPM vocabulary\<close>

definition is_merge_token_type :: "i32 \<Rightarrow> bool" where
  "is_merge_token_type ty \<longleftrightarrow> ty = TOKEN_TYPE_NORMAL \<or> ty = TOKEN_TYPE_USER_DEFINED"

definition is_output_token_type :: "i32 \<Rightarrow> bool" where
  "is_output_token_type ty \<longleftrightarrow> ty = TOKEN_TYPE_NORMAL \<or> ty = TOKEN_TYPE_UNKNOWN \<or> ty = TOKEN_TYPE_USER_DEFINED"

definition hex_nibble :: "u8 \<Rightarrow> u8 option" where
  "hex_nibble v =
    (if 48 \<le> v \<and> v \<le> 57 then Some (v - 48)
     else if 97 \<le> v \<and> v \<le> 102 then Some (v - 97 + 10)
     else if 65 \<le> v \<and> v \<le> 70 then Some (v - 65 + 10)
     else None)"

definition parse_byte_piece :: "u8 list \<Rightarrow> u8 option" where
  "parse_byte_piece token =
    (case token of
      [b] \<Rightarrow> Some b
    | [a, b, c, d, e, f] \<Rightarrow>
        (if a \<noteq> 60 \<or> b \<noteq> 48 \<or> c \<noteq> 120 \<or> f \<noteq> 62 then None
         else Option.bind (hex_nibble d) (\<lambda>high. Option.bind (hex_nibble e) (\<lambda>low.
           Some (push_bit 4 high OR low))))
    | _ \<Rightarrow> None)"

definition utf8_char_len :: "u8 \<Rightarrow> nat" where
  "utf8_char_len first =
    (if first AND 0x80 = 0 then 1
     else if first AND 0xE0 = 0xC0 then 2
     else if first AND 0xF0 = 0xE0 then 3
     else if first AND 0xF8 = 0xF0 then 4
     else 1)"

function append_unescaped_spm :: "u8 list \<Rightarrow> u8 list \<Rightarrow> u8 list" where
  "append_unescaped_spm token out =
    (if token = [] then out
     else if starts_with token SPM_SPACE then append_unescaped_spm (drop (length SPM_SPACE) token) (out @ [32])
     else append_unescaped_spm (tl token) (out @ [hd token]))"
  by pat_completeness auto
termination
  by (relation "measure (\<lambda>(token, out). length token)") (auto simp: SPM_SPACE_def)

declare append_unescaped_spm.simps [simp del]

section \<open>LlamaSpmTokenizer: construction\<close>

fun spm_tables ::
    "nat \<Rightarrow> u8 list list \<Rightarrow> u32 list \<Rightarrow> i32 list \<Rightarrow> (u8 list, u32) btmap \<Rightarrow> u32 option list
      \<Rightarrow> tokenizer_error + (u8 list, u32) btmap \<times> u32 option list" where
  "spm_tables index (token # tokens) (score # scores) (ty # tys) ids byte_ids =
    rbind (len_u32 Te_Overflow index) (\<lambda>i.
    if \<not> f32_is_finite score then Inl (Te_NonFiniteScore i)
    else if \<not> (sint TOKEN_TYPE_NORMAL \<le> sint ty \<and> sint ty \<le> sint TOKEN_TYPE_BYTE) then Inl (Te_InvalidTokenType i ty)
    else spm_tables (Suc index) tokens scores tys (bt_insert token i ids)
      (if ty = TOKEN_TYPE_BYTE then
         (case parse_byte_piece token of None \<Rightarrow> byte_ids | Some b \<Rightarrow> byte_ids[unat b := Some i])
       else byte_ids))"
| "spm_tables index _ _ _ ids byte_ids = Inr (ids, byte_ids)"

definition llama_spm_new ::
    "u8 list list \<Rightarrow> u32 list \<Rightarrow> i32 list \<Rightarrow> llama_spm_config \<Rightarrow> tokenizer_error + llama_spm_tokenizer" where
  "llama_spm_new tokens score_bits tys config =
    rbind (validate_vocabulary tokens) (\<lambda>_.
    rbind (validate_specials tokens (sc_bos_token config) (sc_eos_token config) (sc_unknown_token config)) (\<lambda>_.
    if length score_bits \<noteq> length tokens then Inl (Te_InvalidScoreCount (length tokens) (length score_bits))
    else if length tys \<noteq> length tokens then Inl (Te_InvalidTokenTypeCount (length tokens) (length tys))
    else rbind (spm_tables 0 tokens score_bits tys [] (replicate 256 None)) (\<lambda>tables.
      Inr \<lparr>lt_tokens = tokens, lt_score_bits = score_bits, lt_token_types = tys,
        lt_bos_token = sc_bos_token config, lt_eos_token = sc_eos_token config,
        lt_unknown_token = sc_unknown_token config, lt_add_space_prefix = sc_add_space_prefix config,
        lt_add_bos_token = sc_add_bos_token config, lt_add_eos_token = sc_add_eos_token config,
        lt_token_to_id = fst tables, lt_byte_tokens = snd tables\<rparr>)))"

section \<open>LlamaSpmTokenizer: symbols and the queue\<close>

definition normalize_spm :: "string \<Rightarrow> bool \<Rightarrow> u8 list" where
  "normalize_spm text add_space_prefix =
    (if add_space_prefix \<and> text \<noteq> [] then SPM_SPACE else [])
    @ concat (map (\<lambda>c. if c = [32] then SPM_SPACE else c) (utf8_chars (str_bytes text)))"

text \<open>The loop of \<open>split_utf8_symbols\<close>, from the position \<open>pos\<close> and for the rest of the bytes.\<close>

function split_symbols :: "u8 list \<Rightarrow> nat \<Rightarrow> spm_symbol list \<Rightarrow> spm_symbol list" where
  "split_symbols text pos symbols =
    (if pos < length text then
       (let len = min (utf8_char_len (text ! pos)) (length text - pos);
            index = length symbols;
            symbols = symbols @ [\<lparr>sy_start = pos, sy_len = len,
              sy_prev = (if 1 \<le> index then Some (index - 1) else None), sy_next = None\<rparr>];
            symbols = (if 0 < index then symbols[index - 1 := (symbols ! (index - 1))\<lparr>sy_next := Some index\<rparr>] else symbols)
        in split_symbols text (pos + len) symbols)
     else symbols)"
  by pat_completeness auto
termination
  by (relation "measure (\<lambda>(text, pos, symbols). length text - pos)") (auto simp: utf8_char_len_def)

declare split_symbols.simps [simp del]

definition split_utf8_symbols :: "u8 list \<Rightarrow> spm_symbol list" where
  "split_utf8_symbols text = split_symbols text 0 []"

definition bigram_cmp :: "spm_bigram \<Rightarrow> spm_bigram \<Rightarrow> ordering" where
  "bigram_cmp a b =
    then_with (then_with (cmp (f32_total_key (bg_score a)) (f32_total_key (bg_score b)))
      (cmp (bg_left b) (bg_left a))) (cmp (bg_right b) (bg_right a))"

fun heap_pop :: "spm_bigram list \<Rightarrow> (spm_bigram \<times> spm_bigram list) option" where
  "heap_pop [] = None"
| "heap_pop (a # queue) =
    (case heap_pop queue of
      None \<Rightarrow> Some (a, [])
    | Some (b, rest) \<Rightarrow> if bigram_cmp a b = Less then Some (b, a # rest) else Some (a, b # rest))"

text \<open>The queue and the map \<open>reverse_merges\<close> that the calls of \<open>try_add_bigram\<close> share.\<close>

type_synonym merge_state = "spm_bigram list \<times> (u8 list, u8 list \<times> u8 list) btmap"

definition slice_get :: "'a list \<Rightarrow> nat \<Rightarrow> nat \<Rightarrow> 'a list option" where
  "slice_get xs start stop =
    (if start \<le> stop \<and> stop \<le> length xs then Some (take (stop - start) (drop start xs)) else None)"

definition try_add_bigram ::
    "llama_spm_tokenizer \<Rightarrow> u8 list \<Rightarrow> spm_symbol list \<Rightarrow> nat \<Rightarrow> nat \<Rightarrow> merge_state
      \<Rightarrow> (tokenizer_error, merge_state) run" where
  "try_add_bigram tk normalized symbols left right ms =
    pbind (vec_get symbols left) (\<lambda>l.
    if sy_len l = 0 then pret ms else
    pbind (vec_get symbols right) (\<lambda>r.
    if sy_len r = 0 then pret ms else
    pbind (plift (ok_or Te_Overflow (usize_add (sy_start l) (sy_len l)))) (\<lambda>left_end.
    if left_end \<noteq> sy_start r then pret ms else
    pbind (plift (ok_or Te_Overflow (usize_add left_end (sy_len r)))) (\<lambda>stop.
    pbind (plift (ok_or Te_Overflow (slice_get normalized (sy_start l) stop))) (\<lambda>text.
    (case bt_get (lt_token_to_id tk) text of
      None \<Rightarrow> pret ms
    | Some token_id \<Rightarrow>
        pbind (vec_get (lt_token_types tk) (unat token_id)) (\<lambda>ty.
        if \<not> is_merge_token_type ty then pret ms else
        pbind (vec_get (lt_score_bits tk) (unat token_id)) (\<lambda>score.
        pbind (vec_slice normalized (sy_start l) left_end) (\<lambda>left_text.
        pbind (vec_slice normalized left_end stop) (\<lambda>right_text.
        pret (\<lparr>bg_left = left, bg_right = right, bg_score = score, bg_size = length text\<rparr> # fst ms,
          bt_insert text (left_text, right_text) (snd ms))))))))))))"

section \<open>LlamaSpmTokenizer: merging\<close>

text \<open>One iteration of \<open>while let Some(bigram) = queue.pop()\<close>; \<open>None\<close> in the middle of a test is a panic.\<close>

definition modify_symbol ::
    "nat \<Rightarrow> (spm_symbol \<Rightarrow> spm_symbol) \<Rightarrow> spm_symbol list \<Rightarrow> (tokenizer_error, spm_symbol list) run" where
  "modify_symbol i f symbols = pbind (vec_get symbols i) (\<lambda>s. vec_set symbols i (f s))"

definition merge_symbols ::
    "spm_symbol list \<Rightarrow> spm_bigram \<Rightarrow> (tokenizer_error, spm_symbol list) run" where
  "merge_symbols symbols bigram =
    pbind (vec_get symbols (bg_right bigram)) (\<lambda>r.
    pbind (modify_symbol (bg_left bigram) (\<lambda>s. s\<lparr>sy_len := bg_size bigram, sy_next := sy_next r\<rparr>) symbols) (\<lambda>symbols.
    pbind (modify_symbol (bg_right bigram) (\<lambda>s. s\<lparr>sy_len := 0\<rparr>) symbols) (\<lambda>symbols.
    (case sy_next r of
      None \<Rightarrow> pret symbols
    | Some n \<Rightarrow> modify_symbol n (\<lambda>s. s\<lparr>sy_prev := Some (bg_left bigram)\<rparr>) symbols))))"

definition merge_step ::
    "llama_spm_tokenizer \<Rightarrow> u8 list \<Rightarrow> spm_bigram \<Rightarrow> spm_symbol list \<times> merge_state
      \<Rightarrow> (tokenizer_error, spm_symbol list \<times> merge_state) run" where
  "merge_step tk normalized bigram state =
    (let symbols = fst state; ms = snd state in
    pbind (vec_get symbols (bg_left bigram)) (\<lambda>l.
    if sy_len l = 0 then pret state else
    pbind (vec_get symbols (bg_right bigram)) (\<lambda>r.
    if sy_len r = 0 then pret state else
    pbind (plift (ok_or Te_Overflow (usize_add (sy_len l) (sy_len r)))) (\<lambda>size.
    if size \<noteq> bg_size bigram then pret state else
    if sy_next l \<noteq> Some (bg_right bigram) then pret state else
    pbind (merge_symbols symbols bigram) (\<lambda>symbols.
    pbind (vec_get symbols (bg_left bigram)) (\<lambda>l.
    pbind (case sy_prev l of
        Some p \<Rightarrow> try_add_bigram tk normalized symbols p (bg_left bigram) ms
      | None \<Rightarrow> pret ms) (\<lambda>ms.
    pbind (case sy_next l of
        Some n \<Rightarrow> try_add_bigram tk normalized symbols (bg_left bigram) n ms
      | None \<Rightarrow> pret ms) (\<lambda>ms.
    pret (symbols, ms)))))))))"

partial_function (option) merge_loop ::
    "llama_spm_tokenizer \<Rightarrow> u8 list \<Rightarrow> spm_symbol list \<times> merge_state
      \<Rightarrow> (tokenizer_error, spm_symbol list \<times> merge_state) run" where
  "merge_loop tk normalized state =
    (case heap_pop (fst (snd state)) of
      None \<Rightarrow> pret state
    | Some popped \<Rightarrow>
        pbind (merge_step tk normalized (fst popped) (fst state, (snd popped, snd (snd state)))) (\<lambda>state'.
        merge_loop tk normalized state'))"

section \<open>LlamaSpmTokenizer: encoding\<close>

definition emit_bytes :: "llama_spm_tokenizer \<Rightarrow> u8 list \<Rightarrow> u32 list \<Rightarrow> (tokenizer_error, u32 list) run" where
  "emit_bytes tk = for_each (\<lambda>b out.
    pbind (vec_get (lt_byte_tokens tk) (unat b)) (\<lambda>token.
    pbind (plift (ok_or (Te_MissingByteToken b) token)) (\<lambda>i.
    pret (out @ [i]))))"

definition output_token :: "llama_spm_tokenizer \<Rightarrow> u8 list \<Rightarrow> (tokenizer_error, u32 option) run" where
  "output_token tk text =
    (case bt_get (lt_token_to_id tk) text of
      None \<Rightarrow> pret None
    | Some token_id \<Rightarrow>
        pbind (vec_get (lt_token_types tk) (unat token_id)) (\<lambda>ty.
        pret (if is_output_token_type ty then Some token_id else None)))"

partial_function (option) emit_piece ::
    "llama_spm_tokenizer \<Rightarrow> (u8 list, u8 list \<times> u8 list) btmap \<Rightarrow> u8 list \<Rightarrow> u32 list
      \<Rightarrow> (tokenizer_error, u32 list) run" where
  "emit_piece tk reverse_merges text out =
    pbind (output_token tk text) (\<lambda>token.
    case token of
      Some token_id \<Rightarrow> pret (out @ [token_id])
    | None \<Rightarrow>
        (case bt_get reverse_merges text of
          Some parts \<Rightarrow>
            pbind (emit_piece tk reverse_merges (fst parts) out) (\<lambda>out.
            emit_piece tk reverse_merges (snd parts) out)
        | None \<Rightarrow> emit_bytes tk text out))"

partial_function (option) emit_chain ::
    "llama_spm_tokenizer \<Rightarrow> u8 list \<Rightarrow> (u8 list, u8 list \<times> u8 list) btmap \<Rightarrow> spm_symbol list
      \<Rightarrow> nat option \<Rightarrow> u32 list \<Rightarrow> (tokenizer_error, u32 list) run" where
  "emit_chain tk normalized reverse_merges symbols current out =
    (case current of
      None \<Rightarrow> pret out
    | Some index \<Rightarrow>
        pbind (vec_get symbols index) (\<lambda>symbol.
        pbind (if 0 < sy_len symbol then
            pbind (plift (ok_or Te_Overflow (usize_add (sy_start symbol) (sy_len symbol)))) (\<lambda>stop.
            pbind (vec_slice normalized (sy_start symbol) stop) (\<lambda>piece.
            emit_piece tk reverse_merges piece out))
          else pret out) (\<lambda>out.
        emit_chain tk normalized reverse_merges symbols (sy_next symbol) out)))"

definition encode_normalized ::
    "llama_spm_tokenizer \<Rightarrow> u8 list \<Rightarrow> u32 list \<Rightarrow> (tokenizer_error, u32 list) run" where
  "encode_normalized tk normalized out =
    (let symbols = split_utf8_symbols normalized in
    pbind (for_each (\<lambda>right. try_add_bigram tk normalized symbols (right - 1) right) [1..<length symbols] ([], [])) (\<lambda>ms.
    pbind (merge_loop tk normalized (symbols, ms)) (\<lambda>state.
    if fst state = [] then pret out
    else emit_chain tk normalized (snd (snd state)) (fst state) (Some 0) out)))"

definition spm_encode :: "llama_spm_tokenizer \<Rightarrow> string \<Rightarrow> bool \<Rightarrow> (tokenizer_error, u32 list) run" where
  "spm_encode tk text add_special_tokens =
    (let normalized = normalize_spm text (lt_add_space_prefix tk);
         out = (if add_special_tokens \<and> lt_add_bos_token tk then flatten_options [lt_bos_token tk] else []) in
    pbind (if normalized \<noteq> [] then encode_normalized tk normalized out else pret out) (\<lambda>out.
    pret (out @ (if add_special_tokens \<and> lt_add_eos_token tk then flatten_options [lt_eos_token tk] else []))))"

section \<open>LlamaSpmTokenizer: decoding\<close>

definition spm_skips :: "llama_spm_tokenizer \<Rightarrow> u32 \<Rightarrow> i32 \<Rightarrow> bool" where
  "spm_skips tk i ty \<longleftrightarrow> lt_bos_token tk = Some i \<or> lt_eos_token tk = Some i \<or> lt_unknown_token tk = Some i
    \<or> ty = TOKEN_TYPE_CONTROL \<or> ty = TOKEN_TYPE_UNUSED"

text \<open>One iteration of the loop over \<open>token_ids\<close>, on the bytes and the flag \<open>strip_dummy_prefix\<close>.\<close>

definition spm_decode_token ::
    "llama_spm_tokenizer \<Rightarrow> bool \<Rightarrow> u32 \<Rightarrow> u8 list \<times> bool \<Rightarrow> (tokenizer_error, u8 list \<times> bool) run" where
  "spm_decode_token tk skip_special i state =
    (if length (lt_tokens tk) \<le> unat i then pfail (Te_InvalidTokenId i)
     else
       (let token = lt_tokens tk ! unat i; bytes = fst state in
       pbind (vec_get (lt_token_types tk) (unat i)) (\<lambda>ty.
       if skip_special \<and> spm_skips tk i ty then pret (bytes, lt_add_space_prefix tk \<and> lt_bos_token tk = Some i)
       else
         pbind (if ty = TOKEN_TYPE_BYTE then
             pbind (plift (ok_or (Te_InvalidTokenType i ty) (parse_byte_piece token))) (\<lambda>b. pret (bytes @ [b]))
           else pret (append_unescaped_spm token bytes)) (\<lambda>bytes'.
         pret
           (if snd state \<and> length bytes < length bytes' \<and> bytes' ! length bytes = 32
            then take (length bytes) bytes' @ drop (Suc (length bytes)) bytes' else bytes', False)))))"

definition decode_after ::
    "llama_spm_tokenizer \<Rightarrow> u32 option \<Rightarrow> u32 list \<Rightarrow> bool \<Rightarrow> (tokenizer_error, string) run" where
  "decode_after tk previous_token token_ids skip_special =
    pbind (for_each (spm_decode_token tk skip_special) token_ids
        ([], lt_add_space_prefix tk \<and> previous_token = lt_bos_token tk)) (\<lambda>state.
    plift (ok_or Te_InvalidUtf8 (from_utf8 (fst state))))"

definition spm_decode :: "llama_spm_tokenizer \<Rightarrow> u32 list \<Rightarrow> bool \<Rightarrow> (tokenizer_error, string) run" where
  "spm_decode tk token_ids skip_special = decode_after tk None token_ids skip_special"

declare vt_encode_loop.simps [code] merge_loop.simps [code] emit_piece.simps [code] emit_chain.simps [code]

end
