(* ===== verification/Gpt2_Tokenizer.thy ===== *)
theory Gpt2_Tokenizer
  imports Runtime_Tokenizer
begin

text \<open>
  The byte-level BPE tokenizer, \<open>crates/ntd-runtime/src/gpt2.rs\<close>: bytes are written as printable
  characters, the text is split into words by the classes of its characters, and in each word the pair
  of adjacent symbols with the smallest merge rank is joined until no pair has a rank.

  A character is the list of its UTF-8 bytes. \<open>get_general_category\<close> of the crate
  \<open>unicode_general_category\<close> is the parameter \<open>category\<close>; the categories the source does not name are
  one constructor.
\<close>

section \<open>Data\<close>

datatype general_category =
  UppercaseLetter | LowercaseLetter | TitlecaseLetter | ModifierLetter | OtherLetter
| DecimalNumber | LetterNumber | OtherNumber | AnyOtherCategory

record gpt2_bpe_config =
  gc_bos_token :: "u32 option"
  gc_eos_token :: "u32 option"
  gc_unknown_token :: "u32 option"
  gc_add_bos_token :: bool
  gc_add_eos_token :: bool

record gpt2_bpe_tokenizer =
  gt_tokens :: "u8 list list"
  gt_bos_token :: "u32 option"
  gt_eos_token :: "u32 option"
  gt_unknown_token :: "u32 option"
  gt_add_bos_token :: bool
  gt_add_eos_token :: bool
  gt_token_to_id :: "(u8 list, u32) btmap"
  gt_merge_ranks :: "(u8 list \<times> u8 list, nat) btmap"
  gt_byte_encoder :: "u8 list list"
  gt_byte_decoder :: "(u8 list, u8) btmap"

section \<open>The characters that stand for bytes\<close>

text \<open>The code points of the two loops of \<open>gpt2_byte_encoder\<close>, with the array \<open>assigned\<close>.\<close>

definition assign_range :: "nat \<Rightarrow> nat \<Rightarrow> nat list \<times> bool list \<Rightarrow> nat list \<times> bool list" where
  "assign_range lo hi = fold (\<lambda>b (out, assigned). (out[b := b], assigned[b := True])) [lo..<Suc hi]"

definition assign_fallback :: "nat list \<times> bool list \<Rightarrow> nat list \<times> nat" where
  "assign_fallback s = (let (out, assigned) = s in
    fold (\<lambda>b (out, fallback). if assigned ! b then (out, fallback) else (out[b := 256 + fallback], Suc fallback))
      [0..<256] (out, 0))"

definition byte_code_points :: "nat list" where
  "byte_code_points = fst (assign_fallback (assign_range 0xAE 0xFF (assign_range 0xA1 0xAC
    (assign_range 0x21 0x7E (replicate 256 0, replicate 256 False)))))"

text \<open>\<open>char::from_u32\<close> and \<open>to_string\<close> below \<open>0x800\<close>, which all these code points are.\<close>

definition char_utf8 :: "nat \<Rightarrow> u8 list" where
  "char_utf8 n = (if n < 0x80 then [of_nat n] else [0xC0 + of_nat (n div 64), 0x80 + of_nat (n mod 64)])"

definition gpt2_byte_encoder :: "u8 list list" where
  "gpt2_byte_encoder = map char_utf8 byte_code_points"

section \<open>Construction\<close>

definition parse_merge :: "string \<Rightarrow> (string \<times> string) option" where
  "parse_merge merge =
    (case split_once_space merge of
      None \<Rightarrow> None
    | Some (left, right) \<Rightarrow>
        if left = [] \<or> right = [] \<or> CHR '' '' \<in> set right then None else Some (left, right))"

fun index_tokens :: "nat \<Rightarrow> u8 list list \<Rightarrow> (u8 list, u32) btmap \<Rightarrow> tokenizer_error + (u8 list, u32) btmap" where
  "index_tokens index [] ids = Inr ids"
| "index_tokens index (token # tokens) ids =
    rbind (len_u32 Te_Overflow index) (\<lambda>i. index_tokens (Suc index) tokens (bt_insert token i ids))"

fun rank_merges ::
    "(u8 list, u32) btmap \<Rightarrow> nat \<Rightarrow> string list \<Rightarrow> (u8 list \<times> u8 list, nat) btmap
      \<Rightarrow> tokenizer_error + (u8 list \<times> u8 list, nat) btmap" where
  "rank_merges ids rank [] ranks = Inr ranks"
| "rank_merges ids rank (merge # merges) ranks =
    (case parse_merge merge of
      None \<Rightarrow> Inl (Te_InvalidBpeMerge merge)
    | Some (left, right) \<Rightarrow>
        (let key = (str_bytes left, str_bytes right) in
         if bt_contains ranks key then Inl (Te_DuplicateBpeMerge merge)
         else if \<not> bt_contains ids (fst key @ snd key) then Inl (Te_InvalidBpeMerge merge)
         else rank_merges ids (Suc rank) merges (bt_insert key rank ranks)))"

definition byte_decoder_of :: "u8 list list \<Rightarrow> (u8 list, u8) btmap" where
  "byte_decoder_of encoder = fold (\<lambda>b. bt_insert (encoder ! b) (of_nat b)) [0..<length encoder] []"

definition gpt2_new :: "u8 list list \<Rightarrow> string list \<Rightarrow> gpt2_bpe_config \<Rightarrow> tokenizer_error + gpt2_bpe_tokenizer" where
  "gpt2_new tokens merges config =
    rbind (validate_vocabulary tokens) (\<lambda>_.
    rbind (validate_specials tokens (gc_bos_token config) (gc_eos_token config) (gc_unknown_token config)) (\<lambda>_.
    rbind (index_tokens 0 tokens []) (\<lambda>ids.
    rbind (rank_merges ids 0 merges []) (\<lambda>ranks.
    rbind (check_all (\<lambda>c. if bt_contains ids c then Inr () else Inl (Te_MissingTokenPiece c)) gpt2_byte_encoder) (\<lambda>_.
    Inr \<lparr>gt_tokens = tokens, gt_bos_token = gc_bos_token config, gt_eos_token = gc_eos_token config,
      gt_unknown_token = gc_unknown_token config, gt_add_bos_token = gc_add_bos_token config,
      gt_add_eos_token = gc_add_eos_token config, gt_token_to_id = ids, gt_merge_ranks = ranks,
      gt_byte_encoder = gpt2_byte_encoder, gt_byte_decoder = byte_decoder_of gpt2_byte_encoder\<rparr>)))))"

section \<open>Words\<close>

definition is_letter :: "(u8 list \<Rightarrow> general_category) \<Rightarrow> u8 list \<Rightarrow> bool" where
  "is_letter category c \<longleftrightarrow>
    category c \<in> {UppercaseLetter, LowercaseLetter, TitlecaseLetter, ModifierLetter, OtherLetter}"

definition is_number :: "(u8 list \<Rightarrow> general_category) \<Rightarrow> u8 list \<Rightarrow> bool" where
  "is_number category c \<longleftrightarrow> category c \<in> {DecimalNumber, LetterNumber, OtherNumber}"

definition is_other :: "(u8 list \<Rightarrow> general_category) \<Rightarrow> u8 list \<Rightarrow> bool" where
  "is_other category c \<longleftrightarrow> \<not> is_whitespace c \<and> \<not> is_letter category c \<and> \<not> is_number category c"

definition class_at :: "(u8 list \<Rightarrow> bool) \<Rightarrow> u8 list list \<Rightarrow> nat \<Rightarrow> bool" where
  "class_at p cs i \<longleftrightarrow> i < length cs \<and> p (cs ! i)"

definition run_length :: "(u8 list \<Rightarrow> bool) \<Rightarrow> u8 list list \<Rightarrow> nat \<Rightarrow> nat" where
  "run_length p cs i = i + length (takeWhile p (drop i cs))"

text \<open>How far one iteration of \<open>gpt2_pretokenize\<close> advances, on the characters from \<open>position\<close> on.\<close>

definition word_len :: "(u8 list \<Rightarrow> general_category) \<Rightarrow> u8 list list \<Rightarrow> nat" where
  "word_len category cs =
    (let current = cs ! 0; classified = (if current = str_bytes '' '' then 1 else 0) in
     if current = str_bytes [CHR 0x27] \<and> 1 < length cs \<and> cs ! 1 \<in> {str_bytes ''s'', str_bytes ''t'', str_bytes ''m'', str_bytes ''d''}
     then 2
     else if current = str_bytes [CHR 0x27] \<and> 2 < length cs
       \<and> (cs ! 1, cs ! 2) \<in> {(str_bytes ''r'', str_bytes ''e''), (str_bytes ''v'', str_bytes ''e''), (str_bytes ''l'', str_bytes ''l'')}
     then 3
     else if class_at (is_letter category) cs classified then run_length (is_letter category) cs classified
     else if class_at (is_number category) cs classified then run_length (is_number category) cs classified
     else if class_at (is_other category) cs classified then run_length (is_other category) cs classified
     else
       (let whitespace_count = run_length is_whitespace cs 0 in
        if 1 < whitespace_count \<and> whitespace_count < length cs then whitespace_count - 1
        else if 0 < whitespace_count then whitespace_count
        else 1))"

lemma run_length_pos: "class_at p cs i \<Longrightarrow> i < run_length p cs i"
  by (cases "drop i cs") (auto simp: class_at_def run_length_def Cons_nth_drop_Suc [symmetric])

lemma if_pos: "(b \<Longrightarrow> 0 < m) \<Longrightarrow> (\<not> b \<Longrightarrow> 0 < n) \<Longrightarrow> 0 < (if b then m else n :: nat)"
  by simp

lemma word_len_pos: "0 < word_len category cs"
proof -
  have pos: "class_at p cs i \<Longrightarrow> 0 < run_length p cs i" for p i
    using run_length_pos [of p cs i] by simp
  show ?thesis
    unfolding word_len_def Let_def
    by (intro if_pos; (erule pos | simp only: zero_less_numeral zero_less_diff zero_less_one))
qed

function pretokenize :: "(u8 list \<Rightarrow> general_category) \<Rightarrow> u8 list list \<Rightarrow> string list" where
  "pretokenize category cs =
    (if cs = [] then []
     else bytes_str (concat (take (word_len category cs) cs)) # pretokenize category (drop (word_len category cs) cs))"
  by pat_completeness auto
termination
  by (relation "measure (\<lambda>(category, cs). length cs)") (auto simp: word_len_pos)

declare pretokenize.simps [simp del]

definition gpt2_pretokenize :: "(u8 list \<Rightarrow> general_category) \<Rightarrow> string \<Rightarrow> string list" where
  "gpt2_pretokenize category text = pretokenize category (utf8_chars (str_bytes text))"

section \<open>Encoding\<close>

definition byte_encode :: "gpt2_bpe_tokenizer \<Rightarrow> string \<Rightarrow> u8 list" where
  "byte_encode tk text = concat (map (\<lambda>b. gt_byte_encoder tk ! unat b) (str_bytes text))"

text \<open>The loop \<open>for index in 0..symbols.len().saturating_sub(1)\<close>.\<close>

definition consider_pair ::
    "gpt2_bpe_tokenizer \<Rightarrow> u8 list list \<Rightarrow> nat \<Rightarrow> (nat \<times> nat) option \<Rightarrow> (nat \<times> nat) option" where
  "consider_pair tk symbols index best =
    (case bt_get (gt_merge_ranks tk) (symbols ! index, symbols ! (index + 1)) of
      None \<Rightarrow> best
    | Some rank \<Rightarrow>
        (case best of
          Some (best_rank, best_index) \<Rightarrow>
            if best_rank < rank \<or> best_rank = rank \<and> best_index < index then best else Some (rank, index)
        | None \<Rightarrow> Some (rank, index)))"

definition best_pair :: "gpt2_bpe_tokenizer \<Rightarrow> u8 list list \<Rightarrow> (nat \<times> nat) option" where
  "best_pair tk symbols = fold (consider_pair tk symbols) [0..<length symbols - 1] None"

definition merge_at :: "nat \<Rightarrow> u8 list list \<Rightarrow> u8 list list" where
  "merge_at index symbols =
    (let right = symbols ! (index + 1); symbols = take (index + 1) symbols @ drop (index + 2) symbols in
     symbols[index := symbols ! index @ right])"

lemma fold_consider_pair:
  assumes "\<And>r i. best = Some (r, i) \<Longrightarrow> i < n"
    and "fold (consider_pair tk symbols) [a..<n] best = Some (rank, index)"
  shows "index < n"
  using assms
proof (induction "[a..<n]" arbitrary: a best)
  case Nil
  then show ?case by simp
next
  case (Cons x xs)
  from Cons.hyps(2) [symmetric] have a: "x = a" "xs = [Suc a..<n]" "a < n" by (auto simp: upt_eq_Cons_conv)
  have step: "i < n" if "consider_pair tk symbols a best = Some (r, i)" for r i
    using that Cons.prems(1) a(3) by (auto simp: consider_pair_def split: option.splits if_splits)
  have "fold (consider_pair tk symbols) [Suc a..<n] (consider_pair tk symbols a best) = Some (rank, index)"
    using Cons.prems(2) by (simp flip: Cons.hyps(2) add: a)
  then show ?case by (intro Cons.hyps(1) [OF a(2) step])
qed

lemma best_pair_index: "best_pair tk symbols = Some (rank, index) \<Longrightarrow> Suc index < length symbols"
  using fold_consider_pair [of None "length symbols - 1"] by (fastforce simp: best_pair_def)

function bpe_merge :: "gpt2_bpe_tokenizer \<Rightarrow> u8 list list \<Rightarrow> u8 list list" where
  "bpe_merge tk symbols =
    (case best_pair tk symbols of
      None \<Rightarrow> symbols
    | Some best \<Rightarrow> bpe_merge tk (merge_at (snd best) symbols))"
  by pat_completeness auto
termination
  by (relation "measure (\<lambda>(tk, symbols). length symbols)") (auto simp: merge_at_def Let_def dest: best_pair_index)

declare bpe_merge.simps [simp del]

fun emit_symbols :: "gpt2_bpe_tokenizer \<Rightarrow> u8 list list \<Rightarrow> u32 list \<Rightarrow> tokenizer_error + u32 list" where
  "emit_symbols tk [] out = Inr out"
| "emit_symbols tk (symbol # symbols) out =
    rbind (ok_or (Te_MissingTokenPiece symbol) (bt_get (gt_token_to_id tk) symbol)) (\<lambda>token.
    emit_symbols tk symbols (out @ [token]))"

definition encode_word :: "gpt2_bpe_tokenizer \<Rightarrow> u8 list \<Rightarrow> u32 list \<Rightarrow> tokenizer_error + u32 list" where
  "encode_word tk encoded out =
    rbind (ok_or Te_InvalidUtf8 (from_utf8 encoded)) (\<lambda>encoded_text.
    emit_symbols tk (bpe_merge tk (utf8_chars (str_bytes encoded_text))) out)"

fun encode_words :: "gpt2_bpe_tokenizer \<Rightarrow> string list \<Rightarrow> u32 list \<Rightarrow> tokenizer_error + u32 list" where
  "encode_words tk [] out = Inr out"
| "encode_words tk (word # words) out = rbind (encode_word tk (byte_encode tk word) out) (encode_words tk words)"

definition gpt2_encode ::
    "(u8 list \<Rightarrow> general_category) \<Rightarrow> gpt2_bpe_tokenizer \<Rightarrow> string \<Rightarrow> bool \<Rightarrow> tokenizer_error + u32 list" where
  "gpt2_encode category tk text add_special_tokens =
    rbind (encode_words tk (gpt2_pretokenize category text)
      (if add_special_tokens \<and> gt_add_bos_token tk then flatten_options [gt_bos_token tk] else [])) (\<lambda>out.
    Inr (out @ (if add_special_tokens \<and> gt_add_eos_token tk then flatten_options [gt_eos_token tk] else [])))"

section \<open>Decoding\<close>

definition gt_is_special :: "gpt2_bpe_tokenizer \<Rightarrow> u32 \<Rightarrow> bool" where
  "gt_is_special tk i \<longleftrightarrow> gt_bos_token tk = Some i \<or> gt_eos_token tk = Some i \<or> gt_unknown_token tk = Some i"

fun decode_chars :: "gpt2_bpe_tokenizer \<Rightarrow> u8 list list \<Rightarrow> u8 list \<Rightarrow> tokenizer_error + u8 list" where
  "decode_chars tk [] bytes = Inr bytes"
| "decode_chars tk (c # cs) bytes =
    rbind (ok_or (Te_InvalidGpt2ByteChar c) (bt_get (gt_byte_decoder tk) c)) (\<lambda>b. decode_chars tk cs (bytes @ [b]))"

fun gpt2_decode_bytes :: "gpt2_bpe_tokenizer \<Rightarrow> bool \<Rightarrow> u32 list \<Rightarrow> u8 list \<Rightarrow> tokenizer_error + u8 list" where
  "gpt2_decode_bytes tk skip_special [] bytes = Inr bytes"
| "gpt2_decode_bytes tk skip_special (i # ids) bytes =
    (if skip_special \<and> gt_is_special tk i then gpt2_decode_bytes tk skip_special ids bytes
     else if length (gt_tokens tk) \<le> unat i then Inl (Te_InvalidTokenId i)
     else
       rbind (ok_or Te_InvalidUtf8 (from_utf8 (gt_tokens tk ! unat i))) (\<lambda>token_text.
       rbind (decode_chars tk (utf8_chars (str_bytes token_text)) bytes) (\<lambda>bytes.
       gpt2_decode_bytes tk skip_special ids bytes)))"

definition gpt2_decode :: "gpt2_bpe_tokenizer \<Rightarrow> u32 list \<Rightarrow> bool \<Rightarrow> tokenizer_error + string" where
  "gpt2_decode tk token_ids skip_special =
    rbind (gpt2_decode_bytes tk skip_special token_ids []) (\<lambda>bytes. ok_or Te_InvalidUtf8 (from_utf8 bytes))"

end
