(* ===== verification/Tokenizer_Correct.thy ===== *)
theory Tokenizer_Correct
  imports Gpt2_Tokenizer
begin

text \<open>
  What all tokenizers of the runtime share (valid vocabularies and their index), and the greedy
  \<open>VocabularyTokenizer\<close>: it takes the longest matching token at each position, and what it encodes
  without the unknown token is decoded to the same text.
\<close>

section \<open>Vocabularies\<close>

definition vocabulary_ok :: "u8 list list \<Rightarrow> bool" where
  "vocabulary_ok tokens \<longleftrightarrow> tokens \<noteq> [] \<and> [] \<notin> set tokens \<and> distinct tokens \<and> int (length tokens) \<le> 2 ^ 32"

text \<open>The map from tokens to their numbers is the inverse of the vocabulary.\<close>

definition indexes :: "(u8 list, u32) btmap \<Rightarrow> u8 list list \<Rightarrow> bool" where
  "indexes ids tokens \<longleftrightarrow> (\<forall>t i. bt_get ids t = Some i \<longleftrightarrow> unat i < length tokens \<and> tokens ! unat i = t)"

lemma validate_tokens_Inr:
  assumes "bt_wf seen" "validate_tokens index tokens seen = Inr ()"
  shows "[] \<notin> set tokens \<and> distinct tokens \<and> (\<forall>t \<in> set tokens. bt_get seen t = None)
    \<and> (tokens \<noteq> [] \<longrightarrow> int (index + length tokens) \<le> 2 ^ 32)"
  using assms
proof (induction tokens arbitrary: index seen)
  case (Cons t ts)
  then have t: "t \<noteq> []" "bt_get seen t = None" "int index < 2 ^ 32"
    and rest: "validate_tokens (Suc index) ts (bt_insert t (of_nat index) seen) = Inr ()"
    by (auto simp: len_u32_def split: if_splits option.splits)
  from Cons.IH [OF _ rest] Cons.prems(1)
  have "[] \<notin> set ts \<and> distinct ts \<and> (\<forall>u \<in> set ts. bt_get (bt_insert t (of_nat index) seen) u = None)
    \<and> (ts \<noteq> [] \<longrightarrow> int (Suc index + length ts) \<le> 2 ^ 32)" by simp
  with t Cons.prems(1) show ?case by (cases "ts = []") (auto simp: bt_get_insert split: if_splits)
qed simp

lemma validate_vocabulary_Inr: "validate_vocabulary tokens = Inr () \<Longrightarrow> vocabulary_ok tokens"
  using validate_tokens_Inr [of "[]" 0 tokens]
  by (auto simp: validate_vocabulary_def vocabulary_ok_def split: if_splits)

lemma set_flatten_options [simp]: "i \<in> set (flatten_options vs) \<longleftrightarrow> Some i \<in> set vs"
  by (auto simp: flatten_options_def split: option.splits)

lemma validate_specials_Inr:
  "validate_specials tokens bos eos unknown = Inr ()
    \<Longrightarrow> Some i \<in> {bos, eos, unknown} \<Longrightarrow> unat i < length tokens"
  using set_flatten_options [of i "[bos, eos, unknown]"]
  by (force simp: validate_specials_def not_le split: if_splits)

lemma index_tokens_get:
  assumes "index_tokens index tokens ids = Inr ids'" "bt_wf ids" "distinct tokens"
  shows "bt_get ids' t = Some i
    \<longleftrightarrow> (\<exists>k < length tokens. tokens ! k = t \<and> unat i = index + k) \<or> t \<notin> set tokens \<and> bt_get ids t = Some i"
  using assms
proof (induction tokens arbitrary: index ids)
  case (Cons u us)
  then have small: "int index < 2 ^ 32" and rest: "index_tokens (Suc index) us (bt_insert u (of_nat index) ids) = Inr ids'"
    by (auto simp: len_u32_def split: if_splits)
  have IH: "bt_get ids' t = Some i \<longleftrightarrow> (\<exists>k < length us. us ! k = t \<and> unat i = Suc index + k)
      \<or> t \<notin> set us \<and> bt_get (bt_insert u (of_nat index) ids) t = Some i"
    using Cons.prems by (intro Cons.IH [OF rest]) auto
  have same: "i = of_nat index \<longleftrightarrow> unat i = index"
    using unat_len [OF small] by (simp add: word_unat_eq_iff)
  show ?case
    unfolding IH using Cons.prems(2,3) same
    by (auto simp: bt_get_insert nth_Cons' Suc_less_eq2 gr0_conv_Suc dest: nth_mem)
qed auto

lemma index_tokens_indexes:
  assumes "index_tokens 0 tokens [] = Inr ids" "distinct tokens"
  shows "indexes ids tokens"
  using index_tokens_get [OF assms(1) _ assms(2)] by (auto simp: indexes_def)

lemma indexes_get: "indexes ids tokens \<Longrightarrow> bt_get ids t = Some i \<Longrightarrow> unat i < length tokens \<and> tokens ! unat i = t"
  by (simp add: indexes_def)

section \<open>The greedy tokenizer\<close>

abbreviation vt_token :: "vocabulary_tokenizer \<Rightarrow> u32 \<Rightarrow> u8 list" where
  "vt_token tk i \<equiv> vt_tokens tk ! unat i"

text \<open>The tokens that can be taken where \<open>rest\<close> begins, and the choice among them.\<close>

definition vt_matches :: "vocabulary_tokenizer \<Rightarrow> u8 list \<Rightarrow> u32 \<Rightarrow> bool" where
  "vt_matches tk rest i \<longleftrightarrow> unat i < length (vt_tokens tk) \<and> \<not> vt_is_special tk i \<and> starts_with rest (vt_token tk i)"

definition vt_chooses :: "vocabulary_tokenizer \<Rightarrow> u8 list \<Rightarrow> nat \<Rightarrow> (nat \<times> u32) option \<Rightarrow> bool" where
  "vt_chooses tk rest n best \<longleftrightarrow>
    (case best of
      None \<Rightarrow> \<forall>j. unat j < n \<longrightarrow> \<not> vt_matches tk rest j
    | Some (len, i) \<Rightarrow> vt_matches tk rest i \<and> len = length (vt_token tk i)
        \<and> (\<forall>j. unat j < n \<and> vt_matches tk rest j \<longrightarrow>
            length (vt_token tk j) < len \<or> length (vt_token tk j) = len \<and> i \<le> j))"

lemma best_match_chooses:
  assumes "vocabulary_ok (vt_tokens tk)" "tokens = drop n (vt_tokens tk)" "n \<le> length (vt_tokens tk)" "vt_chooses tk rest n best"
  shows "\<exists>best'. best_match tk rest n tokens best = Inr best' \<and> vt_chooses tk rest (length (vt_tokens tk)) best'"
  using assms(2-)
proof (induction tokens arbitrary: n best)
  case Nil
  then have "n = length (vt_tokens tk)" by simp
  with Nil show ?case by simp
next
  case (Cons t ts)
  then have n: "n < length (vt_tokens tk)" by (metis drop_eq_Nil leI list.distinct(1))
  with assms(1) have small: "int n < 2 ^ 32" by (simp add: vocabulary_ok_def)
  let ?i = "of_nat n :: u32"
  have i: "unat ?i = n" using small by (rule unat_len)
  have t: "vt_tokens tk ! n = t" and ts: "ts = drop (Suc n) (vt_tokens tk)"
    using Cons.prems(1) n by (metis Cons_nth_drop_Suc list.inject)+
  have below: "unat j < Suc n \<longleftrightarrow> unat j < n \<or> j = ?i" for j :: u32
    using i by (auto simp: word_unat_eq_iff)
  have order: "?i \<le> j \<longleftrightarrow> n \<le> unat j" for j :: u32
    by (simp add: word_le_nat_alt i)
  let ?best = "if vt_is_special tk ?i \<or> \<not> starts_with rest t then best
    else (case best of
        Some (best_len, best_id) \<Rightarrow>
          if length t < best_len \<or> best_len = length t \<and> best_id < ?i then best else Some (length t, ?i)
      | None \<Rightarrow> Some (length t, ?i))"
  have matches: "vt_matches tk rest ?i \<longleftrightarrow> \<not> vt_is_special tk ?i \<and> starts_with rest t"
    by (simp add: vt_matches_def i n t)
  have "vt_chooses tk rest (Suc n) ?best"
  proof (cases "vt_is_special tk ?i \<or> \<not> starts_with rest t")
    case True
    with Cons.prems(3) matches show ?thesis by (auto simp: vt_chooses_def below split: option.splits)
  next
    case False
    with Cons.prems(3) matches show ?thesis
      by (auto simp: vt_chooses_def below t order word_le_nat_alt word_less_nat_alt i split: option.splits)
  qed
  from Cons.IH [OF ts _ this] n show ?case
    using small by (simp add: len_u32_def if_distrib [of "best_match _ _ _ _"] cong: if_cong)
qed

lemma best_match_spec:
  assumes "vocabulary_ok (vt_tokens tk)"
  shows "\<exists>best. best_match tk rest 0 (vt_tokens tk) None = Inr best \<and> vt_chooses tk rest (length (vt_tokens tk)) best"
  by (rule best_match_chooses [OF assms]) (simp_all add: vt_chooses_def)


text \<open>What is decoded when the special tokens are skipped.\<close>

definition vt_plain :: "vocabulary_tokenizer \<Rightarrow> u32 list \<Rightarrow> u8 list" where
  "vt_plain tk ids = concat (map (vt_token tk) (filter (\<lambda>i. \<not> vt_is_special tk i) ids))"

lemma vt_decode_bytes_skip:
  "(\<And>i. i \<in> set ids \<Longrightarrow> unat i < length (vt_tokens tk)) \<Longrightarrow> vt_decode_bytes tk True ids bytes = Inr (bytes @ vt_plain tk ids)"
proof (induction ids arbitrary: bytes)
  case (Cons i ids)
  from Cons.prems [of i] have "\<not> length (vt_tokens tk) \<le> unat i" by simp
  with Cons show ?case by (simp add: vt_plain_def)
qed (simp add: vt_plain_def)

text \<open>The result of the loop from \<open>pos\<close>: the tokens appended cover the rest, unless one of them is the
  unknown token, taken where no token matches.\<close>

definition unmatched :: "vocabulary_tokenizer \<Rightarrow> u8 list \<Rightarrow> bool" where
  "unmatched tk rest \<longleftrightarrow> (\<exists>k < length rest. \<forall>i. \<not> vt_matches tk (drop k rest) i)"

definition covers :: "vocabulary_tokenizer \<Rightarrow> u8 list \<Rightarrow> u32 list \<Rightarrow> u32 list \<Rightarrow> bool" where
  "covers tk rest out ids \<longleftrightarrow> (\<exists>new. ids = out @ new \<and> (\<forall>i \<in> set new. unat i < length (vt_tokens tk))
    \<and> ((\<exists>u \<in> set new. vt_unknown_token tk = Some u) \<and> unmatched tk rest \<or> vt_plain tk new = rest))"

definition stuck_at :: "vocabulary_tokenizer \<Rightarrow> u8 list \<Rightarrow> tokenizer_error \<Rightarrow> bool" where
  "stuck_at tk bytes e \<longleftrightarrow> vt_unknown_token tk = None
    \<and> (\<exists>pos < length bytes. e = Te_UnmatchedInput pos \<and> (\<forall>i. \<not> vt_matches tk (drop pos bytes) i))"

lemma unmatched_drop: "unmatched tk (drop n rest) \<Longrightarrow> unmatched tk rest"
proof -
  assume "unmatched tk (drop n rest)"
  then obtain k where "k < length (drop n rest)" "\<forall>i. \<not> vt_matches tk (drop (k + n) rest) i"
    by (auto simp: unmatched_def)
  then show ?thesis unfolding unmatched_def by (intro exI [of _ "k + n"]) simp
qed

lemma covers_step:
  assumes "covers tk (drop (length t) rest) (out @ [i]) ids" "unat i < length (vt_tokens tk)"
    "vt_unknown_token tk = Some i \<and> rest \<noteq> [] \<and> (\<forall>j. \<not> vt_matches tk rest j)
      \<or> \<not> vt_is_special tk i \<and> vt_token tk i = t \<and> starts_with rest t"
  shows "covers tk rest out ids"
proof -
  obtain new where new: "ids = out @ i # new" "\<forall>j \<in> set new. unat j < length (vt_tokens tk)"
    "(\<exists>u \<in> set new. vt_unknown_token tk = Some u) \<and> unmatched tk (drop (length t) rest) \<or> vt_plain tk new = drop (length t) rest"
    using assms(1) by (auto simp: covers_def)
  have "rest \<noteq> [] \<Longrightarrow> \<forall>j. \<not> vt_matches tk rest j \<Longrightarrow> unmatched tk rest"
    unfolding unmatched_def by (auto intro!: exI [of _ 0])
  moreover have "starts_with rest t \<Longrightarrow> t @ drop (length t) rest = rest"
    using append_take_drop_id [of "length t" rest] by (simp add: starts_with_def)
  ultimately have "(\<exists>u \<in> set (i # new). vt_unknown_token tk = Some u) \<and> unmatched tk rest \<or> vt_plain tk (i # new) = rest"
    using assms(3) new(3) unmatched_drop [of tk "length t" rest] by (auto simp: vt_plain_def)
  with new(1,2) assms(2) show ?thesis unfolding covers_def by (intro exI [of _ "i # new"]) simp
qed

lemma vt_encode_loop_covers:
  assumes vocab: "vocabulary_ok (vt_tokens tk)" and unknown: "\<And>u. vt_unknown_token tk = Some u \<Longrightarrow> unat u < length (vt_tokens tk)"
    and size: "int (length bytes) < usize_bound"
  shows "pos \<le> length bytes \<Longrightarrow> yields (stuck_at tk bytes) (covers tk (drop pos bytes) out) (vt_encode_loop tk bytes pos out)"
proof (induction "length bytes - pos" arbitrary: pos out rule: less_induct)
  case less
  show ?case
  proof (cases "pos < length bytes")
    case False
    with less.prems show ?thesis by (simp add: vt_encode_loop.simps covers_def vt_plain_def)
  next
    case True
    obtain best where best: "best_match tk (drop pos bytes) 0 (vt_tokens tk) None = Inr best"
      "vt_chooses tk (drop pos bytes) (length (vt_tokens tk)) best"
      using best_match_spec [OF vocab] by blast
    show ?thesis
    proof (cases best)
      case None
      from None best(2) have unmatched: "\<not> vt_matches tk (drop pos bytes) j" for j
        by (auto simp: vt_chooses_def vt_matches_def)
      show ?thesis
      proof (cases "vt_unknown_token tk")
        case None': None
        with unmatched True best None None' show ?thesis
          by (subst vt_encode_loop.simps) (auto simp: yields_bind stuck_at_def)
      next
        case (Some u)
        have "yields (stuck_at tk bytes) (covers tk (drop (Suc pos) bytes) (out @ [u])) (vt_encode_loop tk bytes (Suc pos) (out @ [u]))"
          using True by (intro less.hyps) auto
        then have "yields (stuck_at tk bytes) (covers tk (drop pos bytes) out) (vt_encode_loop tk bytes (Suc pos) (out @ [u]))"
          by (rule yields_mono) (use Some unknown covers_step [of tk "[0]" "drop pos bytes" out u] unmatched True in auto)
        with True best None Some size show ?thesis
          by (subst vt_encode_loop.simps) (simp add: yields_bind usize_add_def)
      qed
    next
      case (Some m)
      obtain len i where m: "m = (len, i)" by fastforce
      from best(2) Some m have i: "vt_matches tk (drop pos bytes) i" and len: "len = length (vt_token tk i)"
        by (auto simp: vt_chooses_def)
      from i have i': "unat i < length (vt_tokens tk)" "\<not> vt_is_special tk i" "starts_with (drop pos bytes) (vt_token tk i)"
        by (simp_all add: vt_matches_def)
      have "0 < length (vt_token tk i)" using vocab i'(1) by (metis length_greater_0_conv nth_mem vocabulary_ok_def)
      moreover have bound: "pos + len \<le> length bytes"
        using i'(3) True unfolding len starts_with_def by (metis add_le_cancel_left le_add_diff_inverse length_drop length_take less_imp_le min.cobounded1)
      ultimately have "yields (stuck_at tk bytes) (covers tk (drop (pos + len) bytes) (out @ [i])) (vt_encode_loop tk bytes (pos + len) (out @ [i]))"
        using True by (intro less.hyps) (simp_all add: len del: length_greater_0_conv)
      then have "yields (stuck_at tk bytes) (covers tk (drop pos bytes) out) (vt_encode_loop tk bytes (pos + len) (out @ [i]))"
        by (rule yields_mono) (use i' covers_step [of tk "vt_token tk i" "drop pos bytes" out i] in \<open>auto simp: len add.commute\<close>)
      with True best Some m size bound show ?thesis
        by (subst vt_encode_loop.simps) (simp add: yields_bind usize_add_def)
    qed
  qed
qed

lemma vocabulary_new_Inr:
  assumes "vocabulary_new tokens bos eos unknown = Inr tk"
  shows "vt_tokens tk = tokens" "vocabulary_ok (vt_tokens tk)" "vt_bos_token tk = bos" "vt_eos_token tk = eos" "vt_unknown_token tk = unknown"
    "\<And>i. vt_is_special tk i \<Longrightarrow> unat i < length (vt_tokens tk)"
proof -
  from assms have ok: "validate_vocabulary tokens = Inr ()" "validate_specials tokens bos eos unknown = Inr ()"
    and tk: "tk = \<lparr>vt_tokens = tokens, vt_bos_token = bos, vt_eos_token = eos, vt_unknown_token = unknown\<rparr>"
    by (auto simp: vocabulary_new_def)
  show "vt_tokens tk = tokens" "vocabulary_ok (vt_tokens tk)" "vt_bos_token tk = bos" "vt_eos_token tk = eos" "vt_unknown_token tk = unknown"
    using validate_vocabulary_Inr [OF ok(1)] by (simp_all add: tk)
  show "unat i < length (vt_tokens tk)" if "vt_is_special tk i" for i
    using that validate_specials_Inr [OF ok(2), of i] by (auto simp: tk vt_is_special_def)
qed

lemma vt_encode_decode:
  assumes new: "vocabulary_new tokens bos eos unknown = Inr tk" and ok: "str_ok s" "int (length s) < usize_bound"
  shows "yields (stuck_at tk (str_bytes s))
    (\<lambda>ids. (\<forall>i \<in> set ids. unat i < length (vt_tokens tk))
      \<and> ((\<exists>u \<in> set ids. unknown = Some u) \<and> unmatched tk (str_bytes s) \<or> vt_decode tk ids True = Inr s)) (vt_encode tk s add_bos)"
proof -
  note tk = vocabulary_new_Inr [OF new]
  let ?bos = "if add_bos then flatten_options [vt_bos_token tk] else []"
  have bos: "\<forall>i \<in> set ?bos. vt_is_special tk i" by (simp add: vt_is_special_def)
  then have bos_range: "\<forall>i \<in> set ?bos. unat i < length (vt_tokens tk)" and no_bos: "vt_plain tk (?bos @ new) = vt_plain tk new" for new
    using tk(6) by (auto simp: vt_plain_def filter_empty_conv)
  have "yields (stuck_at tk (str_bytes s)) (covers tk (str_bytes s) ?bos) (vt_encode tk s add_bos)"
    using vt_encode_loop_covers [OF tk(2) tk(6), of "str_bytes s" 0 ?bos] ok(2)
    by (simp add: vt_encode_def vt_is_special_def)
  then show ?thesis
  proof (rule yields_mono)
    fix ids assume "covers tk (str_bytes s) ?bos ids"
    then obtain new where new: "ids = ?bos @ new" "\<forall>i \<in> set new. unat i < length (vt_tokens tk)"
      "(\<exists>u \<in> set new. unknown = Some u) \<and> unmatched tk (str_bytes s) \<or> vt_plain tk new = str_bytes s"
      unfolding covers_def tk(5) by blast
    from new(1,2) bos_range have range: "\<forall>i \<in> set ids. unat i < length (vt_tokens tk)" by auto
    moreover have "vt_decode tk ids True = Inr s" if "vt_plain tk new = str_bytes s"
      using vt_decode_bytes_skip [of ids tk "[]"] range that ok(1) no_bos [of new] by (simp add: vt_decode_def new(1))
    ultimately show "(\<forall>i \<in> set ids. unat i < length (vt_tokens tk))
        \<and> ((\<exists>u \<in> set ids. unknown = Some u) \<and> unmatched tk (str_bytes s) \<or> vt_decode tk ids True = Inr s)"
      using new(1,3) by auto
  qed
qed

end
