(* ===== verification/Gpt2_Correct.thy ===== *)
theory Gpt2_Correct
  imports Tokenizer_Correct
begin

text \<open>
  The byte-level BPE tokenizer encodes every text, whatever the Unicode classes of its characters are,
  and decodes it again; each merge takes the leftmost pair of the smallest rank.
\<close>

section \<open>The characters that stand for bytes\<close>

lemma byte_code_points_eq:
  "byte_code_points = [256..<289] @ [33..<127] @ [289..<323] @ [161..<173] @ [323] @ [174..<256]"
  by code_simp

lemma length_byte_code_points: "length byte_code_points = 256"
  by (simp add: byte_code_points_eq)

lemma distinct_byte_code_points: "distinct byte_code_points"
  by (auto simp: byte_code_points_eq)

lemma byte_code_points_small: "n \<in> set byte_code_points \<Longrightarrow> n < 0x800"
  by (auto simp: byte_code_points_eq)

lemma unat_byte_sum: "k < 64 \<Longrightarrow> unat (0xC0 + of_nat k :: u8) = 0xC0 + k" "k < 64 \<Longrightarrow> unat (0x80 + of_nat k :: u8) = 0x80 + k"
  by (simp_all add: unat_word_ariths unat_of_nat)

lemma char_utf8_is_char: "n < 0x800 \<Longrightarrow> is_char (char_utf8 n)"
proof -
  assume n: "n < 0x800"
  show ?thesis
  proof (cases "n < 0x80")
    case True
    then have "(of_nat n :: u8) < 128" by (simp add: word_less_nat_alt unat_of_nat)
    with True show ?thesis by (simp add: char_utf8_def is_char_def)
  next
    case False
    with n have d: "2 \<le> n div 64" "n div 64 < 32" by auto
    then have "\<not> (0xC0 + of_nat (n div 64) :: u8) < 128" "lead2 (0xC0 + of_nat (n div 64))"
      using unat_byte_sum(1) [of "n div 64"] by (simp_all add: lead2_def word_less_nat_alt word_le_nat_alt)
    moreover have "is_cont (0x80 + of_nat (n mod 64))"
      using unat_byte_sum(2) [of "n mod 64"] by (simp add: is_cont_def word_le_nat_alt)
    ultimately show ?thesis using False by (simp add: char_utf8_def is_char_def)
  qed
qed

lemma char_utf8_inj: "m < 0x800 \<Longrightarrow> n < 0x800 \<Longrightarrow> char_utf8 m = char_utf8 n \<Longrightarrow> m = n"
proof -
  assume m: "m < 0x800" and n: "n < 0x800" and eq: "char_utf8 m = char_utf8 n"
  have small: "unat (of_nat k :: u8) = k" if "k < 0x80" for k using that by (simp add: unat_of_nat)
  consider "m < 0x80" "n < 0x80" "(of_nat m :: u8) = of_nat n"
    | "(0xC0 + of_nat (m div 64) :: u8) = 0xC0 + of_nat (n div 64)" "(0x80 + of_nat (m mod 64) :: u8) = 0x80 + of_nat (n mod 64)"
    using eq by (auto simp: char_utf8_def split: if_splits)
  then show "m = n"
  proof cases
    case 1
    with small show ?thesis by metis
  next
    case 2
    have "m div 64 < 64" "n div 64 < 64" "m mod 64 < 64" "n mod 64 < 64" using m n by auto
    with 2 have "m div 64 = n div 64" "m mod 64 = n mod 64"
      using unat_byte_sum by (metis add_left_cancel)+
    then show ?thesis by (metis div_mult_mod_eq)
  qed
qed

lemma length_byte_encoder [simp]: "length gpt2_byte_encoder = 256"
  by (simp add: gpt2_byte_encoder_def length_byte_code_points)

lemma byte_encoder_is_char: "c \<in> set gpt2_byte_encoder \<Longrightarrow> is_char c"
  using char_utf8_is_char byte_code_points_small by (auto simp: gpt2_byte_encoder_def)

lemma distinct_byte_encoder: "distinct gpt2_byte_encoder"
  using distinct_byte_code_points char_utf8_inj byte_code_points_small
  by (auto simp: gpt2_byte_encoder_def distinct_map inj_on_def)

lemma byte_decoder_fold:
  assumes "bt_wf m" "distinct encoder" "set xs \<subseteq> {..<length encoder}"
  shows "bt_wf (fold (\<lambda>b. bt_insert (encoder ! b) (of_nat b :: u8)) xs m)
    \<and> (\<forall>b < length encoder. bt_get (fold (\<lambda>b. bt_insert (encoder ! b) (of_nat b)) xs m) (encoder ! b)
        = (if b \<in> set xs then Some (of_nat b) else bt_get m (encoder ! b)))"
  using assms by (induction xs arbitrary: m) (auto simp: bt_get_insert nth_eq_iff_index_eq)

lemma byte_decoder_get: "bt_get (byte_decoder_of gpt2_byte_encoder) (gpt2_byte_encoder ! unat b) = Some b"
proof -
  have b: "unat b < 256" using unsigned_less [of b, where ?'a = nat] by simp
  have "set [0..<256] \<subseteq> {..<length gpt2_byte_encoder}" by auto
  from byte_decoder_fold [OF _ distinct_byte_encoder this, of "[]"] b show ?thesis
    by (simp add: byte_decoder_of_def)
qed

section \<open>Words\<close>

lemma concat_pretokenize: "concat (pretokenize category cs) = bytes_str (concat cs)"
proof (induction category cs rule: pretokenize.induct)
  case (1 category cs)
  show ?case
  proof (cases "cs = []")
    case False
    have "concat cs = concat (take (word_len category cs) cs) @ concat (drop (word_len category cs) cs)"
      by (metis append_take_drop_id concat_append)
    with 1 [OF False] False show ?thesis by (subst pretokenize.simps) (simp add: bytes_str_def)
  qed (simp add: pretokenize.simps bytes_str_def)
qed

lemma concat_gpt2_pretokenize: "str_ok text \<Longrightarrow> concat (gpt2_pretokenize category text) = text"
  by (simp add: gpt2_pretokenize_def concat_pretokenize concat_utf8_chars str_ok_def)

section \<open>Merging\<close>

definition byte_char :: "u8 \<Rightarrow> u8 list" where
  "byte_char b = gpt2_byte_encoder ! unat b"

lemma byte_char_in: "byte_char b \<in> set gpt2_byte_encoder"
  using unsigned_less [of b, where ?'a = nat] by (simp add: byte_char_def)

lemma byte_char_is_char: "is_char (byte_char b)"
  by (rule byte_encoder_is_char [OF byte_char_in])

definition byte_text :: "u8 list \<Rightarrow> u8 list" where
  "byte_text bs = concat (map byte_char bs)"

lemma utf8_chars_byte_text: "utf8_chars (byte_text bs) = map byte_char bs"
  unfolding byte_text_def by (rule utf8_chars_concat) (auto simp: byte_char_is_char)

lemma utf8_valid_byte_text: "utf8_valid (byte_text bs)"
  unfolding byte_text_def by (rule utf8_valid_concat) (auto simp: byte_char_is_char)

text \<open>What merging may produce: the characters of bytes and the results of the merges.\<close>

definition gt_piece :: "gpt2_bpe_tokenizer \<Rightarrow> u8 list \<Rightarrow> bool" where
  "gt_piece tk s \<longleftrightarrow> s \<in> set gpt2_byte_encoder \<or> (\<exists>l r. bt_contains (gt_merge_ranks tk) (l, r) \<and> s = l @ r)"

definition pair_rank :: "gpt2_bpe_tokenizer \<Rightarrow> u8 list list \<Rightarrow> nat \<Rightarrow> nat option" where
  "pair_rank tk symbols i = bt_get (gt_merge_ranks tk) (symbols ! i, symbols ! Suc i)"

definition least_pair :: "gpt2_bpe_tokenizer \<Rightarrow> u8 list list \<Rightarrow> nat \<Rightarrow> (nat \<times> nat) option \<Rightarrow> bool" where
  "least_pair tk symbols n best \<longleftrightarrow>
    (case best of
      None \<Rightarrow> \<forall>i < n. pair_rank tk symbols i = None
    | Some (rank, index) \<Rightarrow> index < n \<and> pair_rank tk symbols index = Some rank
        \<and> (\<forall>i < n. \<forall>r. pair_rank tk symbols i = Some r \<longrightarrow> rank < r \<or> rank = r \<and> index \<le> i))"

lemma consider_least_pair:
  assumes "least_pair tk symbols n best"
  shows "least_pair tk symbols (Suc n) (consider_pair tk symbols n best)"
proof (cases "pair_rank tk symbols n")
  case None
  with assms show ?thesis
    by (auto simp: least_pair_def consider_pair_def pair_rank_def less_Suc_eq split: option.splits)
next
  case (Some r)
  show ?thesis
  proof (cases best)
    case None
    with assms Some show ?thesis
      by (simp add: least_pair_def consider_pair_def pair_rank_def less_Suc_eq)
  next
    case (Some b)
    obtain rank index where b: "b = (rank, index)" by fastforce
    with assms Some have index: "index < n" "pair_rank tk symbols index = Some rank"
      and least: "\<And>i r. i < n \<Longrightarrow> pair_rank tk symbols i = Some r \<Longrightarrow> rank < r \<or> rank = r \<and> index \<le> i"
      by (auto simp: least_pair_def)
    have "consider_pair tk symbols n best = (if rank \<le> r then Some (rank, index) else Some (r, n))"
      using \<open>pair_rank tk symbols n = Some r\<close> Some b index(1) by (auto simp: consider_pair_def pair_rank_def)
    then show ?thesis
      using least index \<open>pair_rank tk symbols n = Some r\<close> by (fastforce simp: least_pair_def less_Suc_eq)
  qed
qed

lemma fold_least_pair: "least_pair tk symbols n (fold (consider_pair tk symbols) [0..<n] None)"
  by (induction n) (simp_all add: consider_least_pair, simp add: least_pair_def)

lemma best_pair_least: "least_pair tk symbols (length symbols - 1) (best_pair tk symbols)"
  unfolding best_pair_def by (rule fold_least_pair)

lemma best_pair_piece:
  "best_pair tk symbols = Some (rank, index) \<Longrightarrow> gt_piece tk (symbols ! index @ symbols ! Suc index)"
  using best_pair_least [of tk symbols] by (force simp: least_pair_def pair_rank_def gt_piece_def bt_contains_def)

lemma merge_at_append: "merge_at (length as) (as @ l # r # bs) = as @ (l @ r) # bs"
  by (simp add: merge_at_def Let_def nth_append)

text \<open>The symbols are the texts of a division of the bytes into groups.\<close>

definition divides :: "u8 list \<Rightarrow> u8 list list \<Rightarrow> bool" where
  "divides bs symbols \<longleftrightarrow> (\<exists>groups. symbols = map byte_text groups \<and> concat groups = bs)"

lemma divides_merge_at:
  assumes "divides bs symbols" "Suc i < length symbols"
  shows "divides bs (merge_at i symbols)"
proof -
  obtain groups where groups: "symbols = map byte_text groups" "concat groups = bs"
    using assms(1) by (auto simp: divides_def)
  define xs ys where "xs = take i groups" and "ys = drop (Suc (Suc i)) groups"
  have split: "groups = xs @ groups ! i # groups ! Suc i # ys" and len: "length xs = i"
    using assms(2) by (simp_all add: groups(1) xs_def ys_def Cons_nth_drop_Suc id_take_nth_drop)
  have "symbols = map byte_text xs @ byte_text (groups ! i) # byte_text (groups ! Suc i) # map byte_text ys"
    unfolding groups(1) by (subst split) simp
  then have "merge_at i symbols = map byte_text (xs @ (groups ! i @ groups ! Suc i) # ys)"
    using merge_at_append [of "map byte_text xs"] by (simp add: len byte_text_def)
  moreover have "concat (xs @ (groups ! i @ groups ! Suc i) # ys) = bs"
    using groups(2) by (subst (asm) split) simp
  ultimately show ?thesis unfolding divides_def by blast
qed

lemma set_merge_at: "Suc i < length symbols \<Longrightarrow> set (merge_at i symbols) \<subseteq> insert (symbols ! i @ symbols ! Suc i) (set symbols)"
proof -
  assume i: "Suc i < length symbols"
  have "symbols = take i symbols @ symbols ! i # symbols ! Suc i # drop (Suc (Suc i)) symbols"
    using i by (simp add: Cons_nth_drop_Suc id_take_nth_drop)
  then have "merge_at i symbols = take i symbols @ (symbols ! i @ symbols ! Suc i) # drop (Suc (Suc i)) symbols"
    using merge_at_append [of "take i symbols" "symbols ! i" "symbols ! Suc i" "drop (Suc (Suc i)) symbols"] i by simp
  then show ?thesis by (auto dest: in_set_takeD in_set_dropD)
qed

lemma bpe_merge_keeps:
  assumes "divides bs symbols" "\<forall>s \<in> set symbols. gt_piece tk s"
  shows "divides bs (bpe_merge tk symbols) \<and> (\<forall>s \<in> set (bpe_merge tk symbols). gt_piece tk s)"
  using assms
proof (induction tk symbols rule: bpe_merge.induct)
  case (1 tk symbols)
  show ?case
  proof (cases "best_pair tk symbols")
    case None
    with "1.prems" show ?thesis by (simp add: bpe_merge.simps)
  next
    case (Some best)
    obtain rank i where best: "best_pair tk symbols = Some (rank, i)" using Some by (cases best) simp
    have i: "Suc i < length symbols" by (rule best_pair_index [OF best])
    have "divides bs (merge_at i symbols)" "\<forall>s \<in> set (merge_at i symbols). gt_piece tk s"
      using divides_merge_at [OF "1.prems"(1) i] set_merge_at [OF i] best_pair_piece [OF best] "1.prems"(2) by blast+
    with "1.IH" [OF best] show ?thesis by (subst (1 2) bpe_merge.simps) (simp add: best)
  qed
qed

section \<open>Encoding and decoding\<close>

definition gpt2_ok :: "gpt2_bpe_tokenizer \<Rightarrow> bool" where
  "gpt2_ok tk \<longleftrightarrow> indexes (gt_token_to_id tk) (gt_tokens tk)
    \<and> (\<forall>i. gt_is_special tk i \<longrightarrow> unat i < length (gt_tokens tk))
    \<and> (\<forall>s. gt_piece tk s \<longrightarrow> bt_contains (gt_token_to_id tk) s)
    \<and> gt_byte_encoder tk = gpt2_byte_encoder \<and> gt_byte_decoder tk = byte_decoder_of gpt2_byte_encoder"

lemma rank_merges_contains:
  assumes "rank_merges ids rank merges ranks = Inr ranks'" "bt_wf ranks"
    "\<And>l r. bt_contains ranks (l, r) \<Longrightarrow> bt_contains ids (l @ r)"
  shows "bt_contains ranks' (l, r) \<Longrightarrow> bt_contains ids (l @ r)"
  using assms
proof (induction merges arbitrary: rank ranks)
  case (Cons m ms)
  then obtain left right where m: "parse_merge m = Some (left, right)"
    "bt_contains ids (str_bytes left @ str_bytes right)"
    and rest: "rank_merges ids (Suc rank) ms (bt_insert (str_bytes left, str_bytes right) rank ranks) = Inr ranks'"
    by (auto simp: Let_def split: option.splits if_splits)
  show ?case
    by (rule Cons.IH [OF Cons.prems(1) rest])
      (use Cons.prems(3,4) m(2) in \<open>auto simp: bt_contains_def bt_get_insert split: if_splits\<close>)
qed simp

lemma gpt2_new_ok: "gpt2_new tokens merges config = Inr tk \<Longrightarrow> gpt2_ok tk \<and> gt_tokens tk = tokens"
proof -
  assume "gpt2_new tokens merges config = Inr tk"
  then obtain ids ranks where ok: "validate_vocabulary tokens = Inr ()"
      "validate_specials tokens (gc_bos_token config) (gc_eos_token config) (gc_unknown_token config) = Inr ()"
      "index_tokens 0 tokens [] = Inr ids" "rank_merges ids 0 merges [] = Inr ranks"
      "\<forall>c \<in> set gpt2_byte_encoder. bt_contains ids c"
    and tk: "gt_tokens tk = tokens" "gt_token_to_id tk = ids" "gt_merge_ranks tk = ranks" "gt_byte_encoder tk = gpt2_byte_encoder"
      "gt_byte_decoder tk = byte_decoder_of gpt2_byte_encoder" "gt_bos_token tk = gc_bos_token config"
      "gt_eos_token tk = gc_eos_token config" "gt_unknown_token tk = gc_unknown_token config"
    by (auto simp: gpt2_new_def split: if_splits)
  have "indexes ids tokens"
    using validate_vocabulary_Inr [OF ok(1)] index_tokens_indexes [OF ok(3)] by (simp add: vocabulary_ok_def)
  moreover have "bt_contains ids s" if "gt_piece tk s" for s
    using that ok(5) rank_merges_contains [OF ok(4)] by (auto simp: gt_piece_def tk bt_contains_def)
  moreover have "unat i < length tokens" if "gt_is_special tk i" for i
    using that validate_specials_Inr [OF ok(2), of i] by (auto simp: gt_is_special_def tk)
  ultimately show ?thesis by (simp add: gpt2_ok_def tk)
qed

definition gt_id :: "gpt2_bpe_tokenizer \<Rightarrow> u8 list \<Rightarrow> u32" where
  "gt_id tk s = the (bt_get (gt_token_to_id tk) s)"

lemma gt_id:
  assumes "gpt2_ok tk" "gt_piece tk s"
  shows "bt_get (gt_token_to_id tk) s = Some (gt_id tk s)" "unat (gt_id tk s) < length (gt_tokens tk)"
    "gt_tokens tk ! unat (gt_id tk s) = s"
proof -
  show get: "bt_get (gt_token_to_id tk) s = Some (gt_id tk s)"
    using assms by (auto simp: gpt2_ok_def bt_contains_def gt_id_def)
  show "unat (gt_id tk s) < length (gt_tokens tk)" "gt_tokens tk ! unat (gt_id tk s) = s"
    using indexes_get [OF _ get] assms(1) by (simp_all add: gpt2_ok_def)
qed

lemma emit_symbols_pieces:
  "gpt2_ok tk \<Longrightarrow> \<forall>s \<in> set symbols. gt_piece tk s \<Longrightarrow> emit_symbols tk symbols out = Inr (out @ map (gt_id tk) symbols)"
  by (induction symbols arbitrary: out) (simp_all add: gt_id(1))

lemma divides_append: "divides bs xs \<Longrightarrow> divides cs ys \<Longrightarrow> divides (bs @ cs) (xs @ ys)"
  unfolding divides_def by (metis concat_append map_append)

lemma encode_word_divides:
  assumes "gpt2_ok tk"
  shows "\<exists>symbols. encode_word tk (byte_encode tk word) out = Inr (out @ map (gt_id tk) symbols)
    \<and> divides (str_bytes word) symbols \<and> (\<forall>s \<in> set symbols. gt_piece tk s)"
proof -
  have enc: "byte_encode tk word = byte_text (str_bytes word)"
    using assms by (simp add: byte_encode_def byte_text_def gpt2_ok_def byte_char_def [abs_def])
  let ?start = "map byte_char (str_bytes word)"
  have "divides (str_bytes word) ?start"
    unfolding divides_def by (intro exI [of _ "map (\<lambda>b. [b]) (str_bytes word)"]) (simp add: byte_text_def comp_def concat_map_singleton)
  moreover have "\<forall>s \<in> set ?start. gt_piece tk s" using byte_char_in by (auto simp: gt_piece_def)
  ultimately have merged: "divides (str_bytes word) (bpe_merge tk ?start)" "\<forall>s \<in> set (bpe_merge tk ?start). gt_piece tk s"
    using bpe_merge_keeps by blast+
  have "encode_word tk (byte_encode tk word) out = Inr (out @ map (gt_id tk) (bpe_merge tk ?start))"
    by (simp add: encode_word_def enc from_utf8_def utf8_valid_byte_text utf8_chars_byte_text emit_symbols_pieces [OF assms merged(2)])
  with merged show ?thesis by blast
qed

lemma encode_words_divides:
  assumes "gpt2_ok tk"
  shows "\<exists>symbols. encode_words tk words out = Inr (out @ map (gt_id tk) symbols)
    \<and> divides (str_bytes (concat words)) symbols \<and> (\<forall>s \<in> set symbols. gt_piece tk s)"
proof (induction words arbitrary: out)
  case Nil
  then show ?case by (intro exI [of _ "[]"]) (simp add: divides_def str_bytes_def)
next
  case (Cons w ws)
  obtain xs where xs: "encode_word tk (byte_encode tk w) out = Inr (out @ map (gt_id tk) xs)"
    "divides (str_bytes w) xs" "\<forall>s \<in> set xs. gt_piece tk s"
    using encode_word_divides [OF assms] by blast
  obtain ys where ys: "encode_words tk ws (out @ map (gt_id tk) xs) = Inr ((out @ map (gt_id tk) xs) @ map (gt_id tk) ys)"
    "divides (str_bytes (concat ws)) ys" "\<forall>s \<in> set ys. gt_piece tk s"
    using Cons.IH by blast
  with xs show ?case
    using divides_append [OF xs(2) ys(2)] by (intro exI [of _ "xs @ ys"]) (auto simp: str_bytes_append)
qed

lemma decode_byte_chars:
  "gpt2_ok tk \<Longrightarrow> decode_chars tk (map byte_char bs) bytes = Inr (bytes @ bs)"
  by (induction bs arbitrary: bytes) (simp_all add: gpt2_ok_def byte_char_def byte_decoder_get)

lemma decode_divides:
  assumes "gpt2_ok tk" "divides bs symbols" "\<forall>s \<in> set symbols. gt_piece tk s \<and> \<not> (skip \<and> gt_is_special tk (gt_id tk s))"
  shows "gpt2_decode_bytes tk skip (map (gt_id tk) symbols @ rest) bytes = gpt2_decode_bytes tk skip rest (bytes @ bs)"
proof -
  obtain groups where groups: "symbols = map byte_text groups" "concat groups = bs"
    using assms(2) by (auto simp: divides_def)
  have "\<forall>g \<in> set groups. gt_piece tk (byte_text g) \<and> \<not> (skip \<and> gt_is_special tk (gt_id tk (byte_text g)))
    \<Longrightarrow> gpt2_decode_bytes tk skip (map (gt_id tk) (map byte_text groups) @ rest) bytes
      = gpt2_decode_bytes tk skip rest (bytes @ concat groups)"
  proof (induction groups arbitrary: bytes)
    case (Cons g gs)
    then have "gt_piece tk (byte_text g)" by simp
    note g = gt_id(2,3) [OF assms(1) this]
    with Cons show ?case
      by (auto simp: from_utf8_def utf8_valid_byte_text utf8_chars_byte_text decode_byte_chars [OF assms(1)] leD)
  qed simp
  with groups assms(3) show ?thesis by auto
qed

lemma gpt2_decode_special:
  "\<forall>i \<in> set ids. gt_is_special tk i \<Longrightarrow> gpt2_decode_bytes tk True (ids @ rest) bytes = gpt2_decode_bytes tk True rest bytes"
  by (induction ids) simp_all

text \<open>No special token is a character of a byte or the result of a merge.\<close>

definition gt_reserved :: "gpt2_bpe_tokenizer \<Rightarrow> bool" where
  "gt_reserved tk \<longleftrightarrow> (\<forall>i. gt_is_special tk i \<longrightarrow> \<not> gt_piece tk (gt_tokens tk ! unat i))"

lemma gpt2_encode_decode:
  assumes new: "gpt2_new tokens merges config = Inr tk" and ok: "str_ok text" "gt_reserved tk"
  shows "\<exists>ids. gpt2_encode category tk text add = Inr ids \<and> (\<forall>i \<in> set ids. unat i < length tokens)
    \<and> gpt2_decode tk ids True = Inr text"
proof -
  have tk: "gpt2_ok tk" "gt_tokens tk = tokens" using gpt2_new_ok [OF new] by simp_all
  let ?bos = "if add \<and> gt_add_bos_token tk then flatten_options [gt_bos_token tk] else []"
  let ?eos = "if add \<and> gt_add_eos_token tk then flatten_options [gt_eos_token tk] else []"
  have special: "\<forall>i \<in> set ?bos. gt_is_special tk i" "\<forall>i \<in> set ?eos. gt_is_special tk i"
    by (simp_all add: gt_is_special_def)
  obtain symbols where sym: "encode_words tk (gpt2_pretokenize category text) ?bos = Inr (?bos @ map (gt_id tk) symbols)"
    "divides (str_bytes text) symbols" "\<forall>s \<in> set symbols. gt_piece tk s"
    using encode_words_divides [OF tk(1), of "gpt2_pretokenize category text"] concat_gpt2_pretokenize [OF ok(1)] by metis
  have plain: "\<forall>s \<in> set symbols. gt_piece tk s \<and> \<not> (True \<and> gt_is_special tk (gt_id tk s))"
    using sym(3) ok(2) gt_id(3) [OF tk(1)] by (metis gt_reserved_def)
  let ?ids = "(?bos @ map (gt_id tk) symbols) @ ?eos"
  have "gpt2_encode category tk text add = Inr ?ids"
    unfolding gpt2_encode_def sym(1) by simp
  moreover have "\<forall>i \<in> set ?ids. unat i < length tokens"
    using special sym(3) gt_id(2) [OF tk(1)] tk by (auto simp: gpt2_ok_def simp del: set_flatten_options)
  moreover have "gpt2_decode_bytes tk True ?ids [] = Inr (str_bytes text)"
    using gpt2_decode_special [OF special(1)] gpt2_decode_special [OF special(2), of "[]"] decode_divides [OF tk(1) sym(2) plain]
    by simp
  then have "gpt2_decode tk ?ids True = Inr text" using ok(1) by (simp add: gpt2_decode_def)
  ultimately show ?thesis by blast
qed

end
