(* ===== verification/Spm_Correct.thy ===== *)
theory Spm_Correct
  imports Tokenizer_Correct "HOL-Library.Multiset"
begin

text \<open>
  The SentencePiece tokenizer: merging terminates and keeps a chain of adjacent symbols that covers
  the text, each a character or a token that merges may produce, so that a vocabulary with a token
  for every byte encodes every text, and the decoder restores it.
\<close>

section \<open>UTF-8\<close>

lemma utf8_char_len_table:
  "list_all (\<lambda>n. utf8_char_len (of_nat n) =
      (if n < 192 then 1 else if n < 224 then 2 else if n < 240 then 3 else if n < 248 then 4 else 1)) [0..<256]"
  by code_simp

lemma utf8_char_len_eq:
  "utf8_char_len b = (if b < 192 then 1 else if b < 224 then 2 else if b < 240 then 3 else if b < 248 then 4 else 1)"
proof -
  have "unat b < 256" using unsigned_less [of b, where ?'a = nat] by simp
  then have "unat b \<in> set [0..<256]" by simp
  with utf8_char_len_table have "utf8_char_len (of_nat (unat b)) =
      (if unat b < 192 then 1 else if unat b < 224 then 2 else if unat b < 240 then 3 else if unat b < 248 then 4 else 1)"
    unfolding list_all_iff by blast
  then show ?thesis by (simp add: word_less_nat_alt)
qed

lemma utf8_char_len_head: "utf8_head (b # bs) \<noteq> 0 \<Longrightarrow> utf8_char_len b = utf8_head (b # bs)"
  unfolding utf8_char_len_eq
  by (auto simp: lead2_def lead3_def lead4_def word_less_nat_alt word_le_nat_alt split: list.splits if_splits)

lemma utf8_valid_head: "utf8_valid bs \<Longrightarrow> bs \<noteq> [] \<Longrightarrow> utf8_head bs \<noteq> 0 \<and> utf8_valid (drop (utf8_head bs) bs)"
  by (subst (asm) utf8_valid.simps) (simp split: if_splits)

section \<open>The escaped space\<close>

definition unescape :: "u8 list \<Rightarrow> u8 list" where
  "unescape token = append_unescaped_spm token []"

lemma append_unescaped_spm_eq: "append_unescaped_spm token out = out @ unescape token"
proof (induction "length token" arbitrary: token out rule: less_induct)
  case less
  show ?case
  proof (cases "token = []")
    case True
    then show ?thesis by (simp add: unescape_def append_unescaped_spm.simps)
  next
    case False
    have "length (drop (length SPM_SPACE) token) < length token" "length (tl token) < length token"
      using False by (simp_all add: SPM_SPACE_def)
    note IH = less.hyps [OF this(1)] less.hyps [OF this(2)]
    show ?thesis
      unfolding unescape_def append_unescaped_spm.simps [of token] by (simp add: False IH)
  qed
qed

lemma unescape_Nil [simp]: "unescape [] = []"
  by (simp add: unescape_def append_unescaped_spm.simps)

lemma unescape_space: "unescape (SPM_SPACE @ rest) = 32 # unescape rest"
  unfolding unescape_def
  by (subst append_unescaped_spm.simps) (simp add: SPM_SPACE_def starts_with_def append_unescaped_spm_eq)

lemma unescape_byte: "\<not> starts_with (b # rest) SPM_SPACE \<Longrightarrow> unescape (b # rest) = b # unescape rest"
  unfolding unescape_def
  by (subst append_unescaped_spm.simps) (simp add: append_unescaped_spm_eq)

lemma unescape_other: "b \<noteq> 0xE2 \<Longrightarrow> unescape (b # rest) = b # unescape rest"
  by (rule unescape_byte) (simp add: starts_with_def SPM_SPACE_def)

lemma is_char_cases [consumes 1, case_names 1 2 3 4]:
  assumes "is_char c"
  obtains a where "c = [a]" "a < 128"
    | a b where "c = [a, b]" "lead2 a" "is_cont b"
    | a b d where "c = [a, b, d]" "lead3 a" "second3 a b" "is_cont d"
    | a b d e where "c = [a, b, d, e]" "lead4 a" "second4 a b" "is_cont d" "is_cont e"
proof -
  obtain a r where c: "c = a # r" "utf8_head (a # r) = length (a # r)"
    using assms by (cases c) (auto simp: is_char_def)
  then show ?thesis
    by (auto split: if_splits list.splits intro: that simp: neq_Nil_conv length_Suc_conv numeral_eq_Suc)
qed

lemma cont_not_space: "is_cont b \<Longrightarrow> b \<noteq> 0xE2"
  by (auto simp: is_cont_def)

lemma unescape_char:
  assumes "is_char c"
  shows "unescape (c @ rest) = (if c = SPM_SPACE then [32] else c) @ unescape rest"
  using assms
proof (cases c rule: is_char_cases)
  case (1 a)
  then have "a \<noteq> 0xE2" by auto
  with 1 show ?thesis by (simp add: unescape_other SPM_SPACE_def)
next
  case (2 a b)
  then have "a \<noteq> 0xE2" by (auto simp: lead2_def)
  with 2 show ?thesis by (simp add: unescape_other cont_not_space SPM_SPACE_def)
next
  case (3 a b d)
  then have cont: "b \<noteq> 0xE2" "d \<noteq> 0xE2" by (auto simp: second3_def cont_not_space)
  show ?thesis
  proof (cases "c = SPM_SPACE")
    case True
    then show ?thesis by (simp add: unescape_space)
  next
    case False
    with 3 have "\<not> starts_with (a # b # d # rest) SPM_SPACE" by (simp add: starts_with_def SPM_SPACE_def)
    with 3 cont False show ?thesis by (simp add: unescape_byte unescape_other)
  qed
next
  case (4 a b d e)
  then have "a \<noteq> 0xE2" "b \<noteq> 0xE2" by (auto simp: lead4_def second4_def cont_not_space)
  with 4 show ?thesis by (simp add: unescape_other cont_not_space SPM_SPACE_def)
qed

lemma unescape_chars:
  "\<forall>c \<in> set cs. is_char c \<Longrightarrow> unescape (concat cs @ rest) = concat (map (\<lambda>c. if c = SPM_SPACE then [32] else c) cs) @ unescape rest"
  by (induction cs) (simp_all add: unescape_char)

lemma unescape_append: "utf8_valid p \<Longrightarrow> unescape (p @ rest) = unescape p @ unescape rest"
  using unescape_chars [of "utf8_chars p" rest] unescape_chars [of "utf8_chars p" "[]"] utf8_chars_is_char concat_utf8_chars [of p]
  by auto

lemma unescape_concat: "\<forall>p \<in> set ps. utf8_valid p \<Longrightarrow> unescape (concat ps) = concat (map unescape ps)"
  by (induction ps) (simp_all add: unescape_append)

lemma unescape_plain_char: "is_char c \<Longrightarrow> c \<noteq> SPM_SPACE \<Longrightarrow> unescape c = c"
  using unescape_char [of c "[]"] by simp

section \<open>Normalization\<close>

definition normal_chars :: "string \<Rightarrow> bool \<Rightarrow> u8 list list" where
  "normal_chars s prefix = (if prefix \<and> s \<noteq> [] then [SPM_SPACE] else [])
    @ map (\<lambda>c. if c = [32] then SPM_SPACE else c) (utf8_chars (str_bytes s))"

lemma is_char_space: "is_char SPM_SPACE" "is_char [32]"
  by (simp_all add: is_char_def SPM_SPACE_def lead2_def lead3_def second3_def is_cont_def)

lemma normal_chars_is_char: "c \<in> set (normal_chars s prefix) \<Longrightarrow> is_char c"
  using utf8_chars_is_char [of _ "str_bytes s"] is_char_space by (auto simp: normal_chars_def split: if_splits)

lemma normalize_spm_eq: "normalize_spm s prefix = concat (normal_chars s prefix)"
  by (cases "prefix \<and> s \<noteq> []") (auto simp: normalize_spm_def normal_chars_def)

lemma normalize_spm_valid: "utf8_valid (normalize_spm s prefix)"
  unfolding normalize_spm_eq by (rule utf8_valid_concat) (rule normal_chars_is_char)

text \<open>A text with spaces for its escape characters, which the decoder cannot tell apart.\<close>

definition spm_spaced :: "string \<Rightarrow> string" where
  "spm_spaced s = bytes_str (concat (map (\<lambda>c. if c = SPM_SPACE then [32] else c) (utf8_chars (str_bytes s))))"

lemma str_bytes_spaced: "str_bytes (spm_spaced s) = concat (map (\<lambda>c. if c = SPM_SPACE then [32] else c) (utf8_chars (str_bytes s)))"
  by (simp add: spm_spaced_def)

lemma spm_spaced_same: "str_ok s \<Longrightarrow> SPM_SPACE \<notin> set (utf8_chars (str_bytes s)) \<Longrightarrow> spm_spaced s = s"
proof -
  have "map (\<lambda>c. if c = SPM_SPACE then [32] else c) cs = cs" if "SPM_SPACE \<notin> set cs" for cs
    using that by (induction cs) auto
  then show "str_ok s \<Longrightarrow> SPM_SPACE \<notin> set (utf8_chars (str_bytes s)) \<Longrightarrow> spm_spaced s = s"
    by (simp add: spm_spaced_def concat_utf8_chars str_ok_def)
qed

lemma str_ok_spaced: "str_ok (spm_spaced s)"
  unfolding str_ok_def str_bytes_spaced
  by (rule utf8_valid_concat) (use utf8_chars_is_char is_char_space in auto)

lemma spm_spaced_Nil: "str_ok s \<Longrightarrow> spm_spaced s = [] \<longleftrightarrow> s = []"
proof
  assume s: "str_ok s" and "spm_spaced s = []"
  then have "str_bytes (spm_spaced s) = []" by (simp add: str_bytes_def)
  then have "\<forall>c \<in> set (utf8_chars (str_bytes s)). c = []" unfolding str_bytes_spaced by (auto split: if_splits)
  then have "concat (utf8_chars (str_bytes s)) = []" by simp
  with s have "str_bytes s = []" by (simp add: concat_utf8_chars str_ok_def)
  then show "s = []" by (metis length_0_conv length_str_bytes)
qed (simp add: spm_spaced_def str_bytes_def bytes_str_def utf8_chars.simps)

lemma unescape_normalize:
  "unescape (normalize_spm s prefix) = (if prefix \<and> s \<noteq> [] then [32] else []) @ str_bytes (spm_spaced s)"
proof -
  have same: "map (\<lambda>c. if c = SPM_SPACE then [32] else c) (map (\<lambda>c. if c = [32] then SPM_SPACE else c) cs)
      = map (\<lambda>c. if c = SPM_SPACE then [32] else c) cs" for cs
    by (induction cs) auto
  have "unescape (normalize_spm s prefix) = concat (map (\<lambda>c. if c = SPM_SPACE then [32] else c) (normal_chars s prefix))"
    unfolding normalize_spm_eq using unescape_chars [of "normal_chars s prefix" "[]"] normal_chars_is_char by auto
  also have "\<dots> = (if prefix \<and> s \<noteq> [] then [32] else []) @ str_bytes (spm_spaced s)"
    unfolding normal_chars_def map_append concat_append same str_bytes_spaced by (rule arg_cong2 [of _ _ _ _ "(@)"]) simp_all
  finally show ?thesis .
qed

lemma length_normalize: "str_ok s \<Longrightarrow> length (normalize_spm s prefix) \<le> 3 * length s + 3"
proof -
  assume "str_ok s"
  have chars: "length (concat (map (\<lambda>c. if c = [32] then SPM_SPACE else c) cs)) \<le> 3 * length (concat cs)" for cs :: "u8 list list"
    by (induction cs) (auto simp: SPM_SPACE_def)
  from chars [of "utf8_chars (str_bytes s)"] \<open>str_ok s\<close> show ?thesis
    by (simp add: normalize_spm_def concat_utf8_chars str_ok_def SPM_SPACE_def)
qed

lemma normalize_spm_Nil: "str_ok s \<Longrightarrow> normalize_spm s prefix = [] \<longleftrightarrow> s = []"
proof
  assume "str_ok s" "normalize_spm s prefix = []"
  then have "concat (map (\<lambda>c. if c = [32] then SPM_SPACE else c) (utf8_chars (str_bytes s))) = []"
    by (simp add: normalize_spm_def)
  then have "\<forall>c \<in> set (utf8_chars (str_bytes s)). c = []" by (auto simp: SPM_SPACE_def split: if_splits)
  then have "concat (utf8_chars (str_bytes s)) = []" by simp
  with \<open>str_ok s\<close> have "str_bytes s = []" by (simp add: concat_utf8_chars str_ok_def)
  then show "s = []" by (metis length_0_conv length_str_bytes)
qed (simp add: normalize_spm_def utf8_chars.simps str_bytes_def)

section \<open>The tables of the tokenizer\<close>

definition spm_special :: "llama_spm_tokenizer \<Rightarrow> u32 \<Rightarrow> bool" where
  "spm_special tk i \<longleftrightarrow> lt_bos_token tk = Some i \<or> lt_eos_token tk = Some i \<or> lt_unknown_token tk = Some i"

abbreviation lt_type :: "llama_spm_tokenizer \<Rightarrow> u32 \<Rightarrow> i32" where
  "lt_type tk i \<equiv> lt_token_types tk ! unat i"

definition byte_ids_ok :: "u8 list list \<Rightarrow> i32 list \<Rightarrow> u32 option list \<Rightarrow> bool" where
  "byte_ids_ok tokens tys byte_ids \<longleftrightarrow> length byte_ids = 256
    \<and> (\<forall>b i. byte_ids ! unat b = Some i \<longrightarrow> unat i < length tokens
        \<and> tys ! unat i = TOKEN_TYPE_BYTE \<and> parse_byte_piece (tokens ! unat i) = Some b)"

definition spm_ok :: "llama_spm_tokenizer \<Rightarrow> bool" where
  "spm_ok tk \<longleftrightarrow> indexes (lt_token_to_id tk) (lt_tokens tk) \<and> byte_ids_ok (lt_tokens tk) (lt_token_types tk) (lt_byte_tokens tk)
    \<and> length (lt_score_bits tk) = length (lt_tokens tk) \<and> length (lt_token_types tk) = length (lt_tokens tk)
    \<and> (\<forall>i. spm_special tk i \<longrightarrow> unat i < length (lt_tokens tk))"

lemma spm_tables_index:
  assumes "spm_tables n tokens scores tys ids byte_ids = Inr (ids', byte_ids')"
    "length scores = length tokens" "length tys = length tokens"
  shows "index_tokens n tokens ids = Inr ids'"
  using assms
  by (induction n tokens scores tys ids byte_ids rule: spm_tables.induct) (auto split: if_splits option.splits)

lemma spm_tables_bytes:
  assumes "spm_tables n tokens scores tys ids byte_ids = Inr (ids', byte_ids')"
    "length scores = length tokens" "length tys = length tokens" "tokens = drop n all_tokens" "tys = drop n all_types"
    "n \<le> length all_tokens" "length all_types = length all_tokens"
    "byte_ids_ok all_tokens all_types byte_ids"
  shows "byte_ids_ok all_tokens all_types byte_ids'"
  using assms
proof (induction n tokens scores tys ids byte_ids rule: spm_tables.induct)
  case (1 n t ts s ss y ys ids byte_ids)
  let ?i = "of_nat n :: u32"
  let ?byte_ids = "if y = TOKEN_TYPE_BYTE then
      (case parse_byte_piece t of None \<Rightarrow> byte_ids | Some b \<Rightarrow> byte_ids[unat b := Some ?i]) else byte_ids"
  have n: "n < length all_tokens" "all_tokens ! n = t" "ts = drop (Suc n) all_tokens" "all_types ! n = y" "ys = drop (Suc n) all_types"
    using "1.prems"(2-7) by (metis drop_eq_Nil leI list.distinct(1) Cons_nth_drop_Suc list.inject)+
  from "1.prems"(1) have small: "int n < 2 ^ 32" and finite: "f32_is_finite s"
    and ty: "sint TOKEN_TYPE_NORMAL \<le> sint y \<and> sint y \<le> sint TOKEN_TYPE_BYTE"
    and rest: "spm_tables (Suc n) ts ss ys (bt_insert t ?i ids) ?byte_ids = Inr (ids', byte_ids')"
    by (auto simp: len_u32_def split: if_splits)
  have i: "unat ?i = n" using small by (rule unat_len)
  have "unat b < 256" for b :: u8 using unsigned_less [of b, where ?'a = nat] by simp
  then have "byte_ids_ok all_tokens all_types ?byte_ids"
    using "1.prems"(8) n i by (auto simp: byte_ids_ok_def nth_list_update word_unat_eq_iff split: option.splits if_splits)
  with "1.IH" [of ?i] rest small finite ty n "1.prems"(2,3,7) show ?case by (simp add: len_u32_def)
qed simp_all

lemma llama_spm_new_ok:
  assumes "llama_spm_new tokens scores tys config = Inr tk"
  shows "spm_ok tk" "lt_tokens tk = tokens"
proof -
  from assms obtain tables where ok: "validate_vocabulary tokens = Inr ()"
      "validate_specials tokens (sc_bos_token config) (sc_eos_token config) (sc_unknown_token config) = Inr ()"
      "length scores = length tokens" "length tys = length tokens"
      "spm_tables 0 tokens scores tys [] (replicate 256 None) = Inr tables"
    and tk: "tk = \<lparr>lt_tokens = tokens, lt_score_bits = scores, lt_token_types = tys,
        lt_bos_token = sc_bos_token config, lt_eos_token = sc_eos_token config,
        lt_unknown_token = sc_unknown_token config, lt_add_space_prefix = sc_add_space_prefix config,
        lt_add_bos_token = sc_add_bos_token config, lt_add_eos_token = sc_add_eos_token config,
        lt_token_to_id = fst tables, lt_byte_tokens = snd tables\<rparr>"
    by (auto simp: llama_spm_new_def split: if_splits)
  show "lt_tokens tk = tokens" by (simp add: tk)
  have tables: "spm_tables 0 tokens scores tys [] (replicate 256 None) = Inr (fst tables, snd tables)"
    using ok(5) by simp
  have "indexes (fst tables) tokens"
    using index_tokens_indexes [OF spm_tables_index [OF tables ok(3,4)]] validate_vocabulary_Inr [OF ok(1)]
    by (simp add: vocabulary_ok_def)
  moreover have "unat b < 256" for b :: u8 using unsigned_less [of b, where ?'a = nat] by simp
  then have "byte_ids_ok tokens tys (replicate 256 None)" by (simp add: byte_ids_ok_def)
  then have "byte_ids_ok tokens tys (snd tables)"
    using spm_tables_bytes [OF tables ok(3,4), of tokens tys] ok(4) by simp
  moreover have "unat i < length tokens" if "spm_special tk i" for i
    using that validate_specials_Inr [OF ok(2), of i] by (auto simp: spm_special_def tk)
  ultimately show "spm_ok tk" using ok(3,4) by (simp add: spm_ok_def tk)
qed

section \<open>Pieces\<close>

definition token_of_type :: "llama_spm_tokenizer \<Rightarrow> (i32 \<Rightarrow> bool) \<Rightarrow> u8 list \<Rightarrow> u32 \<Rightarrow> bool" where
  "token_of_type tk p piece i \<longleftrightarrow> bt_get (lt_token_to_id tk) piece = Some i \<and> p (lt_type tk i)"

definition mergeable :: "llama_spm_tokenizer \<Rightarrow> u8 list \<Rightarrow> bool" where
  "mergeable tk piece \<longleftrightarrow> (\<exists>i. token_of_type tk is_merge_token_type piece i)"

definition spm_piece :: "llama_spm_tokenizer \<Rightarrow> u8 list \<Rightarrow> bool" where
  "spm_piece tk piece \<longleftrightarrow> piece \<noteq> [] \<and> utf8_valid piece \<and> (is_char piece \<or> mergeable tk piece)"

text \<open>The numbers of a piece: its own, or those of its bytes.\<close>

definition piece_ids :: "llama_spm_tokenizer \<Rightarrow> u8 list \<Rightarrow> u32 list" where
  "piece_ids tk piece =
    (case bt_get (lt_token_to_id tk) piece of
      Some i \<Rightarrow> if is_output_token_type (lt_type tk i) then [i] else map (\<lambda>b. the (lt_byte_tokens tk ! unat b)) piece
    | None \<Rightarrow> map (\<lambda>b. the (lt_byte_tokens tk ! unat b)) piece)"

lemma spm_ok_get:
  assumes "spm_ok tk" "bt_get (lt_token_to_id tk) piece = Some i"
  shows "unat i < length (lt_tokens tk)" "lt_tokens tk ! unat i = piece" "unat i < length (lt_token_types tk)" "unat i < length (lt_score_bits tk)"
  using assms indexes_get [of "lt_token_to_id tk" "lt_tokens tk" piece i] by (simp_all add: spm_ok_def)

text \<open>The state of the merging, apart from the symbols: the queue refers to symbols by their index, and
  the starts of the symbols never change.\<close>

definition bigram_ok :: "llama_spm_tokenizer \<Rightarrow> u8 list \<Rightarrow> nat list \<Rightarrow> spm_bigram \<Rightarrow> bool" where
  "bigram_ok tk norm starts b \<longleftrightarrow> bg_left b < length starts \<and> bg_right b < length starts
    \<and> mergeable tk (take (bg_size b) (drop (starts ! bg_left b) norm))"

definition ms_ok :: "llama_spm_tokenizer \<Rightarrow> u8 list \<Rightarrow> nat list \<Rightarrow> merge_state \<Rightarrow> bool" where
  "ms_ok tk norm starts ms \<longleftrightarrow> (\<forall>b \<in> set (fst ms). bigram_ok tk norm starts b)
    \<and> bt_wf (snd ms) \<and> (\<forall>p. bt_contains (snd ms) p \<longrightarrow> mergeable tk p)"

text \<open>What the merging relies on: \<open>pop\<close> takes an element out that none is greater than.\<close>

locale priority_queue =
  fixes pop :: "'q \<Rightarrow> ('a \<times> 'q) option"
    and items :: "'q \<Rightarrow> 'a multiset"
    and less :: "'a \<Rightarrow> 'a \<Rightarrow> bool"
  assumes pop_None: "pop q = None \<longleftrightarrow> items q = {#}"
    and pop_items: "pop q = Some (b, rest) \<Longrightarrow> items q = add_mset b (items rest)"
    and pop_greatest: "pop q = Some (b, rest) \<Longrightarrow> c \<in># items q \<Longrightarrow> \<not> less b c"
begin

lemma pop_member: "pop q = Some (b, rest) \<Longrightarrow> c \<in># items q \<longleftrightarrow> c = b \<or> c \<in># items rest"
  by (simp add: pop_items)

lemma pop_smaller: "pop q = Some (b, rest) \<Longrightarrow> size (items q) = Suc (size (items rest))"
  by (simp add: pop_items)

end

text \<open>The comparison of bigrams is the one of a key.\<close>

definition bigram_key :: "spm_bigram \<Rightarrow> int \<times> int \<times> int" where
  "bigram_key b = (f32_total_key (bg_score b), - int (bg_left b), - int (bg_right b))"

lemma bigram_cmp_key: "bigram_cmp a b = cmp (bigram_key a) (bigram_key b)"
  by (auto simp: bigram_cmp_def bigram_key_def cmp_def then_with_def)

interpretation spm_queue: priority_queue heap_pop mset "\<lambda>a b. bigram_cmp a b = Less"
proof
  show none: "heap_pop q = None \<longleftrightarrow> mset q = {#}" for q
    by (cases q) (auto split: option.splits if_splits)
  show items: "heap_pop q = Some (b, rest) \<Longrightarrow> mset q = add_mset b (mset rest)" for q b rest
  proof (induction q arbitrary: b rest)
    case (Cons a q)
    then show ?case using none [of q] by (auto split: option.splits if_splits prod.splits)
  qed simp
  show "heap_pop q = Some (b, rest) \<Longrightarrow> c \<in># mset q \<Longrightarrow> bigram_cmp b c \<noteq> Less" for q b rest c
  proof (induction q arbitrary: b rest c)
    case (Cons a q)
    show ?case
    proof (cases "heap_pop q")
      case None
      with Cons.prems none [of q] show ?thesis by (simp add: bigram_cmp_key cmp_simps)
    next
      case (Some popped)
      obtain d r where d: "heap_pop q = Some (d, r)" using Some by (cases popped) simp
      have "\<not> bigram_key d < bigram_key e" if "e \<in> set q" for e
        using Cons.IH [OF d] that by (simp add: bigram_cmp_key cmp_simps)
      moreover have "d \<in> set q" using items [OF d] by (metis set_mset_mset union_single_eq_member)
      ultimately show ?thesis
        using Cons.prems d by (fastforce simp: bigram_cmp_key cmp_simps split: if_splits)
    qed
  qed simp
qed

lemma heap_pop_set:
  assumes "heap_pop q = Some (b, rest)"
  shows "set q = insert b (set rest)" "length q = Suc (length rest)"
  using spm_queue.pop_member [OF assms] spm_queue.pop_smaller [OF assms] by auto

definition live_bound :: "spm_symbol list \<Rightarrow> nat \<Rightarrow> bool" where
  "live_bound symbols n \<longleftrightarrow> (\<forall>s \<in> set symbols. sy_len s = 0 \<or> sy_start s + sy_len s \<le> n)"

lemma try_add_bigram_ok:
  assumes "spm_ok tk" "int (length norm) < usize_bound" "live_bound symbols (length norm)"
    "left < length symbols" "right < length symbols" "ms_ok tk norm (map sy_start symbols) ms"
  shows "yields (\<lambda>_. False) (\<lambda>ms'. ms_ok tk norm (map sy_start symbols) ms' \<and> length (fst ms') \<le> Suc (length (fst ms)))
    (try_add_bigram tk norm symbols left right ms)"
proof -
  let ?l = "symbols ! left" and ?r = "symbols ! right"
  let ?stop = "sy_start ?l + sy_len ?l + sy_len ?r"
  let ?text = "take (?stop - sy_start ?l) (drop (sy_start ?l) norm)"
  have bound: "sy_len ?l \<noteq> 0 \<Longrightarrow> sy_start ?l + sy_len ?l \<le> length norm" "sy_len ?r \<noteq> 0 \<Longrightarrow> sy_start ?r + sy_len ?r \<le> length norm"
    using assms(3-5) by (metis live_bound_def nth_mem)+
  show ?thesis
  proof (cases "sy_len ?l = 0 \<or> sy_len ?r = 0 \<or> sy_start ?l + sy_len ?l \<noteq> sy_start ?r")
    case True
    consider "sy_len ?l = 0" | "sy_len ?l \<noteq> 0" "sy_len ?r = 0"
      | "sy_len ?l \<noteq> 0" "sy_len ?r \<noteq> 0" "sy_start ?l + sy_len ?l \<noteq> sy_start ?r" using True by metis
    then show ?thesis
      by cases (use assms(2,4,5,6) bound(1) in \<open>simp_all add: try_add_bigram_def yields_bind usize_add_def\<close>)
  next
    case False
    then have live: "sy_len ?l \<noteq> 0" "sy_len ?r \<noteq> 0" and adj: "sy_start ?r = sy_start ?l + sy_len ?l" by auto
    with bound have stop: "?stop \<le> length norm" by simp
    have len: "length ?text = sy_len ?l + sy_len ?r" using stop by simp
    have step: "ms_ok tk norm (map sy_start symbols)
        (\<lparr>bg_left = left, bg_right = right, bg_score = score, bg_size = length ?text\<rparr> # fst ms, bt_insert ?text parts (snd ms))"
      if "token_of_type tk is_merge_token_type ?text i" for i score parts
    proof -
      have m: "mergeable tk ?text" using that by (auto simp: mergeable_def)
      then have "bigram_ok tk norm (map sy_start symbols) \<lparr>bg_left = left, bg_right = right, bg_score = score, bg_size = length ?text\<rparr>"
        using assms(4,5) stop by (simp add: bigram_ok_def)
      with m assms(6) show ?thesis
        by (auto simp: ms_ok_def bt_contains_def bt_get_insert split: if_splits)
    qed
    show ?thesis
    proof (cases "bt_get (lt_token_to_id tk) ?text")
      case None
      with False assms(2,4,5,6) stop adj show ?thesis
        by (simp add: try_add_bigram_def yields_bind usize_add_def slice_get_def)
    next
      case (Some i)
      note i = spm_ok_get [OF assms(1) Some]
      show ?thesis
        using False assms(2,4,5,6) stop adj Some i step [of i]
        by (simp add: try_add_bigram_def yields_bind usize_add_def slice_get_def token_of_type_def)
    qed
  qed
qed

section \<open>Chains of symbols\<close>

text \<open>The symbols of the indices \<open>is\<close> are linked in this order, adjacent and not empty; \<open>before\<close> and \<open>after\<close> are
  the neighbours of the chain.\<close>

definition first_of :: "nat list \<Rightarrow> nat option \<Rightarrow> nat option" where
  "first_of is after = (case is of [] \<Rightarrow> after | i # _ \<Rightarrow> Some i)"

definition last_of :: "nat option \<Rightarrow> nat list \<Rightarrow> nat option" where
  "last_of before is = (if is = [] then before else Some (last is))"

fun chain :: "spm_symbol list \<Rightarrow> nat option \<Rightarrow> nat \<Rightarrow> nat list \<Rightarrow> nat option \<Rightarrow> nat \<Rightarrow> bool" where
  "chain symbols before start [] after stop \<longleftrightarrow> start = stop"
| "chain symbols before start (i # is) after stop \<longleftrightarrow> i < length symbols \<and> sy_start (symbols ! i) = start
    \<and> 0 < sy_len (symbols ! i) \<and> sy_prev (symbols ! i) = before \<and> sy_next (symbols ! i) = first_of is after
    \<and> chain symbols (Some i) (start + sy_len (symbols ! i)) is after stop"

lemma first_of_simps [simp]: "first_of [] after = after" "first_of (i # is) after = Some i"
  "first_of (as @ bs) after = first_of as (first_of bs after)"
  by (simp_all add: first_of_def split: list.split)

lemma last_of_simps [simp]: "last_of before [] = before" "last_of before (i # is) = last_of (Some i) is"
  by (simp_all add: last_of_def)

lemma chain_append: "chain symbols before start (as @ bs) after stop
    \<longleftrightarrow> (\<exists>mid. chain symbols before start as (first_of bs after) mid \<and> chain symbols (last_of before as) mid bs after stop)"
  by (induction as arbitrary: before start) auto

lemma chain_cong:
  "\<forall>i \<in> set is. symbols' ! i = symbols ! i \<Longrightarrow> length symbols' = length symbols
    \<Longrightarrow> chain symbols' before start is after stop = chain symbols before start is after stop"
  by (induction "is" arbitrary: before start) auto

lemma chain_live: "chain symbols before start is after stop \<Longrightarrow> i \<in> set is
    \<Longrightarrow> i < length symbols \<and> 0 < sy_len (symbols ! i) \<and> start \<le> sy_start (symbols ! i) \<and> sy_start (symbols ! i) + sy_len (symbols ! i) \<le> stop"
proof (induction "is" arbitrary: before start)
  case (Cons j js)
  have le: "chain symbols b st ks after stop \<Longrightarrow> st \<le> stop" for b st ks
    by (induction ks arbitrary: b st) (auto dest: add_leD1)
  from Cons.prems le [of "Some j" "start + sy_len (symbols ! j)" js] Cons.IH [of "Some j" "start + sy_len (symbols ! j)"]
  show ?case by auto
qed simp

lemma chain_set_prev:
  assumes "chain symbols before start (i # is) after stop" "i \<notin> set is"
  shows "chain (symbols[i := (symbols ! i)\<lparr>sy_prev := q\<rparr>]) q start (i # is) after stop"
proof -
  have "\<forall>j \<in> set is. symbols[i := (symbols ! i)\<lparr>sy_prev := q\<rparr>] ! j = symbols ! j" using assms(2) by (metis nth_list_update_neq)
  from chain_cong [OF this, of "Some i" _ after stop] assms(1) show ?thesis by simp
qed

lemma chain_set_next:
  assumes "chain symbols before start (as @ [i]) after stop" "i \<notin> set as"
  shows "chain (symbols[i := (symbols ! i)\<lparr>sy_next := after'\<rparr>]) before start (as @ [i]) after' stop"
proof -
  have "\<forall>j \<in> set as. symbols[i := (symbols ! i)\<lparr>sy_next := after'\<rparr>] ! j = symbols ! j" using assms(2) by (metis nth_list_update_neq)
  from chain_cong [OF this, of before start "Some i"] assms(1) show ?thesis by (auto simp: chain_append)
qed

definition seg :: "u8 list \<Rightarrow> spm_symbol \<Rightarrow> u8 list" where
  "seg norm s = take (sy_len s) (drop (sy_start s) norm)"

lemma chain_segs:
  "chain symbols before start is after stop \<Longrightarrow> stop \<le> length norm
    \<Longrightarrow> concat (map (\<lambda>i. seg norm (symbols ! i)) is) = take (stop - start) (drop start norm)"
proof (induction "is" arbitrary: before start)
  case (Cons i "is")
  let ?len = "sy_len (symbols ! i)"
  have "start + ?len \<le> stop" using chain_live [OF Cons.prems(1), of i] Cons.prems(1) by simp
  then obtain k where "stop = start + (?len + k)" by (metis add.assoc le_Suc_ex)
  then have "take (stop - start) (drop start norm) = take ?len (drop start norm) @ take (stop - (start + ?len)) (drop (start + ?len) norm)"
    by (simp add: take_add add.commute [of start])
  with Cons.IH [of "Some i" "start + ?len"] Cons.prems show ?case by (simp add: seg_def)
qed simp

text \<open>The invariant of the merging: the symbols that are left form a chain over the whole text.\<close>

definition linked :: "llama_spm_tokenizer \<Rightarrow> u8 list \<Rightarrow> spm_symbol list \<Rightarrow> nat list \<Rightarrow> bool" where
  "linked tk norm symbols is \<longleftrightarrow> chain symbols None 0 is None (length norm) \<and> distinct is
    \<and> (\<forall>i < length symbols. i \<notin> set is \<longrightarrow> sy_len (symbols ! i) = 0) \<and> first_of is (Some 0) = Some 0
    \<and> (\<forall>i \<in> set is. spm_piece tk (seg norm (symbols ! i)))"

lemma linked_live: "linked tk norm symbols is \<Longrightarrow> i < length symbols \<Longrightarrow> sy_len (symbols ! i) \<noteq> 0 \<longleftrightarrow> i \<in> set is"
  unfolding linked_def using chain_live by fastforce

lemma linked_bound: "linked tk norm symbols is \<Longrightarrow> live_bound symbols (length norm)"
  unfolding live_bound_def linked_def by (metis chain_live in_set_conv_nth)

text \<open>The symbols after a merge of \<open>l\<close> with its right neighbour \<open>r\<close>.\<close>

definition joined :: "spm_symbol list \<Rightarrow> nat \<Rightarrow> nat \<Rightarrow> nat \<Rightarrow> spm_symbol list" where
  "joined symbols l r sz =
    (let symbols1 = symbols[l := (symbols ! l)\<lparr>sy_len := sz, sy_next := sy_next (symbols ! r)\<rparr>, r := (symbols ! r)\<lparr>sy_len := 0\<rparr>]
     in case sy_next (symbols ! r) of None \<Rightarrow> symbols1 | Some n \<Rightarrow> symbols1[n := (symbols1 ! n)\<lparr>sy_prev := Some l\<rparr>])"

lemma merge_symbols_joined:
  assumes "bg_left b < length symbols" "bg_right b < length symbols" "bg_left b \<noteq> bg_right b"
    "\<And>n. sy_next (symbols ! bg_right b) = Some n \<Longrightarrow> n < length symbols"
  shows "merge_symbols symbols b = pret (joined symbols (bg_left b) (bg_right b) (bg_size b))"
  using assms by (auto simp: merge_symbols_def modify_symbol_def vec_get_def vec_set_def joined_def Let_def split: option.split)

lemma length_joined [simp]: "length (joined symbols l r sz) = length symbols"
  by (simp add: joined_def Let_def split: option.split)

lemma joined_nth:
  assumes "l < length symbols" "r < length symbols" "l \<noteq> r" "i < length symbols"
  shows "sy_start (joined symbols l r sz ! i) = sy_start (symbols ! i)"
    "sy_len (joined symbols l r sz ! i) = (if i = l then sz else if i = r then 0 else sy_len (symbols ! i))"
  using assms by (cases "sy_next (symbols ! r) = Some i"; auto simp: joined_def Let_def nth_list_update split: option.split)+

lemma starts_joined: "l < length symbols \<Longrightarrow> r < length symbols \<Longrightarrow> l \<noteq> r
    \<Longrightarrow> map sy_start (joined symbols l r sz) = map sy_start symbols"
  by (rule nth_equalityI) (simp_all add: joined_nth)

lemma joined_other:
  "l < length symbols \<Longrightarrow> r < length symbols \<Longrightarrow> i \<notin> {l, r} \<Longrightarrow> sy_next (symbols ! r) \<noteq> Some i \<Longrightarrow> joined symbols l r sz ! i = symbols ! i"
  by (auto simp: joined_def Let_def split: option.split)

lemma joined_seg:
  "l < length symbols \<Longrightarrow> r < length symbols \<Longrightarrow> l \<noteq> r \<Longrightarrow> i < length symbols \<Longrightarrow> i \<notin> {l, r}
    \<Longrightarrow> seg norm (joined symbols l r sz ! i) = seg norm (symbols ! i)"
  by (simp add: seg_def joined_nth)

lemma chain_joined:
  assumes chain: "chain symbols None 0 (as @ l # r # bs) None stop" and distinct: "distinct (as @ l # r # bs)"
    and sz: "sz = sy_len (symbols ! l) + sy_len (symbols ! r)"
  shows "chain (joined symbols l r sz) None 0 (as @ l # bs) None stop"
    and "sy_len (joined symbols l r sz ! r) = 0"
proof -
  let ?j = "joined symbols l r sz"
  obtain mid where as: "chain symbols None 0 as (Some l) mid" and l: "l < length symbols" "sy_start (symbols ! l) = mid"
      "sy_prev (symbols ! l) = last_of None as"
    and r: "r < length symbols" "0 < sy_len (symbols ! r)" "sy_next (symbols ! r) = first_of bs None"
    and bs: "chain symbols (Some r) (mid + sz) bs None stop"
    using chain unfolding sz by (auto simp: chain_append add.assoc)
  have lr: "l \<noteq> r" using distinct by auto
  have bs_first: "n = hd bs \<and> bs \<noteq> []" if "sy_next (symbols ! r) = Some n" for n
    using that r(3) by (cases bs) auto
  have other: "?j ! i = symbols ! i" if "i \<in> set as" for i
    using that distinct bs_first by (intro joined_other [OF l(1) r(1)]) (auto dest: hd_in_set)
  have as': "chain ?j None 0 as (Some l) mid"
    using as chain_cong [of as ?j symbols] other by simp
  have jl: "?j ! l = (symbols ! l)\<lparr>sy_len := sz, sy_next := first_of bs None\<rparr>"
    using l(1) r(1,3) lr distinct bs_first by (cases bs) (auto simp: joined_def Let_def)
  have bs': "chain ?j (Some l) (mid + sz) bs None stop"
  proof (cases bs)
    case Nil
    with bs show ?thesis by simp
  next
    case (Cons n ns)
    let ?s = "symbols[l := (symbols ! l)\<lparr>sy_len := sz, sy_next := Some n\<rparr>, r := (symbols ! r)\<lparr>sy_len := 0\<rparr>]"
    have j: "?j = ?s[n := (?s ! n)\<lparr>sy_prev := Some l\<rparr>]"
      using r(3) Cons by (simp add: joined_def Let_def)
    have "?s ! i = symbols ! i" if "i \<in> set bs" for i
      using that distinct by (metis distinct.simps(2) distinct_append list.set_intros(2) nth_list_update_neq)
    then have "\<forall>i \<in> set bs. ?s ! i = symbols ! i" by blast
    from bs chain_cong [OF this] have "chain ?s (Some r) (mid + sz) bs None stop" by simp
    with distinct show ?thesis unfolding j Cons by (intro chain_set_prev) auto
  qed
  have "0 < sz" using r(2) sz by simp
  with as' jl bs' l show "chain ?j None 0 (as @ l # bs) None stop"
    by (auto simp: chain_append)
  show "sy_len (?j ! r) = 0"
    using joined_nth(2) [OF l(1) r(1) lr r(1)] lr by simp
qed

section \<open>Merging terminates and keeps the chain\<close>

definition merge_inv :: "llama_spm_tokenizer \<Rightarrow> u8 list \<Rightarrow> nat \<Rightarrow> spm_symbol list \<times> merge_state \<Rightarrow> bool" where
  "merge_inv tk norm fuel state \<longleftrightarrow> (\<exists>is. linked tk norm (fst state) is \<and> ms_ok tk norm (map sy_start (fst state)) (snd state)
    \<and> 3 * length is + length (fst (snd state)) \<le> fuel)"

lemma linked_neighbours:
  assumes "linked tk norm symbols (as @ l # bs)"
  shows "sy_prev (symbols ! l) = last_of None as" "sy_next (symbols ! l) = first_of bs None" "l < length symbols"
    "\<And>i. i \<in> set as \<union> set bs \<Longrightarrow> i < length symbols"
proof -
  from assms have chain: "chain symbols None 0 (as @ l # bs) None (length norm)" by (simp add: linked_def)
  then show "sy_prev (symbols ! l) = last_of None as" "sy_next (symbols ! l) = first_of bs None" "l < length symbols"
    by (auto simp: chain_append)
  show "i < length symbols" if "i \<in> set as \<union> set bs" for i
    using chain_live [OF chain, of i] that by auto
qed

lemma linked_joined:
  assumes linked: "linked tk norm symbols (as @ l # r # bs)"
    and sz: "sz = sy_len (symbols ! l) + sy_len (symbols ! r)"
    and merge: "mergeable tk (take sz (drop (sy_start (symbols ! l)) norm))"
  shows "linked tk norm (joined symbols l r sz) (as @ l # bs)"
proof -
  let ?j = "joined symbols l r sz"
  from linked have chain: "chain symbols None 0 (as @ l # r # bs) None (length norm)"
    and distinct: "distinct (as @ l # r # bs)"
    and pieces: "\<forall>i \<in> set (as @ l # r # bs). spm_piece tk (seg norm (symbols ! i))"
    and dead: "\<forall>i < length symbols. i \<notin> set (as @ l # r # bs) \<longrightarrow> sy_len (symbols ! i) = 0"
    by (simp_all add: linked_def)
  have live: "l < length symbols" "r < length symbols" "l \<noteq> r"
    using chain_live [OF chain] distinct by auto
  have adj: "sy_start (symbols ! r) = sy_start (symbols ! l) + sy_len (symbols ! l)"
    using chain by (auto simp: chain_append)
  have "seg norm (?j ! l) = take sz (drop (sy_start (symbols ! l)) norm)"
    by (simp add: seg_def joined_nth [OF live live(1)])
  also have "\<dots> = seg norm (symbols ! l) @ seg norm (symbols ! r)"
    unfolding seg_def sz adj by (simp add: take_add add.commute)
  finally have "spm_piece tk (seg norm (?j ! l))"
    using merge pieces \<open>seg norm (?j ! l) = _\<close> by (auto simp: spm_piece_def utf8_valid_append)
  moreover have "seg norm (?j ! i) = seg norm (symbols ! i)" if "i \<in> set as \<union> set bs" for i
    using that distinct chain_live [OF chain, of i] by (intro joined_seg [OF live]) auto
  ultimately have "\<forall>i \<in> set (as @ l # bs). spm_piece tk (seg norm (?j ! i))"
    using pieces by auto
  moreover have "\<forall>i < length ?j. i \<notin> set (as @ l # bs) \<longrightarrow> sy_len (?j ! i) = 0"
    using dead by (auto simp: joined_nth(2) [OF live])
  moreover have "chain ?j None 0 (as @ l # bs) None (length norm)"
    by (rule chain_joined(1) [OF chain distinct sz])
  ultimately show ?thesis using linked distinct by (simp add: linked_def)
qed

lemma merge_step_ok:
  assumes tk: "spm_ok tk" "2 * int (length norm) < usize_bound"
    and linked: "linked tk norm symbols is" and ms: "ms_ok tk norm (map sy_start symbols) ms"
    and b: "bigram_ok tk norm (map sy_start symbols) b"
  shows "yields (\<lambda>_. False) (merge_inv tk norm (3 * length is + length (fst ms))) (merge_step tk norm b (symbols, ms))"
proof -
  let ?l = "symbols ! bg_left b" and ?r = "symbols ! bg_right b"
  have stay: "merge_inv tk norm (3 * length is + length (fst ms)) (symbols, ms)"
    using linked ms by (auto simp: merge_inv_def)
  have lr: "bg_left b < length symbols" "bg_right b < length symbols" using b by (simp_all add: bigram_ok_def)
  have "sy_len ?l \<le> length norm" "sy_len ?r \<le> length norm"
    using linked_bound [OF linked] lr unfolding live_bound_def by (metis add_leD2 le0 nth_mem)+
  with tk(2) have add: "int (sy_len ?l) + int (sy_len ?r) < usize_bound" by simp
  show ?thesis
  proof (cases "sy_len ?l \<noteq> 0 \<and> sy_len ?r \<noteq> 0 \<and> sy_len ?l + sy_len ?r = bg_size b \<and> sy_next ?l = Some (bg_right b)")
    case False
    with stay lr add show ?thesis
      by (cases "sy_len ?l = 0"; cases "sy_len ?r = 0"; cases "sy_len ?l + sy_len ?r = bg_size b")
        (simp_all add: merge_step_def yields_bind usize_add_def)
  next
    case True
    then obtain as rest where "is = as @ bg_left b # rest"
      using linked_live [OF linked lr(1)] by (metis split_list)
    moreover from this have "first_of rest None = Some (bg_right b)"
      using linked_neighbours(2) [of tk norm symbols as "bg_left b" rest] linked True by simp
    ultimately obtain bs where "is": "is = as @ bg_left b # bg_right b # bs"
      by (cases rest) auto
    let ?j = "joined symbols (bg_left b) (bg_right b) (bg_size b)" and ?is = "as @ bg_left b # bs"
    have ne: "bg_left b \<noteq> bg_right b" using linked by (auto simp: "is" linked_def)
    have j: "linked tk norm ?j ?is"
      using linked_joined [of tk norm symbols as "bg_left b" "bg_right b" bs "bg_size b"] linked True b lr(1)
      by (simp add: "is" bigram_ok_def nth_map)
    have starts: "map sy_start ?j = map sy_start symbols" by (rule starts_joined [OF lr ne])
    have r_next: "n < length symbols" if "sy_next ?r = Some n" for n
      using linked_neighbours [of tk norm symbols "as @ [bg_left b]" "bg_right b" bs] linked that
      by (cases bs) (auto simp: "is")
    note nb = linked_neighbours [OF j]
    have added: "yields (\<lambda>_. False) (\<lambda>ms''. ms_ok tk norm (map sy_start ?j) ms'' \<and> length (fst ms'') \<le> Suc (length (fst ms')))
        (try_add_bigram tk norm ?j left right ms')"
      if "left < length symbols" "right < length symbols" "ms_ok tk norm (map sy_start ?j) ms'" for left right ms'
      by (rule try_add_bigram_ok) (use that tk linked_bound [OF j] in auto)
    have prev: "yields (\<lambda>_. False) (\<lambda>ms'. ms_ok tk norm (map sy_start ?j) ms' \<and> length (fst ms') \<le> length (fst ms) + 1)
        (case sy_prev (?j ! bg_left b) of Some p \<Rightarrow> try_add_bigram tk norm ?j p (bg_left b) ms | None \<Rightarrow> pret ms)"
      using nb(1,4) ms starts added [of _ "bg_left b" ms] lr(1)
      by (cases "as = []") (auto simp: last_of_def)
    have "next": "yields (\<lambda>_. False) (\<lambda>ms''. ms_ok tk norm (map sy_start ?j) ms'' \<and> length (fst ms'') \<le> length (fst ms') + 1)
        (case sy_next (?j ! bg_left b) of Some n \<Rightarrow> try_add_bigram tk norm ?j (bg_left b) n ms' | None \<Rightarrow> pret ms')"
      if "ms_ok tk norm (map sy_start ?j) ms'" for ms'
      using nb(2,4) that added [of "bg_left b" _ ms'] lr(1) by (cases bs) auto
    have fin: "merge_inv tk norm (3 * length is + length (fst ms)) (?j, ms'')"
      if "ms_ok tk norm (map sy_start ?j) ms''" "length (fst ms'') \<le> length (fst ms) + 2" for ms''
      using j that by (auto simp: merge_inv_def "is" intro!: exI [of _ ?is])
    have "merge_step tk norm b (symbols, ms) = pbind
        (case sy_prev (?j ! bg_left b) of Some p \<Rightarrow> try_add_bigram tk norm ?j p (bg_left b) ms | None \<Rightarrow> pret ms) (\<lambda>ms.
        pbind (case sy_next (?j ! bg_left b) of Some n \<Rightarrow> try_add_bigram tk norm ?j (bg_left b) n ms | None \<Rightarrow> pret ms) (\<lambda>ms.
        pret (?j, ms)))"
      using True lr add by (simp add: merge_step_def vec_get_def usize_add_def merge_symbols_joined [OF lr ne r_next])
    then show ?thesis
      by (simp only:) (rule yields_pbind [OF prev], rule yields_pbind [OF "next"], use fin in auto)
  qed
qed

lemma merge_loop_ok:
  assumes "spm_ok tk" "2 * int (length norm) < usize_bound"
  shows "merge_inv tk norm fuel state \<Longrightarrow> yields (\<lambda>_. False) (merge_inv tk norm fuel) (merge_loop tk norm state)"
proof (induction fuel arbitrary: state rule: less_induct)
  case (less fuel)
  then obtain "is" where inv: "linked tk norm (fst state) is" "ms_ok tk norm (map sy_start (fst state)) (snd state)"
    "3 * length is + length (fst (snd state)) \<le> fuel" by (auto simp: merge_inv_def)
  show ?case
  proof (cases "heap_pop (fst (snd state))")
    case None
    with less.prems show ?thesis by (simp add: merge_loop.simps)
  next
    case (Some popped)
    obtain b rest where popped: "heap_pop (fst (snd state)) = Some (b, rest)" using Some by (cases popped) simp
    note queue = heap_pop_set [OF popped]
    let ?ms = "(rest, snd (snd state))"
    let ?fuel = "3 * length is + length rest"
    have "yields (\<lambda>_. False) (merge_inv tk norm ?fuel) (merge_step tk norm b (fst state, ?ms))"
      using merge_step_ok [OF assms inv(1), of ?ms b] inv(2) queue(1) by (simp add: ms_ok_def)
    then have "yields (\<lambda>_. False) (merge_inv tk norm fuel)
        (pbind (merge_step tk norm b (fst state, ?ms)) (merge_loop tk norm))"
    proof (rule yields_pbind)
      fix state' assume "merge_inv tk norm ?fuel state'"
      moreover have small: "?fuel < fuel" using inv(3) queue(2) by simp
      ultimately have "yields (\<lambda>_. False) (merge_inv tk norm ?fuel) (merge_loop tk norm state')" by (intro less.IH)
      then show "yields (\<lambda>_. False) (merge_inv tk norm fuel) (merge_loop tk norm state')"
        by (rule yields_mono) (use small in \<open>auto simp: merge_inv_def intro: order_trans less_imp_le\<close>)
    qed
    with popped show ?thesis by (subst merge_loop.simps) simp
  qed
qed

section \<open>The symbols of a text\<close>

definition split_inv :: "u8 list \<Rightarrow> nat \<Rightarrow> spm_symbol list \<Rightarrow> bool" where
  "split_inv norm pos symbols \<longleftrightarrow> chain symbols None 0 [0..<length symbols] None pos
    \<and> (\<forall>s \<in> set symbols. is_char (seg norm s)) \<and> utf8_valid (drop pos norm) \<and> pos \<le> length norm"

lemma chain_extend: "chain symbols before start is after stop \<Longrightarrow> chain (symbols @ ys) before start is after stop"
  by (induction "is" arbitrary: before start) (auto simp: nth_append)

definition push_symbol :: "nat \<Rightarrow> nat \<Rightarrow> spm_symbol list \<Rightarrow> spm_symbol list" where
  "push_symbol pos len symbols =
    (let k = length symbols; ys = symbols @ [\<lparr>sy_start = pos, sy_len = len,
        sy_prev = (if 1 \<le> k then Some (k - 1) else None), sy_next = None\<rparr>]
     in if 0 < k then ys[k - 1 := (ys ! (k - 1))\<lparr>sy_next := Some k\<rparr>] else ys)"

lemma push_symbol_chain:
  assumes chain: "chain symbols None 0 [0..<length symbols] None pos" and len: "0 < len"
  shows "chain (push_symbol pos len symbols) None 0 [0..<Suc (length symbols)] None (pos + len)"
proof (cases "length symbols")
  case 0
  with chain len show ?thesis by (simp add: push_symbol_def Let_def)
next
  case (Suc k)
  let ?s = "symbols @ [\<lparr>sy_start = pos, sy_len = len, sy_prev = Some k, sy_next = None\<rparr>]"
  have push: "push_symbol pos len symbols = ?s[k := (?s ! k)\<lparr>sy_next := Some (Suc k)\<rparr>]"
    by (simp add: push_symbol_def Let_def Suc)
  have "chain ?s None 0 ([0..<k] @ [k]) None pos" using chain_extend [OF chain] by (simp add: Suc)
  then have "chain (push_symbol pos len symbols) None 0 ([0..<k] @ [k]) (Some (Suc k)) pos"
    unfolding push by (intro chain_set_next) auto
  moreover have "push_symbol pos len symbols ! Suc k = \<lparr>sy_start = pos, sy_len = len, sy_prev = Some k, sy_next = None\<rparr>"
    by (simp add: push nth_append Suc)
  moreover have "length (push_symbol pos len symbols) = Suc (Suc k)" by (simp add: push Suc)
  ultimately have "chain (push_symbol pos len symbols) None 0 (([0..<k] @ [k]) @ [Suc k]) None (pos + len)"
    using len by (subst chain_append) (auto simp: last_of_def)
  then show ?thesis by (simp add: Suc)
qed

lemma set_push_symbol: "s \<in> set (push_symbol pos len symbols)
    \<Longrightarrow> (sy_start s = pos \<and> sy_len s = len) \<or> (\<exists>t \<in> set symbols. sy_start s = sy_start t \<and> sy_len s = sy_len t)"
  by (cases symbols rule: rev_cases) (auto simp: push_symbol_def Let_def nth_append)

lemma length_push_symbol [simp]: "length (push_symbol pos len symbols) = Suc (length symbols)"
  by (simp add: push_symbol_def Let_def)

lemma split_symbols_ok:
  "split_inv norm pos symbols \<Longrightarrow> split_inv norm (length norm) (split_symbols norm pos symbols)"
proof (induction "length norm - pos" arbitrary: pos symbols rule: less_induct)
  case less
  show ?case
  proof (cases "pos < length norm")
    case False
    with less.prems have "pos = length norm" by (simp add: split_inv_def)
    with less.prems False show ?thesis by (simp add: split_symbols.simps)
  next
    case True
    let ?h = "utf8_head (drop pos norm)"
    from less.prems have inv: "chain symbols None 0 [0..<length symbols] None pos" "\<forall>s \<in> set symbols. is_char (seg norm s)"
      "utf8_valid (drop pos norm)" by (simp_all add: split_inv_def)
    have head: "?h \<noteq> 0" "utf8_valid (drop ?h (drop pos norm))"
      using utf8_valid_head [OF inv(3)] True by auto
    have le: "?h \<le> length norm - pos" using utf8_head_le [of "drop pos norm"] by simp
    have "utf8_char_len (norm ! pos) = ?h"
      using utf8_char_len_head [of "norm ! pos" "drop (Suc pos) norm"] head(1) True by (simp add: Cons_nth_drop_Suc)
    then have split: "split_symbols norm pos symbols = split_symbols norm (pos + ?h) (push_symbol pos ?h symbols)"
      using True le by (subst split_symbols.simps) (simp add: push_symbol_def Let_def)
    have char: "is_char (take ?h (drop pos norm))"
      using head(1) le True utf8_head_take [of "drop pos norm"] by (auto simp: is_char_def)
    then have "is_char (seg norm s)" if "s \<in> set (push_symbol pos ?h symbols)" for s
      using set_push_symbol [OF that] inv(2) by (auto simp: seg_def)
    moreover have "chain (push_symbol pos ?h symbols) None 0 [0..<Suc (length symbols)] None (pos + ?h)"
      by (rule push_symbol_chain [OF inv(1)]) (use head(1) in simp)
    ultimately have "split_inv norm (pos + ?h) (push_symbol pos ?h symbols)"
      using head(2) le True by (simp add: split_inv_def add.commute)
    moreover have "length norm - (pos + ?h) < length norm - pos" using True head(1) by linarith
    ultimately show ?thesis unfolding split by (intro less.hyps)
  qed
qed

lemma split_utf8_symbols_linked:
  assumes "utf8_valid norm"
  shows "linked tk norm (split_utf8_symbols norm) [0..<length (split_utf8_symbols norm)]"
proof -
  have "split_inv norm (length norm) (split_utf8_symbols norm)"
    unfolding split_utf8_symbols_def by (rule split_symbols_ok) (simp add: split_inv_def assms)
  then have inv: "chain (split_utf8_symbols norm) None 0 [0..<length (split_utf8_symbols norm)] None (length norm)"
    "\<forall>s \<in> set (split_utf8_symbols norm). is_char (seg norm s)" by (simp_all add: split_inv_def)
  have "first_of [0..<n] (Some 0) = Some 0" for n by (cases n) (simp_all add: upt_conv_Cons del: upt_Suc)
  moreover have "spm_piece tk (seg norm s)" if "s \<in> set (split_utf8_symbols norm)" for s
    using inv(2) that by (simp add: spm_piece_def is_char_valid is_char_def)
  ultimately show ?thesis using inv(1) by (simp add: linked_def)
qed

section \<open>Encoding\<close>

text \<open>A token for every byte, and one that may be output for the escaped space.\<close>

definition spm_complete :: "llama_spm_tokenizer \<Rightarrow> bool" where
  "spm_complete tk \<longleftrightarrow> (\<forall>b :: u8. lt_byte_tokens tk ! unat b \<noteq> None) \<and> (\<exists>i. token_of_type tk is_output_token_type SPM_SPACE i)"

lemma merge_type_output: "is_merge_token_type ty \<Longrightarrow> is_output_token_type ty"
  by (auto simp: is_merge_token_type_def is_output_token_type_def)

lemma emit_bytes_complete:
  assumes "spm_ok tk" "spm_complete tk"
  shows "emit_bytes tk bs out = pret (out @ map (\<lambda>b. the (lt_byte_tokens tk ! unat b)) bs)"
proof (induction bs arbitrary: out)
  case (Cons b bs)
  have "unat b < length (lt_byte_tokens tk)"
    using assms(1) unsigned_less [of b, where ?'a = nat] by (simp add: spm_ok_def byte_ids_ok_def)
  moreover obtain i where "lt_byte_tokens tk ! unat b = Some i" using assms(2) by (auto simp: spm_complete_def)
  ultimately show ?case using Cons by (simp add: emit_bytes_def vec_get_def)
qed (simp add: emit_bytes_def)

lemma emit_piece_ids:
  assumes tk: "spm_ok tk" "spm_complete tk" and merges: "\<forall>p. bt_contains merges p \<longrightarrow> mergeable tk p" and piece: "spm_piece tk piece"
  shows "emit_piece tk merges piece out = pret (out @ piece_ids tk piece)"
proof (cases "\<exists>i. token_of_type tk is_output_token_type piece i")
  case True
  then obtain i where i: "bt_get (lt_token_to_id tk) piece = Some i" "is_output_token_type (lt_type tk i)"
    by (auto simp: token_of_type_def)
  then show ?thesis
    using spm_ok_get [OF tk(1) i(1)] by (subst emit_piece.simps) (simp add: output_token_def vec_get_def piece_ids_def)
next
  case False
  then have none: "output_token tk piece = pret None"
    using spm_ok_get(3) [OF tk(1), of piece]
    by (auto simp: output_token_def token_of_type_def vec_get_def split: option.split)
  have ids: "piece_ids tk piece = map (\<lambda>b. the (lt_byte_tokens tk ! unat b)) piece"
    using False by (auto simp: piece_ids_def token_of_type_def split: option.split)
  have "\<not> bt_contains merges piece"
    using False merges merge_type_output by (auto simp: mergeable_def token_of_type_def)
  then have "bt_get merges piece = None" by (cases "bt_get merges piece") (simp_all add: bt_contains_def)
  with none show ?thesis
    by (subst emit_piece.simps) (simp add: ids emit_bytes_complete [OF tk])
qed

lemma emit_chain_ids:
  assumes tk: "spm_ok tk" "spm_complete tk" "int (length norm) < usize_bound"
    and merges: "\<forall>p. bt_contains merges p \<longrightarrow> mergeable tk p"
  shows "chain symbols before start is None (length norm) \<Longrightarrow> \<forall>i \<in> set is. spm_piece tk (seg norm (symbols ! i))
    \<Longrightarrow> emit_chain tk norm merges symbols (first_of is None) out
      = pret (out @ concat (map (\<lambda>i. piece_ids tk (seg norm (symbols ! i))) is))"
proof (induction "is" arbitrary: before start out)
  case Nil
  then show ?case by (simp add: emit_chain.simps)
next
  case (Cons i "is")
  let ?s = "symbols ! i"
  have live: "i < length symbols" "0 < sy_len ?s" "sy_start ?s + sy_len ?s \<le> length norm"
    using chain_live [OF Cons.prems(1), of i] by simp_all
  have slice: "vec_slice norm (sy_start ?s) (sy_start ?s + sy_len ?s) = pret (seg norm ?s)"
    using live(3) by (simp add: vec_slice_def seg_def)
  have "emit_piece tk merges (seg norm ?s) out = pret (out @ piece_ids tk (seg norm ?s))"
    by (rule emit_piece_ids [OF tk(1,2) merges]) (use Cons.prems(2) in simp)
  moreover have "sy_next ?s = first_of is None" "chain symbols (Some i) (start + sy_len ?s) is None (length norm)"
    using Cons.prems(1) by simp_all
  ultimately show ?case
    using live tk(3) Cons.IH Cons.prems(2)
    by (subst emit_chain.simps) (simp add: vec_get_def usize_add_def slice)
qed

text \<open>The numbers stand for a division of the normalized text into pieces.\<close>

definition spells :: "llama_spm_tokenizer \<Rightarrow> u8 list \<Rightarrow> u8 list list \<Rightarrow> bool" where
  "spells tk norm pieces \<longleftrightarrow> concat pieces = norm \<and> (\<forall>p \<in> set pieces. spm_piece tk p)"

lemma encode_normalized_spells:
  assumes tk: "spm_ok tk" "spm_complete tk" and norm: "2 * int (length norm) < usize_bound" "utf8_valid norm" "norm \<noteq> []"
  shows "\<exists>pieces. encode_normalized tk norm out = pret (out @ concat (map (piece_ids tk) pieces)) \<and> spells tk norm pieces"
proof -
  let ?symbols = "split_utf8_symbols norm"
  let ?starts = "map sy_start ?symbols"
  note start = split_utf8_symbols_linked [OF norm(2), of tk]
  have "yields (\<lambda>_. False) (ms_ok tk norm ?starts)
      (for_each (\<lambda>right. try_add_bigram tk norm ?symbols (right - 1) right) [1..<length ?symbols] ([], []))"
  proof (rule yields_for_each)
    show "ms_ok tk norm ?starts ([], [])" by (simp add: ms_ok_def bt_contains_def)
    fix right ms assume "right \<in> set [1..<length ?symbols]" "ms_ok tk norm ?starts ms"
    then have "yields (\<lambda>_. False) (\<lambda>ms'. ms_ok tk norm ?starts ms' \<and> length (fst ms') \<le> Suc (length (fst ms)))
        (try_add_bigram tk norm ?symbols (right - 1) right ms)"
      using norm(1) linked_bound [OF start] by (intro try_add_bigram_ok [OF tk(1)]) auto
    then show "yields (\<lambda>_. False) (ms_ok tk norm ?starts) (try_add_bigram tk norm ?symbols (right - 1) right ms)"
      by (rule yields_mono) simp
  qed
  then have "yields (\<lambda>_. False) (\<lambda>state. \<exists>fuel. merge_inv tk norm fuel state)
      (pbind (for_each (\<lambda>right. try_add_bigram tk norm ?symbols (right - 1) right) [1..<length ?symbols] ([], []))
        (\<lambda>ms. merge_loop tk norm (?symbols, ms)))"
  proof (rule yields_pbind)
    fix ms assume "ms_ok tk norm ?starts ms"
    then have "merge_inv tk norm (3 * length ?symbols + length (fst ms)) (?symbols, ms)"
      using start by (auto simp: merge_inv_def intro!: exI [of _ "[0..<length ?symbols]"])
    from merge_loop_ok [OF tk(1) norm(1) this]
    show "yields (\<lambda>_. False) (\<lambda>state. \<exists>fuel. merge_inv tk norm fuel state) (merge_loop tk norm (?symbols, ms))"
      by (rule yields_mono) blast
  qed
  then obtain state fuel where merged: "pbind (for_each (\<lambda>right. try_add_bigram tk norm ?symbols (right - 1) right) [1..<length ?symbols] ([], []))
        (\<lambda>ms. merge_loop tk norm (?symbols, ms)) = pret state" and "merge_inv tk norm fuel state"
    using yields_total by blast
  then obtain "is" where "is": "linked tk norm (fst state) is"
    and ms: "\<forall>p. bt_contains (snd (snd state)) p \<longrightarrow> mergeable tk p"
    unfolding merge_inv_def ms_ok_def by blast
  let ?pieces = "map (\<lambda>i. seg norm (fst state ! i)) is"
  from "is" have chain: "chain (fst state) None 0 is None (length norm)" and pieces: "\<forall>i \<in> set is. spm_piece tk (seg norm (fst state ! i))"
    by (simp_all add: linked_def)
  have "is \<noteq> []" using chain norm(3) by auto
  with "is" have first: "first_of is None = Some 0" "fst state \<noteq> []"
    using chain_live [OF chain] by (cases "is"; auto simp: linked_def)+
  have "encode_normalized tk norm out = pbind (pbind (for_each (\<lambda>right. try_add_bigram tk norm ?symbols (right - 1) right) [1..<length ?symbols] ([], []))
        (\<lambda>ms. merge_loop tk norm (?symbols, ms)))
      (\<lambda>state. if fst state = [] then pret out else emit_chain tk norm (snd (snd state)) (fst state) (Some 0) out)"
    by (simp add: encode_normalized_def pbind_assoc Let_def)
  also have "\<dots> = emit_chain tk norm (snd (snd state)) (fst state) (first_of is None) out"
    unfolding merged using first by simp
  also have "\<dots> = pret (out @ concat (map (piece_ids tk) ?pieces))"
    using emit_chain_ids [OF tk _ ms chain pieces] norm(1) by (simp add: comp_def)
  finally show ?thesis
    using pieces chain_segs [OF chain, of norm] by (intro exI [of _ ?pieces]) (simp add: spells_def)
qed

section \<open>Decoding\<close>

text \<open>No special token is one that encoding may emit.\<close>

definition spm_reserved :: "llama_spm_tokenizer \<Rightarrow> bool" where
  "spm_reserved tk \<longleftrightarrow> (\<forall>i. spm_special tk i \<longrightarrow> lt_type tk i = TOKEN_TYPE_CONTROL \<or> lt_type tk i = TOKEN_TYPE_UNUSED
    \<or> lt_type tk i = TOKEN_TYPE_UNKNOWN \<and> \<not> is_char (lt_tokens tk ! unat i))"

lemma type_facts:
  "is_output_token_type ty \<Longrightarrow> ty \<noteq> TOKEN_TYPE_BYTE \<and> ty \<noteq> TOKEN_TYPE_CONTROL \<and> ty \<noteq> TOKEN_TYPE_UNUSED"
  "is_merge_token_type ty \<Longrightarrow> ty \<noteq> TOKEN_TYPE_UNKNOWN"
  "TOKEN_TYPE_BYTE \<noteq> TOKEN_TYPE_CONTROL" "TOKEN_TYPE_BYTE \<noteq> TOKEN_TYPE_UNUSED" "TOKEN_TYPE_BYTE \<noteq> TOKEN_TYPE_UNKNOWN"
  by (auto simp: is_output_token_type_def is_merge_token_type_def token_types)

lemma piece_ids_cases [consumes 3, case_names Token Bytes]:
  assumes "spm_ok tk" "spm_complete tk" "spm_piece tk piece"
  obtains i where "piece_ids tk piece = [i]" "unat i < length (lt_tokens tk)" "lt_tokens tk ! unat i = piece"
      "is_output_token_type (lt_type tk i)" "is_char piece \<or> is_merge_token_type (lt_type tk i)"
  | "piece_ids tk piece = map (\<lambda>b. the (lt_byte_tokens tk ! unat b)) piece" "is_char piece" "piece \<noteq> SPM_SPACE"
proof (cases "\<exists>i. token_of_type tk is_output_token_type piece i")
  case True
  then obtain i where i: "bt_get (lt_token_to_id tk) piece = Some i" "is_output_token_type (lt_type tk i)"
    by (auto simp: token_of_type_def)
  then show ?thesis
    using that(1) [of i] spm_ok_get [OF assms(1) i(1)] assms(3)
    by (auto simp: piece_ids_def spm_piece_def mergeable_def token_of_type_def)
next
  case False
  then have "\<not> mergeable tk piece" using merge_type_output by (auto simp: mergeable_def token_of_type_def)
  moreover have "piece \<noteq> SPM_SPACE" using False assms(2) by (auto simp: spm_complete_def)
  moreover have "piece_ids tk piece = map (\<lambda>b. the (lt_byte_tokens tk ! unat b)) piece"
    using False by (auto simp: piece_ids_def token_of_type_def split: option.split)
  ultimately show ?thesis using assms(3) by (intro that(2)) (simp_all add: spm_piece_def)
qed

lemma byte_token:
  assumes "spm_ok tk" "spm_complete tk"
  defines "i \<equiv> \<lambda>b :: u8. the (lt_byte_tokens tk ! unat b)"
  shows "unat (i b) < length (lt_tokens tk)" "lt_type tk (i b) = TOKEN_TYPE_BYTE" "parse_byte_piece (lt_tokens tk ! unat (i b)) = Some b"
proof -
  obtain j where "lt_byte_tokens tk ! unat b = Some j" using assms(2) by (auto simp: spm_complete_def)
  with assms(1) show "unat (i b) < length (lt_tokens tk)" "lt_type tk (i b) = TOKEN_TYPE_BYTE" "parse_byte_piece (lt_tokens tk ! unat (i b)) = Some b"
    by (auto simp: i_def spm_ok_def byte_ids_ok_def)
qed

lemma piece_ids_range:
  assumes "spm_ok tk" "spm_complete tk" "spm_piece tk piece" "i \<in> set (piece_ids tk piece)"
  shows "unat i < length (lt_tokens tk)"
  using assms(1-3)
proof (cases rule: piece_ids_cases)
  case Bytes
  with assms(4) show ?thesis using byte_token(1) [OF assms(1,2)] by auto
qed (use assms(4) in auto)

lemma decode_bytes_tokens:
  assumes "spm_ok tk" "spm_complete tk" "spm_reserved tk"
  shows "for_each (spm_decode_token tk True) (map (\<lambda>b. the (lt_byte_tokens tk ! unat b)) bs) (bytes, False) = pret (bytes @ bs, False)"
proof (induction bs arbitrary: bytes)
  case (Cons b bs)
  let ?i = "the (lt_byte_tokens tk ! unat b)"
  note i = byte_token [OF assms(1,2), of b]
  have "unat ?i < length (lt_token_types tk)" using i(1) assms(1) by (simp add: spm_ok_def)
  moreover have "\<not> spm_special tk ?i" using assms(3) i(2) type_facts(3-5) unfolding spm_reserved_def by metis
  then have "\<not> spm_skips tk ?i TOKEN_TYPE_BYTE" using type_facts(3-5) by (auto simp: spm_skips_def spm_special_def)
  ultimately have "spm_decode_token tk True ?i (bytes, False) = pret (bytes @ [b], False)"
    using i by (simp add: spm_decode_token_def Let_def vec_get_def not_le)
  with Cons show ?case by simp
qed simp

lemma decode_token:
  assumes tk: "spm_ok tk" "spm_reserved tk"
    and i: "unat i < length (lt_tokens tk)" "lt_tokens tk ! unat i = piece" "is_output_token_type (lt_type tk i)"
      "is_char piece \<or> is_merge_token_type (lt_type tk i)"
  shows "spm_decode_token tk True i (bytes, strip) = pret (bytes @ (let p = unescape piece in if strip \<and> p \<noteq> [] \<and> hd p = 32 then tl p else p), False)"
proof -
  have len: "unat i < length (lt_token_types tk)" using i(1) tk(1) by (simp add: spm_ok_def)
  have "\<not> spm_special tk i" using tk(2) i type_facts(1) [OF i(3)] type_facts(2) unfolding spm_reserved_def by metis
  then have skip: "\<not> spm_skips tk i (lt_type tk i)" using type_facts(1) [OF i(3)] by (auto simp: spm_skips_def spm_special_def)
  have ty: "lt_type tk i \<noteq> TOKEN_TYPE_BYTE" using type_facts(1) [OF i(3)] by simp
  have drop: "take (length bytes) (bytes @ x # xs) @ drop (Suc (length bytes)) (bytes @ x # xs) = bytes @ xs" for x xs
    by simp
  show ?thesis
    using i(1) len skip ty
    by (cases "unescape piece") (auto simp: spm_decode_token_def Let_def vec_get_def i(2) append_unescaped_spm_eq nth_append)
qed

lemma decode_piece:
  assumes "spm_ok tk" "spm_complete tk" "spm_reserved tk" "spm_piece tk piece"
  shows "for_each (spm_decode_token tk True) (piece_ids tk piece) (bytes, False) = pret (bytes @ unescape piece, False)"
  using assms(1,2,4)
proof (cases rule: piece_ids_cases)
  case (Token i)
  then show ?thesis using decode_token [OF assms(1,3) Token(2-5)] by simp
next
  case Bytes
  then show ?thesis using decode_bytes_tokens [OF assms(1-3)] by (simp add: unescape_plain_char)
qed

lemma decode_pieces:
  assumes "spm_ok tk" "spm_complete tk" "spm_reserved tk"
  shows "\<forall>p \<in> set pieces. spm_piece tk p \<Longrightarrow> for_each (spm_decode_token tk True) (concat (map (piece_ids tk) pieces)) (bytes, False)
    = pret (bytes @ concat (map unescape pieces), False)"
  by (induction pieces arbitrary: bytes) (simp_all add: for_each_append decode_piece [OF assms])

text \<open>The first piece starts with the dummy prefix, which the flag removes.\<close>

lemma decode_first_piece:
  assumes tk: "spm_ok tk" "spm_complete tk" "spm_reserved tk"
    and pieces: "spells tk (SPM_SPACE @ rest) pieces"
  shows "for_each (spm_decode_token tk True) (concat (map (piece_ids tk) pieces)) ([], True) = pret (unescape rest, False)"
proof -
  obtain p ps where p: "pieces = p # ps" "spm_piece tk p" "\<forall>q \<in> set ps. spm_piece tk q" "p @ concat ps = SPM_SPACE @ rest"
    using pieces by (cases pieces) (auto simp: spells_def SPM_SPACE_def)
  have valid: "p \<noteq> []" "utf8_valid p" using p(2) by (simp_all add: spm_piece_def)
  then have head: "utf8_head p \<noteq> 0" using utf8_valid_head by blast
  have "utf8_head (p @ concat ps) = utf8_head p" using head by (rule utf8_head_append)
  moreover have "utf8_head (SPM_SPACE @ rest) = 3"
    using utf8_head_append [of SPM_SPACE rest] is_char_space(1) by (simp add: is_char_def SPM_SPACE_def)
  ultimately have "utf8_head p = 3" using p(4) by simp
  then have "3 \<le> length p" using utf8_head_le [of p] by simp
  then obtain q where q: "p = SPM_SPACE @ q"
    using p(4) by (metis SPM_SPACE_def append_eq_append_conv_if append_take_drop_id le_numeral_extra(4) length_Cons list.size(3) numeral_3_eq_3)
  have un: "unescape p = 32 # unescape q" by (simp add: q unescape_space)
  have rest: "unescape rest = unescape q @ concat (map unescape ps)"
  proof -
    have "32 # unescape rest = unescape (p @ concat ps)" by (simp add: p(4) unescape_space)
    also have "\<dots> = 32 # unescape q @ concat (map unescape ps)"
      using p(3) unescape_concat [of ps] by (simp add: unescape_append [OF valid(2)] un spm_piece_def)
    finally show ?thesis by simp
  qed
  have "for_each (spm_decode_token tk True) (piece_ids tk p) ([], True) = pret (unescape q, False)"
    using tk(1,2) p(2)
  proof (cases rule: piece_ids_cases)
    case (Token i)
    then show ?thesis using decode_token [OF tk(1,3) Token(2-5), of "[]" True] by (simp add: un Let_def)
  next
    case Bytes
    then have "unescape p = p" by (simp add: unescape_plain_char)
    with un show ?thesis by (simp add: q SPM_SPACE_def)
  qed
  with p(1,3) show ?thesis by (simp add: for_each_append decode_pieces [OF tk] rest)
qed

lemma decode_skips:
  assumes "spm_ok tk" "\<forall>i \<in> set ids. spm_special tk i"
  shows "for_each (spm_decode_token tk True) ids (bytes, strip)
    = pret (bytes, if ids = [] then strip else lt_add_space_prefix tk \<and> lt_bos_token tk = Some (last ids))"
  using assms(2)
proof (induction ids arbitrary: strip)
  case (Cons i ids)
  have "unat i < length (lt_tokens tk)" "unat i < length (lt_token_types tk)" "spm_skips tk i (lt_type tk i)"
    using Cons.prems assms(1) by (auto simp: spm_ok_def spm_skips_def spm_special_def)
  with Cons show ?case by (simp add: spm_decode_token_def Let_def vec_get_def not_le)
qed simp

section \<open>Every text is encoded, and decoded again\<close>

definition spm_good :: "llama_spm_tokenizer \<Rightarrow> string \<Rightarrow> bool" where
  "spm_good tk s \<longleftrightarrow> spm_ok tk \<and> spm_complete tk \<and> spm_reserved tk
    \<and> str_ok s \<and> 3 * int (length s) + 3 < 2 ^ 63"

text \<open>The dummy prefix stays visible when no begin token announces it.\<close>

definition spm_shown :: "llama_spm_tokenizer \<Rightarrow> bool \<Rightarrow> string \<Rightarrow> string" where
  "spm_shown tk add s =
    (if lt_add_space_prefix tk \<and> s \<noteq> [] \<and> lt_bos_token tk \<noteq> None \<and> \<not> (add \<and> lt_add_bos_token tk) then CHR '' '' # s else s)"

lemma spm_encode_pieces:
  assumes "spm_good tk s"
  shows "\<exists>pieces. spm_encode tk s add = pret ((if add \<and> lt_add_bos_token tk then flatten_options [lt_bos_token tk] else [])
      @ concat (map (piece_ids tk) pieces) @ (if add \<and> lt_add_eos_token tk then flatten_options [lt_eos_token tk] else []))
    \<and> spells tk (normalize_spm s (lt_add_space_prefix tk)) pieces"
proof -
  let ?norm = "normalize_spm s (lt_add_space_prefix tk)"
  from assms have tk: "spm_ok tk" "spm_complete tk" and s: "str_ok s" "3 * int (length s) + 3 < 2 ^ 63"
    by (simp_all add: spm_good_def)
  show ?thesis
  proof (cases "?norm = []")
    case True
    then show ?thesis by (intro exI [of _ "[]"]) (simp add: spm_encode_def spells_def)
  next
    case False
    have "2 * int (length ?norm) < usize_bound"
      using length_normalize [OF s(1), of "lt_add_space_prefix tk"] s(2) by (simp add: usize_bound_def)
    from encode_normalized_spells [OF tk this normalize_spm_valid False,
        of "if add \<and> lt_add_bos_token tk then flatten_options [lt_bos_token tk] else []"] False
    show ?thesis by (auto simp: spm_encode_def Let_def)
  qed
qed

lemma spm_decode_pieces:
  assumes good: "spm_good tk s" and pieces: "spells tk (normalize_spm s (lt_add_space_prefix tk)) pieces"
  shows "for_each (spm_decode_token tk True) (concat (map (piece_ids tk) pieces)) ([], strip \<and> lt_add_space_prefix tk)
    = pret (str_bytes ((if lt_add_space_prefix tk \<and> s \<noteq> [] \<and> \<not> strip then '' '' else []) @ spm_spaced s), strip \<and> lt_add_space_prefix tk \<and> s = [])"
proof -
  let ?norm = "normalize_spm s (lt_add_space_prefix tk)"
  from good have tk: "spm_ok tk" "spm_complete tk" "spm_reserved tk" and s: "str_ok s"
    by (simp_all add: spm_good_def)
  have un: "unescape ?norm = (if lt_add_space_prefix tk \<and> s \<noteq> [] then [32] else []) @ str_bytes (spm_spaced s)"
    by (rule unescape_normalize)
  have space: "str_bytes (CHR '' '' # t) = 32 # str_bytes t" for t by (simp add: str_bytes_def)
  show ?thesis
  proof (cases "strip \<and> lt_add_space_prefix tk")
    case False
    have "unescape ?norm = concat (map unescape pieces)"
      using pieces unescape_concat [of pieces] by (auto simp: spells_def spm_piece_def)
    with False un pieces show ?thesis
      by (auto simp: decode_pieces [OF tk] spells_def space)
  next
    case True
    show ?thesis
    proof (cases "s = []")
      case True': True
      then have "pieces = []"
        using pieces normalize_spm_Nil [OF s] by (cases pieces) (auto simp: spells_def spm_piece_def)
      with True True' spm_spaced_Nil [OF s] show ?thesis by (simp add: str_bytes_def)
    next
      case False
      obtain rest where rest: "?norm = SPM_SPACE @ rest"
        using True False by (simp add: normalize_spm_def)
      have "unescape rest = str_bytes (spm_spaced s)"
        using un True False unfolding rest by (simp add: unescape_space)
      with True False decode_first_piece [OF tk pieces [unfolded rest]] show ?thesis by simp
    qed
  qed
qed

lemma spm_encode_decode:
  assumes good: "spm_good tk s"
  shows "\<exists>ids. spm_encode tk s add = pret ids \<and> (\<forall>i \<in> set ids. unat i < length (lt_tokens tk))
    \<and> spm_decode tk ids True = pret (spm_shown tk add (spm_spaced s))"
proof -
  from good have tk: "spm_ok tk" "spm_complete tk" and s: "str_ok s" by (simp_all add: spm_good_def)
  let ?bos = "if add \<and> lt_add_bos_token tk then flatten_options [lt_bos_token tk] else []"
  let ?eos = "if add \<and> lt_add_eos_token tk then flatten_options [lt_eos_token tk] else []"
  have special: "\<forall>i \<in> set ?bos. spm_special tk i" "\<forall>i \<in> set ?eos. spm_special tk i"
    by (simp_all add: spm_special_def)
  obtain pieces where enc: "spm_encode tk s add = pret (?bos @ concat (map (piece_ids tk) pieces) @ ?eos)"
    and pieces: "spells tk (normalize_spm s (lt_add_space_prefix tk)) pieces"
    using spm_encode_pieces [OF good] by blast
  let ?ids = "?bos @ concat (map (piece_ids tk) pieces) @ ?eos"
  let ?strip = "lt_bos_token tk = None \<or> add \<and> lt_add_bos_token tk"
  have start: "for_each (spm_decode_token tk True) ?bos ([], lt_add_space_prefix tk \<and> None = lt_bos_token tk)
      = pret ([], ?strip \<and> lt_add_space_prefix tk)"
    unfolding decode_skips [OF tk(1) special(1)]
    by (cases "lt_bos_token tk") (auto simp: flatten_options_def)
  have shown: "(if lt_add_space_prefix tk \<and> s \<noteq> [] \<and> \<not> ?strip then '' '' else []) @ spm_spaced s = spm_shown tk add (spm_spaced s)"
    using spm_spaced_Nil [OF s] by (auto simp: spm_shown_def)
  have "str_ok '' ''" by (rule ascii_str_ok) simp
  then have ok: "str_ok (spm_shown tk add (spm_spaced s))"
    using str_ok_spaced [of s] str_ok_append [of "'' ''" "spm_spaced s"] by (simp add: spm_shown_def)
  have "spm_decode tk ?ids True = pret (spm_shown tk add (spm_spaced s))"
    unfolding spm_decode_def decode_after_def for_each_append start pbind_pret spm_decode_pieces [OF good pieces] shown
      decode_skips [OF tk(1) special(2)]
    using ok by (simp add: pret_def plift_def)
  moreover have "unat i < length (lt_tokens tk)" if "i \<in> set ?ids" for i
    using that special tk(1) pieces piece_ids_range [OF tk]
    by (auto simp: spm_ok_def spells_def simp del: set_flatten_options split: if_splits)
  ultimately show ?thesis using enc by blast
qed

end
