(* ===== verification/Text_Tokenizer.thy ===== *)
theory Text_Tokenizer
  imports Gpt2_Correct Spm_Correct
begin

text \<open>
  The trait \<open>TextTokenizer\<close> of \<open>crates/ntd-runtime/src/tokenizer.rs\<close>: the record of its methods, the
  three implementations, and the contract that the generator relies on as the locale
  \<open>text_tokenizer\<close>, interpreted by all three. \<open>good\<close> are the tokenizers and texts the contract speaks of,
  and \<open>shown\<close> is what the decoder makes of a text that was encoded.
\<close>

record text_tokenizer_impl =
  ti_vocab_size :: nat
  ti_eos_token :: "u32 option"
  ti_encode_text :: "string \<Rightarrow> bool \<Rightarrow> (tokenizer_error, u32 list) run"
  ti_decode_text :: "u32 list \<Rightarrow> bool \<Rightarrow> (tokenizer_error, string) run"

definition vocabulary_impl :: "vocabulary_tokenizer \<Rightarrow> text_tokenizer_impl" where
  "vocabulary_impl tk = \<lparr>ti_vocab_size = length (vt_tokens tk), ti_eos_token = vt_eos_token tk,
    ti_encode_text = vt_encode tk, ti_decode_text = \<lambda>ids skip. plift (vt_decode tk ids skip)\<rparr>"

definition llama_spm_impl :: "llama_spm_tokenizer \<Rightarrow> text_tokenizer_impl" where
  "llama_spm_impl tk = \<lparr>ti_vocab_size = length (lt_tokens tk), ti_eos_token = lt_eos_token tk,
    ti_encode_text = spm_encode tk, ti_decode_text = spm_decode tk\<rparr>"

definition gpt2_impl :: "(u8 list \<Rightarrow> general_category) \<Rightarrow> gpt2_bpe_tokenizer \<Rightarrow> text_tokenizer_impl" where
  "gpt2_impl category tk = \<lparr>ti_vocab_size = length (gt_tokens tk), ti_eos_token = gt_eos_token tk,
    ti_encode_text = \<lambda>s add. plift (gpt2_encode category tk s add), ti_decode_text = \<lambda>ids skip. plift (gpt2_decode tk ids skip)\<rparr>"

section \<open>The contract\<close>

locale text_tokenizer =
  fixes impl :: "'t \<Rightarrow> text_tokenizer_impl"
    and good :: "'t \<Rightarrow> string \<Rightarrow> bool"
    and shown :: "'t \<Rightarrow> bool \<Rightarrow> string \<Rightarrow> string"
  assumes faithful: "good tk s \<Longrightarrow> \<exists>ids. ti_encode_text (impl tk) s add = pret ids
    \<and> (\<forall>i \<in> set ids. unat i < ti_vocab_size (impl tk)) \<and> ti_decode_text (impl tk) ids True = pret (shown tk add s)"
begin

lemma encodes: "good tk s \<Longrightarrow> yields (\<lambda>_. False) (\<lambda>ids. \<forall>i \<in> set ids. unat i < ti_vocab_size (impl tk)) (ti_encode_text (impl tk) s add)"
  using faithful [of tk s add] by auto

lemma round_trip: "good tk s \<Longrightarrow> pbind (ti_encode_text (impl tk) s add) (\<lambda>ids. ti_decode_text (impl tk) ids True) = pret (shown tk add s)"
  using faithful [of tk s add] by auto

text \<open>Texts with the same numbers are shown alike.\<close>

lemma encode_determines:
  assumes "good tk s" "good tk t" "ti_encode_text (impl tk) s add = ti_encode_text (impl tk) t add"
  shows "shown tk add s = shown tk add t"
  using round_trip [OF assms(1), of add] round_trip [OF assms(2), of add] assms(3) by (simp add: pret_def)

end

section \<open>The vocabulary tokenizer\<close>

definition vt_good :: "vocabulary_tokenizer \<Rightarrow> string \<Rightarrow> bool" where
  "vt_good tk s \<longleftrightarrow> vocabulary_new (vt_tokens tk) (vt_bos_token tk) (vt_eos_token tk) (vt_unknown_token tk) = Inr tk
    \<and> (\<forall>b \<in> set (str_bytes s). \<exists>i. vt_matches tk [b] i) \<and> str_ok s \<and> int (length s) < usize_bound"

lemma matched_everywhere: "\<forall>b \<in> set bytes. \<exists>i. vt_matches tk [b] i \<Longrightarrow> vocabulary_ok (vt_tokens tk)
    \<Longrightarrow> pos < length bytes \<Longrightarrow> \<exists>i. vt_matches tk (drop pos bytes) i"
proof -
  assume all: "\<forall>b \<in> set bytes. \<exists>i. vt_matches tk [b] i" and vocab: "vocabulary_ok (vt_tokens tk)" and pos: "pos < length bytes"
  then obtain i where i: "vt_matches tk [bytes ! pos] i" by fastforce
  then have "vt_token tk i \<noteq> []" using vocab by (auto simp: vt_matches_def vocabulary_ok_def dest: nth_mem)
  with i have "vt_token tk i = [bytes ! pos]"
    by (cases "vt_token tk i") (auto simp: vt_matches_def starts_with_def)
  with i pos show ?thesis by (intro exI [of _ i]) (simp add: vt_matches_def starts_with_def Cons_nth_drop_Suc [symmetric])
qed

interpretation vocabulary: text_tokenizer vocabulary_impl vt_good "\<lambda>tk add s. s"
proof
  fix tk s add
  assume good: "vt_good tk s"
  then have new: "vocabulary_new (vt_tokens tk) (vt_bos_token tk) (vt_eos_token tk) (vt_unknown_token tk) = Inr tk"
    and matched: "\<forall>b \<in> set (str_bytes s). \<exists>i. vt_matches tk [b] i" and s: "str_ok s" "int (length s) < usize_bound"
    by (simp_all add: vt_good_def)
  have no_gap: "\<not> unmatched tk (str_bytes s)" "stuck_at tk (str_bytes s) = (\<lambda>_. False)"
    using matched_everywhere [OF matched vocabulary_new_Inr(2) [OF new]]
    by (auto simp: unmatched_def stuck_at_def fun_eq_iff)
  from yields_total [OF vt_encode_decode [OF new s, of add, unfolded no_gap(2)]] no_gap(1)
  show "\<exists>ids. ti_encode_text (vocabulary_impl tk) s add = pret ids
      \<and> (\<forall>i \<in> set ids. unat i < ti_vocab_size (vocabulary_impl tk)) \<and> ti_decode_text (vocabulary_impl tk) ids True = pret s"
    by (auto simp: vocabulary_impl_def pret_def plift_def)
qed

section \<open>The SentencePiece tokenizer\<close>

interpretation spm: text_tokenizer llama_spm_impl spm_good "\<lambda>tk add s. spm_shown tk add (spm_spaced s)"
  by standard (simp add: llama_spm_impl_def spm_encode_decode)

text \<open>When the vocabulary has a token for every byte and for the escaped space, and keeps its special tokens apart.\<close>

definition spm_vocabulary_complete :: "u8 list list \<Rightarrow> i32 list \<Rightarrow> bool" where
  "spm_vocabulary_complete tokens tys \<longleftrightarrow>
    (\<forall>b. \<exists>k < length tokens. tys ! k = TOKEN_TYPE_BYTE \<and> parse_byte_piece (tokens ! k) = Some b)
    \<and> (\<exists>k < length tokens. tokens ! k = SPM_SPACE \<and> is_output_token_type (tys ! k))"

definition spm_specials_apart :: "u8 list list \<Rightarrow> i32 list \<Rightarrow> llama_spm_config \<Rightarrow> bool" where
  "spm_specials_apart tokens tys config \<longleftrightarrow>
    (\<forall>i \<in> set (flatten_options [sc_bos_token config, sc_eos_token config, sc_unknown_token config]).
      tys ! unat i = TOKEN_TYPE_CONTROL \<or> tys ! unat i = TOKEN_TYPE_UNUSED
      \<or> tys ! unat i = TOKEN_TYPE_UNKNOWN \<and> \<not> is_char (tokens ! unat i))"

lemma spm_tables_complete:
  assumes "spm_tables n tokens scores tys ids byte_ids = Inr (ids', byte_ids')"
    "length scores = length tokens" "length tys = length tokens" "length byte_ids = 256"
    "(\<exists>k < length tokens. tys ! k = TOKEN_TYPE_BYTE \<and> parse_byte_piece (tokens ! k) = Some b) \<or> byte_ids ! unat b \<noteq> None"
  shows "byte_ids' ! unat b \<noteq> None"
  using assms
proof (induction n tokens scores tys ids byte_ids rule: spm_tables.induct)
  case (1 n t ts s ss y ys ids byte_ids)
  let ?i = "of_nat n :: u32"
  let ?byte_ids = "if y = TOKEN_TYPE_BYTE then
      (case parse_byte_piece t of None \<Rightarrow> byte_ids | Some b \<Rightarrow> byte_ids[unat b := Some ?i]) else byte_ids"
  from "1.prems"(1) have small: "int n < 2 ^ 32" and finite: "f32_is_finite s"
    and ty: "sint TOKEN_TYPE_NORMAL \<le> sint y \<and> sint y \<le> sint TOKEN_TYPE_BYTE"
    and rest: "spm_tables (Suc n) ts ss ys (bt_insert t ?i ids) ?byte_ids = Inr (ids', byte_ids')"
    by (auto simp: len_u32_def split: if_splits)
  have b: "unat b < 256" using unsigned_less [of b, where ?'a = nat] by simp
  have "(\<exists>k < length ts. ys ! k = TOKEN_TYPE_BYTE \<and> parse_byte_piece (ts ! k) = Some b) \<or> ?byte_ids ! unat b \<noteq> None"
  proof (cases "y = TOKEN_TYPE_BYTE \<and> parse_byte_piece t = Some b")
    case True
    with b "1.prems"(4) show ?thesis by simp
  next
    case False
    from "1.prems"(5) show ?thesis
    proof
      assume "\<exists>k < length (t # ts). (y # ys) ! k = TOKEN_TYPE_BYTE \<and> parse_byte_piece ((t # ts) ! k) = Some b"
      then obtain k where "k < length (t # ts)" "(y # ys) ! k = TOKEN_TYPE_BYTE" "parse_byte_piece ((t # ts) ! k) = Some b" by blast
      with False show ?thesis by (cases k) auto
    next
      assume "byte_ids ! unat b \<noteq> None"
      then have "byte_ids[j := Some ?i] ! unat b \<noteq> None" for j
        using b "1.prems"(4) by (cases "j = unat b") simp_all
      with \<open>byte_ids ! unat b \<noteq> None\<close> show ?thesis by (simp split: option.split)
    qed
  qed
  with "1.IH" [of ?i] rest small finite ty "1.prems"(2-4) show ?case
    by (simp add: len_u32_def split: option.split_asm if_split_asm)
qed auto

lemma llama_spm_new_good:
  assumes new: "llama_spm_new tokens scores tys config = Inr tk"
    and complete: "spm_vocabulary_complete tokens tys" and apart: "spm_specials_apart tokens tys config"
    and s: "str_ok s" "3 * int (length s) + 3 < 2 ^ 63"
  shows "spm_good tk s"
proof -
  from new obtain tables where len: "length scores = length tokens" "length tys = length tokens"
      and tables: "spm_tables 0 tokens scores tys [] (replicate 256 None) = Inr tables"
      and tk: "lt_tokens tk = tokens" "lt_token_types tk = tys" "lt_token_to_id tk = fst tables" "lt_byte_tokens tk = snd tables"
        "lt_bos_token tk = sc_bos_token config" "lt_eos_token tk = sc_eos_token config" "lt_unknown_token tk = sc_unknown_token config"
    by (auto simp: llama_spm_new_def split: if_splits)
  note ok = llama_spm_new_ok(1) [OF new]
  have "snd tables ! unat b \<noteq> None" for b :: u8
  proof -
    from complete have "\<exists>k < length tokens. tys ! k = TOKEN_TYPE_BYTE \<and> parse_byte_piece (tokens ! k) = Some b"
      by (simp add: spm_vocabulary_complete_def)
    with spm_tables_complete [of 0 tokens scores tys "[]" "replicate 256 None" "fst tables" "snd tables" b] tables len
    show ?thesis by simp
  qed
  moreover obtain k where k: "k < length tokens" "tokens ! k = SPM_SPACE" "is_output_token_type (tys ! k)"
    using complete by (auto simp: spm_vocabulary_complete_def)
  have "int (length tokens) \<le> 2 ^ 32"
    using new validate_vocabulary_Inr [of tokens] by (auto simp: llama_spm_new_def vocabulary_ok_def)
  with k have "unat (of_nat k :: u32) = k" by (intro unat_len) simp
  with k ok have "token_of_type tk is_output_token_type SPM_SPACE (of_nat k)"
    by (auto simp: token_of_type_def spm_ok_def indexes_def tk)
  ultimately have "spm_complete tk" by (auto simp: spm_complete_def tk)
  moreover have "spm_reserved tk"
    using apart by (auto simp: spm_reserved_def spm_special_def spm_specials_apart_def tk)
  ultimately show ?thesis using ok s by (simp add: spm_good_def)
qed

section \<open>The byte-level BPE tokenizer\<close>

definition gpt2_good :: "gpt2_bpe_tokenizer \<Rightarrow> string \<Rightarrow> bool" where
  "gpt2_good tk s \<longleftrightarrow> (\<exists>tokens merges config. gpt2_new tokens merges config = Inr tk) \<and> gt_reserved tk \<and> str_ok s"

interpretation gpt2: text_tokenizer "gpt2_impl category" gpt2_good "\<lambda>tk add s. s" for category
proof
  fix tk s add
  assume "gpt2_good tk s"
  then obtain tokens merges config where new: "gpt2_new tokens merges config = Inr tk" and s: "str_ok s" "gt_reserved tk"
    by (auto simp: gpt2_good_def)
  from gpt2_encode_decode [OF new s, of category add] gpt2_new_ok [OF new]
  show "\<exists>ids. ti_encode_text (gpt2_impl category tk) s add = pret ids
      \<and> (\<forall>i \<in> set ids. unat i < ti_vocab_size (gpt2_impl category tk)) \<and> ti_decode_text (gpt2_impl category tk) ids True = pret s"
    by (auto simp: gpt2_impl_def pret_def plift_def)
qed

section \<open>Properties\<close>

text \<open>
  C20: The greedy tokenizer never panics and stops at every input; it fails only without an unknown token, at a
  position where no token matches, and otherwise the decoder restores the text, unless the unknown token
  was emitted where no token matches.
\<close>

theorem vocabulary_round_trip:
  assumes "vocabulary_new tokens bos eos unknown = Inr tk" "str_ok s" "int (length s) < usize_bound"
  shows "yields (stuck_at tk (str_bytes s))
    (\<lambda>ids. (\<forall>i \<in> set ids. unat i < length tokens)
      \<and> ((\<exists>u \<in> set ids. unknown = Some u) \<and> unmatched tk (str_bytes s) \<or> vt_decode tk ids True = Inr s)) (vt_encode tk s add_bos)"
  using vt_encode_decode [OF assms, of add_bos] vocabulary_new_Inr(1) [OF assms(1)] by simp

definition sample_vocabulary :: vocabulary_tokenizer where
  "sample_vocabulary = \<lparr>vt_tokens = [[97], [98], [97, 98], [60]], vt_bos_token = Some 3, vt_eos_token = None, vt_unknown_token = None\<rparr>"

lemma sample_vocabulary_new: "vocabulary_new [[97], [98], [97, 98], [60]] (Some 3) None None = Inr sample_vocabulary"
  by code_simp

theorem vocabulary_round_trip_witness:
  "vt_encode sample_vocabulary ''abba'' True = pret [3, 2, 1, 0] \<and> vt_decode sample_vocabulary [3, 2, 1, 0] True = Inr ''abba''
    \<and> yields (stuck_at sample_vocabulary (str_bytes ''abba''))
      (\<lambda>ids. (\<forall>i \<in> set ids. unat i < length [[97], [98], [97, 98], [60 :: u8]])
        \<and> ((\<exists>u \<in> set ids. None = Some u) \<and> unmatched sample_vocabulary (str_bytes ''abba'') \<or> vt_decode sample_vocabulary ids True = Inr ''abba''))
      (vt_encode sample_vocabulary ''abba'' True)"
proof (intro conjI)
  show "vt_encode sample_vocabulary ''abba'' True = pret [3, 2, 1, 0]" by code_simp
  show "vt_decode sample_vocabulary [3, 2, 1, 0] True = Inr ''abba''" by code_simp
  have "str_ok ''abba''" by code_simp
  then show "yields (stuck_at sample_vocabulary (str_bytes ''abba''))
      (\<lambda>ids. (\<forall>i \<in> set ids. unat i < length [[97], [98], [97, 98], [60 :: u8]])
        \<and> ((\<exists>u \<in> set ids. None = Some u) \<and> unmatched sample_vocabulary (str_bytes ''abba'') \<or> vt_decode sample_vocabulary ids True = Inr ''abba''))
      (vt_encode sample_vocabulary ''abba'' True)"
    by (intro vocabulary_round_trip [OF sample_vocabulary_new]) (simp_all add: usize_bound_def)
qed

text \<open>
  C6: A SentencePiece tokenizer with a token for every byte and for the escaped space, whose special tokens
  are typed as control or unused, or as unknown and spell no character, encodes every text whose escaped form
  fits a vector, never panicking and in finitely many merges. The decoder restores the text, but with
  a space for each escape character U+2581 that the text itself has, and with a leading
  space when a dummy prefix was added that no begin token announces.
\<close>

theorem spm_round_trip:
  assumes "llama_spm_new tokens scores tys config = Inr tk" "spm_vocabulary_complete tokens tys" "spm_specials_apart tokens tys config"
    "str_ok s" "3 * int (length s) + 3 < 2 ^ 63"
  shows "\<exists>ids. spm_encode tk s add = pret ids \<and> (\<forall>i \<in> set ids. unat i < length tokens)
    \<and> spm_decode tk ids True = pret (spm_shown tk add (spm_spaced s))
    \<and> (SPM_SPACE \<notin> set (utf8_chars (str_bytes s)) \<longrightarrow> spm_spaced s = s)"
  using spm.faithful [OF llama_spm_new_good [OF assms], of add] llama_spm_new_ok(2) [OF assms(1)] spm_spaced_same [OF assms(4)]
  by (simp add: llama_spm_impl_def)

text \<open>The byte tokens, the escaped space and one more token.\<close>

definition sample_spm_tokens :: "u8 list list" where
  "sample_spm_tokens = map (\<lambda>n. [of_nat n]) [0..<256] @ [SPM_SPACE, [104, 105]]"

definition sample_spm_types :: "i32 list" where
  "sample_spm_types = replicate 256 TOKEN_TYPE_BYTE @ [TOKEN_TYPE_NORMAL, TOKEN_TYPE_NORMAL]"

definition sample_spm_config :: llama_spm_config where
  "sample_spm_config = \<lparr>sc_bos_token = None, sc_eos_token = None, sc_unknown_token = None, sc_add_space_prefix = True,
    sc_add_bos_token = False, sc_add_eos_token = False\<rparr>"

lemma validate_tokens_ok:
  assumes "bt_wf seen" "[] \<notin> set tokens" "distinct tokens" "\<forall>t \<in> set tokens. bt_get seen t = None" "int (n + length tokens) \<le> 2 ^ 32"
  shows "validate_tokens n tokens seen = Inr ()"
  using assms
proof (induction tokens arbitrary: n seen)
  case (Cons t ts)
  then have "\<forall>u \<in> set ts. bt_get (bt_insert t (of_nat n) seen) u = None" by (auto simp: bt_get_insert)
  with Cons have "validate_tokens (Suc n) ts (bt_insert t (of_nat n) seen) = Inr ()" by (intro Cons.IH) auto
  with Cons.prems show ?case by (auto simp: len_u32_def)
qed simp

lemma validate_vocabulary_ok: "vocabulary_ok tokens \<Longrightarrow> validate_vocabulary tokens = Inr ()"
  using validate_tokens_ok [of "[]" tokens 0] by (simp add: validate_vocabulary_def vocabulary_ok_def)

lemma spm_tables_Inr:
  "\<forall>s \<in> set scores. f32_is_finite s \<Longrightarrow> \<forall>y \<in> set tys. sint TOKEN_TYPE_NORMAL \<le> sint y \<and> sint y \<le> sint TOKEN_TYPE_BYTE
    \<Longrightarrow> int (n + length tokens) \<le> 2 ^ 32 \<Longrightarrow> \<exists>tables. spm_tables n tokens scores tys ids byte_ids = Inr tables"
  by (induction n tokens scores tys ids byte_ids rule: spm_tables.induct) (auto simp: len_u32_def)

lemma byte_tokens_distinct: "distinct (map (\<lambda>n. [of_nat n :: u8]) [0..<256])"
proof -
  have "unat (of_nat n :: u8) = n" if "n < 256" for n using that by (simp add: unat_of_nat)
  then have "m = n" if "m < 256" "n < 256" "(of_nat m :: u8) = of_nat n" for m n
    using that by metis
  then show ?thesis by (auto simp: distinct_map inj_on_def)
qed

lemma sample_spm_vocabulary: "vocabulary_ok sample_spm_tokens"
proof -
  have "length t = 1" if "t \<in> set (map (\<lambda>n. [of_nat n :: u8]) [0..<256])" for t using that by auto
  then have "SPM_SPACE \<notin> set (map (\<lambda>n. [of_nat n]) [0..<256])" "[104, 105] \<notin> set (map (\<lambda>n. [of_nat n :: u8]) [0..<256])"
    "[] \<notin> set (map (\<lambda>n. [of_nat n :: u8]) [0..<256])"
    by (auto simp: SPM_SPACE_def)
  then show ?thesis
    using byte_tokens_distinct by (auto simp: vocabulary_ok_def sample_spm_tokens_def SPM_SPACE_def simp del: upt_Suc set_map)
qed

lemma sample_spm_new: "\<exists>tk. llama_spm_new sample_spm_tokens (replicate 258 0) sample_spm_types sample_spm_config = Inr tk
    \<and> lt_add_space_prefix tk \<and> lt_bos_token tk = None"
proof -
  have len: "length sample_spm_tokens = 258" "length sample_spm_types = 258"
    by (simp_all add: sample_spm_tokens_def sample_spm_types_def)
  have "f32_is_finite 0" by code_simp
  moreover have "\<forall>y \<in> set sample_spm_types. sint TOKEN_TYPE_NORMAL \<le> sint y \<and> sint y \<le> sint TOKEN_TYPE_BYTE"
    by (auto simp: sample_spm_types_def token_types)
  ultimately obtain tables where
    "spm_tables 0 sample_spm_tokens (replicate 258 0) sample_spm_types [] (replicate 256 None) = Inr tables"
    using spm_tables_Inr [of "replicate 258 0" sample_spm_types 0 sample_spm_tokens "[]" "replicate 256 None"] by (auto simp: len)
  moreover have "validate_specials sample_spm_tokens None None None = Inr ()"
    by (simp add: validate_specials_def flatten_options_def)
  ultimately show ?thesis
    using validate_vocabulary_ok [OF sample_spm_vocabulary]
    by (simp add: llama_spm_new_def sample_spm_config_def len)
qed

lemma sample_spm_complete: "spm_vocabulary_complete sample_spm_tokens sample_spm_types" "spm_specials_apart sample_spm_tokens sample_spm_types sample_spm_config"
proof -
  have "\<exists>k < length sample_spm_tokens. sample_spm_types ! k = TOKEN_TYPE_BYTE \<and> parse_byte_piece (sample_spm_tokens ! k) = Some b" for b
  proof -
    have "unat b < 256" using unsigned_less [of b, where ?'a = nat] by simp
    then show ?thesis
      by (intro exI [of _ "unat b"]) (simp add: sample_spm_tokens_def sample_spm_types_def nth_append parse_byte_piece_def)
  qed
  moreover have "\<exists>k < length sample_spm_tokens. sample_spm_tokens ! k = SPM_SPACE \<and> is_output_token_type (sample_spm_types ! k)"
    by (intro exI [of _ 256]) (simp add: sample_spm_tokens_def sample_spm_types_def nth_append is_output_token_type_def)
  ultimately show "spm_vocabulary_complete sample_spm_tokens sample_spm_types" by (simp add: spm_vocabulary_complete_def)
  show "spm_specials_apart sample_spm_tokens sample_spm_types sample_spm_config"
    by (simp add: spm_specials_apart_def sample_spm_config_def flatten_options_def)
qed

theorem spm_round_trip_witness:
  "\<exists>tk ids. llama_spm_new sample_spm_tokens (replicate 258 0) sample_spm_types sample_spm_config = Inr tk
    \<and> spm_encode tk ''hi you'' True = pret ids \<and> spm_decode tk ids True = pret ''hi you''"
proof -
  obtain tk where tk: "llama_spm_new sample_spm_tokens (replicate 258 0) sample_spm_types sample_spm_config = Inr tk"
    "lt_add_space_prefix tk" "lt_bos_token tk = None" using sample_spm_new by blast
  have s: "str_ok ''hi you''" "SPM_SPACE \<notin> set (utf8_chars (str_bytes ''hi you''))" by code_simp+
  have "spm_shown tk True ''hi you'' = ''hi you''" by (simp add: spm_shown_def tk)
  with spm_round_trip [OF tk(1) sample_spm_complete s(1), of True] s(2) tk(1) show ?thesis by auto
qed

text \<open>
  C19: A byte-level BPE tokenizer whose special tokens are neither characters of bytes nor results of
  merges encodes every text, however its characters are classified, and the decoder restores it.
\<close>

theorem gpt2_round_trip:
  assumes "gpt2_new tokens merges config = Inr tk" "gt_reserved tk" "str_ok s"
  shows "\<exists>ids. gpt2_encode category tk s add = Inr ids \<and> (\<forall>i \<in> set ids. unat i < length tokens) \<and> gpt2_decode tk ids True = Inr s"
proof -
  have "gpt2_good tk s" using assms by (auto simp: gpt2_good_def)
  from gpt2.faithful [OF this, of category add] gpt2_new_ok [OF assms(1)] show ?thesis
    by (auto simp: gpt2_impl_def pret_def plift_def)
qed

definition sample_gpt2_tokens :: "u8 list list" where
  "sample_gpt2_tokens = gpt2_byte_encoder @ [str_bytes ''hi'']"

definition sample_gpt2_config :: gpt2_bpe_config where
  "sample_gpt2_config = \<lparr>gc_bos_token = None, gc_eos_token = None, gc_unknown_token = None, gc_add_bos_token = False, gc_add_eos_token = False\<rparr>"

lemma index_tokens_Inr: "int (n + length tokens) \<le> 2 ^ 32 \<Longrightarrow> \<exists>ids'. index_tokens n tokens ids = Inr ids'"
  by (induction tokens arbitrary: n ids) (auto simp: len_u32_def)

lemma sample_gpt2_vocabulary: "vocabulary_ok sample_gpt2_tokens"
proof -
  have "str_bytes ''hi'' \<notin> set gpt2_byte_encoder" using byte_encoder_is_char by (fastforce simp: str_bytes_def is_char_def)
  moreover have "[] \<notin> set gpt2_byte_encoder" using byte_encoder_is_char by (force simp: is_char_def)
  ultimately show ?thesis
    using distinct_byte_encoder by (auto simp: vocabulary_ok_def sample_gpt2_tokens_def str_bytes_def)
qed

lemma sample_gpt2_new: "\<exists>tk. gpt2_new sample_gpt2_tokens [''h i''] sample_gpt2_config = Inr tk \<and> gt_reserved tk"
proof -
  have n: "length sample_gpt2_tokens = 257" by (simp add: sample_gpt2_tokens_def)
  then obtain ids where ids: "index_tokens 0 sample_gpt2_tokens [] = Inr ids"
    using index_tokens_Inr [of 0 sample_gpt2_tokens "[]"] by auto
  have "indexes ids sample_gpt2_tokens"
    using index_tokens_indexes [OF ids] sample_gpt2_vocabulary by (simp add: vocabulary_ok_def)
  then have contains: "bt_contains ids t" if t: "t \<in> set sample_gpt2_tokens" for t
  proof -
    obtain k where k: "k < length sample_gpt2_tokens" "sample_gpt2_tokens ! k = t" using t by (auto simp: in_set_conv_nth)
    have "unat (of_nat k :: u32) = k" using k(1) n by (intro unat_len) simp
    with k \<open>indexes ids sample_gpt2_tokens\<close> have "bt_get ids t = Some (of_nat k)" by (simp add: indexes_def)
    then show ?thesis by (simp add: bt_contains_def)
  qed
  have merge: "parse_merge ''h i'' = Some (''h'', ''i'')" by code_simp
  have "str_bytes ''h'' @ str_bytes ''i'' = str_bytes ''hi''" by (simp add: str_bytes_def)
  then have "bt_contains ids (str_bytes ''h'' @ str_bytes ''i'')" using contains by (simp add: sample_gpt2_tokens_def)
  with merge obtain ranks where "rank_merges ids 0 [''h i''] [] = Inr ranks" by (simp add: bt_contains_def)
  moreover have "check_all (\<lambda>c. if bt_contains ids c then Inr () else Inl (Te_MissingTokenPiece c)) gpt2_byte_encoder = Inr ()"
    using contains by (simp add: sample_gpt2_tokens_def)
  moreover have "validate_specials sample_gpt2_tokens None None None = Inr ()"
    by (simp add: validate_specials_def flatten_options_def)
  ultimately show ?thesis
    using ids validate_vocabulary_ok [OF sample_gpt2_vocabulary]
    by (simp add: gpt2_new_def sample_gpt2_config_def gt_reserved_def gt_is_special_def)
qed

theorem gpt2_round_trip_witness:
  "\<exists>tk ids. gpt2_new sample_gpt2_tokens [''h i''] sample_gpt2_config = Inr tk
    \<and> gpt2_encode (\<lambda>c. OtherLetter) tk ''hi you'' True = Inr ids \<and> gpt2_decode tk ids True = Inr ''hi you''"
proof -
  obtain tk where tk: "gpt2_new sample_gpt2_tokens [''h i''] sample_gpt2_config = Inr tk" "gt_reserved tk"
    using sample_gpt2_new by blast
  have s: "str_ok ''hi you''" by code_simp
  from gpt2_round_trip [OF tk s, of "\<lambda>c. OtherLetter" True] tk(1) show ?thesis by blast
qed

end
