(* ===== verification/Generation.thy ===== *)
theory Generation
  imports Graph_Executor Text_Tokenizer
begin

text \<open>
  Generation, \<open>crates/ntd-runtime/src/generation.rs\<close>: a graph maps the tokens so far to a distribution
  of the next token, which is sampled and appended until a limit, the end token or, when streaming, the
  callback stops the loop; and the key/value cache.

  The three loops of the source repeat the computation of the distribution, which is \<open>distribution_of\<close> here.
  \<open>execute\<close> is \<open>execute_with_resolver\<close> with the empty resolver. The callback of the streaming loop acts on a
  world of an arbitrary type. The logarithm of the platform is a parameter, like the functions of \<open>libm\<close>. The scoring of continuations,
  which computes in double precision, is left out.
\<close>

section \<open>Data\<close>

datatype distribution_kind = Logits | Probabilities

datatype sampling_mode = Greedy | Stochastic (sm_temperature: f32) (sm_top_k: "nat option") (sm_seed: u64)

record generation_config =
  cf_max_new_tokens :: nat
  cf_context_limit :: nat
  cf_eos_token :: "u32 option"
  cf_distribution :: distribution_kind
  cf_sampling :: sampling_mode

definition generation_config_default :: generation_config where
  "generation_config_default = \<lparr>cf_max_new_tokens = 32, cf_context_limit = 2048, cf_eos_token = None,
    cf_distribution = Logits, cf_sampling = Greedy\<rparr>"

record generation_result =
  ge_prompt_tokens :: "u32 list"
  ge_generated_tokens :: "u32 list"
  ge_all_tokens :: "u32 list"

datatype generation_control = Continue | Cancel

datatype generation_finish_reason = FinishMaxTokens | FinishEos | FinishCancelled

record streaming_generation_result =
  sg_generation :: generation_result
  sg_finish_reason :: generation_finish_reason

record generated_text =
  gx_prompt_tokens :: "u32 list"
  gx_generated_tokens :: "u32 list"
  gx_text :: string

datatype sampling_error =
  EmptyDistribution | NonFinite | NegativeProbability | ZeroMass | InvalidTemperature | InvalidTopK

datatype generation_error =
  Gen_EmptyPrompt
| Gen_EmptyCandidate
| Gen_InvalidContextLimit
| Gen_InvalidVocabulary
| Gen_MissingDistributionOutput nat
| Gen_InvalidDistributionShape
| Gen_TokenIdOutOfRange u32
| Gen_Tensor tensor_error
| Gen_Execution execution_error
| Gen_Sampling sampling_error
| Gen_Tokenizer tokenizer_error

record graph_generator =
  gg_graph :: graph
  gg_provider :: provider
  gg_static_inputs :: "(value_id, tensor) btmap"
  gg_token_input :: value_id
  gg_distribution_output :: nat
  gg_vocab_size :: nat

definition graph_generator_new ::
    "graph \<Rightarrow> provider \<Rightarrow> (value_id, tensor) btmap \<Rightarrow> value_id \<Rightarrow> nat \<Rightarrow> nat \<Rightarrow> generation_error + graph_generator" where
  "graph_generator_new g provider static_inputs token_input distribution_output vocab_size =
    (if vocab_size = 0 then Inl Gen_InvalidVocabulary
     else Inr \<lparr>gg_graph = g, gg_provider = provider, gg_static_inputs = static_inputs, gg_token_input = token_input,
       gg_distribution_output = distribution_output, gg_vocab_size = vocab_size\<rparr>)"

section \<open>Sampling\<close>

text \<open>\<open>Iterator::max_by\<close>: the last of the greatest elements.\<close>

definition max_by :: "('a \<Rightarrow> 'a \<Rightarrow> ordering) \<Rightarrow> 'a list \<Rightarrow> 'a option" where
  "max_by f xs =
    (case xs of
      [] \<Rightarrow> None
    | x # ys \<Rightarrow> Some (foldl (\<lambda>best y. if f best y = Greater then best else y) x ys))"

definition logits_to_weights :: "libm \<Rightarrow> f32 list \<Rightarrow> f32 \<Rightarrow> f32 list" where
  "logits_to_weights lm values temperature =
    (let mx = foldl f32_max f32_neg_infinity values in
     map (\<lambda>v. lm_exp lm (f32_div (f32_sub v mx) temperature)) values)"

definition probabilities_to_weights :: "libm \<Rightarrow> f32 list \<Rightarrow> f32 \<Rightarrow> sampling_error + f32 list" where
  "probabilities_to_weights lm values temperature =
    (if list_ex (\<lambda>v. f32_lt v 0) values then Inl NegativeProbability
     else (let exponent = f32_div f32_one temperature in Inr (map (\<lambda>v. lm_powf lm v exponent) values)))"

definition weight_order :: "f32 list \<Rightarrow> nat \<Rightarrow> nat \<Rightarrow> ordering" where
  "weight_order weights left right =
    then_with (cmp (f32_total_key (weights ! right)) (f32_total_key (weights ! left))) (cmp left right)"

definition keep_top_k :: "f32 list \<Rightarrow> nat \<Rightarrow> sampling_error + f32 list" where
  "keep_top_k weights k =
    (if k = 0 then Inl InvalidTopK
     else
       (let indices = sort_by (weight_order weights) [0..<length weights] in
        Inr (foldl (\<lambda>weights index. weights[index := 0]) weights (drop k indices))))"

definition deterministic_unit :: "u64 \<Rightarrow> nat \<Rightarrow> f32" where
  "deterministic_unit seed step =
    (let v = seed + of_nat step + 0x9e3779b97f4a7c15;
         v = (v XOR drop_bit 30 v) * 0xbf58476d1ce4e5b9;
         v = (v XOR drop_bit 27 v) * 0x94d049bb133111eb;
         v = v XOR drop_bit 31 v;
         mantissa = drop_bit 40 v
     in f32_div (f32_of_int (uint mantissa)) (f32_of_int (2 ^ 24)))"

text \<open>\<open><=\<close>\<close>

definition f32_at_most :: "f32 \<Rightarrow> f32 \<Rightarrow> bool" where
  "f32_at_most x y \<longleftrightarrow> f32_lt x y \<or> f32_eq x y"

text \<open>The loop over the weights, from \<open>index\<close> on.\<close>

fun pick :: "nat \<Rightarrow> f32 list \<Rightarrow> f32 \<Rightarrow> nat option \<Rightarrow> sampling_error + nat" where
  "pick index [] target fallback = ok_or ZeroMass fallback"
| "pick index (w # ws) target fallback =
    (if f32_at_most w 0 then pick (Suc index) ws target fallback
     else if f32_at_most target w then Inr index
     else pick (Suc index) ws (f32_sub target w) (Some index))"

definition greedy_order :: "nat \<times> f32 \<Rightarrow> nat \<times> f32 \<Rightarrow> ordering" where
  "greedy_order = (\<lambda>(left_index, left) (right_index, right).
    then_with (cmp (f32_total_key left) (f32_total_key right)) (cmp right_index left_index))"

definition sample_weights :: "libm \<Rightarrow> f32 list \<Rightarrow> distribution_kind \<Rightarrow> f32 \<Rightarrow> nat option \<Rightarrow> sampling_error + f32 list" where
  "sample_weights lm values kind temperature top_k =
    rbind (case kind of
        Logits \<Rightarrow> Inr (logits_to_weights lm values temperature)
      | Probabilities \<Rightarrow> probabilities_to_weights lm values temperature) (\<lambda>weights.
    case top_k of
      None \<Rightarrow> Inr weights
    | Some k \<Rightarrow> keep_top_k weights (min k (length weights)))"

definition sample_token ::
    "libm \<Rightarrow> f32 list \<Rightarrow> distribution_kind \<Rightarrow> sampling_mode \<Rightarrow> nat \<Rightarrow> sampling_error + nat" where
  "sample_token lm values kind mode step =
    (if values = [] then Inl EmptyDistribution
     else if list_ex (\<lambda>v. \<not> f32_is_finite v) values then Inl NonFinite
     else
       (case mode of
         Greedy \<Rightarrow> ok_or EmptyDistribution (map_option fst (max_by greedy_order (enumerate 0 values)))
       | Stochastic temperature top_k seed \<Rightarrow>
           if \<not> f32_is_finite temperature \<or> f32_at_most temperature 0 then Inl InvalidTemperature
           else if top_k = Some 0 then Inl InvalidTopK
           else
             rbind (sample_weights lm values kind temperature top_k) (\<lambda>weights.
             (let mass = f32_sum weights in
              if \<not> f32_is_finite mass \<or> f32_at_most mass 0 then Inl ZeroMass
              else pick 0 weights (f32_mul (deterministic_unit seed step) mass) None))))"

section \<open>Inference signals\<close>

record model_inference_signals =
  mi_normalized_entropy :: f32
  mi_top_probability :: f32
  mi_top_margin :: f32

text \<open>\<open>f32::clamp\<close> to \<open>0.0 ..= 1.0\<close>, which keeps a NaN.\<close>

definition f32_clamp_unit :: "f32 \<Rightarrow> f32" where
  "f32_clamp_unit x = (if f32_lt x 0 then 0 else if f32_lt f32_one x then f32_one else x)"

definition signal_step :: "(f32 \<Rightarrow> f32) \<Rightarrow> f32 \<Rightarrow> f32 \<times> f32 \<times> f32 \<Rightarrow> f32 \<Rightarrow> f32 \<times> f32 \<times> f32" where
  "signal_step ln mass = (\<lambda>(entropy, top, second) weight.
    (let probability = f32_div weight mass;
         entropy = (if f32_lt 0 probability then f32_sub entropy (f32_mul probability (ln probability)) else entropy) in
     if f32_lt top probability then (entropy, probability, top)
     else if f32_lt second probability then (entropy, top, probability)
     else (entropy, top, second)))"

definition model_inference_signals :: "libm \<Rightarrow> (f32 \<Rightarrow> f32) \<Rightarrow> f32 list \<Rightarrow> sampling_error + model_inference_signals" where
  "model_inference_signals lm ln logits =
    (if logits = [] then Inl EmptyDistribution
     else if list_ex (\<lambda>v. \<not> f32_is_finite v) logits then Inl NonFinite
     else
       (let mx = foldl f32_max f32_neg_infinity logits;
            weights = map (\<lambda>v. lm_exp lm (f32_sub v mx)) logits;
            mass = f32_sum weights in
        if \<not> f32_is_finite mass \<or> f32_at_most mass 0 then Inl ZeroMass
        else
          (let (entropy, top, second) = foldl (signal_step ln mass) (0, 0, 0) weights;
               normalized_entropy = (if length logits \<le> 1 then 0
                 else f32_clamp_unit (f32_div entropy (ln (f32_of_int (int (length logits)))))) in
           Inr \<lparr>mi_normalized_entropy = normalized_entropy, mi_top_probability = f32_clamp_unit top,
             mi_top_margin = f32_clamp_unit (f32_sub top second)\<rparr>)))"

section \<open>The distribution of the next token\<close>

fun check_token_ids :: "nat \<Rightarrow> u32 list \<Rightarrow> generation_error + unit" where
  "check_token_ids vocab_size [] = Inr ()"
| "check_token_ids vocab_size (token # tokens) =
    (if vocab_size \<le> unat token then Inl (Gen_TokenIdOutOfRange token) else check_token_ids vocab_size tokens)"

definition validate_prompt_tokens :: "u32 list \<Rightarrow> nat \<Rightarrow> nat \<Rightarrow> generation_error + unit" where
  "validate_prompt_tokens prompt_tokens vocab_size context_limit =
    (if prompt_tokens = [] then Inl Gen_EmptyPrompt
     else if context_limit = 0 then Inl Gen_InvalidContextLimit
     else check_token_ids vocab_size prompt_tokens)"

text \<open>\<open>%\<close> panics for a divisor of zero.\<close>

definition last_distribution :: "tensor \<Rightarrow> nat \<Rightarrow> (generation_error, f32 list) run" where
  "last_distribution t vocab_size =
    (if length (tn_data t) < vocab_size then pfail Gen_InvalidDistributionShape
     else if vocab_size = 0 then None
     else if length (tn_data t) mod vocab_size \<noteq> 0 then pfail Gen_InvalidDistributionShape
     else pret (drop (length (tn_data t) - vocab_size) (tn_data t)))"

definition token_window :: "u32 list \<Rightarrow> nat \<Rightarrow> u32 list" where
  "token_window tokens context_limit = drop (length tokens - context_limit) tokens"

definition distribution_of ::
    "graph_generator \<Rightarrow> resolver \<Rightarrow> u32 list \<Rightarrow> nat \<Rightarrow> (generation_error, f32 list) run" where
  "distribution_of gen resolve tokens context_limit =
    (let window = token_window tokens context_limit in
    pbind (plift (map_err Gen_Tensor (tensor_new [length window] (map (\<lambda>t. f32_of_int (uint t)) window)))) (\<lambda>token_tensor.
    (let inputs = bt_insert (gg_token_input gen) token_tensor (gg_static_inputs gen) in
    pbind (map_option (map_err Gen_Execution) (execute_with_resolver (gg_provider gen) (gg_graph gen) inputs resolve)) (\<lambda>outputs.
    pbind (plift (ok_or (Gen_MissingDistributionOutput (gg_distribution_output gen))
        (if gg_distribution_output gen < length outputs then Some (outputs ! gg_distribution_output gen) else None))) (\<lambda>out.
    last_distribution out (gg_vocab_size gen))))))"

definition next_distribution_with_resolver ::
    "graph_generator \<Rightarrow> resolver \<Rightarrow> u32 list \<Rightarrow> nat \<Rightarrow> (generation_error, f32 list) run" where
  "next_distribution_with_resolver gen resolve prompt_tokens context_limit =
    pbind (plift (validate_prompt_tokens prompt_tokens (gg_vocab_size gen) context_limit)) (\<lambda>_.
    distribution_of gen resolve prompt_tokens context_limit)"

section \<open>The loops\<close>

definition next_token ::
    "libm \<Rightarrow> graph_generator \<Rightarrow> resolver \<Rightarrow> generation_config \<Rightarrow> nat \<Rightarrow> u32 list \<Rightarrow> (generation_error, u32) run" where
  "next_token lm gen resolve config step all_tokens =
    pbind (distribution_of gen resolve all_tokens (cf_context_limit config)) (\<lambda>distribution.
    pbind (plift (map_err Gen_Sampling (sample_token lm distribution (cf_distribution config) (cf_sampling config) step))) (\<lambda>next.
    plift (len_u32 Gen_InvalidVocabulary next)))"

text \<open>\<open>Vec::with_capacity\<close> panics when its 4-byte elements would exceed \<open>isize::MAX\<close> bytes.\<close>

definition token_capacity :: "nat \<Rightarrow> (generation_error, unit) run" where
  "token_capacity capacity = (if 4 * int capacity < 2 ^ 63 then pret () else None)"

fun generate_loop ::
    "libm \<Rightarrow> graph_generator \<Rightarrow> resolver \<Rightarrow> generation_config \<Rightarrow> nat list \<Rightarrow> u32 list \<times> u32 list
      \<Rightarrow> (generation_error, u32 list \<times> u32 list) run" where
  "generate_loop lm gen resolve config [] state = pret state"
| "generate_loop lm gen resolve config (step # steps) state =
    pbind (next_token lm gen resolve config step (snd state)) (\<lambda>next.
    (let state = (fst state @ [next], snd state @ [next]) in
     if cf_eos_token config = Some next then pret state
     else generate_loop lm gen resolve config steps state))"

definition generate_tokens_with_resolver ::
    "libm \<Rightarrow> graph_generator \<Rightarrow> resolver \<Rightarrow> u32 list \<Rightarrow> generation_config \<Rightarrow> (generation_error, generation_result) run" where
  "generate_tokens_with_resolver lm gen resolve prompt_tokens config =
    pbind (plift (validate_prompt_tokens prompt_tokens (gg_vocab_size gen) (cf_context_limit config))) (\<lambda>_.
    pbind (token_capacity (cf_max_new_tokens config)) (\<lambda>_.
    pbind (generate_loop lm gen resolve config [0..<cf_max_new_tokens config] ([], prompt_tokens)) (\<lambda>state.
    pret \<lparr>ge_prompt_tokens = prompt_tokens, ge_generated_tokens = fst state, ge_all_tokens = snd state\<rparr>)))"

definition generate_tokens ::
    "libm \<Rightarrow> graph_generator \<Rightarrow> u32 list \<Rightarrow> generation_config \<Rightarrow> (generation_error, generation_result) run" where
  "generate_tokens lm gen prompt_tokens config = generate_tokens_with_resolver lm gen empty_resolver prompt_tokens config"

text \<open>The callback sees the new token and all generated ones, and changes the world.\<close>

type_synonym 'w on_token = "u32 \<Rightarrow> u32 list \<Rightarrow> 'w \<Rightarrow> generation_control \<times> 'w"

fun streaming_loop ::
    "libm \<Rightarrow> graph_generator \<Rightarrow> resolver \<Rightarrow> generation_config \<Rightarrow> 'w on_token \<Rightarrow> nat list \<Rightarrow> (u32 list \<times> u32 list) \<times> 'w
      \<Rightarrow> (generation_error, (u32 list \<times> u32 list) \<times> generation_finish_reason \<times> 'w) run" where
  "streaming_loop lm gen resolve config on_token [] state = pret (fst state, FinishMaxTokens, snd state)"
| "streaming_loop lm gen resolve config on_token (step # steps) state =
    pbind (next_token lm gen resolve config step (snd (fst state))) (\<lambda>next.
    (let tokens = (fst (fst state) @ [next], snd (fst state) @ [next]);
         (control, world) = on_token next (fst tokens) (snd state) in
     if cf_eos_token config = Some next then pret (tokens, FinishEos, world)
     else if control = Cancel then pret (tokens, FinishCancelled, world)
     else streaming_loop lm gen resolve config on_token steps (tokens, world)))"

definition generate_tokens_with_resolver_streaming ::
    "libm \<Rightarrow> graph_generator \<Rightarrow> resolver \<Rightarrow> u32 list \<Rightarrow> generation_config \<Rightarrow> 'w on_token \<Rightarrow> 'w
      \<Rightarrow> (generation_error, streaming_generation_result \<times> 'w) run" where
  "generate_tokens_with_resolver_streaming lm gen resolve prompt_tokens config on_token world =
    pbind (plift (validate_prompt_tokens prompt_tokens (gg_vocab_size gen) (cf_context_limit config))) (\<lambda>_.
    pbind (token_capacity (cf_max_new_tokens config)) (\<lambda>_.
    pbind (streaming_loop lm gen resolve config on_token [0..<cf_max_new_tokens config] (([], prompt_tokens), world)) (\<lambda>(tokens, reason, world).
    pret (\<lparr>sg_generation = \<lparr>ge_prompt_tokens = prompt_tokens, ge_generated_tokens = fst tokens, ge_all_tokens = snd tokens\<rparr>,
      sg_finish_reason = reason\<rparr>, world))))"

section \<open>Text\<close>

definition generate_text_with_resolver ::
    "libm \<Rightarrow> graph_generator \<Rightarrow> resolver \<Rightarrow> text_tokenizer_impl \<Rightarrow> string \<Rightarrow> bool \<Rightarrow> generation_config
      \<Rightarrow> (generation_error, generated_text) run" where
  "generate_text_with_resolver lm gen resolve tokenizer prompt add_special_tokens config =
    (if ti_vocab_size tokenizer \<noteq> gg_vocab_size gen then pfail Gen_InvalidVocabulary
     else
       pbind (map_option (map_err Gen_Tokenizer) (ti_encode_text tokenizer prompt add_special_tokens)) (\<lambda>prompt_tokens.
       (let config = (if cf_eos_token config = None then config\<lparr>cf_eos_token := ti_eos_token tokenizer\<rparr> else config) in
       pbind (generate_tokens_with_resolver lm gen resolve prompt_tokens config) (\<lambda>generated.
       pbind (map_option (map_err Gen_Tokenizer) (ti_decode_text tokenizer (ge_generated_tokens generated) True)) (\<lambda>decoded.
       pret \<lparr>gx_prompt_tokens = ge_prompt_tokens generated, gx_generated_tokens = ge_generated_tokens generated,
         gx_text = decoded\<rparr>)))))"

definition generate_text ::
    "libm \<Rightarrow> graph_generator \<Rightarrow> text_tokenizer_impl \<Rightarrow> string \<Rightarrow> bool \<Rightarrow> generation_config
      \<Rightarrow> (generation_error, generated_text) run" where
  "generate_text lm gen tokenizer prompt add_special_tokens config =
    generate_text_with_resolver lm gen empty_resolver tokenizer prompt add_special_tokens config"

section \<open>The key/value cache\<close>

record kv_layer_cache =
  kl_key :: tensor
  kl_value :: tensor

type_synonym kv_cache = "(u32, kv_layer_cache) btmap"

datatype kv_cache_error = Kv_InvalidRank | Kv_ShapeMismatch | Kv_Tensor

record prefix_cache =
  px_tokens :: "u32 list"
  px_kv :: kv_cache

definition kv_layer :: "kv_cache \<Rightarrow> u32 \<Rightarrow> kv_layer_cache option" where
  "kv_layer cache layer = bt_get cache layer"

definition validate_kv_pair :: "tensor \<Rightarrow> tensor \<Rightarrow> kv_cache_error + unit" where
  "validate_kv_pair key val =
    (if tn_shape key = [] \<or> tn_shape val = [] then Inl Kv_InvalidRank
     else if tn_shape key ! 0 \<noteq> tn_shape val ! 0 \<or> drop 1 (tn_shape key) \<noteq> drop 1 (tn_shape val) then Inl Kv_ShapeMismatch
     else Inr ())"

definition concat_sequence :: "tensor \<Rightarrow> tensor \<Rightarrow> kv_cache_error + tensor" where
  "concat_sequence left right =
    (if tn_shape left = [] \<or> tn_shape right = [] \<or> drop 1 (tn_shape left) \<noteq> drop 1 (tn_shape right) then Inl Kv_ShapeMismatch
     else
       rbind (ok_or Kv_Tensor (usize_add (tn_shape left ! 0) (tn_shape right ! 0))) (\<lambda>rows.
       rbind (ok_or Kv_Tensor (usize_add (length (tn_data left)) (length (tn_data right)))) (\<lambda>_.
       map_err (\<lambda>_. Kv_Tensor) (tensor_new ((tn_shape left)[0 := rows]) (tn_data left @ tn_data right)))))"

definition retain_last_sequence :: "tensor \<Rightarrow> nat \<Rightarrow> (kv_cache_error, tensor) run" where
  "retain_last_sequence t max_tokens =
    (if tn_shape t = [] then pfail Kv_InvalidRank
     else if tn_shape t ! 0 \<le> max_tokens then pret t
     else
       (let row_width = length (tn_data t) div tn_shape t ! 0 in
       pbind (plift (ok_or Kv_Tensor (usize_mul (tn_shape t ! 0 - max_tokens) row_width))) (\<lambda>start.
       pbind (vec_slice (tn_data t) start (length (tn_data t))) (\<lambda>data.
       plift (map_err (\<lambda>_. Kv_Tensor) (tensor_new ((tn_shape t)[0 := max_tokens]) data))))))"

text \<open>Methods on \<open>&mut self\<close> keep what they changed before an error.\<close>

definition kv_append :: "u32 \<Rightarrow> tensor \<Rightarrow> tensor \<Rightarrow> (kv_cache, kv_cache_error, unit) op" where
  "kv_append layer key val cache =
    (case validate_kv_pair key val of
      Inl e \<Rightarrow> (Inl e, cache)
    | Inr _ \<Rightarrow>
        (case bt_get cache layer of
          None \<Rightarrow> (Inr (), bt_insert layer \<lparr>kl_key = key, kl_value = val\<rparr> cache)
        | Some existing \<Rightarrow>
            (case concat_sequence (kl_key existing) key of
              Inl e \<Rightarrow> (Inl e, cache)
            | Inr key' \<Rightarrow>
                (let existing = existing\<lparr>kl_key := key'\<rparr>; cache = bt_insert layer existing cache in
                 case concat_sequence (kl_value existing) val of
                   Inl e \<Rightarrow> (Inl e, cache)
                 | Inr val' \<Rightarrow> (Inr (), bt_insert layer (existing\<lparr>kl_value := val'\<rparr>) cache)))))"

text \<open>\<open>values_mut\<close> in the order of the layers; the layers before a failure are already truncated.\<close>

fun kv_truncate_left :: "nat \<Rightarrow> kv_cache \<Rightarrow> ((kv_cache_error + unit) \<times> kv_cache) option" where
  "kv_truncate_left max_tokens [] = Some (Inr (), [])"
| "kv_truncate_left max_tokens ((layer, c) # cache) =
    (case retain_last_sequence (kl_key c) max_tokens of
      None \<Rightarrow> None
    | Some (Inl e) \<Rightarrow> Some (Inl e, (layer, c) # cache)
    | Some (Inr key) \<Rightarrow>
        (let c = c\<lparr>kl_key := key\<rparr> in
         case retain_last_sequence (kl_value c) max_tokens of
           None \<Rightarrow> None
         | Some (Inl e) \<Rightarrow> Some (Inl e, (layer, c) # cache)
         | Some (Inr val) \<Rightarrow>
             map_option (\<lambda>(r, rest). (r, (layer, c\<lparr>kl_value := val\<rparr>) # rest)) (kv_truncate_left max_tokens cache)))"

definition kv_clear :: "kv_cache \<Rightarrow> kv_cache" where
  "kv_clear cache = []"

definition reusable_prefix_len :: "prefix_cache \<Rightarrow> u32 list \<Rightarrow> nat" where
  "reusable_prefix_len cache tokens = length (takeWhile (\<lambda>(left, right). left = right) (zip (px_tokens cache) tokens))"

end
