(* ===== verification/Generation_Correct.thy ===== *)
theory Generation_Correct
  imports Generation
begin

text \<open>
  Sampling returns the index that its arguments select and fails only for a reason that they show; with every
  provider that keeps its contract generation panics only in a call of which the contract says so, fails only
  with the true error of a step, stays within its limits and stops at the end token; and streaming follows generation.
\<close>

section \<open>Sampling\<close>

lemma max_by_greatest:
  assumes "max_by (\<lambda>x y. cmp (g x) (g y)) xs = Some m"
  shows "m \<in> set xs \<and> (\<forall>x \<in> set xs. g x \<le> g m)"
proof -
  have "foldl (\<lambda>best y. if cmp (g best) (g y) = Greater then best else y) x ys \<in> set (x # ys)
    \<and> (\<forall>z \<in> set (x # ys). g z \<le> g (foldl (\<lambda>best y. if cmp (g best) (g y) = Greater then best else y) x ys))" for x ys
  proof (induction ys arbitrary: x)
    case (Cons y ys)
    show ?case using Cons.IH [of x] Cons.IH [of y] by (auto simp: cmp_simps not_less)
  qed simp
  with assms show ?thesis by (auto simp: max_by_def split: list.splits)
qed

text \<open>The element of the greatest value, the first of several.\<close>

definition first_greatest :: "f32 list \<Rightarrow> nat \<Rightarrow> bool" where
  "first_greatest values i \<longleftrightarrow> i < length values
    \<and> (\<forall>j < length values. f32_total_key (values ! j) \<le> f32_total_key (values ! i))
    \<and> (\<forall>j < i. f32_total_key (values ! j) < f32_total_key (values ! i))"

lemma greedy_order_key: "greedy_order p q = cmp (f32_total_key (snd p), - int (fst p)) (f32_total_key (snd q), - int (fst q))"
  by (auto simp: greedy_order_def cmp_pair split: prod.split) (auto simp: cmp_def then_with_def)

lemma greedy_first_greatest:
  assumes "map_option fst (max_by greedy_order (enumerate 0 values)) = Some i"
  shows "first_greatest values i"
proof -
  obtain p where p: "max_by greedy_order (enumerate 0 values) = Some p" "i = fst p" using assms by auto
  then have "max_by (\<lambda>x y. cmp (f32_total_key (snd x), - int (fst x)) (f32_total_key (snd y), - int (fst y))) (enumerate 0 values) = Some p"
    by (simp add: greedy_order_key [abs_def])
  note best = max_by_greatest [OF this]
  then have i: "i < length values" "snd p = values ! i"
    using p(2) by (auto simp: in_set_enumerate_eq)
  have "(j, values ! j) \<in> set (enumerate 0 values)" if "j < length values" for j
    using that by (simp add: in_set_enumerate_eq)
  with best have least: "(f32_total_key (values ! j), - int j) \<le> (f32_total_key (values ! i), - int i)" if "j < length values" for j
    using that i(2) p(2) by fastforce
  have "f32_total_key (values ! j) \<le> f32_total_key (values ! i)" if "j < length values" for j
    using least [OF that] by (auto simp: less_eq_prod_def)
  moreover have "f32_total_key (values ! j) < f32_total_key (values ! i)" if "j < i" for j
    using least [of j] that i(1) by (auto simp: less_eq_prod_def)
  ultimately show ?thesis using i(1) by (simp add: first_greatest_def)
qed

text \<open>Fewer than \<open>k\<close> elements come before \<open>i\<close> by weight, then by index.\<close>

definition among_top :: "f32 list \<Rightarrow> nat \<Rightarrow> nat \<Rightarrow> bool" where
  "among_top weights k i \<longleftrightarrow> card {j. j < length weights \<and> weight_order weights j i = Less} < k"

lemma weight_order_key: "weight_order ws i j = cmp (- f32_total_key (ws ! i), i) (- f32_total_key (ws ! j), j)"
  by (auto simp: weight_order_def cmp_pair) (auto simp: cmp_def)

lemma length_zero_others: "length (foldl (\<lambda>ws index. ws[index := 0]) ws js) = length ws"
  by (induction js arbitrary: ws) auto

lemma zero_others:
  "j < length ws \<Longrightarrow> foldl (\<lambda>ws index. ws[index := 0]) ws js ! j = (if j \<in> set js then 0 else ws ! j)"
  by (induction js arbitrary: ws) (auto simp: nth_list_update)

lemma keep_top_k_eq:
  assumes "0 < k"
  shows "keep_top_k ws k = Inr (map (\<lambda>i. if among_top ws k i then ws ! i else 0) [0..<length ws])"
proof -
  define f where "f = (\<lambda>i. (- f32_total_key (ws ! i), i))"
  define indices where "indices = sort_key f [0..<length ws]"
  have order: "weight_order ws = (\<lambda>i j. cmp (f i) (f j))" by (intro ext) (simp add: weight_order_key f_def)
  let ?ws' = "foldl (\<lambda>ws index. ws[index := 0]) ws (drop k indices)"
  have ws': "keep_top_k ws k = Inr ?ws'"
    using assms by (simp add: keep_top_k_def order sort_by_key indices_def Let_def)
  have inj: "f i = f j \<longleftrightarrow> i = j" for i j by (auto simp: f_def)
  have dist: "distinct indices" and len: "length indices = length ws" and sort: "sorted (map f indices)"
    and mem: "set indices = {..<length ws}"
    by (auto simp: indices_def)
  have rank: "{j. j < length ws \<and> weight_order ws j (indices ! n) = Less} = set (take n indices)" if n: "n < length ws" for n
  proof -
    have less: "f (indices ! m) < f (indices ! n) \<longleftrightarrow> m < n" if m: "m < length ws" for m
    proof
      assume "f (indices ! m) < f (indices ! n)"
      show "m < n"
      proof (rule ccontr)
        assume "\<not> m < n"
        then have "f (indices ! n) \<le> f (indices ! m)" using sorted_nth_mono [OF sort, of n m] m len by simp
        with \<open>f (indices ! m) < f (indices ! n)\<close> show False by simp
      qed
    next
      assume "m < n"
      then have "f (indices ! m) \<le> f (indices ! n)" using sorted_nth_mono [OF sort, of m n] n len by simp
      moreover have "f (indices ! m) \<noteq> f (indices ! n)" using \<open>m < n\<close> n len dist inj by (simp add: nth_eq_iff_index_eq)
      ultimately show "f (indices ! m) < f (indices ! n)" by simp
    qed
    have "{j \<in> set indices. f j < f (indices ! n)} = set (take n indices)"
    proof (intro set_eqI iffI)
      fix j assume "j \<in> {j \<in> set indices. f j < f (indices ! n)}"
      then obtain m where m: "m < length ws" "indices ! m = j" "f (indices ! m) < f (indices ! n)"
        using len by (auto simp: in_set_conv_nth)
      with less [OF m(1)] n len show "j \<in> set (take n indices)" by (auto simp: in_set_conv_nth)
    next
      fix j assume "j \<in> set (take n indices)"
      then obtain m where m: "m < n" "indices ! m = j" by (auto simp: in_set_conv_nth)
      with less [of m] n len show "j \<in> {j \<in> set indices. f j < f (indices ! n)}" by auto
    qed
    then show ?thesis by (simp add: order cmp_simps mem)
  qed
  have top: "among_top ws k (indices ! n) \<longleftrightarrow> n < k" if "n < length ws" for n
    using rank [OF that] that dist len by (simp add: among_top_def distinct_card)
  have "?ws' ! i = (if among_top ws k i then ws ! i else 0)" if i: "i < length ws" for i
  proof -
    from i mem obtain n where n: "n < length ws" "indices ! n = i" by (metis in_set_conv_nth len lessThan_iff)
    have "i \<in> set (drop k indices) \<longleftrightarrow> k \<le> n"
    proof
      assume "i \<in> set (drop k indices)"
      then obtain m where "m < length ws - k" "indices ! (k + m) = i" using len by (auto simp: in_set_conv_nth)
      with n dist len show "k \<le> n" by (auto simp: nth_eq_iff_index_eq)
    next
      assume "k \<le> n"
      with n len show "i \<in> set (drop k indices)" by (auto simp: in_set_conv_nth intro!: exI [of _ "n - k"])
    qed
    with top [OF n(1)] n(2) i show ?thesis by (auto simp: zero_others)
  qed
  then show ?thesis unfolding ws' by (auto intro!: nth_equalityI simp: length_zero_others)
qed

lemma among_top_min: "i < length ws \<Longrightarrow> among_top ws (min k (length ws)) i \<longleftrightarrow> among_top ws k i"
proof -
  assume i: "i < length ws"
  have "weight_order ws i i \<noteq> Less" by (simp add: weight_order_key cmp_simps)
  with i have "{j. j < length ws \<and> weight_order ws j i = Less} \<subset> {..<length ws}" by auto
  from psubset_card_mono [OF _ this] show ?thesis by (auto simp: among_top_def)
qed

text \<open>The weights that take part: with a top \<open>k\<close>, all others are zero.\<close>

definition kept_weights :: "f32 list \<Rightarrow> nat option \<Rightarrow> f32 list" where
  "kept_weights raw top_k =
    (case top_k of None \<Rightarrow> raw | Some k \<Rightarrow> map (\<lambda>i. if among_top raw k i then raw ! i else 0) [0..<length raw])"

lemma length_kept_weights [simp]: "length (kept_weights raw top_k) = length raw"
  by (simp add: kept_weights_def split: option.split)

lemma keep_top_k_kept: "raw \<noteq> [] \<Longrightarrow> 0 < k \<Longrightarrow> keep_top_k raw (min k (length raw)) = Inr (kept_weights raw (Some k))"
  by (subst keep_top_k_eq) (auto simp: kept_weights_def among_top_min)

section \<open>Weights\<close>

text \<open>The weights of a distribution: exponentials of the distances from a greatest logit, or powers of probabilities.\<close>

definition weights_of :: "libm \<Rightarrow> f32 list \<Rightarrow> distribution_kind \<Rightarrow> f32 \<Rightarrow> f32 list \<Rightarrow> bool" where
  "weights_of lm values kind temperature raw \<longleftrightarrow>
    (case kind of
      Logits \<Rightarrow> \<exists>mx \<in> set values. (\<forall>v \<in> set values. \<not> f32_lt mx v)
        \<and> raw = map (\<lambda>v. lm_exp lm (f32_div (f32_sub v mx) temperature)) values
    | Probabilities \<Rightarrow> (\<forall>v \<in> set values. \<not> f32_lt v 0)
        \<and> raw = map (\<lambda>v. lm_powf lm v (f32_div f32_one temperature)) values)"

lemma finite_mag: "f32_is_finite x \<Longrightarrow> f32_mag x < 2 ^ 277"
proof -
  assume fin: "f32_is_finite x"
  have frac: "0 \<le> f32_frac x" "f32_frac x < 2 ^ 23" by (simp_all add: f32_frac_def)
  have "0 \<le> f32_exp x" "f32_exp x < 256" by (simp_all add: f32_exp_def)
  moreover have "f32_exp x \<noteq> 255" using fin by (simp add: f32_is_finite_def)
  ultimately have ex: "0 \<le> f32_exp x" "f32_exp x \<le> 254" by linarith+
  show ?thesis
  proof (cases "f32_exp x = 0")
    case True
    with frac show ?thesis by (simp add: f32_mag_def)
  next
    case False
    have "(2 ^ 23 + f32_frac x) * 2 ^ nat (f32_exp x - 1) \<le> (2 ^ 23 + f32_frac x) * 2 ^ 253"
      using ex frac by (intro mult_left_mono power_increasing) auto
    also have "\<dots> < 2 ^ 24 * 2 ^ 253" using frac by simp
    finally show ?thesis using False by (simp add: f32_mag_def)
  qed
qed

lemma finite_above_neg_infinity: "f32_is_finite x \<Longrightarrow> f32_max f32_neg_infinity x = x"
proof -
  have inf: "\<not> f32_is_nan f32_neg_infinity" "f32_units f32_neg_infinity = - (2 ^ 277)" by code_simp+
  assume fin: "f32_is_finite x"
  then have "\<not> f32_is_nan x" by (simp add: f32_is_finite_def f32_is_nan_def)
  moreover have "0 \<le> f32_mag x" by (simp add: f32_mag_def f32_frac_def)
  then have "- (2 ^ 277) < f32_units x" using finite_mag [OF fin] by (auto simp: f32_units_def)
  ultimately show ?thesis using inf by (simp add: f32_max_def f32_lt_def)
qed

lemma greatest_of_fold:
  assumes "\<not> f32_is_nan m" "\<forall>v \<in> set vs. \<not> f32_is_nan v"
  shows "foldl f32_max m vs \<in> insert m (set vs) \<and> (\<forall>v \<in> insert m (set vs). \<not> f32_lt (foldl f32_max m vs) v)"
proof -
  have "foldl f32_max m vs \<in> insert m (set vs) \<and> (\<forall>v \<in> insert m (set vs). f32_units v \<le> f32_units (foldl f32_max m vs))"
    using assms
  proof (induction vs arbitrary: m)
    case (Cons v vs)
    have m: "f32_max m v = m \<or> f32_max m v = v" "f32_units m \<le> f32_units (f32_max m v)" "f32_units v \<le> f32_units (f32_max m v)"
      "\<not> f32_is_nan (f32_max m v)"
      using Cons.prems by (auto simp: f32_max_def f32_lt_def)
    from Cons.IH [OF m(4)] Cons.prems m show ?case by fastforce
  qed simp
  then show ?thesis by (auto simp: f32_lt_def)
qed

lemma sample_weights_spec:
  assumes "values \<noteq> []" "\<forall>v \<in> set values. f32_is_finite v" "top_k \<noteq> Some 0"
  shows "case sample_weights lm values kind temperature top_k of
    Inl e \<Rightarrow> e = NegativeProbability \<and> kind = Probabilities \<and> (\<exists>v \<in> set values. f32_lt v 0)
  | Inr ws \<Rightarrow> \<exists>raw. weights_of lm values kind temperature raw \<and> length raw = length values \<and> ws = kept_weights raw top_k"
proof -
  have kept: "(case top_k of None \<Rightarrow> Inr raw | Some k \<Rightarrow> keep_top_k raw (min k (length raw))) = Inr (kept_weights raw top_k)"
    if "raw \<noteq> []" for raw
    using that assms(3) by (cases top_k) (simp_all add: keep_top_k_kept, simp add: kept_weights_def)
  show ?thesis
  proof (cases kind)
    case Logits
    obtain v vs where vs: "values = v # vs" using assms(1) by (cases "values") auto
    then have fold: "foldl f32_max f32_neg_infinity values = foldl f32_max v vs"
      using assms(2) by (simp add: finite_above_neg_infinity)
    have "\<forall>v \<in> set values. \<not> f32_is_nan v" using assms(2) by (auto simp: f32_is_finite_def f32_is_nan_def)
    then have "weights_of lm values Logits temperature (logits_to_weights lm values temperature)"
      using greatest_of_fold [of v vs] vs fold unfolding weights_of_def logits_to_weights_def Let_def by auto
    moreover have "length (logits_to_weights lm values temperature) = length values" by (simp add: logits_to_weights_def Let_def)
    moreover from this assms(1) have "logits_to_weights lm values temperature \<noteq> []" by fastforce
    ultimately show ?thesis using Logits kept [of "logits_to_weights lm values temperature"]
      by (auto simp: sample_weights_def)
  next
    case Probabilities
    show ?thesis
    proof (cases "list_ex (\<lambda>v. f32_lt v 0) values")
      case True
      with Probabilities show ?thesis by (simp add: sample_weights_def probabilities_to_weights_def list_ex_iff)
    next
      case False
      let ?raw = "map (\<lambda>v. lm_powf lm v (f32_div f32_one temperature)) values"
      have "weights_of lm values Probabilities temperature ?raw" using False by (simp add: weights_of_def list_ex_iff)
      with False Probabilities assms(1) kept [of ?raw] show ?thesis
        by (auto simp: sample_weights_def probabilities_to_weights_def Let_def)
    qed
  qed
qed

section \<open>Sampled tokens\<close>

lemma not_finite_iff: "\<not> f32_is_finite z \<longleftrightarrow> f32_is_nan z \<or> f32_is_inf z"
  by (auto simp: f32_is_finite_def f32_is_nan_def f32_is_inf_def)

lemma f32_nan_not_finite: "\<not> f32_is_finite f32_nan"
  by code_simp

lemma f32_add_finite:
  assumes "f32_is_finite (f32_add x y)"
  shows "f32_is_finite x \<and> f32_is_finite y"
proof (rule ccontr)
  assume "\<not> (f32_is_finite x \<and> f32_is_finite y)"
  then consider "f32_is_nan x \<or> f32_is_nan y" | "\<not> (f32_is_nan x \<or> f32_is_nan y)" "f32_is_inf x"
    | "\<not> (f32_is_nan x \<or> f32_is_nan y)" "\<not> f32_is_inf x" "f32_is_inf y"
    using not_finite_iff by blast
  then have "f32_add x y = f32_nan \<or> f32_is_inf (f32_add x y)"
    by cases (simp_all add: f32_add_def)
  with assms f32_nan_not_finite not_finite_iff show False by metis
qed

lemma f32_sum_finite: "f32_is_finite (f32_sum ws) \<Longrightarrow> w \<in> set ws \<Longrightarrow> f32_is_finite w"
proof -
  have "f32_is_finite (foldl f32_add a ws) \<Longrightarrow> f32_is_finite a \<and> (\<forall>w \<in> set ws. f32_is_finite w)" for a
  proof (induction ws arbitrary: a)
    case (Cons w ws)
    from Cons.prems have "f32_is_finite (foldl f32_add (f32_add a w) ws)" by simp
    with Cons.IH have "f32_is_finite (f32_add a w)" "\<forall>w \<in> set ws. f32_is_finite w" by blast+
    with f32_add_finite [of a w] show ?case by simp
  qed simp
  then show "f32_is_finite (f32_sum ws) \<Longrightarrow> w \<in> set ws \<Longrightarrow> f32_is_finite w"
    unfolding f32_sum_def by blast
qed

text \<open>
  The selection by a target: weights that are not positive are passed over, every other one is subtracted from the
  target until it covers what is left; when rounding leaves a rest after all of them, the last positive one is taken.
\<close>

definition left_over :: "f32 list \<Rightarrow> f32 \<Rightarrow> nat \<Rightarrow> f32" where
  "left_over ws target n = foldl (\<lambda>t w. if f32_at_most w 0 then t else f32_sub t w) target (take n ws)"

definition covers :: "f32 list \<Rightarrow> f32 \<Rightarrow> nat \<Rightarrow> bool" where
  "covers ws target i \<longleftrightarrow> \<not> f32_at_most (ws ! i) 0 \<and> f32_at_most (left_over ws target i) (ws ! i)"

definition selected :: "f32 list \<Rightarrow> f32 \<Rightarrow> nat \<Rightarrow> bool" where
  "selected ws target i \<longleftrightarrow> i < length ws \<and> \<not> f32_at_most (ws ! i) 0 \<and> (\<forall>j < i. \<not> covers ws target j)
    \<and> (covers ws target i \<or> (\<forall>j. i < j \<and> j < length ws \<longrightarrow> f32_at_most (ws ! j) 0))"

lemma left_over_simps [simp]:
  "left_over ws target 0 = target"
  "left_over (w # ws) target (Suc n) = left_over ws (if f32_at_most w 0 then target else f32_sub target w) n"
  by (simp_all add: left_over_def)

lemma covers_Suc: "covers (w # ws) target (Suc i) \<longleftrightarrow> covers ws (if f32_at_most w 0 then target else f32_sub target w) i"
  by (simp add: covers_def)

lemma selected_Suc:
  "\<not> covers (w # ws) target 0 \<Longrightarrow> selected ws (if f32_at_most w 0 then target else f32_sub target w) i \<Longrightarrow> selected (w # ws) target (Suc i)"
  by (auto simp: selected_def covers_Suc less_Suc_eq_0_disj)

lemma pick_selects:
  assumes "pick n ws target fallback = Inr i"
  shows "(\<exists>k. i = n + k \<and> selected ws target k) \<or> fallback = Some i \<and> (\<forall>w \<in> set ws. f32_at_most w 0)"
  using assms
proof (induction n ws target fallback rule: pick.induct)
  case (2 n w ws target fallback)
  consider (zero) "f32_at_most w 0" | (hit) "\<not> f32_at_most w 0" "f32_at_most target w"
    | (miss) "\<not> f32_at_most w 0" "\<not> f32_at_most target w" by blast
  then show ?case
  proof cases
    case zero
    then have "\<not> covers (w # ws) target 0" by (simp add: covers_def)
    with zero 2 selected_Suc [of w ws target] show ?thesis by fastforce
  next
    case hit
    with 2 have "i = n" by simp
    with hit show ?thesis by (intro disjI1 exI [of _ 0]) (simp add: selected_def covers_def)
  next
    case miss
    then have nc: "\<not> covers (w # ws) target 0" by (simp add: covers_def)
    from miss 2 have "(\<exists>k. i = Suc n + k \<and> selected ws (f32_sub target w) k) \<or> n = i \<and> (\<forall>w \<in> set ws. f32_at_most w 0)" by auto
    then show ?thesis
    proof
      assume "\<exists>k. i = Suc n + k \<and> selected ws (f32_sub target w) k"
      with miss selected_Suc [OF nc] show ?thesis by fastforce
    next
      assume last: "n = i \<and> (\<forall>w \<in> set ws. f32_at_most w 0)"
      then have "\<forall>j. 0 < j \<and> j < length (w # ws) \<longrightarrow> f32_at_most ((w # ws) ! j) 0"
        by (auto simp: gr0_conv_Suc)
      with miss have "selected (w # ws) target 0" unfolding selected_def by simp
      with last show ?thesis by (intro disjI1 exI [of _ 0]) simp
    qed
  qed
qed auto

lemma pick_fails: "pick n ws target fallback = Inl e \<Longrightarrow> e = ZeroMass \<and> fallback = None \<and> (\<forall>w \<in> set ws. f32_at_most w 0)"
  by (induction n ws target fallback rule: pick.induct) (auto split: if_splits)

text \<open>A finite weight that is not at most zero is positive, and the zero of a dropped weight is not.\<close>

lemma not_at_most_zero: "f32_is_finite w \<Longrightarrow> \<not> f32_at_most w 0 \<Longrightarrow> f32_lt 0 w"
proof -
  assume fin: "f32_is_finite w" and pos: "\<not> f32_at_most w 0"
  have zero: "\<not> f32_is_nan 0" by code_simp
  from fin have "\<not> f32_is_nan w" by (simp add: f32_is_finite_def f32_is_nan_def)
  with pos zero show ?thesis by (auto simp: f32_at_most_def f32_lt_def f32_eq_def)
qed

definition sampled_from :: "libm \<Rightarrow> f32 list \<Rightarrow> distribution_kind \<Rightarrow> sampling_mode \<Rightarrow> nat \<Rightarrow> nat \<Rightarrow> bool" where
  "sampled_from lm values kind mode step i \<longleftrightarrow> i < length values \<and>
    (case mode of
      Greedy \<Rightarrow> first_greatest values i
    | Stochastic temperature top_k seed \<Rightarrow>
        \<exists>raw. weights_of lm values kind temperature raw
          \<and> (let ws = kept_weights raw top_k in
              f32_lt 0 (ws ! i) \<and> selected ws (f32_mul (deterministic_unit seed step) (f32_sum ws)) i))"

text \<open>When each error of the sampler is reported.\<close>

fun sampling_justified :: "libm \<Rightarrow> f32 list \<Rightarrow> distribution_kind \<Rightarrow> sampling_mode \<Rightarrow> sampling_error \<Rightarrow> bool" where
  "sampling_justified lm values kind mode EmptyDistribution \<longleftrightarrow> values = []"
| "sampling_justified lm values kind mode NonFinite \<longleftrightarrow> (\<exists>v \<in> set values. \<not> f32_is_finite v)"
| "sampling_justified lm values kind mode NegativeProbability \<longleftrightarrow>
    mode \<noteq> Greedy \<and> kind = Probabilities \<and> (\<exists>v \<in> set values. f32_lt v 0)"
| "sampling_justified lm values kind mode ZeroMass \<longleftrightarrow>
    (\<exists>t k s raw. mode = Stochastic t k s \<and> weights_of lm values kind t raw
      \<and> (let ws = kept_weights raw k; mass = f32_sum ws in
          \<not> f32_is_finite mass \<or> f32_at_most mass 0 \<or> (\<forall>w \<in> set ws. f32_at_most w 0)))"
| "sampling_justified lm values kind mode InvalidTemperature \<longleftrightarrow>
    (\<exists>t k s. mode = Stochastic t k s \<and> (\<not> f32_is_finite t \<or> f32_at_most t 0))"
| "sampling_justified lm values kind mode InvalidTopK \<longleftrightarrow> (\<exists>t s. mode = Stochastic t (Some 0) s)"

definition sampler_answers ::
    "libm \<Rightarrow> f32 list \<Rightarrow> distribution_kind \<Rightarrow> sampling_mode \<Rightarrow> nat \<Rightarrow> sampling_error + nat \<Rightarrow> bool" where
  "sampler_answers lm values kind mode step r \<longleftrightarrow>
    (case r of Inl e \<Rightarrow> sampling_justified lm values kind mode e | Inr i \<Rightarrow> sampled_from lm values kind mode step i)"

lemma sample_token_answers: "sampler_answers lm values kind mode step (sample_token lm values kind mode step)"
proof (cases "values = [] \<or> list_ex (\<lambda>v. \<not> f32_is_finite v) values")
  case True
  then show ?thesis by (auto simp: sampler_answers_def sample_token_def list_ex_iff)
next
  case False
  then have ok: "values \<noteq> []" "\<forall>v \<in> set values. f32_is_finite v" by (auto simp: list_ex_iff)
  show ?thesis
  proof (cases mode)
    case Greedy
    obtain p where p: "max_by greedy_order (enumerate 0 values) = Some p"
      using ok(1) by (cases "values") (simp_all add: max_by_def)
    with Greedy False have "sample_token lm values kind mode step = Inr (fst p)" by (simp add: sample_token_def)
    with greedy_first_greatest [of "values" "fst p"] p Greedy show ?thesis
      by (simp add: sampler_answers_def sampled_from_def first_greatest_def)
  next
    case (Stochastic t k s)
    show ?thesis
    proof (cases "\<not> f32_is_finite t \<or> f32_at_most t 0 \<or> k = Some 0")
      case True
      with False Stochastic show ?thesis by (auto simp: sampler_answers_def sample_token_def)
    next
      case valid: False
      from sample_weights_spec [OF ok, where lm = lm and kind = kind and temperature = t and top_k = k] valid
      have spec: "case sample_weights lm values kind t k of
          Inl e \<Rightarrow> e = NegativeProbability \<and> kind = Probabilities \<and> (\<exists>v \<in> set values. f32_lt v 0)
        | Inr ws \<Rightarrow> \<exists>raw. weights_of lm values kind t raw \<and> length raw = length values \<and> ws = kept_weights raw k" by simp
      show ?thesis
      proof (cases "sample_weights lm values kind t k")
        case (Inl e)
        with spec False Stochastic valid show ?thesis by (simp add: sampler_answers_def sample_token_def)
      next
        case (Inr ws)
        with spec obtain raw where raw: "weights_of lm values kind t raw" "length raw = length values" "ws = kept_weights raw k" by auto
        show ?thesis
        proof (cases "\<not> f32_is_finite (f32_sum ws) \<or> f32_at_most (f32_sum ws) 0")
          case True
          with Inr False Stochastic valid raw show ?thesis
            by (auto simp: sampler_answers_def sample_token_def Let_def)
        next
          case mass: False
          let ?target = "f32_mul (deterministic_unit s step) (f32_sum ws)"
          have tok: "sample_token lm values kind mode step = pick 0 ws ?target None"
            using Inr False Stochastic valid mass by (simp add: sample_token_def Let_def)
          show ?thesis
          proof (cases "pick 0 ws ?target None")
            case (Inl e)
            from pick_fails [OF Inl] raw Stochastic tok Inl show ?thesis
              by (auto simp: sampler_answers_def Let_def)
          next
            case (Inr i)
            from pick_selects [OF Inr] have sel: "selected ws ?target i" by simp
            then have i: "i < length ws" "\<not> f32_at_most (ws ! i) 0" by (simp_all add: selected_def)
            then have "f32_lt 0 (ws ! i)" using mass f32_sum_finite [of ws "ws ! i"] not_at_most_zero by simp
            with sel i raw Stochastic tok Inr show ?thesis
              by (auto simp: sampler_answers_def sampled_from_def Let_def)
          qed
        qed
      qed
    qed
  qed
qed

section \<open>Generation\<close>

text \<open>
  What the graph is run on: the static inputs and a vector of the last tokens, at most \<open>limit\<close> of them. The
  distribution of the next token is the last row of the vocabulary's size in the output of the distribution.
\<close>

definition token_tensor :: "nat \<Rightarrow> u32 list \<Rightarrow> tensor" where
  "token_tensor limit tokens =
    (let latest = rev (take limit (rev tokens)) in \<lparr>tn_shape = [length latest], tn_data = map (\<lambda>t. f32_of_int (uint t)) latest\<rparr>)"

definition graph_inputs :: "graph_generator \<Rightarrow> nat \<Rightarrow> u32 list \<Rightarrow> (value_id, tensor) btmap" where
  "graph_inputs gen limit tokens = bt_insert (gg_token_input gen) (token_tensor limit tokens) (gg_static_inputs gen)"

definition computed :: "graph_generator \<Rightarrow> resolver \<Rightarrow> nat \<Rightarrow> u32 list \<Rightarrow> tensor list \<Rightarrow> bool" where
  "computed gen resolve limit tokens ts \<longleftrightarrow>
    execute_with_resolver (gg_provider gen) (gg_graph gen) (graph_inputs gen limit tokens) resolve = Some (Inr ts)"

definition distribution_spec :: "graph_generator \<Rightarrow> resolver \<Rightarrow> nat \<Rightarrow> u32 list \<Rightarrow> f32 list \<Rightarrow> bool" where
  "distribution_spec gen resolve limit tokens d \<longleftrightarrow>
    (\<exists>ts. computed gen resolve limit tokens ts \<and> gg_distribution_output gen < length ts
      \<and> (\<exists>earlier. tn_data (ts ! gg_distribution_output gen) = earlier @ d \<and> gg_vocab_size gen dvd length earlier)
      \<and> length d = gg_vocab_size gen)"

text \<open>When each error of one step is reported, which samples the token after \<open>tokens\<close>.\<close>

fun step_justified ::
    "libm \<Rightarrow> graph_generator \<Rightarrow> resolver \<Rightarrow> generation_config \<Rightarrow> nat \<Rightarrow> u32 list \<Rightarrow> generation_error \<Rightarrow> bool" where
  "step_justified lm gen resolve config step tokens (Gen_Execution e) \<longleftrightarrow>
    justified (gg_provider gen) (gg_graph gen) (graph_inputs gen (cf_context_limit config) tokens) resolve e"
| "step_justified lm gen resolve config step tokens (Gen_MissingDistributionOutput n) \<longleftrightarrow>
    n = gg_distribution_output gen
    \<and> (\<exists>ts. computed gen resolve (cf_context_limit config) tokens ts \<and> length ts \<le> n)"
| "step_justified lm gen resolve config step tokens Gen_InvalidDistributionShape \<longleftrightarrow>
    (\<exists>ts. computed gen resolve (cf_context_limit config) tokens ts \<and> gg_distribution_output gen < length ts
      \<and> (let n = length (tn_data (ts ! gg_distribution_output gen)) in n < gg_vocab_size gen \<or> \<not> gg_vocab_size gen dvd n))"
| "step_justified lm gen resolve config step tokens (Gen_Sampling e) \<longleftrightarrow>
    (\<exists>d. distribution_spec gen resolve (cf_context_limit config) tokens d
      \<and> sampling_justified lm d (cf_distribution config) (cf_sampling config) e)"
| "step_justified lm gen resolve config step tokens Gen_InvalidVocabulary \<longleftrightarrow>
    (\<exists>d i. distribution_spec gen resolve (cf_context_limit config) tokens d
      \<and> sampled_from lm d (cf_distribution config) (cf_sampling config) step i \<and> 2 ^ 32 \<le> i)"
| "step_justified lm gen resolve config step tokens _ \<longleftrightarrow> False"

text \<open>The prompt errors.\<close>

fun prompt_justified :: "graph_generator \<Rightarrow> u32 list \<Rightarrow> nat \<Rightarrow> generation_error \<Rightarrow> bool" where
  "prompt_justified gen prompt limit Gen_EmptyPrompt \<longleftrightarrow> prompt = []"
| "prompt_justified gen prompt limit Gen_InvalidContextLimit \<longleftrightarrow> limit = 0"
| "prompt_justified gen prompt limit (Gen_TokenIdOutOfRange t) \<longleftrightarrow> t \<in> set prompt \<and> gg_vocab_size gen \<le> unat t"
| "prompt_justified gen prompt limit _ \<longleftrightarrow> False"

lemma check_token_ids_cases:
  "case check_token_ids n ts of Inl e \<Rightarrow> \<exists>t \<in> set ts. e = Gen_TokenIdOutOfRange t \<and> n \<le> unat t | Inr _ \<Rightarrow> \<forall>t \<in> set ts. unat t < n"
  by (induction n ts rule: check_token_ids.induct) (auto split: sum.splits)

lemma validate_prompt_cases:
  "case validate_prompt_tokens prompt (gg_vocab_size gen) limit of
    Inl e \<Rightarrow> prompt_justified gen prompt limit e
  | Inr _ \<Rightarrow> prompt \<noteq> [] \<and> limit \<noteq> 0 \<and> (\<forall>t \<in> set prompt. unat t < gg_vocab_size gen)"
  using check_token_ids_cases [of prompt "gg_vocab_size gen"]
  by (auto simp: validate_prompt_tokens_def split: sum.splits)

text \<open>
  \<open>new\<close> is a run of the loop from step \<open>start\<close> on after the tokens \<open>before\<close>: every token is sampled from the
  distribution that the graph computes for the tokens before it, and only the last may be the end token. It is
  pending while fewer than \<open>n\<close> tokens are generated and the end token is not among them.
\<close>

definition sampled_run ::
    "libm \<Rightarrow> graph_generator \<Rightarrow> resolver \<Rightarrow> generation_config \<Rightarrow> nat \<Rightarrow> u32 list \<Rightarrow> u32 list \<Rightarrow> bool" where
  "sampled_run lm gen resolve config start before new \<longleftrightarrow>
    (\<forall>i < length new. unat (new ! i) < gg_vocab_size gen
      \<and> (\<exists>d. distribution_spec gen resolve (cf_context_limit config) (before @ take i new) d
          \<and> sampled_from lm d (cf_distribution config) (cf_sampling config) (start + i) (unat (new ! i))))
    \<and> (\<forall>t \<in> set (butlast new). cf_eos_token config \<noteq> Some t)"

definition stops_by :: "generation_config \<Rightarrow> nat \<Rightarrow> u32 list \<Rightarrow> bool" where
  "stops_by config n new \<longleftrightarrow> length new = n \<or> length new < n \<and> new \<noteq> [] \<and> cf_eos_token config = Some (last new)"

definition pending ::
    "libm \<Rightarrow> graph_generator \<Rightarrow> resolver \<Rightarrow> generation_config \<Rightarrow> nat \<Rightarrow> u32 list \<Rightarrow> nat \<Rightarrow> u32 list \<Rightarrow> bool" where
  "pending lm gen resolve config start before n new \<longleftrightarrow> sampled_run lm gen resolve config start before new
    \<and> length new < n \<and> (\<forall>t \<in> set new. cf_eos_token config \<noteq> Some t)"

lemma sampled_run_Nil [simp]: "sampled_run lm gen resolve config start before []"
  by (simp add: sampled_run_def)

lemma sampled_run_Cons:
  assumes t: "sampled_run lm gen resolve config start before [t]"
    and rest: "new = [] \<or> cf_eos_token config \<noteq> Some t \<and> sampled_run lm gen resolve config (Suc start) (before @ [t]) new"
  shows "sampled_run lm gen resolve config start before (t # new)"
proof (cases "new = []")
  case False
  with rest have rest: "sampled_run lm gen resolve config (Suc start) (before @ [t]) new" "cf_eos_token config \<noteq> Some t" by auto
  with t False show ?thesis by (auto simp: sampled_run_def nth_Cons' less_Suc_eq_0_disj)
qed (use t in simp)

lemma pending_Cons:
  assumes "sampled_run lm gen resolve config start before [t]" "cf_eos_token config \<noteq> Some t"
    "pending lm gen resolve config (Suc start) (before @ [t]) n new"
  shows "pending lm gen resolve config start before (Suc n) (t # new)"
  using assms by (auto simp: pending_def intro!: sampled_run_Cons)

lemma token_tensor_new:
  assumes "int limit < usize_bound"
  shows "tensor_new [length (token_window tokens limit)] (map (\<lambda>t. f32_of_int (uint t)) (token_window tokens limit))
      = Inr (token_tensor limit tokens)"
    and "tensor_ok (token_tensor limit tokens)"
proof -
  let ?window = "token_window tokens limit"
  let ?data = "map (\<lambda>t. f32_of_int (uint t)) ?window"
  have "length ?window \<le> limit" by (simp add: token_window_def)
  then have "int (length ?window) < usize_bound" using assms by linarith
  then have ok: "element_count_usize [length ?window] = Inr (length ?data)"
    by (simp add: element_count_usize_def usize_mul_def)
  have "token_tensor limit tokens = \<lparr>tn_shape = [length ?window], tn_data = ?data\<rparr>"
    by (simp add: token_tensor_def token_window_def rev_take Let_def)
  with ok show "tensor_new [length ?window] ?data = Inr (token_tensor limit tokens)" "tensor_ok (token_tensor limit tokens)"
    by (simp_all add: tensor_new_def tensor_ok_def)
qed

lemma distribution_of_eq:
  assumes "int limit < usize_bound"
  shows "distribution_of gen resolve tokens limit =
    pbind (map_option (map_err Gen_Execution)
      (execute_with_resolver (gg_provider gen) (gg_graph gen) (graph_inputs gen limit tokens) resolve)) (\<lambda>outputs.
    pbind (plift (ok_or (Gen_MissingDistributionOutput (gg_distribution_output gen))
        (if gg_distribution_output gen < length outputs then Some (outputs ! gg_distribution_output gen) else None))) (\<lambda>out.
    last_distribution out (gg_vocab_size gen)))"
  unfolding distribution_of_def Let_def token_tensor_new(1) [OF assms] graph_inputs_def map_err_simps pbind_plift by simp

text \<open>The last row of an output, when its size is a multiple of that of the vocabulary.\<close>

lemma last_distribution_outcome:
  assumes "0 < n"
  shows "outcome False
    (\<lambda>e. e = Gen_InvalidDistributionShape \<and> (length (tn_data t) < n \<or> \<not> n dvd length (tn_data t)))
    (\<lambda>d. \<exists>earlier. tn_data t = earlier @ d \<and> n dvd length earlier \<and> length d = n) (last_distribution t n)"
proof (cases "length (tn_data t) < n \<or> \<not> n dvd length (tn_data t)")
  case True
  with assms show ?thesis by (auto simp: last_distribution_def dvd_eq_mod_eq_0)
next
  case False
  let ?k = "length (tn_data t) - n"
  have "last_distribution t n = pret (drop ?k (tn_data t))"
    using False assms by (simp add: last_distribution_def dvd_eq_mod_eq_0)
  moreover have "n dvd length (take ?k (tn_data t))" "length (drop ?k (tn_data t)) = n"
    using False by simp_all
  ultimately show ?thesis by (auto intro!: exI [of _ "take ?k (tn_data t)"])
qed

lemma outcome_weaken:
  "outcome N E P m \<Longrightarrow> (N \<Longrightarrow> N') \<Longrightarrow> (\<And>e. E e \<Longrightarrow> E' e) \<Longrightarrow> (\<And>a. P a \<Longrightarrow> P' a) \<Longrightarrow> outcome N' E' P' m"
  by (cases m rule: run_cases) auto

context tensor_provider
begin

text \<open>The graph of one step makes a call that panics.\<close>

abbreviation (input) step_overruns :: "graph_generator \<Rightarrow> resolver \<Rightarrow> generation_config \<Rightarrow> u32 list \<Rightarrow> bool" where
  "step_overruns gen resolve config tokens \<equiv>
    overrun run panics (gg_graph gen) (graph_inputs gen (cf_context_limit config) tokens) resolve"

lemma distribution_of_safe:
  assumes "gg_provider gen = run" "0 < gg_vocab_size gen" "\<forall>t \<in> snd ` set (gg_static_inputs gen). tensor_ok t"
    "\<forall>v t. resolve v = Inr (Some t) \<longrightarrow> tensor_ok t" "int (cf_context_limit config) < usize_bound"
  shows "outcome (step_overruns gen resolve config tokens) (step_justified lm gen resolve config step tokens)
    (distribution_spec gen resolve (cf_context_limit config) tokens) (distribution_of gen resolve tokens (cf_context_limit config))"
proof -
  let ?limit = "cf_context_limit config" and ?o = "gg_distribution_output gen"
  note eq = distribution_of_eq [OF assms(5), where gen = gen and resolve = resolve and tokens = tokens]
  have inputs: "\<forall>t \<in> snd ` set (graph_inputs gen ?limit tokens). tensor_ok t"
    using assms(3) token_tensor_new(2) [OF assms(5)] set_bt_insert [of "gg_token_input gen" "token_tensor ?limit tokens" "gg_static_inputs gen"]
    by (auto simp: graph_inputs_def)
  note safe = execution_safe(1) [OF inputs assms(4), of "gg_graph gen"]
  show ?thesis
  proof (cases "execute_with_resolver run (gg_graph gen) (graph_inputs gen ?limit tokens) resolve" rule: run_cases)
    case Panic
    with safe show ?thesis unfolding eq assms(1) by simp
  next
    case (Err e)
    with safe show ?thesis unfolding eq assms(1) by (simp add: assms(1))
  next
    case (Ok ts)
    then have ts: "computed gen resolve ?limit tokens ts" using assms(1) by (simp add: computed_def)
    show ?thesis
    proof (cases "?o < length ts")
      case False
      with Ok ts show ?thesis unfolding eq assms(1) by (auto simp: ok_or_def plift_def)
    next
      case True
      have "outcome (step_overruns gen resolve config tokens) (step_justified lm gen resolve config step tokens)
        (distribution_spec gen resolve ?limit tokens) (last_distribution (ts ! ?o) (gg_vocab_size gen))"
        by (rule outcome_weaken [OF last_distribution_outcome [OF assms(2)]])
          (use ts True in \<open>auto simp: distribution_spec_def Let_def\<close>)
      with Ok True show ?thesis unfolding eq assms(1) by (simp add: ok_or_def plift_def)
    qed
  qed
qed

lemma next_token_safe:
  assumes "gg_provider gen = run" "0 < gg_vocab_size gen" "\<forall>t \<in> snd ` set (gg_static_inputs gen). tensor_ok t"
    "\<forall>v t. resolve v = Inr (Some t) \<longrightarrow> tensor_ok t" "int (cf_context_limit config) < usize_bound"
  shows "outcome (step_overruns gen resolve config tokens) (step_justified lm gen resolve config step tokens)
    (\<lambda>t. sampled_run lm gen resolve config step tokens [t]) (next_token lm gen resolve config step tokens)"
  unfolding next_token_def
proof (rule outcome_pbind [OF distribution_of_safe [OF assms]])
  fix d assume d: "distribution_spec gen resolve (cf_context_limit config) tokens d"
  then have len: "length d = gg_vocab_size gen" by (auto simp: distribution_spec_def)
  note answers = sample_token_answers [of lm d "cf_distribution config" "cf_sampling config" step, unfolded sampler_answers_def]
  show "outcome (step_overruns gen resolve config tokens) (step_justified lm gen resolve config step tokens)
    (\<lambda>t. sampled_run lm gen resolve config step tokens [t])
    (pbind (plift (map_err Gen_Sampling (sample_token lm d (cf_distribution config) (cf_sampling config) step)))
      (\<lambda>next. plift (len_u32 Gen_InvalidVocabulary next)))"
  proof (cases "sample_token lm d (cf_distribution config) (cf_sampling config) step")
    case (Inl e)
    with d answers show ?thesis by (auto simp: plift_def)
  next
    case (Inr i)
    with answers have i: "sampled_from lm d (cf_distribution config) (cf_sampling config) step i" by simp
    then have "i < gg_vocab_size gen" using len by (simp add: sampled_from_def)
    show ?thesis
    proof (cases "i < 2 ^ 32")
      case True
      with i d Inr \<open>i < gg_vocab_size gen\<close> show ?thesis by (auto simp: len_u32_def plift_def unat_of_nat sampled_run_def)
    next
      case False
      with i d have "step_justified lm gen resolve config step tokens Gen_InvalidVocabulary" by (auto simp: not_less)
      with False Inr show ?thesis by (simp add: len_u32_def plift_def del: step_justified.simps)
    qed
  qed
qed

lemma generate_loop_safe:
  assumes "gg_provider gen = run" "0 < gg_vocab_size gen" "\<forall>t \<in> snd ` set (gg_static_inputs gen). tensor_ok t"
    "\<forall>v t. resolve v = Inr (Some t) \<longrightarrow> tensor_ok t" "int (cf_context_limit config) < usize_bound"
  shows "steps = [start..<n] \<Longrightarrow> outcome
    (\<exists>new. pending lm gen resolve config start (snd state) (length steps) new \<and> step_overruns gen resolve config (snd state @ new))
    (\<lambda>e. \<exists>new. pending lm gen resolve config start (snd state) (length steps) new
      \<and> step_justified lm gen resolve config (start + length new) (snd state @ new) e)
    (\<lambda>s. \<exists>new. s = (fst state @ new, snd state @ new) \<and> sampled_run lm gen resolve config start (snd state) new
      \<and> stops_by config (length steps) new)
    (generate_loop lm gen resolve config steps state)"
proof (induction steps arbitrary: state start)
  case Nil
  then show ?case by (auto simp: stops_by_def)
next
  case (Cons step steps)
  have step: "step = start" "steps = [Suc start..<n]"
    using Cons.prems upt_eq_Cons_conv [of start n step steps] by auto
  let ?before = "snd state"
  let ?N = "\<exists>new. pending lm gen resolve config start ?before (length (step # steps)) new
    \<and> step_overruns gen resolve config (?before @ new)"
  let ?E = "\<lambda>e. \<exists>new. pending lm gen resolve config start ?before (length (step # steps)) new
    \<and> step_justified lm gen resolve config (start + length new) (?before @ new) e"
  let ?P = "\<lambda>s. \<exists>new. s = (fst state @ new, ?before @ new) \<and> sampled_run lm gen resolve config start ?before new
    \<and> stops_by config (length (step # steps)) new"
  have none: "pending lm gen resolve config start ?before (length (step # steps)) []" by (simp add: pending_def)
  have first: "outcome ?N ?E (\<lambda>t. sampled_run lm gen resolve config start ?before [t])
      (next_token lm gen resolve config step ?before)"
    unfolding step(1)
    by (rule outcome_weaken [OF next_token_safe [OF assms, where step = start and tokens = ?before and lm = lm]])
      (use none in \<open>force intro: exI [of _ "[]"]\<close>)+
  show ?case unfolding generate_loop.simps
  proof (rule outcome_pbind [OF first])
    fix t assume t: "sampled_run lm gen resolve config start ?before [t]"
    let ?s = "(fst state @ [t], ?before @ [t])"
    show "outcome ?N ?E ?P
      (let state = ?s in
       if cf_eos_token config = Some t then pret state else generate_loop lm gen resolve config steps state)"
    proof (cases "cf_eos_token config = Some t")
      case True
      with t show ?thesis by (auto simp: stops_by_def intro!: exI [of _ "[t]"])
    next
      case False
      note later = pending_Cons [OF t False] and longer = sampled_run_Cons [OF t]
      have "outcome ?N ?E ?P (generate_loop lm gen resolve config steps ?s)"
      proof (rule outcome_weaken [OF Cons.IH [OF step(2), of ?s]])
        show ?N if "\<exists>new. pending lm gen resolve config (Suc start) (snd ?s) (length steps) new
            \<and> step_overruns gen resolve config (snd ?s @ new)"
          using that later by fastforce
      next
        fix e
        assume "\<exists>new. pending lm gen resolve config (Suc start) (snd ?s) (length steps) new
          \<and> step_justified lm gen resolve config (Suc start + length new) (snd ?s @ new) e"
        then show "?E e" using later by fastforce
      next
        fix s
        assume "\<exists>new. s = (fst ?s @ new, snd ?s @ new) \<and> sampled_run lm gen resolve config (Suc start) (snd ?s) new
          \<and> stops_by config (length steps) new"
        then obtain new where "s = (fst ?s @ new, snd ?s @ new)" "sampled_run lm gen resolve config (Suc start) (snd ?s) new"
          "stops_by config (length steps) new" by blast
        with False longer [of new] show "?P s" by (intro exI [of _ "t # new"]) (auto simp: stops_by_def)
      qed
      with False show ?thesis by (simp add: Let_def)
    qed
  qed
qed

end

section \<open>Streaming\<close>









section \<open>Inference signals\<close>

lemma f32_clamp_unit_bounds: "\<not> f32_is_nan x \<Longrightarrow> f32_at_most 0 (f32_clamp_unit x) \<and> f32_at_most (f32_clamp_unit x) f32_one"
proof -
  have "\<not> f32_is_nan 0" "\<not> f32_is_nan f32_one" "f32_at_most 0 f32_one" "f32_at_most 0 0" "f32_at_most f32_one f32_one"
    by code_simp+
  then show "\<not> f32_is_nan x \<Longrightarrow> ?thesis" by (auto simp: f32_clamp_unit_def f32_at_most_def f32_lt_def f32_eq_def)
qed

text \<open>The top probability of the signals is never a NaN and lies between 0 and 1.\<close>

lemma signal_step_top: "\<not> f32_is_nan (fst (snd s)) \<Longrightarrow> \<not> f32_is_nan (fst (snd (foldl (signal_step ln mass) s ws)))"
proof (induction ws arbitrary: s)
  case (Cons w ws)
  have "\<not> f32_is_nan (fst (snd (signal_step ln mass s w)))"
    using Cons.prems by (auto simp: signal_step_def Let_def f32_lt_def split: prod.splits)
  with Cons.IH show ?case by simp
qed simp

lemma top_probability_bounds:
  assumes "model_inference_signals lm ln logits = Inr signals"
  shows "f32_at_most 0 (mi_top_probability signals) \<and> f32_at_most (mi_top_probability signals) f32_one"
proof -
  from assms obtain mass weights where "mi_top_probability signals = f32_clamp_unit (fst (snd (foldl (signal_step ln mass) (0, 0, 0) weights)))"
    by (auto simp: model_inference_signals_def Let_def split: if_splits prod.splits) (metis fst_conv snd_conv)+
  moreover have "\<not> f32_is_nan 0" by code_simp
  ultimately show ?thesis using signal_step_top [of "(0, 0, 0)"] f32_clamp_unit_bounds by simp
qed

section \<open>Properties\<close>

text \<open>
  C16: the sampler fails only for a reason that its arguments show: an empty distribution or one with a
  value that is not finite, a temperature that is not finite and positive, a top \<open>k\<close> of zero, a
  negative probability, or no mass: the sum of the weights that take part is not finite or not positive, or none
  of them is positive. Otherwise it returns an index of the distribution. Greedily it is
  the first of the greatest values. At random it is the index that the seed and the step select
  among the weights of the top \<open>k\<close>: its weight is positive, no weight before it covers what is left of the target, and it
  does or no positive weight follows.
\<close>

theorem sample_token_sound:
  "case sample_token lm values kind mode step of
    Inl e \<Rightarrow> sampling_justified lm values kind mode e
  | Inr i \<Rightarrow> sampled_from lm values kind mode step i"
  using sample_token_answers [of lm "values" kind mode step] by (simp add: sampler_answers_def)

text \<open>
  C5: with well-formed weights, a resolver of well-formed tensors, a context limit that fits a \<open>usize\<close> and a
  bound on new tokens that a vector can have, generation always ends, and it panics only when,
  for tokens that it generated so far, the graph calls the provider for a product or a gather of more than
  \<open>isize::MAX\<close> bytes. An error is one of the prompt or the true one of the step at which it occurs: the graph fails on the
  last tokens of the window, for a reason of its own, it has no such output, that output is shorter than the
  vocabulary or no multiple of it, the sampler fails on its last row, or it samples an index
  that no \<open>u32\<close> holds. Otherwise the result is the prompt and the new tokens: every one lies in the vocabulary and
  is sampled from the distribution that the graph computes for the tokens before it, none but the last is the
  end token, and fewer than the maximum are generated only when the last is.
\<close>

theorem generation_safe:
  assumes "graph_generator_new g (cpu_reference lm) static_inputs token_input distribution_output vocab_size = Inr gen"
    "\<forall>t \<in> snd ` set static_inputs. tensor_ok t" "\<forall>v t. resolve v = Inr (Some t) \<longrightarrow> tensor_ok t"
    "int (cf_context_limit config) < usize_bound" "4 * int (cf_max_new_tokens config) < 2 ^ 63"
  shows "case generate_tokens_with_resolver lm gen resolve prompt config of
      None \<Rightarrow> \<exists>new node op args. pending lm gen resolve config 0 prompt (cf_max_new_tokens config) new
        \<and> called (cpu_reference lm) g (graph_inputs gen (cf_context_limit config) (prompt @ new)) resolve node op args
        \<and> oversized op args
    | Some (Inl e) \<Rightarrow> prompt_justified gen prompt (cf_context_limit config) e
        \<or> (\<exists>new. pending lm gen resolve config 0 prompt (cf_max_new_tokens config) new
            \<and> step_justified lm gen resolve config (length new) (prompt @ new) e)
    | Some (Inr s) \<Rightarrow> \<exists>new. s = \<lparr>ge_prompt_tokens = prompt, ge_generated_tokens = new, ge_all_tokens = prompt @ new\<rparr>
        \<and> sampled_run lm gen resolve config 0 prompt new \<and> stops_by config (cf_max_new_tokens config) new"
proof -
  have gen: "gg_provider gen = cpu_reference lm" "0 < gg_vocab_size gen" "\<forall>t \<in> snd ` set (gg_static_inputs gen). tensor_ok t"
    and g: "gg_graph gen = g"
    using assms(1,2) by (auto simp: graph_generator_new_def split: if_splits)
  note loop = cpu.generate_loop_safe [OF gen assms(3,4), where state = "([], prompt)" and start = 0
      and n = "cf_max_new_tokens config" and lm = lm, OF refl, unfolded overrun_def g]
  show ?thesis
  proof (cases "validate_prompt_tokens prompt (gg_vocab_size gen) (cf_context_limit config)")
    case (Inl e)
    with validate_prompt_cases [where prompt = prompt and gen = gen and limit = "cf_context_limit config"] show ?thesis
      by (simp add: generate_tokens_with_resolver_def pfail_def)
  next
    case (Inr u)
    with assms(5) have run: "generate_tokens_with_resolver lm gen resolve prompt config =
        pbind (generate_loop lm gen resolve config [0..<cf_max_new_tokens config] ([], prompt)) (\<lambda>state.
          pret \<lparr>ge_prompt_tokens = prompt, ge_generated_tokens = fst state, ge_all_tokens = snd state\<rparr>)"
      by (simp add: generate_tokens_with_resolver_def token_capacity_def)
    show ?thesis
    proof (cases "generate_loop lm gen resolve config [0..<cf_max_new_tokens config] ([], prompt)" rule: run_cases)
      case Panic
      with loop show ?thesis unfolding run by auto
    next
      case (Err e)
      with loop show ?thesis unfolding run by simp
    next
      case (Ok s)
      with loop show ?thesis unfolding run by (auto simp: pret_def)
    qed
  qed
qed

text \<open>The end of the vocabulary of two tokens is 0; the graph doubles the window, which is the distribution.\<close>

definition doubling_graph :: graph where
  "doubling_graph = \<lparr>gr_version = ir_current, gr_inputs = [\<lparr>vd_id = 1, vd_ty = Tensor F32 1\<rparr>], gr_outputs = [2],
    gr_nodes = [\<lparr>nd_id = 1, nd_op = TensorOp Add, nd_inputs = [1, 1], nd_outputs = [\<lparr>vd_id = 2, vd_ty = Tensor F32 1\<rparr>]\<rparr>]\<rparr>"

definition doubling_generator :: graph_generator where
  "doubling_generator = \<lparr>gg_graph = doubling_graph, gg_provider = cpu_reference sample_libm, gg_static_inputs = [],
    gg_token_input = 1, gg_distribution_output = 0, gg_vocab_size = 2\<rparr>"

definition doubling_config :: generation_config where
  "doubling_config = \<lparr>cf_max_new_tokens = 5, cf_context_limit = 2, cf_eos_token = Some 0, cf_distribution = Logits, cf_sampling = Greedy\<rparr>"

lemma doubling_run:
  "generate_tokens_with_resolver sample_libm doubling_generator empty_resolver [1, 0, 1] doubling_config
    = Some (Inr \<lparr>ge_prompt_tokens = [1, 0, 1], ge_generated_tokens = [1, 0], ge_all_tokens = [1, 0, 1, 1, 0]\<rparr>)"
  by code_simp

theorem generation_safe_witness:
  "\<exists>new. generate_tokens_with_resolver sample_libm doubling_generator empty_resolver [1, 0, 1] doubling_config
      = Some (Inr \<lparr>ge_prompt_tokens = [1, 0, 1], ge_generated_tokens = new, ge_all_tokens = [1, 0, 1] @ new\<rparr>)
    \<and> new = [1, 0] \<and> sampled_run sample_libm doubling_generator empty_resolver doubling_config 0 [1, 0, 1] new"
proof -
  have "graph_generator_new doubling_graph (cpu_reference sample_libm) [] 1 0 2 = Inr doubling_generator"
    by (simp add: graph_generator_new_def doubling_generator_def)
  moreover have "\<forall>v t. empty_resolver v = Inr (Some t) \<longrightarrow> tensor_ok t" by (simp add: empty_resolver_def)
  ultimately show ?thesis
    using generation_safe [of doubling_graph sample_libm "[]" 1 0 2 doubling_generator empty_resolver doubling_config "[1, 0, 1]"] doubling_run
    by (auto simp: doubling_config_def usize_bound_def)
qed





text \<open>The bound on new tokens is not checked before a vector of that capacity is requested.\<close>

theorem unchecked_capacity_panics:
  assumes "prompt \<noteq> []" "cf_context_limit config \<noteq> 0" "\<forall>t \<in> set prompt. unat t < gg_vocab_size gen"
    "2 ^ 63 \<le> 4 * int (cf_max_new_tokens config)"
  shows "generate_tokens lm gen prompt config = None"
proof -
  have "check_token_ids (gg_vocab_size gen) prompt = Inr ()" using assms(3) by (induction prompt) auto
  with assms(1,2,4) show ?thesis
    by (simp add: generate_tokens_def generate_tokens_with_resolver_def validate_prompt_tokens_def token_capacity_def)
qed

end
