(* ===== verification/Kv_Cache.thy ===== *)
theory Kv_Cache
  imports Generation
begin

text \<open>
  The key/value cache of \<open>crates/ntd-runtime/src/generation.rs\<close> implements, for every layer, a sequence of pairs of
  a key row and a value row: appending adds rows at the end or changes nothing, truncating keeps the last rows.
\<close>

section \<open>Rows\<close>

definition rows :: "nat \<Rightarrow> nat \<Rightarrow> 'a list \<Rightarrow> 'a list list" where
  "rows w n xs = map (\<lambda>i. take w (drop (i * w) xs)) [0..<n]"

lemma length_rows [simp]: "length (rows w n xs) = n"
  by (simp add: rows_def)

lemma rows_append:
  assumes "length xs = n * w"
  shows "rows w (n + m) (xs @ ys) = rows w n xs @ rows w m ys"
proof -
  have left: "take w (drop (i * w) (xs @ ys)) = take w (drop (i * w) xs)" if "i < n" for i
  proof -
    have "Suc i * w \<le> n * w" using that by (intro mult_le_mono1) simp
    with assms show ?thesis by simp
  qed
  have right: "take w (drop ((n + j) * w) (xs @ ys)) = take w (drop (j * w) ys)" for j
    using assms by (simp add: add_mult_distrib)
  have "[0..<n + m] = [0..<n] @ map ((+) n) [0..<m]"
    by (intro nth_equalityI) (auto simp: nth_append)
  then show ?thesis
    using left right by (simp add: rows_def comp_def del: take_append drop_append)
qed

lemma rows_drop: "k \<le> n \<Longrightarrow> rows w (n - k) (drop (k * w) xs) = drop k (rows w n xs)"
  by (intro nth_equalityI) (auto simp: rows_def add_mult_distrib add.commute)

definition tensor_rows :: "tensor \<Rightarrow> f32 list list" where
  "tensor_rows t = rows (prod_list (tl (tn_shape t))) (hd (tn_shape t)) (tn_data t)"

lemma length_tensor_rows [simp]: "length (tensor_rows t) = hd (tn_shape t)"
  by (simp add: tensor_rows_def)

section \<open>Well-formed caches\<close>

definition layer_ok :: "kv_layer_cache \<Rightarrow> bool" where
  "layer_ok c \<longleftrightarrow> tensor_ok (kl_key c) \<and> tensor_ok (kl_value c) \<and> tn_shape (kl_key c) \<noteq> []
    \<and> tn_shape (kl_value c) = tn_shape (kl_key c)"

definition kv_ok :: "kv_cache \<Rightarrow> bool" where
  "kv_ok cache \<longleftrightarrow> bt_wf cache \<and> (\<forall>c \<in> snd ` set cache. layer_ok c)"

text \<open>The pairs of a key row and a value row of a layer, one for each token.\<close>

definition layer_history :: "kv_layer_cache \<Rightarrow> (f32 list \<times> f32 list) list" where
  "layer_history c = zip (tensor_rows (kl_key c)) (tensor_rows (kl_value c))"

definition kv_history :: "kv_cache \<Rightarrow> u32 \<Rightarrow> (f32 list \<times> f32 list) list" where
  "kv_history cache layer = (case kv_layer cache layer of None \<Rightarrow> [] | Some c \<Rightarrow> layer_history c)"

lemma kv_ok_insert: "kv_ok cache \<Longrightarrow> layer_ok c \<Longrightarrow> kv_ok (bt_insert layer c cache)"
  using set_bt_insert [of layer c cache] by (auto simp: kv_ok_def)

lemma kv_ok_get: "kv_ok cache \<Longrightarrow> bt_get cache layer = Some c \<Longrightarrow> layer_ok c"
  by (force simp: kv_ok_def dest: map_of_SomeD)

lemma kv_history_insert: "kv_ok cache \<Longrightarrow> kv_history (bt_insert layer c cache) = (kv_history cache)(layer := layer_history c)"
  by (auto simp: kv_history_def kv_layer_def kv_ok_def bt_get_insert)

section \<open>Appending\<close>

lemma validate_kv_pair_shapes:
  "validate_kv_pair key val = Inr u \<longleftrightarrow> tn_shape key \<noteq> [] \<and> tn_shape val = tn_shape key"
  by (cases "tn_shape key"; cases "tn_shape val") (auto simp: validate_kv_pair_def)

lemma concat_sequence_Inr:
  assumes "concat_sequence l r = Inr t" "tensor_ok l"
  shows "tensor_ok t \<and> tn_shape l \<noteq> [] \<and> tn_shape t = (hd (tn_shape l) + hd (tn_shape r)) # tl (tn_shape l)
    \<and> tensor_rows t = tensor_rows l @ tensor_rows r"
proof -
  from assms(1) have ne: "tn_shape l \<noteq> []" "tn_shape r \<noteq> []" "drop 1 (tn_shape l) = drop 1 (tn_shape r)"
    by (auto simp: concat_sequence_def split: if_splits)
  then obtain d e ds where shapes: "tn_shape l = d # ds" "tn_shape r = e # ds"
    by (cases "tn_shape l"; cases "tn_shape r") auto
  from assms(1) shapes have t: "t = \<lparr>tn_shape = (d + e) # ds, tn_data = tn_data l @ tn_data r\<rparr>" "tensor_ok t"
    by (auto simp: concat_sequence_def tensor_new_Inr simp del: usize_add_eq split: if_splits)
      (auto simp: usize_add_def split: if_splits)
  have "length (tn_data l) = d * prod_list ds" using tensor_ok_length [OF assms(2)] shapes by simp
  from rows_append [OF this, of e "tn_data r"] t shapes show ?thesis by (simp add: tensor_rows_def)
qed

lemma concat_sequence_alike:
  assumes "tensor_ok l" "tensor_ok l'" "tn_shape l' = tn_shape l" "tensor_ok r" "tensor_ok r'" "tn_shape r' = tn_shape r"
  shows "concat_sequence l r = Inl e \<longleftrightarrow> concat_sequence l' r' = Inl e"
proof -
  have "length (tn_data l') = length (tn_data l)" "length (tn_data r') = length (tn_data r)"
    using assms by (simp_all add: tensor_ok_length)
  then show ?thesis
    using assms(3,6) by (simp add: concat_sequence_def tensor_new_def rbind_eq_Inl map_err_def split: sum.splits)
qed

lemma kv_append_refines:
  assumes "kv_ok cache" "tensor_ok key" "tensor_ok val" "kv_append layer key val cache = (r, cache')"
  shows "kv_ok cache' \<and> (case r of Inl _ \<Rightarrow> cache' = cache
    | Inr _ \<Rightarrow> kv_history cache' = (kv_history cache)(layer := kv_history cache layer @ zip (tensor_rows key) (tensor_rows val)))"
proof (cases "validate_kv_pair key val")
  case (Inl e)
  with assms(4) have "r = Inl e" "cache' = cache" by (simp_all add: kv_append_def)
  with assms(1) show ?thesis by simp
next
  case valid: (Inr u)
  then have shapes: "tn_shape key \<noteq> []" "tn_shape val = tn_shape key" by (simp_all add: validate_kv_pair_shapes)
  show ?thesis
  proof (cases "bt_get cache layer")
    case None
    let ?c = "\<lparr>kl_key = key, kl_value = val\<rparr>"
    have "layer_ok ?c" using assms(2,3) shapes by (simp add: layer_ok_def)
    moreover have "r = Inr ()" "cache' = bt_insert layer ?c cache" using assms(4) valid None by (auto simp: kv_append_def)
    moreover have "kv_history cache layer = []" using None by (simp add: kv_history_def kv_layer_def)
    ultimately show ?thesis using assms(1) by (simp add: kv_ok_insert kv_history_insert layer_history_def)
  next
    case (Some c)
    have c: "layer_ok c" using kv_ok_get [OF assms(1) Some] .
    then have alike: "concat_sequence (kl_key c) key = Inl e \<longleftrightarrow> concat_sequence (kl_value c) val = Inl e" for e
      using assms(2,3) shapes by (intro concat_sequence_alike) (auto simp: layer_ok_def)
    show ?thesis
    proof (cases "concat_sequence (kl_key c) key")
      case (Inl e)
      with assms(4) valid Some have "r = Inl e" "cache' = cache" by (simp_all add: kv_append_def)
      with assms(1) show ?thesis by simp
    next
      case key: (Inr key')
      then obtain val' where val: "concat_sequence (kl_value c) val = Inr val'"
        using alike by (cases "concat_sequence (kl_value c) val") auto
      let ?c = "c\<lparr>kl_key := key', kl_value := val'\<rparr>"
      have ok: "tensor_ok (kl_key c)" "tensor_ok (kl_value c)" "tn_shape (kl_value c) = tn_shape (kl_key c)"
        using c by (simp_all add: layer_ok_def)
      note new = concat_sequence_Inr [OF key ok(1)] concat_sequence_Inr [OF val ok(2)]
      have "layer_ok ?c" using new ok shapes by (simp add: layer_ok_def)
      moreover have "cache' = bt_insert layer ?c cache" "r = Inr ()"
        using assms(4) valid Some key val by (auto simp: kv_append_def Let_def)
      moreover have "layer_history ?c = layer_history c @ zip (tensor_rows key) (tensor_rows val)"
        using new ok shapes by (simp add: layer_history_def zip_append)
      moreover have "kv_history cache layer = layer_history c" using Some by (simp add: kv_history_def kv_layer_def)
      ultimately show ?thesis using assms(1) by (simp add: kv_ok_insert kv_history_insert)
    qed
  qed
qed

section \<open>Truncating\<close>

lemma count_elements_mono: "count_elements c sh = Inr n \<Longrightarrow> c' \<le> c \<Longrightarrow> \<exists>n'. count_elements c' sh = Inr n'"
proof (induction sh arbitrary: c c')
  case (Cons d sh)
  from Cons.prems(1) have c: "int c * int d < usize_bound" "count_elements (c * d) sh = Inr n" by auto
  have le: "c' * d \<le> c * d" using Cons.prems(2) by simp
  then have "int c' * int d \<le> int c * int d" by (metis of_nat_le_iff of_nat_mult)
  with c(1) have "usize_mul c' d = Some (c' * d)" by (simp add: usize_mul_def)
  with Cons.IH [OF c(2) le] show ?case by simp
qed simp

lemma retain_last_rows:
  assumes "tensor_ok t" "tn_shape t \<noteq> []"
  shows "\<exists>t'. retain_last_sequence t k = Some (Inr t') \<and> tensor_ok t' \<and> tn_shape t' = min (hd (tn_shape t)) k # tl (tn_shape t)
    \<and> tensor_rows t' = drop (hd (tn_shape t) - k) (tensor_rows t)"
proof -
  obtain d ds where shape: "tn_shape t = d # ds" using assms(2) by (cases "tn_shape t") auto
  show ?thesis
  proof (cases "d \<le> k")
    case True
    with assms shape show ?thesis by (auto simp: retain_last_sequence_def pret_def)
  next
    case False
    have len: "length (tn_data t) = d * prod_list ds" using tensor_ok_length [OF assms(1)] shape by simp
    with False have width: "length (tn_data t) div d = prod_list ds" by simp
    have le: "(d - k) * prod_list ds \<le> length (tn_data t)" using len by simp
    then have "int (d - k) * int (prod_list ds) \<le> int (length (tn_data t))" by (metis of_nat_le_iff of_nat_mult)
    then have start: "usize_mul (d - k) (prod_list ds) = Some ((d - k) * prod_list ds)"
      using tensor_ok_small [OF assms(1)] by (simp add: usize_mul_def)
    let ?data = "drop ((d - k) * prod_list ds) (tn_data t)"
    have dlen: "length ?data = k * prod_list ds"
      using False len by (simp add: diff_mult_distrib)
    have "count_elements d ds = Inr (length (tn_data t))"
      using assms(1) shape by (auto simp: tensor_ok_def element_count_usize_def)
    then obtain n where n: "count_elements k ds = Inr n" using count_elements_mono [of d ds _ k] False by auto
    have "int k < usize_bound"
      using assms(1) shape False by (auto simp: tensor_ok_def element_count_usize_def)
    then have "element_count_usize (k # ds) = Inr (k * prod_list ds)"
      using n count_elements_Inr [OF n] by (simp add: element_count_usize_def usize_mul_def)
    with dlen have new: "tensor_new (k # ds) ?data = Inr \<lparr>tn_shape = k # ds, tn_data = ?data\<rparr>"
      "tensor_ok \<lparr>tn_shape = k # ds, tn_data = ?data\<rparr>" by (simp_all add: tensor_new_def tensor_ok_def)
    have "retain_last_sequence t k = Some (Inr \<lparr>tn_shape = k # ds, tn_data = ?data\<rparr>)"
      unfolding retain_last_sequence_def using False shape width start le new(1)
      by (simp add: Let_def vec_slice_def plift_def pret_def del: usize_mul_eq)
    moreover have "rows (prod_list ds) k ?data = drop (d - k) (rows (prod_list ds) d (tn_data t))"
      using rows_drop [of "d - k" d "prod_list ds" "tn_data t"] False by simp
    ultimately show ?thesis using new(2) False shape by (simp add: tensor_rows_def min_def)
  qed
qed

text \<open>The last \<open>k\<close> elements.\<close>

definition last_of :: "nat \<Rightarrow> 'a list \<Rightarrow> 'a list" where
  "last_of k xs = drop (length xs - k) xs"

lemma kv_truncate_left_refines:
  assumes "kv_ok cache"
  shows "\<exists>cache'. kv_truncate_left k cache = Some (Inr (), cache') \<and> kv_ok cache' \<and> map fst cache' = map fst cache
    \<and> kv_history cache' = (\<lambda>layer. last_of k (kv_history cache layer))"
  using assms
proof (induction cache)
  case Nil
  then show ?case by (auto simp: kv_history_def kv_layer_def last_of_def)
next
  case (Cons e cache)
  obtain layer c where e: "e = (layer, c)" by (cases e)
  from Cons.prems have ok: "layer_ok c" "kv_ok cache" by (auto simp: kv_ok_def bt_wf_Cons e)
  then have tensors: "tensor_ok (kl_key c)" "tn_shape (kl_key c) \<noteq> []" "tensor_ok (kl_value c)"
    "tn_shape (kl_value c) = tn_shape (kl_key c)" by (simp_all add: layer_ok_def)
  obtain key where key: "retain_last_sequence (kl_key c) k = Some (Inr key)" "tensor_ok key"
    "tn_shape key = min (hd (tn_shape (kl_key c))) k # tl (tn_shape (kl_key c))"
    "tensor_rows key = drop (hd (tn_shape (kl_key c)) - k) (tensor_rows (kl_key c))"
    using retain_last_rows [OF tensors(1,2)] by blast
  obtain val where val: "retain_last_sequence (kl_value c) k = Some (Inr val)" "tensor_ok val"
    "tn_shape val = min (hd (tn_shape (kl_key c))) k # tl (tn_shape (kl_key c))"
    "tensor_rows val = drop (hd (tn_shape (kl_key c)) - k) (tensor_rows (kl_value c))"
    using retain_last_rows [OF tensors(3)] tensors(2,4) by metis
  obtain rest where rest: "kv_truncate_left k cache = Some (Inr (), rest)" "kv_ok rest" "map fst rest = map fst cache"
    "kv_history rest = (\<lambda>layer. last_of k (kv_history cache layer))" using Cons.IH [OF ok(2)] by blast
  let ?c = "\<lparr>kl_key = key, kl_value = val\<rparr>"
  have run: "kv_truncate_left k (e # cache) = Some (Inr (), (layer, ?c) # rest)" using key(1) val(1) rest(1) by (simp add: e Let_def)
  have layer: "layer_ok ?c" using key(2,3) val(2,3) by (simp add: layer_ok_def)
  have "map fst ((layer, ?c) # rest) = map fst (e # cache)" using rest(3) by (simp add: e)
  then have "bt_wf ((layer, ?c) # rest)" using Cons.prems unfolding kv_ok_def bt_wf_def by simp
  then have wf: "kv_ok ((layer, ?c) # rest)" using layer rest(2) by (simp add: kv_ok_def)
  have "length (tensor_rows (kl_value c)) = hd (tn_shape (kl_key c))" "length (tensor_rows (kl_key c)) = hd (tn_shape (kl_key c))"
    using tensors(4) by simp_all
  then have "layer_history ?c = last_of k (layer_history c)"
    using key(4) val(4) by (simp add: layer_history_def last_of_def drop_zip)
  then have "kv_history ((layer, ?c) # rest) l = last_of k (kv_history (e # cache) l)" for l
    using rest(4) by (auto simp: kv_history_def kv_layer_def e fun_eq_iff dest: fun_cong [of _ _ l])
  with run wf rest(3) show ?case by (auto simp: e fun_eq_iff)
qed

section \<open>The reusable prefix\<close>

lemma reusable_prefix_len_common:
  "n = reusable_prefix_len cache tokens \<Longrightarrow> take n (px_tokens cache) = take n tokens \<and> n \<le> min (length (px_tokens cache)) (length tokens)
    \<and> (n < length (px_tokens cache) \<longrightarrow> n < length tokens \<longrightarrow> px_tokens cache ! n \<noteq> tokens ! n)"
proof -
  have "take n xs = take n ys \<and> n \<le> min (length xs) (length ys) \<and> (n < length xs \<longrightarrow> n < length ys \<longrightarrow> xs ! n \<noteq> ys ! n)"
    if "n = length (takeWhile (\<lambda>(left, right). left = right) (zip xs ys))" for xs ys :: "u32 list"
    using that
  proof (induction xs arbitrary: ys n)
    case (Cons x xs)
    show ?case
    proof (cases ys)
      case (Cons y ys')
      then show ?thesis using Cons.IH [OF refl, of ys'] Cons.prems by auto
    qed (use Cons.prems in simp)
  qed simp
  then show "n = reusable_prefix_len cache tokens \<Longrightarrow> ?thesis" by (simp add: reusable_prefix_len_def)
qed

section \<open>Properties\<close>

text \<open>
  C14: a well-formed cache stands for a sequence of pairs of a key row and a value row in every layer, one for
  each token. Appending well-formed tensors adds their rows at the end of one layer, or fails and
  changes nothing, although key and value are replaced one after the other; truncating never fails and
  keeps the last rows of every layer. Both keep the cache well-formed.
\<close>

theorem kv_cache_refines_history:
  assumes "kv_ok cache" "tensor_ok key" "tensor_ok val"
  shows "(case kv_append layer key val cache of (r, cache') \<Rightarrow> kv_ok cache' \<and> (case r of
        Inl _ \<Rightarrow> cache' = cache
      | Inr _ \<Rightarrow> kv_history cache' = (kv_history cache)(layer := kv_history cache layer @ zip (tensor_rows key) (tensor_rows val))))
    \<and> (\<exists>cache'. kv_truncate_left k cache = Some (Inr (), cache') \<and> kv_ok cache'
        \<and> kv_history cache' = (\<lambda>layer. last_of k (kv_history cache layer)))"
  using kv_append_refines [OF assms] kv_truncate_left_refines [OF assms(1)] by (auto split: prod.split) blast+

definition sample_cache :: kv_cache where
  "sample_cache = [(7, \<lparr>kl_key = \<lparr>tn_shape = [2, 1], tn_data = [1, 2]\<rparr>, kl_value = \<lparr>tn_shape = [2, 1], tn_data = [3, 4]\<rparr>\<rparr>)]"

theorem kv_cache_refines_history_witness:
  "kv_history sample_cache 7 = [([1], [3]), ([2], [4])]
   \<and> (case kv_append 7 \<lparr>tn_shape = [1, 1], tn_data = [5]\<rparr> \<lparr>tn_shape = [1, 1], tn_data = [6]\<rparr> sample_cache of (r, cache') \<Rightarrow>
        r = Inr () \<and> kv_ok cache' \<and> kv_history cache' 7 = [([1], [3]), ([2], [4]), ([5], [6])])
   \<and> (\<exists>cache'. kv_truncate_left 1 sample_cache = Some (Inr (), cache') \<and> kv_ok cache' \<and> kv_history cache' 7 = [([2], [4])])"
proof -
  let ?key = "\<lparr>tn_shape = [1, 1], tn_data = [5]\<rparr> :: tensor" and ?val = "\<lparr>tn_shape = [1, 1], tn_data = [6]\<rparr> :: tensor"
  have ok: "kv_ok sample_cache" "tensor_ok ?key" "tensor_ok ?val"
    by (simp_all add: kv_ok_def sample_cache_def layer_ok_def tensor_ok_def element_count_usize_def usize_mul_def usize_bound_def bt_wf_def)
  have rows: "kv_history sample_cache 7 = [([1], [3]), ([2], [4])]" "tensor_rows ?key = [[5]]" "tensor_rows ?val = [[6]]" by code_simp+
  have run: "fst (kv_append 7 ?key ?val sample_cache) = Inr ()" by code_simp
  have last: "last_of 1 [([1], [3]), ([2], [4])] = [([2] :: f32 list, [4] :: f32 list)]" by code_simp
  show ?thesis
    using kv_cache_refines_history [OF ok, of 7 1] rows run last by (auto split: prod.splits)
qed

end
