(* ===== verification/Spec2Isabelle.thy ===== *)
theory Spec2Isabelle
  imports NTD_IR_Codec Reasoning Fabric_Protocol Kernel_Protocol Mobile_Execution Conversation Generative_Program
    Generation_Correct Kv_Cache
begin

text \<open>
  \<^bold>\<open>Verification development of NTD97.\<close>

  NTD97 is a local assistant runtime. A \<^emph>\<open>cognitive kernel\<close> keeps goals, tasks, world facts, a
  long-term memory and learned deltas and works on one task at a time in cycles of plan, execute and
  verify. An \<^emph>\<open>action fabric\<close> turns the task graph of a task into a plan of typed actions and runs it
  step by step: every step needs a registered capability, an authority grant that permits it and an
  adapter, and may need a verifier; committed side effects can be rolled back. Both states are written
  to byte formats (SIK97 and TAF97), which the mobile shell wraps into one bundle (MCS97) so that a
  session survives the death of its process. Neural programs are graphs of an intermediate
  representation with its own byte format (NIR97); together with tensors, a tokenizer and a manifest
  they are packed into \<^emph>\<open>capsules\<close> (NCC97), files whose contents are addressed by SHA-256.

  \<^bold>\<open>Theories and sources\<close> (paths below \<open>src/crates\<close>)

  \<^item> \<open>Rust_Base\<close>, \<open>Rust_Strings\<close>, \<open>Rust_BTreeMap\<close>, \<open>Rust_Codec\<close>, \<open>Rust_Order\<close>: the prelude. Results as sums
    (\<open>Inl\<close> the error), methods on \<open>&mut self\<close> as functions from a state to a result and a state
    (\<open>sbind\<close>, \<open>sget\<close>, \<open>smodify\<close>; a failed method keeps the changes made before the error), weakest
    preconditions \<open>wp\<close> and invariants \<open>keeps\<close>; checked and saturating arithmetic on words; UTF-8,
    \<open>trim\<close> and splitting; \<open>BTreeMap\<close> as a sorted association list with the interface locale of its
    operations; orderings and stable sorting by a comparison; little-endian encoders and the cursor of the decoders, with the locales \<open>codec\<close> (what is
    written is read back) and \<open>canonical_codec\<close> (what is read was written).
  \<^item> \<open>NTD_Core\<close>, \<open>NTD_IR\<close>, \<open>NTD_IR_Codec\<close>: \<open>ntd-core/src/lib.rs\<close>, \<open>ntd-ir/src/lib.rs\<close>,
    \<open>ntd-capsule/src/ir_codec.rs\<close>. \<open>Graph::validate\<close> is equivalent to a declarative specification;
    the codec round-trips in both directions.
  \<^item> \<open>Capability\<close>: \<open>ntd-runtime/src/capability.rs\<close>. Scopes, grants, descriptors and their normal form,
    typed actions, the registry.
  \<^item> \<open>Memory\<close>: \<open>ntd-runtime/src/memory.rs\<close>. Store, forget, and retrieval by score.
  \<^item> \<open>Cognition\<close>, \<open>Reasoning\<close>: \<open>ntd-runtime/src/cognition.rs\<close>, \<open>lib.rs\<close>, \<open>reasoning.rs\<close>. The kernel
    state, all its operations and the cycle \<open>advance\<close>, for all planners, executors and verifiers; the
    invariant \<open>cog_wf\<close>; the native reasoning loop on top.
  \<^item> \<open>Kernel_Protocol\<close>: the kernel as a transition system. \<open>kernel_step\<close> is any call, \<open>careful_step\<close> one that
    completes from outside only open tasks with steps left, which \<open>complete_external_task\<close> leaves to its
    caller. Over careful steps the kernel refines a life cycle of tasks, and
    repeated cycles without an error close a task unless its verifier keeps asking for retries.
  \<^item> \<open>Action_Fabric\<close>: \<open>ntd-runtime/src/action_fabric.rs\<close>. Plans, preparation, \<open>execute_next\<close>,
    \<open>rollback_plan\<close>, validation, for all adapters and verifiers; the invariant \<open>fabric_valid\<close>.
  \<^item> \<open>Fabric_Protocol\<close>: the fabric as a transition system. Types of stored actions are sound in all
    reachable states, plans follow an abstract life cycle, cooperative plans complete.
    \<open>Transition_Systems\<close> has the locale \<open>simulation\<close> both protocols interpret.
  \<^item> \<open>Checkpoint_Frame\<close>, \<open>SIK97_Checkpoint\<close>, \<open>TAF97_Checkpoint\<close>: \<open>ntd-runtime/src/checkpoint.rs\<close> and
    \<open>action_checkpoint.rs\<close>. The frame and the ordered tables the formats share, and the formats; both
    interpret the locale \<open>checkpoint\<close>: good states come back, and only good states come out of any bytes.
  \<^item> \<open>Mobile_Continuity\<close>, \<open>Mobile_Scheduler\<close>: \<open>ntd-mobile-shell/src/continuity.rs\<close>, \<open>scheduler.rs\<close>.
    Bundles of both checkpoints, a third interpretation of \<open>checkpoint\<close>, and the wake policy.
  \<^item> \<open>Conversation\<close>: \<open>ntd-runtime/src/conversation.rs\<close>, the prompt compiler.
  \<^item> \<open>SHA256\<close>, \<open>Capsule\<close>, \<open>Capsule_Integrity\<close>: \<open>ntd-capsule/src/hash.rs\<close>, \<open>lib.rs\<close>, \<open>binary.rs\<close>. The
    hash function, computed on a test vector; the writer and the reader of capsules, at absolute offsets
    in a buffer as in the source; that the reader accepts what the writer emits and nothing that is laid
    out otherwise, and that the root hash identifies the contents.
  \<^item> \<open>Descriptors\<close>, \<open>Native_Tensor\<close>, \<open>Native_Program\<close>, \<open>Tokenizer_Codec\<close>, \<open>Generative_Program\<close>:
    \<open>ntd-capsule/src/descriptors.rs\<close>, \<open>generative.rs\<close>, \<open>native_tensor.rs\<close>, \<open>tokenizer.rs\<close> and the graph
    section of \<open>ir_codec.rs\<close>. The sections of a capsule, the content store (an interpretation of the
    locale \<open>content_addressed\<close>), and the loading of programs: loaded programs are well-formed, and a
    program packed into a capsule is loaded as it was.
  \<^item> \<open>Float32\<close>, \<open>Rust_Panic\<close>, \<open>Tensor_Ops\<close>, \<open>Tensor_Safety\<close>, \<open>Tensor_Layout\<close>:
    \<open>ntd-runtime/src/tensor.rs\<close>. Binary32 arithmetic on bit patterns; code that may panic, with the logic
    \<open>yields\<close> of total correctness; the loop nests of the tensor operations, which never index out of range
    and panic exactly when a product or a gather reserves more than \<open>isize::MAX\<close> bytes (\<open>oversized\<close>);
    row-major layout and \<open>transpose\<close>.
  \<^item> \<open>Graph_Executor\<close>: \<open>ntd-runtime/src/executor.rs\<close>. The executor releases values after their last use and
    is equal to an evaluation that keeps them; the locale \<open>tensor_provider\<close> is the contract of a provider with the
    arguments for which it panics, interpreted by the reference and the tiled one. \<open>called\<close> says which calls an
    evaluation makes, and \<open>justified\<close> what each error tells of them.
  \<^item> \<open>Runtime_Tokenizer\<close>, \<open>Gpt2_Tokenizer\<close>, \<open>Tokenizer_Correct\<close>, \<open>Gpt2_Correct\<close>, \<open>Spm_Correct\<close>, \<open>Text_Tokenizer\<close>:
    \<open>ntd-runtime/src/tokenizer.rs\<close>, \<open>gpt2.rs\<close>. The three tokenizers that run at inference; the locale
    \<open>text_tokenizer\<close> is the contract of the trait \<open>TextTokenizer\<close>, which all three interpret: texts are
    encoded within the vocabulary and decoded again, as they are shown (SentencePiece shows its escape character as a space). The locale \<open>priority_queue\<close> is what merging relies on.
  \<^item> \<open>Generation\<close>, \<open>Generation_Correct\<close>, \<open>Kv_Cache\<close>: \<open>ntd-runtime/src/generation.rs\<close>. Sampling, the generation
    loops over the graph executor, plain, streaming and on texts, and the key/value cache. With every \<open>tensor_provider\<close>
    generation panics only in a call of which the provider says so, each error is the true one of its step
    (\<open>step_justified\<close>, \<open>sampling_justified\<close>), each token is the one that its distribution, the seed and the step select
    (\<open>sampled_run\<close>), streaming follows plain generation, and the cache implements a sequence of key and value rows for every layer.
  \<^item> \<open>Mobile_Compute\<close>, \<open>Mobile_Execution\<close>: \<open>ntd-runtime/src/mobile.rs\<close>. Paging, placement, the tiled
    product, and the adaptive provider with its order and its fallback.

  \<^bold>\<open>How state and operations correspond.\<close> A struct is a record with prefixed fields, an enum a
  datatype, an operation of a component a definition of the same name. Loops are structural recursion
  over the list they run through, so every operation is total. Trait objects (planner, executor,
  verifier, adapters, delta hooks, tokenizers, the probe of native reasoning) are arguments; those that
  act on the outside take and return a world of an arbitrary type, so that the theorems hold for all of
  them and can say when the world is not touched. The Unicode predicate \<open>is_alphanumeric\<close> is an
  argument too. Single-precision numbers appear in the choice of a budget, where they are NaN, the
  infinities or exact rationals, compared with the exact values of the single-precision literals, and
  in tensor scales and token scores, where they are bit patterns, and as tensor elements, where
  the correctly rounded operations are computed on the bit patterns and \<open>exp\<close>, \<open>sin\<close>, \<open>cos\<close> and \<open>powf\<close>
  (and \<open>ln\<close>, in the signals of an inference) are arguments. Loops that need not end (pages, blocks of the tiled product, tokenizers) are partial
  functions, proved to return. Facts on capsules leave SHA-256
  opaque: none rests on the absence of collisions, a collision is named as the alternative.
  \<open>usize\<close> has 64 bits. Strings are byte sequences; where a theorem needs them to be valid UTF-8, as
  every Rust string is, it says so (\<open>str_ok\<close> and the predicates built on it).

  \<^bold>\<open>What the theorems show.\<close> The properties carry numbers, C1 being the most important. In groups:
  the kernel and the fabric keep their invariants on every outcome and stay within the task or plan
  they work on; nothing outside is touched without authority and nothing is committed without the
  required verification; rollback undoes in reverse order; the byte formats restore what was written
  and accept only what could have been written (MCS97 and the padding of capsules apart, see below);
  sessions and packed programs survive; a capsule is pinned by its root hash; the kernel and the
  fabric refine their life cycles; bounded work terminates; texts survive the tokenizers (SentencePiece turns its
  escape character U+2581 into a space); generation stays
  within its limits and streaming follows it; tensor graphs panic only for products and gathers of more
  than \<open>isize::MAX\<close> bytes; the first provider that does not fail decides, which gives the outcome of the reference when the
  accelerators are equivalent to it, as the code takes them to be once that is recorded; what is placed fits the device; budgets,
  delays and rankings are what they promise. Further theorems show defects: \<open>complete_external_task\<close> may overrun the step
  budget, a rollback that fails midway leaves a state that fails validation, a missing adapter makes the
  fabric forget a suspension, a tensor bound to the graph value with the largest number loses its
  binding when it is written, the bytes between the payloads of a capsule are covered by no hash, and
  a small page size makes the allocation of the page table panic, as a huge bound on new tokens does for
  generation and an empty inner dimension for a product (\<open>empty_product_panics\<close>).
  The decoder of MCS97 normalizes the capability snapshot, so it is
  not canonical in the bytes, only in the bundles.

  \<^bold>\<open>Not modelled.\<close> Failure to allocate memory, and with it the reservations that decoders make for
  counts they have not checked yet; the capacity is checked for the page table of a paged region, the new tokens of a generation and the
  results of products and gathers, whose sizes are not bounded by data that is already there. The text of errors that the mobile shell renders with \<open>{:?}\<close>: the
  error itself stands for it. The scores of
  continuations, which are computed in double precision, the
  assistant loop, portability, the PC fabric, model import and the
  validation tools are not part of the development; the Android bridge, command line tools and user
  interface state are input and output.
\<close>

end
